(* ===== verification/Prelude.thy ===== *)
theory Prelude
  imports Main "HOL-Library.Char_ord" "HOL-Library.List_Lexorder" "HOL-Library.AList"
begin

text \<open>
  What the component theories share.

  Go strings are byte strings, so a string is a \<^typ>\<open>char list\<close> and a character is a byte; the
  library's lexicographic order on lists of characters is Go's bytewise string order.  The first
  part models the functions of package strings that the program calls.  Go's ToLower and ToUpper
  work on Unicode; the only code points outside ASCII whose image is an ASCII letter are U+0130 and
  U+212A (lower case) and U+0131 and U+017F (upper case), and those are modelled.  Any other code
  point is left as it is: its image is not ASCII, and the program compares images only with ASCII
  constants.

  The second part holds facts about association lists with distinct keys, the model of Go maps that
  the program iterates over.  A Go map has no iteration order, and an association list fixes one:
  theorems hold for every list, so for every order.
\<close>

named_theorems go_string_simps
named_theorems alist_simps

section \<open>Package strings\<close>

definition byte :: "char \<Rightarrow> nat" where
  "byte c = of_char c"

definition is_upper_byte :: "char \<Rightarrow> bool" where
  "is_upper_byte c \<longleftrightarrow> 65 \<le> byte c \<and> byte c \<le> 90"

definition is_lower_byte :: "char \<Rightarrow> bool" where
  "is_lower_byte c \<longleftrightarrow> 97 \<le> byte c \<and> byte c \<le> 122"

definition is_digit_byte :: "char \<Rightarrow> bool" where
  "is_digit_byte c \<longleftrightarrow> 48 \<le> byte c \<and> byte c \<le> 57"

definition lower_byte :: "char \<Rightarrow> char" where
  "lower_byte c = (if is_upper_byte c then char_of (byte c + 32) else c)"

definition upper_byte :: "char \<Rightarrow> char" where
  "upper_byte c = (if is_lower_byte c then char_of (byte c - 32) else c)"

text \<open>Runes outside ASCII with an ASCII image, rewritten to that image.\<close>

fun fold_lower_runes :: "string \<Rightarrow> string" where
  "fold_lower_runes (a # b # c # cs) =
     (if byte a = 0xE2 \<and> byte b = 0x84 \<and> byte c = 0xAA then CHR ''k'' # fold_lower_runes cs
      else if byte a = 0xC4 \<and> byte b = 0xB0 then CHR ''i'' # fold_lower_runes (c # cs)
      else a # fold_lower_runes (b # c # cs))"
| "fold_lower_runes [a, b] =
     (if byte a = 0xC4 \<and> byte b = 0xB0 then ''i'' else [a, b])"
| "fold_lower_runes cs = cs"

fun fold_upper_runes :: "string \<Rightarrow> string" where
  "fold_upper_runes (a # b # cs) =
     (if byte a = 0xC4 \<and> byte b = 0xB1 then CHR ''I'' # fold_upper_runes cs
      else if byte a = 0xC5 \<and> byte b = 0xBF then CHR ''S'' # fold_upper_runes cs
      else a # fold_upper_runes (b # cs))"
| "fold_upper_runes cs = cs"

definition to_lower :: "string \<Rightarrow> string" where
  "to_lower s = map lower_byte (fold_lower_runes s)"

definition to_upper :: "string \<Rightarrow> string" where
  "to_upper s = map upper_byte (fold_upper_runes s)"

fun has_prefix :: "string \<Rightarrow> string \<Rightarrow> bool" where
  "has_prefix [] s = True"
| "has_prefix (p # ps) [] = False"
| "has_prefix (p # ps) (c # cs) = (p = c \<and> has_prefix ps cs)"

definition has_suffix :: "string \<Rightarrow> string \<Rightarrow> bool" where
  "has_suffix x s = has_prefix (rev x) (rev s)"

fun contains :: "string \<Rightarrow> string \<Rightarrow> bool" where
  "contains x [] = (x = [])"
| "contains x (c # cs) = (has_prefix x (c # cs) \<or> contains x cs)"

definition contains_any :: "string \<Rightarrow> string \<Rightarrow> bool" where
  "contains_any chars s = list_ex (\<lambda>c. List.member chars c) s"

text \<open>\<open>strings.ReplaceAll\<close>; every call of the program replaces a single byte.\<close>

definition replace_all :: "char \<Rightarrow> string \<Rightarrow> string \<Rightarrow> string" where
  "replace_all old new s = concat (map (\<lambda>c. if c = old then new else [c]) s)"

definition trim_prefix :: "string \<Rightarrow> string \<Rightarrow> string" where
  "trim_prefix p s = (if has_prefix p s then drop (length p) s else s)"

definition trim_suffix :: "string \<Rightarrow> string \<Rightarrow> string" where
  "trim_suffix x s = (if has_suffix x s then take (length s - length x) s else s)"

fun join :: "string \<Rightarrow> string list \<Rightarrow> string" where
  "join sep [] = []"
| "join sep [x] = x"
| "join sep (x # y # xs) = x @ sep @ join sep (y # xs)"

lemma has_prefix_iff [go_string_simps]: "has_prefix p s \<longleftrightarrow> (\<exists>r. s = p @ r)"
  by (induction p s rule: has_prefix.induct) auto

lemma has_prefix_append [simp]: "has_prefix p (p @ r)"
  by (simp add: has_prefix_iff)

lemma has_suffix_iff [go_string_simps]: "has_suffix x s \<longleftrightarrow> (\<exists>r. s = r @ x)"
proof
  assume "has_suffix x s"
  then obtain r where "rev s = rev x @ r" by (auto simp: has_suffix_def has_prefix_iff)
  then have "s = rev r @ x" by (metis rev_append rev_rev_ident)
  then show "\<exists>r. s = r @ x" ..
qed (auto simp: has_suffix_def has_prefix_iff)

lemma contains_iff [go_string_simps]: "contains x s \<longleftrightarrow> (\<exists>p r. s = p @ x @ r)"
proof (induction s)
  case (Cons c cs)
  have "(\<exists>p r. c # cs = p @ x @ r) \<longleftrightarrow> (\<exists>r. c # cs = x @ r) \<or> (\<exists>p r. cs = p @ x @ r)"
    by (metis (no_types, lifting) append_Cons append_Nil append_eq_Cons_conv)
  with Cons show ?case by (simp add: has_prefix_iff)
qed auto

lemma replace_all_Nil [simp]: "replace_all o1 n [] = []"
  by (simp add: replace_all_def)

lemma replace_all_Cons [simp]:
  "replace_all o1 n (c # cs) = (if c = o1 then n else [c]) @ replace_all o1 n cs"
  by (simp add: replace_all_def)

lemma replace_all_append [simp]:
  "replace_all o1 n (xs @ ys) = replace_all o1 n xs @ replace_all o1 n ys"
  by (induction xs) auto

lemma replace_all_id: "o1 \<notin> set s \<Longrightarrow> replace_all o1 n s = s"
  by (induction s) auto

lemma trim_prefix_append [simp]: "trim_prefix p (p @ r) = r"
  by (simp add: trim_prefix_def)

lemma join_Cons: "xs \<noteq> [] \<Longrightarrow> join sep (x # xs) = x @ sep @ join sep xs"
  by (cases xs) auto

section \<open>Maps as association lists\<close>

definition keys :: "('k \<times> 'v) list \<Rightarrow> 'k list" where
  "keys m = map fst m"

definition wf_map :: "('k \<times> 'v) list \<Rightarrow> bool" where
  "wf_map m \<longleftrightarrow> distinct (keys m)"

lemma wf_map_Nil [simp]: "wf_map []"
  by (simp add: wf_map_def keys_def)

lemma set_keys [alist_simps]: "set (keys m) = dom (map_of m)"
  by (simp add: keys_def dom_map_of_conv_image_fst)

lemma alist_lookup_update [alist_simps, simp]: "map_of (AList.update k v m) = (map_of m)(k \<mapsto> v)"
  by (rule update_conv')

lemma alist_lookup_delete [alist_simps, simp]: "map_of (AList.delete k m) = (map_of m)(k := None)"
  by (rule delete_conv')

lemma wf_map_update [intro, simp]: "wf_map m \<Longrightarrow> wf_map (AList.update k v m)"
  unfolding wf_map_def keys_def by (rule distinct_update)

lemma wf_map_delete [intro, simp]: "wf_map m \<Longrightarrow> wf_map (AList.delete k m)"
  unfolding wf_map_def keys_def by (rule distinct_delete)

lemma wf_map_mem: "wf_map m \<Longrightarrow> (k, v) \<in> set m \<longleftrightarrow> map_of m k = Some v"
  by (simp add: wf_map_def keys_def)

text \<open>The sorted list of a map's keys, as \<open>slices.Sort\<close> over the collected keys gives it.\<close>

definition sorted_keys :: "(string \<times> 'v) list \<Rightarrow> string list" where
  "sorted_keys m = sort (keys m)"

lemma set_sorted_keys [simp]: "set (sorted_keys m) = dom (map_of m)"
  by (simp add: sorted_keys_def set_keys)

lemma sorted_sorted_keys [simp]: "sorted (sorted_keys m)"
  by (simp add: sorted_keys_def)

lemma distinct_sorted_keys: "wf_map m \<Longrightarrow> distinct (sorted_keys m)"
  by (simp add: sorted_keys_def wf_map_def)

text \<open>Two maps with the same entries give the same sorted keys: iteration order is not observable.\<close>

lemma sorted_keys_cong:
  assumes "wf_map m" and "wf_map m'" and "map_of m = map_of m'"
  shows "sorted_keys m = sorted_keys m'"
proof -
  have "set (sorted_keys m) = set (sorted_keys m')" using assms(3) by simp
  then show ?thesis
    using assms(1,2) by (metis distinct_sorted_keys sorted_distinct_set_unique sorted_sorted_keys)
qed

end
