(* ===== verification/Errors.thy ===== *)
theory Errors
  imports Prelude
begin

text \<open>
  The error contract of the facade (errors.go): stable codes, the \<open>Error\<close> value, the traversal of
  wrapped errors that \<open>errors.As\<close> and \<open>errors.Is\<close> perform, and \<open>ClassifyError\<close>.

  A Go error value is a \<open>go_error\<close>: the program's own \<open>*Error\<close>, a sentinel compared by identity, a
  plain error with a text (of the program, a driver or the system), a \<open>fmt.Errorf("prefix: %w", e)\<close>
  and an \<open>errors.Join\<close>.  A nil error is \<open>None\<close> of a \<open>go_error option\<close>.
\<close>

datatype error_code =
    CodeAuthentication | CodeProtocolMismatch | CodeSourceUnavailable | CodeRejectedStatement
  | CodeCancelled | CodeTimeout | CodeResourceExhausted | CodeInternal

fun code_string :: "error_code \<Rightarrow> string" where
  "code_string CodeAuthentication = ''QR_AUTHENTICATION''"
| "code_string CodeProtocolMismatch = ''QR_PROTOCOL_MISMATCH''"
| "code_string CodeSourceUnavailable = ''QR_SOURCE_UNAVAILABLE''"
| "code_string CodeRejectedStatement = ''QR_REJECTED_STATEMENT''"
| "code_string CodeCancelled = ''QR_CANCELLED''"
| "code_string CodeTimeout = ''QR_TIMEOUT''"
| "code_string CodeResourceExhausted = ''QR_RESOURCE_EXHAUSTED''"
| "code_string CodeInternal = ''QR_INTERNAL''"

datatype sentinel = DeadlineExceeded | Canceled | ErrNotFound | ErrReadOnly | ErrNotExist

datatype go_error =
    QError error_code string "go_error option"
  | Sentinel sentinel
  | Plain string
  | Wrap string go_error
  | Joined "go_error list"

type_synonym 'a res = "go_error + 'a"

fun sentinel_text :: "sentinel \<Rightarrow> string" where
  "sentinel_text DeadlineExceeded = ''context deadline exceeded''"
| "sentinel_text Canceled = ''context canceled''"
| "sentinel_text ErrNotFound = ''credential not found''"
| "sentinel_text ErrReadOnly = ''credential store is read-only''"
| "sentinel_text ErrNotExist = ''file does not exist''"

text \<open>\<open>Error.Error\<close>, and the text of the other error values.\<close>

definition public_text :: "error_code \<Rightarrow> string \<Rightarrow> string" where
  "public_text c m = (if m = [] then code_string c else code_string c @ '': '' @ m)"

fun error_text :: "go_error \<Rightarrow> string" where
  "error_text (QError c m _) = public_text c m"
| "error_text (Sentinel s) = sentinel_text s"
| "error_text (Plain m) = m"
| "error_text (Wrap m e) = m @ '': '' @ error_text e"
| "error_text (Joined es) = join (''\<newline>'') (map error_text es)"

text \<open>\<open>errors.As\<close> for \<open>*Error\<close>: depth first, the first one found.\<close>

fun as_public :: "go_error \<Rightarrow> (error_code \<times> string \<times> go_error option) option"
  and as_public_list :: "go_error list \<Rightarrow> (error_code \<times> string \<times> go_error option) option" where
  "as_public (QError c m e) = Some (c, m, e)"
| "as_public (Sentinel s) = None"
| "as_public (Plain m) = None"
| "as_public (Wrap m e) = as_public e"
| "as_public (Joined es) = as_public_list es"
| "as_public_list [] = None"
| "as_public_list (e # es) =
     (case as_public e of Some p \<Rightarrow> Some p | None \<Rightarrow> as_public_list es)"

text \<open>\<open>errors.Is\<close> against a sentinel; \<open>Error.Unwrap\<close> leads into the cause.\<close>

fun is_sentinel :: "sentinel \<Rightarrow> go_error \<Rightarrow> bool" where
  "is_sentinel s (QError c m None) = False"
| "is_sentinel s (QError c m (Some e)) = is_sentinel s e"
| "is_sentinel s (Sentinel t) = (s = t)"
| "is_sentinel s (Plain m) = False"
| "is_sentinel s (Wrap m e) = is_sentinel s e"
| "is_sentinel s (Joined es) = list_ex (is_sentinel s) es"

text \<open>\<open>errors.Join\<close>: nil arguments are dropped, and nothing but nil joins to nil.\<close>

definition errors_join :: "go_error option list \<Rightarrow> go_error option" where
  "errors_join es = (case List.map_filter id es of [] \<Rightarrow> None | e # r \<Rightarrow> Some (Joined (e # r)))"

definition IsCode :: "go_error option \<Rightarrow> error_code \<Rightarrow> bool" where
  "IsCode err code = (case err of None \<Rightarrow> False
     | Some e \<Rightarrow> (case as_public e of None \<Rightarrow> False | Some (c, _, _) \<Rightarrow> c = code))"

definition contains_one_of :: "string list \<Rightarrow> string \<Rightarrow> bool" where
  "contains_one_of xs s = list_ex (\<lambda>x. contains x s) xs"

definition ClassifyError :: "go_error option \<Rightarrow> go_error option" where
  "ClassifyError err = (case err of None \<Rightarrow> None
   | Some e \<Rightarrow>
     Some (case as_public e of
       Some (c, m, cause) \<Rightarrow> QError c m cause
     | None \<Rightarrow>
         if is_sentinel DeadlineExceeded e then QError CodeTimeout ''query timed out'' (Some e)
         else if is_sentinel Canceled e then QError CodeCancelled ''query cancelled'' (Some e)
         else
           let lower = to_lower (error_text e) in
           if contains_one_of [''out of memory'', ''memory limit'', ''temp directory'',
                ''temporary directory'', ''resource exhausted''] lower
           then QError CodeResourceExhausted ''query resource limit exceeded'' (Some e)
           else if contains_one_of [''unauthorized'', ''authorization'', ''not authorized''] lower
           then QError CodeRejectedStatement ''statement rejected by policy'' (Some e)
           else if contains_one_of [''connection refused'', ''failed to connect'',
                ''connection closed'', ''server closed the connection''] lower
           then QError CodeSourceUnavailable ''source is unavailable'' (Some e)
           else if contains_one_of [''authentication'', ''invalid token''] lower
           then QError CodeAuthentication ''authentication failed'' (Some e)
           else QError CodeInternal ''query failed'' (Some e)))"

text \<open>\<open>sanitize\<close> of service.go: the public text of the first public error, or a fixed text.\<close>

definition sanitize :: "go_error \<Rightarrow> string" where
  "sanitize e = (case as_public e of
     Some (c, m, _) \<Rightarrow> public_text c m
   | None \<Rightarrow> public_text CodeInternal ''internal failure'')"

section \<open>Lemmas\<close>

text \<open>The code and message a nonpublic error can be given.\<close>

definition classified_table :: "(error_code \<times> string) list" where
  "classified_table =
    [(CodeTimeout, ''query timed out''), (CodeCancelled, ''query cancelled''),
     (CodeResourceExhausted, ''query resource limit exceeded''),
     (CodeRejectedStatement, ''statement rejected by policy''),
     (CodeSourceUnavailable, ''source is unavailable''),
     (CodeAuthentication, ''authentication failed''), (CodeInternal, ''query failed'')]"

lemma classify_public_eq:
  "as_public e = Some (c, m, cause) \<Longrightarrow> ClassifyError (Some e) = Some (QError c m cause)"
  by (simp add: ClassifyError_def)

lemma classify_nonpublic:
  assumes "as_public e = None"
  shows "\<exists>c m. ClassifyError (Some e) = Some (QError c m (Some e)) \<and> (c, m) \<in> set classified_table"
  using assms
  by (simp add: ClassifyError_def classified_table_def Let_def)

lemma classify_shape:
  "ClassifyError (Some e) = Some e' \<Longrightarrow> \<exists>c m cause. e' = QError c m cause \<and>
     (as_public e = Some (c, m, cause) \<or>
      as_public e = None \<and> cause = Some e \<and> (c, m) \<in> set classified_table)"
  using classify_nonpublic [of e] by (cases "as_public e") (auto simp: classify_public_eq)

lemma code_string_inj: "code_string c = code_string d \<longleftrightarrow> c = d"
  by (cases c; cases d) simp_all

lemma errors_join_None_iff: "errors_join es = None \<longleftrightarrow> set es \<subseteq> {None}"
  by (induction es)
    (auto simp: errors_join_def List.map_filter_def split: list.splits option.splits)

section \<open>Properties\<close>

text \<open>
  C1. The error classifier is total on failures, idempotent and closed over the public contract: it
  maps nil to nil and every failure to an \<open>*Error\<close>, which is the first public error of the chain
  when there is one, and otherwise one of seven fixed (code, message) pairs, so its text never
  carries the text of the failure, which is kept as the cause.
\<close>

theorem classify_contract:
  "(ClassifyError err = None \<longleftrightarrow> err = None) \<and>
   ClassifyError (ClassifyError err) = ClassifyError err \<and>
   (\<forall>e. err = Some e \<longrightarrow> (\<exists>c m cause. ClassifyError err = Some (QError c m cause) \<and>
      (if as_public e = None
       then cause = Some e \<and> (c, m) \<in> set classified_table
       else as_public e = Some (c, m, cause))))"
proof (cases err)
  case None
  then show ?thesis by (simp add: ClassifyError_def)
next
  case (Some e)
  then obtain e' where e': "ClassifyError err = Some e'" by (simp add: ClassifyError_def)
  then obtain c m cause where "e' = QError c m cause"
    "if as_public e = None then cause = Some e \<and> (c, m) \<in> set classified_table
     else as_public e = Some (c, m, cause)"
    using classify_shape [of e e'] Some by fastforce
  then show ?thesis using e' Some by (simp add: classify_public_eq)
qed

theorem classify_contract_witness:
  "\<exists>c m cause. ClassifyError (Some (Plain ''dial: connection refused'')) = Some (QError c m cause) \<and>
     cause = Some (Plain ''dial: connection refused'') \<and> (c, m) \<in> set classified_table"
  using classify_contract [of "Some (Plain ''dial: connection refused'')"] by auto

text \<open>
  What \<open>sanitize\<close> stores as the last error depends on the code and message of the first public
  error only: two failures that differ in causes, wrapping or private texts are indistinguishable.
\<close>

theorem sanitize_noninterference:
  "map_option (\<lambda>(c, m, _). (c, m)) (as_public e) = map_option (\<lambda>(c, m, _). (c, m)) (as_public e')
   \<Longrightarrow> sanitize e = sanitize e'"
  by (auto simp: sanitize_def split: option.splits)

theorem sanitize_noninterference_witness:
  "sanitize (Wrap ''outer'' (QError CodeTimeout ''query timed out'' (Some (Plain ''password=x'')))) =
   sanitize (QError CodeTimeout ''query timed out'' None)"
  by (rule sanitize_noninterference) simp

end
