(* ===== verification/Protocol.thy ===== *)
theory Protocol
  imports Errors "HOL-Library.Multiset"
begin

text \<open>
  The protocol constants (version.go) and the identity contract (protocol/v2/identity.go): what the
  data plane publishes about itself and when a client accepts it.  The regular expression of a
  product version is a matcher over the characters; each of its parts ends at a character the next
  one cannot start with, so the matcher needs no backtracking.
\<close>

section \<open>version.go\<close>

definition Product :: string where "Product = ''quackridge''"
definition ProtocolVersion :: int where "ProtocolVersion = 2"
definition MetadataVersion :: int where "MetadataVersion = 2"
definition DuckDBVersion :: string where "DuckDBVersion = ''1.5.5''"
definition Version :: string where "Version = ''0.1.0-dev''"

definition Capabilities :: "string list" where
  "Capabilities = [''cancellation_noop'', ''metadata_v2'', ''pairing_v2'', ''query_ids'',
     ''sticky_sessions'']"

definition ExtensionVersions :: "(string \<times> string) list" where
  "ExtensionVersions = [(''httpfs'', ''827222f''), (''mysql_scanner'', ''7267164''),
     (''odbc_scanner'', ''274a330''), (''postgres_scanner'', ''41223e5''), (''quack'', ''c154811''),
     (''sqlite_scanner'', ''f79b1db'')]"

section \<open>protocol/v2/identity.go\<close>

text \<open>The pattern \<open>^[0-9]+\.[0-9]+\.[0-9]+(?:[-+][0-9A-Za-z.-]+)?$\<close>.\<close>

definition version_suffix_char :: "char \<Rightarrow> bool" where
  "version_suffix_char c \<longleftrightarrow> is_digit_byte c \<or> is_upper_byte c \<or> is_lower_byte c \<or>
     c = CHR ''.'' \<or> c = CHR ''-''"

definition number_then :: "(string \<Rightarrow> bool) \<Rightarrow> string \<Rightarrow> bool" where
  "number_then k s \<longleftrightarrow> takeWhile is_digit_byte s \<noteq> [] \<and> k (dropWhile is_digit_byte s)"

fun dot_then :: "(string \<Rightarrow> bool) \<Rightarrow> string \<Rightarrow> bool" where
  "dot_then k [] = False"
| "dot_then k (c # cs) = (c = CHR ''.'' \<and> k cs)"

fun version_suffix :: "string \<Rightarrow> bool" where
  "version_suffix [] = True"
| "version_suffix (c # cs) =
     ((c = CHR ''-'' \<or> c = CHR ''+'') \<and> cs \<noteq> [] \<and> list_all version_suffix_char cs)"

definition productVersionPattern :: "string \<Rightarrow> bool" where
  "productVersionPattern =
     number_then (dot_then (number_then (dot_then (number_then version_suffix))))"

record identity =
  id_Product :: string
  id_ProductVersion :: string
  id_ProtocolVersion :: int
  id_MetadataVersion :: int
  id_ConnectorTypes :: "string list"
  id_ReadOnly :: bool
  id_Capabilities :: "string list"

definition connector_types :: "string list" where
  "connector_types = [''duckdb'', ''mysql'', ''odbc'', ''postgres'', ''sqlite'']"

definition CurrentIdentity :: identity where
  "CurrentIdentity = \<lparr>id_Product = Product, id_ProductVersion = Version,
     id_ProtocolVersion = ProtocolVersion, id_MetadataVersion = MetadataVersion,
     id_ConnectorTypes = connector_types, id_ReadOnly = True, id_Capabilities = Capabilities\<rparr>"

definition mismatch :: "string \<Rightarrow> go_error option \<Rightarrow> go_error" where
  "mismatch message cause = QError CodeProtocolMismatch message cause"

definition ValidateIdentity :: "identity \<Rightarrow> go_error option" where
  "ValidateIdentity i =
     (if id_Product i \<noteq> Product then Some (mismatch ''server is not QuackRidge'' None)
      else if \<not> productVersionPattern (id_ProductVersion i)
      then Some (mismatch ''product version is invalid'' None)
      else if id_ProtocolVersion i \<noteq> ProtocolVersion
      then Some (mismatch ''protocol version is unsupported'' None)
      else if id_MetadataVersion i \<noteq> MetadataVersion
      then Some (mismatch ''metadata version is unsupported'' None)
      else if \<not> id_ReadOnly i then Some (mismatch ''read-only identity is required'' None)
      else if id_ConnectorTypes i \<noteq> connector_types
      then Some (mismatch ''connector capability set is unsupported'' None)
      else if length (id_Capabilities i) \<noteq> length Capabilities
      then Some (mismatch ''capability set is unsupported'' None)
      else if list_ex (\<lambda>required. \<not> List.member (id_Capabilities i) required) Capabilities
      then Some (mismatch ''required capability is missing'' None)
      else None)"

text \<open>The relation every client reads, with the DuckDB type of each column.\<close>

definition MetadataColumns :: "(string \<times> string) list" where
  "MetadataColumns =
    [(''source_id'', ''VARCHAR''), (''source_name'', ''VARCHAR''), (''connector_type'', ''VARCHAR''),
     (''database_type'', ''VARCHAR''), (''source_health'', ''VARCHAR''),
     (''catalog_name'', ''VARCHAR''), (''schema_name'', ''VARCHAR''), (''object_name'', ''VARCHAR''),
     (''object_type'', ''VARCHAR''), (''column_name'', ''VARCHAR''),
     (''ordinal_position'', ''INTEGER''), (''duckdb_type'', ''VARCHAR''),
     (''nullable'', ''BOOLEAN''), (''is_system_schema'', ''BOOLEAN''), (''error_code'', ''VARCHAR'')]"

section \<open>Lemmas\<close>

lemma distinct_Capabilities: "distinct Capabilities"
  by (simp add: Capabilities_def)

text \<open>
  A list as long as a duplicate-free list and holding all its elements is a rearrangement of it:
  the length test and the containment test together leave no room for an unknown capability.
\<close>

lemma mset_eq_if_covers:
  assumes "length xs = length ys" and "distinct ys" and "set ys \<subseteq> set xs"
  shows "mset xs = mset ys"
proof -
  have "card (set ys) = length xs" using assms(1,2) by (simp add: distinct_card)
  moreover have "card (set ys) \<le> card (set xs)" using assms(3) by (simp add: card_mono)
  moreover have "card (set xs) \<le> length xs" by (rule card_length)
  ultimately have "card (set xs) = length xs" and "card (set ys) = card (set xs)" by auto
  then have "distinct xs" and "set ys = set xs"
    using assms(3) card_subset_eq [of "set xs" "set ys"] by (simp_all add: card_distinct)
  then show ?thesis using assms(2) by (metis set_eq_iff_mset_eq_distinct)
qed

lemma covers_iff_mset_eq:
  assumes "distinct ys"
  shows "length xs = length ys \<and> (\<forall>y\<in>set ys. y \<in> set xs) \<longleftrightarrow> mset xs = mset ys"
proof
  assume "length xs = length ys \<and> (\<forall>y\<in>set ys. y \<in> set xs)"
  then show "mset xs = mset ys" using assms by (intro mset_eq_if_covers) auto
next
  assume "mset xs = mset ys"
  then show "length xs = length ys \<and> (\<forall>y\<in>set ys. y \<in> set xs)"
    by (metis mset_eq_length mset_eq_setD)
qed

lemma ValidateIdentity_code: "ValidateIdentity i = Some e \<Longrightarrow> IsCode (Some e) CodeProtocolMismatch"
  by (auto simp: ValidateIdentity_def mismatch_def IsCode_def split: if_splits)

section \<open>Properties\<close>

text \<open>
  Identity validation fails closed: an identity is accepted exactly when product, versions,
  read-only flag and connector types are the supported ones, the product version is well formed and
  the capabilities are the supported set up to order (none missing, none unknown, none repeated);
  every rejection carries the protocol-mismatch code.
\<close>

theorem ValidateIdentity_exact:
  "(ValidateIdentity i = None \<longleftrightarrow>
     id_Product i = Product \<and> productVersionPattern (id_ProductVersion i) \<and>
     id_ProtocolVersion i = ProtocolVersion \<and> id_MetadataVersion i = MetadataVersion \<and>
     id_ReadOnly i \<and> id_ConnectorTypes i = connector_types \<and>
     mset (id_Capabilities i) = mset Capabilities) \<and>
   (ValidateIdentity i \<noteq> None \<longrightarrow> IsCode (ValidateIdentity i) CodeProtocolMismatch)"
proof
  have caps: "(length (id_Capabilities i) = length Capabilities \<and>
      \<not> list_ex (\<lambda>r. \<not> List.member (id_Capabilities i) r) Capabilities) \<longleftrightarrow>
      mset (id_Capabilities i) = mset Capabilities"
    using covers_iff_mset_eq [OF distinct_Capabilities, of "id_Capabilities i"]
    by (simp add: list_ex_iff)
  show "ValidateIdentity i = None \<longleftrightarrow>
     id_Product i = Product \<and> productVersionPattern (id_ProductVersion i) \<and>
     id_ProtocolVersion i = ProtocolVersion \<and> id_MetadataVersion i = MetadataVersion \<and>
     id_ReadOnly i \<and> id_ConnectorTypes i = connector_types \<and>
     mset (id_Capabilities i) = mset Capabilities"
    unfolding caps [symmetric] by (auto simp: ValidateIdentity_def)
  show "ValidateIdentity i \<noteq> None \<longrightarrow> IsCode (ValidateIdentity i) CodeProtocolMismatch"
    using ValidateIdentity_code by fastforce
qed

theorem ValidateIdentity_exact_witness:
  "ValidateIdentity CurrentIdentity = None \<and>
   IsCode (ValidateIdentity (CurrentIdentity\<lparr>id_Capabilities := tl Capabilities\<rparr>))
     CodeProtocolMismatch"
proof
  have "productVersionPattern Version"
    by (simp add: productVersionPattern_def number_then_def Version_def version_suffix_char_def
        is_digit_byte_def is_lower_byte_def is_upper_byte_def byte_def)
  then show "ValidateIdentity CurrentIdentity = None"
    using ValidateIdentity_exact [of CurrentIdentity] by (simp add: CurrentIdentity_def)
  have "size (mset (tl Capabilities)) \<noteq> size (mset Capabilities)" by (simp add: Capabilities_def)
  then have "mset (tl Capabilities) \<noteq> mset Capabilities" by metis
  then show "IsCode (ValidateIdentity (CurrentIdentity\<lparr>id_Capabilities := tl Capabilities\<rparr>))
     CodeProtocolMismatch"
    using ValidateIdentity_exact [of "CurrentIdentity\<lparr>id_Capabilities := tl Capabilities\<rparr>"]
    by simp
qed

end
