(* ===== verification/Lifecycle.thy ===== *)
theory Lifecycle
  imports Protocol
begin

text \<open>
  The facade service.go.  \<open>Service\<close> drives a runtime through the narrow \<open>Runtime\<close> interface
  (\<open>runtime_ops\<close>: a record of the four methods over an abstract runtime state \<open>'r\<close>, which an
  implementation of the interface fills in) and keeps an externally visible status.  Each operation
  holds \<open>opMu\<close> throughout and takes \<open>mu\<close> twice: a first critical section checks the state and sets
  a transitional one, then the runtime is called with \<open>mu\<close> free, then a second critical section
  records the outcome.  The two sections are functions of their own (\<open>..._begin\<close>, \<open>..._finish\<close>);
  \<open>Start\<close>, \<open>Reload\<close> and \<open>Stop\<close> compose them as the code does, and \<open>svc_step\<close> interleaves them
  with concurrent operations, where \<open>svc_op\<close> is the holder of \<open>opMu\<close>.
\<close>

datatype service_state =
  StateStopped | StateStarting | StateReady | StateDegraded | StateReloading | StateStopping
| StateFailed

fun state_text :: "service_state \<Rightarrow> string" where
  "state_text StateStopped = ''stopped''" | "state_text StateStarting = ''starting''"
| "state_text StateReady = ''ready''" | "state_text StateDegraded = ''degraded''"
| "state_text StateReloading = ''reloading''" | "state_text StateStopping = ''stopping''"
| "state_text StateFailed = ''failed''"

record source_status =
  ss_ID :: string
  ss_Name :: string
  ss_Type :: string
  ss_Health :: string
  ss_ErrorCode :: string

record status =
  st_State :: service_state
  st_Endpoint :: string
  st_StartedAt :: "int option"  \<comment> \<open>None is the zero time\<close>
  st_Sources :: "source_status list"
  st_LastError :: string
  st_Capabilities :: "string list"

record options =
  op_ExtensionDir :: string
  op_AllowedPaths :: "string list"
  op_ListenHost :: string
  op_ListenPort :: int
  op_Token :: string
  op_MemoryLimit :: string
  op_TempLimit :: string
  op_Threads :: int
  op_QueryTimeout :: int

record 'r runtime_ops =
  rt_Start :: "'r \<Rightarrow> options \<Rightarrow> string res \<times> 'r"
  rt_Reload :: "'r \<Rightarrow> go_error option \<times> 'r"
  rt_Stop :: "'r \<Rightarrow> go_error option \<times> 'r"
  rt_Sources :: "'r \<Rightarrow> source_status list"

datatype pending = PStart options | PReload service_state | PStop

record 'r service =
  svc_runtime :: 'r
  svc_status :: status
  svc_op :: "pending option"

definition stopped_status :: status where
  "stopped_status = \<lparr>st_State = StateStopped, st_Endpoint = '''', st_StartedAt = None,
     st_Sources = [], st_LastError = '''', st_Capabilities = Capabilities\<rparr>"

definition New :: "'r \<Rightarrow> 'r service" where
  "New r = \<lparr>svc_runtime = r, svc_status = stopped_status, svc_op = None\<rparr>"

definition hasUnavailableSource :: "source_status list \<Rightarrow> bool" where
  "hasUnavailableSource sources = list_ex (\<lambda>s. ss_Health s \<noteq> ''ready'') sources"

section \<open>Operations\<close>

definition start_begin :: "status \<Rightarrow> status res" where
  "start_begin st =
     (if st_State st \<noteq> StateStopped \<and> st_State st \<noteq> StateFailed
      then Inl (QError CodeInternal ''service is already active'' None)
      else Inr (st\<lparr>st_State := StateStarting, st_LastError := ''''\<rparr>))"

definition start_finish ::
  "int \<Rightarrow> string res \<Rightarrow> source_status list \<Rightarrow> status \<Rightarrow> go_error option \<times> status" where
  "start_finish now result sources st = (case result of
     Inl e \<Rightarrow> (Some e, st\<lparr>st_State := StateFailed, st_LastError := sanitize e\<rparr>)
   | Inr endpoint \<Rightarrow>
       let st1 = st\<lparr>st_State := StateReady, st_Endpoint := endpoint, st_StartedAt := Some now,
                    st_Sources := sources\<rparr>
       in (None, if hasUnavailableSource (st_Sources st1)
                 then st1\<lparr>st_State := StateDegraded\<rparr> else st1))"

definition Start ::
  "'r runtime_ops \<Rightarrow> int \<Rightarrow> options \<Rightarrow> 'r service \<Rightarrow> go_error option \<times> 'r service" where
  "Start rt now opts s = (case start_begin (svc_status s) of
     Inl e \<Rightarrow> (Some e, s)
   | Inr st \<Rightarrow>
       let (result, r') = rt_Start rt (svc_runtime s) opts;
           (err, st') = start_finish now result (rt_Sources rt r') st
       in (err, s\<lparr>svc_runtime := r', svc_status := st'\<rparr>))"

definition reload_begin :: "status \<Rightarrow> (service_state \<times> status) res" where
  "reload_begin st =
     (let previous = st_State st in
      if previous \<noteq> StateReady \<and> previous \<noteq> StateDegraded
      then Inl (QError CodeInternal ''service is not running'' None)
      else Inr (previous, st\<lparr>st_State := StateReloading\<rparr>))"

definition reload_finish ::
  "service_state \<Rightarrow> go_error option \<Rightarrow> source_status list \<Rightarrow> status \<Rightarrow> go_error option \<times> status"
  where
  "reload_finish previous err sources st =
     (let st0 = st\<lparr>st_State := previous\<rparr> in
      case err of
        Some e \<Rightarrow> (Some e, st0\<lparr>st_LastError := sanitize e\<rparr>)
      | None \<Rightarrow>
          let st1 = st0\<lparr>st_LastError := '''', st_Sources := sources\<rparr>
          in (None, if hasUnavailableSource (st_Sources st1)
                    then st1\<lparr>st_State := StateDegraded\<rparr> else st1\<lparr>st_State := StateReady\<rparr>))"

definition Reload :: "'r runtime_ops \<Rightarrow> 'r service \<Rightarrow> go_error option \<times> 'r service" where
  "Reload rt s = (case reload_begin (svc_status s) of
     Inl e \<Rightarrow> (Some e, s)
   | Inr (previous, st) \<Rightarrow>
       let (err, r') = rt_Reload rt (svc_runtime s);
           (err', st') = reload_finish previous err (rt_Sources rt r') st
       in (err', s\<lparr>svc_runtime := r', svc_status := st'\<rparr>))"

text \<open>Stopping a stopped service returns nil at once, without calling the runtime.\<close>

definition stop_begin :: "status \<Rightarrow> status option" where
  "stop_begin st = (if st_State st = StateStopped then None
     else Some (st\<lparr>st_State := StateStopping\<rparr>))"

definition stop_finish :: "go_error option \<Rightarrow> status \<Rightarrow> go_error option \<times> status" where
  "stop_finish err st = (case err of
     Some e \<Rightarrow> (Some e, st\<lparr>st_State := StateFailed, st_LastError := sanitize e\<rparr>)
   | None \<Rightarrow> (None, stopped_status))"

definition Stop :: "'r runtime_ops \<Rightarrow> 'r service \<Rightarrow> go_error option \<times> 'r service" where
  "Stop rt s = (case stop_begin (svc_status s) of
     None \<Rightarrow> (None, s)
   | Some st \<Rightarrow>
       let (err, r') = rt_Stop rt (svc_runtime s); (err', st') = stop_finish err st
       in (err', s\<lparr>svc_runtime := r', svc_status := st'\<rparr>))"

definition Status :: "'r runtime_ops \<Rightarrow> 'r service \<Rightarrow> status" where
  "Status rt s =
     (let st = svc_status s in
      if st_State st = StateReady \<or> st_State st = StateDegraded
      then let st1 = st\<lparr>st_Sources := rt_Sources rt (svc_runtime s)\<rparr>
           in if hasUnavailableSource (st_Sources st1)
              then st1\<lparr>st_State := StateDegraded\<rparr> else st1\<lparr>st_State := StateReady\<rparr>
      else st)"

section \<open>Interleaved operations\<close>

inductive svc_step :: "'r runtime_ops \<Rightarrow> 'r service \<Rightarrow> 'r service \<Rightarrow> bool" for rt where
  start_enter: "svc_op s = None \<Longrightarrow> start_begin (svc_status s) = Inr st \<Longrightarrow>
     svc_step rt s (s\<lparr>svc_status := st, svc_op := Some (PStart opts)\<rparr>)"
| start_leave: "svc_op s = Some (PStart opts) \<Longrightarrow>
     rt_Start rt (svc_runtime s) opts = (result, r') \<Longrightarrow>
     start_finish now result (rt_Sources rt r') (svc_status s) = (err, st) \<Longrightarrow>
     svc_step rt s (s\<lparr>svc_runtime := r', svc_status := st, svc_op := None\<rparr>)"
| reload_enter: "svc_op s = None \<Longrightarrow> reload_begin (svc_status s) = Inr (previous, st) \<Longrightarrow>
     svc_step rt s (s\<lparr>svc_status := st, svc_op := Some (PReload previous)\<rparr>)"
| reload_leave: "svc_op s = Some (PReload previous) \<Longrightarrow>
     rt_Reload rt (svc_runtime s) = (result', r') \<Longrightarrow>
     reload_finish previous result' (rt_Sources rt r') (svc_status s) = (err, st) \<Longrightarrow>
     svc_step rt s (s\<lparr>svc_runtime := r', svc_status := st, svc_op := None\<rparr>)"
| stop_enter: "svc_op s = None \<Longrightarrow> stop_begin (svc_status s) = Some st \<Longrightarrow>
     svc_step rt s (s\<lparr>svc_status := st, svc_op := Some PStop\<rparr>)"
| stop_leave: "svc_op s = Some PStop \<Longrightarrow>
     rt_Stop rt (svc_runtime s) = (result', r') \<Longrightarrow>
     stop_finish result' (svc_status s) = (err, st) \<Longrightarrow>
     svc_step rt s (s\<lparr>svc_runtime := r', svc_status := st, svc_op := None\<rparr>)"
| runtime_change: "svc_step rt s (s\<lparr>svc_runtime := r'\<rparr>)"

text \<open>
  \<open>runtime_change\<close> is everything that happens to the runtime outside the facade: a source that
  becomes unavailable, a token rotation.
\<close>

inductive svc_reachable :: "'r runtime_ops \<Rightarrow> 'r service \<Rightarrow> bool" for rt where
  initial: "svc_reachable rt (New r)"
| step: "svc_reachable rt s \<Longrightarrow> svc_step rt s t \<Longrightarrow> svc_reachable rt t"

lemmas lifecycle_defs =
  start_begin_def start_finish_def reload_begin_def reload_finish_def stop_begin_def stop_finish_def

section \<open>Invariant\<close>

text \<open>
  What holds whenever \<open>mu\<close> is free: the visible state says which operation is in flight, a settled
  state agrees with the recorded source list, and a stopped service carries no remains of a run.
\<close>

fun health_agrees :: "service_state \<Rightarrow> source_status list \<Rightarrow> bool" where
  "health_agrees StateReady sources = (\<not> hasUnavailableSource sources)"
| "health_agrees StateDegraded sources = hasUnavailableSource sources"
| "health_agrees _ sources = True"

fun op_agrees :: "pending option \<Rightarrow> status \<Rightarrow> bool" where
  "op_agrees None st =
     (st_State st \<in> {StateStopped, StateReady, StateDegraded, StateFailed})"
| "op_agrees (Some (PStart opts)) st = (st_State st = StateStarting)"
| "op_agrees (Some (PReload previous)) st =
     (st_State st = StateReloading \<and> previous \<in> {StateReady, StateDegraded} \<and>
      health_agrees previous (st_Sources st))"
| "op_agrees (Some PStop) st = (st_State st = StateStopping)"

definition status_inv :: "pending option \<Rightarrow> status \<Rightarrow> bool" where
  "status_inv op st \<longleftrightarrow>
     op_agrees op st \<and>
     health_agrees (st_State st) (st_Sources st) \<and>
     st_Capabilities st = Capabilities \<and>
     (st_State st = StateStopped \<longrightarrow> st = stopped_status)"

definition svc_inv :: "'r service \<Rightarrow> bool" where
  "svc_inv s \<longleftrightarrow> status_inv (svc_op s) (svc_status s)"

text \<open>The edges of the lifecycle.\<close>

definition lifecycle_edges :: "(service_state \<times> service_state) list" where
  "lifecycle_edges =
    [(StateStopped, StateStarting), (StateFailed, StateStarting),
     (StateStarting, StateReady), (StateStarting, StateDegraded), (StateStarting, StateFailed),
     (StateReady, StateReloading), (StateDegraded, StateReloading),
     (StateReloading, StateReady), (StateReloading, StateDegraded),
     (StateReady, StateStopping), (StateDegraded, StateStopping), (StateFailed, StateStopping),
     (StateStopping, StateStopped), (StateStopping, StateFailed)]"

text \<open>Each critical section keeps the invariant and moves along an edge.\<close>

definition good_move :: "status \<Rightarrow> pending option \<Rightarrow> status \<Rightarrow> bool" where
  "good_move st op' st' \<longleftrightarrow>
     status_inv op' st' \<and> (st_State st, st_State st') \<in> set lifecycle_edges"

lemmas good_move_defs = good_move_def status_inv_def lifecycle_edges_def

lemma svc_inv_New [simp]: "svc_inv (New r)"
  by (simp add: svc_inv_def status_inv_def New_def stopped_status_def)

lemma start_begin_good:
  "status_inv None st \<Longrightarrow> start_begin st = Inr st' \<Longrightarrow> good_move st (Some (PStart opts)) st'"
  by (cases "st_State st") (auto simp: good_move_defs start_begin_def stopped_status_def)

lemma start_finish_good:
  "status_inv (Some (PStart opts)) st \<Longrightarrow> start_finish now res src st = (err, st') \<Longrightarrow>
   good_move st None st'"
  by (cases "hasUnavailableSource src")
    (auto simp: good_move_defs start_finish_def Let_def split: sum.splits)

lemma reload_begin_good:
  "status_inv None st \<Longrightarrow> reload_begin st = Inr (previous, st') \<Longrightarrow>
   good_move st (Some (PReload previous)) st'"
  by (cases "st_State st") (auto simp: good_move_defs reload_begin_def Let_def)

lemma reload_finish_good:
  "status_inv (Some (PReload previous)) st \<Longrightarrow> reload_finish previous err src st = (err', st') \<Longrightarrow>
   good_move st None st'"
  by (cases "hasUnavailableSource src")
    (auto simp: good_move_defs reload_finish_def Let_def split: option.splits)

lemma stop_begin_good:
  "status_inv None st \<Longrightarrow> stop_begin st = Some st' \<Longrightarrow> good_move st (Some PStop) st'"
  by (cases "st_State st") (auto simp: good_move_defs stop_begin_def)

lemma stop_finish_good:
  "status_inv (Some PStop) st \<Longrightarrow> stop_finish err st = (err', st') \<Longrightarrow> good_move st None st'"
  by (auto simp: good_move_defs stop_finish_def stopped_status_def split: option.splits)

lemmas section_good = start_begin_good start_finish_good reload_begin_good reload_finish_good
  stop_begin_good stop_finish_good

lemma svc_step_good:
  assumes "svc_step rt s t" and "svc_inv s"
  shows "good_move (svc_status s) (svc_op t) (svc_status t) \<or>
    svc_status t = svc_status s \<and> svc_op t = svc_op s"
  using assms by cases (auto simp: svc_inv_def intro: section_good)

lemma svc_step_inv: "svc_step rt s t \<Longrightarrow> svc_inv s \<Longrightarrow> svc_inv t"
  using svc_step_good [of rt s t] by (auto simp: svc_inv_def good_move_def)

lemma reachable_inv: "svc_reachable rt s \<Longrightarrow> svc_inv s"
  by (induction rule: svc_reachable.induct) (auto intro: svc_step_inv)

lemma svc_step_edge:
  "svc_step rt s t \<Longrightarrow> svc_inv s \<Longrightarrow>
   (st_State (svc_status s), st_State (svc_status t)) \<in> set lifecycle_edges \<or>
   svc_status t = svc_status s"
  using svc_step_good [of rt s t] by (auto simp: good_move_def)

text \<open>The uninterrupted operations are two steps of the interleaved system.\<close>

lemma Start_is_steps:
  assumes "svc_op s = None" and "start_begin (svc_status s) = Inr st"
    and "Start rt now opts s = (err, t)"
  shows "\<exists>u. svc_step rt s u \<and> svc_step rt u t"
proof -
  obtain result r' where r: "rt_Start rt (svc_runtime s) opts = (result, r')" by force
  obtain err' st' where f: "start_finish now result (rt_Sources rt r') st = (err', st')" by force
  let ?u = "s\<lparr>svc_status := st, svc_op := Some (PStart opts)\<rparr>"
  have "svc_step rt s ?u" using assms(1,2) by (rule svc_step.start_enter)
  moreover have "svc_step rt ?u (?u\<lparr>svc_runtime := r', svc_status := st', svc_op := None\<rparr>)"
    by (rule svc_step.start_leave [where opts = opts]) (use r f in auto)
  moreover have "t = ?u\<lparr>svc_runtime := r', svc_status := st', svc_op := None\<rparr>"
    using assms r f by (cases s) (auto simp: Start_def)
  ultimately show ?thesis by blast
qed

lemma Reload_is_steps:
  assumes "svc_op s = None" and "reload_begin (svc_status s) = Inr (previous, st)"
    and "Reload rt s = (err, t)"
  shows "\<exists>u. svc_step rt s u \<and> svc_step rt u t"
proof -
  obtain result r' where r: "rt_Reload rt (svc_runtime s) = (result, r')" by force
  obtain err' st' where f: "reload_finish previous result (rt_Sources rt r') st = (err', st')"
    by force
  let ?u = "s\<lparr>svc_status := st, svc_op := Some (PReload previous)\<rparr>"
  have "svc_step rt s ?u" using assms(1,2) by (rule svc_step.reload_enter)
  moreover have "svc_step rt ?u (?u\<lparr>svc_runtime := r', svc_status := st', svc_op := None\<rparr>)"
    by (rule svc_step.reload_leave [where previous = previous]) (use r f in auto)
  moreover have "t = ?u\<lparr>svc_runtime := r', svc_status := st', svc_op := None\<rparr>"
    using assms r f by (cases s) (auto simp: Reload_def)
  ultimately show ?thesis by blast
qed

lemma Stop_is_steps:
  assumes "svc_op s = None" and "stop_begin (svc_status s) = Some st"
    and "Stop rt s = (err, t)"
  shows "\<exists>u. svc_step rt s u \<and> svc_step rt u t"
proof -
  obtain result r' where r: "rt_Stop rt (svc_runtime s) = (result, r')" by force
  obtain err' st' where f: "stop_finish result st = (err', st')" by force
  let ?u = "s\<lparr>svc_status := st, svc_op := Some PStop\<rparr>"
  have "svc_step rt s ?u" using assms(1,2) by (rule svc_step.stop_enter)
  moreover have "svc_step rt ?u (?u\<lparr>svc_runtime := r', svc_status := st', svc_op := None\<rparr>)"
    by (rule svc_step.stop_leave) (use r f in auto)
  moreover have "t = ?u\<lparr>svc_runtime := r', svc_status := st', svc_op := None\<rparr>"
    using assms r f by (cases s) (auto simp: Stop_def)
  ultimately show ?thesis by blast
qed

section \<open>Properties\<close>

text \<open>
  C2. However operations interleave, every reachable state satisfies the lifecycle invariant, and
  every step moves the visible state along an edge of the lifecycle or leaves the status alone: a
  transitional state is visible exactly while its operation is in flight, a second operation never
  starts on top of it, and ready and degraded agree with the recorded health of the sources.
\<close>

theorem lifecycle_safety:
  assumes "svc_reachable rt s"
  shows "svc_inv s \<and>
    (\<forall>t. svc_step rt s t \<longrightarrow> svc_inv t \<and>
      ((st_State (svc_status s), st_State (svc_status t)) \<in> set lifecycle_edges \<or>
       svc_status t = svc_status s))"
  using reachable_inv [OF assms] svc_step_inv svc_step_edge by blast

definition example_runtime :: "bool runtime_ops" where
  "example_runtime = \<lparr>rt_Start = (\<lambda>r opts. (Inr ''quack:127.0.0.1:9494'', True)),
     rt_Reload = (\<lambda>r. (Some (Plain ''dial tcp: refused''), r)), rt_Stop = (\<lambda>r. (None, False)),
     rt_Sources = (\<lambda>r. [\<lparr>ss_ID = ''a'', ss_Name = ''A'', ss_Type = ''sqlite'',
        ss_Health = ''ready'', ss_ErrorCode = ''''\<rparr>])\<rparr>"

definition example_options :: options where
  "example_options = \<lparr>op_ExtensionDir = ''/opt/ext'', op_AllowedPaths = [], op_ListenHost = '''',
     op_ListenPort = 0, op_Token = '''', op_MemoryLimit = '''', op_TempLimit = '''',
     op_Threads = 0, op_QueryTimeout = 0\<rparr>"

definition example_service :: "bool service" where
  "example_service = snd (Start example_runtime 7 example_options (New False))"

lemma example_service_eq:
  "example_service = \<lparr>svc_runtime = True, svc_status = \<lparr>st_State = StateReady,
     st_Endpoint = ''quack:127.0.0.1:9494'', st_StartedAt = Some 7,
     st_Sources = rt_Sources example_runtime True, st_LastError = '''',
     st_Capabilities = Capabilities\<rparr>, svc_op = None\<rparr>"
  by (simp add: example_service_def Start_def New_def stopped_status_def start_begin_def
      start_finish_def example_runtime_def hasUnavailableSource_def Let_def)

lemma example_started: "svc_reachable example_runtime example_service"
proof -
  have "start_begin (svc_status (New False)) =
      Inr (stopped_status\<lparr>st_State := StateStarting, st_LastError := ''''\<rparr>)"
    by (simp add: start_begin_def New_def stopped_status_def)
  then obtain u where "svc_step example_runtime (New False) u"
    "svc_step example_runtime u example_service"
    using Start_is_steps [of "New False" _ example_runtime 7 example_options]
    unfolding example_service_def by (metis New_def prod.collapse service.select_convs(3))
  then show ?thesis using svc_reachable.intros by metis
qed

theorem lifecycle_safety_witness: "svc_inv example_service"
  using lifecycle_safety [OF example_started] by blast

text \<open>
  A failed reload is transactional at the facade: the state it began in is restored and nothing
  of the status changes but the last error, which is the sanitized failure; a successful one clears
  the last error and its state tells whether every source is ready.
\<close>

theorem Reload_transactional:
  assumes "st_State (svc_status s) \<in> {StateReady, StateDegraded}"
    and "rt_Reload rt (svc_runtime s) = (result, r')"
  shows "case result of
      Some e \<Rightarrow> Reload rt s = (Some e,
        s\<lparr>svc_runtime := r', svc_status := (svc_status s)\<lparr>st_LastError := sanitize e\<rparr>\<rparr>)
    | None \<Rightarrow> \<exists>t. Reload rt s = (None, t) \<and> svc_runtime t = r' \<and>
        st_LastError (svc_status t) = '''' \<and> st_Sources (svc_status t) = rt_Sources rt r' \<and>
        st_State (svc_status t) = (if hasUnavailableSource (rt_Sources rt r')
          then StateDegraded else StateReady)"
  using assms
  by (auto simp: Reload_def reload_begin_def reload_finish_def Let_def split: option.splits)

theorem Reload_transactional_witness:
  "Reload example_runtime example_service =
     (Some (Plain ''dial tcp: refused''),
      example_service\<lparr>svc_status :=
        (svc_status example_service)\<lparr>st_LastError := ''QR_INTERNAL: internal failure''\<rparr>\<rparr>)"
proof -
  have "st_State (svc_status example_service) \<in> {StateReady, StateDegraded}"
    by (simp add: example_service_eq)
  moreover have "rt_Reload example_runtime (svc_runtime example_service) =
      (Some (Plain ''dial tcp: refused''), svc_runtime example_service)"
    by (simp add: example_runtime_def)
  ultimately show ?thesis
    using Reload_transactional [of example_service example_runtime]
    by (simp add: sanitize_def public_text_def)
qed

text \<open>
  What \<open>Status\<close> reports is honest at the moment it reports it: in a reachable state it reports
  ready or degraded only for a service that settled in one of these two, it reports ready exactly
  if every source of the runtime is then ready, and it never changes the capabilities.
\<close>

theorem Status_honest:
  assumes "svc_reachable rt s"
  shows "let r = Status rt s in
    (st_State r = StateReady \<longrightarrow> st_Sources r = rt_Sources rt (svc_runtime s) \<and>
       (\<forall>x\<in>set (st_Sources r). ss_Health x = ''ready'')) \<and>
    (st_State r = StateDegraded \<longrightarrow> st_Sources r = rt_Sources rt (svc_runtime s) \<and>
       (\<exists>x\<in>set (st_Sources r). ss_Health x \<noteq> ''ready'')) \<and>
    (st_State r \<in> {StateReady, StateDegraded} \<longleftrightarrow>
       st_State (svc_status s) \<in> {StateReady, StateDegraded}) \<and>
    (st_State r \<in> {StateReady, StateDegraded} \<longrightarrow> svc_op s = None) \<and>
    st_Capabilities r = Capabilities"
proof -
  have inv: "op_agrees (svc_op s) (svc_status s)" "st_Capabilities (svc_status s) = Capabilities"
    using reachable_inv [OF assms] by (simp_all add: svc_inv_def status_inv_def)
  have "svc_op s = None" if "st_State (svc_status s) \<in> {StateReady, StateDegraded}"
    using inv(1) that by (cases "(svc_op s, svc_status s)" rule: op_agrees.cases) auto
  then show ?thesis
    using inv(2) by (auto simp: Status_def Let_def hasUnavailableSource_def list_ex_iff)
qed

theorem Status_honest_witness:
  "st_State (Status example_runtime example_service) = StateReady \<and>
   st_Capabilities (Status example_runtime example_service) = Capabilities \<and>
   svc_op example_service = None"
proof -
  have "st_State (Status example_runtime example_service) = StateReady"
    by (simp add: Status_def example_service_eq example_runtime_def hasUnavailableSource_def Let_def)
  then show ?thesis using Status_honest [OF example_started] by (simp add: Let_def)
qed

end
