(* ===== verification/Json.thy ===== *)
theory Json
  imports Errors
begin

text \<open>
  What the program uses of encoding/json.  A decoded \<open>any\<close> is a \<open>json\<close> value; an object is an
  association list with distinct keys (a Go map), a number is its literal.  The type assertions
  \<open>x.(string)\<close>, \<open>x.(map[string]any)\<close>, ... with the second result ignored are \<open>str_of\<close>, \<open>obj_of\<close> and
  \<open>arr_of\<close>: they give the zero value when the type is another one.

  \<open>json_decode\<close> is the decoder's first value of a byte string (what follows is the decoder's
  remaining input), \<open>json_unmarshal\<close> wants the whole input to be one value.  Recursion is bounded by
  fuel; the input's length is enough, since every call but the outermost follows a consumed byte.
  The nesting limit of 10000 of the library is kept.
\<close>

datatype json =
    JNull
  | JBool bool
  | JNum string
  | JStr string
  | JArr "json list"
  | JObj "(string \<times> json) list"

fun is_str :: "json option \<Rightarrow> string option" where
  "is_str (Some (JStr s)) = Some s"
| "is_str _ = None"

definition str_of :: "json option \<Rightarrow> string" where
  "str_of v = (case is_str v of Some s \<Rightarrow> s | None \<Rightarrow> [])"

fun obj_of :: "json option \<Rightarrow> (string \<times> json) list" where
  "obj_of (Some (JObj m)) = m"
| "obj_of _ = []"

fun arr_of :: "json option \<Rightarrow> json list" where
  "arr_of (Some (JArr xs)) = xs"
| "arr_of _ = []"

fun bool_of :: "json option \<Rightarrow> bool" where
  "bool_of (Some (JBool b)) = b"
| "bool_of _ = False"

text \<open>Every value inside a value, itself included.\<close>

inductive subvalue :: "json \<Rightarrow> json \<Rightarrow> bool" where
  sub_refl: "subvalue v v"
| sub_arr: "x \<in> set xs \<Longrightarrow> subvalue v x \<Longrightarrow> subvalue v (JArr xs)"
| sub_obj: "(k, x) \<in> set m \<Longrightarrow> subvalue v x \<Longrightarrow> subvalue v (JObj m)"

inductive_cases sub_JArrE: "subvalue v (JArr xs)"
inductive_cases sub_JObjE: "subvalue v (JObj m)"
inductive_simps subvalue_simps:
  "subvalue v JNull" "subvalue v (JBool b)" "subvalue v (JNum n)" "subvalue v (JStr s)"
  "subvalue v (JArr xs)" "subvalue v (JObj m)"

lemma subvalue_children:
  "(\<forall>v. subvalue v (JArr xs) \<longrightarrow> P v) \<longleftrightarrow>
     P (JArr xs) \<and> (\<forall>x\<in>set xs. \<forall>v. subvalue v x \<longrightarrow> P v)"
  "(\<forall>v. subvalue v (JObj m) \<longrightarrow> P v) \<longleftrightarrow>
     P (JObj m) \<and> (\<forall>(k, x)\<in>set m. \<forall>v. subvalue v x \<longrightarrow> P v)"
  by (auto simp: subvalue_simps)

section \<open>Scanning\<close>

definition json_ws :: "char \<Rightarrow> bool" where
  "json_ws c \<longleftrightarrow> byte c = 32 \<or> byte c = 9 \<or> byte c = 13 \<or> byte c = 10"

definition skip_ws :: "string \<Rightarrow> string" where
  "skip_ws s = dropWhile json_ws s"

definition strip :: "string \<Rightarrow> string \<Rightarrow> string option" where
  "strip p s = (if has_prefix p s then Some (drop (length p) s) else None)"

definition hex_value :: "char \<Rightarrow> nat option" where
  "hex_value c =
     (if is_digit_byte c then Some (byte c - 48)
      else if 97 \<le> byte c \<and> byte c \<le> 102 then Some (byte c - 87)
      else if 65 \<le> byte c \<and> byte c \<le> 70 then Some (byte c - 55)
      else None)"

fun hex4 :: "string \<Rightarrow> (nat \<times> string) option" where
  "hex4 (a # b # c # d # s) = (case (hex_value a, hex_value b, hex_value c, hex_value d) of
     (Some w, Some x, Some y, Some z) \<Rightarrow> Some (((w * 16 + x) * 16 + y) * 16 + z, s)
   | _ \<Rightarrow> None)"
| "hex4 _ = None"

definition encode_rune :: "nat \<Rightarrow> string" where
  "encode_rune r =
     (if r < 0x80 then [char_of r]
      else if r < 0x800 then [char_of (0xC0 + r div 64), char_of (0x80 + r mod 64)]
      else if r < 0x10000 then
        [char_of (0xE0 + r div 4096), char_of (0x80 + (r div 64) mod 64), char_of (0x80 + r mod 64)]
      else [char_of (0xF0 + r div 262144), char_of (0x80 + (r div 4096) mod 64),
            char_of (0x80 + (r div 64) mod 64), char_of (0x80 + r mod 64)])"

definition replacement :: string where
  "replacement = [char_of (0xEF::nat), char_of (0xBF::nat), char_of (0xBD::nat)]"

definition continuation :: "nat \<Rightarrow> nat \<Rightarrow> char \<Rightarrow> bool" where
  "continuation lo hi c \<longleftrightarrow> lo \<le> byte c \<and> byte c \<le> hi"

text \<open>Length of the valid multi-byte sequence at the front; 0 when there is none.\<close>

fun utf8_len :: "string \<Rightarrow> nat" where
  "utf8_len [] = 0"
| "utf8_len (c # cs) =
     (let b = byte c;
          cont = (\<lambda>n lo hi. n < length cs \<and> continuation lo hi (cs ! n))
      in if 0xC2 \<le> b \<and> b \<le> 0xDF then (if cont 0 0x80 0xBF then 2 else 0)
         else if b = 0xE0 then (if cont 0 0xA0 0xBF \<and> cont 1 0x80 0xBF then 3 else 0)
         else if b = 0xED then (if cont 0 0x80 0x9F \<and> cont 1 0x80 0xBF then 3 else 0)
         else if 0xE1 \<le> b \<and> b \<le> 0xEF then (if cont 0 0x80 0xBF \<and> cont 1 0x80 0xBF then 3 else 0)
         else if b = 0xF0
         then (if cont 0 0x90 0xBF \<and> cont 1 0x80 0xBF \<and> cont 2 0x80 0xBF then 4 else 0)
         else if 0xF1 \<le> b \<and> b \<le> 0xF3
         then (if cont 0 0x80 0xBF \<and> cont 1 0x80 0xBF \<and> cont 2 0x80 0xBF then 4 else 0)
         else if b = 0xF4
         then (if cont 0 0x80 0x8F \<and> cont 1 0x80 0xBF \<and> cont 2 0x80 0xBF then 4 else 0)
         else 0)"

declare utf8_len.simps [simp del]

text \<open>An escape after its backslash: the bytes it stands for and the rest.\<close>

definition unicode_escape :: "string \<Rightarrow> (string \<times> string) option" where
  "unicode_escape s = (case hex4 s of None \<Rightarrow> None
   | Some (r, rest) \<Rightarrow>
       if 0xD800 \<le> r \<and> r < 0xE000 then
         (case rest of
           x # y # rest' \<Rightarrow>
             (if x = CHR 0x5C \<and> y = CHR ''u'' then
                (case hex4 rest' of None \<Rightarrow> Some (replacement, rest)
                 | Some (r2, rest2) \<Rightarrow>
                     if r < 0xDC00 \<and> 0xDC00 \<le> r2 \<and> r2 < 0xE000
                     then Some (encode_rune ((r - 0xD800) * 1024 + (r2 - 0xDC00) + 0x10000), rest2)
                     else Some (replacement, rest))
              else Some (replacement, rest))
         | _ \<Rightarrow> Some (replacement, rest))
       else Some (encode_rune r, rest))"

definition escape_seq :: "string \<Rightarrow> (string \<times> string) option" where
  "escape_seq s = (case s of [] \<Rightarrow> None
   | c # cs \<Rightarrow>
      if c = CHR 0x22 \<or> c = CHR 0x5C \<or> c = CHR ''/'' then Some ([c], cs)
      else if c = CHR ''b'' then Some ([CHR 0x08], cs)
      else if c = CHR ''f'' then Some ([CHR 0x0C], cs)
      else if c = CHR ''n'' then Some ([CHR 0x0A], cs)
      else if c = CHR ''r'' then Some ([CHR 0x0D], cs)
      else if c = CHR ''t'' then Some ([CHR 0x09], cs)
      else if c = CHR ''u'' then unicode_escape cs
      else None)"

text \<open>The body of a string literal after its opening quote.\<close>

fun parse_string :: "nat \<Rightarrow> string \<Rightarrow> (string \<times> string) option" where
  "parse_string 0 s = None"
| "parse_string (Suc n) [] = None"
| "parse_string (Suc n) (c # cs) =
     (if c = CHR 0x22 then Some ([], cs)
      else if byte c < 32 then None
      else if c = CHR 0x5C then
        (case escape_seq cs of None \<Rightarrow> None
         | Some (out, rest) \<Rightarrow> map_option (\<lambda>(t, r). (out @ t, r)) (parse_string n rest))
      else if byte c < 128 then map_option (\<lambda>(t, r). (c # t, r)) (parse_string n cs)
      else
        (let k = utf8_len (c # cs) in
         if k = 0 then map_option (\<lambda>(t, r). (replacement @ t, r)) (parse_string n cs)
         else map_option (\<lambda>(t, r). (take k (c # cs) @ t, r)) (parse_string n (drop k (c # cs)))))"

definition digits :: "string \<Rightarrow> (string \<times> string) option" where
  "digits s = (if takeWhile is_digit_byte s = [] then None
     else Some (takeWhile is_digit_byte s, dropWhile is_digit_byte s))"

definition int_part :: "string \<Rightarrow> (string \<times> string) option" where
  "int_part s = (case s of [] \<Rightarrow> None
   | c # cs \<Rightarrow> if c = CHR ''0'' then Some ([c], cs) else digits s)"

definition frac_part :: "string \<Rightarrow> (string \<times> string) option" where
  "frac_part s = (case s of
     c # cs \<Rightarrow> if c = CHR ''.'' then map_option (\<lambda>(d, r). (c # d, r)) (digits cs) else Some ([], s)
   | [] \<Rightarrow> Some ([], []))"

definition exp_part :: "string \<Rightarrow> (string \<times> string) option" where
  "exp_part s = (case s of
     c # cs \<Rightarrow>
       if c = CHR ''e'' \<or> c = CHR ''E'' then
         (case cs of
            d # ds \<Rightarrow> if d = CHR ''+'' \<or> d = CHR ''-''
                      then map_option (\<lambda>(x, r). (c # d # x, r)) (digits ds)
                      else map_option (\<lambda>(x, r). (c # x, r)) (digits cs)
          | [] \<Rightarrow> None)
       else Some ([], s)
   | [] \<Rightarrow> Some ([], []))"

definition parse_number :: "string \<Rightarrow> (string \<times> string) option" where
  "parse_number s =
     (let (sign, s0) = (case s of c # cs \<Rightarrow> if c = CHR ''-'' then ([c], cs) else ([], s) | [] \<Rightarrow> ([], []))
      in case int_part s0 of None \<Rightarrow> None
         | Some (i, s1) \<Rightarrow> (case frac_part s1 of None \<Rightarrow> None
           | Some (f, s2) \<Rightarrow> (case exp_part s2 of None \<Rightarrow> None
             | Some (e, s3) \<Rightarrow> Some (sign @ i @ f @ e, s3))))"

section \<open>Values\<close>

text \<open>
  \<open>parse_value fuel depth s\<close>; \<open>parse_elems\<close> continues an array after its first bracket or a comma,
  \<open>parse_members\<close> an object after its brace or a comma.  A repeated key keeps its last value.
\<close>

fun parse_value :: "nat \<Rightarrow> nat \<Rightarrow> string \<Rightarrow> (json \<times> string) option"
  and parse_elems :: "nat \<Rightarrow> nat \<Rightarrow> json list \<Rightarrow> string \<Rightarrow> (json \<times> string) option"
  and parse_members :: "nat \<Rightarrow> nat \<Rightarrow> (string \<times> json) list \<Rightarrow> string \<Rightarrow> (json \<times> string) option" where
  "parse_value 0 d s = None"
| "parse_value (Suc n) d s = (case skip_ws s of [] \<Rightarrow> None
   | c # cs \<Rightarrow>
      if c = CHR 0x22 then map_option (\<lambda>(t, r). (JStr t, r)) (parse_string (Suc (length cs)) cs)
      else if c = CHR ''['' then
        (if d = 0 then None
         else case skip_ws cs of [] \<Rightarrow> None
           | x # xs \<Rightarrow> if x = CHR '']'' then Some (JArr [], xs) else parse_elems n (d - 1) [] (x # xs))
      else if c = CHR ''{'' then
        (if d = 0 then None
         else case skip_ws cs of [] \<Rightarrow> None
           | x # xs \<Rightarrow> if x = CHR ''}'' then Some (JObj [], xs) else parse_members n (d - 1) [] (x # xs))
      else if c = CHR ''t'' then map_option (\<lambda>r. (JBool True, r)) (strip ''true'' (c # cs))
      else if c = CHR ''f'' then map_option (\<lambda>r. (JBool False, r)) (strip ''false'' (c # cs))
      else if c = CHR ''n'' then map_option (\<lambda>r. (JNull, r)) (strip ''null'' (c # cs))
      else map_option (\<lambda>(t, r). (JNum t, r)) (parse_number (c # cs)))"
| "parse_elems 0 d acc s = None"
| "parse_elems (Suc n) d acc s = (case parse_value n d s of None \<Rightarrow> None
   | Some (v, rest) \<Rightarrow> (case skip_ws rest of [] \<Rightarrow> None
     | c # cs \<Rightarrow> if c = CHR '','' then parse_elems n d (acc @ [v]) cs
                 else if c = CHR '']'' then Some (JArr (acc @ [v]), cs) else None))"
| "parse_members 0 d acc s = None"
| "parse_members (Suc n) d acc s = (case skip_ws s of [] \<Rightarrow> None
   | q # qs \<Rightarrow>
      if q \<noteq> CHR 0x22 then None
      else (case parse_string (Suc (length qs)) qs of None \<Rightarrow> None
       | Some (k, rest) \<Rightarrow> (case skip_ws rest of [] \<Rightarrow> None
         | c # cs \<Rightarrow>
            if c \<noteq> CHR '':'' then None
            else (case parse_value n d cs of None \<Rightarrow> None
             | Some (v, rest2) \<Rightarrow> (case skip_ws rest2 of [] \<Rightarrow> None
               | e # es \<Rightarrow> if e = CHR '','' then parse_members n d (AList.update k v acc) es
                          else if e = CHR ''}'' then Some (JObj (AList.update k v acc), es)
                          else None)))))"

definition max_nesting :: nat where "max_nesting = 10000"

definition json_decode :: "string \<Rightarrow> (json \<times> string) option" where
  "json_decode s = parse_value (2 * length s + 2) max_nesting s"

definition json_unmarshal :: "string \<Rightarrow> json option" where
  "json_unmarshal s = (case json_decode s of
     Some (v, rest) \<Rightarrow> if skip_ws rest = [] then Some v else None
   | None \<Rightarrow> None)"

text \<open>Objects out of the parser have distinct keys, at every depth.\<close>

fun wf_json :: "json \<Rightarrow> bool" where
  "wf_json (JArr xs) = list_all wf_json xs"
| "wf_json (JObj m) = (wf_map m \<and> list_all (\<lambda>(k, v). wf_json v) m)"
| "wf_json _ = True"

lemma wf_json_members_update:
  "list_all (\<lambda>(k, v). wf_json v) m \<Longrightarrow> wf_json v \<Longrightarrow>
   list_all (\<lambda>(k, v). wf_json v) (AList.update k v m)"
  by (induction m) auto

lemma parse_wf:
  "parse_value n d s = Some (v, r) \<Longrightarrow> wf_json v"
  "list_all wf_json acc \<Longrightarrow> parse_elems n d acc s = Some (v, r) \<Longrightarrow> wf_json v"
  "wf_json (JObj mem) \<Longrightarrow> parse_members n d mem s = Some (v, r) \<Longrightarrow> wf_json v"
proof (induction n d s and n d acc s and n d mem s arbitrary: v r and v r and v r
    rule: parse_value_parse_elems_parse_members.induct)
  case (2 n d s)
  then show ?case by (fastforce split: list.splits if_splits prod.splits)
next
  case (4 n d acc s)
  then show ?case by (fastforce split: list.splits if_splits option.splits)
next
  case (6 n d acc s)
  then show ?case
    by (fastforce simp: wf_json_members_update split: list.splits if_splits option.splits prod.splits)
qed simp_all

section \<open>The fuel is enough\<close>

text \<open>Every successful parse leaves a shorter rest, so the length bounds the depth of the calls.\<close>

lemma length_skip_ws: "length (skip_ws s) \<le> length s"
  by (simp add: skip_ws_def length_dropWhile_le)

lemma skip_ws_Cons: "skip_ws s = c # cs \<Longrightarrow> length cs < length s"
  using length_skip_ws [of s] by simp

lemma hex4_length: "hex4 s = Some (v, r) \<Longrightarrow> length r < length s"
  by (induction s rule: hex4.induct) (auto split: option.splits prod.splits)

lemma unicode_escape_length: "unicode_escape s = Some (o1, r) \<Longrightarrow> length r < length s"
  unfolding unicode_escape_def
  by (auto split: option.splits prod.splits if_splits list.splits dest!: hex4_length)

lemma escape_seq_length: "escape_seq s = Some (o1, r) \<Longrightarrow> length r < length s"
  unfolding escape_seq_def
  by (auto split: list.splits if_splits dest!: unicode_escape_length)

lemma parse_string_length: "parse_string n s = Some (t, r) \<Longrightarrow> length r < length s"
proof (induction n s arbitrary: t r rule: parse_string.induct)
  case (3 n c cs)
  then show ?case
    by (fastforce simp: Let_def split: if_splits option.splits prod.splits dest: escape_seq_length)
qed auto

lemma parse_string_fuel:
  "length s < n \<Longrightarrow> n \<le> m \<Longrightarrow> parse_string m s = parse_string n s"
proof (induction n s arbitrary: m rule: parse_string.induct)
  case (2 n)
  then show ?case by (cases m) auto
next
  case (3 n c cs)
  from "3.prems"(2) obtain m' where m: "m = Suc m'" "n \<le> m'" by (cases m) auto
  consider (stop) "c = CHR 0x22 \<or> byte c < 32"
    | (esc) "c \<noteq> CHR 0x22" "\<not> byte c < 32" "c = CHR 0x5C"
    | (plain) "c \<noteq> CHR 0x22" "\<not> byte c < 32" "c \<noteq> CHR 0x5C" "byte c < 128"
    | (multi) "c \<noteq> CHR 0x22" "\<not> byte c < 32" "c \<noteq> CHR 0x5C" "\<not> byte c < 128"
    by blast
  then show ?case
  proof cases
    case esc
    show ?thesis
    proof (cases "escape_seq cs")
      case None
      with esc m show ?thesis by simp
    next
      case (Some p)
      obtain x r where p: "p = (x, r)" by (cases p)
      have "length r < n" using escape_seq_length [of cs x r] Some p "3.prems"(1) by simp
      then have "parse_string m' r = parse_string n r"
        by (rule "3.IH"(1) [OF esc Some p [symmetric] _ m(2)])
      with esc Some p m(1) show ?thesis by simp
    qed
  next
    case plain
    have "length cs < n" using "3.prems"(1) by simp
    then have "parse_string m' cs = parse_string n cs" by (rule "3.IH"(2) [OF plain _ m(2)])
    with plain m(1) show ?thesis by simp
  next
    case multi
    let ?k = "utf8_len (c # cs)"
    have "parse_string m' cs = parse_string n cs" if "?k = 0"
      by (rule "3.IH"(3) [OF multi refl that _ m(2)]) (use "3.prems"(1) in simp)
    moreover have "parse_string m' (drop ?k (c # cs)) = parse_string n (drop ?k (c # cs))"
      if "?k \<noteq> 0"
      by (rule "3.IH"(4) [OF multi refl that _ m(2)]) (use "3.prems"(1) that in simp)
    ultimately show ?thesis using multi m(1) by (simp add: Let_def)
  qed (use m in auto)
qed auto

lemma digits_length: "digits s = Some (t, r) \<Longrightarrow> length r < length s"
  by (cases s) (auto simp: digits_def le_imp_less_Suc length_dropWhile_le split: if_splits)

lemma int_part_length: "int_part s = Some (t, r) \<Longrightarrow> length r < length s"
  by (auto simp: int_part_def dest: digits_length split: list.splits if_splits)

lemma frac_part_length: "frac_part s = Some (t, r) \<Longrightarrow> length r \<le> length s"
  by (auto simp: frac_part_def dest!: digits_length split: list.splits if_splits)

lemma exp_part_length: "exp_part s = Some (t, r) \<Longrightarrow> length r \<le> length s"
  unfolding exp_part_def
  by (auto dest!: digits_length split: list.splits if_splits)

lemma parse_number_length: "parse_number s = Some (t, r) \<Longrightarrow> length r < length s"
  unfolding parse_number_def Let_def
  by (auto split: list.splits if_splits option.splits prod.splits
      dest!: int_part_length frac_part_length exp_part_length)

lemma strip_length: "strip (p # ps) s = Some r \<Longrightarrow> length r < length s"
  by (auto simp: strip_def has_prefix_iff split: if_splits)

text \<open>The scalar values, which need no fuel.\<close>

definition parse_scalar :: "string \<Rightarrow> (json \<times> string) option" where
  "parse_scalar s = (case s of [] \<Rightarrow> None
   | c # cs \<Rightarrow>
      if c = CHR 0x22 then map_option (\<lambda>(t, r). (JStr t, r)) (parse_string (Suc (length cs)) cs)
      else if c = CHR ''t'' then map_option (\<lambda>r. (JBool True, r)) (strip ''true'' (c # cs))
      else if c = CHR ''f'' then map_option (\<lambda>r. (JBool False, r)) (strip ''false'' (c # cs))
      else if c = CHR ''n'' then map_option (\<lambda>r. (JNull, r)) (strip ''null'' (c # cs))
      else map_option (\<lambda>(t, r). (JNum t, r)) (parse_number (c # cs)))"

lemma parse_scalar_length: "parse_scalar s = Some (v, r) \<Longrightarrow> length r < length s"
  unfolding parse_scalar_def
  by (auto split: list.splits if_splits dest!: parse_string_length parse_number_length strip_length
      simp del: parse_string.simps)

lemma parse_value_step:
  "parse_value (Suc n) d s = (case skip_ws s of [] \<Rightarrow> None
   | c # cs \<Rightarrow>
      if c = CHR ''['' then
        (if d = 0 then None
         else case skip_ws cs of [] \<Rightarrow> None
           | x # xs \<Rightarrow> if x = CHR '']'' then Some (JArr [], xs) else parse_elems n (d - 1) [] (x # xs))
      else if c = CHR ''{'' then
        (if d = 0 then None
         else case skip_ws cs of [] \<Rightarrow> None
           | x # xs \<Rightarrow> if x = CHR ''}'' then Some (JObj [], xs) else parse_members n (d - 1) [] (x # xs))
      else parse_scalar (c # cs))"
  by (simp add: parse_scalar_def split: list.split)

lemma parse_length_all:
  "(\<forall>d s v r. parse_value n d s = Some (v, r) \<longrightarrow> length r < length s) \<and>
   (\<forall>d acc s v r. parse_elems n d acc s = Some (v, r) \<longrightarrow> length r < length s) \<and>
   (\<forall>d mem s v r. parse_members n d mem s = Some (v, r) \<longrightarrow> length r < length s)"
proof (induction n)
  case (Suc n)
  have v: "length r < length s" if "parse_value n d s = Some (v, r)" for d s v r
    using Suc that by blast
  have e: "length r < length s" if "parse_elems n d acc s = Some (v, r)" for d acc s v r
    using Suc that by blast
  have m: "length r < length s" if "parse_members n d mem s = Some (v, r)" for d mem s v r
    using Suc that by blast
  have "parse_value (Suc n) d s = Some (v, r) \<Longrightarrow> length r < length s" for d s v r
    unfolding parse_value_step
    by (auto split: list.splits if_splits dest!: e m skip_ws_Cons parse_scalar_length)
  moreover have "parse_elems (Suc n) d acc s = Some (v, r) \<Longrightarrow> length r < length s" for d acc s v r
    by (auto split: list.splits if_splits option.splits dest!: v e skip_ws_Cons)
  moreover have "parse_members (Suc n) d mem s = Some (v, r) \<Longrightarrow> length r < length s"
    for d mem s v r
    by (auto split: list.splits if_splits option.splits
        dest!: v m skip_ws_Cons parse_string_length simp del: parse_string.simps)
  ultimately show ?case by blast
qed simp

lemmas parse_length = parse_length_all [THEN conjunct1, rule_format]

text \<open>With fuel above twice the length, more fuel changes nothing.\<close>

declare parse_value.simps(2) [simp del] parse_elems.simps(2) [simp del] parse_members.simps(2) [simp del]

lemma parse_fuel_all:
  "(\<forall>d s. 2 * length s < n \<longrightarrow> parse_value (Suc n) d s = parse_value n d s) \<and>
   (\<forall>d acc s. 2 * length s + 1 < n \<longrightarrow> parse_elems (Suc n) d acc s = parse_elems n d acc s) \<and>
   (\<forall>d mem s. 2 * length s + 1 < n \<longrightarrow> parse_members (Suc n) d mem s = parse_members n d mem s)"
proof (induction n)
  case (Suc n)
  have v: "parse_value (Suc n) d s = parse_value n d s" if "2 * length s < n" for d s
    using Suc that by blast
  have e: "parse_elems (Suc n) d acc s = parse_elems n d acc s" if "2 * length s + 1 < n" for d acc s
    using Suc that by blast
  have m: "parse_members (Suc n) d mem s = parse_members n d mem s"
    if "2 * length s + 1 < n" for d mem s
    using Suc that by blast
  have "parse_value (Suc (Suc n)) d s = parse_value (Suc n) d s" if len: "2 * length s < Suc n" for d s
  proof -
    have "parse_elems (Suc n) d' [] (x # xs) = parse_elems n d' [] (x # xs)"
      "parse_members (Suc n) d' [] (x # xs) = parse_members n d' [] (x # xs)"
      if "skip_ws s = c # cs" "skip_ws cs = x # xs" for d' c cs x xs
      using len skip_ws_Cons [OF that(1)] skip_ws_Cons [OF that(2)] by (auto intro!: e m)
    then show ?thesis unfolding parse_value_step by (simp split: list.split)
  qed
  moreover have "parse_elems (Suc (Suc n)) d acc s = parse_elems (Suc n) d acc s"
    if len: "2 * length s + 1 < Suc n" for d acc s
  proof -
    have "parse_elems (Suc n) d acc' cs = parse_elems n d acc' cs"
      if "parse_value n d s = Some (x, rest)" "skip_ws rest = c # cs" for x rest c cs acc'
      using len parse_length [OF that(1)] skip_ws_Cons [OF that(2)] by (intro e) simp
    then show ?thesis using v [of s d] len
      by (simp add: parse_elems.simps(2) split: option.split list.split)
  qed
  moreover have "parse_members (Suc (Suc n)) d mem s = parse_members (Suc n) d mem s"
    if len: "2 * length s + 1 < Suc n" for d mem s
  proof -
    have "parse_value (Suc n) d cs = parse_value n d cs \<and>
       (\<forall>x rest2 e es. parse_value n d cs = Some (x, rest2) \<longrightarrow> skip_ws rest2 = e # es \<longrightarrow>
         (\<forall>mem'. parse_members (Suc n) d mem' es = parse_members n d mem' es))"
      if "skip_ws s = q # qs" "parse_string (Suc (length qs)) qs = Some (k, rest)"
        "skip_ws rest = c # cs" for q qs k rest c cs
    proof -
      have "Suc (Suc (length cs)) < length s"
        using skip_ws_Cons [OF that(1)] parse_string_length [OF that(2)] skip_ws_Cons [OF that(3)]
        by simp
      then show ?thesis using len parse_length [of n d cs] skip_ws_Cons
        by (fastforce intro!: v m)
    qed
    then show ?thesis
      by (simp del: parse_string.simps add: parse_members.simps(2)
          split: option.split list.split)
  qed
  ultimately show ?case by blast
qed simp

lemma parse_value_fuel:
  "2 * length s < n \<Longrightarrow> n \<le> m \<Longrightarrow> parse_value m d s = parse_value n d s"
proof (induction m)
  case (Suc m)
  then show ?case using parse_fuel_all [of m] by (cases "n = Suc m") auto
qed simp

lemma json_decode_fuel:
  "2 * length s < n \<Longrightarrow> parse_value n max_nesting s = json_decode s"
  unfolding json_decode_def
  by (cases "n \<le> 2 * length s + 2")
    (auto intro: parse_value_fuel parse_value_fuel [symmetric])
end
