(* ===== verification/Policy.thy ===== *)
theory Policy
  imports Json
begin

text \<open>
  The statement policy (internal/policy/policy.go): which SQL the data plane executes.  DuckDB's
  parser is outside the repository and is a parameter: how many statements it extracts from a text,
  the type of the first one once prepared, and the JSON of \<open>json_serialize_sql\<close> (None where the query
  fails).  What Go does with the answers is modelled: the JSON is decoded, the statement tree is
  inspected, catalog names are collected, and the two regular expressions are matchers over bytes.
  In both expressions each part ends at a byte the next part cannot start with, so no backtracking
  is needed.  A pattern with flag i matches U+017F for s and U+212A for k, as Go's case folding does.
\<close>

section \<open>Tables\<close>

definition forbiddenFunctions :: "string list" where
  "forbiddenFunctions =
    [''getenv'', ''glob'', ''http_get'', ''http_post'', ''postgres_attach'', ''postgres_execute'',
     ''postgres_query'', ''postgres_scan'', ''mysql_attach'', ''mysql_execute'', ''mysql_query'',
     ''mysql_scan'', ''odbc_begin_transaction'', ''odbc_close'', ''odbc_commit'', ''odbc_connect'',
     ''odbc_copy'', ''odbc_query'', ''odbc_rollback'', ''quackridge_odbc_connection'', ''query'',
     ''query_table'', ''read_blob'', ''read_csv'', ''read_csv_auto'', ''read_json'',
     ''read_json_auto'', ''read_ndjson'', ''read_parquet'', ''read_text'', ''setvariable'',
     ''which_secret'']"

definition allowedTableFunctions :: "string list" where
  "allowedTableFunctions =
    [''duckdb_columns'', ''duckdb_schemas'', ''duckdb_tables'', ''duckdb_types'', ''duckdb_views'',
     ''generate_series'', ''quackridge_active_queries_v1'', ''quackridge_metadata_v2'', ''range'',
     ''unnest'', ''whoami'']"

section \<open>The patterns\<close>

definition re_space :: "char \<Rightarrow> bool" where
  "re_space c \<longleftrightarrow> byte c = 9 \<or> byte c = 10 \<or> byte c = 12 \<or> byte c = 13 \<or> byte c = 32"

definition spaces0 :: "string \<Rightarrow> string" where
  "spaces0 s = dropWhile re_space s"

definition spaces1 :: "string \<Rightarrow> string option" where
  "spaces1 s = (case s of c # cs \<Rightarrow> if re_space c then Some (spaces0 cs) else None | [] \<Rightarrow> None)"

text \<open>One character, case folded, and what follows it.\<close>

definition read_fold :: "string \<Rightarrow> (char \<times> string) option" where
  "read_fold s = (case s of [] \<Rightarrow> None
   | a # b # c # cs \<Rightarrow>
       if byte a = 0xE2 \<and> byte b = 0x84 \<and> byte c = 0xAA then Some (CHR ''k'', cs)
       else if byte a = 0xC5 \<and> byte b = 0xBF then Some (CHR ''s'', c # cs)
       else Some (lower_byte a, b # c # cs)
   | [a, b] \<Rightarrow> if byte a = 0xC5 \<and> byte b = 0xBF then Some (CHR ''s'', []) else Some (lower_byte a, [b])
   | [a] \<Rightarrow> Some (lower_byte a, []))"

text \<open>A keyword, given in lower case.\<close>

fun keyword :: "string \<Rightarrow> string \<Rightarrow> string option" where
  "keyword [] s = Some s"
| "keyword (k # ks) s = (case read_fold s of
     Some (c, r) \<Rightarrow> if c = k then keyword ks r else None
   | None \<Rightarrow> None)"

definition name_char :: "char \<Rightarrow> bool" where
  "name_char c \<longleftrightarrow> is_lower_byte c \<or> is_digit_byte c \<or> c = CHR ''_''"

lemma read_fold_length: "read_fold s = Some (c, r) \<Longrightarrow> length r < length s"
  by (auto simp: read_fold_def split: list.splits if_splits)

function name_run :: "string \<Rightarrow> nat \<times> string" where
  "name_run s = (case read_fold s of
     Some (c, r) \<Rightarrow> if name_char c then (case name_run r of (n, t) \<Rightarrow> (Suc n, t)) else (0, s)
   | None \<Rightarrow> (0, s))"
  by pat_completeness auto
termination
  by (relation "measure length") (auto dest: read_fold_length)

declare name_run.simps [simp del]

definition word_char :: "char \<Rightarrow> bool" where
  "word_char c \<longleftrightarrow> is_upper_byte c \<or> is_lower_byte c \<or> is_digit_byte c \<or> c = CHR ''_''"

definition word_boundary :: "string \<Rightarrow> bool" where
  "word_boundary s = (case s of [] \<Rightarrow> True | c # _ \<Rightarrow> \<not> word_char c)"

text \<open>\<open>(?:SELECT|WITH)\b.*\<close>: the captured body is the whole text.\<close>

definition select_body :: "string \<Rightarrow> string option" where
  "select_body s =
     (case keyword ''select'' s of
        Some r \<Rightarrow> if word_boundary r then Some s else None
      | None \<Rightarrow> (case keyword ''with'' s of
          Some r \<Rightarrow> if word_boundary r then Some s else None
        | None \<Rightarrow> None))"

definition or_replace :: "string \<Rightarrow> string option" where
  "or_replace s = (case keyword ''or'' s of None \<Rightarrow> Some s
   | Some r \<Rightarrow> Option.bind (spaces1 r) (\<lambda>r. Option.bind (keyword ''replace'' r) spaces1))"

definition temporary :: "string \<Rightarrow> string option" where
  "temporary s = Option.bind (keyword ''temp'' s)
     (\<lambda>r. case keyword ''orary'' r of Some r' \<Rightarrow> Some r' | None \<Rightarrow> Some r)"

definition scoped_name :: "string \<Rightarrow> string option" where
  "scoped_name s = Option.bind (keyword ''qr_tmp_'' s)
     (\<lambda>r. case name_run r of (n, t) \<Rightarrow> if 1 \<le> n \<and> n \<le> 55 then Some t else None)"

text \<open>\<open>tempTablePattern\<close>: the second submatch, the SELECT or WITH the table is created from.\<close>

definition tempTablePattern :: "string \<Rightarrow> string option" where
  "tempTablePattern q =
     Option.bind (keyword ''create'' (spaces0 q)) (\<lambda>s1.
     Option.bind (spaces1 s1) (\<lambda>s2.
     Option.bind (or_replace s2) (\<lambda>s3.
     Option.bind (temporary s3) (\<lambda>s4.
     Option.bind (spaces1 s4) (\<lambda>s5.
     Option.bind (keyword ''table'' s5) (\<lambda>s6.
     Option.bind (spaces1 s6) (\<lambda>s7.
     Option.bind (scoped_name s7) (\<lambda>s8.
     Option.bind (spaces1 s8) (\<lambda>s9.
     Option.bind (keyword ''as'' s9) (\<lambda>s10.
     Option.bind (spaces1 s10) select_body))))))))))"

definition id_char :: "char \<Rightarrow> bool" where
  "id_char c \<longleftrightarrow> word_char c \<or> c = CHR ''-''"

definition query_id_here :: "string \<Rightarrow> string option" where
  "query_id_here s =
     Option.bind (strip ''/*'' s) (\<lambda>r.
     Option.bind (strip ''quackridge-query-id:'' (spaces0 r)) (\<lambda>r2.
       let i = takeWhile id_char r2; rest = spaces0 (dropWhile id_char r2)
       in if i \<noteq> [] \<and> has_prefix ''*/'' rest then Some i else None))"

fun queryIDPattern :: "string \<Rightarrow> string option" where
  "queryIDPattern [] = None"
| "queryIDPattern (c # cs) =
     (case query_id_here (c # cs) of Some i \<Rightarrow> Some i | None \<Rightarrow> queryIDPattern cs)"

section \<open>The statement tree\<close>

definition forbidden_name :: "string \<Rightarrow> bool" where
  "forbidden_name name \<longleftrightarrow> List.member forbiddenFunctions name \<or>
     has_prefix ''postgres_'' name \<or> has_prefix ''mysql_'' name \<or> has_prefix ''odbc_'' name \<or>
     has_prefix ''read_'' name \<or> has_prefix ''http_'' name"

definition unsafeObjectName :: "json option \<Rightarrow> bool" where
  "unsafeObjectName value =
     (let name = str_of value; lower = to_lower name
      in contains_any [CHR ''/'', CHR 0x5C, CHR 0x5C] name \<or> contains ''://'' lower \<or>
         has_suffix ''.csv'' lower \<or> has_suffix ''.json'' lower \<or>
         has_suffix ''.parquet'' lower \<or> has_suffix ''.duckdb'' lower)"

text \<open>The three checks \<open>inspectTree\<close> makes of an object before it visits the members.\<close>

definition inspect_node :: "(string \<times> json) list \<Rightarrow> bool" where
  "inspect_node node \<longleftrightarrow>
     (case is_str (map_of node ''function_name'') of
        Some f \<Rightarrow> \<not> forbidden_name (to_lower f) | None \<Rightarrow> True) \<and>
     (str_of (map_of node ''type'') = ''TABLE_FUNCTION'' \<longrightarrow>
        List.member allowedTableFunctions
          (to_lower (str_of (map_of (obj_of (map_of node ''function'')) ''function_name'')))) \<and>
     (str_of (map_of node ''type'') = ''BASE_TABLE'' \<longrightarrow>
        list_all (\<lambda>field. \<not> unsafeObjectName (map_of node field))
          [''catalog_name'', ''schema_name'', ''table_name''])"

fun inspectTree :: "json \<Rightarrow> bool" where
  "inspectTree (JArr xs) = list_all inspectTree xs"
| "inspectTree (JObj node) = (inspect_node node \<and> list_all (\<lambda>(k, child). inspectTree child) node)"
| "inspectTree _ = True"

definition base_catalog :: "(string \<times> json) list \<Rightarrow> string option" where
  "base_catalog node =
     (let catalog = str_of (map_of node ''catalog_name'')
      in if str_of (map_of node ''type'') = ''BASE_TABLE'' \<and> catalog \<noteq> '''' \<and> catalog \<noteq> ''memory''
         then Some catalog else None)"

fun visit_sources :: "json \<Rightarrow> string list \<Rightarrow> string list" where
  "visit_sources (JArr xs) acc = fold visit_sources xs acc"
| "visit_sources (JObj node) acc =
     fold (\<lambda>(k, child). visit_sources child) node
       (case base_catalog node of Some c \<Rightarrow> List.insert c acc | None \<Rightarrow> acc)"
| "visit_sources _ acc = acc"

definition collectSources :: "json \<Rightarrow> string list" where
  "collectSources value = sort (visit_sources value [])"

section \<open>Evaluation\<close>

datatype statement_type = StatementTypeTransaction | StatementTypeOther

record sql_parser =
  p_ExtractStatements :: "string \<Rightarrow> nat"
  p_PreparedType :: "string \<Rightarrow> statement_type option"
  p_json_serialize_sql :: "string \<Rightarrow> string option"

record decision =
  d_Allowed :: bool
  d_Sources :: "string list"

definition deny :: decision where
  "deny = \<lparr>d_Allowed = False, d_Sources = []\<rparr>"

definition isSingleStatement :: "sql_parser \<Rightarrow> string \<Rightarrow> bool" where
  "isSingleStatement p query = (p_ExtractStatements p query = 1)"

definition isTransaction :: "sql_parser \<Rightarrow> string \<Rightarrow> bool" where
  "isTransaction p query =
     (p_ExtractStatements p query = 1 \<and>
      (case p_PreparedType p query of None \<Rightarrow> False | Some t \<Rightarrow> t = StatementTypeTransaction))"

text \<open>The decoded tree, where the serialization decodes to an object that reports no error and holds
  one statement.\<close>

definition selectTree :: "sql_parser \<Rightarrow> string \<Rightarrow> json option" where
  "selectTree p query = (case p_json_serialize_sql p query of None \<Rightarrow> None
   | Some serialized \<Rightarrow> (case json_unmarshal serialized of
       Some (JObj tree) \<Rightarrow>
         if \<not> bool_of (map_of tree ''error'') \<and> length (arr_of (map_of tree ''statements'')) = 1
         then Some (JObj tree) else None
     | _ \<Rightarrow> None))"

definition Evaluate :: "sql_parser \<Rightarrow> string \<Rightarrow> decision" where
  "Evaluate p query =
     (if length query = 0 \<or> length query > 2 ^ 20 then deny
      else if \<not> isSingleStatement p query then deny
      else case selectTree p query of
        Some tree \<Rightarrow>
          if \<not> inspectTree tree then deny
          else \<lparr>d_Allowed = True, d_Sources = collectSources tree\<rparr>
      | None \<Rightarrow> (case tempTablePattern query of
          Some body \<Rightarrow> (case selectTree p body of
              Some tree \<Rightarrow> if inspectTree tree
                then \<lparr>d_Allowed = True, d_Sources = collectSources tree\<rparr> else deny
            | None \<Rightarrow> deny)
        | None \<Rightarrow> \<lparr>d_Allowed = isTransaction p query, d_Sources = []\<rparr>))"

definition Allow :: "sql_parser \<Rightarrow> string \<Rightarrow> bool" where
  "Allow p query = d_Allowed (Evaluate p query)"

text \<open>
  The scalar function DuckDB calls before it executes a statement, with the record it logs (the
  duration apart): an argument that is not a string is \<open>None\<close>.
\<close>

record authorization_log =
  al_Warn :: bool
  al_Message :: string
  al_QueryID :: string
  al_ConnectionID :: string
  al_SourceIDs :: "string list"

definition authorize ::
  "sql_parser \<Rightarrow> string option \<Rightarrow> string option \<Rightarrow> bool \<times> authorization_log option" where
  "authorize p connection query = (case query of None \<Rightarrow> (False, None)
   | Some q \<Rightarrow>
      let decision = Evaluate p q;
          queryID = (case queryIDPattern q of Some i \<Rightarrow> i | None \<Rightarrow> '''');
          connectionID = (case connection of Some c \<Rightarrow> c | None \<Rightarrow> '''')
      in (d_Allowed decision,
          Some \<lparr>al_Warn = \<not> d_Allowed decision,
                al_Message = (if d_Allowed decision then ''query authorized'' else ''query rejected''),
                al_QueryID = queryID, al_ConnectionID = connectionID,
                al_SourceIDs = d_Sources decision\<rparr>))"

section \<open>What the inspection means\<close>

text \<open>
  The policy as a statement about every object anywhere in the tree, free of the traversal: no
  function call by a forbidden name or with a forbidden prefix, no table function outside the
  allowed ones (nor one without a readable name), no base table named like a file, path or URL.
\<close>

definition forbiddenPrefixes :: "string list" where
  "forbiddenPrefixes = [''postgres_'', ''mysql_'', ''odbc_'', ''read_'', ''http_'']"

definition safe_object_name :: "string \<Rightarrow> bool" where
  "safe_object_name s \<longleftrightarrow> CHR ''/'' \<notin> set s \<and> CHR 0x5C \<notin> set s \<and>
     \<not> contains ''://'' (to_lower s) \<and>
     (\<forall>ext\<in>{''.csv'', ''.json'', ''.parquet'', ''.duckdb''}. \<not> has_suffix ext (to_lower s))"

definition node_safe :: "json \<Rightarrow> bool" where
  "node_safe v \<longleftrightarrow> (\<forall>m. v = JObj m \<longrightarrow>
     (\<forall>f. map_of m ''function_name'' = Some (JStr f) \<longrightarrow>
        to_lower f \<notin> set forbiddenFunctions \<and>
        (\<forall>p\<in>set forbiddenPrefixes. \<not> has_prefix p (to_lower f))) \<and>
     (map_of m ''type'' = Some (JStr ''TABLE_FUNCTION'') \<longrightarrow>
        (\<exists>fn f. map_of m ''function'' = Some (JObj fn) \<and>
           map_of fn ''function_name'' = Some (JStr f) \<and>
           to_lower f \<in> set allowedTableFunctions)) \<and>
     (map_of m ''type'' = Some (JStr ''BASE_TABLE'') \<longrightarrow>
        (\<forall>field\<in>{''catalog_name'', ''schema_name'', ''table_name''}. \<forall>s.
           map_of m field = Some (JStr s) \<longrightarrow> safe_object_name s)))"

definition tree_safe :: "json \<Rightarrow> bool" where
  "tree_safe v \<longleftrightarrow> (\<forall>n. subvalue n v \<longrightarrow> node_safe n)"

lemma str_of_eq_iff: "s \<noteq> [] \<Longrightarrow> str_of v = s \<longleftrightarrow> v = Some (JStr s)"
  by (auto simp: str_of_def split: option.splits elim!: is_str.elims)

lemma is_str_iff [simp]: "is_str v = Some s \<longleftrightarrow> v = Some (JStr s)"
  by (auto elim: is_str.elims)

lemma to_lower_Nil [simp]: "to_lower [] = []"
  by (simp add: to_lower_def)

lemma forbidden_name_iff:
  "forbidden_name f \<longleftrightarrow> f \<in> set forbiddenFunctions \<or> (\<exists>p\<in>set forbiddenPrefixes. has_prefix p f)"
  by (simp add: forbidden_name_def forbiddenPrefixes_def)

lemma safe_object_name_Nil: "safe_object_name []"
  by (simp add: safe_object_name_def has_suffix_def)

lemma unsafeObjectName_iff:
  "\<not> unsafeObjectName v \<longleftrightarrow> (\<forall>s. v = Some (JStr s) \<longrightarrow> safe_object_name s)"
proof -
  have "\<not> unsafeObjectName v \<longleftrightarrow> safe_object_name (str_of v)"
    by (auto simp: unsafeObjectName_def safe_object_name_def Let_def contains_any_def list_ex_iff)
  also have "\<dots> \<longleftrightarrow> (\<forall>s. v = Some (JStr s) \<longrightarrow> safe_object_name s)"
    using safe_object_name_Nil by (auto simp: str_of_def split: option.split)
  finally show ?thesis .
qed

lemma obj_of_member:
  "map_of (obj_of v) k = Some x \<longleftrightarrow> (\<exists>m. v = Some (JObj m) \<and> map_of m k = Some x)"
  by (cases v rule: obj_of.cases) auto

lemma allowed_table_function_iff:
  "to_lower (str_of v) \<in> set allowedTableFunctions \<longleftrightarrow>
   (\<exists>f. v = Some (JStr f) \<and> to_lower f \<in> set allowedTableFunctions)"
  by (auto simp: str_of_def allowedTableFunctions_def split: option.splits)

lemma case_is_str:
  "(case is_str v of Some f \<Rightarrow> P f | None \<Rightarrow> True) \<longleftrightarrow> (\<forall>f. v = Some (JStr f) \<longrightarrow> P f)"
  by (cases "is_str v") (auto simp flip: is_str_iff)

lemma inspect_node_iff: "inspect_node m \<longleftrightarrow> node_safe (JObj m)"
  by (auto simp: inspect_node_def node_safe_def str_of_eq_iff forbidden_name_iff case_is_str
      unsafeObjectName_iff allowed_table_function_iff obj_of_member)

lemma node_safe_other [simp]:
  "node_safe JNull" "node_safe (JBool b)" "node_safe (JNum n)" "node_safe (JStr s)"
  "node_safe (JArr xs)"
  by (simp_all add: node_safe_def)

lemma tree_safe_simps [simp]:
  "tree_safe (JArr xs) \<longleftrightarrow> (\<forall>x\<in>set xs. tree_safe x)"
  "tree_safe (JObj m) \<longleftrightarrow> node_safe (JObj m) \<and> (\<forall>(k, x)\<in>set m. tree_safe x)"
  "tree_safe JNull" "tree_safe (JBool b)" "tree_safe (JNum n)" "tree_safe (JStr s)"
  by (auto simp: tree_safe_def subvalue_children subvalue_simps)

lemma inspectTree_iff: "inspectTree v \<longleftrightarrow> tree_safe v"
  by (induction v rule: inspectTree.induct)
    (auto simp: inspect_node_iff list_all_iff)

section \<open>What the sources are\<close>

definition tree_catalogs :: "json \<Rightarrow> string set" where
  "tree_catalogs v = {c. \<exists>m. subvalue (JObj m) v \<and> base_catalog m = Some c}"

lemma tree_catalogs_simps [simp]:
  "tree_catalogs (JArr xs) = (\<Union>x\<in>set xs. tree_catalogs x)"
  "tree_catalogs (JObj m) = set_option (base_catalog m) \<union> (\<Union>(k, x)\<in>set m. tree_catalogs x)"
  "tree_catalogs JNull = {}" "tree_catalogs (JBool b) = {}" "tree_catalogs (JNum n) = {}"
  "tree_catalogs (JStr s) = {}"
  by (auto simp: tree_catalogs_def subvalue_simps)

lemma set_fold_insert:
  "(\<And>x acc. x \<in> set xs \<Longrightarrow> set (f x acc) = g x \<union> set acc) \<Longrightarrow>
   set (fold f xs acc) = (\<Union>x\<in>set xs. g x) \<union> set acc"
  by (induction xs arbitrary: acc) auto

lemma distinct_fold:
  "(\<And>x acc. x \<in> set xs \<Longrightarrow> distinct acc \<Longrightarrow> distinct (f x acc)) \<Longrightarrow> distinct acc \<Longrightarrow>
   distinct (fold f xs acc)"
  by (induction xs arbitrary: acc) auto

lemma set_visit_sources: "set (visit_sources v acc) = tree_catalogs v \<union> set acc"
proof (induction v acc rule: visit_sources.induct)
  case (1 xs acc)
  then show ?case by (simp add: set_fold_insert [where g = tree_catalogs])
next
  case (2 node acc)
  then show ?case
    by (subst visit_sources.simps, subst set_fold_insert [where g = "\<lambda>(k, x). tree_catalogs x"])
      (auto split: option.splits)
qed auto

lemma distinct_visit_sources: "distinct acc \<Longrightarrow> distinct (visit_sources v acc)"
proof (induction v acc rule: visit_sources.induct)
  case (2 node acc)
  then show ?case by (auto intro!: distinct_fold split: option.splits)
qed (auto intro!: distinct_fold)

lemma collectSources_set: "set (collectSources v) = tree_catalogs v"
  by (simp add: collectSources_def set_visit_sources)

lemma collectSources_sorted: "sorted (collectSources v) \<and> distinct (collectSources v)"
  by (simp add: collectSources_def distinct_visit_sources)

section \<open>The evaluation as a rule\<close>

text \<open>The statement Evaluate inspects: the query itself, or the body of a scoped temporary table.\<close>

definition inspected_tree :: "sql_parser \<Rightarrow> string \<Rightarrow> json option" where
  "inspected_tree p query = (case selectTree p query of
     Some tree \<Rightarrow> Some tree
   | None \<Rightarrow> Option.bind (tempTablePattern query) (selectTree p))"

lemma Evaluate_cases:
  assumes "d_Allowed (Evaluate p query)"
  obtains (tree) tree where "inspected_tree p query = Some tree" "tree_safe tree"
      "d_Sources (Evaluate p query) = collectSources tree"
  | (transaction) "inspected_tree p query = None" "tempTablePattern query = None"
      "isTransaction p query" "d_Sources (Evaluate p query) = []"
  using assms
  by (auto simp: Evaluate_def deny_def inspected_tree_def inspectTree_iff
      split: if_splits option.splits)

text \<open>C3. The policy admits exactly this: a query of 1 to 2^20 bytes that is a single statement, and
  is a SELECT, or a temporary table named with the scope prefix and filled by a SELECT, in whose
  whole tree every object is safe; or, where it is neither, a transaction statement.  A forbidden
  call nested at any depth is found, and a tree that does not decode is denied.\<close>

theorem Evaluate_exact:
  "d_Allowed (Evaluate p query) \<longleftrightarrow>
     query \<noteq> [] \<and> length query \<le> 2 ^ 20 \<and> p_ExtractStatements p query = 1 \<and>
     (case inspected_tree p query of
        Some tree \<Rightarrow> (\<forall>n. subvalue n tree \<longrightarrow> node_safe n)
      | None \<Rightarrow> tempTablePattern query = None \<and>
          p_PreparedType p query = Some StatementTypeTransaction)"
  by (auto simp: Evaluate_def deny_def inspected_tree_def inspectTree_iff tree_safe_def
      isSingleStatement_def isTransaction_def split: option.splits)

definition demo_parser :: "string \<Rightarrow> sql_parser" where
  "demo_parser serialized = \<lparr>p_ExtractStatements = (\<lambda>q. 1), p_PreparedType = (\<lambda>q. None),
     p_json_serialize_sql = (\<lambda>q. Some serialized)\<rparr>"

definition demo_tree :: "string \<Rightarrow> string" where
  "demo_tree node = ''{'' @ [CHR 0x22] @ ''statements'' @ [CHR 0x22] @ '':['' @ node @ '']}''"

lemma demo_unmarshal:
  "json_unmarshal (demo_tree ''{}'') = Some (JObj [(''statements'', JArr [JObj []])])"
  by code_simp

lemma demo_evaluate:
  "d_Allowed (Evaluate (demo_parser (demo_tree ''{}'')) ''SELECT 1'')"
  by (simp add: Evaluate_def demo_parser_def isSingleStatement_def selectTree_def demo_unmarshal
      str_of_def inspect_node_def)

theorem Evaluate_exact_witness:
  "(case inspected_tree (demo_parser (demo_tree ''{}'')) ''SELECT 1'' of
        Some tree \<Rightarrow> (\<forall>n. subvalue n tree \<longrightarrow> node_safe n)
      | None \<Rightarrow> tempTablePattern ''SELECT 1'' = None \<and>
          p_PreparedType (demo_parser (demo_tree ''{}'')) ''SELECT 1'' = Some StatementTypeTransaction)"
  using demo_evaluate unfolding Evaluate_exact by blast

lemma base_catalog_iff:
  "base_catalog m = Some c \<longleftrightarrow> c \<noteq> '''' \<and> c \<noteq> ''memory'' \<and>
     map_of m ''type'' = Some (JStr ''BASE_TABLE'') \<and> map_of m ''catalog_name'' = Some (JStr c)"
  by (auto simp: base_catalog_def Let_def str_of_eq_iff)
    (auto simp: str_of_def split: option.splits)

text \<open>The sources a decision names are the catalogs of the base tables of the inspected statement
  at any depth, other than the in-memory one: in order, without repetition, none missing; a denied
  statement and a transaction name none.\<close>

theorem Evaluate_sources:
  "sorted (d_Sources (Evaluate p query)) \<and> distinct (d_Sources (Evaluate p query)) \<and>
   set (d_Sources (Evaluate p query)) =
     (case inspected_tree p query of
        Some tree \<Rightarrow> if d_Allowed (Evaluate p query)
          then {c. c \<noteq> '''' \<and> c \<noteq> ''memory'' \<and> (\<exists>m. subvalue (JObj m) tree \<and>
                 map_of m ''type'' = Some (JStr ''BASE_TABLE'') \<and>
                 map_of m ''catalog_name'' = Some (JStr c))}
          else {}
      | None \<Rightarrow> {})"
proof (cases "d_Allowed (Evaluate p query)")
  case True
  have catalogs: "tree_catalogs t = {c. c \<noteq> '''' \<and> c \<noteq> ''memory'' \<and> (\<exists>m. subvalue (JObj m) t \<and>
      map_of m ''type'' = Some (JStr ''BASE_TABLE'') \<and> map_of m ''catalog_name'' = Some (JStr c))}" for t
    by (auto simp: tree_catalogs_def base_catalog_iff)
  from True show ?thesis
    by (cases rule: Evaluate_cases) (simp_all add: catalogs [symmetric] collectSources_set
        collectSources_sorted True)
next
  case False
  then have "d_Sources (Evaluate p query) = []"
    by (auto simp: Evaluate_def deny_def split: if_splits option.splits)
  with False show ?thesis by (simp split: option.split)
qed

section \<open>What the temporary table pattern matches\<close>

text \<open>
  The regular expression as a language: a keyword stands for all its spellings under case folding,
  and the parts are concatenated.  A matcher implements a language before every rest that satisfies
  a condition when what it consumes is in the language, and it consumes all of any member.
\<close>

definition spelling :: "char \<Rightarrow> string \<Rightarrow> bool" where
  "spelling k p \<longleftrightarrow> (\<exists>b. p = [b] \<and> lower_byte b = k) \<or>
     k = CHR ''k'' \<and> p = [char_of (0xE2::nat), char_of (0x84::nat), char_of (0xAA::nat)] \<or>
     k = CHR ''s'' \<and> p = [char_of (0xC5::nat), char_of (0xBF::nat)]"

inductive spells :: "string \<Rightarrow> string \<Rightarrow> bool" where
  spells_Nil: "spells [] []"
| spells_Cons: "spelling k p \<Longrightarrow> spells ks s \<Longrightarrow> spells (k # ks) (p @ s)"

inductive_simps spells_Nil_simps [simp]: "spells [] s"
inductive_simps spells_Cons_simps: "spells (k # ks) s"

definition kw :: "string \<Rightarrow> string set" where
  "kw k = {p. spells k p}"

definition ws0 :: "string set" where
  "ws0 = {w. list_all re_space w}"

definition ws1 :: "string set" where
  "ws1 = ws0 - {[]}"

definition conc :: "string set \<Rightarrow> string set \<Rightarrow> string set" where
  "conc A B = {x @ y | x y. x \<in> A \<and> y \<in> B}"

definition optional :: "string set \<Rightarrow> string set" where
  "optional A = insert [] A"

definition scoped_names :: "string set" where
  "scoped_names = conc (kw ''qr_tmp_'')
     {p. \<exists>n. spells n p \<and> list_all name_char n \<and> 1 \<le> length n \<and> length n \<le> 55}"

definition temp_table_heads :: "string set" where
  "temp_table_heads =
     conc ws0 (conc (kw ''create'') (conc ws1
       (conc (optional (conc (kw ''or'') (conc ws1 (conc (kw ''replace'') ws1))))
       (conc (conc (kw ''temp'') (optional (kw ''orary''))) (conc ws1
       (conc (kw ''table'') (conc ws1 (conc scoped_names (conc ws1 (conc (kw ''as'') ws1))))))))))"

definition select_texts :: "string set" where
  "select_texts = conc (kw ''select'' \<union> kw ''with'') {r. word_boundary r}"

definition parses :: "(string \<Rightarrow> string option) \<Rightarrow> string set \<Rightarrow> (string \<Rightarrow> bool) \<Rightarrow> bool" where
  "parses P L G \<longleftrightarrow> (\<forall>s r. P s = Some r \<longrightarrow> (\<exists>x\<in>L. s = x @ r)) \<and>
     (\<forall>x\<in>L. \<forall>r. G r \<longrightarrow> P (x @ r) = Some r)"

lemma parsesI:
  assumes "\<And>s r. P s = Some r \<Longrightarrow> \<exists>x\<in>L. s = x @ r"
    and "\<And>x r. x \<in> L \<Longrightarrow> G r \<Longrightarrow> P (x @ r) = Some r"
  shows "parses P L G"
  using assms by (auto simp: parses_def)

lemma parses_bind:
  assumes P: "parses P L G" and Q: "parses Q M H"
    and follow: "\<And>y r. y \<in> M \<Longrightarrow> H r \<Longrightarrow> G (y @ r)"
  shows "parses (\<lambda>s. Option.bind (P s) Q) (conc L M) H"
proof (rule parsesI)
  fix s r assume "Option.bind (P s) Q = Some r"
  then obtain t where "P s = Some t" "Q t = Some r" by (auto simp: Option.bind_eq_Some_conv)
  then obtain x y where "x \<in> L" "s = x @ t" "y \<in> M" "t = y @ r"
    using P Q unfolding parses_def by blast
  then show "\<exists>x\<in>conc L M. s = x @ r" by (force simp: conc_def)
next
  fix x r assume "x \<in> conc L M" and r: "H r"
  then obtain a b where x: "x = a @ b" and a: "a \<in> L" and b: "b \<in> M" by (auto simp: conc_def)
  have "P (a @ b @ r) = Some (b @ r)"
    using P a follow [OF b r] unfolding parses_def by blast
  moreover have "Q (b @ r) = Some r" using Q b r unfolding parses_def by blast
  ultimately show "Option.bind (P (x @ r)) Q = Some r" by (simp add: x)
qed

lemma parses_weaken: "parses P L G \<Longrightarrow> (\<And>r. H r \<Longrightarrow> G r) \<Longrightarrow> parses P L H"
  unfolding parses_def by blast

subsection \<open>Keywords and spaces\<close>

lemma byte_char_of: "n < 256 \<Longrightarrow> byte c = n \<longleftrightarrow> c = char_of n"
  by (auto simp: byte_def)

lemma read_fold_spelling: "read_fold s = Some (k, r) \<Longrightarrow> \<exists>p. spelling k p \<and> s = p @ r"
  by (auto simp: read_fold_def spelling_def byte_char_of split: list.splits if_splits)

text \<open>A letter, digit or underscore spelled in any way is read back, whatever follows.\<close>

lemma name_char_lower: "name_char (lower_byte b) \<Longrightarrow> byte b < 128"
  by (auto simp: name_char_def lower_byte_def is_upper_byte_def is_lower_byte_def is_digit_byte_def
      byte_def split: if_splits)

lemma read_fold_single:
  "name_char (lower_byte b) \<Longrightarrow> read_fold (b # r) = Some (lower_byte b, r)"
  by (drule name_char_lower) (auto simp: read_fold_def split: list.split)

lemma read_fold_kelvin:
  "read_fold (char_of (0xE2::nat) # char_of (0x84::nat) # char_of (0xAA::nat) # r) = Some (CHR ''k'', r)"
  by (simp add: read_fold_def byte_def)

lemma read_fold_long_s:
  "read_fold (char_of (0xC5::nat) # char_of (0xBF::nat) # r) = Some (CHR ''s'', r)"
  by (cases r) (simp_all add: read_fold_def byte_def)

lemma read_fold_complete:
  "spelling k p \<Longrightarrow> name_char k \<Longrightarrow> read_fold (p @ r) = Some (k, r)"
  by (auto simp: spelling_def read_fold_single read_fold_kelvin read_fold_long_s)

definition starts_text :: "string \<Rightarrow> bool" where
  "starts_text s \<longleftrightarrow> (\<exists>c cs. s = c # cs \<and> \<not> re_space c)"

definition starts_space :: "string \<Rightarrow> bool" where
  "starts_space s \<longleftrightarrow> (\<exists>c cs. s = c # cs \<and> re_space c)"

lemma keyword_sound: "keyword k s = Some r \<Longrightarrow> \<exists>p. spells k p \<and> s = p @ r"
proof (induction k arbitrary: s)
  case (Cons k ks)
  then obtain t where t: "read_fold s = Some (k, t)" "keyword ks t = Some r"
    by (auto split: option.splits if_splits)
  with Cons obtain p where "spells ks p" "t = p @ r" by blast
  with read_fold_spelling [OF t(1)] show ?case by (auto intro: spells_Cons)
qed simp

lemma keyword_complete: "spells k p \<Longrightarrow> list_all name_char k \<Longrightarrow> keyword k (p @ r) = Some r"
  by (induction rule: spells.induct) (simp_all add: read_fold_complete)

lemma parses_keyword: "list_all name_char k \<Longrightarrow> parses (keyword k) (kw k) G"
  by (rule parsesI) (auto simp: kw_def keyword_complete dest: keyword_sound)

lemma spells_starts_text:
  "spells (k # ks) p \<Longrightarrow> name_char k \<Longrightarrow> starts_text (p @ r)"
  by (auto simp: spells_Cons_simps spelling_def starts_text_def re_space_def name_char_def
      lower_byte_def is_upper_byte_def is_lower_byte_def is_digit_byte_def byte_def split: if_splits)

lemma parses_spaces1: "parses spaces1 ws1 starts_text"
proof (rule parsesI)
  fix s r assume "spaces1 s = Some r"
  then obtain c cs where s: "s = c # cs" "re_space c" and r: "r = dropWhile re_space cs"
    by (auto simp: spaces1_def spaces0_def split: list.splits if_splits)
  then have "s = (c # takeWhile re_space cs) @ r" by simp
  moreover have "c # takeWhile re_space cs \<in> ws1"
    using s by (auto simp: ws1_def ws0_def list_all_iff dest: set_takeWhileD)
  ultimately show "\<exists>x\<in>ws1. s = x @ r" by blast
next
  fix x r assume "x \<in> ws1" "starts_text r"
  then show "spaces1 (x @ r) = Some r"
    by (cases x) (auto simp: ws1_def ws0_def list_all_iff starts_text_def spaces1_def spaces0_def
        dropWhile_append)
qed

lemma parses_spaces0: "parses (\<lambda>s. Some (spaces0 s)) ws0 starts_text"
proof (rule parsesI)
  fix s r assume "Some (spaces0 s) = Some r"
  then have "s = takeWhile re_space s @ r" by (auto simp: spaces0_def)
  moreover have "takeWhile re_space s \<in> ws0" by (auto simp: ws0_def list_all_iff dest: set_takeWhileD)
  ultimately show "\<exists>x\<in>ws0. s = x @ r" by blast
qed (auto simp: ws0_def list_all_iff starts_text_def spaces0_def dropWhile_append)

declare keyword.simps [simp del]

subsection \<open>The optional parts and the name\<close>

definition starts_t :: "string \<Rightarrow> bool" where
  "starts_t s \<longleftrightarrow> (\<exists>r. read_fold s = Some (CHR ''t'', r))"

lemma starts_t_text: "starts_t s \<Longrightarrow> starts_text s"
  by (auto simp: starts_t_def starts_text_def read_fold_def lower_byte_def re_space_def
      is_upper_byte_def byte_def split: list.splits if_splits)

lemma read_fold_space: "starts_space r \<Longrightarrow> \<exists>c cs. read_fold r = Some (c, cs) \<and> \<not> name_char c"
proof -
  assume "starts_space r"
  then obtain c cs where r: "r = c # cs" and c: "re_space c" by (auto simp: starts_space_def)
  then have "byte c < 128" by (auto simp: re_space_def)
  then have "read_fold r = Some (lower_byte c, cs)" by (auto simp: r read_fold_def split: list.split)
  moreover have "\<not> name_char (lower_byte c)"
    using c by (auto simp: re_space_def name_char_def lower_byte_def is_upper_byte_def
        is_lower_byte_def is_digit_byte_def byte_def)
  ultimately show ?thesis by blast
qed

lemma parses_orary:
  "parses (\<lambda>s. case keyword ''orary'' s of Some r \<Rightarrow> Some r | None \<Rightarrow> Some s)
     (optional (kw ''orary'')) starts_space"
proof (rule parsesI)
  fix x r assume x: "x \<in> optional (kw ''orary'')" and r: "starts_space r"
  have "keyword ''orary'' r = None"
    using read_fold_space [OF r] by (auto simp: keyword.simps name_char_def is_lower_byte_def byte_def)
  moreover have "keyword ''orary'' (x @ r) = Some r" if "x \<in> kw ''orary''"
    using that keyword_complete [of "''orary''" x r] by (simp add: kw_def name_char_def
        is_lower_byte_def byte_def)
  ultimately show "(case keyword ''orary'' (x @ r) of Some r \<Rightarrow> Some r | None \<Rightarrow> Some (x @ r)) = Some r"
    using x by (auto simp: optional_def)
qed (auto simp: optional_def kw_def split: option.splits dest: keyword_sound)

lemma starts_text_kw: "y \<in> kw (k # ks) \<Longrightarrow> name_char k \<Longrightarrow> starts_text (y @ r)"
  by (simp add: kw_def spells_starts_text)

lemma starts_text_conc:
  "y \<in> conc (kw (k # ks)) M \<Longrightarrow> name_char k \<Longrightarrow> starts_text (y @ r)"
  by (auto simp: conc_def intro: starts_text_kw)

lemma starts_space_conc: "y \<in> conc ws1 M \<Longrightarrow> starts_space (y @ r)"
  by (auto simp: conc_def ws1_def ws0_def starts_space_def neq_Nil_conv)

lemma starts_space_ws1: "y \<in> ws1 \<Longrightarrow> starts_space (y @ r)"
  by (auto simp: ws1_def ws0_def starts_space_def neq_Nil_conv)

lemma parses_or_replace:
  "parses or_replace (optional (conc (kw ''or'') (conc ws1 (conc (kw ''replace'') ws1)))) starts_t"
proof -
  let ?L = "conc (kw ''or'') (conc ws1 (conc (kw ''replace'') ws1))"
  let ?P = "\<lambda>s. Option.bind (keyword ''or'' s)
    (\<lambda>s. Option.bind (spaces1 s) (\<lambda>s. Option.bind (keyword ''replace'' s) spaces1))"
  have names: "list_all name_char ''or''" "list_all name_char ''replace''" "name_char CHR ''r''"
    by (simp_all add: name_char_def is_lower_byte_def byte_def)
  have P: "parses ?P ?L starts_text"
    using parses_bind [OF parses_keyword [OF names(1), of starts_space] parses_bind
        [OF parses_spaces1 parses_bind [OF parses_keyword [OF names(2), of starts_space] parses_spaces1]]]
    by (simp add: starts_space_ws1 starts_space_conc starts_text_conc names)
  have P_or: "?P s = (case keyword ''or'' s of None \<Rightarrow> None | Some r \<Rightarrow> or_replace s)" for s
    by (simp add: or_replace_def split: option.split)
  show ?thesis
  proof (rule parsesI)
    fix s r assume s: "or_replace s = Some r"
    show "\<exists>x\<in>optional ?L. s = x @ r"
    proof (cases "keyword ''or'' s")
      case None
      with s show ?thesis by (simp add: or_replace_def optional_def)
    next
      case (Some t)
      with s have "?P s = Some r" unfolding P_or by simp
      with P show ?thesis unfolding parses_def optional_def by blast
    qed
  next
    fix x r assume x: "x \<in> optional ?L" and r: "starts_t r"
    then have *: "keyword ''or'' r = None" by (auto simp: starts_t_def keyword.simps)
    show "or_replace (x @ r) = Some r"
    proof (cases "x \<in> ?L")
      case True
      then have "?P (x @ r) = Some r"
        using P starts_t_text [OF r] unfolding parses_def by blast
      then show ?thesis unfolding P_or by (simp split: option.splits)
    next
      case False
      with x have "x = []" by (simp add: optional_def)
      with * show ?thesis by (simp add: or_replace_def)
    qed
  qed
qed

lemma name_run_sound:
  "name_run s = (n, t) \<Longrightarrow>
   \<exists>ks p. spells ks p \<and> list_all name_char ks \<and> length ks = n \<and> s = p @ t"
proof (induction s arbitrary: n t rule: name_run.induct)
  case (1 s)
  show ?case
  proof (cases "\<exists>c r. read_fold s = Some (c, r) \<and> name_char c")
    case True
    then obtain c r where c: "read_fold s = Some (c, r)" "name_char c" by blast
    obtain m u where m: "name_run r = (m, u)" by fastforce
    obtain ks p where ks: "spells ks p" "list_all name_char ks" "length ks = m" "r = p @ u"
      using 1(1) [OF c(1) refl c(2) m] by blast
    obtain q where q: "spelling c q" "s = q @ r" using read_fold_spelling [OF c(1)] by blast
    have "n = Suc m \<and> t = u" using 1(2) c m by (simp add: name_run.simps [of s])
    then have "spells (c # ks) (q @ p)" "list_all name_char (c # ks)" "length (c # ks) = n"
      "s = (q @ p) @ t" using c ks q by (auto intro: spells_Cons)
    then show ?thesis by blast
  next
    case False
    then have "n = 0 \<and> t = s"
      using 1(2) by (auto simp: name_run.simps [of s] split: option.splits)
    then show ?thesis by (auto intro: exI [of _ "[]"])
  qed
qed

lemma name_run_stop: "starts_space r \<Longrightarrow> name_run r = (0, r)"
  using read_fold_space by (subst name_run.simps) fastforce

lemma name_run_complete:
  "spells ks p \<Longrightarrow> list_all name_char ks \<Longrightarrow> starts_space r \<Longrightarrow> name_run (p @ r) = (length ks, r)"
proof (induction rule: spells.induct)
  case (spells_Cons k p ks s)
  then show ?case by (subst name_run.simps) (simp add: read_fold_complete)
qed (simp add: name_run_stop)

lemma parses_scoped_name: "parses scoped_name scoped_names starts_space"
proof -
  let ?P = "\<lambda>r. case name_run r of (n, t) \<Rightarrow> if 1 \<le> n \<and> n \<le> 55 then Some t else None"
  let ?L = "{p. \<exists>n. spells n p \<and> list_all name_char n \<and> 1 \<le> length n \<and> length n \<le> 55}"
  have "parses ?P ?L starts_space"
  proof (rule parsesI)
    fix s r assume "?P s = Some r"
    then obtain n where n: "name_run s = (n, r)" "1 \<le> n" "n \<le> 55"
      by (auto split: prod.splits if_splits)
    from name_run_sound [OF n(1)] obtain ks p
      where ks: "spells ks p" "list_all name_char ks" "length ks = n" and s: "s = p @ r" by blast
    have "p \<in> ?L" using ks n by blast
    with s show "\<exists>x\<in>?L. s = x @ r" by blast
  next
    fix x r assume "x \<in> ?L" "starts_space r"
    then obtain n where n: "spells n x" "list_all name_char n" "1 \<le> length n" "length n \<le> 55"
      by blast
    then have "name_run (x @ r) = (length n, r)" using \<open>starts_space r\<close> by (simp add: name_run_complete)
    with n show "?P (x @ r) = Some r" by simp
  qed
  then show ?thesis
    unfolding scoped_name_def scoped_names_def
    by (intro parses_bind [OF parses_keyword [where G = "\<lambda>_. True"]])
      (simp_all add: name_char_def is_lower_byte_def byte_def)
qed
subsection \<open>The whole pattern\<close>

definition temp_table_head :: "string \<Rightarrow> string option" where
  "temp_table_head q =
     Option.bind (Some (spaces0 q)) (\<lambda>s. Option.bind (keyword ''create'' s) (\<lambda>s.
     Option.bind (spaces1 s) (\<lambda>s. Option.bind (or_replace s) (\<lambda>s.
     Option.bind (temporary s) (\<lambda>s. Option.bind (spaces1 s) (\<lambda>s.
     Option.bind (keyword ''table'' s) (\<lambda>s. Option.bind (spaces1 s) (\<lambda>s.
     Option.bind (scoped_name s) (\<lambda>s. Option.bind (spaces1 s) (\<lambda>s.
     Option.bind (keyword ''as'' s) spaces1))))))))))"

lemma tempTablePattern_head: "tempTablePattern q = Option.bind (temp_table_head q) select_body"
  by (simp add: tempTablePattern_def temp_table_head_def)

lemma keyword_names:
  "list_all name_char ''create''" "list_all name_char ''temp''" "list_all name_char ''table''"
  "list_all name_char ''as''" "list_all name_char ''select''" "list_all name_char ''with''"
  "name_char CHR ''q''" "name_char CHR ''c''" "name_char CHR ''t''" "name_char CHR ''a''"
  "name_char CHR ''s''" "name_char CHR ''w''"
  by (simp_all add: name_char_def is_lower_byte_def byte_def)

lemma parses_temporary:
  "parses temporary (conc (kw ''temp'') (optional (kw ''orary''))) starts_space"
  unfolding temporary_def
  by (rule parses_bind [OF parses_keyword [OF keyword_names(2), of "\<lambda>_. True"] parses_orary]) simp

lemma starts_t_temp: "y \<in> conc (conc (kw ''temp'') A) B \<Longrightarrow> starts_t (y @ r)"
proof -
  assume "y \<in> conc (conc (kw ''temp'') A) B"
  then obtain p x where "spelling CHR ''t'' p" "y = p @ x"
    by (auto simp: conc_def kw_def spells_Cons_simps)
  then show ?thesis
    using read_fold_complete [of "CHR ''t''" p "x @ r"] keyword_names
    by (auto simp: starts_t_def)
qed

lemma starts_text_name: "y \<in> conc scoped_names M \<Longrightarrow> starts_text (y @ r)"
proof -
  assume "y \<in> conc scoped_names M"
  then obtain a b where "y = a @ b" "a \<in> kw ''qr_tmp_''" by (auto simp: conc_def scoped_names_def)
  then show ?thesis using starts_text_kw [of a "CHR ''q''" "''r_tmp_''" "b @ r"] keyword_names by simp
qed

lemma starts_text_or:
  "y \<in> conc (optional (conc (kw ''or'') A)) (conc (conc (kw ''temp'') B) C) \<Longrightarrow> starts_text (y @ r)"
proof -
  assume y: "y \<in> conc (optional (conc (kw ''or'') A)) (conc (conc (kw ''temp'') B) C)"
  have o: "name_char CHR ''o''" by (simp add: name_char_def is_lower_byte_def byte_def)
  from y obtain a b where ab: "y = a @ b" "a \<in> optional (conc (kw ''or'') A)"
    "b \<in> conc (conc (kw ''temp'') B) C" unfolding conc_def [of "optional _"] by blast
  have "starts_text (b @ r)" using starts_t_text [OF starts_t_temp [OF ab(3)]] .
  moreover have "starts_text (a @ b @ r)" if "a \<in> conc (kw ''or'') A"
    using starts_text_conc [OF that o] .
  ultimately show ?thesis using ab by (auto simp: optional_def)
qed

lemma parses_temp_table_head: "parses temp_table_head temp_table_heads starts_text"
proof -
  note kwp = parses_keyword [where G = starts_space]
  have 1: "parses (\<lambda>s. Option.bind (keyword ''as'' s) spaces1) (conc (kw ''as'') ws1) starts_text"
    by (rule parses_bind [OF kwp parses_spaces1]) (simp_all add: keyword_names starts_space_ws1)
  note chain = parses_bind [OF parses_spaces0 parses_bind [OF kwp [OF keyword_names(1)]
    parses_bind [OF parses_spaces1 parses_bind [OF parses_or_replace
    parses_bind [OF parses_temporary parses_bind [OF parses_spaces1
    parses_bind [OF kwp [OF keyword_names(3)] parses_bind [OF parses_spaces1
    parses_bind [OF parses_scoped_name parses_bind [OF parses_spaces1 1]]]]]]]]]]
  show ?thesis
    unfolding temp_table_head_def temp_table_heads_def
    by (rule chain) (blast intro: starts_space_conc starts_t_temp starts_text_name starts_text_or
        starts_text_conc keyword_names)+
qed

lemma select_body_iff: "select_body s = Some b \<longleftrightarrow> b = s \<and> s \<in> select_texts"
proof -
  have "(\<exists>r. keyword k s = Some r \<and> word_boundary r) \<longleftrightarrow>
      (\<exists>x r. s = x @ r \<and> x \<in> kw k \<and> word_boundary r)" if "list_all name_char k" for k
    using keyword_complete [OF _ that] keyword_sound [of k s] unfolding kw_def by blast
  from this [OF keyword_names(5)] this [OF keyword_names(6)]
  have "s \<in> select_texts \<longleftrightarrow> (\<exists>r. keyword ''select'' s = Some r \<and> word_boundary r) \<or>
      (\<exists>r. keyword ''with'' s = Some r \<and> word_boundary r)"
    unfolding select_texts_def conc_def by auto
  moreover have "keyword ''with'' s = None" if "keyword ''select'' s \<noteq> None"
    using that by (auto simp: keyword.simps split: option.splits if_splits)
  ultimately show ?thesis by (auto simp: select_body_def split: option.splits)
qed

text \<open>\<open>tempTablePattern\<close> matches exactly the regular expression: CREATE, optionally OR REPLACE,
  TEMP or TEMPORARY, TABLE, a name with the scope prefix and 1 to 55 more name characters, AS, then
  a text that starts with the word SELECT or WITH, which is the submatch; keywords and the name in
  any case folding, separated by white space.  No other table can be created: a query that names an
  unscoped table does not match.\<close>

theorem tempTablePattern_exact:
  "tempTablePattern q = Some body \<longleftrightarrow>
     (\<exists>head\<in>temp_table_heads. q = head @ body) \<and> body \<in> select_texts"
proof -
  have start: "starts_text b" if "b \<in> select_texts" for b
  proof -
    from that obtain w r where "b = w @ r" "w \<in> kw ''select'' \<or> w \<in> kw ''with''"
      unfolding select_texts_def conc_def by blast
    then show ?thesis
      using starts_text_kw [of w "CHR ''s''" "''elect''" r] starts_text_kw [of w "CHR ''w''" "''ith''" r]
        keyword_names by auto
  qed
  have "tempTablePattern q = Some body \<longleftrightarrow>
      (temp_table_head q = Some body \<and> body \<in> select_texts)"
    unfolding tempTablePattern_head by (auto simp: Option.bind_eq_Some_conv select_body_iff)
  also have "\<dots> \<longleftrightarrow> (\<exists>head\<in>temp_table_heads. q = head @ body) \<and> body \<in> select_texts"
    using parses_temp_table_head start [of body] unfolding parses_def by blast
  finally show ?thesis .
qed

end
