(* ===== verification/PolicyHandle.thy ===== *)
theory PolicyHandle
  imports Policy
begin

text \<open>
  What an evaluator and its installation hold (internal/policy/policy.go: NewEvaluator, Evaluator.Close, Install, Handle.Close):
  two DuckDB databases and two connections.  Whether a call succeeds is an answer of the host; a call that fails opens
  nothing, and closing releases also when it reports an error.
\<close>

record policy_host =
  ph_open_json :: "go_error option"
  ph_open_parser :: bool
  ph_connect_parser :: bool
  ph_connect :: "go_error option"
  ph_register :: "go_error option"
  ph_close_json :: "go_error option"
  ph_close_connection :: "go_error option"

record policy_handles =
  hd_json :: bool
  hd_parser :: bool
  hd_parser_connection :: bool
  hd_connection :: bool

definition nothing_held :: policy_handles where
  "nothing_held = \<lparr>hd_json = False, hd_parser = False, hd_parser_connection = False, hd_connection = False\<rparr>"

definition all_held :: policy_handles where
  "all_held = \<lparr>hd_json = True, hd_parser = True, hd_parser_connection = True, hd_connection = True\<rparr>"

definition NewEvaluator :: "policy_host \<Rightarrow> policy_handles \<Rightarrow> go_error option \<times> policy_handles" where
  "NewEvaluator host h =
     (case ph_open_json host of Some e \<Rightarrow> (Some e, h)
      | None \<Rightarrow> let h = h\<lparr>hd_json := True\<rparr> in
        if \<not> ph_open_parser host then (Some (Plain ''open policy parser''), h\<lparr>hd_json := False\<rparr>)
        else let h = h\<lparr>hd_parser := True\<rparr> in
        if \<not> ph_connect_parser host then (Some (Plain ''connect policy parser''), h\<lparr>hd_parser := False, hd_json := False\<rparr>)
        else (None, h\<lparr>hd_parser_connection := True\<rparr>))"

definition evaluator_Close :: "policy_host \<Rightarrow> policy_handles \<Rightarrow> go_error option \<times> policy_handles" where
  "evaluator_Close host h = (ph_close_json host, h\<lparr>hd_parser_connection := False, hd_parser := False, hd_json := False\<rparr>)"

definition Install :: "policy_host \<Rightarrow> policy_handles \<Rightarrow> go_error option \<times> policy_handles" where
  "Install host h = (case NewEvaluator host h of (Some e, h) \<Rightarrow> (Some e, h)
   | (None, h) \<Rightarrow> (case ph_connect host of Some e \<Rightarrow> (Some e, snd (evaluator_Close host h))
     | None \<Rightarrow> let h = h\<lparr>hd_connection := True\<rparr> in
       (case ph_register host of Some e \<Rightarrow> (Some e, snd (evaluator_Close host (h\<lparr>hd_connection := False\<rparr>)))
        | None \<Rightarrow> (None, h))))"

definition handle_Close :: "policy_host \<Rightarrow> policy_handles \<Rightarrow> go_error option \<times> policy_handles" where
  "handle_Close host h = (case evaluator_Close host (h\<lparr>hd_connection := False\<rparr>) of
     (e, h) \<Rightarrow> (errors_join [ph_close_connection host, e], h))"

text \<open>An installation holds everything or nothing, and closing it releases everything, whatever fails.\<close>

lemma NewEvaluator_all_or_nothing:
  "NewEvaluator host nothing_held = (err, h) \<Longrightarrow>
   h = (if err = None then all_held\<lparr>hd_connection := False\<rparr> else nothing_held)"
  by (auto simp: NewEvaluator_def nothing_held_def all_held_def Let_def split: option.splits if_splits)

lemma Install_all_or_nothing:
  "Install host nothing_held = (err, h) \<Longrightarrow> h = (if err = None then all_held else nothing_held)"
  by (cases "NewEvaluator host nothing_held")
    (auto simp: Install_def evaluator_Close_def Let_def nothing_held_def all_held_def
      dest!: NewEvaluator_all_or_nothing [unfolded nothing_held_def] split: option.splits if_splits)

lemma handle_Close_releases: "snd (handle_Close host h) = nothing_held"
  by (simp add: handle_Close_def evaluator_Close_def nothing_held_def)

lemma handle_Close_error: "fst (handle_Close host h) = None \<longleftrightarrow> ph_close_connection host = None \<and> ph_close_json host = None"
  by (cases "ph_close_connection host"; cases "ph_close_json host") (simp_all add: handle_Close_def evaluator_Close_def errors_join_def)

end
