(* ===== verification/Source.thy ===== *)
theory Source
  imports Errors
begin

text \<open>
  What the source adapters share (internal/source): source definitions, the alias pattern, the
  registry of adapters, the reader of metadata rows and the reconnect backoff.

  A duration is the int64 count of nanoseconds, as an integer with the wrap-around of the
  multiplication written out.  A Go map that is only looked up is a HOL map; the registry's map, which
  is listed, is an association list.  The SQL driver is a parameter of the metadata reader: the
  outcome of the query, of each scan, and of the final check.
\<close>

record source_def =
  sd_ID :: string
  sd_Name :: string
  sd_Alias :: string
  sd_ConnectorType :: string
  sd_DatabaseType :: string
  sd_Enabled :: bool

section \<open>Aliases\<close>

definition alias_char :: "char \<Rightarrow> bool" where
  "alias_char c \<longleftrightarrow> is_lower_byte c \<or> is_digit_byte c \<or> c = CHR ''_''"

definition aliasPattern :: "string \<Rightarrow> bool" where
  "aliasPattern s = (case s of [] \<Rightarrow> False
     | c # cs \<Rightarrow> is_lower_byte c \<and> length cs \<le> 62 \<and> list_all alias_char cs)"

definition ValidateAlias :: "string \<Rightarrow> go_error option" where
  "ValidateAlias alias = (if \<not> aliasPattern alias
     then Some (Plain ''alias must match ^[a-z][a-z0-9_]{0,62}$'') else None)"

section \<open>The registry\<close>

text \<open>An adapter is known here by its type; the list of the constructor may hold nil interfaces.\<close>

type_synonym 'a registry = "(string \<times> 'a) list"

text \<open>\<open>%q\<close>: the double-quoted text, for the printable ASCII strings; other bytes stand as they are.\<close>

definition quoted :: "string \<Rightarrow> string" where
  "quoted s = [CHR 0x22] @ concat (map (\<lambda>c. if c = CHR 0x22 \<or> c = CHR 0x5C then [CHR 0x5C, c] else [c]) s)
     @ [CHR 0x22]"

fun register_all ::
  "('a \<Rightarrow> string) \<Rightarrow> 'a option list \<Rightarrow> 'a registry \<Rightarrow> 'a registry res" where
  "register_all type [] reg = Inr reg"
| "register_all type (adapter # rest) reg = (case adapter of
     None \<Rightarrow> Inl (Plain ''source adapter type is required'')
   | Some a \<Rightarrow>
       if type a = '''' then Inl (Plain ''source adapter type is required'')
       else if map_of reg (type a) \<noteq> None
         then Inl (Plain (''duplicate source adapter '' @ quoted (type a)))
       else register_all type rest (AList.update (type a) a reg))"

definition NewRegistry :: "('a \<Rightarrow> string) \<Rightarrow> 'a option list \<Rightarrow> 'a registry res" where
  "NewRegistry type adapters = register_all type adapters []"

definition Adapter :: "'a registry \<Rightarrow> string \<Rightarrow> 'a option" where
  "Adapter reg sourceType = map_of reg sourceType"

definition Types :: "'a registry \<Rightarrow> string list" where
  "Types reg = sort (map fst reg)"

section \<open>Metadata rows\<close>

record 'a sql_null =
  n_Value :: 'a
  n_Valid :: bool

record scanned_row =
  sc_SourceID :: string
  sc_SourceName :: string
  sc_ConnectorType :: string
  sc_DatabaseType :: string
  sc_SourceHealth :: string
  sc_CatalogName :: string
  sc_SchemaName :: "string sql_null"
  sc_ObjectName :: "string sql_null"
  sc_ObjectType :: "string sql_null"
  sc_ColumnName :: "string sql_null"
  sc_OrdinalPosition :: "int sql_null"
  sc_DuckDBType :: "string sql_null"
  sc_Nullable :: "bool sql_null"
  sc_IsSystemSchema :: "bool sql_null"
  sc_ErrorCode :: "string sql_null"

record metadata_row =
  md_SourceID :: string
  md_SourceName :: string
  md_ConnectorType :: string
  md_DatabaseType :: string
  md_SourceHealth :: string
  md_CatalogName :: string
  md_SchemaName :: "string option"
  md_ObjectName :: "string option"
  md_ObjectType :: "string option"
  md_ColumnName :: "string option"
  md_OrdinalPosition :: "int option"
  md_DuckDBType :: "string option"
  md_Nullable :: "bool option"
  md_IsSystemSchema :: "bool option"
  md_ErrorCode :: "string option"

text \<open>The outcome of the query: an error, or the scans (a failing one ends the iteration) and the
  final \<open>rows.Err\<close>.\<close>

type_synonym 'r query_rows = "('r res list \<times> go_error option) res"

definition nullPointer :: "'a sql_null \<Rightarrow> 'a option" where
  "nullPointer value = (if \<not> n_Valid value then None else Some (n_Value value))"

definition metadata_of :: "scanned_row \<Rightarrow> metadata_row" where
  "metadata_of r = \<lparr>md_SourceID = sc_SourceID r, md_SourceName = sc_SourceName r,
     md_ConnectorType = sc_ConnectorType r, md_DatabaseType = sc_DatabaseType r,
     md_SourceHealth = sc_SourceHealth r, md_CatalogName = sc_CatalogName r,
     md_SchemaName = nullPointer (sc_SchemaName r), md_ObjectName = nullPointer (sc_ObjectName r),
     md_ObjectType = nullPointer (sc_ObjectType r), md_ColumnName = nullPointer (sc_ColumnName r),
     md_OrdinalPosition = nullPointer (sc_OrdinalPosition r),
     md_DuckDBType = nullPointer (sc_DuckDBType r), md_Nullable = nullPointer (sc_Nullable r),
     md_IsSystemSchema = nullPointer (sc_IsSystemSchema r),
     md_ErrorCode = nullPointer (sc_ErrorCode r)\<rparr>"

fun scan_rows :: "scanned_row res list \<Rightarrow> metadata_row list \<Rightarrow> metadata_row list res" where
  "scan_rows [] metadata = Inr metadata"
| "scan_rows (Inl e # _) metadata = Inl e"
| "scan_rows (Inr r # rest) metadata = scan_rows rest (metadata @ [metadata_of r])"

text \<open>Go returns the rows read so far beside the final error; the pair keeps both.\<close>

definition ReadMetadata ::
  "(string \<Rightarrow> scanned_row query_rows) \<Rightarrow> string \<Rightarrow> metadata_row list \<times> go_error option" where
  "ReadMetadata query sourceID = (case query sourceID of
     Inl e \<Rightarrow> ([], Some e)
   | Inr (scans, final) \<Rightarrow> (case scan_rows scans [] of
       Inl e \<Rightarrow> ([], Some e)
     | Inr metadata \<Rightarrow> (metadata, final)))"

section \<open>Backoff\<close>

definition wrap64 :: "int \<Rightarrow> int" where
  "wrap64 x = (x + 2 ^ 63) mod 2 ^ 64 - 2 ^ 63"

record backoff =
  b_base :: int
  b_maximum :: int
  b_attempts :: "string \<rightharpoonup> nat"

definition NewBackoff :: "int \<Rightarrow> int \<Rightarrow> backoff" where
  "NewBackoff base maximum =
     (let base = (if base \<le> 0 then 250 * 1000000 else base);
          maximum = (if maximum < base then 30 * 1000000000 else maximum)
      in \<lparr>b_base = base, b_maximum = maximum, b_attempts = Map.empty\<rparr>)"

text \<open>The loop over the attempts, and what follows it.\<close>

fun delay_loop :: "int \<Rightarrow> nat \<Rightarrow> int \<Rightarrow> int" where
  "delay_loop maximum 0 delay = (if delay > maximum then maximum else delay)"
| "delay_loop maximum (Suc n) delay =
     (if delay \<ge> maximum div 2 then maximum else delay_loop maximum n (wrap64 (delay * 2)))"

definition attempts_of :: "backoff \<Rightarrow> string \<Rightarrow> nat" where
  "attempts_of b sourceID = (case b_attempts b sourceID of Some n \<Rightarrow> n | None \<Rightarrow> 0)"

definition Failure :: "backoff \<Rightarrow> string \<Rightarrow> int \<times> backoff" where
  "Failure b sourceID =
     (let attempt = attempts_of b sourceID;
          b' = (if attempt < 63
                then b\<lparr>b_attempts := (b_attempts b)(sourceID \<mapsto> attempt + 1)\<rparr> else b)
      in (delay_loop (b_maximum b) attempt (b_base b), b'))"

definition Ready :: "backoff \<Rightarrow> string \<Rightarrow> backoff" where
  "Ready b sourceID = b\<lparr>b_attempts := (b_attempts b)(sourceID := None)\<rparr>"

section \<open>The delays of a history\<close>

datatype backoff_event = FailureOf string | ReadyOf string

fun backoff_step :: "backoff_event \<Rightarrow> backoff \<Rightarrow> backoff" where
  "backoff_step (FailureOf s) b = snd (Failure b s)"
| "backoff_step (ReadyOf s) b = Ready b s"

text \<open>The failures of a source since it was last ready, in a history with the latest event last.\<close>

fun failures_since :: "string \<Rightarrow> nat \<Rightarrow> backoff_event list \<Rightarrow> nat" where
  "failures_since s n [] = n"
| "failures_since s n (FailureOf t # es) = failures_since s (if s = t then Suc n else n) es"
| "failures_since s n (ReadyOf t # es) = failures_since s (if s = t then 0 else n) es"

text \<open>The delay after n earlier failures, in closed form over the integers.\<close>

definition backoff_delay :: "int \<Rightarrow> int \<Rightarrow> nat \<Rightarrow> int" where
  "backoff_delay base maximum n =
     (if n = 0 then min base maximum
      else if base * 2 ^ (n - 1) \<ge> maximum div 2 then maximum else base * 2 ^ n)"

lemma wrap64_id: "- (2 ^ 63) \<le> x \<Longrightarrow> x < 2 ^ 63 \<Longrightarrow> wrap64 x = x"
  by (simp add: wrap64_def)

lemma delay_loop_closed:
  "0 < d \<Longrightarrow> 0 < m \<Longrightarrow> m < 2 ^ 63 \<Longrightarrow> delay_loop m n d = backoff_delay d m n"
proof (induction n arbitrary: d)
  case (Suc n)
  show ?case
  proof (cases "d \<ge> m div 2")
    case True
    have "d * 1 \<le> d * 2 ^ n" using Suc.prems by (intro mult_left_mono) auto
    with True show ?thesis by (simp add: backoff_delay_def)
  next
    case False
    then have "wrap64 (d * 2) = d * 2" using Suc.prems by (intro wrap64_id) auto
    then have "delay_loop m (Suc n) d = backoff_delay (d * 2) m n" using False Suc by simp
    also have "\<dots> = backoff_delay d m (Suc n)"
      using False Suc.prems by (cases n) (auto simp: backoff_delay_def)
    finally show ?thesis .
  qed
qed (simp add: backoff_delay_def)

lemma backoff_delay_saturated:
  assumes "0 < base" and "maximum < 2 ^ 63" and "63 \<le> n"
  shows "backoff_delay base maximum n = maximum"
proof -
  have "maximum div 2 \<le> 2 ^ 62" using assms(2) by simp
  also have "(2::int) ^ 62 \<le> 2 ^ (n - 1)" using assms(3) by (intro power_increasing) auto
  also have "\<dots> \<le> base * 2 ^ (n - 1)"
    using mult_right_mono [of 1 base "2 ^ (n - 1)"] assms(1) by simp
  finally show ?thesis using assms(3) by (simp add: backoff_delay_def)
qed

lemma backoff_delay_min63:
  "0 < base \<Longrightarrow> maximum < 2 ^ 63 \<Longrightarrow>
   backoff_delay base maximum (min 63 n) = backoff_delay base maximum n"
  by (cases "n \<le> 63") (simp_all add: min_def backoff_delay_saturated)

lemma backoff_delay_bounds:
  assumes "0 < base" and "0 < maximum"
  shows "0 < backoff_delay base maximum n \<and> backoff_delay base maximum n \<le> maximum"
proof (cases n)
  case (Suc k)
  have "base * 2 ^ n = 2 * (base * 2 ^ k)" by (simp add: Suc)
  with assms Suc show ?thesis by (auto simp: backoff_delay_def)
qed (use assms in \<open>auto simp: backoff_delay_def\<close>)

lemma backoff_delay_Suc_mono:
  assumes "0 < base" and "0 < maximum"
  shows "backoff_delay base maximum n \<le> backoff_delay base maximum (Suc n)"
proof (cases "base * 2 ^ n \<ge> maximum div 2")
  case True
  then show ?thesis using backoff_delay_bounds [OF assms] by (simp add: backoff_delay_def)
next
  case False
  show ?thesis
  proof (cases n)
    case (Suc k)
    have "base * 2 ^ n = 2 * (base * 2 ^ k)" by (simp add: Suc)
    moreover have "0 < base * 2 ^ k" using assms by simp
    ultimately have "\<not> base * 2 ^ k \<ge> maximum div 2" using False by linarith
    with False Suc assms show ?thesis by (simp add: backoff_delay_def)
  qed (use False assms in \<open>auto simp: backoff_delay_def\<close>)
qed

lemma backoff_delay_mono:
  "0 < base \<Longrightarrow> 0 < maximum \<Longrightarrow> n \<le> k \<Longrightarrow>
   backoff_delay base maximum n \<le> backoff_delay base maximum k"
  by (rule lift_Suc_mono_le [of "backoff_delay base maximum"]) (simp_all add: backoff_delay_Suc_mono)

lemma backoff_step_config [simp]:
  "b_base (backoff_step e b) = b_base b" "b_maximum (backoff_step e b) = b_maximum b"
  by (cases e; simp add: Failure_def Ready_def Let_def)+

lemma backoff_run_config:
  "b_base (fold backoff_step es b) = b_base b \<and> b_maximum (fold backoff_step es b) = b_maximum b"
  by (induction es arbitrary: b) simp_all

lemma attempts_step:
  "attempts_of (backoff_step e b) s = (case e of
     FailureOf t \<Rightarrow> if s = t then (if attempts_of b s < 63 then Suc (attempts_of b s) else attempts_of b s)
       else attempts_of b s
   | ReadyOf t \<Rightarrow> if s = t then 0 else attempts_of b s)"
  by (cases e) (auto simp: Failure_def Ready_def attempts_of_def Let_def)

lemma attempts_run:
  "attempts_of b s = min 63 n \<Longrightarrow>
   attempts_of (fold backoff_step es b) s = min 63 (failures_since s n es)"
proof (induction es arbitrary: b n)
  case (Cons e es)
  let ?n = "failures_since s n [e]"
  have "attempts_of (backoff_step e b) s = min 63 ?n"
    using Cons.prems by (cases e) (auto simp: attempts_step simp del: backoff_step.simps)
  moreover have "failures_since s n (e # es) = failures_since s ?n es" by (cases e) auto
  ultimately show ?case using Cons.IH by simp
qed simp

lemma NewBackoff_bounds:
  "base < 2 ^ 63 \<Longrightarrow> maximum < 2 ^ 63 \<Longrightarrow>
   0 < b_base (NewBackoff base maximum) \<and> 0 < b_maximum (NewBackoff base maximum) \<and>
   b_maximum (NewBackoff base maximum) < 2 ^ 63 \<and> b_attempts (NewBackoff base maximum) = Map.empty"
  by (auto simp: NewBackoff_def Let_def)

text \<open>C4. After any history of failures and recoveries of any sources, the delay a failure returns
  depends only on how often that source has failed since it was last ready: it is the base doubled
  once per earlier failure until half of the maximum is reached, then the maximum.  It is positive,
  never above the maximum, never below an earlier delay of the series; no product wraps around, and
  the cap of the counter at 63 is never visible.\<close>

theorem Backoff_schedule:
  assumes "base < 2 ^ 63" and "maximum < 2 ^ 63"
  shows "let b = NewBackoff base maximum;
             n = failures_since s 0 es;
             d = fst (Failure (fold backoff_step es b) s)
         in d = backoff_delay (b_base b) (b_maximum b) n \<and> 0 < d \<and> d \<le> b_maximum b \<and>
            (\<forall>k\<le>n. backoff_delay (b_base b) (b_maximum b) k \<le> d)"
proof -
  let ?b = "NewBackoff base maximum" and ?n = "failures_since s 0 es"
  note pos = NewBackoff_bounds [OF assms]
  have "attempts_of (fold backoff_step es ?b) s = min 63 ?n"
    by (rule attempts_run) (simp add: attempts_of_def pos)
  then have "fst (Failure (fold backoff_step es ?b) s) = backoff_delay (b_base ?b) (b_maximum ?b) ?n"
    using pos by (simp add: Failure_def Let_def backoff_run_config delay_loop_closed
        backoff_delay_min63 del: min.absorb1 min.absorb2)
  then show ?thesis
    using pos by (simp add: Let_def backoff_delay_bounds backoff_delay_mono)
qed

theorem Backoff_schedule_witness:
  "fst (Failure (fold backoff_step
      [FailureOf ''a'', ReadyOf ''a'', FailureOf ''a'', FailureOf ''b'', FailureOf ''a'']
      (NewBackoff 0 0)) ''a'') = 1000000000"
proof -
  have "failures_since ''a'' 0
      [FailureOf ''a'', ReadyOf ''a'', FailureOf ''a'', FailureOf ''b'', FailureOf ''a''] = 2" by simp
  then show ?thesis
    using Backoff_schedule [of 0 0 "''a''"
        "[FailureOf ''a'', ReadyOf ''a'', FailureOf ''a'', FailureOf ''b'', FailureOf ''a'']"]
    by (simp only: Let_def) (simp add: NewBackoff_def backoff_delay_def)
qed

section \<open>The registry's contents\<close>

lemma update_fresh: "map_of reg k = None \<Longrightarrow> AList.update k v reg = reg @ [(k, v)]"
  by (induction reg) (auto split: if_splits)

lemma register_all_exact:
  "wf_map reg \<Longrightarrow>
   register_all type adapters reg = Inr reg' \<longleftrightarrow>
     (\<exists>as. adapters = map Some as \<and> '''' \<notin> set (map type as) \<and>
       distinct (map fst reg @ map type as) \<and> reg' = reg @ map (\<lambda>a. (type a, a)) as)"
proof (induction type adapters reg arbitrary: reg' rule: register_all.induct)
  case (1 type reg)
  then show ?case by (auto simp: wf_map_def keys_def)
next
  case (2 type adapter rest reg)
  show ?case
  proof (cases adapter)
    case None
    then show ?thesis by (auto simp: Cons_eq_map_conv)
  next
    case (Some a)
    show ?thesis
    proof (cases "type a = '''' \<or> map_of reg (type a) \<noteq> None")
      case True
      then show ?thesis using Some by (auto simp: Cons_eq_map_conv map_of_eq_None_iff)
    next
      case False
      then have fresh: "map_of reg (type a) = None" and "type a \<noteq> ''''" by auto
      then show ?thesis
        using 2 Some by (auto simp: Cons_eq_map_conv update_fresh map_of_eq_None_iff wf_map_def keys_def)
    qed
  qed
qed

text \<open>A registry is built exactly from adapters that are present, named and of pairwise distinct
  types.  It then holds each adapter under its own type and nothing else, and lists the types in
  order.\<close>

theorem NewRegistry_exact:
  "NewRegistry type adapters = Inr reg \<longleftrightarrow>
     (\<exists>as. adapters = map Some as \<and> '''' \<notin> set (map type as) \<and> distinct (map type as) \<and>
       reg = map (\<lambda>a. (type a, a)) as \<and> Types reg = sort (map type as) \<and>
       (\<forall>t a. Adapter reg t = Some a \<longleftrightarrow> a \<in> set as \<and> type a = t))"
proof -
  have "Adapter (map (\<lambda>a. (type a, a)) as) t = Some a \<longleftrightarrow> a \<in> set as \<and> type a = t"
    if "distinct (map type as)" for as t a
    using that by (auto simp: Adapter_def map_of_eq_Some_iff comp_def)
  then show ?thesis
    unfolding NewRegistry_def by (subst register_all_exact) (auto simp: Types_def comp_def)
qed

lemma scan_rows_exact:
  "scan_rows scans acc = Inr metadata \<longleftrightarrow>
     (\<exists>rs. scans = map Inr rs \<and> metadata = acc @ map metadata_of rs)"
  by (induction scans acc arbitrary: metadata rule: scan_rows.induct) (auto simp: Cons_eq_map_conv)

end
