(* ===== verification/Gostd.thy ===== *)
theory Gostd
  imports Prelude
begin

text \<open>
  The functions of Go's standard library the components share beyond the basic string functions:
  trimming of Unicode white space, decimal numbers, hexadecimal text, slash-separated paths (the Unix
  rules of path/filepath) and the IP address syntax of net.ParseIP.
\<close>

section \<open>White space\<close>

text \<open>The UTF-8 encodings of the code points \<open>unicode.IsSpace\<close> accepts.\<close>

definition space_runes :: "string list" where
  "space_runes =
     map (\<lambda>n. [char_of n]) [9::nat, 10, 11, 12, 13, 32] @
     map (\<lambda>n. [char_of (0xC2::nat), char_of n]) [0x85::nat, 0xA0] @
     [map char_of [0xE1::nat, 0x9A, 0x80]] @
     map (\<lambda>n. [char_of (0xE2::nat), char_of (0x80::nat), char_of n])
       [0x80::nat, 0x81, 0x82, 0x83, 0x84, 0x85, 0x86, 0x87, 0x88, 0x89, 0x8A, 0xA8, 0xA9, 0xAF] @
     [map char_of [0xE2::nat, 0x81, 0x9F], map char_of [0xE3::nat, 0x80, 0x80]]"

definition leading_rune :: "string list \<Rightarrow> string \<Rightarrow> string option" where
  "leading_rune runes s = List.find (\<lambda>w. has_prefix w s) runes"

lemma leading_rune_Some: "leading_rune runes s = Some w \<Longrightarrow> w \<in> set runes \<and> (\<exists>r. s = w @ r)"
  by (auto simp: leading_rune_def find_Some_iff has_prefix_iff)

definition trim_runes_step :: "string list \<Rightarrow> string \<Rightarrow> string option" where
  "trim_runes_step runes s = (case leading_rune runes s of
     Some w \<Rightarrow> if w = [] then None else Some (drop (length w) s) | None \<Rightarrow> None)"

lemma trim_runes_step_length: "trim_runes_step runes s = Some r \<Longrightarrow> length r < length s"
  by (auto simp: trim_runes_step_def split: option.splits if_splits dest!: leading_rune_Some)

function trim_runes :: "string list \<Rightarrow> string \<Rightarrow> string" where
  "trim_runes runes s = (case trim_runes_step runes s of Some r \<Rightarrow> trim_runes runes r | None \<Rightarrow> s)"
  by pat_completeness auto
termination
  by (relation "measure (length \<circ> snd)") (auto dest: trim_runes_step_length)

declare trim_runes.simps [simp del]

definition trim_left :: "string \<Rightarrow> string" where
  "trim_left s = trim_runes space_runes s"

definition trim_right :: "string \<Rightarrow> string" where
  "trim_right s = rev (trim_runes (map rev space_runes) (rev s))"

definition trim_space :: "string \<Rightarrow> string" where
  "trim_space s = trim_right (trim_left s)"

text \<open>\<open>strings.Trim\<close> with a cut set of single bytes.\<close>

definition trim_chars :: "string \<Rightarrow> string \<Rightarrow> string" where
  "trim_chars cutset s =
     rev (dropWhile (\<lambda>c. c \<in> set cutset) (rev (dropWhile (\<lambda>c. c \<in> set cutset) s)))"

section \<open>Numbers\<close>

fun decimal :: "nat \<Rightarrow> string" where
  "decimal n = (if n < 10 then [char_of (48 + n)]
     else decimal (n div 10) @ [char_of (48 + n mod 10)])"

declare decimal.simps [simp del]

definition itoa :: "int \<Rightarrow> string" where
  "itoa i = (if i < 0 then CHR ''-'' # decimal (nat (- i)) else decimal (nat i))"

definition decimal_value :: "string \<Rightarrow> nat" where
  "decimal_value s = foldl (\<lambda>v c. 10 * v + (byte c - 48)) 0 s"

lemma decimal_value_snoc: "decimal_value (s @ [c]) = 10 * decimal_value s + (byte c - 48)"
  by (simp add: decimal_value_def)

lemma byte_char_of_small [simp]: "n < 256 \<Longrightarrow> byte (char_of n) = n"
  by (simp add: byte_def)

lemma is_digit_char [simp]: "(n::nat) < 10 \<Longrightarrow> is_digit_byte (char_of (48 + n))"
  by (simp add: is_digit_byte_def)

lemma decimal_digits: "list_all is_digit_byte (decimal n) \<and> decimal n \<noteq> []"
proof (induction n rule: decimal.induct)
  case (1 n)
  then show ?case by (subst (1 2) decimal.simps) auto
qed

lemma decimal_value_decimal: "decimal_value (decimal n) = n"
proof (induction n rule: decimal.induct)
  case (1 n)
  show ?case
  proof (cases "n < 10")
    case True
    then show ?thesis by (subst decimal.simps) (simp add: decimal_value_def)
  next
    case False
    have "48 + n mod 10 < 256" by (rule less_trans [of _ "58"]) simp_all
    with 1 False show ?thesis by (subst decimal.simps) (simp add: decimal_value_snoc)
  qed
qed

section \<open>Hexadecimal text\<close>

definition hex_digit :: "nat \<Rightarrow> char" where
  "hex_digit n = char_of (if n < 10 then 48 + n else 87 + n)"

definition hex_encode :: "string \<Rightarrow> string" where
  "hex_encode s = concat (map (\<lambda>c. [hex_digit (byte c div 16), hex_digit (byte c mod 16)]) s)"

lemma length_hex_encode: "length (hex_encode s) = 2 * length s"
  by (induction s) (simp_all add: hex_encode_def)

section \<open>Paths\<close>

text \<open>\<open>filepath.Clean\<close> on Unix: the components, with dots dropped and parents resolved.\<close>

fun split_on :: "char \<Rightarrow> string \<Rightarrow> string list" where
  "split_on sep [] = [[]]"
| "split_on sep (c # cs) = (if c = sep then [] # split_on sep cs
     else case split_on sep cs of p # ps \<Rightarrow> (c # p) # ps | [] \<Rightarrow> [[c]])"

definition path_step :: "bool \<Rightarrow> string \<Rightarrow> string list \<Rightarrow> string list" where
  "path_step rooted part acc =
     (if part = '''' \<or> part = ''.'' then acc
      else if part = ''..'' then
        (if acc \<noteq> [] \<and> last acc \<noteq> ''..'' then butlast acc
         else if rooted then acc else acc @ [''..''])
      else acc @ [part])"

definition filepath_Clean :: "string \<Rightarrow> string" where
  "filepath_Clean path =
     (let rooted = has_prefix ''/'' path;
          body = join ''/'' (fold (path_step rooted) (split_on CHR ''/'' path) [])
      in if rooted then ''/'' @ body else if body = '''' then ''.'' else body)"

definition filepath_Join :: "string list \<Rightarrow> string" where
  "filepath_Join parts = (case filter (\<lambda>p. p \<noteq> '''') parts of [] \<Rightarrow> ''''
     | p # ps \<Rightarrow> filepath_Clean (join ''/'' (p # ps)))"

definition filepath_IsAbs :: "string \<Rightarrow> bool" where
  "filepath_IsAbs path = has_prefix ''/'' path"

definition filepath_Dir :: "string \<Rightarrow> string" where
  "filepath_Dir path = filepath_Clean (rev (dropWhile (\<lambda>c. c \<noteq> CHR ''/'') (rev path)))"

definition filepath_Base :: "string \<Rightarrow> string" where
  "filepath_Base path = (if path = '''' then ''.'' else
     (let stripped = rev (dropWhile (\<lambda>c. c = CHR ''/'') (rev path));
          base = rev (takeWhile (\<lambda>c. c \<noteq> CHR ''/'') (rev stripped))
      in if base = '''' then ''/'' else base))"

lemma split_on_ne [simp]: "split_on sep s \<noteq> []"
  by (induction s) (auto split: list.split)

lemma split_on_append: "sep \<notin> set a \<Longrightarrow> split_on sep (a @ sep # b) = a # split_on sep b"
  by (induction a) auto

lemma split_on_single: "sep \<notin> set a \<Longrightarrow> split_on sep a = [a]"
  by (induction a) auto

section \<open>Addresses\<close>

text \<open>\<open>netip.ParseAddr\<close> as \<open>net.ParseIP\<close> uses it (no zones): the value is the list of the eight
  16-bit groups, an IPv4 address in its mapped form.\<close>

definition v4_octet :: "string \<Rightarrow> nat option" where
  "v4_octet s = (if s \<noteq> [] \<and> list_all is_digit_byte s \<and> (length s > 1 \<longrightarrow> hd s \<noteq> CHR ''0'') \<and>
       length s \<le> 3 \<and> decimal_value s \<le> 255
     then Some (decimal_value s) else None)"

definition parse_v4 :: "string \<Rightarrow> nat list option" where
  "parse_v4 s = (case split_on CHR ''.'' s of
     [a, b, c, d] \<Rightarrow> (case (v4_octet a, v4_octet b, v4_octet c, v4_octet d) of
         (Some w, Some x, Some y, Some z) \<Rightarrow> Some [w, x, y, z] | _ \<Rightarrow> None)
   | _ \<Rightarrow> None)"

definition hex_digit_value :: "char \<Rightarrow> nat option" where
  "hex_digit_value c = (if is_digit_byte c then Some (byte c - 48)
     else if 97 \<le> byte c \<and> byte c \<le> 102 then Some (byte c - 87)
     else if 65 \<le> byte c \<and> byte c \<le> 70 then Some (byte c - 55) else None)"

definition hex_run :: "string \<Rightarrow> string" where
  "hex_run s = takeWhile (\<lambda>c. hex_digit_value c \<noteq> None) s"

definition hex_run_value :: "string \<Rightarrow> nat" where
  "hex_run_value s = foldl (\<lambda>v c. 16 * v + (case hex_digit_value c of Some d \<Rightarrow> d | None \<Rightarrow> 0)) 0 s"

text \<open>The loop of \<open>parseIPv6\<close>: the groups read, the position of the double colon, what is left.\<close>

fun v6_groups ::
  "nat \<Rightarrow> nat list \<Rightarrow> nat option \<Rightarrow> string \<Rightarrow> (nat list \<times> nat option \<times> string) option" where
  "v6_groups 0 gs ell s = Some (gs, ell, s)"
| "v6_groups (Suc n) gs ell s =
     (let h = hex_run s; rest = drop (length h) s in
      if h = [] \<or> length h > 4 then None
      else if has_prefix ''.'' rest then
        (if (ell = None \<and> length gs \<noteq> 6) \<or> length gs > 6 then None
         else case parse_v4 s of
           Some [w, x, y, z] \<Rightarrow> Some (gs @ [256 * w + x, 256 * y + z], ell, [])
         | _ \<Rightarrow> None)
      else
        (let gs' = gs @ [hex_run_value h] in
         case rest of
           [] \<Rightarrow> Some (gs', ell, [])
         | c # t \<Rightarrow>
             if c \<noteq> CHR '':'' \<or> t = [] then None
             else if hd t = CHR '':'' then
               (if ell \<noteq> None then None
                else if tl t = [] then Some (gs', Some (length gs'), [])
                else v6_groups n gs' (Some (length gs')) (tl t))
             else v6_groups n gs' ell t))"

definition v6_expand :: "nat list \<times> nat option \<times> string \<Rightarrow> nat list option" where
  "v6_expand r = (case r of (gs, ell, rest) \<Rightarrow>
     if rest \<noteq> [] then None
     else if length gs < 8 then
       (case ell of None \<Rightarrow> None
        | Some e \<Rightarrow> Some (take e gs @ replicate (8 - length gs) 0 @ drop e gs))
     else if ell \<noteq> None then None else Some gs)"

definition parse_v6 :: "string \<Rightarrow> nat list option" where
  "parse_v6 s = (if List.member s CHR ''%'' then None
     else if s = ''::'' then Some (replicate 8 0)
     else if has_prefix ''::'' s then Option.bind (v6_groups 8 [] (Some 0) (drop 2 s)) v6_expand
     else Option.bind (v6_groups 8 [] None s) v6_expand)"

definition ParseIP :: "string \<Rightarrow> nat list option" where
  "ParseIP s = (case dropWhile (\<lambda>c. c \<notin> {CHR ''.'', CHR '':'', CHR ''%''}) s of
     [] \<Rightarrow> None
   | c # _ \<Rightarrow>
       if c = CHR ''.'' then
         (case parse_v4 s of
            Some [w, x, y, z] \<Rightarrow> Some [0, 0, 0, 0, 0, 0xFFFF, 256 * w + x, 256 * y + z]
          | _ \<Rightarrow> None)
       else if c = CHR '':'' then parse_v6 s else None)"

definition IsLoopback :: "nat list \<Rightarrow> bool" where
  "IsLoopback ip =
     (if take 6 ip = [0, 0, 0, 0, 0, 0xFFFF] then ip ! 6 div 256 = 127
      else ip = [0, 0, 0, 0, 0, 0, 0, 1])"

definition JoinHostPort :: "string \<Rightarrow> string \<Rightarrow> string" where
  "JoinHostPort host port =
     (if List.member host CHR '':'' then ''['' @ host @ '']:'' @ port else host @ '':'' @ port)"

end
