(* ===== verification/Clock.thy ===== *)
theory Clock
  imports Gostd
begin

text \<open>
  Times as package time writes them into JSON and reads them from it.  A time is the number of nanoseconds since the start
  of 1970 in UTC; the zero time is the start of year 1.  \<open>parse_RFC3339\<close> is the reader of RFC 3339; what it
  refuses goes to the slower reader of layouts, a parameter \<open>slow\<close>.
\<close>

section \<open>Dates\<close>

definition leap :: "int \<Rightarrow> bool" where
  "leap y \<longleftrightarrow> y mod 4 = 0 \<and> (y mod 100 \<noteq> 0 \<or> y mod 400 = 0)"

definition month_lengths :: "int \<Rightarrow> int list" where
  "month_lengths y = [31, if leap y then 29 else 28, 31, 30, 31, 30, 31, 31, 30, 31, 30, 31]"

text \<open>Days are counted from the first of January of year 1.\<close>

definition year_start :: "int \<Rightarrow> int" where
  "year_start y = 365 * (y - 1) + (y - 1) div 4 - (y - 1) div 100 + (y - 1) div 400"

definition split_year :: "int \<Rightarrow> int \<times> int" where
  "split_year d =
     (let n400 = d div 146097; d = d mod 146097;
          n100 = min 3 (d div 36524); d = d - 36524 * n100;
          n4 = d div 1461; d = d mod 1461;
          n1 = min 3 (d div 365)
      in (400 * n400 + 100 * n100 + 4 * n4 + n1 + 1, d - 365 * n1))"

fun split_month :: "int list \<Rightarrow> nat \<Rightarrow> int \<Rightarrow> nat \<times> int" where
  "split_month [] m d = (m, d)"
| "split_month (l # ls) m d = (if d < l \<or> ls = [] then (m, d) else split_month ls (Suc m) (d - l))"

text \<open>The year, the month and the day of the month, both from 1.\<close>

definition date_of_days :: "int \<Rightarrow> int \<times> nat \<times> nat" where
  "date_of_days d = (case split_year d of (y, yday) \<Rightarrow> (case split_month (month_lengths y) 1 yday of (m, k) \<Rightarrow> (y, m, Suc (nat k))))"

definition days_of_date :: "int \<Rightarrow> nat \<Rightarrow> nat \<Rightarrow> int" where
  "days_of_date y m k = year_start y + sum_list (take (m - 1) (month_lengths y)) + int k - 1"

lemma capped_div:
  assumes "0 \<le> d" and "0 < n" and "d < 4 * n + 1" and "q = min 3 (d div n)"
  shows "0 \<le> q" and "q \<le> 3" and "0 \<le> d - n * q" and "d - n * q \<le> n" and "q < 3 \<Longrightarrow> d - n * q < (n :: int)"
proof -
  have d: "d = n * (d div n) + d mod n" "0 \<le> d mod n" "d mod n < n" "0 \<le> d div n"
    using assms(1,2) by (simp_all add: pos_imp_zdiv_nonneg_iff)
  show "0 \<le> q" "q \<le> 3" using d(4) assms(4) by simp_all
  show less: "d - n * q < n" if "q < 3"
  proof -
    have "q = d div n" using that assms(4) by simp
    then have "d - n * q = d mod n" by (simp add: minus_mult_div_eq_mod)
    then show ?thesis using d(3) by simp
  qed
  show "0 \<le> d - n * q"
  proof -
    have "n * q \<le> n * (d div n)" using assms(2,4) by simp
    then show ?thesis using d by linarith
  qed
  show "d - n * q \<le> n"
  proof (cases "q < 3")
    case False
    then have "q = 3" using assms(4) by simp
    then show ?thesis using assms(3) by simp
  qed (use less in simp)
qed

lemma split_year_correct:
  assumes "split_year d = (y, k)"
  shows "year_start y + k = d" and "0 \<le> k" and "k < (if leap y then 366 else 365)"
proof -
  define n400 d1 n100 d2 n4 d3 n1 where defs: "n400 = d div 146097" "d1 = d mod 146097" "n100 = min 3 (d1 div 36524)"
    "d2 = d1 - 36524 * n100" "n4 = d2 div 1461" "d3 = d2 mod 1461" "n1 = min 3 (d3 div 365)"
  have y: "y = 400 * n400 + 100 * n100 + 4 * n4 + n1 + 1" and k: "k = d3 - 365 * n1"
    using assms [unfolded split_year_def Let_def, folded defs] by (simp_all only: prod.inject defs(4-7))
  have d1: "0 \<le> d1" "d1 < 146097" "d = 146097 * n400 + d1" by (simp_all add: defs)
  have n100: "0 \<le> n100" "n100 \<le> 3" "0 \<le> d2" "d2 < 36525" "n100 < 3 \<Longrightarrow> d2 < 36524" 
    using capped_div [OF d1(1) _ _ defs(3)] d1(2) by (auto simp: defs(4))
  have "d2 div 1461 \<le> 36524 div 1461" by (rule zdiv_mono1) (use n100(4) in simp_all)
  then have n4: "0 \<le> n4" "n4 \<le> 24" "0 \<le> d3" "d3 < 1461" "d2 = 1461 * n4 + d3"
    using n100(3) unfolding defs(5,6) by (simp_all add: pos_imp_zdiv_nonneg_iff)
  have n1: "0 \<le> n1" "n1 \<le> 3" "0 \<le> k" "k \<le> 365" "n1 < 3 \<Longrightarrow> k < 365"
    unfolding k by (rule capped_div [OF n4(3) _ _ defs(7)]; use n4(4) in simp)+
  let ?p = "400 * n400 + 100 * n100 + 4 * n4 + n1"
  have p: "?p div 4 = 100 * n400 + 25 * n100 + n4" "?p div 100 = 4 * n400 + n100" "?p div 400 = n400"
    using n100(1,2) n4(1,2) n1(1,2) by simp_all
  show "year_start y + k = d" unfolding year_start_def y using p d1(3) n4(5) k by (simp add: defs(4))
  show "0 \<le> k" by (rule n1)
  have full: "n4 = 24 \<Longrightarrow> n100 < 3 \<Longrightarrow> d3 < 1460" using n100(5) n4(5) by simp
  have e: "y = n1 + 1 + (100 * n400 + 25 * n100 + n4) * 4" "y = 4 * n4 + n1 + 1 + (4 * n400 + n100) * 100"
    "y = 100 * n100 + 4 * n4 + n1 + 1 + n400 * 400" by (simp_all add: y)
  have y4: "y mod 4 = (n1 + 1) mod 4" unfolding e(1) by (rule mod_mult_self1)
  have y100: "y mod 100 = (4 * n4 + n1 + 1) mod 100" unfolding e(2) by (rule mod_mult_self1)
  have y400: "y mod 400 = (100 * n100 + 4 * n4 + n1 + 1) mod 400" unfolding e(3) by (rule mod_mult_self1)
  show "k < (if leap y then 366 else 365)"
  proof (cases "n1 = 3")
    case True
    have "leap y" if "k = 365"
    proof -
      have "d3 = 1460" using that True k by simp
      then have "n4 < 24 \<or> n100 = 3" using full n4(2) n100(2) by fastforce
      then show ?thesis
      proof
        assume "n4 < 24"
        then have "y mod 100 \<noteq> 0" using y100 n4(1) True by simp
        then show ?thesis using y4 True by (simp add: leap_def)
      next
        assume n: "n100 = 3"
        have "y mod 400 = 0 \<or> y mod 100 \<noteq> 0" using y400 y100 n True n4(1,2) by (cases "n4 = 24") auto
        then show ?thesis using y4 True by (auto simp: leap_def)
      qed
    qed
    then show ?thesis using n1(4) by (cases "k = 365") simp_all
  next
    case False
    then show ?thesis using n1 by simp
  qed
qed

lemma split_month_correct:
  "split_month ls m d = (m', k) \<Longrightarrow> 0 \<le> d \<Longrightarrow> d < sum_list ls \<Longrightarrow>
   m \<le> m' \<and> m' - m < length ls \<and> sum_list (take (m' - m) ls) + k = d \<and> 0 \<le> k \<and> k < ls ! (m' - m)"
proof (induction ls m d rule: split_month.induct)
  case (2 l ls m d)
  show ?case
  proof (cases "d < l \<or> ls = []")
    case True
    then show ?thesis using "2.prems" by auto
  next
    case False
    then have "m' > m \<and> m' - Suc m < length ls \<and> sum_list (take (m' - Suc m) ls) + k = d - l \<and> 0 \<le> k \<and> k < ls ! (m' - Suc m)"
      using "2.IH" [OF False] "2.prems" by auto
    moreover from this have "m' - m = Suc (m' - Suc m)" by (metis Suc_diff_Suc)
    ultimately show ?thesis by simp
  qed
qed simp

lemma date_roundtrip:
  assumes "date_of_days d = (y, m, k)"
  shows "days_of_date y m k = d" and "1 \<le> m" and "m \<le> 12" and "1 \<le> k" and "int k \<le> month_lengths y ! (m - 1)"
proof -
  obtain yd where yd: "split_year d = (y, yd)" using assms by (auto simp: date_of_days_def split: prod.splits)
  obtain j where j: "split_month (month_lengths y) 1 yd = (m, j)" "k = Suc (nat j)"
    using assms yd by (auto simp: date_of_days_def split: prod.splits)
  note s = split_year_correct [OF yd]
  have "yd < sum_list (month_lengths y)" using s(3) by (simp add: month_lengths_def split: if_splits)
  note c = split_month_correct [OF j(1) s(2) this]
  show "1 \<le> m" "1 \<le> k" using c j(2) by simp_all
  show "m \<le> 12" using c by (auto simp: month_lengths_def)
  show "int k \<le> month_lengths y ! (m - 1)" "days_of_date y m k = d"
    using c j(2) s(1) by (simp_all add: days_of_date_def)
qed

section \<open>The text of a time\<close>

text \<open>A number of a fixed width, and what reads it.\<close>

fun padded :: "nat \<Rightarrow> nat \<Rightarrow> string" where
  "padded 0 n = []"
| "padded (Suc w) n = padded w (n div 10) @ [char_of (48 + n mod 10)]"

definition bounded_number :: "nat \<Rightarrow> nat \<Rightarrow> string \<Rightarrow> nat option" where
  "bounded_number low high s = (if list_all is_digit_byte s \<and> low \<le> decimal_value s \<and> decimal_value s \<le> high
     then Some (decimal_value s) else None)"

lemma padded_facts: "length (padded w n) = w" "list_all is_digit_byte (padded w n)" "decimal_value (padded w n) = n mod 10 ^ w"
proof -
  have "length (padded w n) = w \<and> list_all is_digit_byte (padded w n) \<and> decimal_value (padded w n) = n mod 10 ^ w"
  proof (induction w arbitrary: n)
    case (Suc w)
    have "n mod (10 * 10 ^ w) = 10 * (n div 10 mod 10 ^ w) + n mod 10" by (rule mod_mult2_eq)
    then show ?case using Suc [of "n div 10"] by (simp add: decimal_value_snoc)
  qed (simp add: decimal_value_def)
  then show "length (padded w n) = w" "list_all is_digit_byte (padded w n)" "decimal_value (padded w n) = n mod 10 ^ w" by blast+
qed

lemma bounded_padded: "n < 10 ^ w \<Longrightarrow> low \<le> n \<Longrightarrow> n \<le> high \<Longrightarrow> bounded_number low high (padded w n) = Some n"
  by (simp add: bounded_number_def padded_facts)

text \<open>Nanoseconds lose their zeros at the end; all of them, with the point.\<close>

definition drop_zeros :: "string \<Rightarrow> string" where
  "drop_zeros s = rev (dropWhile (\<lambda>c. c = CHR ''0'') (rev s))"

definition fraction_text :: "nat \<Rightarrow> string" where
  "fraction_text n = (let ds = drop_zeros (padded 9 n) in if ds = [] then [] else CHR ''.'' # ds)"

definition fraction_value :: "string \<Rightarrow> nat" where
  "fraction_value ds = (let used = take 9 ds in decimal_value used * 10 ^ (9 - length used))"

definition unix_days :: int where "unix_days = 719162"

definition second :: int where "second = 10 ^ 9"

text \<open>\<open>Time.MarshalJSON\<close> without the quotes: the year has four digits.\<close>

definition RFC3339 :: "int \<Rightarrow> string option" where
  "RFC3339 t = (let secs = t div second; s = nat (secs mod 86400) in
     case date_of_days (secs div 86400 + unix_days) of (y, m, k) \<Rightarrow>
       if 0 \<le> y \<and> y \<le> 9999
       then Some (padded 4 (nat y) @ ''-'' @ padded 2 m @ ''-'' @ padded 2 k @ ''T'' @ padded 2 (s div 3600) @ '':'' @
         padded 2 (s div 60 mod 60) @ '':'' @ padded 2 (s mod 60) @ fraction_text (nat (t mod second)) @ ''Z'')
       else None)"

definition time_of :: "int \<Rightarrow> nat \<Rightarrow> nat \<Rightarrow> nat \<Rightarrow> nat \<Rightarrow> nat \<Rightarrow> nat \<Rightarrow> int" where
  "time_of y m k hh mm ss ns =
     ((days_of_date y m k - unix_days) * 86400 + int (hh * 3600 + mm * 60 + ss)) * second + int ns"

text \<open>The zone in seconds east of UTC.\<close>

definition parse_zone :: "string \<Rightarrow> int option" where
  "parse_zone s = (if s = ''Z'' then Some 0
     else if length s \<noteq> 6 then None
     else case (bounded_number 0 23 (take 2 (drop 1 s)), bounded_number 0 59 (drop 4 s)) of
       (Some hr, Some mm) \<Rightarrow>
         if (hd s = CHR ''-'' \<or> hd s = CHR ''+'') \<and> s ! 3 = CHR '':''
         then Some ((if hd s = CHR ''-'' then -1 else 1) * int ((hr * 60 + mm) * 60)) else None
     | _ \<Rightarrow> None)"

definition split_fraction :: "string \<Rightarrow> nat \<times> string" where
  "split_fraction s = (case s of
     c # d # _ \<Rightarrow> if c = CHR ''.'' \<and> is_digit_byte d
       then (fraction_value (takeWhile is_digit_byte (tl s)), dropWhile is_digit_byte (tl s)) else (0, s)
   | _ \<Rightarrow> (0, s))"

definition parse_RFC3339 :: "string \<Rightarrow> int option" where
  "parse_RFC3339 s =
     (if length s < 19 then None
      else case (bounded_number 0 9999 (take 4 s), bounded_number 1 12 (take 2 (drop 5 s))) of
        (Some y, Some m) \<Rightarrow>
          (case (bounded_number 1 (nat (month_lengths (int y) ! (m - 1))) (take 2 (drop 8 s)), bounded_number 0 23 (take 2 (drop 11 s)),
              bounded_number 0 59 (take 2 (drop 14 s)), bounded_number 0 59 (take 2 (drop 17 s))) of
            (Some k, Some hh, Some mm, Some ss) \<Rightarrow>
              if s ! 4 = CHR ''-'' \<and> s ! 7 = CHR ''-'' \<and> s ! 10 = CHR ''T'' \<and> s ! 13 = CHR '':'' \<and> s ! 16 = CHR '':''
              then (case split_fraction (drop 19 s) of (ns, rest) \<Rightarrow>
                map_option (\<lambda>z. time_of (int y) m k hh mm ss ns - z * second) (parse_zone rest))
              else None
          | _ \<Rightarrow> None)
      | _ \<Rightarrow> None)"

lemma drop_zeros_split: "\<exists>j. s = drop_zeros s @ replicate j CHR ''0''"
proof -
  let ?z = "takeWhile (\<lambda>c. c = CHR ''0'') (rev s)"
  have "\<forall>c\<in>set ?z. c = CHR ''0''" by (auto dest: set_takeWhileD)
  then have "?z = replicate (length ?z) CHR ''0''" by (metis replicate_eqI)
  moreover have "rev s = ?z @ dropWhile (\<lambda>c. c = CHR ''0'') (rev s)" by simp
  then have "s = rev (dropWhile (\<lambda>c. c = CHR ''0'') (rev s)) @ rev ?z" by (metis rev_append rev_rev_ident)
  ultimately show ?thesis unfolding drop_zeros_def by (metis rev_replicate)
qed

lemma decimal_value_zeros: "decimal_value (s @ replicate j CHR ''0'') = decimal_value s * 10 ^ j"
proof (induction j)
  case (Suc j)
  have "s @ replicate (Suc j) CHR ''0'' = (s @ replicate j CHR ''0'') @ [CHR ''0'']" by (simp add: replicate_append_same)
  moreover have "decimal_value ((s @ replicate j CHR ''0'') @ [CHR ''0'']) = decimal_value s * 10 ^ Suc j"
    by (subst decimal_value_snoc) (simp add: Suc byte_def)
  ultimately show ?case by (simp only:)
qed simp

lemma split_fraction_text:
  assumes "n < 10 ^ 9"
  shows "split_fraction (fraction_text n @ ''Z'') = (n, ''Z'')"
proof -
  let ?p = "padded 9 n"
  obtain j where j: "?p = drop_zeros ?p @ replicate j CHR ''0''" using drop_zeros_split by blast
  let ?ds = "drop_zeros ?p"
  have v: "decimal_value ?p = n" using assms by (simp add: padded_facts)
  have "length ?p = length ?ds + j" using j by (metis length_append length_replicate)
  then have l: "length ?ds + j = 9" by (simp only: padded_facts)
  have d: "list_all is_digit_byte ?ds" using padded_facts(2) [of 9 n] by (subst (asm) j) (simp only: list_all_append)
  have "decimal_value ?ds * 10 ^ j = n" using v decimal_value_zeros [of ?ds j] j by simp
  then have f: "fraction_value ?ds = n" using l by (simp add: fraction_value_def Let_def) (metis add_diff_cancel_left')
  have "\<not> is_digit_byte CHR ''Z''" by (simp add: is_digit_byte_def byte_def)
  then have t: "takeWhile is_digit_byte (?ds @ ''Z'') = ?ds" "dropWhile is_digit_byte (?ds @ ''Z'') = ''Z''"
    using d by (simp_all add: list_all_iff takeWhile_append dropWhile_append)
  show ?thesis
  proof (cases ?ds)
    case Nil
    then show ?thesis using f by (simp add: fraction_text_def split_fraction_def fraction_value_def decimal_value_def)
  next
    case (Cons c cs)
    then have c: "is_digit_byte c" using d by simp
    have "fraction_text n @ ''Z'' = CHR ''.'' # ?ds @ ''Z''" using Cons by (simp add: fraction_text_def)
    then show ?thesis using Cons c t f by (simp add: split_fraction_def)
  qed
qed

text \<open>The pieces of a text of fixed widths.\<close>

lemma stamp_parts:
  assumes "length a = 4" and "length b = 2" and "length c = 2" and "length d = 2" and "length e = 2" and "length f = 2"
    and "s = a @ ''-'' @ b @ ''-'' @ c @ ''T'' @ d @ '':'' @ e @ '':'' @ f @ r"
  shows "take 4 s = a" and "take 2 (drop 5 s) = b" and "take 2 (drop 8 s) = c" and "take 2 (drop 11 s) = d"
    and "take 2 (drop 14 s) = e" and "take 2 (drop 17 s) = f" and "drop 19 s = r"
    and "s ! 4 = CHR ''-'' \<and> s ! 7 = CHR ''-'' \<and> s ! 10 = CHR ''T'' \<and> s ! 13 = CHR '':'' \<and> s ! 16 = CHR '':''"
    and "\<not> length s < 19"
  using assms by (simp_all add: nth_append)

lemma time_split:
  assumes "secs = t div second" and "n = nat (secs mod 86400)" and "days_of_date y m k = secs div 86400 + unix_days"
  shows "time_of y m k (n div 3600) (n div 60 mod 60) (n mod 60) (nat (t mod second)) = t"
proof -
  have "n div 3600 * 3600 + n div 60 mod 60 * 60 + n mod 60 = n"
  proof -
    have "n div 3600 = n div 60 div 60" by (simp add: div_mult2_eq [symmetric])
    then show ?thesis using div_mult_mod_eq [of "n div 60" 60] div_mult_mod_eq [of n 60] by linarith
  qed
  moreover have "int n = secs mod 86400" using assms(2) by simp
  ultimately have "(secs div 86400) * 86400 + int (n div 3600 * 3600 + n div 60 mod 60 * 60 + n mod 60) = secs" by simp
  moreover have "t = secs * second + int (nat (t mod second))" using assms(1) by (simp add: second_def)
  ultimately show ?thesis by (simp add: time_of_def assms(3))
qed

lemma RFC3339_roundtrip: "RFC3339 t = Some s \<Longrightarrow> parse_RFC3339 s = Some t"
proof -
  assume a: "RFC3339 t = Some s"
  define secs n where "secs = t div second" and "n = nat (secs mod 86400)"
  obtain y m k where date: "date_of_days (secs div 86400 + unix_days) = (y, m, k)" by (metis prod.exhaust)
  let ?f = "fraction_text (nat (t mod second)) @ ''Z''"
  have y: "0 \<le> y" "y \<le> 9999" and s: "s = padded 4 (nat y) @ ''-'' @ padded 2 m @ ''-'' @ padded 2 k @ ''T'' @ padded 2 (n div 3600) @
      '':'' @ padded 2 (n div 60 mod 60) @ '':'' @ padded 2 (n mod 60) @ ?f"
    using a date by (auto simp: RFC3339_def Let_def secs_def n_def split: if_splits)
  note d = date_roundtrip [OF date]
  have "n < 86400" by (simp add: n_def)
  then have n: "n div 3600 \<le> 23" by simp
  have "length (month_lengths y) = 12" by (simp add: month_lengths_def)
  then have "month_lengths y ! (m - 1) \<in> set (month_lengths y)" using d(2,3) by (intro nth_mem) simp
  then have "month_lengths y ! (m - 1) \<le> 31" by (auto simp: month_lengths_def split: if_splits)
  then have k: "k \<le> nat (month_lengths y ! (m - 1))" "k < 100" using d(5) by simp_all
  have b: "bounded_number 0 9999 (padded 4 (nat y)) = Some (nat y)" "bounded_number 1 12 (padded 2 m) = Some m"
    "bounded_number 1 (nat (month_lengths (int (nat y)) ! (m - 1))) (padded 2 k) = Some k"
    "bounded_number 0 23 (padded 2 (n div 3600)) = Some (n div 3600)"
    "bounded_number 0 59 (padded 2 (n div 60 mod 60)) = Some (n div 60 mod 60)"
    "bounded_number 0 59 (padded 2 (n mod 60)) = Some (n mod 60)"
    using y d(2-4) k n by (auto intro!: bounded_padded)
  have "nat (t mod second) < 10 ^ 9" by (simp add: second_def)
  note f = split_fraction_text [OF this]
  have z: "parse_zone ''Z'' = Some 0" by (simp add: parse_zone_def)
  have t: "time_of (int (nat y)) m k (n div 3600) (n div 60 mod 60) (n mod 60) (nat (t mod second)) = t"
    using time_split [OF secs_def n_def d(1)] y(1) by simp
  note p = stamp_parts [OF padded_facts(1) padded_facts(1) padded_facts(1) padded_facts(1) padded_facts(1) padded_facts(1) s]
  show ?thesis unfolding parse_RFC3339_def p b using p(8,9) f z t b by simp
qed

definition stamp_char :: "char \<Rightarrow> bool" where
  "stamp_char c \<longleftrightarrow> is_digit_byte c \<or> c \<in> {CHR ''-'', CHR '':'', CHR ''T'', CHR ''.'', CHR ''Z''}"

lemma RFC3339_chars:
  assumes "RFC3339 t = Some s"
  shows "list_all stamp_char s"
proof -
  have p: "list_all stamp_char (padded w n)" for w n
    using padded_facts(2) [of w n] by (simp add: list_all_iff stamp_char_def)
  have "list_all stamp_char (drop_zeros (padded 9 n))" for n
    using p [of 9 n] by (auto simp: drop_zeros_def list_all_iff dest!: set_dropWhileD)
  then have f: "list_all stamp_char (fraction_text n)" for n by (simp add: fraction_text_def Let_def) (simp add: stamp_char_def)
  have c: "stamp_char CHR ''-''" "stamp_char CHR '':''" "stamp_char CHR ''T''" "stamp_char CHR ''Z''" by (simp_all add: stamp_char_def)
  obtain y m k where "date_of_days (t div second div 86400 + unix_days) = (y, m, k)" by (metis prod.exhaust)
  then have s: "s = padded 4 (nat y) @ ''-'' @ padded 2 m @ ''-'' @ padded 2 k @ ''T'' @ padded 2 (nat (t div second mod 86400) div 3600) @
      '':'' @ padded 2 (nat (t div second mod 86400) div 60 mod 60) @ '':'' @ padded 2 (nat (t div second mod 86400) mod 60) @
      fraction_text (nat (t mod second)) @ ''Z''"
    using assms by (simp add: RFC3339_def Let_def split: if_splits)
  show ?thesis unfolding s using p f c by simp
qed

text \<open>The zero time of Go: the start of year 1.\<close>

definition zero_time :: int where
  "zero_time = - (unix_days * 86400 * second)"

lemma padded_numeral: "padded (numeral w) n = padded (pred_numeral w) (n div 10) @ [char_of (48 + n mod 10)]"
  by (subst numeral_eq_Suc) (rule padded.simps(2))

lemma RFC3339_zero: "RFC3339 zero_time = Some ''0001-01-01T00:00:00Z''"
proof -
  have date: "date_of_days 0 = (1, 1, 1)" by (simp add: date_of_days_def split_year_def month_lengths_def)
  have "zero_time div second = - unix_days * 86400" "zero_time mod second = 0"
    by (simp_all add: zero_time_def second_def unix_days_def)
  then show ?thesis
    by (simp add: RFC3339_def date fraction_text_def drop_zeros_def padded_numeral char_of_eq_iff unix_days_def)
qed

lemma RFC3339_example: "RFC3339 1700000000120000000 = Some ''2023-11-14T22:13:20.12Z''"
proof -
  have date: "date_of_days 738837 = (2023, 11, 14)" by (simp add: date_of_days_def split_year_def month_lengths_def leap_def)
  show ?thesis
    by (simp add: RFC3339_def second_def date fraction_text_def drop_zeros_def padded_numeral char_of_eq_iff unix_days_def)
qed

end
