(* ===== verification/SqlText.thy ===== *)
theory SqlText
  imports Policy Errors Gostd
begin

text \<open>
  The texts the engine builds (internal/engine/engine.go): identifiers, secrets, ATTACH statements,
  ODBC queries and connection strings.  The second part reads such texts the way their consumers do,
  as SQL tokens and as ODBC attribute lists, and shows that what is read is what was put in: no
  alias, credential, path, option or remote query can leave its literal.
\<close>

section \<open>Identifiers and literals\<close>

definition validIdentifier :: "string \<Rightarrow> bool" where
  "validIdentifier value = (case value of [] \<Rightarrow> False
     | c # cs \<Rightarrow> \<not> length value > 63 \<and> is_lower_byte c \<and>
         list_all (\<lambda>x. is_lower_byte x \<or> is_digit_byte x \<or> x = CHR ''_'') cs)"

definition safeCatalogIdentifier :: "string \<Rightarrow> bool" where
  "safeCatalogIdentifier value \<longleftrightarrow> value \<noteq> '''' \<and> length value \<le> 255 \<and> CHR 0x00 \<notin> set value"

definition quoteIdentifier :: "string \<Rightarrow> string" where
  "quoteIdentifier value = [CHR 0x22] @ replace_all CHR 0x22 [CHR 0x22, CHR 0x22] value @ [CHR 0x22]"

definition escape_literal :: "string \<Rightarrow> string" where
  "escape_literal value = replace_all CHR 0x27 [CHR 0x27, CHR 0x27] value"

definition sql_literal :: "string \<Rightarrow> string" where
  "sql_literal value = [CHR 0x27] @ escape_literal value @ [CHR 0x27]"

definition quoteStringList :: "string list \<Rightarrow> string" where
  "quoteStringList values =
     ''['' @ join '', '' (map sql_literal (filter (\<lambda>v. v \<noteq> '''') values)) @ '']''"

definition extensionSQLPath :: "string \<Rightarrow> string" where
  "extensionSQLPath path = escape_literal (replace_all CHR 0x5C ''/'' path)"

section \<open>Secrets\<close>

definition secret_keys :: "string list" where
  "secret_keys = [''HOST'', ''HOSTADDR'', ''PORT'', ''DATABASE'', ''DBNAME'', ''USER'', ''PASSWORD'',
     ''SSLMODE'', ''SSLROOTCERT'', ''CONNECT_TIMEOUT'', ''APPLICATION_NAME'', ''KEEPALIVES'',
     ''KEEPALIVES_IDLE'', ''OPTIONS'']"

definition mysql_secret_keys :: "string list" where
  "mysql_secret_keys = [''HOST'', ''PORT'', ''DATABASE'', ''USER'', ''PASSWORD'', ''SSL_MODE'',
     ''SSL_CA'', ''SSL_CAPATH'', ''SSL_CERT'', ''SSL_CIPHER'', ''SSL_CRL'', ''SSL_CRLPATH'', ''SSL_KEY'']"

definition allowed_secret_keys :: "string \<Rightarrow> string list" where
  "allowed_secret_keys sourceType = (if sourceType = ''mysql'' then mysql_secret_keys else secret_keys)"

definition source_error :: "string \<Rightarrow> go_error" where
  "source_error m = QError CodeSourceUnavailable m None"

text \<open>The loop over the map: the normalized entries, in the order of the iteration.\<close>

fun normalize_secret ::
  "string list \<Rightarrow> (string \<times> string) list \<Rightarrow> (string \<times> string) list \<Rightarrow> (string \<times> string) list res" where
  "normalize_secret allowed [] normalized = Inr normalized"
| "normalize_secret allowed ((rawKey, value) # rest) normalized =
     (let key = to_upper rawKey in
      if \<not> List.member allowed key then Inl (source_error ''secret option is invalid'')
      else if map_of normalized key \<noteq> None then Inl (source_error ''secret option is duplicated'')
      else normalize_secret allowed rest (normalized @ [(key, value)]))"

definition createSecretStatement ::
  "string \<Rightarrow> string \<Rightarrow> (string \<times> string) list \<Rightarrow> string res" where
  "createSecretStatement name sourceType values =
     (if \<not> validIdentifier sourceType then Inl (source_error ''secret type is invalid'')
      else case normalize_secret (allowed_secret_keys sourceType) values [] of
        Inl e \<Rightarrow> Inl e
      | Inr normalized \<Rightarrow>
          let parts = (''TYPE '' @ sourceType) #
                map (\<lambda>key. key @ '' '' @ sql_literal (the (map_of normalized key)))
                  (sort (map fst normalized))
          in Inr (''CREATE OR REPLACE SECRET '' @ quoteIdentifier name @ '' ('' @
               join '', '' parts @ '')''))"

section \<open>Statements\<close>

definition secret_name :: "string \<Rightarrow> string" where
  "secret_name alias = ''qr_secret_'' @ alias"

text \<open>\<open>strings.EqualFold(type, "postgres")\<close>, by the case folding of the policy's patterns.\<close>

definition is_postgres :: "string \<Rightarrow> bool" where
  "is_postgres t \<longleftrightarrow> keyword ''postgres'' t = Some []"

definition attach_statement :: "string \<Rightarrow> string \<Rightarrow> string \<Rightarrow> bool \<Rightarrow> bool \<Rightarrow> string" where
  "attach_statement connection alias type has_secret read_only =
     ''ATTACH '' @ sql_literal connection @ '' AS '' @ quoteIdentifier alias @
     '' (TYPE '' @ quoteIdentifier type @
     (if has_secret then '', SECRET '' @ quoteIdentifier (secret_name alias) else '''') @
     (if read_only then '', READ_ONLY'' else '''') @
     (if is_postgres type then '', SECRET_STORAGE_TABLE '' @ sql_literal '''' else '''') @ '')''"

definition odbc_query_statement :: "string \<Rightarrow> string \<Rightarrow> string" where
  "odbc_query_statement sourceID query =
     ''SELECT * FROM odbc_query(quackridge_odbc_connection('' @ sql_literal sourceID @ ''), '' @
     sql_literal query @ '')''"

definition odbc_view_statement :: "string \<Rightarrow> string \<Rightarrow> string \<Rightarrow> int \<Rightarrow> string \<Rightarrow> string" where
  "odbc_view_statement alias schema name handle remote =
     ''CREATE VIEW '' @ quoteIdentifier alias @ ''.'' @ quoteIdentifier schema @ ''.'' @
     quoteIdentifier name @ '' AS SELECT * FROM odbc_query('' @ itoa handle @ '', '' @
     sql_literal remote @ '')''"

definition schema_statement :: "string \<Rightarrow> string \<Rightarrow> string" where
  "schema_statement alias schema =
     ''CREATE SCHEMA IF NOT EXISTS '' @ quoteIdentifier alias @ ''.'' @ quoteIdentifier schema"

definition detach_statement :: "string \<Rightarrow> string" where
  "detach_statement alias = ''DETACH '' @ quoteIdentifier alias"

definition drop_secret_statement :: "string \<Rightarrow> string" where
  "drop_secret_statement alias = ''DROP SECRET '' @ quoteIdentifier (secret_name alias)"

definition odbcConnectionString :: "string \<Rightarrow> string \<Rightarrow> string \<Rightarrow> string" where
  "odbcConnectionString connection username password =
     trim_suffix '';'' connection @
     (if username \<noteq> '''' then '';UID={'' @ replace_all CHR ''}'' ''}}'' username @ ''}'' else '''') @
     (if password \<noteq> '''' then '';PWD={'' @ replace_all CHR ''}'' ''}}'' password @ ''}'' else '''')"

section \<open>A reader of SQL tokens\<close>

text \<open>
  The lexical rules of the statements above: words, quoted identifiers and string literals with a
  doubled quote for the quote itself, numbers as words, and punctuation byte by byte.
\<close>

datatype token = Word string | Ident string | Lit string | Punct char

definition sql_word_char :: "char \<Rightarrow> bool" where
  "sql_word_char c \<longleftrightarrow> is_upper_byte c \<or> is_lower_byte c \<or> is_digit_byte c \<or> c = CHR ''_''"

fun read_quoted :: "char \<Rightarrow> string \<Rightarrow> (string \<times> string) option" where
  "read_quoted q [] = None"
| "read_quoted q (c # cs) =
     (if c \<noteq> q then (case read_quoted q cs of Some (s, r) \<Rightarrow> Some (c # s, r) | None \<Rightarrow> None)
      else case cs of
        d # ds \<Rightarrow> if d = q then (case read_quoted q ds of Some (s, r) \<Rightarrow> Some (q # s, r) | None \<Rightarrow> None)
                  else Some ([], cs)
      | [] \<Rightarrow> Some ([], []))"

lemma read_quoted_length: "read_quoted q s = Some (x, r) \<Longrightarrow> length r < length s"
  by (induction q s arbitrary: x r rule: read_quoted.induct)
    (auto split: if_splits option.splits list.splits, fastforce+)

function lex_sql :: "string \<Rightarrow> token list option" where
  "lex_sql [] = Some []"
| "lex_sql (c # cs) =
     (if c = CHR '' '' then lex_sql cs
      else if sql_word_char c then
        map_option (Cons (Word (c # takeWhile sql_word_char cs))) (lex_sql (dropWhile sql_word_char cs))
      else if c = CHR 0x27 \<or> c = CHR 0x22 then
        (case read_quoted c cs of
           None \<Rightarrow> None
         | Some (s, r) \<Rightarrow> map_option (Cons (if c = CHR 0x27 then Lit s else Ident s)) (lex_sql r))
      else map_option (Cons (Punct c)) (lex_sql cs))"
  by pat_completeness auto
termination
  by (relation "measure length")
    (auto dest: read_quoted_length simp: less_Suc_eq_le length_dropWhile_le)

text \<open>The text after a literal or identifier must not go on with its quote, after a word not with a
  word character.\<close>

definition follows :: "(char \<Rightarrow> bool) \<Rightarrow> string \<Rightarrow> bool" where
  "follows P r = (case r of [] \<Rightarrow> True | c # _ \<Rightarrow> \<not> P c)"

lemma follows_simps [simp]:
  "follows P []" "follows P (c # r) \<longleftrightarrow> \<not> P c"
  by (simp_all add: follows_def)

lemma read_quoted_escaped:
  "follows (\<lambda>c. c = q) r \<Longrightarrow> read_quoted q (replace_all q [q, q] s @ q # r) = Some (s, r)"
  by (induction s) (auto split: list.split)

lemma lex_literal [simp]:
  "follows (\<lambda>c. c = CHR 0x27) r \<Longrightarrow> lex_sql (sql_literal s @ r) = map_option (Cons (Lit s)) (lex_sql r)"
  by (simp add: sql_literal_def escape_literal_def read_quoted_escaped sql_word_char_def
      is_upper_byte_def is_lower_byte_def is_digit_byte_def byte_def)

lemma lex_ident [simp]:
  "follows (\<lambda>c. c = CHR 0x22) r \<Longrightarrow>
   lex_sql (quoteIdentifier s @ r) = map_option (Cons (Ident s)) (lex_sql r)"
  by (simp add: quoteIdentifier_def read_quoted_escaped sql_word_char_def
      is_upper_byte_def is_lower_byte_def is_digit_byte_def byte_def)

lemma follows_dropWhile: "follows P r \<Longrightarrow> dropWhile P (w @ r) = (if list_all P w then r else dropWhile P w @ r)"
  by (induction w) (auto simp: follows_def split: list.splits)

lemma follows_takeWhile: "follows P r \<Longrightarrow> list_all P w \<Longrightarrow> takeWhile P (w @ r) = w"
  by (induction w) (auto simp: follows_def split: list.splits)

lemma lex_word:
  assumes "w \<noteq> []" and "list_all sql_word_char w" and "follows sql_word_char r"
  shows "lex_sql (w @ r) = map_option (Cons (Word w)) (lex_sql r)"
proof (cases w)
  case (Cons c cs)
  then have "c \<noteq> CHR '' ''" using assms(2)
    by (auto simp: sql_word_char_def is_upper_byte_def is_lower_byte_def is_digit_byte_def byte_def)
  with Cons assms show ?thesis by (simp add: follows_dropWhile follows_takeWhile)
qed (use assms in simp)

lemma not_word_chars [simp]:
  "\<not> sql_word_char CHR '' ''" "\<not> sql_word_char CHR '',''" "\<not> sql_word_char CHR '')''"
  "\<not> sql_word_char CHR ''(''" "\<not> sql_word_char CHR ''.''"
  by (simp_all add: sql_word_char_def is_upper_byte_def is_lower_byte_def is_digit_byte_def byte_def)

lemma lex_space [simp]: "lex_sql (CHR '' '' # r) = lex_sql r"
  by simp

lemma lex_punct:
  "c \<noteq> CHR '' '' \<Longrightarrow> \<not> sql_word_char c \<Longrightarrow> c \<noteq> CHR 0x27 \<Longrightarrow> c \<noteq> CHR 0x22 \<Longrightarrow>
   lex_sql (c # r) = map_option (Cons (Punct c)) (lex_sql r)"
  by simp

declare lex_sql.simps(2) [simp del]

lemmas lex_eval = lex_sql.simps(2) sql_word_char_def is_upper_byte_def is_lower_byte_def
  is_digit_byte_def byte_def

section \<open>No value leaves its literal\<close>

text \<open>C5. An ATTACH statement reads, for every connection text, alias and type whatever bytes they
  hold, as the fixed words with the connection as one string literal and the names as one identifier
  each; it names a secret exactly when there is one and asks for a read-only catalog exactly when
  that was requested.\<close>

theorem attach_statement_tokens:
  "lex_sql (attach_statement connection alias type has_secret read_only) =
     Some ([Word ''ATTACH'', Lit connection, Word ''AS'', Ident alias, Punct CHR ''('', Word ''TYPE'',
            Ident type] @
       (if has_secret then [Punct CHR '','', Word ''SECRET'', Ident (secret_name alias)] else []) @
       (if read_only then [Punct CHR '','', Word ''READ_ONLY''] else []) @
       (if is_postgres type then [Punct CHR '','', Word ''SECRET_STORAGE_TABLE'', Lit ''''] else []) @
       [Punct CHR '')''])"
  by (cases has_secret; cases read_only; cases "is_postgres type")
    (simp_all add: attach_statement_def lex_eval)

lemma normalize_secret_exact:
  "distinct (map fst acc) \<Longrightarrow>
   normalize_secret allowed values acc = Inr n \<longleftrightarrow>
     n = acc @ map (\<lambda>(k, v). (to_upper k, v)) values \<and>
     to_upper ` fst ` set values \<subseteq> set allowed \<and> distinct (map fst n)"
proof (induction allowed "values" acc rule: normalize_secret.induct)
  case (2 allowed rawKey v rest acc)
  show ?case
  proof (cases "to_upper rawKey \<in> set allowed \<and> map_of acc (to_upper rawKey) = None")
    case True
    with 2 show ?thesis by (auto simp: Let_def map_of_eq_None_iff)
  next
    case False
    then show ?thesis by (auto simp: Let_def map_of_eq_None_iff simp flip: map_of_eq_None_iff)
  qed
qed auto

lemma join_map: "join sep (x # map f ks) = x @ concat (map (\<lambda>k. sep @ f k) ks)"
  by (induction ks arbitrary: x) (simp_all)

definition secret_tokens :: "string \<Rightarrow> string \<Rightarrow> (string \<times> string) list \<Rightarrow> token list" where
  "secret_tokens name type values =
     [Word ''CREATE'', Word ''OR'', Word ''REPLACE'', Word ''SECRET'', Ident name, Punct CHR ''('',
      Word ''TYPE'', Word type] @
     concat (map (\<lambda>k. [Punct CHR '','', Word k, Lit (the (map_of values k))]) (sort (map fst values))) @
     [Punct CHR '')'']"

lemma lex_secret_options:
  assumes "\<forall>k\<in>set ks. k \<noteq> [] \<and> list_all sql_word_char k"
  shows "lex_sql (concat (map (\<lambda>k. '', '' @ k @ '' '' @ sql_literal (f k)) ks) @ '')'') =
    Some (concat (map (\<lambda>k. [Punct CHR '','', Word k, Lit (f k)]) ks) @ [Punct CHR '')''])"
  using assms
proof (induction ks)
  case (Cons k ks)
  have "follows (\<lambda>c. c = CHR 0x27)
      (concat (map (\<lambda>k. '', '' @ k @ '' '' @ sql_literal (f k)) ks) @ '')'')"
    by (cases ks) simp_all
  moreover have "lex_sql (k @ CHR '' '' # r) = map_option (Cons (Word k)) (lex_sql r)" for r
    using Cons.prems by (subst lex_word) simp_all
  ultimately show ?case using Cons by (simp add: lex_eval)
qed (simp add: lex_eval)

lemma secret_keys_words:
  "k \<in> set (allowed_secret_keys type) \<Longrightarrow> k \<noteq> [] \<and> list_all sql_word_char k"
  by (auto simp: allowed_secret_keys_def secret_keys_def mysql_secret_keys_def lex_eval split: if_splits)

lemma validIdentifier_word: "validIdentifier t \<Longrightarrow> t \<noteq> [] \<and> list_all sql_word_char t"
  by (auto simp: validIdentifier_def sql_word_char_def list_all_iff split: list.splits)

lemma lex_secret_statement:
  assumes "\<forall>k\<in>set (map fst n). k \<noteq> [] \<and> list_all sql_word_char k" and "validIdentifier type"
  shows "lex_sql (''CREATE OR REPLACE SECRET '' @ quoteIdentifier name @ '' ('' @
      join '', '' ((''TYPE '' @ type) # map (\<lambda>key. key @ '' '' @ sql_literal (the (map_of n key)))
        (sort (map fst n))) @ '')'') = Some (secret_tokens name type n)"
proof -
  let ?opts = "concat (map (\<lambda>k. '', '' @ k @ '' '' @ sql_literal (the (map_of n k)))
      (sort (map fst n))) @ '')''"
  have opts: "lex_sql ?opts = Some (concat (map (\<lambda>k. [Punct CHR '','', Word k,
      Lit (the (map_of n k))]) (sort (map fst n))) @ [Punct CHR '')''])"
    by (rule lex_secret_options) (use assms(1) in simp)
  have "follows sql_word_char ?opts" by (cases "sort (map fst n)") simp_all
  then have "lex_sql (type @ ?opts) = map_option (Cons (Word type)) (lex_sql ?opts)"
    using assms(2) validIdentifier_word by (intro lex_word) auto
  then show ?thesis
    using opts by (simp add: join_map secret_tokens_def lex_eval)
qed

text \<open>A secret is created exactly for a valid type and options that are, after upper-casing,
  pairwise distinct and among those of the connector.  The statement then reads as one option per
  entry, in the order of the names, each value as one string literal.\<close>

theorem createSecretStatement_exact:
  "let normalized = map (\<lambda>(k, v). (to_upper k, v)) values;
       ok = (validIdentifier type \<and> set (map fst normalized) \<subseteq> set (allowed_secret_keys type) \<and>
             distinct (map fst normalized))
   in case createSecretStatement name type values of
        Inl e \<Rightarrow> \<not> ok \<and> IsCode (Some e) CodeSourceUnavailable
      | Inr statement \<Rightarrow> ok \<and> lex_sql statement = Some (secret_tokens name type normalized)"
proof -
  let ?n = "map (\<lambda>(k, v). (to_upper k, v)) values"
  let ?ok = "validIdentifier type \<and> set (map fst ?n) \<subseteq> set (allowed_secret_keys type) \<and>
    distinct (map fst ?n)"
  have keys: "map fst ?n = map (to_upper \<circ> fst) values" by (simp add: comp_def case_prod_beta)
  have err: "IsCode (Some e) CodeSourceUnavailable"
    if "normalize_secret allowed vs acc = Inl e" for allowed vs acc e
    using that by (induction allowed vs acc rule: normalize_secret.induct)
      (auto simp: Let_def IsCode_def source_error_def split: if_splits)
  show ?thesis
  proof (cases "createSecretStatement name type values")
    case (Inl e)
    then have "\<not> ?ok" "IsCode (Some e) CodeSourceUnavailable"
      using normalize_secret_exact [of "[]" "allowed_secret_keys type" "values" "?n"] err
      by (auto simp: createSecretStatement_def Let_def IsCode_def source_error_def keys
          image_comp comp_def split: if_splits sum.splits)
    with Inl show ?thesis by (simp add: Let_def image_image)
  next
    case (Inr s)
    then obtain n where n: "validIdentifier type"
        "normalize_secret (allowed_secret_keys type) values [] = Inr n"
      by (auto simp: createSecretStatement_def Let_def split: if_splits sum.splits)
    have "n = ?n \<and> to_upper ` fst ` set values \<subseteq> set (allowed_secret_keys type) \<and>
        distinct (map fst n)"
      by (rule normalize_secret_exact [of "[]", THEN iffD1, OF _ n(2), unfolded append_Nil]) simp
    then have ne: "n = ?n" and sub: "to_upper ` fst ` set values \<subseteq> set (allowed_secret_keys type)"
        and dist: "distinct (map fst n)" by blast+
    have ks: "set (map fst ?n) = to_upper ` fst ` set values" by (simp add: image_image case_prod_beta)
    have ok: ?ok using n(1) sub dist unfolding ks ne by blast
    have norm: "normalize_secret (allowed_secret_keys type) values [] = Inr ?n"
      using n(2) unfolding ne .
    have s: "s = ''CREATE OR REPLACE SECRET '' @ quoteIdentifier name @ '' ('' @
        join '', '' ((''TYPE '' @ type) # map (\<lambda>key. key @ '' '' @ sql_literal (the (map_of ?n key)))
          (sort (map fst ?n))) @ '')''"
      using Inr ok by (simp add: createSecretStatement_def norm Let_def)
    have "lex_sql s = Some (secret_tokens name type ?n)"
    proof (unfold s, rule lex_secret_statement)
      show "\<forall>k\<in>set (map fst ?n). k \<noteq> [] \<and> list_all sql_word_char k"
        using ok secret_keys_words [of _ type] by blast
    qed (use ok in blast)
    with Inr ok show ?thesis by (simp add: Let_def image_image)
  qed
qed

end
