(* ===== verification/Engine.thy ===== *)
theory Engine
  imports SqlText Source Lifecycle
begin

text \<open>
  The engine runtime (internal/engine/engine.go).  DuckDB, the Quack extension, the file system and
  the random source are outside the repository: they answer calls, and an environment \<open>env\<close> gives the
  answer to each call from the history of the calls before it, so that it can behave in any
  deterministic or adversarial way.  The engine's own state is the record \<open>engine\<close>; every operation
  is a function of the environment, the state and the history, and returns the longer history.  The
  operations hold the runtime's mutex throughout, so they do not interleave.
\<close>

section \<open>Calls to the environment\<close>

datatype arg = AText string | AInt int | ANull

datatype cell = CText string | CInt int | CBool bool | CNull

datatype call =
    OpenDB | Ping | CloseDB
  | Exec string "arg list"
  | QueryRow string "arg list"
  | QueryRows string "arg list"
  | BeginTx | TxExec string "arg list" | Commit | Rollback
  | Stat string
  | MkdirTemp | RemoveAll string
  | InstallPolicy | ClosePolicy
  | OpenConn | RegisterResolver | CloseConn
  | RandRead nat
  | FreePort string
  | Dial string | HangUp

text \<open>A reply: an error, success with nothing to read, rows (with the final \<open>rows.Err\<close>; a query for
  one row reads the first), a text (the bytes read, a path), a number, the file mode.\<close>

datatype reply =
    RErr go_error | ROk
  | RRows "cell list list" "go_error option"
  | RText string | RInt int | RRegular bool

type_synonym env = "call list \<Rightarrow> call \<Rightarrow> reply"
type_synonym hist = "call list"

definition reply_error :: "reply \<Rightarrow> go_error option" where
  "reply_error r = (case r of RErr e \<Rightarrow> Some e | _ \<Rightarrow> None)"

text \<open>Continue with the reply of a call, or with its error.\<close>

definition call_or ::
  "env \<Rightarrow> call \<Rightarrow> hist \<Rightarrow> (go_error \<Rightarrow> hist \<Rightarrow> 'b) \<Rightarrow> (reply \<Rightarrow> hist \<Rightarrow> 'b) \<Rightarrow> 'b" where
  "call_or env c h fail ok = (let r = env h c; h' = h @ [c] in
     case reply_error r of Some e \<Rightarrow> fail e h' | None \<Rightarrow> ok r h')"

text \<open>Calls whose results are dropped.\<close>

definition ignore :: "call list \<Rightarrow> hist \<Rightarrow> hist" where
  "ignore cs h = h @ cs"

text \<open>A scan of a reply into Go variables; a reply of another shape is a conversion error.\<close>

definition scan_error :: go_error where
  "scan_error = Plain ''sql: Scan error''"

definition scan_text :: "reply \<Rightarrow> string res" where
  "scan_text r = (case r of
     RErr e \<Rightarrow> Inl e | RText s \<Rightarrow> Inr s | RRows ([CText s] # _) _ \<Rightarrow> Inr s | _ \<Rightarrow> Inl scan_error)"

definition scan_int :: "reply \<Rightarrow> int res" where
  "scan_int r = (case r of
     RErr e \<Rightarrow> Inl e | RInt i \<Rightarrow> Inr i | RRows ([CInt i] # _) _ \<Rightarrow> Inr i | _ \<Rightarrow> Inl scan_error)"

fun scan_pairs :: "cell list list \<Rightarrow> (string \<times> string) list \<Rightarrow> (string \<times> string) list res" where
  "scan_pairs [] acc = Inr acc"
| "scan_pairs ([CText a, CText b] # rows) acc = scan_pairs rows (AList.update a b acc)"
| "scan_pairs (_ # rows) acc = Inl scan_error"

text \<open>The loop over rows of two texts into a map, with its three error exits.\<close>

definition read_pairs :: "reply \<Rightarrow> (string \<times> string) list res" where
  "read_pairs r = (case r of
     RErr e \<Rightarrow> Inl e
   | RRows rows final \<Rightarrow> (case scan_pairs rows [] of
       Inl e \<Rightarrow> Inl e
     | Inr m \<Rightarrow> (case final of Some e \<Rightarrow> Inl e | None \<Rightarrow> Inr m))
   | _ \<Rightarrow> Inr [])"

definition internal :: "string \<Rightarrow> go_error \<Rightarrow> go_error" where
  "internal action e = QError CodeInternal (action @ '' failed'') (Some e)"

section \<open>State\<close>

record attachment =
  at_SourceID :: string
  at_SourceName :: string
  at_Alias :: string
  at_Type :: string
  at_DatabaseType :: string
  at_Connection :: string
  at_Secret :: "(string \<times> string) list"
  at_ReadOnly :: bool

record object_type =
  ob_Schema :: string
  ob_Name :: string
  ob_Type :: string

record odbc_object = object_type +
  ob_RemoteSelect :: string

record odbc_attachment =
  oa_SourceID :: string
  oa_SourceName :: string
  oa_Alias :: string
  oa_DatabaseType :: string
  oa_Connection :: string
  oa_Username :: string
  oa_Password :: string
  oa_Objects :: "odbc_object list"

record engine =
  en_db :: bool  \<comment> \<open>the database handle is not nil\<close>
  en_endpoint :: string
  en_token :: string
  en_policy :: bool
  en_sandbox :: string
  en_extensionDir :: string
  en_loadedExtensions :: "string \<rightharpoonup> bool"
  en_odbcConnection :: bool
  en_odbcResolver :: "(string \<rightharpoonup> string) option"
  en_odbcHandles :: "(string \<times> int) list"
  en_sources :: "(string \<times> source_status) list"

definition engine_New :: engine where
  "engine_New = \<lparr>en_db = False, en_endpoint = '''', en_token = '''', en_policy = False,
     en_sandbox = '''', en_extensionDir = '''', en_loadedExtensions = Map.empty,
     en_odbcConnection = False, en_odbcResolver = None, en_odbcHandles = [], en_sources = []\<rparr>"

definition not_running :: go_error where
  "not_running = QError CodeSourceUnavailable ''engine is not running'' None"

section \<open>Start\<close>

definition loadExtension ::
  "env \<Rightarrow> string \<Rightarrow> hist \<Rightarrow> go_error option \<times> hist" where
  "loadExtension env path h =
     (let r = env h (Stat path); h1 = h @ [Stat path] in
      if r \<noteq> RRegular True
      then (Some (QError CodeInternal ''required extension is unavailable'' (reply_error r)), h1)
      else call_or env (Exec (''LOAD '' @ [CHR 0x27] @ extensionSQLPath path @ [CHR 0x27]) []) h1
        (\<lambda>e h. (Some (internal ''load required extension'' e), h)) (\<lambda>_ h. (None, h)))"

definition extension_path :: "string \<Rightarrow> string \<Rightarrow> string" where
  "extension_path dir extension = filepath_Join [dir, extension @ ''.duckdb_extension'']"

fun load_all :: "env \<Rightarrow> string \<Rightarrow> string list \<Rightarrow> hist \<Rightarrow> go_error option \<times> hist" where
  "load_all env dir [] h = (None, h)"
| "load_all env dir (x # xs) h = (case loadExtension env (extension_path dir x) h of
     (Some e, h') \<Rightarrow> (Some e, h') | (None, h') \<Rightarrow> load_all env dir xs h')"

definition validateVersionPair :: "string \<Rightarrow> (string \<times> string) list \<Rightarrow> go_error option" where
  "validateVersionPair engineVersion extensions =
     (if trim_prefix ''v'' engineVersion \<noteq> DuckDBVersion
      then Some (QError CodeProtocolMismatch ''unsupported DuckDB version pair'' None)
      else if list_ex (\<lambda>name. map_of extensions name \<noteq>
             Some (case map_of ExtensionVersions name of Some v \<Rightarrow> v | None \<Rightarrow> ''''))
           [''httpfs'', ''quack'']
      then Some (QError CodeProtocolMismatch ''unsupported DuckDB extension version pair'' None)
      else None)"

definition version_query :: string where "version_query = ''SELECT version()''"

definition extensions_query :: string where
  "extensions_query = ''SELECT extension_name, coalesce(extension_version, '' @ sql_literal '''' @
     '') FROM duckdb_extensions() WHERE loaded AND extension_name IN ('' @ sql_literal ''httpfs'' @
     '', '' @ sql_literal ''quack'' @ '')''"

definition verifyVersionPair :: "env \<Rightarrow> hist \<Rightarrow> go_error option \<times> hist" where
  "verifyVersionPair env h =
     (let r = env h (QueryRow version_query []); h1 = h @ [QueryRow version_query []] in
      case scan_text r of
        Inl e \<Rightarrow> (Some (internal ''verify DuckDB version'' e), h1)
      | Inr engineVersion \<Rightarrow>
          (let r2 = env h1 (QueryRows extensions_query []); h2 = h1 @ [QueryRows extensions_query []] in
           case read_pairs r2 of
             Inl e \<Rightarrow> (Some (internal ''verify extension versions'' e), h2)
           | Inr versions \<Rightarrow> (validateVersionPair engineVersion versions, h2)))"

definition or_default :: "string \<Rightarrow> string \<Rightarrow> string" where
  "or_default value dflt = (if value = [] then dflt else value)"

definition thread_count :: "options \<Rightarrow> int" where
  "thread_count opts = (if op_Threads opts \<le> 0 then 4 else op_Threads opts)"

definition configure_statements :: "options \<Rightarrow> string \<Rightarrow> string list" where
  "configure_statements opts sandbox =
    [''SET GLOBAL autoinstall_known_extensions = false'',
     ''SET GLOBAL autoload_known_extensions = false'',
     ''SET GLOBAL allow_community_extensions = false'',
     ''SET GLOBAL allow_unsigned_extensions = false'',
     ''SET GLOBAL allow_persistent_secrets = false'',
     ''SET GLOBAL allow_unredacted_secrets = false'',
     ''SET GLOBAL default_secret_storage = '' @ sql_literal ''memory'',
     ''SET GLOBAL secret_directory = '' @ sql_literal (filepath_Join [sandbox, ''secrets'']),
     ''SET GLOBAL temp_directory = '' @ sql_literal (filepath_Join [sandbox, ''temp'']),
     ''SET GLOBAL enable_global_s3_configuration = false'',
     ''SET GLOBAL allowed_directories = '' @ quoteStringList [sandbox, op_ExtensionDir opts],
     ''SET GLOBAL allowed_paths = '' @ quoteStringList (op_AllowedPaths opts),
     ''SET GLOBAL threads = '' @ itoa (thread_count opts),
     ''SET GLOBAL memory_limit = '' @ sql_literal (or_default (op_MemoryLimit opts) ''1GB''),
     ''SET GLOBAL max_temp_directory_size = '' @ sql_literal (or_default (op_TempLimit opts) ''1GB'')]"

text \<open>Statements in order until one fails; \<open>action\<close> names the failure.\<close>

fun exec_all :: "env \<Rightarrow> (string \<times> string) list \<Rightarrow> hist \<Rightarrow> go_error option \<times> hist" where
  "exec_all env [] h = (None, h)"
| "exec_all env ((action, statement) # rest) h =
     call_or env (Exec statement []) h (\<lambda>e h. (Some (internal action e), h))
       (\<lambda>_ h. exec_all env rest h)"

definition lock_action :: string where "lock_action = ''lock engine configuration''"

definition configure :: "env \<Rightarrow> options \<Rightarrow> string \<Rightarrow> hist \<Rightarrow> go_error option \<times> hist" where
  "configure env opts sandbox h =
     (if thread_count opts > 64
      then (Some (QError CodeResourceExhausted ''thread limit exceeds the supported maximum'' None), h)
      else exec_all env (map (Pair lock_action) (configure_statements opts sandbox)) h)"

definition lock_statement :: string where
  "lock_statement = ''SET GLOBAL lock_configuration = true''"

definition lockConfiguration :: "env \<Rightarrow> hist \<Rightarrow> go_error option \<times> hist" where
  "lockConfiguration env h = exec_all env [(lock_action, lock_statement)] h"

definition is_loopback_host :: "string \<Rightarrow> bool" where
  "is_loopback_host host =
     (host = ''localhost'' \<or> (case ParseIP (trim_chars ''[]'' host) of
        None \<Rightarrow> False | Some ip \<Rightarrow> IsLoopback ip))"

text \<open>\<open>json.Marshal\<close> of the identity; none of its texts needs an escape.\<close>

definition json_text :: "string \<Rightarrow> string" where
  "json_text s = [CHR 0x22] @ s @ [CHR 0x22]"

definition json_texts :: "string list \<Rightarrow> string" where
  "json_texts xs = ''['' @ join '','' (map json_text xs) @ '']''"

definition marshal_identity :: "identity \<Rightarrow> string" where
  "marshal_identity i = ''{'' @ join '',''
     [json_text ''product'' @ '':'' @ json_text (id_Product i),
      json_text ''product_version'' @ '':'' @ json_text (id_ProductVersion i),
      json_text ''protocol_version'' @ '':'' @ itoa (id_ProtocolVersion i),
      json_text ''metadata_version'' @ '':'' @ itoa (id_MetadataVersion i),
      json_text ''connector_types'' @ '':'' @ json_texts (id_ConnectorTypes i),
      json_text ''read_only'' @ '':'' @ (if id_ReadOnly i then ''true'' else ''false''),
      json_text ''capabilities'' @ '':'' @ json_texts (id_Capabilities i)] @ ''}''"

definition sources_table :: string where
  "sources_table = ''CREATE TABLE quackridge_sources ( source_id VARCHAR PRIMARY KEY, source_name VARCHAR NOT NULL, connector_type VARCHAR NOT NULL, database_type VARCHAR NOT NULL, catalog_name VARCHAR UNIQUE NOT NULL, source_health VARCHAR NOT NULL, error_code VARCHAR)''"

definition objects_table :: string where
  "objects_table = ''CREATE TABLE quackridge_objects ( source_id VARCHAR NOT NULL, schema_name VARCHAR NOT NULL, object_name VARCHAR NOT NULL, object_type VARCHAR NOT NULL CHECK (object_type IN ('table', 'view')), PRIMARY KEY (source_id, schema_name, object_name))''"

definition metadata_macro :: string where
  "metadata_macro = ''CREATE OR REPLACE MACRO quackridge_metadata_v2() AS TABLE SELECT s.source_id, s.source_name, s.connector_type, s.database_type, s.source_health, s.catalog_name, c.schema_name, c.table_name object_name, CASE WHEN c.table_name IS NULL OR c.internal THEN NULL ELSE coalesce(o.object_type, 'table') END object_type, column_name, column_index + 1 ordinal_position, data_type duckdb_type, is_nullable nullable, CASE WHEN s.database_type = 'postgres' THEN lower(c.schema_name) IN ('information_schema', 'pg_catalog') WHEN s.database_type IN ('mysql', 'mariadb') THEN lower(c.schema_name) IN ('information_schema', 'mysql', 'performance_schema', 'sys') WHEN s.database_type = 'duckdb' THEN lower(c.schema_name) IN ('information_schema', 'pg_catalog') WHEN s.database_type = 'sqlite' THEN lower(c.schema_name) = 'temp' WHEN s.database_type = 'sqlserver' THEN lower(c.schema_name) IN ('information_schema', 'sys') WHEN s.database_type = 'oracle' THEN upper(c.schema_name) IN ('SYS', 'SYSTEM', 'OUTLN', 'XDB') WHEN s.database_type = 'odbc' THEN lower(c.schema_name) = 'information_schema' ELSE false END is_system_schema, s.error_code FROM memory.main.quackridge_sources s LEFT JOIN duckdb_columns() c ON c.database_name = s.catalog_name LEFT JOIN memory.main.quackridge_objects o ON o.source_id = s.source_id AND o.schema_name = c.schema_name AND o.object_name = c.table_name''"

definition active_queries_macro :: string where
  "active_queries_macro = ''CREATE OR REPLACE MACRO quackridge_active_queries_v1() AS TABLE SELECT connection_id, regexp_extract(query, '/'' @ [CHR 0x5C] @ ''*'' @ [CHR 0x5C] @ ''s*quackridge-query-id:([A-Za-z0-9_-]+)'' @ [CHR 0x5C] @ ''s*'' @ [CHR 0x5C] @ ''*/', 1) AS query_id, state FROM quack_active_connections() WHERE state = 'active' AND query_id <> '' @ sql_literal ''''"

definition installMetadataRelation :: "env \<Rightarrow> hist \<Rightarrow> go_error option \<times> hist" where
  "installMetadataRelation env h = exec_all env
     [(''create source registry'', sources_table), (''create object registry'', objects_table),
      (''create metadata relation'', metadata_macro),
      (''create active-query relation'', active_queries_macro)] h"

definition authorization_statement :: string where
  "authorization_statement =
     ''SET GLOBAL quack_authorization_function = '' @ sql_literal ''quackridge_authorize''"

definition identify_call :: "string \<Rightarrow> call" where
  "identify_call host = Exec (''CALL quack_identify(name => ?, provider => 'local', hostname => ?, region => '' @
     sql_literal '''' @ '', meta => ?)'')
     [AText ''QuackRidge'', AText host, AText (marshal_identity CurrentIdentity)]"

definition serve_call :: "string \<Rightarrow> string \<Rightarrow> call" where
  "serve_call uri token = Exec ''CALL quack_serve(?, token => ?)'' [AText uri, AText token]"

definition stop_call :: "string \<Rightarrow> call" where
  "stop_call endpoint = Exec ''CALL quack_stop(?)'' [AText endpoint]"

definition text_reply :: "reply \<Rightarrow> string" where
  "text_reply r = (case r of RText s \<Rightarrow> s | _ \<Rightarrow> '''')"

definition int_reply :: "reply \<Rightarrow> int" where
  "int_reply r = (case r of RInt i \<Rightarrow> i | _ \<Rightarrow> 0)"

text \<open>Cleanups, in the order the code and its deferred function run them.\<close>

definition close_sandbox :: "string \<Rightarrow> call list" where
  "close_sandbox sandbox = [CloseDB, RemoveAll sandbox]"

definition close_all :: "string \<Rightarrow> call list" where
  "close_all sandbox = [ClosePolicy, CloseDB, RemoveAll sandbox, CloseConn]"

definition listen_host :: "options \<Rightarrow> string" where
  "listen_host opts = or_default (op_ListenHost opts) ''127.0.0.1''"

text \<open>The last part of Start in the three steps of the code: publish and serve; find the address;
  activate the policy and find the token.  The policy and the ODBC connection are in place, and every
  failure closes everything.\<close>

definition start_abort :: "string \<Rightarrow> engine \<Rightarrow> go_error \<Rightarrow> hist \<Rightarrow> (string res \<times> engine) \<times> hist" where
  "start_abort sandbox en e h = ((Inl e, en), ignore (close_all sandbox) h)"

definition started :: "options \<Rightarrow> string \<Rightarrow> string \<Rightarrow> string \<Rightarrow> engine \<Rightarrow> engine" where
  "started opts sandbox uri token en =
     en\<lparr>en_db := True, en_endpoint := uri, en_token := token, en_policy := True,
        en_sandbox := sandbox, en_extensionDir := op_ExtensionDir opts,
        en_loadedExtensions := [''httpfs'' \<mapsto> True, ''quack'' \<mapsto> True],
        en_odbcConnection := True, en_odbcResolver := Some Map.empty,
        en_odbcHandles := [], en_sources := []\<rparr>"

definition start_listen ::
  "env \<Rightarrow> options \<Rightarrow> string \<Rightarrow> engine \<Rightarrow> string \<Rightarrow> int \<Rightarrow> hist \<Rightarrow> (string res \<times> engine) \<times> hist" where
  "start_listen env opts sandbox en token port h =
     (let abort = start_abort sandbox en; host = listen_host opts;
          uri = ''quack:'' @ JoinHostPort host (itoa port) in
      call_or env (identify_call host) h (\<lambda>e. abort (internal ''publish identity'' e)) (\<lambda>_ h.
      case installMetadataRelation env h of (Some e, h) \<Rightarrow> abort e h | (None, h) \<Rightarrow>
      case lockConfiguration env h of (Some e, h) \<Rightarrow> abort e h | (None, h) \<Rightarrow>
      call_or env (serve_call uri token) h (\<lambda>e. abort (internal ''start Quack'' e)) (\<lambda>_ h.
      ((Inr uri, started opts sandbox uri token en), h))))"

definition start_address ::
  "env \<Rightarrow> options \<Rightarrow> string \<Rightarrow> engine \<Rightarrow> string \<Rightarrow> hist \<Rightarrow> (string res \<times> engine) \<times> hist" where
  "start_address env opts sandbox en token h =
     (let abort = start_abort sandbox en; host = listen_host opts in
      if \<not> is_loopback_host host
      then abort (QError CodeInternal ''listener must use loopback'' None) h
      else if op_ListenPort opts = 0
      then call_or env (FreePort host) h (\<lambda>e. abort (internal ''allocate loopback port'' e))
             (\<lambda>r h. start_listen env opts sandbox en token (int_reply r) h)
      else start_listen env opts sandbox en token (op_ListenPort opts) h)"

definition start_serving ::
  "env \<Rightarrow> options \<Rightarrow> string \<Rightarrow> engine \<Rightarrow> hist \<Rightarrow> (string res \<times> engine) \<times> hist" where
  "start_serving env opts sandbox en h =
     (let abort = start_abort sandbox en in
      call_or env (Exec authorization_statement []) h
        (\<lambda>e. abort (internal ''activate authorization policy'' e)) (\<lambda>_ h.
      if op_Token opts = ''''
      then call_or env (RandRead 32) h (\<lambda>e. abort (internal ''generate token'' e))
             (\<lambda>r h. start_address env opts sandbox en (hex_encode (text_reply r)) h)
      else start_address env opts sandbox en (op_Token opts) h))"

definition engine_Start ::
  "env \<Rightarrow> options \<Rightarrow> engine \<Rightarrow> hist \<Rightarrow> (string res \<times> engine) \<times> hist" where
  "engine_Start env opts en h =
     (if en_db en then ((Inl (QError CodeInternal ''engine already started'' None), en), h)
      else if op_ExtensionDir opts = ''''
      then ((Inl (QError CodeInternal ''extension directory is required'' None), en), h)
      else
        (let abort = (\<lambda>closing e h. ((Inl e, en), ignore closing h)) in
         call_or env OpenDB h (\<lambda>e. abort [] (internal ''open DuckDB'' e)) (\<lambda>_ h.
         call_or env Ping h (\<lambda>e. abort [CloseDB] (internal ''start DuckDB'' e)) (\<lambda>_ h.
         case load_all env (op_ExtensionDir opts) [''httpfs'', ''quack''] h of
           (Some e, h) \<Rightarrow> abort [CloseDB] e h
         | (None, h) \<Rightarrow>
         case verifyVersionPair env h of (Some e, h) \<Rightarrow> abort [CloseDB] e h | (None, h) \<Rightarrow>
         call_or env MkdirTemp h (\<lambda>e. abort [CloseDB] (internal ''create engine sandbox'' e)) (\<lambda>r h.
         let sandbox = text_reply r in
         case configure env opts sandbox h of
           (Some e, h) \<Rightarrow> abort (close_sandbox sandbox) e h
         | (None, h) \<Rightarrow>
         call_or env InstallPolicy h
           (\<lambda>e. abort (close_sandbox sandbox) (internal ''install authorization policy'' e)) (\<lambda>_ h.
         call_or env OpenConn h
           (\<lambda>e. abort (ClosePolicy # close_sandbox sandbox) (internal ''open ODBC credential resolver'' e))
           (\<lambda>_ h.
         call_or env RegisterResolver h
           (\<lambda>e. abort (CloseConn # ClosePolicy # close_sandbox sandbox)
             (internal ''install ODBC credential resolver'' e)) (\<lambda>_ h.
         start_serving env opts sandbox en h))))))))"

section \<open>Running operations\<close>

definition engine_Reload :: "env \<Rightarrow> engine \<Rightarrow> hist \<Rightarrow> go_error option \<times> hist" where
  "engine_Reload env en h =
     (if \<not> en_db en then (Some not_running, h)
      else call_or env Ping h (\<lambda>e h. (Some (internal ''validate engine during reload'' e), h))
             (\<lambda>_ h. (None, h)))"

definition connector_extension :: "string \<Rightarrow> string option" where
  "connector_extension type = map_of
     [(''postgres'', ''postgres_scanner''), (''mysql'', ''mysql_scanner''),
      (''sqlite'', ''sqlite_scanner''), (''odbc'', ''odbc_scanner''), (''duckdb'', '''')] type"

definition extension_version_query :: string where
  "extension_version_query = ''SELECT coalesce(extension_version, '' @ sql_literal '''' @
     '') FROM duckdb_extensions() WHERE extension_name = ? AND loaded''"

definition ensureConnectorExtension ::
  "env \<Rightarrow> string \<Rightarrow> engine \<Rightarrow> hist \<Rightarrow> (go_error option \<times> engine) \<times> hist" where
  "ensureConnectorExtension env type en h = (case connector_extension type of
     None \<Rightarrow> ((Some (source_error ''source connector is unsupported''), en), h)
   | Some extension \<Rightarrow>
       if extension = '''' \<or> en_loadedExtensions en extension = Some True then ((None, en), h)
       else (case loadExtension env (extension_path (en_extensionDir en) extension) h of
         (Some e, h) \<Rightarrow>
           ((Some (QError CodeSourceUnavailable ''source connector extension is unavailable'' (Some e)),
             en), h)
       | (None, h) \<Rightarrow>
         (let c = QueryRow extension_version_query [AText extension];
              version = scan_text (env h c); h = h @ [c];
              expected = (case map_of ExtensionVersions extension of Some v \<Rightarrow> v | None \<Rightarrow> '''')
          in if version \<noteq> Inr expected
             then ((Some (QError CodeProtocolMismatch ''unsupported source connector extension version''
                      (case version of Inl e \<Rightarrow> Some e | Inr _ \<Rightarrow> None)), en), h)
             else ((None, en\<lparr>en_loadedExtensions :=
                      (en_loadedExtensions en)(extension \<mapsto> True)\<rparr>), h))))"

definition upsert_statement :: "string \<Rightarrow> string" where
  "upsert_statement columns = ''INSERT INTO memory.main.quackridge_sources VALUES ('' @ columns @
     '') ON CONFLICT (source_id) DO UPDATE SET source_name = excluded.source_name, connector_type = excluded.connector_type, database_type = excluded.database_type, catalog_name = excluded.catalog_name, source_health = excluded.source_health, error_code = excluded.error_code''"

definition database_type :: "attachment \<Rightarrow> string" where
  "database_type a = or_default (at_DatabaseType a) (at_Type a)"

definition source_row :: "attachment \<Rightarrow> arg list" where
  "source_row a = [AText (at_SourceID a), AText (at_SourceName a), AText (at_Type a),
     AText (database_type a), AText (at_Alias a)]"

definition recordSource ::
  "attachment \<Rightarrow> string \<Rightarrow> error_code option \<Rightarrow> engine \<Rightarrow> hist \<Rightarrow> engine \<times> hist" where
  "recordSource a health code en h =
     (let code_text = (case code of Some c \<Rightarrow> code_string c | None \<Rightarrow> '''');
          en' = en\<lparr>en_sources := AList.update (at_SourceID a)
            \<lparr>ss_ID = at_SourceID a, ss_Name = at_SourceName a, ss_Type = at_Type a,
              ss_Health = health, ss_ErrorCode = code_text\<rparr> (en_sources en)\<rparr>
      in if en_db en'
         then (en', ignore [Exec (upsert_statement ''?, ?, ?, ?, ?, ?, ?'')
                (source_row a @ [AText health, if code_text = '''' then ANull else AText code_text])] h)
         else (en', h))"

definition unavailable ::
  "attachment \<Rightarrow> go_error \<Rightarrow> engine \<Rightarrow> hist \<Rightarrow> (go_error option \<times> engine) \<times> hist" where
  "unavailable a e en h =
     (case recordSource a ''unavailable'' (Some CodeSourceUnavailable) en h of
        (en', h') \<Rightarrow> ((Some e, en'), h'))"

definition attached_objects_statement :: string where
  "attached_objects_statement = ''INSERT INTO memory.main.quackridge_objects SELECT ?, schema_name, table_name, 'table' FROM duckdb_tables() WHERE database_name = ? AND NOT internal UNION ALL SELECT ?, schema_name, view_name, 'view' FROM duckdb_views() WHERE database_name = ? AND NOT internal ON CONFLICT (source_id, schema_name, object_name) DO UPDATE SET object_type = excluded.object_type''"

definition registerAttachedObjectTypes ::
  "env \<Rightarrow> string \<Rightarrow> string \<Rightarrow> hist \<Rightarrow> go_error option \<times> hist" where
  "registerAttachedObjectTypes env sourceID alias h =
     call_or env (Exec attached_objects_statement
         [AText sourceID, AText alias, AText sourceID, AText alias]) h
       (\<lambda>e h. (Some (internal ''register attached object metadata'' e), h)) (\<lambda>_ h. (None, h))"

text \<open>From the ATTACH statement on.\<close>

definition attach_catalog ::
  "env \<Rightarrow> attachment \<Rightarrow> engine \<Rightarrow> hist \<Rightarrow> (go_error option \<times> engine) \<times> hist" where
  "attach_catalog env a en h =
     (let has_secret = (at_Secret a \<noteq> []);
          statement = attach_statement (if has_secret then '''' else at_Connection a) (at_Alias a)
            (at_Type a) has_secret (at_ReadOnly a);
          detach = Exec (detach_statement (at_Alias a)) []
      in call_or env (Exec statement []) h
        (\<lambda>e h. unavailable a (QError CodeSourceUnavailable ''source attach failed'' (Some e)) en
           (if has_secret then ignore [Exec (drop_secret_statement (at_Alias a)) []] h else h))
        (\<lambda>_ h.
      call_or env (Exec (upsert_statement (''?, ?, ?, ?, ?, '' @ sql_literal ''ready'' @ '', NULL''))
          (source_row a)) h
        (\<lambda>e h. ((Some (internal ''register source metadata'' e), en), ignore [detach] h)) (\<lambda>_ h.
      case registerAttachedObjectTypes env (at_SourceID a) (at_Alias a) h of
        (Some e, h) \<Rightarrow> ((Some e, en), ignore [detach] h)
      | (None, h) \<Rightarrow>
          (case recordSource a ''ready'' None en h of (en', h') \<Rightarrow> ((None, en'), h')))))"

definition engine_Attach ::
  "env \<Rightarrow> attachment \<Rightarrow> engine \<Rightarrow> hist \<Rightarrow> (go_error option \<times> engine) \<times> hist" where
  "engine_Attach env a en h =
     (if \<not> en_db en then ((Some not_running, en), h)
      else if \<not> validIdentifier (at_Alias a) \<or> \<not> validIdentifier (at_Type a)
      then ((Some (source_error ''source identifier is invalid''), en), h)
      else case ensureConnectorExtension env (at_Type a) en h of
        ((Some e, en), h) \<Rightarrow> unavailable a e en h
      | ((None, en), h) \<Rightarrow>
          if at_Secret a \<noteq> [] then
            (case createSecretStatement (secret_name (at_Alias a)) (at_Type a) (at_Secret a) of
               Inl e \<Rightarrow> unavailable a e en h
             | Inr statement \<Rightarrow>
                 call_or env (Exec statement []) h
                   (\<lambda>e. unavailable a
                      (QError CodeSourceUnavailable ''source credential setup failed'' (Some e)) en)
                   (\<lambda>_. attach_catalog env a en))
          else attach_catalog env a en h)"

subsection \<open>ODBC\<close>

definition resolver_set :: "string \<Rightarrow> string \<Rightarrow> engine \<Rightarrow> engine" where
  "resolver_set sourceID value en =
     en\<lparr>en_odbcResolver := map_option (\<lambda>m. m(sourceID \<mapsto> value)) (en_odbcResolver en)\<rparr>"

definition resolver_delete :: "string \<Rightarrow> engine \<Rightarrow> engine" where
  "resolver_delete sourceID en =
     en\<lparr>en_odbcResolver := map_option (\<lambda>m. m(sourceID := None)) (en_odbcResolver en)\<rparr>"

text \<open>The scalar function that resolves a connection inside DuckDB; an argument that is no string
  reads as the empty one.\<close>

definition resolver_execute :: "string option \<Rightarrow> (string \<rightharpoonup> string) \<Rightarrow> string res" where
  "resolver_execute argument m = (case m (case argument of Some s \<Rightarrow> s | None \<Rightarrow> '''') of
     None \<Rightarrow> Inl (Plain ''ODBC source is unavailable'') | Some v \<Rightarrow> Inr v)"

definition engine_ODBCQuery ::
  "env \<Rightarrow> string \<Rightarrow> string \<Rightarrow> string \<Rightarrow> string \<Rightarrow> string \<Rightarrow> engine \<Rightarrow> hist \<Rightarrow> (reply \<times> engine) \<times> hist" where
  "engine_ODBCQuery env sourceID connection username password query en h =
     (if \<not> en_db en then ((RErr not_running, en), h)
      else case ensureConnectorExtension env ''odbc'' en h of
        ((Some e, en), h) \<Rightarrow> ((RErr e, en), h)
      | ((None, en), h) \<Rightarrow>
          (let en' = resolver_set sourceID (odbcConnectionString connection username password) en;
               c = QueryRows (odbc_query_statement sourceID query) []
           in ((env h c, en'), h @ [c])))"

definition engine_ClearODBC :: "string \<Rightarrow> engine \<Rightarrow> engine" where
  "engine_ClearODBC sourceID en = resolver_delete sourceID en"

definition close_handle :: "int \<Rightarrow> call" where
  "close_handle handle = QueryRow ''SELECT odbc_close(?)'' [AInt handle]"

definition delete_objects :: "string \<Rightarrow> arg list \<times> string" where
  "delete_objects sourceID =
     ([AText sourceID], ''DELETE FROM memory.main.quackridge_objects WHERE source_id = ?'')"

fun insert_objects ::
  "env \<Rightarrow> string \<Rightarrow> object_type list \<Rightarrow> hist \<Rightarrow> go_error option \<times> hist" where
  "insert_objects env sourceID [] h =
     call_or env Commit h (\<lambda>e h. (Some (internal ''commit object metadata'' e), h)) (\<lambda>_ h. (None, h))"
| "insert_objects env sourceID (object # rest) h =
     (if ob_Type object \<noteq> ''table'' \<and> ob_Type object \<noteq> ''view''
      then (Some (QError CodeInternal ''object metadata type is invalid'' None), h)
      else call_or env (TxExec ''INSERT INTO memory.main.quackridge_objects VALUES (?, ?, ?, ?)''
          [AText sourceID, AText (ob_Schema object), AText (ob_Name object), AText (ob_Type object)]) h
        (\<lambda>e h. (Some (internal ''insert object metadata'' e), h))
        (\<lambda>_ h. insert_objects env sourceID rest h))"

text \<open>The deferred rollback runs on every exit and has no effect after a commit.\<close>

definition registerObjectTypes ::
  "env \<Rightarrow> string \<Rightarrow> object_type list \<Rightarrow> hist \<Rightarrow> go_error option \<times> hist" where
  "registerObjectTypes env sourceID objects h =
     call_or env BeginTx h (\<lambda>e h. (Some (internal ''begin metadata update'' e), h)) (\<lambda>_ h.
       case (call_or env (TxExec (snd (delete_objects sourceID)) (fst (delete_objects sourceID))) h
               (\<lambda>e h. (Some (internal ''replace object metadata'' e), h))
               (\<lambda>_ h. insert_objects env sourceID objects h)) of
         (err, h) \<Rightarrow> (err, ignore [Rollback] h))"

definition engine_RegisterObjectTypes ::
  "env \<Rightarrow> string \<Rightarrow> object_type list \<Rightarrow> engine \<Rightarrow> hist \<Rightarrow> go_error option \<times> hist" where
  "engine_RegisterObjectTypes env sourceID objects en h =
     (if \<not> en_db en then (Some not_running, h) else registerObjectTypes env sourceID objects h)"

text \<open>The views of the attached objects; the failing exits share one cleanup, which the caller runs.\<close>

fun create_views ::
  "env \<Rightarrow> string \<Rightarrow> int \<Rightarrow> odbc_object list \<Rightarrow> hist \<Rightarrow> go_error option \<times> hist" where
  "create_views env alias handle [] h = (None, h)"
| "create_views env alias handle (object # rest) h =
     (if \<not> safeCatalogIdentifier (ob_Schema object) \<or> \<not> safeCatalogIdentifier (ob_Name object) \<or>
         (ob_Type object \<noteq> ''table'' \<and> ob_Type object \<noteq> ''view'')
      then (Some (source_error ''ODBC metadata contains an unsupported identifier''), h)
      else call_or env (Exec (schema_statement alias (ob_Schema object)) []) h
        (\<lambda>e h. (Some (QError CodeSourceUnavailable ''ODBC schema setup failed'' (Some e)), h)) (\<lambda>_ h.
      call_or env (Exec (odbc_view_statement alias (ob_Schema object) (ob_Name object) handle
          (ob_RemoteSelect object)) []) h
        (\<lambda>e h. (Some (QError CodeSourceUnavailable ''ODBC relation setup failed'' (Some e)), h))
        (\<lambda>_ h. create_views env alias handle rest h)))"

definition odbc_insert :: "odbc_attachment \<Rightarrow> call" where
  "odbc_insert a = Exec (''INSERT INTO memory.main.quackridge_sources VALUES (?, ?, 'odbc', ?, ?, 'ready', NULL)'')
     [AText (oa_SourceID a), AText (oa_SourceName a), AText (oa_DatabaseType a), AText (oa_Alias a)]"

definition engine_AttachODBC ::
  "env \<Rightarrow> odbc_attachment \<Rightarrow> engine \<Rightarrow> hist \<Rightarrow> (go_error option \<times> engine) \<times> hist" where
  "engine_AttachODBC env a en h =
     (if \<not> en_db en then ((Some not_running, en), h)
      else if \<not> validIdentifier (oa_Alias a) \<or> \<not> validIdentifier (oa_DatabaseType a)
      then ((Some (source_error ''ODBC source identifier is invalid''), en), h)
      else case ensureConnectorExtension env ''odbc'' en h of
        ((Some e, en), h) \<Rightarrow> ((Some e, en), h)
      | ((None, en), h) \<Rightarrow>
        (let connect = QueryRow ''SELECT odbc_connect(?, ?, ?)''
               [AText (oa_Connection a), AText (oa_Username a), AText (oa_Password a)];
             reply = scan_int (env h connect); h = h @ [connect] in
         case reply of
           Inl e \<Rightarrow>
             ((Some (QError CodeSourceUnavailable ''ODBC connection setup failed'' (Some e)), en), h)
         | Inr handle \<Rightarrow>
             call_or env (Exec (''ATTACH '' @ sql_literal '':memory:'' @ '' AS '' @
                 quoteIdentifier (oa_Alias a)) []) h
               (\<lambda>e h. ((Some (QError CodeSourceUnavailable ''ODBC catalog setup failed'' (Some e)), en),
                  ignore [close_handle handle] h))
               (\<lambda>_ h.
             let fail = (\<lambda>e h. ((Some e, en),
                   ignore [Exec (detach_statement (oa_Alias a)) [], close_handle handle] h)) in
             case create_views env (oa_Alias a) handle (oa_Objects a) h of
               (Some e, h) \<Rightarrow> fail e h
             | (None, h) \<Rightarrow>
             call_or env (odbc_insert a) h (\<lambda>e. fail (internal ''register ODBC source metadata'' e)) (\<lambda>_ h.
             case registerObjectTypes env (oa_SourceID a) (map object_type.truncate (oa_Objects a)) h of
               (Some e, h) \<Rightarrow> fail e h
             | (None, h) \<Rightarrow>
                 ((None, en\<lparr>en_odbcHandles := AList.update (oa_SourceID a) handle (en_odbcHandles en),
                    en_sources := AList.update (oa_SourceID a)
                      \<lparr>ss_ID = oa_SourceID a, ss_Name = oa_SourceName a, ss_Type = ''odbc'',
                        ss_Health = ''ready'', ss_ErrorCode = ''''\<rparr> (en_sources en)\<rparr>), h)))))"

subsection \<open>Queries, detaching, stopping\<close>

definition source_key :: "source_status \<Rightarrow> string" where
  "source_key s = ss_ID s"

definition engine_Sources :: "engine \<Rightarrow> source_status list" where
  "engine_Sources en = sort_key source_key (map snd (en_sources en))"

text \<open>\<open>QueryRow\<close> without a database runs the query on the zero \<open>sql.DB\<close>, whose connector is nil: the
  call panics, which is \<open>None\<close>.\<close>

definition engine_QueryRow ::
  "env \<Rightarrow> string \<Rightarrow> arg list \<Rightarrow> engine \<Rightarrow> hist \<Rightarrow> reply option \<times> hist" where
  "engine_QueryRow env query args en h =
     (if \<not> en_db en then (None, h)
      else (Some (env h (QueryRow query args)), h @ [QueryRow query args]))"

definition engine_Query :: "env \<Rightarrow> string \<Rightarrow> arg list \<Rightarrow> engine \<Rightarrow> hist \<Rightarrow> reply \<times> hist" where
  "engine_Query env query args en h =
     (if \<not> en_db en then (RErr not_running, h)
      else (env h (QueryRows query args), h @ [QueryRows query args]))"

definition engine_Detach ::
  "env \<Rightarrow> string \<Rightarrow> string \<Rightarrow> engine \<Rightarrow> hist \<Rightarrow> (go_error option \<times> engine) \<times> hist" where
  "engine_Detach env alias sourceID en h =
     (if \<not> en_db en then ((Some not_running, en), h)
      else if \<not> validIdentifier alias
      then ((Some (source_error ''source identifier is invalid''), en), h)
      else call_or env (Exec (detach_statement alias) []) h
        (\<lambda>e h. ((Some (QError CodeSourceUnavailable ''source detach failed'' (Some e)), en), h)) (\<lambda>_ h.
        let h = ignore [Exec (drop_secret_statement alias) [],
              Exec ''DELETE FROM memory.main.quackridge_sources WHERE source_id = ?'' [AText sourceID],
              Exec (snd (delete_objects sourceID)) (fst (delete_objects sourceID))] h;
            en = en\<lparr>en_sources := AList.delete sourceID (en_sources en)\<rparr>;
            (en, h) = (case map_of (en_odbcHandles en) sourceID of
                None \<Rightarrow> (en, h)
              | Some handle \<Rightarrow> (en\<lparr>en_odbcHandles := AList.delete sourceID (en_odbcHandles en)\<rparr>,
                  ignore [close_handle handle] h))
        in ((None, resolver_delete sourceID en), h)))"

definition engine_UpdateDatabaseType ::
  "env \<Rightarrow> string \<Rightarrow> string \<Rightarrow> engine \<Rightarrow> hist \<Rightarrow> go_error option \<times> hist" where
  "engine_UpdateDatabaseType env sourceID databaseType en h =
     (if \<not> en_db en \<or> \<not> validIdentifier databaseType
      then (Some (source_error ''database type is invalid''), h)
      else call_or env (Exec ''UPDATE memory.main.quackridge_sources SET database_type = ? WHERE source_id = ?''
          [AText databaseType, AText sourceID]) h
        (\<lambda>e h. (Some (internal ''update source database type'' e), h)) (\<lambda>_ h. (None, h)))"

text \<open>A call whose error is kept while the code goes on.\<close>

definition call_error :: "env \<Rightarrow> call \<Rightarrow> hist \<Rightarrow> go_error option \<times> hist" where
  "call_error env c h = (reply_error (env h c), h @ [c])"

fun close_handles :: "env \<Rightarrow> (string \<times> int) list \<Rightarrow> go_error option \<Rightarrow> hist \<Rightarrow> go_error option \<times> hist" where
  "close_handles env [] err h = (err, h)"
| "close_handles env ((_, handle) # rest) err h = (case call_error env (close_handle handle) h of
     (e, h') \<Rightarrow> close_handles env rest (errors_join [err, e]) h')"

definition engine_Stop :: "env \<Rightarrow> engine \<Rightarrow> hist \<Rightarrow> (go_error option \<times> engine) \<times> hist" where
  "engine_Stop env en h =
     (if \<not> en_db en then ((None, en), h)
      else
        (let (stopErr, h) = call_error env (stop_call (en_endpoint en)) h;
             (policyErr, h) = call_error env ClosePolicy h;
             (odbcErr, h) = close_handles env (en_odbcHandles en) None h;
             (connErr, h) = call_error env CloseConn h;
             odbcErr = errors_join [odbcErr, connErr];
             (closeErr, h) = call_error env CloseDB h;
             (removeErr, h) = call_error env (RemoveAll (en_sandbox en)) h
         in ((errors_join [stopErr, policyErr, odbcErr, closeErr, removeErr],
              en\<lparr>en_db := False, en_endpoint := '''', en_token := '''', en_policy := False,
                 en_sandbox := '''', en_sources := [], en_extensionDir := '''',
                 en_loadedExtensions := Map.empty, en_odbcConnection := False,
                 en_odbcResolver := None, en_odbcHandles := []\<rparr>), h)))"

definition engine_Token :: "engine \<Rightarrow> string" where
  "engine_Token en = en_token en"

definition engine_RotateToken ::
  "env \<Rightarrow> engine \<Rightarrow> hist \<Rightarrow> (go_error option \<times> engine) \<times> hist" where
  "engine_RotateToken env en h =
     (if \<not> en_db en then ((Some not_running, en), h)
      else
        (let failed = (\<lambda>e h. ((Some (internal ''rotate token'' e), en), h)) in
         call_or env (RandRead 32) h failed (\<lambda>r h.
         let token = hex_encode (text_reply r) in
         call_or env (stop_call (en_endpoint en)) h failed (\<lambda>_ h.
         call_or env (serve_call (en_endpoint en) token) h
           (\<lambda>e h. failed e (ignore [serve_call (en_endpoint en) (en_token en)] h))
           (\<lambda>_ h. ((None, en\<lparr>en_token := token\<rparr>), h))))))"

definition diagnostics_query :: string where
  "diagnostics_query = ''SELECT name, value FROM duckdb_settings() WHERE name IN ('memory_limit', 'max_temp_directory_size', 'threads', 'lock_configuration', 'autoinstall_known_extensions', 'autoload_known_extensions', 'allow_community_extensions', 'allow_unsigned_extensions', 'allow_persistent_secrets', 'disabled_filesystems')''"

record diagnostics =
  dg_duckdb_version :: string
  dg_endpoint :: string
  dg_source_count :: nat
  dg_settings :: "(string \<times> string) list"

definition engine_Diagnostics :: "env \<Rightarrow> engine \<Rightarrow> hist \<Rightarrow> diagnostics res \<times> hist" where
  "engine_Diagnostics env en h =
     (if \<not> en_db en then (Inl not_running, h)
      else (let c = QueryRows diagnostics_query [] in
        (case read_pairs (env h c) of
           Inl e \<Rightarrow> Inl (internal ''read engine diagnostics'' e)
         | Inr settings \<Rightarrow> Inr \<lparr>dg_duckdb_version = DuckDBVersion, dg_endpoint = en_endpoint en,
             dg_source_count = length (en_sources en), dg_settings = settings\<rparr>,
         h @ [c])))"

end
