(* ===== verification/EngineSafety.thy ===== *)
theory EngineSafety
  imports Engine
begin

text \<open>
  The engine's lifecycle: which resources its calls hold and what the data plane serves.  The ghost
  state \<open>world\<close> is computed from the history and the replies; the theorems relate it to the engine's
  own record for every operation and every behaviour of the environment.
\<close>

section \<open>What the calls hold\<close>

text \<open>
  The resources of the process and what the data plane serves, as the replies establish them: an
  open that succeeds holds its resource until the close, and the listener serves the address and
  token of the last successful \<open>quack_serve\<close> until a successful \<open>quack_stop\<close> or the close of the
  database.
\<close>

record world =
  w_db :: bool
  w_policy :: bool
  w_conn :: bool
  w_sandbox :: bool
  w_serving :: "(arg list) option"

definition idle_world :: world where
  "idle_world = \<lparr>w_db = False, w_policy = False, w_conn = False, w_sandbox = False, w_serving = None\<rparr>"

definition serve_text :: string where "serve_text = ''CALL quack_serve(?, token => ?)''"
definition stop_text :: string where "stop_text = ''CALL quack_stop(?)''"

definition world_step :: "reply \<Rightarrow> call \<Rightarrow> world \<Rightarrow> world" where
  "world_step r c w = (let ok = (reply_error r = None) in case c of
     OpenDB \<Rightarrow> if ok then w\<lparr>w_db := True\<rparr> else w
   | CloseDB \<Rightarrow> w\<lparr>w_db := False, w_serving := None\<rparr>
   | InstallPolicy \<Rightarrow> if ok then w\<lparr>w_policy := True\<rparr> else w
   | ClosePolicy \<Rightarrow> w\<lparr>w_policy := False\<rparr>
   | OpenConn \<Rightarrow> if ok then w\<lparr>w_conn := True\<rparr> else w
   | CloseConn \<Rightarrow> w\<lparr>w_conn := False\<rparr>
   | MkdirTemp \<Rightarrow> if ok then w\<lparr>w_sandbox := True\<rparr> else w
   | RemoveAll _ \<Rightarrow> w\<lparr>w_sandbox := False\<rparr>
   | Exec s args \<Rightarrow>
       if ok \<and> s = serve_text then w\<lparr>w_serving := Some args\<rparr>
       else if ok \<and> s = stop_text then w\<lparr>w_serving := None\<rparr> else w
   | _ \<Rightarrow> w)"

fun world_rev :: "env \<Rightarrow> call list \<Rightarrow> world" where
  "world_rev env [] = idle_world"
| "world_rev env (c # past) = world_step (env (rev past) c) c (world_rev env past)"

definition world :: "env \<Rightarrow> hist \<Rightarrow> world" where
  "world env h = world_rev env (rev h)"

lemma world_Nil [simp]: "world env [] = idle_world"
  by (simp add: world_def)

lemma world_snoc: "world env (h @ [c]) = world_step (env h c) c (world env h)"
  by (simp add: world_def)

text \<open>Calls that touch none of this.\<close>

fun neutral :: "call \<Rightarrow> bool" where
  "neutral (Exec s _) = (\<not> has_prefix ''CALL quack_s'' s)"
| "neutral c = (c \<notin> {OpenDB, CloseDB, InstallPolicy, ClosePolicy, OpenConn, CloseConn, MkdirTemp} \<and>
     (case c of RemoveAll _ \<Rightarrow> False | _ \<Rightarrow> True))"

definition quiet :: "hist \<Rightarrow> hist \<Rightarrow> bool" where
  "quiet h h' \<longleftrightarrow> (\<exists>cs. h' = h @ cs \<and> list_all neutral cs)"

lemma world_neutral: "neutral c \<Longrightarrow> world env (h @ [c]) = world env h"
  by (cases c) (auto simp: world_snoc world_step_def serve_text_def stop_text_def Let_def)

lemma world_neutral_list: "list_all neutral cs \<Longrightarrow> world env (h @ cs) = world env h"
proof (induction cs rule: rev_induct)
  case (snoc c cs)
  then show ?case using world_neutral [of c env "h @ cs"] by simp
qed simp

lemma quiet_world: "quiet h h' \<Longrightarrow> world env h' = world env h"
  by (auto simp: quiet_def world_neutral_list)

lemma quiet_refl [simp]: "quiet h h"
  by (simp add: quiet_def)

lemma quiet_same [simp]: "quiet h (h @ cs) \<longleftrightarrow> list_all neutral cs"
  by (auto simp: quiet_def)

lemma quiet_snoc: "quiet h h' \<Longrightarrow> neutral c \<Longrightarrow> quiet h (h' @ [c])"
  by (auto simp: quiet_def)

lemma quiet_trans [trans]: "quiet h h' \<Longrightarrow> quiet h' h'' \<Longrightarrow> quiet h h''"
  by (auto simp: quiet_def)

lemma quiet_Cons: "quiet (h @ [c]) h' \<Longrightarrow> neutral c \<Longrightarrow> quiet h h'"
  by (auto simp: quiet_def)

lemma quiet_ignore: "quiet h h' \<Longrightarrow> list_all neutral cs \<Longrightarrow> quiet h (ignore cs h')"
  by (auto simp: quiet_def ignore_def)

lemma call_or_split:
  "Q (call_or env c h fail ok) \<longleftrightarrow>
     (\<forall>e. reply_error (env h c) = Some e \<longrightarrow> Q (fail e (h @ [c]))) \<and>
     (reply_error (env h c) = None \<longrightarrow> Q (ok (env h c) (h @ [c])))"
  by (simp add: call_or_def Let_def split: option.split)

lemmas statement_defs = detach_statement_def drop_secret_statement_def attach_statement_def
  schema_statement_def odbc_view_statement_def odbc_query_statement_def upsert_statement_def
  attached_objects_statement_def odbc_insert_def

lemma quiet_loadExtension: "quiet h (snd (loadExtension env path h))"
  by (auto simp: loadExtension_def Let_def intro!: quiet_snoc split: call_or_split)

lemma quiet_load_all: "quiet h (snd (load_all env dir xs h))"
proof (induction xs arbitrary: h)
  case (Cons x xs)
  show ?case
    using quiet_loadExtension [of h env "extension_path dir x"] Cons
    by (auto intro: quiet_trans split: prod.split option.split)
qed simp

lemma quiet_verify: "quiet h (snd (verifyVersionPair env h))"
  by (auto simp: verifyVersionPair_def Let_def intro!: quiet_snoc split: sum.split)

lemma quiet_exec_all:
  "list_all (\<lambda>(a, s). \<not> has_prefix ''CALL quack_s'' s) xs \<Longrightarrow> quiet h (snd (exec_all env xs h))"
proof (induction env xs h rule: exec_all.induct)
  case (2 env action s rest h)
  then show ?case
    using quiet_Cons [of h "Exec s []" "snd (exec_all env rest (h @ [Exec s []]))"]
    by (auto split: call_or_split)
qed simp

lemma quiet_configure: "quiet h (snd (configure env opts sandbox h))"
proof -
  have "list_all (\<lambda>(a, s). \<not> has_prefix ''CALL quack_s'' s)
      (map (Pair lock_action) (configure_statements opts sandbox))"
    by (simp add: configure_statements_def)
  then show ?thesis unfolding configure_def by (auto intro: quiet_exec_all)
qed

lemma quiet_lock: "quiet h (snd (lockConfiguration env h))"
  unfolding lockConfiguration_def by (rule quiet_exec_all) (simp add: lock_statement_def)

lemma quiet_metadata: "quiet h (snd (installMetadataRelation env h))"
  unfolding installMetadataRelation_def
  by (rule quiet_exec_all)
    (simp add: sources_table_def objects_table_def metadata_macro_def active_queries_macro_def)

declare exec_all.simps(2) [simp del]

lemma world_quiet_op: "quiet h (snd (f h)) \<Longrightarrow> f h = (x, h') \<Longrightarrow> world env h' = world env h"
  using quiet_world [of h h' env] by simp

definition holding_all :: world where
  "holding_all = \<lparr>w_db = True, w_policy = True, w_conn = True, w_sandbox = True, w_serving = None\<rparr>"

text \<open>The outcome of a start from a process that holds nothing.\<close>

definition start_outcome :: "env \<Rightarrow> engine \<Rightarrow> (string res \<times> engine) \<times> hist \<Rightarrow> bool" where
  "start_outcome env en result = (case result of
     ((Inl e, en'), h') \<Rightarrow> en' = en \<and> world env h' = idle_world
   | ((Inr uri, en'), h') \<Rightarrow> en_db en' \<and> en_endpoint en' = uri \<and> en_sources en' = [] \<and>
       world env h' = holding_all\<lparr>w_serving := Some [AText (en_endpoint en'), AText (en_token en')]\<rparr>)"

lemma world_close_all:
  "world env h = holding_all \<Longrightarrow> world env (ignore (close_all sandbox) h) = idle_world"
proof -
  assume h: "world env h = holding_all"
  have "ignore (close_all sandbox) h =
      (((h @ [ClosePolicy]) @ [CloseDB]) @ [RemoveAll sandbox]) @ [CloseConn]"
    by (simp add: ignore_def close_all_def)
  then show ?thesis
    by (simp only: world_snoc h) (simp add: world_step_def holding_all_def idle_world_def Let_def)
qed

lemma start_abort_outcome:
  "world env h = holding_all \<Longrightarrow> start_outcome env en (start_abort sandbox en e h)"
  by (simp add: start_abort_def start_outcome_def world_close_all)

lemma world_keep: "world env h = w \<Longrightarrow> neutral c \<Longrightarrow> world env (h @ [c]) = w"
  by (simp add: world_neutral)

lemma world_serve:
  "world env h = w \<Longrightarrow> world env (h @ [serve_call uri token]) =
     (if reply_error (env h (serve_call uri token)) = None
      then w\<lparr>w_serving := Some [AText uri, AText token]\<rparr> else w)"
  by (simp add: world_snoc serve_call_def world_step_def serve_text_def stop_text_def Let_def)

lemma start_listen_outcome:
  assumes "world env h = holding_all"
  shows "start_outcome env en (start_listen env opts sandbox en token port h)"
proof -
  have finished: "start_outcome env en ((Inr uri, started opts sandbox uri token en), h)"
    if "world env h = holding_all\<lparr>w_serving := Some [AText uri, AText token]\<rparr>" for uri h
    using that by (simp add: start_outcome_def started_def)
  have identify: "neutral (identify_call host)" for host by (simp add: identify_call_def)
  have meta: "world env h' = holding_all"
    if "installMetadataRelation env h = (x, h')" "world env h = holding_all" for h h' x
    using that quiet_metadata [of h env] quiet_world [of h h' env] by simp
  have lock: "world env h' = holding_all"
    if "lockConfiguration env h = (x, h')" "world env h = holding_all" for h h' x
    using that quiet_lock [of h env] quiet_world [of h h' env] by simp
  note identified = world_keep [OF assms identify]
  show ?thesis
    unfolding start_listen_def Let_def
    by (auto split: call_or_split prod.split option.split
        intro!: start_abort_outcome finished identified
        simp: world_serve [OF lock [OF _ meta [OF _ identified]]]
        dest: lock [OF _ meta [OF _ identified]] meta [OF _ identified])
qed

lemma call_step:
  assumes "world env h = w" and "neutral c"
    and "\<And>e h'. world env h' = w \<Longrightarrow> Q (fail e h')" and "\<And>r h'. world env h' = w \<Longrightarrow> Q (ok r h')"
  shows "Q (call_or env c h fail ok)"
  using assms by (simp add: world_neutral split: call_or_split)

lemma start_address_outcome:
  "world env h = holding_all \<Longrightarrow> start_outcome env en (start_address env opts sandbox en token h)"
  unfolding start_address_def Let_def
  by (auto intro!: call_step [where Q = "start_outcome env en"] start_abort_outcome start_listen_outcome)

lemma start_serving_outcome:
  assumes "world env h = holding_all"
  shows "start_outcome env en (start_serving env opts sandbox en h)"
  unfolding start_serving_def Let_def
proof (rule call_step [OF assms])
  show "neutral (Exec authorization_statement [])" by (simp add: authorization_statement_def)
qed (auto intro!: call_step [where Q = "start_outcome env en"] start_abort_outcome start_address_outcome)

text \<open>The earlier steps hold part of the resources, and each failure gives back what is held.\<close>

definition gives_back :: "call list \<Rightarrow> world \<Rightarrow> bool" where
  "gives_back closing w \<longleftrightarrow> fold (world_step ROk) closing w = idle_world"

fun closing_call :: "call \<Rightarrow> bool" where
  "closing_call (RemoveAll _) = True"
| "closing_call c = (c \<in> {CloseDB, ClosePolicy, CloseConn})"

lemma world_step_close: "closing_call c \<Longrightarrow> world_step r c w = world_step ROk c w"
  by (cases c) (auto simp: world_step_def Let_def)

lemma world_closing:
  "list_all closing_call closing \<Longrightarrow>
   world env (ignore closing h) = fold (world_step ROk) closing (world env h)"
proof (induction closing arbitrary: h)
  case (Cons c cs)
  then have "world env (h @ [c]) = world_step ROk c (world env h)"
    unfolding world_snoc by (intro world_step_close) simp
  with Cons.IH [of "h @ [c]"] Cons.prems show ?case by (simp add: ignore_def)
qed (simp add: ignore_def)

lemma abort_outcome:
  "world env h = w \<Longrightarrow> gives_back closing w \<Longrightarrow>
   list_all closing_call closing \<Longrightarrow>
   start_outcome env en ((Inl e, en), ignore closing h)"
  by (simp add: start_outcome_def world_closing gives_back_def)

lemma open_step:
  assumes "world env h = w" and "c \<in> {OpenDB, InstallPolicy, OpenConn, MkdirTemp}"
    and "\<And>e h'. world env h' = w \<Longrightarrow> Q (fail e h')"
    and "\<And>r h'. world env h' = world_step ROk c w \<Longrightarrow> Q (ok r h')"
  shows "Q (call_or env c h fail ok)"
proof -
  have "world env (h @ [c]) = (if reply_error (env h c) = None then world_step ROk c w else w)"
    using assms(1,2) by (auto simp: world_snoc world_step_def Let_def reply_error_def)
  with assms(3,4) show ?thesis by (simp split: call_or_split)
qed

lemma gives_back_simps [simp]:
  "gives_back [] w \<longleftrightarrow> w = idle_world"
  "gives_back (CloseDB # cs) w \<longleftrightarrow> gives_back cs (w\<lparr>w_db := False, w_serving := None\<rparr>)"
  "gives_back (ClosePolicy # cs) w \<longleftrightarrow> gives_back cs (w\<lparr>w_policy := False\<rparr>)"
  "gives_back (CloseConn # cs) w \<longleftrightarrow> gives_back cs (w\<lparr>w_conn := False\<rparr>)"
  "gives_back (RemoveAll s # cs) w \<longleftrightarrow> gives_back cs (w\<lparr>w_sandbox := False\<rparr>)"
  by (simp_all add: gives_back_def world_step_def)

lemma quiet_case:
  assumes "quiet h (snd (f h))" and "world env h = w"
    and "\<And>e h'. world env h' = w \<Longrightarrow> Q (fail e h')" and "\<And>h'. world env h' = w \<Longrightarrow> Q (ok h')"
  shows "Q (case f h of (Some e, h') \<Rightarrow> fail e h' | (None, h') \<Rightarrow> ok h')"
  using assms quiet_world [of h "snd (f h)" env] by (auto split: prod.split option.split)

lemma engine_Start_outcome:
  assumes "world env h = idle_world" and "\<not> en_db en"
  shows "start_outcome env en (engine_Start env opts en h)"
proof (cases "op_ExtensionDir opts = ''''")
  case True
  then show ?thesis using assms by (simp add: engine_Start_def start_outcome_def)
next
  case False
  let ?Q = "start_outcome env en"
  note steps = open_step [where Q = ?Q] call_step [where Q = ?Q] quiet_case [where Q = ?Q]
  note closed = abort_outcome simp_thms idle_world_def close_sandbox_def world_step_def Let_def
    reply_error_def
  show ?thesis
    unfolding engine_Start_def Let_def if_not_P [OF assms(2)] if_not_P [OF False]
    apply (rule open_step [where Q = ?Q], rule assms(1), simp)
     apply (simp add: closed)
    apply (rule call_step [where Q = ?Q], assumption, simp, simp add: closed)
    apply (rule quiet_case [where Q = ?Q], rule quiet_load_all, assumption, simp add: closed)
    apply (rule quiet_case [where Q = ?Q], rule quiet_verify, assumption, simp add: closed)
    apply (rule open_step [where Q = ?Q], assumption, simp, simp add: closed)
    apply (rule quiet_case [where Q = ?Q], rule quiet_configure, assumption, simp add: closed)
    apply (rule open_step [where Q = ?Q], assumption, simp, simp add: closed)
    apply (rule open_step [where Q = ?Q], assumption, simp, simp add: closed)
    apply (rule call_step [where Q = ?Q], assumption, simp, simp add: closed)
    apply (rule start_serving_outcome, simp add: closed holding_all_def)
    done
qed

text \<open>C6. A start from a process that holds nothing either succeeds, holding the database, the
  policy, the ODBC connection and the sandbox and serving the endpoint it returns with the token it
  keeps; or it fails at any of its steps with the engine unchanged, every resource opened on the way
  closed again, and nothing served.\<close>

theorem engine_Start_all_or_nothing:
  assumes "world env h = idle_world" and "\<not> en_db en"
  shows "case engine_Start env opts en h of
       ((Inl e, en'), h') \<Rightarrow> en' = en \<and> world env h' = idle_world
     | ((Inr uri, en'), h') \<Rightarrow> en_db en' \<and> en_endpoint en' = uri \<and>
         world env h' = \<lparr>w_db = True, w_policy = True, w_conn = True, w_sandbox = True,
           w_serving = Some [AText uri, AText (en_token en')]\<rparr>"
  using engine_Start_outcome [OF assms, of opts]
  by (auto simp: start_outcome_def holding_all_def split: sum.splits)

text \<open>An environment in which everything succeeds.\<close>

definition demo_env :: env where
  "demo_env h c = (case c of
     Stat _ \<Rightarrow> RRegular True
   | MkdirTemp \<Rightarrow> RText ''/tmp/quackridge-1''
   | RandRead n \<Rightarrow> RText (replicate n CHR ''a'')
   | FreePort _ \<Rightarrow> RInt 4000
   | QueryRow q args \<Rightarrow>
       if q = version_query then RText ''v1.5.5''
       else if q = extension_version_query
       then RText (case args of [AText x] \<Rightarrow> (case map_of ExtensionVersions x of Some v \<Rightarrow> v | None \<Rightarrow> '''')
              | _ \<Rightarrow> '''')
       else RInt 7
   | QueryRows q args \<Rightarrow> RRows [[CText ''httpfs'', CText ''827222f''], [CText ''quack'', CText ''c154811'']] None
   | _ \<Rightarrow> ROk)"

definition demo_options :: options where
  "demo_options = \<lparr>op_ExtensionDir = ''/ext'', op_AllowedPaths = [], op_ListenHost = '''',
     op_ListenPort = 0, op_Token = ''t'', op_MemoryLimit = '''', op_TempLimit = '''', op_Threads = 0,
     op_QueryTimeout = 0\<rparr>"

theorem engine_Start_all_or_nothing_witness:
  "case engine_Start demo_env demo_options engine_New [] of
       ((Inl e, en'), h') \<Rightarrow> en' = engine_New \<and> world demo_env h' = idle_world
     | ((Inr uri, en'), h') \<Rightarrow> en_db en' \<and> en_endpoint en' = uri \<and>
         world demo_env h' = \<lparr>w_db = True, w_policy = True, w_conn = True, w_sandbox = True,
           w_serving = Some [AText uri, AText (en_token en')]\<rparr>"
  by (rule engine_Start_all_or_nothing) (simp_all add: engine_New_def)

section \<open>Nothing is served before it is locked down\<close>

fun is_serve :: "call \<Rightarrow> bool" where
  "is_serve (Exec s _) = (s = serve_text)"
| "is_serve c = False"

text \<open>A statement was executed and succeeded.\<close>

definition executed :: "env \<Rightarrow> hist \<Rightarrow> string \<Rightarrow> bool" where
  "executed env h s \<longleftrightarrow>
     (\<exists>before after. h = before @ Exec s [] # after \<and> reply_error (env before (Exec s [])) = None)"

definition hardening :: "options \<Rightarrow> string \<Rightarrow> string list" where
  "hardening opts sandbox = configure_statements opts sandbox @
     [authorization_statement, sources_table, objects_table, metadata_macro, active_queries_macro,
      lock_statement]"

text \<open>Every serve among some calls after \<open>h\<close> meets a condition on the calls before it.\<close>

fun serves_only :: "(hist \<Rightarrow> call \<Rightarrow> bool) \<Rightarrow> hist \<Rightarrow> call list \<Rightarrow> bool" where
  "serves_only P h [] = True"
| "serves_only P h (c # cs) = ((is_serve c \<longrightarrow> P h c) \<and> serves_only P (h @ [c]) cs)"

lemma serves_only_append:
  "serves_only P h (cs @ ds) \<longleftrightarrow> serves_only P h cs \<and> serves_only P (h @ cs) ds"
  by (induction cs arbitrary: h) simp_all

lemma serves_only_none: "list_all (\<lambda>c. \<not> is_serve c) cs \<Longrightarrow> serves_only P h cs"
  by (induction cs arbitrary: h) simp_all

definition progress :: "env \<Rightarrow> hist \<Rightarrow> hist \<Rightarrow> string set \<Rightarrow> bool" where
  "progress env h0 h D \<longleftrightarrow> (\<exists>cs. h = h0 @ cs \<and> list_all (\<lambda>c. \<not> is_serve c) cs) \<and>
     (\<forall>s\<in>D. executed env h s)"

lemma executed_append: "executed env h s \<Longrightarrow> executed env (h @ cs) s"
  unfolding executed_def by (metis append_Cons append_assoc)

lemma executed_snoc: "reply_error (env h (Exec s [])) = None \<Longrightarrow> executed env (h @ [Exec s []]) s"
  unfolding executed_def by blast

lemma progressE:
  assumes "progress env h0 h D"
  obtains cs where "h = h0 @ cs" "list_all (\<lambda>c. \<not> is_serve c) cs"
  using assms unfolding progress_def by blast

lemma progress_append:
  assumes "progress env h0 h D" and "list_all (\<lambda>c. \<not> is_serve c) cs"
  shows "progress env h0 (h @ cs) D"
proof -
  obtain ds where "h = h0 @ ds" "list_all (\<lambda>c. \<not> is_serve c) ds" using assms(1) by (rule progressE)
  then have "h @ cs = h0 @ (ds @ cs)" "list_all (\<lambda>c. \<not> is_serve c) (ds @ cs)" using assms(2) by auto
  moreover have "\<forall>s\<in>D. executed env (h @ cs) s"
    using assms(1) executed_append unfolding progress_def by blast
  ultimately show ?thesis unfolding progress_def by blast
qed

lemma progress_call: "progress env h0 h D \<Longrightarrow> \<not> is_serve c \<Longrightarrow> progress env h0 (h @ [c]) D"
  by (rule progress_append) simp_all

lemma neutral_not_serve: "neutral c \<Longrightarrow> \<not> is_serve c"
  by (cases c) (auto simp: serve_text_def)

lemma progress_quiet:
  assumes "quiet h h'" and "progress env h0 h D"
  shows "progress env h0 h' D"
proof -
  obtain cs where "h' = h @ cs" "list_all neutral cs" using assms(1) unfolding quiet_def by blast
  moreover have "list_all (\<lambda>c. \<not> is_serve c) cs"
    using calculation(2) neutral_not_serve unfolding list_all_iff by blast
  ultimately show ?thesis using progress_append [OF assms(2)] by blast
qed

definition start_serves ::
  "(hist \<Rightarrow> call \<Rightarrow> bool) \<Rightarrow> hist \<Rightarrow> hist \<Rightarrow> bool" where
  "start_serves P h0 h \<longleftrightarrow> (\<exists>cs. h = h0 @ cs \<and> serves_only P h0 cs)"

lemma progress_serves:
  assumes "progress env h0 h D" and "list_all (\<lambda>c. \<not> is_serve c) cs"
  shows "start_serves P h0 (ignore cs h)"
proof -
  from progress_append [OF assms] obtain ds where "h @ cs = h0 @ ds" "list_all (\<lambda>c. \<not> is_serve c) ds"
    by (rule progressE)
  then show ?thesis unfolding start_serves_def ignore_def using serves_only_none by blast
qed

lemma progress_then_serve:
  assumes "progress env h0 h D" and "P h c" and "list_all (\<lambda>c. \<not> is_serve c) cs"
  shows "start_serves P h0 (ignore cs (h @ [c]))"
proof -
  from assms(1) obtain ds where h: "h = h0 @ ds" and ds: "list_all (\<lambda>c. \<not> is_serve c) ds"
    by (rule progressE)
  have "serves_only P h0 (ds @ c # cs)"
    using assms(2,3) h ds by (simp add: serves_only_append serves_only_none)
  moreover have "ignore cs (h @ [c]) = h0 @ (ds @ c # cs)" by (simp add: ignore_def h)
  ultimately show ?thesis unfolding start_serves_def by blast
qed

lemma exec_all_progress:
  assumes "progress env h0 h D" and "list_all (\<lambda>(a, s). s \<noteq> serve_text) xs"
    and "exec_all env xs h = (err, h')"
  shows "progress env h0 h' (if err = None then D \<union> snd ` set xs else D)"
  using assms
proof (induction env xs h arbitrary: D rule: exec_all.induct)
  case (2 env action s rest h)
  have step: "progress env h0 (h @ [Exec s []]) D" using 2 by (intro progress_call) auto
  show ?case
  proof (cases "reply_error (env h (Exec s []))")
    case None
    then have prog: "progress env h0 (h @ [Exec s []]) (insert s D)"
      using step executed_snoc by (simp add: progress_def)
    have rest: "exec_all env rest (h @ [Exec s []]) = (err, h')"
      using 2(4) None by (simp add: exec_all.simps call_or_def)
    have "progress env h0 h' (if err = None then insert s D \<union> snd ` set rest else insert s D)"
      by (rule 2(1) [OF prog _ rest]) (use 2(3) in simp)
    then show ?thesis by (auto simp: progress_def)
  next
    case (Some e)
    then show ?thesis using step 2(4) by (auto simp: exec_all.simps call_or_def)
  qed
qed auto

definition locked_down :: "env \<Rightarrow> options \<Rightarrow> hist \<Rightarrow> call \<Rightarrow> bool" where
  "locked_down env opts h c \<longleftrightarrow> is_loopback_host (listen_host opts) \<and>
     (\<exists>port token. c = serve_call (''quack:'' @ JoinHostPort (listen_host opts) (itoa port)) token) \<and>
     (\<exists>sandbox. \<forall>s\<in>set (hardening opts sandbox). executed env h s)"

lemma not_serve_closing [simp]: "list_all (\<lambda>c. \<not> is_serve c) (close_all s)"
  by (simp add: close_all_def)

lemma progress_abort:
  "progress env h0 h D \<Longrightarrow> start_serves P h0 (snd (start_abort sandbox en e h))"
  by (simp add: start_abort_def progress_serves)

lemma progress_step:
  assumes "progress env h0 h D" and "\<not> is_serve c"
    and "\<And>e h'. progress env h0 h' D \<Longrightarrow> start_serves P h0 (snd (fail e h'))"
    and "\<And>r h'. progress env h0 h' D \<Longrightarrow> start_serves P h0 (snd (ok r h'))"
  shows "start_serves P h0 (snd (call_or env c h fail ok))"
  using assms progress_call [OF assms(1,2)] by (simp split: call_or_split)

lemma progress_case:
  assumes "progress env h0 h D"
    and "\<And>e h'. f h = (e, h') \<Longrightarrow> progress env h0 h' (if e = None then D' else D)"
    and "\<And>e h'. progress env h0 h' D \<Longrightarrow> start_serves P h0 (snd (fail e h'))"
    and "\<And>h'. progress env h0 h' D' \<Longrightarrow> start_serves P h0 (snd (ok h'))"
  shows "start_serves P h0
    (snd (case f h of (Some e, h') \<Rightarrow> fail e h' | (None, h') \<Rightarrow> ok h'))"
proof (cases "f h")
  case (Pair e h')
  with assms(2) [OF Pair] assms(3,4) show ?thesis by (cases e) auto
qed

lemma progress_execs:
  assumes "progress env h0 h D" and "list_all (\<lambda>(a, s). s \<noteq> serve_text) xs"
    and "\<And>e h'. progress env h0 h' D \<Longrightarrow> start_serves P h0 (snd (fail e h'))"
    and "\<And>h'. progress env h0 h' (D \<union> snd ` set xs) \<Longrightarrow> start_serves P h0 (snd (ok h'))"
  shows "start_serves P h0
    (snd (case exec_all env xs h of (Some e, h') \<Rightarrow> fail e h' | (None, h') \<Rightarrow> ok h'))"
  by (rule progress_case [OF assms(1) exec_all_progress [OF assms(1,2)] assms(3,4)])

lemma progress_quiet_case:
  assumes "progress env h0 h D" and "quiet h (snd (f h))"
    and "\<And>e h'. progress env h0 h' D \<Longrightarrow> start_serves P h0 (snd (fail e h'))"
    and "\<And>h'. progress env h0 h' D \<Longrightarrow> start_serves P h0 (snd (ok h'))"
  shows "start_serves P h0
    (snd (case f h of (Some e, h') \<Rightarrow> fail e h' | (None, h') \<Rightarrow> ok h'))"
  by (rule progress_case [where D' = D, OF assms(1) _ assms(3,4)])
    (use progress_quiet [OF assms(2,1)] in simp)

lemma start_listen_serves:
  assumes "progress env h0 h D" and "is_loopback_host (listen_host opts)"
    and "insert authorization_statement (set (configure_statements opts sandbox)) \<subseteq> D"
  shows "start_serves (locked_down env opts) h0 (snd (start_listen env opts sandbox en token port h))"
  unfolding start_listen_def Let_def installMetadataRelation_def lockConfiguration_def
proof (rule progress_step [OF assms(1)], goal_cases)
  case 1
  then show ?case by (simp add: identify_call_def serve_text_def)
next
  case (2 e h')
  then show ?case by (rule progress_abort)
next
  case (3 r h1)
  then show ?case
  proof (rule progress_execs, goal_cases)
    case 1
    then show ?case
      by (simp add: serve_text_def sources_table_def objects_table_def metadata_macro_def
          active_queries_macro_def)
  next
    case (2 e h')
    then show ?case by (rule progress_abort)
  next
    case (3 h2)
    then show ?case
    proof (rule progress_execs, goal_cases)
      case 1
      then show ?case by (simp add: lock_statement_def serve_text_def)
    next
      case (2 e h')
      then show ?case by (rule progress_abort)
    next
      case (3 h3)
      let ?c = "serve_call (''quack:'' @ JoinHostPort (listen_host opts) (itoa port)) token"
      have "set (hardening opts sandbox) \<subseteq> D \<union> snd ` set
          [(''create source registry'', sources_table), (''create object registry'', objects_table),
            (''create metadata relation'', metadata_macro),
            (''create active-query relation'', active_queries_macro)] \<union>
          snd ` set [(lock_action, lock_statement)]"
        using assms(3) by (auto simp: hardening_def)
      then have "\<forall>s\<in>set (hardening opts sandbox). executed env h3 s"
        using 3 unfolding progress_def by blast
      then have "locked_down env opts h3 ?c"
        unfolding locked_down_def using assms(2) by (intro conjI exI) (assumption | rule refl)+
      note serves = progress_then_serve [OF 3, of "locked_down env opts" ?c, OF this]
      show ?case
        using serves [of "close_all sandbox"] serves [of "[]"]
        by (simp add: start_abort_def ignore_def split: call_or_split)
    qed
  qed
qed

lemma start_serving_serves:
  assumes "progress env h0 h (set (configure_statements opts sandbox))"
  shows "start_serves (locked_down env opts) h0 (snd (start_serving env opts sandbox en h))"
proof -
  let ?D = "insert authorization_statement (set (configure_statements opts sandbox))"
  have address: "start_serves (locked_down env opts) h0 (snd (start_address env opts sandbox en token h))"
    if "progress env h0 h ?D" for token h
    unfolding start_address_def Let_def
    using that by (auto intro!: progress_abort progress_step [OF that] start_listen_serves)
  have auth: "\<not> is_serve (Exec authorization_statement [])"
    by (simp add: authorization_statement_def serve_text_def)
  show ?thesis
  proof (cases "reply_error (env h (Exec authorization_statement []))")
    case (Some e)
    then show ?thesis
      using progress_abort [OF progress_call [OF assms auth]]
      by (simp add: start_serving_def call_or_def)
  next
    case None
    then have "progress env h0 (h @ [Exec authorization_statement []]) ?D"
      using progress_call [OF assms auth] executed_snoc by (simp add: progress_def)
    note p = this
    have "start_serves (locked_down env opts) h0 (snd (if op_Token opts = ''''
        then call_or env (RandRead 32) (h @ [Exec authorization_statement []])
          (\<lambda>e. start_abort sandbox en (internal ''generate token'' e))
          (\<lambda>r h. start_address env opts sandbox en (hex_encode (text_reply r)) h)
        else start_address env opts sandbox en (op_Token opts) (h @ [Exec authorization_statement []])))"
      by (auto intro!: progress_step [OF p] progress_abort address p)
    then show ?thesis using None unfolding start_serving_def Let_def by (simp only: call_or_def [of env "Exec _ _"] Let_def option.case)
  qed
qed

text \<open>C7. In whatever way the environment answers, a start calls \<open>quack_serve\<close> only on a loopback
  host, and only after every hardening statement, the authorization function, the metadata relations
  and the configuration lock have been executed and have succeeded.  A failure of any of them leaves
  nothing listening.\<close>

theorem engine_Start_serves_locked_down:
  "\<exists>cs. snd (engine_Start env opts en h) = h @ cs \<and> serves_only (locked_down env opts) h cs"
proof -
  let ?P = "locked_down env opts"
  have start: "progress env h h {}" by (simp add: progress_def)
  have closed: "start_serves ?P h (snd ((Inl e, en), ignore cs h'))"
    if "progress env h h' D" "list_all (\<lambda>c. \<not> is_serve c) cs" for e :: go_error and cs h' D
    using progress_serves [OF that] by simp
  have configured: "progress env h h2 (if e = None then set (configure_statements opts sandbox) else {})"
    if "configure env opts sandbox h1 = (e, h2)" "progress env h h1 {}" for e h1 h2 sandbox
  proof (cases "thread_count opts > 64")
    case False
    have "list_all (\<lambda>(a, s). s \<noteq> serve_text)
        (map (Pair lock_action) (configure_statements opts sandbox))"
      by (simp add: configure_statements_def serve_text_def)
    from exec_all_progress [OF that(2) this, of e h2]
    have "progress env h h2 (if e = None then {} \<union> snd ` Pair lock_action `
        set (configure_statements opts sandbox) else {})"
      using False that(1) unfolding configure_def set_map by simp
    then show ?thesis by (simp only: image_image snd_conv image_ident Un_empty_left)
  qed (use that in \<open>auto simp: configure_def\<close>)
  have "start_serves ?P h (snd (engine_Start env opts en h))"
  proof (cases "en_db en \<or> op_ExtensionDir opts = ''''")
    case True
    then show ?thesis using closed [OF start, of "[]"] by (auto simp: engine_Start_def ignore_def)
  next
    case False
    then have no: "\<not> en_db en" "op_ExtensionDir opts \<noteq> ''''" by auto
    show ?thesis
      unfolding engine_Start_def Let_def if_not_P [OF no(1)] if_not_P [OF no(2)]
      apply (rule progress_step [OF start], simp, rule closed, assumption, simp)
      apply (rule progress_step, assumption, simp, rule closed, assumption, simp)
      apply (rule progress_quiet_case, assumption, rule quiet_load_all, rule closed, assumption, simp)
      apply (rule progress_quiet_case, assumption, rule quiet_verify, rule closed, assumption, simp)
      apply (rule progress_step, assumption, simp, rule closed, assumption, simp)
      apply (rule progress_case, assumption, rule configured, assumption, assumption)
       apply (rule closed, assumption, simp add: close_sandbox_def)
      apply (rule progress_step, assumption, simp, rule closed, assumption, simp add: close_sandbox_def)
      apply (rule progress_step, assumption, simp, rule closed, assumption, simp add: close_sandbox_def)
      apply (rule progress_step, assumption, simp, rule closed, assumption, simp add: close_sandbox_def)
      apply (rule start_serving_serves, assumption)
      done
  qed
  then show ?thesis unfolding start_serves_def .
qed

section \<open>The running engine\<close>

lemma quiet_step:
  assumes "quiet h0 h" and "neutral c"
    and "\<And>e h'. quiet h0 h' \<Longrightarrow> quiet h0 (snd (fail e h'))"
    and "\<And>r h'. quiet h0 h' \<Longrightarrow> quiet h0 (snd (ok r h'))"
  shows "quiet h0 (snd (call_or env c h fail ok))"
  using assms quiet_snoc [OF assms(1,2)] by (simp split: call_or_split)

definition control_statement :: "string \<Rightarrow> bool" where
  "control_statement s = has_prefix ''CALL quack_s'' s"

lemma neutral_Exec: "neutral (Exec s args) \<longleftrightarrow> \<not> control_statement s"
  by (simp add: control_statement_def)

declare neutral.simps(1) [simp del] and neutral_Exec [simp]

lemma control_statements [simp]:
  "\<not> control_statement (detach_statement a)" "\<not> control_statement (drop_secret_statement a)"
  "\<not> control_statement (attach_statement c a t s r)" "\<not> control_statement (upsert_statement c)"
  "\<not> control_statement attached_objects_statement" "\<not> control_statement (schema_statement a n)"
  "\<not> control_statement (odbc_view_statement a n m i q)"
  by (simp_all add: statement_defs control_statement_def)

lemma neutral_calls [simp]: "neutral (odbc_insert x)" "neutral (close_handle i)"
  by (simp_all add: statement_defs close_handle_def control_statement_def)

lemma control_secret: "createSecretStatement n t m = Inr s \<Longrightarrow> \<not> control_statement s"
  by (auto simp: createSecretStatement_def control_statement_def Let_def split: if_splits sum.splits)

lemma quiet_record: "quiet h0 h \<Longrightarrow> quiet h0 (snd (recordSource a s c en h))"
  by (auto simp: recordSource_def Let_def intro: quiet_ignore)

lemma quiet_recorded:
  "quiet h0 h \<Longrightarrow> quiet h0 (snd (case recordSource a s c en h of (en', h') \<Rightarrow> ((x, en'), h')))"
  using quiet_record [of h0 h a s c en] by (simp add: case_prod_beta)

lemma quiet_unavailable: "quiet h0 h \<Longrightarrow> quiet h0 (snd (unavailable a e en h))"
  using quiet_record [of h0 h a "''unavailable''" "Some CodeSourceUnavailable" en]
  by (cases "recordSource a ''unavailable'' (Some CodeSourceUnavailable) en h")
    (simp add: unavailable_def)

lemma quiet_then:
  assumes "quiet h0 (snd x)"
    and "\<And>e h'. quiet h0 h' \<Longrightarrow> quiet h0 (snd (fail e h'))"
    and "\<And>h'. quiet h0 h' \<Longrightarrow> quiet h0 (snd (ok h'))"
  shows "quiet h0 (snd (case x of (Some e, h') \<Rightarrow> fail e h' | (None, h') \<Rightarrow> ok h'))"
  using assms by (auto split: prod.split option.split)

lemma quiet_then_state:
  assumes "quiet h0 (snd x)"
    and "\<And>e en h'. quiet h0 h' \<Longrightarrow> quiet h0 (snd (fail e en h'))"
    and "\<And>en h'. quiet h0 h' \<Longrightarrow> quiet h0 (snd (ok en h'))"
  shows "quiet h0 (snd (case x of ((Some e, en), h') \<Rightarrow> fail e en h' | ((None, en), h') \<Rightarrow> ok en h'))"
  using assms by (auto split: prod.split option.split)

lemma quiet_load: "quiet h0 h \<Longrightarrow> quiet h0 (snd (loadExtension env path h))"
  by (rule quiet_trans [OF _ quiet_loadExtension])

lemma quiet_ensure: "quiet h (snd (ensureConnectorExtension env t en h))"
  unfolding ensureConnectorExtension_def Let_def
  by (auto intro!: quiet_then quiet_load quiet_snoc split: option.split)

lemma quiet_attached_objects:
  "quiet h0 h \<Longrightarrow> quiet h0 (snd (registerAttachedObjectTypes env i a h))"
  unfolding registerAttachedObjectTypes_def by (rule quiet_step) simp_all

lemma quiet_attach_catalog: "quiet h0 h \<Longrightarrow> quiet h0 (snd (attach_catalog env a en h))"
  unfolding attach_catalog_def Let_def
  by (intro quiet_step quiet_then quiet_attached_objects quiet_unavailable)
    (auto intro!: quiet_ignore quiet_snoc quiet_recorded)

lemma quiet_Attach: "quiet h (snd (engine_Attach env a en h))"
  unfolding engine_Attach_def
  by (auto intro!: quiet_then_state quiet_ensure quiet_unavailable quiet_step quiet_attach_catalog
      split: sum.split simp: control_secret)

lemma quiet_if:
  "(b \<Longrightarrow> quiet h0 (snd x)) \<Longrightarrow> (\<not> b \<Longrightarrow> quiet h0 (snd y)) \<Longrightarrow> quiet h0 (snd (if b then x else y))"
  by simp

lemma quiet_insert_objects: "quiet h0 h \<Longrightarrow> quiet h0 (snd (insert_objects env i os h))"
proof (induction os arbitrary: h)
  case Nil
  then show ?case unfolding insert_objects.simps by (rule quiet_step) simp_all
next
  case (Cons x xs)
  show ?case
    unfolding insert_objects.simps
    by (rule quiet_if, simp add: Cons.prems, rule quiet_step, rule Cons.prems, simp, simp, rule Cons.IH)
qed

lemma quiet_rollback:
  "quiet h0 (snd x) \<Longrightarrow> quiet h0 (snd (case x of (err, h) \<Rightarrow> (err, ignore [Rollback] h)))"
  by (auto intro: quiet_ignore split: prod.split)

lemma quiet_registerObjectTypes: "quiet h0 h \<Longrightarrow> quiet h0 (snd (registerObjectTypes env i os h))"
  unfolding registerObjectTypes_def
  apply (rule quiet_step, assumption, simp, simp)
  apply (rule quiet_rollback)
  apply (rule quiet_step, assumption, simp, simp)
  apply (rule quiet_insert_objects, assumption)
  done

lemma quiet_create_views: "quiet h0 h \<Longrightarrow> quiet h0 (snd (create_views env a i os h))"
proof (induction os arbitrary: h)
  case (Cons x xs)
  show ?case
    unfolding create_views.simps
    apply (rule quiet_if, simp add: Cons.prems)
    apply (rule quiet_step, rule Cons.prems, simp, simp)
    apply (rule quiet_step, assumption, simp, simp, rule Cons.IH, assumption)
    done
qed simp

lemma quiet_AttachODBC: "quiet h (snd (engine_AttachODBC env a en h))"
  unfolding engine_AttachODBC_def Let_def
  by (auto intro!: quiet_then_state quiet_then quiet_ensure quiet_step quiet_create_views
      quiet_registerObjectTypes quiet_ignore quiet_snoc split: sum.split
      simp: control_statement_def [of "_ # _"])

lemma quiet_Detach: "quiet h (snd (engine_Detach env alias i en h))"
  unfolding engine_Detach_def Let_def delete_objects_def
  by (auto intro!: quiet_step quiet_ignore split: option.split simp: control_statement_def [of "_ # _"])

lemma quiet_ODBCQuery: "quiet h (snd (engine_ODBCQuery env i c u p q en h))"
  unfolding engine_ODBCQuery_def Let_def
  by (auto intro!: quiet_then_state quiet_ensure quiet_snoc)

section \<open>Invariant\<close>

text \<open>
  A running engine holds everything, and what it serves, if it serves at all, is its own endpoint and
  token; a stopped one holds nothing.  The source map has one entry per id, under that id.
\<close>

definition sources_ok :: "engine \<Rightarrow> bool" where
  "sources_ok en \<longleftrightarrow> wf_map (en_sources en) \<and> (\<forall>k s. map_of (en_sources en) k = Some s \<longrightarrow> ss_ID s = k)"

definition engine_inv :: "env \<Rightarrow> engine \<times> hist \<Rightarrow> bool" where
  "engine_inv env st \<longleftrightarrow> (let (en, h) = st; w = world env h in
     sources_ok en \<and>
     (if en_db en then w_db w \<and> w_policy w \<and> w_conn w \<and> w_sandbox w \<and>
        w_serving w \<in> {None, Some [AText (en_endpoint en), AText (en_token en)]}
      else w = idle_world \<and> en_token en = '''' \<and> en_sources en = []))"

text \<open>The engine's control fields, which no operation but start, stop and rotation changes.\<close>

definition control :: "engine \<Rightarrow> bool \<times> string \<times> string" where
  "control en = (en_db en, en_endpoint en, en_token en)"

definition keeps_control :: "engine \<Rightarrow> engine \<Rightarrow> bool" where
  "keeps_control en en' \<longleftrightarrow> control en' = control en \<and> (sources_ok en \<longrightarrow> sources_ok en')"

lemma keeps_refl [simp]: "keeps_control en en"
  by (simp add: keeps_control_def)

lemma keeps_trans: "keeps_control a b \<Longrightarrow> keeps_control b c \<Longrightarrow> keeps_control a c"
  by (simp add: keeps_control_def)

lemma sources_ok_other [simp]:
  "sources_ok (en\<lparr>en_odbcResolver := r\<rparr>) = sources_ok en"
  "sources_ok (en\<lparr>en_odbcHandles := hs\<rparr>) = sources_ok en"
  "sources_ok (en\<lparr>en_loadedExtensions := l\<rparr>) = sources_ok en"
  "sources_ok (en\<lparr>en_token := t\<rparr>) = sources_ok en"
  by (simp_all add: sources_ok_def)

lemma sources_ok_update [intro]:
  "sources_ok en \<Longrightarrow> ss_ID s = k \<Longrightarrow> sources_ok (en\<lparr>en_sources := AList.update k s (en_sources en)\<rparr>)"
  by (auto simp: sources_ok_def split: if_splits)

lemma sources_ok_delete [intro]:
  "sources_ok en \<Longrightarrow> sources_ok (en\<lparr>en_sources := AList.delete k (en_sources en)\<rparr>)"
  by (auto simp: sources_ok_def split: if_splits)

lemma keeps_ensure: "keeps_control en (snd (fst (ensureConnectorExtension env t en h)))"
  by (auto simp: ensureConnectorExtension_def Let_def keeps_control_def control_def
      split: option.split prod.split)

lemma keeps_record: "keeps_control en (fst (recordSource a s c en h))"
  using sources_ok_update [of en]
  by (simp add: recordSource_def Let_def keeps_control_def control_def)

lemma keeps_unavailable: "keeps_control en (snd (fst (unavailable a e en h)))"
  using keeps_record [of en a "''unavailable''" "Some CodeSourceUnavailable" h]
  by (simp add: unavailable_def case_prod_beta)

lemma keeps_call:
  assumes "\<And>e h'. keeps_control en (snd (fst (fail e h')))"
    and "\<And>r h'. keeps_control en (snd (fst (ok r h')))"
  shows "keeps_control en (snd (fst (call_or env c h fail ok)))"
  using assms by (simp split: call_or_split)

lemma keeps_then:
  assumes "\<And>e h'. keeps_control en (snd (fst (fail e h')))"
    and "\<And>h'. keeps_control en (snd (fst (ok h')))"
  shows "keeps_control en (snd (fst (case x of (Some e, h') \<Rightarrow> fail e h' | (None, h') \<Rightarrow> ok h')))"
  using assms by (simp split: prod.split option.split)

lemma keeps_then_state:
  assumes "keeps_control en (snd (fst x))"
    and "\<And>e en1 h'. keeps_control en en1 \<Longrightarrow> keeps_control en (snd (fst (fail e en1 h')))"
    and "\<And>en1 h'. keeps_control en en1 \<Longrightarrow> keeps_control en (snd (fst (ok en1 h')))"
  shows "keeps_control en
    (snd (fst (case x of ((Some e, en), h') \<Rightarrow> fail e en h' | ((None, en), h') \<Rightarrow> ok en h')))"
  using assms by (auto split: prod.split option.split)

lemma keeps_attach_catalog: "keeps_control en (snd (fst (attach_catalog env a en h)))"
  unfolding attach_catalog_def Let_def
proof (intro keeps_call keeps_then)
  show "keeps_control en (snd (fst (case recordSource a ''ready'' None en h' of (en', h') \<Rightarrow>
      ((None, en'), h'))))" for h'
    using keeps_record by (simp add: case_prod_beta)
qed (simp_all add: keeps_unavailable)

lemma keeps_Attach: "keeps_control en (snd (fst (engine_Attach env a en h)))"
proof -
  have failed: "keeps_control en (snd (fst (unavailable a e en1 h)))" if "keeps_control en en1" for e en1 h
    using keeps_trans [OF that keeps_unavailable] .
  have catalog: "keeps_control en (snd (fst (attach_catalog env a en1 h)))" if "keeps_control en en1" for en1 h
    using keeps_trans [OF that keeps_attach_catalog] .
  show ?thesis
    unfolding engine_Attach_def
    by (auto intro!: keeps_then_state keeps_ensure failed catalog keeps_call split: sum.split)
qed

lemma keeps_AttachODBC: "keeps_control en (snd (fst (engine_AttachODBC env a en h)))"
proof -
  have attached: "keeps_control en (en1\<lparr>en_odbcHandles := hs, en_sources := AList.update (oa_SourceID a)
      \<lparr>ss_ID = oa_SourceID a, ss_Name = n, ss_Type = t, ss_Health = g, ss_ErrorCode = c\<rparr>
      (en_sources en1)\<rparr>)" if "keeps_control en en1" for en1 hs n t g c
    using that sources_ok_update [of "en1\<lparr>en_odbcHandles := hs\<rparr>"]
    by (simp add: keeps_control_def control_def)
  show ?thesis
    unfolding engine_AttachODBC_def Let_def
    by (auto intro!: keeps_then_state keeps_then keeps_ensure keeps_call attached split: sum.split)
qed

lemma keeps_Detach: "keeps_control en (snd (fst (engine_Detach env alias i en h)))"
  unfolding engine_Detach_def Let_def resolver_delete_def
  by (cases "map_of (en_odbcHandles en) i")
    (auto simp: keeps_control_def control_def intro: sources_ok_delete split: call_or_split)

lemma keeps_ODBCQuery: "keeps_control en (snd (fst (engine_ODBCQuery env i c u p q en h)))"
proof -
  have set: "keeps_control en (resolver_set i v en1)" if "keeps_control en en1" for en1 v
    using that by (simp add: keeps_control_def control_def resolver_set_def)
  show ?thesis
  proof (cases "en_db en")
    case True
    then have db: "(\<not> en_db en) = False" by simp
    show ?thesis
      unfolding engine_ODBCQuery_def Let_def db if_False
      by (rule keeps_then_state [OF keeps_ensure]) (simp_all only: fst_conv snd_conv set)
  qed (simp add: engine_ODBCQuery_def)
qed

lemma inv_quiet:
  assumes "engine_inv env (en, h)" and "quiet h h'" and "keeps_control en en'" and "en_db en"
  shows "engine_inv env (en', h')"
  using assms by (simp add: engine_inv_def quiet_world keeps_control_def control_def Let_def)

section \<open>Every history\<close>

text \<open>One operation of the engine, with any arguments.\<close>

inductive engine_step :: "env \<Rightarrow> engine \<times> hist \<Rightarrow> engine \<times> hist \<Rightarrow> bool" for env where
  step_Start: "engine_Start env opts en h = ((r, en'), h') \<Longrightarrow> engine_step env (en, h) (en', h')"
| step_Stop: "engine_Stop env en h = ((r, en'), h') \<Longrightarrow> engine_step env (en, h) (en', h')"
| step_RotateToken: "engine_RotateToken env en h = ((r, en'), h') \<Longrightarrow> engine_step env (en, h) (en', h')"
| step_Reload: "engine_Reload env en h = (r, h') \<Longrightarrow> engine_step env (en, h) (en, h')"
| step_Attach: "engine_Attach env a en h = ((r, en'), h') \<Longrightarrow> engine_step env (en, h) (en', h')"
| step_AttachODBC: "engine_AttachODBC env oa en h = ((r, en'), h') \<Longrightarrow> engine_step env (en, h) (en', h')"
| step_ODBCQuery: "engine_ODBCQuery env i c u p q en h = ((rp, en'), h') \<Longrightarrow> engine_step env (en, h) (en', h')"
| step_ClearODBC: "engine_step env (en, h) (engine_ClearODBC i en, h)"
| step_Detach: "engine_Detach env alias i en h = ((r, en'), h') \<Longrightarrow> engine_step env (en, h) (en', h')"
| step_RegisterObjectTypes:
    "engine_RegisterObjectTypes env i os en h = (r, h') \<Longrightarrow> engine_step env (en, h) (en, h')"
| step_UpdateDatabaseType:
    "engine_UpdateDatabaseType env i t en h = (r, h') \<Longrightarrow> engine_step env (en, h) (en, h')"
| step_Diagnostics: "engine_Diagnostics env en h = (d, h') \<Longrightarrow> engine_step env (en, h) (en, h')"
| step_Query: "engine_Query env q args en h = (rp, h') \<Longrightarrow>
    engine_step env (en, h) (en, h')"

inductive engine_reachable :: "env \<Rightarrow> engine \<times> hist \<Rightarrow> bool" for env where
  reach_New: "engine_reachable env (engine_New, [])"
| reach_step: "engine_reachable env st \<Longrightarrow> engine_step env st st' \<Longrightarrow> engine_reachable env st'"

inductive_cases engine_stepE: "engine_step env st st'"

lemma errors_ignored_world:
  "world env (h @ [c]) = world_step (env h c) c (world env h)"
  by (rule world_snoc)

lemma close_handles_world:
  "world env (snd (close_handles env hs err h)) = world env h"
proof (induction env hs err h rule: close_handles.induct)
  case (2 env k handle rest err h)
  have "world env (h @ [close_handle handle]) = world env h" by (rule world_neutral) simp
  with 2 show ?case by (auto simp: call_error_def split: prod.split)
qed simp

lemma engine_inv_stopped:
  "world env h = idle_world \<Longrightarrow> \<not> en_db en \<Longrightarrow> en_token en = '''' \<Longrightarrow> en_sources en = [] \<Longrightarrow>
   engine_inv env (en, h)"
  by (simp add: engine_inv_def sources_ok_def)

lemma Stop_inv:
  assumes "engine_inv env (en, h)" and "engine_Stop env en h = ((r, en'), h')"
  shows "engine_inv env (en', h') \<and> \<not> en_db en'"
proof (cases "en_db en")
  case True
  let ?h1 = "(h @ [stop_call (en_endpoint en)]) @ [ClosePolicy]"
  let ?h2 = "snd (close_handles env (en_odbcHandles en) None ?h1)"
  have h': "h' = ((?h2 @ [CloseConn]) @ [CloseDB]) @ [RemoveAll (en_sandbox en)]"
    and en': "\<not> en_db en'" "en_token en' = ''''" "en_sources en' = []"
    using assms(2) True by (auto simp: engine_Stop_def call_error_def Let_def split: prod.splits)
  have "world env h' = idle_world"
    unfolding h' by (simp only: world_snoc close_handles_world)
      (simp add: world_step_def Let_def idle_world_def stop_call_def serve_text_def)
  with en' show ?thesis by (simp add: engine_inv_stopped)
next
  case False
  then show ?thesis using assms by (simp add: engine_Stop_def)
qed

lemma Start_inv:
  assumes "engine_inv env (en, h)" and "engine_Start env opts en h = ((r, en'), h')"
  shows "engine_inv env (en', h')"
proof (cases "en_db en")
  case True
  then show ?thesis using assms by (auto simp: engine_Start_def)
next
  case False
  then have idle: "world env h = idle_world" using assms(1) by (simp add: engine_inv_def)
  have out: "start_outcome env en ((r, en'), h')"
    using engine_Start_outcome [OF idle False, of opts] assms(2) by simp
  then show ?thesis using assms(1) False
    by (cases r) (auto simp: start_outcome_def engine_inv_def holding_all_def sources_ok_def)
qed

lemma world_stop:
  "world env (h @ [stop_call e]) = (if reply_error (env h (stop_call e)) = None
     then (world env h)\<lparr>w_serving := None\<rparr> else world env h)"
  by (simp add: world_snoc stop_call_def world_step_def stop_text_def serve_text_def Let_def)

lemma world_rand: "world env (h @ [RandRead n]) = world env h"
  by (rule world_neutral) simp

lemma Rotate_inv:
  assumes "engine_inv env (en, h)" and "engine_RotateToken env en h = ((r, en'), h')"
  shows "engine_inv env (en', h')"
proof (cases "en_db en")
  case True
  then show ?thesis
    using assms
    by (auto simp: engine_RotateToken_def call_or_def Let_def engine_inv_def ignore_def
        world_rand world_stop world_serve [OF refl]
        simp del: append_assoc split: option.splits if_splits)
qed (use assms in \<open>simp add: engine_RotateToken_def\<close>)

lemma inv_quiet_state:
  "engine_inv env (en, h) \<Longrightarrow> quiet h h' \<Longrightarrow> engine_inv env (en, h')"
  by (simp add: engine_inv_def quiet_world)

lemma inv_op:
  assumes "engine_inv env (en, h)" and "f = ((r, en'), h')"
    and "\<not> en_db en \<Longrightarrow> en' = en \<and> h' = h"
    and "quiet h (snd f)" and "keeps_control en (snd (fst f))"
  shows "engine_inv env (en', h')"
  using assms inv_quiet [of env en h h' en'] by (cases "en_db en") auto

lemma engine_step_inv: "engine_step env st st' \<Longrightarrow> engine_inv env st \<Longrightarrow> engine_inv env st'"
proof (induction rule: engine_step.induct)
  case (step_Start opts en h r en' h')
  then show ?case by (blast intro: Start_inv)
next
  case (step_Stop en h r en' h')
  then show ?case using Stop_inv by blast
next
  case (step_RotateToken en h r en' h')
  then show ?case by (blast intro: Rotate_inv)
next
  case (step_Reload en h r h')
  then have "quiet h h'" by (auto simp: engine_Reload_def call_or_def Let_def split: if_splits option.splits)
  then show ?case by (rule inv_quiet_state [OF step_Reload(2)])
next
  case (step_Attach a en h r en' h')
  then show ?case
    by (auto intro!: inv_op [OF step_Attach(2,1)] quiet_Attach keeps_Attach simp: engine_Attach_def)
next
  case (step_AttachODBC oa en h r en' h')
  then show ?case
    by (auto intro!: inv_op [OF step_AttachODBC(2,1)] quiet_AttachODBC keeps_AttachODBC
        simp: engine_AttachODBC_def)
next
  case (step_ODBCQuery i c u p q en h rp en' h')
  then show ?case
    by (auto intro!: inv_op [OF step_ODBCQuery(2,1)] quiet_ODBCQuery keeps_ODBCQuery
        simp: engine_ODBCQuery_def)
next
  case (step_ClearODBC en h i)
  then show ?case
    by (auto simp: engine_inv_def engine_ClearODBC_def resolver_delete_def Let_def split: if_splits)
next
  case (step_Detach al i en h r en' h')
  then show ?case
    by (auto intro!: inv_op [OF step_Detach(2,1)] quiet_Detach keeps_Detach simp: engine_Detach_def)
next
  case (step_RegisterObjectTypes i os en h r h')
  then have "quiet h h'"
    using quiet_registerObjectTypes [of h h env i os]
    by (auto simp: engine_RegisterObjectTypes_def split: if_splits)
  then show ?case by (rule inv_quiet_state [OF step_RegisterObjectTypes(2)])
next
  case (step_UpdateDatabaseType i t en h r h')
  then have "quiet h h'"
    by (auto simp: engine_UpdateDatabaseType_def call_or_def Let_def control_statement_def
        split: if_splits option.splits)
  then show ?case by (rule inv_quiet_state [OF step_UpdateDatabaseType(2)])
next
  case (step_Diagnostics en h d h')
  then have "quiet h h'" by (auto simp: engine_Diagnostics_def Let_def split: if_splits)
  then show ?case by (rule inv_quiet_state [OF step_Diagnostics(2)])
next
  case (step_Query q en args h rp h')
  then have "quiet h h'" by (auto simp: engine_Query_def split: if_splits)
  then show ?case by (rule inv_quiet_state [OF step_Query(2)])
qed

lemma engine_reachable_inv: "engine_reachable env st \<Longrightarrow> engine_inv env st"
  by (induction rule: engine_reachable.induct)
    (simp_all add: engine_inv_stopped engine_New_def engine_step_inv)

text \<open>C8. In every state the engine can reach, by any sequence of operations and whatever the
  environment answers, a running engine holds the database, the policy, the ODBC connection and the
  sandbox, and the only thing it can be serving is its own endpoint with the token \<open>Token\<close> reports; a
  stopped engine has released all of it, serves nothing and keeps no token and no source.\<close>

theorem engine_serves_only_its_token:
  assumes "engine_reachable env (en, h)"
  shows "(en_db en \<longrightarrow> w_db (world env h) \<and> w_policy (world env h) \<and> w_conn (world env h) \<and>
            w_sandbox (world env h) \<and>
            w_serving (world env h) \<in> {None, Some [AText (en_endpoint en), AText (engine_Token en)]}) \<and>
         (\<not> en_db en \<longrightarrow> world env h = idle_world \<and> engine_Token en = '''' \<and> engine_Sources en = [])"
  using engine_reachable_inv [OF assms]
  by (auto simp: engine_inv_def engine_Token_def engine_Sources_def Let_def)

definition demo_started :: "engine \<times> hist" where
  "demo_started = (case engine_Start demo_env demo_options engine_New [] of ((r, en), h) \<Rightarrow> (en, h))"

lemma demo_started_reachable: "engine_reachable demo_env demo_started"
proof -
  obtain r en h where s: "engine_Start demo_env demo_options engine_New [] = ((r, en), h)"
    by (metis prod.exhaust)
  then show ?thesis
    using reach_step [OF reach_New step_Start [OF s]] by (simp add: demo_started_def)
qed

text \<open>The sources an engine reports, in every reachable state, are its entries in the order of
  their ids, one per id.\<close>

theorem engine_Sources_ordered:
  assumes "engine_reachable env (en, h)"
  shows "sorted (map ss_ID (engine_Sources en)) \<and> distinct (map ss_ID (engine_Sources en)) \<and>
         set (engine_Sources en) = ran (map_of (en_sources en)) \<and>
         (\<forall>i s. map_of (en_sources en) i = Some s \<longrightarrow> ss_ID s = i)"
proof -
  have ok: "sources_ok en" using engine_reachable_inv [OF assms] by (simp add: engine_inv_def Let_def)
  have ids: "map (ss_ID \<circ> snd) (en_sources en) = keys (en_sources en)"
    using ok by (auto simp: sources_ok_def keys_def wf_map_mem [symmetric] simp del: wf_map_mem)
  have wf: "wf_map (en_sources en)" using ok unfolding sources_ok_def by blast
  have key: "source_key = ss_ID" by (rule ext) (simp add: source_key_def)
  have "sorted (map ss_ID (engine_Sources en))"
    by (simp add: engine_Sources_def key)
  moreover have "distinct (map ss_ID (map snd (en_sources en)))"
    using ok ids by (simp add: sources_ok_def wf_map_def)
  then have "distinct (map ss_ID (engine_Sources en))"
    by (simp only: engine_Sources_def distinct_map [of ss_ID] set_sort distinct_sort)
  moreover have "set (engine_Sources en) = ran (map_of (en_sources en))"
    using wf ran_distinct [of "en_sources en"]
    by (simp add: engine_Sources_def wf_map_def keys_def)
  ultimately show ?thesis using ok unfolding sources_ok_def by blast
qed

theorem engine_Sources_ordered_witness: "distinct (map ss_ID (engine_Sources (fst demo_started)))"
  using engine_Sources_ordered [of demo_env "fst demo_started" "snd demo_started"]
    demo_started_reachable by simp

text \<open>The demonstration environment never fails, so its start runs to the end.\<close>

lemma demo_no_error [simp]: "reply_error (demo_env h c) = None"
  by (cases c) (auto simp: demo_env_def reply_error_def)

lemma demo_call [simp]: "call_or demo_env c h fail ok = ok (demo_env h c) (h @ [c])"
  by (simp add: call_or_def)

lemma demo_exec_all [simp]: "exec_all demo_env xs h = (None, h @ map (\<lambda>(a, s). Exec s []) xs)"
  by (induction xs arbitrary: h) (auto simp: exec_all.simps)

lemma demo_load [simp]: "fst (load_all demo_env d xs h) = None"
proof (induction xs arbitrary: h)
  case (Cons x xs)
  then show ?case by (simp add: loadExtension_def Let_def demo_env_def [of _ "Stat _"])
qed simp

lemma demo_verify [simp]: "fst (verifyVersionPair demo_env h) = None"
proof -
  have "validateVersionPair ''v1.5.5''
      [(''httpfs'', ''827222f''), (''quack'', ''c154811'')] = None" by code_simp
  then show ?thesis
    by (simp add: verifyVersionPair_def Let_def demo_env_def scan_text_def read_pairs_def)
qed

lemma demo_loopback: "is_loopback_host (listen_host demo_options)"
proof -
  have "ParseIP ''127.0.0.1'' = Some [0, 0, 0, 0, 0, 0xFFFF, 32512, 1]"
    by (simp add: ParseIP_def parse_v4_def v4_octet_def decimal_value_def is_digit_byte_def byte_def)
  then show ?thesis
    by (simp add: is_loopback_host_def listen_host_def demo_options_def or_default_def
        trim_chars_def IsLoopback_def)
qed

lemma demo_started_running: "en_db (fst demo_started)"
proof -
  have serving: "en_db (snd (fst (start_serving demo_env demo_options s en h)))" for s en h
    using demo_loopback
    by (simp add: start_serving_def start_address_def start_listen_def Let_def demo_options_def
        installMetadataRelation_def lockConfiguration_def started_def)
  obtain h1 where load: "load_all demo_env ''/ext'' [''httpfs'', ''quack''] ([OpenDB] @ [Ping]) = (None, h1)"
    using demo_load [of "''/ext''" "[''httpfs'', ''quack'']"] by (metis prod.collapse)
  obtain h2 where verify: "verifyVersionPair demo_env h1 = (None, h2)"
    using demo_verify [of h1] by (metis prod.collapse)
  have conf: "configure demo_env demo_options s h = (None, h @ map (\<lambda>(a, s). Exec s [])
      (map (Pair lock_action) (configure_statements demo_options s)))" for s h
    by (simp add: configure_def thread_count_def demo_options_def)
  have ext: "op_ExtensionDir demo_options = ''/ext''" and new: "\<not> en_db engine_New"
    by (simp_all add: demo_options_def engine_New_def)
  have "en_db (snd (fst (engine_Start demo_env demo_options engine_New [])))"
    using load ext new by (simp add: engine_Start_def verify serving conf Let_def del: load_all.simps)
  then show ?thesis by (simp add: demo_started_def case_prod_beta)
qed

lemma demo_started_serving:
  "w_serving (world demo_env (snd demo_started)) =
     Some [AText (en_endpoint (fst demo_started)), AText (engine_Token (fst demo_started))]"
proof -
  obtain r en h where s: "engine_Start demo_env demo_options engine_New [] = ((r, en), h)"
    by (metis prod.exhaust)
  then have d: "demo_started = (en, h)" by (simp add: demo_started_def)
  have "start_outcome demo_env engine_New ((r, en), h)"
    using engine_Start_outcome [of demo_env "[]" engine_New demo_options] s by (simp add: engine_New_def)
  moreover have "en_db en" using demo_started_running unfolding d fst_conv .
  ultimately show ?thesis
    by (cases r) (simp_all add: d start_outcome_def engine_New_def engine_Token_def)
qed

text \<open>A started engine is a reachable one that runs, and its server serves its token.\<close>

theorem engine_serves_only_its_token_witness:
  "engine_reachable demo_env demo_started \<and> en_db (fst demo_started) \<and>
   w_db (world demo_env (snd demo_started)) \<and> w_policy (world demo_env (snd demo_started)) \<and>
   w_conn (world demo_env (snd demo_started)) \<and> w_sandbox (world demo_env (snd demo_started)) \<and>
   w_serving (world demo_env (snd demo_started)) =
     Some [AText (en_endpoint (fst demo_started)), AText (engine_Token (fst demo_started))]"
  using engine_serves_only_its_token [of demo_env "fst demo_started" "snd demo_started"]
    demo_started_reachable demo_started_running demo_started_serving by simp

text \<open>C9. A rotation that succeeds serves the running endpoint with the new random token, and
  \<open>Token\<close> reports it; one that fails at any step leaves the engine with its old token, and what is
  served afterwards is the endpoint with the old token or nothing.\<close>

theorem engine_RotateToken_effect:
  assumes "engine_reachable env (en, h)" and "en_db en"
    and "engine_RotateToken env en h = ((r, en'), h')"
  shows "case r of
       None \<Rightarrow> engine_Token en' = hex_encode (text_reply (env h (RandRead 32))) \<and>
         w_serving (world env h') = Some [AText (en_endpoint en), AText (engine_Token en')]
     | Some e \<Rightarrow> en' = en \<and>
         w_serving (world env h') \<in> {None, Some [AText (en_endpoint en), AText (engine_Token en)]}"
  using engine_reachable_inv [OF assms(1)] assms(2,3)
  by (auto simp: engine_RotateToken_def call_or_def Let_def engine_inv_def ignore_def
      world_rand world_stop world_serve [OF refl] engine_Token_def
      simp del: append_assoc split: option.splits if_splits)

theorem engine_RotateToken_effect_witness:
  "case engine_RotateToken demo_env (fst demo_started) (snd demo_started) of ((r, en'), h') \<Rightarrow>
     en_db (fst demo_started) \<and>
     (case r of
       None \<Rightarrow> engine_Token en' = hex_encode (text_reply (demo_env (snd demo_started) (RandRead 32))) \<and>
         w_serving (world demo_env h') =
           Some [AText (en_endpoint (fst demo_started)), AText (engine_Token en')]
     | Some e \<Rightarrow> en' = fst demo_started \<and>
         w_serving (world demo_env h') \<in>
           {None, Some [AText (en_endpoint (fst demo_started)), AText (engine_Token (fst demo_started))]})"
proof -
  obtain r en' h' where e:
    "engine_RotateToken demo_env (fst demo_started) (snd demo_started) = ((r, en'), h')"
    by (metis prod.exhaust)
  have "engine_reachable demo_env (fst demo_started, snd demo_started)"
    using demo_started_reachable by simp
  note engine_RotateToken_effect [OF this demo_started_running e]
  with e demo_started_running show ?thesis by simp
qed

section \<open>What an attach leaves behind\<close>

definition recorded :: "attachment \<Rightarrow> string \<Rightarrow> string \<Rightarrow> source_status" where
  "recorded a health code = \<lparr>ss_ID = at_SourceID a, ss_Name = at_SourceName a,
     ss_Type = at_Type a, ss_Health = health, ss_ErrorCode = code\<rparr>"

definition attach_effect ::
  "env \<Rightarrow> attachment \<Rightarrow> engine \<Rightarrow> hist \<Rightarrow> (go_error option \<times> engine) \<times> hist \<Rightarrow> bool" where
  "attach_effect env a en h0 result = (case result of ((r, en'), h') \<Rightarrow>
     (\<forall>i. i \<noteq> at_SourceID a \<longrightarrow> map_of (en_sources en') i = map_of (en_sources en) i) \<and>
     (case r of
        None \<Rightarrow> map_of (en_sources en') (at_SourceID a) = Some (recorded a ''ready'' '''') \<and>
          executed env h' (attach_statement (if at_Secret a \<noteq> [] then '''' else at_Connection a)
            (at_Alias a) (at_Type a) (at_Secret a \<noteq> []) (at_ReadOnly a))
      | Some e \<Rightarrow> map_of (en_sources en') (at_SourceID a) \<in>
          {map_of (en_sources en) (at_SourceID a),
           Some (recorded a ''unavailable'' (code_string CodeSourceUnavailable))}))"

lemma call_or_I:
  assumes "\<And>e. reply_error (env h c) = Some e \<Longrightarrow> Q (fail e (h @ [c]))"
    and "reply_error (env h c) = None \<Longrightarrow> Q (ok (env h c) (h @ [c]))"
  shows "Q (call_or env c h fail ok)"
  using assms by (simp split: call_or_split)

lemma unavailable_effect:
  "\<forall>i. i \<noteq> at_SourceID a \<longrightarrow> map_of (en_sources en1) i = map_of (en_sources en) i \<Longrightarrow>
   attach_effect env a en h0 (unavailable a e en1 h)"
  by (simp add: unavailable_def recordSource_def Let_def attach_effect_def recorded_def)

lemma attach_catalog_effect:
  assumes "en_sources en1 = en_sources en"
  shows "attach_effect env a en h0 (attach_catalog env a en1 h)"
proof -
  let ?s = "attach_statement (if at_Secret a \<noteq> [] then '''' else at_Connection a)
            (at_Alias a) (at_Type a) (at_Secret a \<noteq> []) (at_ReadOnly a)"
  have failed: "attach_effect env a en h0 ((Some e, en1), h')" for e h'
    using assms by (simp add: attach_effect_def)
  have attached: "attach_effect env a en h0 (case recordSource a ''ready'' None en1 h' of
      (en', h') \<Rightarrow> ((None, en'), h'))" if "executed env h' ?s" for h'
    using that assms executed_append
    by (simp add: recordSource_def Let_def attach_effect_def recorded_def ignore_def)
  have registered: "attach_effect env a en h0
      (case registerAttachedObjectTypes env (at_SourceID a) (at_Alias a) h1 of
        (Some e, h) \<Rightarrow> ((Some e, en1), ignore [Exec (detach_statement (at_Alias a)) []] h)
      | (None, h) \<Rightarrow> (case recordSource a ''ready'' None en1 h of (en', h') \<Rightarrow> ((None, en'), h')))"
    if "executed env h1 ?s" for h1
    using executed_append [OF that] failed attached
    by (auto simp: registerAttachedObjectTypes_def call_or_def Let_def split: option.split)
  show ?thesis
    unfolding attach_catalog_def Let_def
    apply (rule call_or_I [where Q = "attach_effect env a en h0"])
     apply (rule unavailable_effect, simp add: assms)
    apply (rule call_or_I [where Q = "attach_effect env a en h0"])
     apply (rule failed)
    apply (rule registered, rule executed_append, erule executed_snoc)
    done
qed

lemma ensure_sources: "en_sources (snd (fst (ensureConnectorExtension env t en h))) = en_sources en"
  by (auto simp: ensureConnectorExtension_def Let_def split: option.split prod.split)

lemma Attach_effect:
  "attach_effect env a en h (engine_Attach env a en h)"
proof (cases "\<not> en_db en \<or> \<not> validIdentifier (at_Alias a) \<or> \<not> validIdentifier (at_Type a)")
  case True
  then show ?thesis by (auto simp: engine_Attach_def attach_effect_def)
next
  case False
  obtain err en1 h1 where e: "ensureConnectorExtension env (at_Type a) en h = ((err, en1), h1)"
    by (metis prod.exhaust)
  have same: "en_sources en1 = en_sources en" using ensure_sources [of env "at_Type a" en h] e by simp
  show ?thesis
    using False e same
    by (auto simp: engine_Attach_def unavailable_effect attach_catalog_effect
        intro!: call_or_I [where Q = "attach_effect env a en h"] split: option.split sum.split)
qed

text \<open>An attach changes the entry of its own source only.  When it returns without an error the
  ATTACH statement of the attachment has been executed, with the secret named and the connection left
  out when there is one, and the source is recorded as ready; when it fails the entry is what it was
  or says unavailable.  What is recorded is the id, the name, the type, the health and the code, and
  never a credential.\<close>

theorem engine_Attach_effect:
  "attach_effect env a en h (engine_Attach env a en h)"
  by (rule Attach_effect)

end
