(* ===== verification/Secrets.thy ===== *)
theory Secrets
  imports Json Gostd
begin

text \<open>
  Package secrets (internal/secrets).  The interface \<open>Store\<close> is a record of its three methods over a
  state \<open>'s\<close>, and its contract the locale \<open>credential_store\<close>: what the contents of a store (\<open>view\<close>)
  are after an operation, for the values it can keep (\<open>storable\<close>).  \<open>exact_store\<close> is the stronger contract of a store whose lookups miss
  nothing.  The implementations are \<open>Memory\<close>, over an explicit heap of byte buffers, since its point
  is which buffers it shares and clears; \<open>Environment\<close>; \<open>lazySystem\<close> over any store; and the Linux
  store over \<open>secret-tool\<close>, whose runs are a parameter: a run that succeeds has done what it was asked for, and
  while the collection is unlocked runs succeed; a failing lookup says nothing of what is stored.
\<close>

record 's credential_ops =
  cs_Get :: "string \<Rightarrow> 's \<Rightarrow> string res \<times> 's"
  cs_Put :: "string \<Rightarrow> string \<Rightarrow> 's \<Rightarrow> go_error option \<times> 's"
  cs_Delete :: "string \<Rightarrow> 's \<Rightarrow> go_error option \<times> 's"

definition value_required :: go_error where
  "value_required = Plain ''credential reference and value are required''"

locale credential_store =
  fixes ops :: "'s credential_ops" and inv :: "'s \<Rightarrow> bool" and view :: "'s \<Rightarrow> string \<Rightarrow> string option"
    and storable :: "string \<Rightarrow> bool"
  assumes get: "inv s \<Longrightarrow> cs_Get ops ref s = (r, s') \<Longrightarrow>
      inv s' \<and> view s' = view s \<and> (\<forall>v. r = Inr v \<longrightarrow> view s ref = Some v)"
    and put: "inv s \<Longrightarrow> storable v \<Longrightarrow> cs_Put ops ref v s = (err, s') \<Longrightarrow>
      inv s' \<and> view s' = (if err = None then (view s)(ref \<mapsto> v) else view s) \<and>
      (err = None \<longrightarrow> ref \<noteq> '''' \<and> v \<noteq> [])"
    and delete: "inv s \<Longrightarrow> cs_Delete ops ref s = (err, s') \<Longrightarrow>
      inv s' \<and> view s' = (if err = None then (view s)(ref := None) else view s)"

locale exact_store = credential_store +
  assumes get_hit: "inv s \<Longrightarrow> view s ref = Some v \<Longrightarrow> fst (cs_Get ops ref s) = Inr v"
    and get_miss: "inv s \<Longrightarrow> view s ref = None \<Longrightarrow> fst (cs_Get ops ref s) = Inl (Sentinel ErrNotFound)"
    and delete_hit: "inv s \<Longrightarrow> view s ref = Some v \<Longrightarrow> fst (cs_Delete ops ref s) = None"

context credential_store
begin

lemma get_ok: "inv s \<Longrightarrow> cs_Get ops ref s = (Inr v, s') \<Longrightarrow> inv s' \<and> view s' = view s \<and> view s ref = Some v"
  using get by blast

lemma put_ok: "inv s \<Longrightarrow> storable v \<Longrightarrow> cs_Put ops ref v s = (None, s') \<Longrightarrow>
    inv s' \<and> view s' = (view s)(ref \<mapsto> v) \<and> ref \<noteq> '''' \<and> v \<noteq> []"
  using put by fastforce

lemma put_failed: "inv s \<Longrightarrow> storable v \<Longrightarrow> cs_Put ops ref v s = (Some e, s') \<Longrightarrow> inv s' \<and> view s' = view s"
  using put by fastforce

lemma delete_ok: "inv s \<Longrightarrow> cs_Delete ops ref s = (None, s') \<Longrightarrow> inv s' \<and> view s' = (view s)(ref := None)"
  using delete by fastforce

lemma delete_failed: "inv s \<Longrightarrow> cs_Delete ops ref s = (Some e, s') \<Longrightarrow> inv s' \<and> view s' = view s"
  using delete by fastforce

end

section \<open>Memory\<close>

text \<open>A heap of byte buffers; an address is an index, and a buffer is never freed.\<close>

type_synonym heap = "string list"

definition alloc :: "string \<Rightarrow> heap \<Rightarrow> nat \<times> heap" where
  "alloc bytes hp = (length hp, hp @ [bytes])"

definition clear_buffer :: "nat \<Rightarrow> heap \<Rightarrow> heap" where
  "clear_buffer a hp = hp[a := replicate (length (hp ! a)) CHR 0x00]"

text \<open>\<open>Memory.values\<close>: the address of the buffer of a reference.\<close>

type_synonym memory = "(string \<times> nat) list"

definition NewMemory :: memory where "NewMemory = []"

text \<open>\<open>Get\<close> returns the address of a fresh copy; \<open>Put\<close> takes the address of the caller's buffer.\<close>

definition Memory_Get :: "string \<Rightarrow> memory \<Rightarrow> heap \<Rightarrow> nat res \<times> heap" where
  "Memory_Get reference m hp = (case map_of m reference of
     None \<Rightarrow> (Inl (Sentinel ErrNotFound), hp)
   | Some a \<Rightarrow> (case alloc (hp ! a) hp of (b, hp') \<Rightarrow> (Inr b, hp')))"

definition Memory_Put :: "string \<Rightarrow> nat \<Rightarrow> memory \<Rightarrow> heap \<Rightarrow> go_error option \<times> memory \<times> heap" where
  "Memory_Put reference src m hp =
     (if reference = '''' \<or> hp ! src = [] then (Some value_required, m, hp)
      else
        (let hp1 = (case map_of m reference of None \<Rightarrow> hp | Some a \<Rightarrow> clear_buffer a hp);
             (b, hp2) = alloc (hp1 ! src) hp1
         in (None, AList.update reference b m, hp2)))"

definition Memory_Delete :: "string \<Rightarrow> memory \<Rightarrow> heap \<Rightarrow> go_error option \<times> memory \<times> heap" where
  "Memory_Delete reference m hp = (case map_of m reference of
     None \<Rightarrow> (Some (Sentinel ErrNotFound), m, hp)
   | Some a \<Rightarrow> (None, AList.delete reference m, clear_buffer a hp))"

text \<open>The abstract store: a map from references to contents.\<close>

definition contents :: "memory \<Rightarrow> heap \<Rightarrow> string \<Rightarrow> string option" where
  "contents m hp reference = map_option ((!) hp) (map_of m reference)"

definition spec_Put :: "string \<Rightarrow> string \<Rightarrow> (string \<rightharpoonup> string) \<Rightarrow> go_error option \<times> (string \<rightharpoonup> string)" where
  "spec_Put reference v s = (if reference = '''' \<or> v = [] then (Some value_required, s)
     else (None, s(reference \<mapsto> v)))"

definition spec_Get :: "string \<Rightarrow> (string \<rightharpoonup> string) \<Rightarrow> string res" where
  "spec_Get reference s = (case s reference of None \<Rightarrow> Inl (Sentinel ErrNotFound) | Some v \<Rightarrow> Inr v)"

definition spec_Delete :: "string \<Rightarrow> (string \<rightharpoonup> string) \<Rightarrow> go_error option \<times> (string \<rightharpoonup> string)" where
  "spec_Delete reference s = (case s reference of None \<Rightarrow> (Some (Sentinel ErrNotFound), s)
     | Some _ \<Rightarrow> (None, s(reference := None)))"

text \<open>
  The store in its surroundings: the buffers \<open>owned\<close> by callers (those they made and those \<open>Get\<close>
  gave them), which they may write at any time.  Every other buffer is the store's: one it uses now,
  or a former one, which holds nothing but zero bytes.
\<close>

definition zeroed :: "string \<Rightarrow> bool" where
  "zeroed bytes \<longleftrightarrow> list_all (\<lambda>c. c = CHR 0x00) bytes"

definition memory_inv :: "memory \<Rightarrow> heap \<Rightarrow> nat set \<Rightarrow> bool" where
  "memory_inv m hp owned \<longleftrightarrow>
     wf_map m \<and> owned \<subseteq> {..<length hp} \<and>
     (\<forall>r a. map_of m r = Some a \<longrightarrow> a < length hp \<and> a \<notin> owned \<and> r \<noteq> '''' \<and> hp ! a \<noteq> []) \<and>
     (\<forall>r r' a. map_of m r = Some a \<longrightarrow> map_of m r' = Some a \<longrightarrow> r = r') \<and>
     (\<forall>a < length hp. a \<notin> owned \<longrightarrow> (\<forall>r. map_of m r \<noteq> Some a) \<longrightarrow> zeroed (hp ! a))"

inductive memory_step ::
  "memory \<times> heap \<times> nat set \<Rightarrow> memory \<times> heap \<times> nat set \<Rightarrow> bool" where
  ms_make: "alloc bytes hp = (a, hp') \<Longrightarrow> memory_step (m, hp, owned) (m, hp', insert a owned)"
| ms_write: "a \<in> owned \<Longrightarrow> memory_step (m, hp, owned) (m, hp[a := bytes], owned)"
| ms_Get: "Memory_Get reference m hp = (r, hp') \<Longrightarrow>
    memory_step (m, hp, owned) (m, hp', case r of Inl _ \<Rightarrow> owned | Inr b \<Rightarrow> insert b owned)"
| ms_Put: "src \<in> owned \<Longrightarrow> Memory_Put reference src m hp = (err, m', hp') \<Longrightarrow>
    memory_step (m, hp, owned) (m', hp', owned)"
| ms_Delete: "Memory_Delete reference m hp = (err, m', hp') \<Longrightarrow>
    memory_step (m, hp, owned) (m', hp', owned)"

inductive memory_reachable :: "memory \<times> heap \<times> nat set \<Rightarrow> bool" where
  mr_New: "memory_reachable (NewMemory, [], {})"
| mr_step: "memory_reachable st \<Longrightarrow> memory_step st st' \<Longrightarrow> memory_reachable st'"

lemma memory_invI:
  assumes "wf_map m" "\<And>a. a \<in> owned \<Longrightarrow> a < length hp"
    "\<And>r a. map_of m r = Some a \<Longrightarrow> a < length hp \<and> a \<notin> owned \<and> r \<noteq> '''' \<and> hp ! a \<noteq> []"
    "\<And>r r' a. map_of m r = Some a \<Longrightarrow> map_of m r' = Some a \<Longrightarrow> r = r'"
    "\<And>a. a < length hp \<Longrightarrow> a \<notin> owned \<Longrightarrow> \<forall>r. map_of m r \<noteq> Some a \<Longrightarrow> zeroed (hp ! a)"
  shows "memory_inv m hp owned"
  unfolding memory_inv_def using assms by blast

lemma memory_invD:
  assumes "memory_inv m hp owned"
  shows "wf_map m" "\<And>a. a \<in> owned \<Longrightarrow> a < length hp"
    "\<And>r a. map_of m r = Some a \<Longrightarrow> a < length hp \<and> a \<notin> owned \<and> r \<noteq> '''' \<and> hp ! a \<noteq> []"
    "\<And>r r' a. map_of m r = Some a \<Longrightarrow> map_of m r' = Some a \<Longrightarrow> r = r'"
    "\<And>a. a < length hp \<Longrightarrow> a \<notin> owned \<Longrightarrow> \<forall>r. map_of m r \<noteq> Some a \<Longrightarrow> zeroed (hp ! a)"
  using assms unfolding memory_inv_def by blast+

lemma zeroed_replicate [simp]: "zeroed (replicate n CHR 0x00)"
  by (simp add: zeroed_def list_all_iff)

lemma clear_buffer_length [simp]: "length (clear_buffer a hp) = length hp"
  by (simp add: clear_buffer_def)

lemma clear_buffer_nth: "a < length hp \<Longrightarrow>
    clear_buffer a hp ! b = (if b = a then replicate (length (hp ! a)) CHR 0x00 else hp ! b)"
  by (simp add: clear_buffer_def nth_list_update)

lemma alloc_inv:
  assumes inv: "memory_inv m hp owned"
  shows "memory_inv m (hp @ [bytes]) (insert (length hp) owned)"
proof (rule memory_invI)
  show "a < length (hp @ [bytes])" if "a \<in> insert (length hp) owned" for a
    using that memory_invD(2) [OF inv, of a] by auto
  show "a < length (hp @ [bytes]) \<and> a \<notin> insert (length hp) owned \<and> r \<noteq> '''' \<and> (hp @ [bytes]) ! a \<noteq> []"
    if "map_of m r = Some a" for r a
    using memory_invD(3) [OF inv that] by (simp add: nth_append)
  show "zeroed ((hp @ [bytes]) ! a)"
    if "a < length (hp @ [bytes])" "a \<notin> insert (length hp) owned" "\<forall>r. map_of m r \<noteq> Some a" for a
    using that memory_invD(5) [OF inv, of a] by (simp add: nth_append)
qed (rule memory_invD [OF inv]; assumption)+

lemma write_inv:
  assumes inv: "memory_inv m hp owned" and a: "a \<in> owned"
  shows "memory_inv m (hp[a := bytes]) owned"
proof (rule memory_invI)
  show "b < length (hp[a := bytes])" if "b \<in> owned" for b
    using memory_invD(2) [OF inv that] by simp
  show "b < length (hp[a := bytes]) \<and> b \<notin> owned \<and> r \<noteq> '''' \<and> hp[a := bytes] ! b \<noteq> []"
    if "map_of m r = Some b" for r b
  proof -
    have "b \<noteq> a" using memory_invD(3) [OF inv that] a by blast
    then show ?thesis using memory_invD(3) [OF inv that] by simp
  qed
  show "zeroed (hp[a := bytes] ! b)"
    if "b < length (hp[a := bytes])" "b \<notin> owned" "\<forall>r. map_of m r \<noteq> Some b" for b
  proof -
    have "b \<noteq> a" using that(2) a by blast
    then show ?thesis using memory_invD(5) [OF inv, of b] that by simp
  qed
qed (rule memory_invD [OF inv]; assumption)+

lemma clear_inv:
  assumes inv: "memory_inv m hp owned" and r: "map_of m reference = Some a"
  shows "memory_inv (AList.delete reference m) (clear_buffer a hp) owned"
proof (rule memory_invI)
  have a: "a < length hp" using memory_invD(3) [OF inv r] by blast
  show "wf_map (AList.delete reference m)" using memory_invD(1) [OF inv] by simp
  show "b < length (clear_buffer a hp)" if "b \<in> owned" for b
    using memory_invD(2) [OF inv that] by simp
  show "b < length (clear_buffer a hp) \<and> b \<notin> owned \<and> r' \<noteq> '''' \<and> clear_buffer a hp ! b \<noteq> []"
    if "map_of (AList.delete reference m) r' = Some b" for r' b
  proof -
    have "map_of m r' = Some b" using that by (simp split: if_splits)
    from memory_invD(3) [OF inv this] a show ?thesis by (auto simp: clear_buffer_nth)
  qed
  show "r1 = r2" if "map_of (AList.delete reference m) r1 = Some b"
    "map_of (AList.delete reference m) r2 = Some b" for r1 r2 b
    using that memory_invD(4) [OF inv, of r1 b r2] by (simp split: if_splits)
  show "zeroed (clear_buffer a hp ! b)"
    if b: "b < length (clear_buffer a hp)" "b \<notin> owned"
      "\<forall>r. map_of (AList.delete reference m) r \<noteq> Some b" for b
  proof (cases "b = a")
    case False
    then have "\<forall>r'. map_of m r' \<noteq> Some b" using b(3) r by (metis alist_lookup_delete fun_upd_apply option.inject)
    with memory_invD(5) [OF inv, of b] b(1,2) False a show ?thesis by (simp add: clear_buffer_nth)
  qed (simp add: clear_buffer_nth a)
qed

lemma store_inv:
  assumes inv: "memory_inv m hp owned" and new: "map_of m reference = None"
    and args: "reference \<noteq> ''''" "bytes \<noteq> []"
  shows "memory_inv (AList.update reference (length hp) m) (hp @ [bytes]) owned"
proof (rule memory_invI)
  show "wf_map (AList.update reference (length hp) m)" using memory_invD(1) [OF inv] by simp
  show "b < length (hp @ [bytes])" if "b \<in> owned" for b
    using memory_invD(2) [OF inv that] by simp
  show "b < length (hp @ [bytes]) \<and> b \<notin> owned \<and> r \<noteq> '''' \<and> (hp @ [bytes]) ! b \<noteq> []"
    if "map_of (AList.update reference (length hp) m) r = Some b" for r b
  proof (cases "r = reference")
    case True
    then show ?thesis using that args memory_invD(2) [OF inv, of "length hp"] by auto
  next
    case False
    then have "map_of m r = Some b" using that by simp
    from memory_invD(3) [OF inv this] show ?thesis by (simp add: nth_append)
  qed
  show "r1 = r2" if "map_of (AList.update reference (length hp) m) r1 = Some b"
    "map_of (AList.update reference (length hp) m) r2 = Some b" for r1 r2 b
    using that memory_invD(4) [OF inv, of r1 b r2] memory_invD(3) [OF inv, of r1 b]
      memory_invD(3) [OF inv, of r2 b] by (auto split: if_splits)
  show "zeroed ((hp @ [bytes]) ! b)"
    if b: "b < length (hp @ [bytes])" "b \<notin> owned"
      "\<forall>r. map_of (AList.update reference (length hp) m) r \<noteq> Some b" for b
  proof -
    have "b \<noteq> length hp" using b(3) by (metis alist_lookup_update fun_upd_same)
    moreover have "\<forall>r. map_of m r \<noteq> Some b"
      using b(3) new by (metis alist_lookup_update fun_upd_other option.distinct(1))
    ultimately show ?thesis using memory_invD(5) [OF inv, of b] b(1,2) by (simp add: nth_append)
  qed
qed

text \<open>Each operation does to the contents what it does to the map, with the same result.\<close>

lemma update_delete: "map_of (AList.update k v (AList.delete k m)) = map_of (AList.update k v m)"
  by simp

lemma memory_inv_cong:
  assumes "memory_inv m hp owned" and "wf_map m'" and "map_of m' = map_of m"
  shows "memory_inv m' hp owned"
  using assms unfolding memory_inv_def by simp

lemma contents_append: "memory_inv m hp owned \<Longrightarrow> contents m (hp @ [bytes]) = contents m hp"
  by (rule ext) (auto simp: contents_def nth_append dest: memory_invD(3) split: option.splits
      intro!: map_option_cong)

lemma Memory_Get_spec:
  assumes inv: "memory_inv m hp owned" and g: "Memory_Get reference m hp = (r, hp')"
  shows "map_sum id ((!) hp') r = spec_Get reference (contents m hp)" and "contents m hp' = contents m hp"
    and "memory_inv m hp' (case r of Inl _ \<Rightarrow> owned | Inr b \<Rightarrow> insert b owned)"
    and "\<And>b. r = Inr b \<Longrightarrow> b \<notin> ran (map_of m)"
proof -
  have fresh: "length hp \<notin> ran (map_of m)" using memory_invD(3) [OF inv] by (auto simp: ran_def)
  show "map_sum id ((!) hp') r = spec_Get reference (contents m hp)" "contents m hp' = contents m hp"
    "memory_inv m hp' (case r of Inl _ \<Rightarrow> owned | Inr b \<Rightarrow> insert b owned)"
    "\<And>b. r = Inr b \<Longrightarrow> b \<notin> ran (map_of m)"
    using g fresh alloc_inv [OF inv] contents_append [OF inv] inv
    by (auto simp: Memory_Get_def alloc_def spec_Get_def contents_def split: option.splits)
qed

lemma Memory_Delete_spec:
  assumes inv: "memory_inv m hp owned" and d: "Memory_Delete reference m hp = (err, m', hp')"
  shows "(err, contents m' hp') = spec_Delete reference (contents m hp)" and "memory_inv m' hp' owned"
proof -
  have "(err, contents m' hp') = spec_Delete reference (contents m hp) \<and> memory_inv m' hp' owned"
  proof (cases "map_of m reference")
    case None
    with d inv show ?thesis by (simp add: Memory_Delete_def spec_Delete_def contents_def)
  next
    case (Some a)
    then have e: "err = None" "m' = AList.delete reference m" "hp' = clear_buffer a hp"
      using d by (simp_all add: Memory_Delete_def)
    have "contents m' hp' r = ((contents m hp)(reference := None)) r" for r
    proof (cases "map_of m r")
      case (Some b)
      then show ?thesis
        using memory_invD(3) [OF inv Some] memory_invD(3) [OF inv \<open>map_of m reference = Some a\<close>]
          memory_invD(4) [OF inv Some, of reference] \<open>map_of m reference = Some a\<close> e
        by (auto simp: contents_def clear_buffer_nth)
    qed (simp add: contents_def e)
    with Some e clear_inv [OF inv Some] show ?thesis
      by (auto simp: spec_Delete_def contents_def)
  qed
  then show "(err, contents m' hp') = spec_Delete reference (contents m hp)" "memory_inv m' hp' owned"
    by blast+
qed

lemma Memory_Put_spec:
  assumes inv: "memory_inv m hp owned" and src: "src \<in> owned"
    and p: "Memory_Put reference src m hp = (err, m', hp')"
  shows "(err, contents m' hp') = spec_Put reference (hp ! src) (contents m hp)"
    and "memory_inv m' hp' owned"
proof -
  have "(err, contents m' hp') = spec_Put reference (hp ! src) (contents m hp) \<and> memory_inv m' hp' owned"
  proof (cases "reference = '''' \<or> hp ! src = []")
    case True
    with p inv show ?thesis by (auto simp: Memory_Put_def spec_Put_def)
  next
    case False
    define hp1 where "hp1 = (case map_of m reference of None \<Rightarrow> hp | Some a \<Rightarrow> clear_buffer a hp)"
    define m1 where "m1 = AList.delete reference m"
    have inv1: "memory_inv m1 hp1 owned"
    proof (cases "map_of m reference")
      case None
      then have "map_of m1 = map_of m" by (simp add: m1_def fun_upd_idem)
      then show ?thesis using None inv memory_invD(1) [OF inv] by (auto simp: hp1_def m1_def intro: memory_inv_cong)
    next
      case (Some a)
      then show ?thesis using clear_inv [OF inv Some] by (simp add: hp1_def m1_def)
    qed
    have src1: "hp1 ! src = hp ! src"
      using memory_invD(3) [OF inv, of reference] src
      by (auto simp: hp1_def clear_buffer_nth split: option.splits)
    have e: "err = None" "m' = AList.update reference (length hp1) m" "hp' = hp1 @ [hp ! src]"
      using p False src1 by (auto simp: Memory_Put_def alloc_def hp1_def [symmetric] Let_def)
    have "memory_inv (AList.update reference (length hp1) m1) hp' owned"
      unfolding e(3) by (rule store_inv [OF inv1]) (use False in \<open>simp_all add: m1_def\<close>)
    then have "memory_inv m' hp' owned"
      by (rule memory_inv_cong) (use memory_invD(1) [OF inv] in \<open>simp_all add: e m1_def\<close>)
    moreover have "contents m' hp' r = ((contents m hp)(reference \<mapsto> hp ! src)) r" for r
    proof (cases "r = reference")
      case True
      then show ?thesis by (simp add: contents_def e)
    next
      case False
      show ?thesis
      proof (cases "map_of m r")
        case None
        then show ?thesis using False by (simp add: contents_def e)
      next
        case (Some b)
        have "hp1 ! b = hp ! b"
          using memory_invD(4) [OF inv Some, of reference] memory_invD(3) [OF inv, of reference] False
          by (auto simp: hp1_def clear_buffer_nth split: option.splits)
        moreover have "b < length hp1"
          using memory_invD(3) [OF inv Some] by (simp add: hp1_def split: option.split)
        ultimately show ?thesis using Some False by (simp add: contents_def e nth_append)
      qed
    qed
    ultimately show ?thesis using False e(1) by (auto simp: spec_Put_def)
  qed
  then show "(err, contents m' hp') = spec_Put reference (hp ! src) (contents m hp)" "memory_inv m' hp' owned"
    by blast+
qed

lemma write_contents:
  assumes "memory_inv m hp owned" and "a \<in> owned"
  shows "contents m (hp[a := bytes]) = contents m hp"
proof
  fix r
  show "contents m (hp[a := bytes]) r = contents m hp r"
  proof (cases "map_of m r")
    case (Some b)
    then have "b \<noteq> a" using memory_invD(3) [OF assms(1), of r] assms(2) by blast
    with Some show ?thesis by (simp add: contents_def)
  qed (simp add: contents_def)
qed

lemma memory_step_inv:
  assumes "memory_step (m, hp, owned) (m', hp', owned')" and "memory_inv m hp owned"
  shows "memory_inv m' hp' owned'"
  using assms(1)
proof cases
  case (ms_make bytes a)
  then show ?thesis using alloc_inv [OF assms(2)] by (auto simp: alloc_def)
next
  case (ms_write a bytes)
  then show ?thesis using write_inv [OF assms(2)] by simp
next
  case (ms_Get reference r)
  then show ?thesis using Memory_Get_spec(3) [OF assms(2)] by simp
next
  case (ms_Put src reference err)
  then show ?thesis using Memory_Put_spec(2) [OF assms(2)] by simp
next
  case (ms_Delete reference err)
  then show ?thesis using Memory_Delete_spec(2) [OF assms(2)] by simp
qed

lemma memory_reachable_inv: "memory_reachable st \<Longrightarrow> case st of (m, hp, owned) \<Rightarrow> memory_inv m hp owned"
proof (induction rule: memory_reachable.induct)
  case mr_New
  show ?case by (simp add: memory_inv_def NewMemory_def)
next
  case (mr_step st st')
  obtain m hp owned m' hp' owned' where "st = (m, hp, owned)" "st' = (m', hp', owned')"
    by (metis prod_cases3)
  with mr_step(2,3) memory_step_inv show ?case by simp
qed

text \<open>C10. In every state the in-memory store can reach, whatever its callers write into the buffers they
  own or were given, each operation does exactly what it does to a map from references to contents,
  with the same result, and a caller's write changes no content: the store shares no buffer.\<close>

theorem Memory_refines_map:
  assumes "memory_reachable (m, hp, owned)"
  shows "(case Memory_Get reference m hp of (r, hp') \<Rightarrow>
            map_sum id ((!) hp') r = spec_Get reference (contents m hp) \<and> contents m hp' = contents m hp) \<and>
         (case Memory_Delete reference m hp of (err, m', hp') \<Rightarrow>
            (err, contents m' hp') = spec_Delete reference (contents m hp)) \<and>
         (\<forall>src\<in>owned. (case Memory_Put reference src m hp of (err, m', hp') \<Rightarrow>
            (err, contents m' hp') = spec_Put reference (hp ! src) (contents m hp))) \<and>
         (\<forall>a\<in>owned. \<forall>bytes. contents m (hp[a := bytes]) = contents m hp)"
proof -
  have inv: "memory_inv m hp owned" using memory_reachable_inv [OF assms] by simp
  show ?thesis
    using Memory_Get_spec [OF inv] Memory_Delete_spec [OF inv] Memory_Put_spec [OF inv]
      write_contents [OF inv] by (auto split: prod.splits)
qed

text \<open>A store holding one credential, whose caller has overwritten its own buffer.\<close>

definition demo_memory :: "memory \<times> heap \<times> nat set" where
  "demo_memory = ([(''db'', 1)], [''xxxx'', ''pass''], {0})"

lemma demo_memory_reachable: "memory_reachable demo_memory"
proof -
  have "memory_reachable ([], [''pass''], {0})"
    using mr_step [OF mr_New, of "(NewMemory, [''pass''], {0})"] ms_make [of "''pass''" "[]" 0 _ NewMemory "{}"]
    by (simp add: alloc_def NewMemory_def)
  then have "memory_reachable ([(''db'', 1)], [''pass'', ''pass''], {0})"
    by (rule mr_step) (rule ms_Put [of 0 _ "''db''" _ _ None], simp_all add: Memory_Put_def alloc_def)
  then have "memory_reachable ([(''db'', 1)], [''pass'', ''pass''][0 := ''xxxx''], {0})"
    by (rule mr_step) (rule ms_write, simp)
  then show ?thesis by (simp add: demo_memory_def)
qed

theorem Memory_refines_map_witness:
  "(case demo_memory of (m, hp, owned) \<Rightarrow> (case Memory_Get ''db'' m hp of (r, hp') \<Rightarrow>
      map_sum id ((!) hp') r = spec_Get ''db'' (contents m hp)))"
  using Memory_refines_map [of "fst demo_memory" "fst (snd demo_memory)" "snd (snd demo_memory)" "''db''"]
    demo_memory_reachable by (simp add: case_prod_beta)

text \<open>C11. No credential outlives its entry: in every reachable state, a buffer that is neither a
  caller's nor the one of a live entry holds zero bytes only, whatever it held before, and no two
  entries and no entry and a caller share a buffer.\<close>

theorem Memory_leaves_no_copy:
  assumes "memory_reachable (m, hp, owned)"
  shows "(\<forall>a < length hp. a \<in> owned \<or> a \<in> ran (map_of m) \<or> zeroed (hp ! a)) \<and>
         inj_on (map_of m) (dom (map_of m)) \<and> ran (map_of m) \<inter> owned = {}"
proof -
  have inv: "memory_inv m hp owned" using memory_reachable_inv [OF assms] by simp
  have "inj_on (map_of m) (dom (map_of m))"
    using memory_invD(4) [OF inv] by (auto simp: inj_on_def dom_def)
  then show ?thesis using memory_invD(3,5) [OF inv] by (fastforce simp: ran_def)
qed

theorem Memory_leaves_no_copy_witness: "ran (map_of (fst demo_memory)) \<inter> snd (snd demo_memory) = {}"
  using Memory_leaves_no_copy [of "fst demo_memory" "fst (snd demo_memory)" "snd (snd demo_memory)"]
    demo_memory_reachable by simp

text \<open>The store as the interface sees it: a value goes in and out through buffers of its callers.\<close>

definition memory_get :: "string \<Rightarrow> memory \<times> heap \<times> nat set \<Rightarrow> string res \<times> (memory \<times> heap \<times> nat set)" where
  "memory_get reference = (\<lambda>(m, hp, owned). case Memory_Get reference m hp of
     (Inl e, hp') \<Rightarrow> (Inl e, (m, hp', owned))
   | (Inr b, hp') \<Rightarrow> (Inr (hp' ! b), (m, hp', insert b owned)))"

definition memory_put ::
  "string \<Rightarrow> string \<Rightarrow> memory \<times> heap \<times> nat set \<Rightarrow> go_error option \<times> (memory \<times> heap \<times> nat set)" where
  "memory_put reference v = (\<lambda>(m, hp, owned). case alloc v hp of (b, hp1) \<Rightarrow>
     (case Memory_Put reference b m hp1 of (err, m', hp') \<Rightarrow> (err, (m', hp', insert b owned))))"

definition memory_delete ::
  "string \<Rightarrow> memory \<times> heap \<times> nat set \<Rightarrow> go_error option \<times> (memory \<times> heap \<times> nat set)" where
  "memory_delete reference = (\<lambda>(m, hp, owned).
     case Memory_Delete reference m hp of (err, m', hp') \<Rightarrow> (err, (m', hp', owned)))"

definition memory_ops :: "(memory \<times> heap \<times> nat set) credential_ops" where
  "memory_ops = \<lparr>cs_Get = memory_get, cs_Put = memory_put, cs_Delete = memory_delete\<rparr>"

definition memory_world_inv :: "memory \<times> heap \<times> nat set \<Rightarrow> bool" where
  "memory_world_inv = (\<lambda>(m, hp, owned). memory_inv m hp owned)"

definition memory_view :: "memory \<times> heap \<times> nat set \<Rightarrow> string \<rightharpoonup> string" where
  "memory_view = (\<lambda>(m, hp, owned). contents m hp)"

lemmas memory_world_defs = memory_ops_def memory_world_inv_def memory_view_def

lemma memory_get_spec:
  assumes "memory_world_inv s" and "memory_get reference s = (r, s')"
  shows "memory_world_inv s' \<and> memory_view s' = memory_view s \<and> r = spec_Get reference (memory_view s)"
proof -
  obtain m hp owned where s: "s = (m, hp, owned)" by (cases s)
  have inv: "memory_inv m hp owned" using assms(1) s by (simp add: memory_world_inv_def)
  obtain q hp' where g: "Memory_Get reference m hp = (q, hp')" by (cases "Memory_Get reference m hp")
  note spec = Memory_Get_spec [OF inv g]
  show ?thesis using assms(2) g s spec
    by (cases q) (auto simp: memory_get_def memory_world_inv_def memory_view_def)
qed

lemma memory_put_spec:
  assumes "memory_world_inv s" and "memory_put reference v s = (err, s')"
  shows "memory_world_inv s' \<and> (err, memory_view s') = spec_Put reference v (memory_view s)"
proof -
  obtain m hp owned where s: "s = (m, hp, owned)" by (cases s)
  have inv: "memory_inv m hp owned" using assms(1) s by (simp add: memory_world_inv_def)
  note inv1 = alloc_inv [OF inv, of v]
  obtain m' hp' where p: "Memory_Put reference (length hp) m (hp @ [v]) = (err, m', hp')"
    "s' = (m', hp', insert (length hp) owned)"
    using assms(2) s by (auto simp: memory_put_def alloc_def split: prod.splits)
  show ?thesis
    using Memory_Put_spec [OF inv1 insertI1 p(1)] p(2) s contents_append [OF inv]
    by (simp add: memory_world_inv_def memory_view_def)
qed

lemma memory_delete_spec:
  assumes "memory_world_inv s" and "memory_delete reference s = (err, s')"
  shows "memory_world_inv s' \<and> (err, memory_view s') = spec_Delete reference (memory_view s)"
proof -
  obtain m hp owned where s: "s = (m, hp, owned)" by (cases s)
  have inv: "memory_inv m hp owned" using assms(1) s by (simp add: memory_world_inv_def)
  obtain m' hp' where d: "Memory_Delete reference m hp = (err, m', hp')" "s' = (m', hp', owned)"
    using assms(2) s by (auto simp: memory_delete_def split: prod.splits)
  show ?thesis using Memory_Delete_spec [OF inv d(1)] d(2) s
    by (simp add: memory_world_inv_def memory_view_def)
qed

interpretation mem: exact_store memory_ops memory_world_inv memory_view "\<lambda>_. True"
proof
  show "memory_world_inv s' \<and> memory_view s' = memory_view s \<and> (\<forall>v. r = Inr v \<longrightarrow> memory_view s ref = Some v)"
    if "memory_world_inv s" "cs_Get memory_ops ref s = (r, s')" for s ref r s'
    using memory_get_spec [of s ref r s'] that by (auto simp: memory_ops_def spec_Get_def split: option.splits)
  show "memory_world_inv s' \<and>
      memory_view s' = (if err = None then (memory_view s)(ref \<mapsto> v) else memory_view s) \<and>
      (err = None \<longrightarrow> ref \<noteq> '''' \<and> v \<noteq> [])"
    if "memory_world_inv s" "cs_Put memory_ops ref v s = (err, s')" for s ref v err s'
    using memory_put_spec [of s ref v err s'] that by (auto simp: memory_ops_def spec_Put_def split: if_splits)
  show "memory_world_inv s' \<and>
      memory_view s' = (if err = None then (memory_view s)(ref := None) else memory_view s)"
    if "memory_world_inv s" "cs_Delete memory_ops ref s = (err, s')" for s ref err s'
    using memory_delete_spec [of s ref err s'] that
    by (auto simp: memory_ops_def spec_Delete_def split: option.splits)
  show "fst (cs_Get memory_ops ref s) = Inr v" if "memory_world_inv s" "memory_view s ref = Some v" for s ref v
    using memory_get_spec [of s ref] that by (cases "memory_get ref s") (auto simp: memory_ops_def spec_Get_def)
  show "fst (cs_Get memory_ops ref s) = Inl (Sentinel ErrNotFound)"
    if "memory_world_inv s" "memory_view s ref = None" for s ref
    using memory_get_spec [of s ref] that by (cases "memory_get ref s") (auto simp: memory_ops_def spec_Get_def)
  show "fst (cs_Delete memory_ops ref s) = None" if "memory_world_inv s" "memory_view s ref = Some v" for s ref v
    using memory_delete_spec [of s ref] that
    by (cases "memory_delete ref s") (auto simp: memory_ops_def spec_Delete_def)
qed

section \<open>Environment\<close>

text \<open>The runes of a text one by one: an ASCII letter or digit is kept, any other rune is one
  underscore (an invalid byte is a rune of its own).\<close>

function key_runes :: "string \<Rightarrow> string" where
  "key_runes [] = []"
| "key_runes (c # cs) =
     (if byte c < 128
      then (if is_upper_byte c \<or> is_digit_byte c then c else CHR ''_'') # key_runes cs
      else CHR ''_'' # key_runes (drop (max 1 (utf8_len (c # cs))) (c # cs)))"
  by pat_completeness auto
termination
  by (relation "measure length") auto

definition environment_key :: "string \<Rightarrow> string \<Rightarrow> string" where
  "environment_key prefix reference =
     (if prefix = '''' then ''QUACKRIDGE_SECRET_'' else prefix) @ key_runes (to_upper reference)"

type_synonym environment = "string \<Rightarrow> string option"

definition environment_get :: "string \<Rightarrow> string \<Rightarrow> environment \<Rightarrow> string res \<times> environment" where
  "environment_get prefix reference s = (case s (environment_key prefix reference) of
     None \<Rightarrow> (Inl (Sentinel ErrNotFound), s)
   | Some v \<Rightarrow> (if v = '''' then Inl (Sentinel ErrNotFound) else Inr v, s))"

definition environment_ops :: "string \<Rightarrow> environment credential_ops" where
  "environment_ops prefix = \<lparr>cs_Get = environment_get prefix,
     cs_Put = (\<lambda>_ _ s. (Some (Sentinel ErrReadOnly), s)),
     cs_Delete = (\<lambda>_ s. (Some (Sentinel ErrReadOnly), s))\<rparr>"

definition environment_view :: "string \<Rightarrow> environment \<Rightarrow> string \<rightharpoonup> string" where
  "environment_view prefix s reference = (case s (environment_key prefix reference) of
     None \<Rightarrow> None | Some v \<Rightarrow> if v = '''' then None else Some v)"

interpretation environment: credential_store "environment_ops prefix" "\<lambda>_. True" "environment_view prefix"
  "\<lambda>_. True" for prefix
  by unfold_locales
    (auto simp: environment_ops_def environment_get_def environment_view_def split: option.splits if_splits)

text \<open>Distinct references can name the same variable.\<close>

lemma environment_key_collision: "environment_key '''' ''prod-db'' = environment_key '''' ''prod_db''"
  by (simp add: environment_key_def to_upper_def upper_byte_def is_lower_byte_def is_upper_byte_def
      is_digit_byte_def byte_def)

section \<open>lazySystem\<close>

text \<open>\<open>initialize\<close> runs \<open>NewSystemStore\<close> once and keeps its outcome, a failure included.\<close>

record 's lazy_system =
  lz_once :: bool
  lz_err :: "go_error option"
  lz_store :: 's

definition lazy_initialize :: "('s \<Rightarrow> go_error option) \<Rightarrow> 's lazy_system \<Rightarrow> 's lazy_system" where
  "lazy_initialize open z =
     (if lz_once z then z else z\<lparr>lz_once := True, lz_err := open (lz_store z)\<rparr>)"

definition lazy_Get where
  "lazy_Get ops open reference z = (let z = lazy_initialize open z in case lz_err z of
     Some e \<Rightarrow> (Inl e, z)
   | None \<Rightarrow> (case cs_Get ops reference (lz_store z) of (r, s) \<Rightarrow> (r, z\<lparr>lz_store := s\<rparr>)))"

definition lazy_Put where
  "lazy_Put ops open reference v z = (let z = lazy_initialize open z in case lz_err z of
     Some e \<Rightarrow> (Some e, z)
   | None \<Rightarrow> (case cs_Put ops reference v (lz_store z) of (err, s) \<Rightarrow> (err, z\<lparr>lz_store := s\<rparr>)))"

definition lazy_Delete where
  "lazy_Delete ops open reference z = (let z = lazy_initialize open z in case lz_err z of
     Some e \<Rightarrow> (Some e, z)
   | None \<Rightarrow> (case cs_Delete ops reference (lz_store z) of (err, s) \<Rightarrow> (err, z\<lparr>lz_store := s\<rparr>)))"

definition lazy_ops :: "'s credential_ops \<Rightarrow> ('s \<Rightarrow> go_error option) \<Rightarrow> 's lazy_system credential_ops" where
  "lazy_ops ops open = \<lparr>cs_Get = lazy_Get ops open, cs_Put = lazy_Put ops open,
     cs_Delete = lazy_Delete ops open\<rparr>"

lemma lazy_initialize_store [simp]: "lz_store (lazy_initialize open z) = lz_store z"
  by (simp add: lazy_initialize_def)

context credential_store
begin

lemma lazy_contract:
  "credential_store (lazy_ops ops open) (\<lambda>z. inv (lz_store z)) (\<lambda>z. view (lz_store z)) storable"
proof
  fix z ref r z'
  assume "inv (lz_store z)" "cs_Get (lazy_ops ops open) ref z = (r, z')"
  then show "inv (lz_store z') \<and> view (lz_store z') = view (lz_store z) \<and>
      (\<forall>v. r = Inr v \<longrightarrow> view (lz_store z) ref = Some v)"
    using get [of "lz_store z" ref]
    by (auto simp: lazy_ops_def lazy_Get_def Let_def split: option.splits prod.splits)
next
  fix z v ref err z'
  assume "inv (lz_store z)" "storable v" "cs_Put (lazy_ops ops open) ref v z = (err, z')"
  then show "inv (lz_store z') \<and>
      view (lz_store z') = (if err = None then (view (lz_store z))(ref \<mapsto> v) else view (lz_store z)) \<and>
      (err = None \<longrightarrow> ref \<noteq> '''' \<and> v \<noteq> [])"
    using put [of "lz_store z" v ref]
    by (auto simp: lazy_ops_def lazy_Put_def Let_def split: option.splits prod.splits)
next
  fix z ref err z'
  assume "inv (lz_store z)" "cs_Delete (lazy_ops ops open) ref z = (err, z')"
  then show "inv (lz_store z') \<and>
      view (lz_store z') = (if err = None then (view (lz_store z))(ref := None) else view (lz_store z))"
    using delete [of "lz_store z" ref]
    by (auto simp: lazy_ops_def lazy_Delete_def Let_def split: option.splits prod.splits)
qed

end

section \<open>The Secret Service store\<close>

text \<open>A run of \<open>secret-tool\<close>: its arguments and standard input, whether it exits with status 0, and
  its standard output.\<close>

type_synonym 's tool = "string list \<Rightarrow> string \<Rightarrow> 's \<Rightarrow> (bool \<times> string) \<times> 's"

definition account :: "string \<Rightarrow> string list" where
  "account reference = [''service'', ''quackridge'', ''account'', reference]"

definition system_Get :: "'s tool \<Rightarrow> string \<Rightarrow> 's \<Rightarrow> string res \<times> 's" where
  "system_Get tool reference s =
     (if reference = '''' then (Inl (Sentinel ErrNotFound), s)
      else case tool (''lookup'' # account reference) '''' s of ((ok, output), s') \<Rightarrow>
        if \<not> ok then (Inl (Sentinel ErrNotFound), s')
        else (let v = trim_suffix [CHR 0x0A] output in
          (if v = [] then Inl (Sentinel ErrNotFound) else Inr v, s')))"

definition system_Put :: "'s tool \<Rightarrow> string \<Rightarrow> string \<Rightarrow> 's \<Rightarrow> go_error option \<times> 's" where
  "system_Put tool reference v s =
     (if reference = '''' \<or> v = [] then (Some value_required, s)
      else case tool (''store'' # ''--label=QuackRidge'' # account reference) v s of ((ok, _), s') \<Rightarrow>
        (if \<not> ok then Some (Plain ''store credential in Secret Service'') else None, s'))"

definition system_Delete :: "'s tool \<Rightarrow> string \<Rightarrow> 's \<Rightarrow> go_error option \<times> 's" where
  "system_Delete tool reference s =
     (if trim_space reference = '''' then (Some (Sentinel ErrNotFound), s)
      else case tool (''clear'' # account reference) '''' s of ((ok, _), s') \<Rightarrow>
        (if \<not> ok then Some (Sentinel ErrNotFound) else None, s'))"

definition system_ops :: "'s tool \<Rightarrow> 's credential_ops" where
  "system_ops tool = \<lparr>cs_Get = system_Get tool, cs_Put = system_Put tool, cs_Delete = system_Delete tool\<rparr>"

text \<open>What \<open>secret-tool\<close> documents.  A run that exits with status 0 has done what it was asked for:
  \<open>lookup\<close> has printed the stored secret and changed nothing, \<open>store\<close> has kept its standard input, for
  the values it accepts, and \<open>clear\<close> has removed the secret.  A failing \<open>lookup\<close> says nothing: the
  collection may be locked, or nobody may answer on the bus.  While the service answers and the
  collection is unlocked, a lookup of a stored secret succeeds, and so do storing a value and clearing a
  secret; a run does not lock the collection.\<close>

definition secret_tool_laws ::
  "'s tool \<Rightarrow> ('s \<Rightarrow> string \<rightharpoonup> string) \<Rightarrow> ('s \<Rightarrow> bool) \<Rightarrow> (string \<Rightarrow> bool) \<Rightarrow> bool" where
  "secret_tool_laws tool stored unlocked accepts \<longleftrightarrow>
     (\<forall>s reference. case tool (''lookup'' # account reference) '''' s of ((ok, output), s') \<Rightarrow>
        stored s' = stored s \<and> (ok \<longrightarrow> stored s reference = Some output) \<and>
        (unlocked s \<longrightarrow> unlocked s' \<and> ok = (stored s reference \<noteq> None))) \<and>
     (\<forall>s reference v. accepts v \<longrightarrow>
        (case tool (''store'' # ''--label=QuackRidge'' # account reference) v s of ((ok, _), s') \<Rightarrow>
          (ok \<longrightarrow> stored s' = (stored s)(reference \<mapsto> v)) \<and> (unlocked s \<longrightarrow> unlocked s' \<and> ok))) \<and>
     (\<forall>s reference. case tool (''clear'' # account reference) '''' s of ((ok, _), s') \<Rightarrow>
        (ok \<longrightarrow> stored s' = (stored s)(reference := None)) \<and>
        (unlocked s \<longrightarrow> unlocked s' \<and> (stored s reference \<noteq> None \<longrightarrow> ok) \<and> (\<not> ok \<longrightarrow> stored s' = stored s)))"

text \<open>The secret of a reference as \<open>Get\<close> reads it: without a final newline.\<close>

definition system_view :: "('s \<Rightarrow> string \<rightharpoonup> string) \<Rightarrow> 's \<Rightarrow> string \<rightharpoonup> string" where
  "system_view stored s reference = (if reference = '''' then None
     else case stored s reference of None \<Rightarrow> None
     | Some v \<Rightarrow> let t = trim_suffix [CHR 0x0A] v in if t = [] then None else Some t)"

definition no_final_newline :: "string \<Rightarrow> bool" where
  "no_final_newline v \<longleftrightarrow> \<not> has_suffix [CHR 0x0A] v"

lemma secret_tool_lookup:
  assumes "secret_tool_laws tool stored unlocked accepts"
    and "tool (''lookup'' # account reference) '''' s = ((ok, out), s')"
  shows "stored s' = stored s" and "ok \<Longrightarrow> stored s reference = Some out"
    and "unlocked s \<Longrightarrow> unlocked s' \<and> ok = (stored s reference \<noteq> None)"
  using assms(1) [unfolded secret_tool_laws_def, THEN conjunct1, rule_format, of s reference] assms(2)
  by auto

lemma secret_tool_store:
  assumes "secret_tool_laws tool stored unlocked accepts" and "accepts v"
    and "tool (''store'' # ''--label=QuackRidge'' # account reference) v s = ((ok, out), s')"
  shows "ok \<Longrightarrow> stored s' = (stored s)(reference \<mapsto> v)" and "unlocked s \<Longrightarrow> unlocked s' \<and> ok"
  using assms(1) [unfolded secret_tool_laws_def, THEN conjunct2, THEN conjunct1, rule_format, OF assms(2), of s reference]
    assms(3) by auto

lemma secret_tool_clear:
  assumes "secret_tool_laws tool stored unlocked accepts"
    and "tool (''clear'' # account reference) '''' s = ((ok, out), s')"
  shows "ok \<Longrightarrow> stored s' = (stored s)(reference := None)"
    and "unlocked s \<Longrightarrow> unlocked s' \<and> (stored s reference \<noteq> None \<longrightarrow> ok) \<and> (\<not> ok \<longrightarrow> stored s' = stored s)"
  using assms(1) [unfolded secret_tool_laws_def, THEN conjunct2, THEN conjunct2, rule_format, of s reference]
    assms(2) by auto

text \<open>The operations, in any state of the service.\<close>

lemma system_Get_sound:
  assumes "secret_tool_laws tool stored unlocked accepts" and "system_Get tool ref s = (r, s')"
  shows "system_view stored s' = system_view stored s"
    and "case r of Inl e \<Rightarrow> e = Sentinel ErrNotFound | Inr v \<Rightarrow> system_view stored s ref = Some v"
proof -
  obtain ok out s1 where t: "tool (''lookup'' # account ref) '''' s = ((ok, out), s1)" by (metis prod.exhaust)
  have "stored s' = stored s"
    using assms(2) t secret_tool_lookup(1) [OF assms(1) t] by (auto simp: system_Get_def Let_def split: if_splits)
  then show "system_view stored s' = system_view stored s" by (simp add: system_view_def fun_eq_iff)
  show "case r of Inl e \<Rightarrow> e = Sentinel ErrNotFound | Inr v \<Rightarrow> system_view stored s ref = Some v"
    using assms(2) t secret_tool_lookup(2) [OF assms(1) t]
    by (auto simp: system_Get_def system_view_def Let_def split: if_splits)
qed

lemma system_Put_sound:
  assumes "secret_tool_laws tool stored unlocked accepts" and "accepts v" and "no_final_newline v"
    and "system_Put tool ref v s = (None, s')"
  shows "system_view stored s' = (system_view stored s)(ref \<mapsto> v)" and "ref \<noteq> ''''" and "v \<noteq> ''''"
proof -
  obtain ok out s1 where t: "tool (''store'' # ''--label=QuackRidge'' # account ref) v s = ((ok, out), s1)"
    by (metis prod.exhaust)
  show "ref \<noteq> ''''" "v \<noteq> ''''" using assms(4) by (auto simp: system_Put_def split: if_splits)
  show "system_view stored s' = (system_view stored s)(ref \<mapsto> v)"
    using assms(3,4) t secret_tool_store(1) [OF assms(1,2) t]
    by (auto simp: system_Put_def system_view_def fun_eq_iff Let_def no_final_newline_def trim_suffix_def
        split: if_splits)
qed

lemma system_Delete_sound:
  assumes "secret_tool_laws tool stored unlocked accepts" and "system_Delete tool ref s = (None, s')"
  shows "system_view stored s' = (system_view stored s)(ref := None)"
proof -
  obtain ok out s1 where t: "tool (''clear'' # account ref) '''' s = ((ok, out), s1)" by (metis prod.exhaust)
  show ?thesis using assms(2) t secret_tool_clear(1) [OF assms(1) t]
    by (auto simp: system_Delete_def system_view_def fun_eq_iff split: if_splits)
qed

text \<open>The operations while the collection is unlocked.\<close>

lemma system_Get_unlocked:
  assumes "secret_tool_laws tool stored unlocked accepts" and "unlocked s"
  shows "unlocked (snd (system_Get tool ref s))"
    and "fst (system_Get tool ref s) = (case system_view stored s ref of
      None \<Rightarrow> Inl (Sentinel ErrNotFound) | Some v \<Rightarrow> Inr v)"
proof -
  obtain ok out s1 where t: "tool (''lookup'' # account ref) '''' s = ((ok, out), s1)" by (metis prod.exhaust)
  note l = secret_tool_lookup(2,3) [OF assms(1) t]
  show "unlocked (snd (system_Get tool ref s))" using t l(2) assms(2) by (simp add: system_Get_def Let_def)
  show "fst (system_Get tool ref s) = (case system_view stored s ref of
      None \<Rightarrow> Inl (Sentinel ErrNotFound) | Some v \<Rightarrow> Inr v)"
    using t l assms(2) by (cases ok) (auto simp: system_Get_def system_view_def Let_def)
qed

lemma system_Put_unlocked:
  assumes "secret_tool_laws tool stored unlocked accepts" and "unlocked s" and "accepts v"
  shows "unlocked (snd (system_Put tool ref v s))"
    and "fst (system_Put tool ref v s) = (if ref = '''' \<or> v = '''' then Some value_required else None)"
    and "ref = '''' \<or> v = '''' \<Longrightarrow> snd (system_Put tool ref v s) = s"
proof -
  obtain ok out s1 where t: "tool (''store'' # ''--label=QuackRidge'' # account ref) v s = ((ok, out), s1)"
    by (metis prod.exhaust)
  show "unlocked (snd (system_Put tool ref v s))"
    "fst (system_Put tool ref v s) = (if ref = '''' \<or> v = '''' then Some value_required else None)"
    "ref = '''' \<or> v = '''' \<Longrightarrow> snd (system_Put tool ref v s) = s"
    using t secret_tool_store(2) [OF assms(1,3) t assms(2)] assms(2) by (auto simp: system_Put_def)
qed

lemma system_Delete_unlocked:
  assumes "secret_tool_laws tool stored unlocked accepts" and "unlocked s"
  shows "unlocked (snd (system_Delete tool ref s))"
    and "fst (system_Delete tool ref s) \<noteq> None \<Longrightarrow> system_view stored (snd (system_Delete tool ref s)) = system_view stored s"
    and "system_view stored s ref \<noteq> None \<Longrightarrow> trim_space ref \<noteq> '''' \<Longrightarrow> fst (system_Delete tool ref s) = None"
proof -
  obtain ok out s1 where t: "tool (''clear'' # account ref) '''' s = ((ok, out), s1)" by (metis prod.exhaust)
  note c = secret_tool_clear(2) [OF assms(1) t assms(2)]
  show "unlocked (snd (system_Delete tool ref s))" using t c assms(2) by (simp add: system_Delete_def)
  show "fst (system_Delete tool ref s) \<noteq> None \<Longrightarrow>
      system_view stored (snd (system_Delete tool ref s)) = system_view stored s"
    using t c by (auto simp: system_Delete_def system_view_def fun_eq_iff)
  show "system_view stored s ref \<noteq> None \<Longrightarrow> trim_space ref \<noteq> '''' \<Longrightarrow> fst (system_Delete tool ref s) = None"
    using t c by (auto simp: system_Delete_def system_view_def split: if_splits option.splits)
qed

text \<open>On an unlocked collection the store is a credential store.\<close>

lemma system_contract:
  assumes tool: "secret_tool_laws tool stored unlocked accepts"
  shows "credential_store (system_ops tool) unlocked (system_view stored) (\<lambda>v. accepts v \<and> no_final_newline v)"
proof
  fix s ref r s'
  assume u: "unlocked s" and "cs_Get (system_ops tool) ref s = (r, s')"
  then have g: "system_Get tool ref s = (r, s')" by (simp add: system_ops_def)
  show "unlocked s' \<and> system_view stored s' = system_view stored s \<and>
      (\<forall>v. r = Inr v \<longrightarrow> system_view stored s ref = Some v)"
    using system_Get_sound [OF tool g] system_Get_unlocked(1) [OF tool u, of ref] g by auto
next
  fix s v ref err s'
  assume u: "unlocked s" and v: "accepts v \<and> no_final_newline v" and "cs_Put (system_ops tool) ref v s = (err, s')"
  then have p: "system_Put tool ref v s = (err, s')" by (simp add: system_ops_def)
  note put = system_Put_unlocked [OF tool u conjunct1 [OF v], of ref, unfolded p fst_conv snd_conv]
  show "unlocked s' \<and> system_view stored s' =
      (if err = None then (system_view stored s)(ref \<mapsto> v) else system_view stored s) \<and>
      (err = None \<longrightarrow> ref \<noteq> '''' \<and> v \<noteq> [])"
  proof (cases err)
    case None
    with p have "system_Put tool ref v s = (None, s')" by simp
    from system_Put_sound [OF tool conjunct1 [OF v] conjunct2 [OF v] this] put(1) None show ?thesis by simp
  next
    case (Some e)
    with put(2) have "ref = '''' \<or> v = ''''" by (simp split: if_splits)
    from put(3) [OF this] put(1) Some show ?thesis by simp
  qed
next
  fix s ref err s'
  assume u: "unlocked s" and "cs_Delete (system_ops tool) ref s = (err, s')"
  then have d: "system_Delete tool ref s = (err, s')" by (simp add: system_ops_def)
  note del = system_Delete_unlocked(1,2) [OF tool u, of ref, unfolded d fst_conv snd_conv]
  show "unlocked s' \<and> system_view stored s' =
      (if err = None then (system_view stored s)(ref := None) else system_view stored s)"
    using del system_Delete_sound [OF tool, of ref s s'] d by (cases err) simp_all
qed





text \<open>On an unlocked collection the lazily opened store is a credential store, too, its client found or not.\<close>

lemma lazy_system_store:
  "secret_tool_laws tool stored unlocked accepts \<Longrightarrow>
   credential_store (lazy_ops (system_ops tool) open) (\<lambda>z. unlocked (lz_store z))
     (\<lambda>z. system_view stored (lz_store z)) (\<lambda>v. accepts v \<and> no_final_newline v)"
  by (rule credential_store.lazy_contract [OF system_contract])













end
