(* ===== verification/Keychains.thy ===== *)
theory Keychains
  imports Secrets
begin

text \<open>
  The system stores of macOS (internal/secrets/system_darwin.go, over the Keychain) and of Windows
  (system_windows.go, over the Credential Manager).  The two services are parameters: what their functions answer and
  how their state changes, with what they document as hypotheses.  What is allocated and freed around a call is left out,
  and so is the clearing of copies, of which nothing remains that could be observed.  Both stores keep one item for
  all references that have the same name in the service, which is stated as it is.
\<close>

section \<open>Statuses and names\<close>

definition errSecSuccess :: int where "errSecSuccess = 0"
definition errSecItemNotFound :: int where "errSecItemNotFound = -25300"

text \<open>A C string ends at its first NUL.\<close>

definition c_string :: "string \<Rightarrow> string" where
  "c_string s = takeWhile (\<lambda>c. c \<noteq> CHR 0x00) s"

section \<open>Keychain\<close>

text \<open>The functions of the Security framework for the one service of the program; an item is a reference that Find returns.\<close>

record 's keychain =
  kc_Find :: "string \<Rightarrow> 's \<Rightarrow> (int \<times> string \<times> nat) \<times> 's"
  kc_Modify :: "nat \<Rightarrow> string \<Rightarrow> 's \<Rightarrow> int \<times> 's"
  kc_Add :: "string \<Rightarrow> string \<Rightarrow> 's \<Rightarrow> int \<times> 's"
  kc_Delete :: "nat \<Rightarrow> 's \<Rightarrow> int \<times> 's"

definition qr_put :: "'s keychain \<Rightarrow> string \<Rightarrow> string \<Rightarrow> 's \<Rightarrow> int \<times> 's" where
  "qr_put kc name data s = (case kc_Find kc name s of ((status, _, item), s) \<Rightarrow>
     if status = errSecSuccess then kc_Modify kc item data s
     else if status \<noteq> errSecItemNotFound then (status, s) else kc_Add kc name data s)"

definition qr_delete :: "'s keychain \<Rightarrow> string \<Rightarrow> 's \<Rightarrow> int \<times> 's" where
  "qr_delete kc name s = (case kc_Find kc name s of ((status, _, item), s) \<Rightarrow>
     if status \<noteq> errSecSuccess then (status, s) else kc_Delete kc item s)"

definition keychain_Get :: "'s keychain \<Rightarrow> string \<Rightarrow> 's \<Rightarrow> string res \<times> 's" where
  "keychain_Get kc reference s =
     (if reference = '''' then (Inl (Sentinel ErrNotFound), s)
      else case kc_Find kc (c_string reference) s of ((status, data, _), s) \<Rightarrow>
        (if status \<noteq> errSecSuccess then Inl (Sentinel ErrNotFound) else Inr data, s))"

text \<open>The length of the data is passed in 32 bits.\<close>

definition keychain_Put :: "'s keychain \<Rightarrow> string \<Rightarrow> string \<Rightarrow> 's \<Rightarrow> go_error option \<times> 's" where
  "keychain_Put kc reference v s =
     (if reference = '''' \<or> v = [] then (Some value_required, s)
      else case qr_put kc (c_string reference) (take (length v mod 2 ^ 32) v) s of (status, s) \<Rightarrow>
        (if status \<noteq> errSecSuccess then Some (Plain ''store credential in Keychain'') else None, s))"

definition keychain_Delete :: "'s keychain \<Rightarrow> string \<Rightarrow> 's \<Rightarrow> go_error option \<times> 's" where
  "keychain_Delete kc reference s =
     (if reference = '''' then (Some (Sentinel ErrNotFound), s)
      else case qr_delete kc (c_string reference) s of (status, s) \<Rightarrow>
        (if status \<noteq> errSecSuccess then Some (Sentinel ErrNotFound) else None, s))"

definition keychain_ops :: "'s keychain \<Rightarrow> 's credential_ops" where
  "keychain_ops kc = \<lparr>cs_Get = keychain_Get kc, cs_Put = keychain_Put kc, cs_Delete = keychain_Delete kc\<rparr>"

text \<open>What the framework documents: finding returns the data of the item of an account and changes nothing; an item that
  was found can be modified and deleted; and a call that does not succeed changes nothing.\<close>

definition keychain_laws :: "'s keychain \<Rightarrow> ('s \<Rightarrow> string \<rightharpoonup> string) \<Rightarrow> bool" where
  "keychain_laws kc stored \<longleftrightarrow>
     (\<forall>name s. case kc_Find kc name s of ((status, data, item), s') \<Rightarrow> stored s' = stored s \<and>
        (if status = errSecSuccess then stored s name = Some data \<and>
           (\<forall>v. case kc_Modify kc item v s' of (st, t) \<Rightarrow>
              stored t = (if st = errSecSuccess then (stored s)(name \<mapsto> v) else stored s)) \<and>
           (case kc_Delete kc item s' of (st, t) \<Rightarrow>
              stored t = (if st = errSecSuccess then (stored s)(name := None) else stored s))
         else status = errSecItemNotFound \<longrightarrow> stored s name = None)) \<and>
     (\<forall>name v s. case kc_Add kc name v s of (st, t) \<Rightarrow>
        stored t = (if st = errSecSuccess then (stored s)(name \<mapsto> v) else stored s))"

section \<open>Credential Manager\<close>

datatype 'a manager_reply = Done 'a | No_such_credential | Manager_error

text \<open>CredReadW, CredWriteW and CredDeleteW for generic credentials, whose targets are compared as \<open>cm_name\<close> says: they
  are UTF-16, and the service does not distinguish all of them.\<close>

record ('n, 's) credential_manager =
  cm_name :: "string \<Rightarrow> 'n"
  cm_Read :: "'n \<Rightarrow> 's \<Rightarrow> string manager_reply \<times> 's"
  cm_Write :: "'n \<Rightarrow> string \<Rightarrow> 's \<Rightarrow> bool \<times> 's"
  cm_Delete :: "'n \<Rightarrow> 's \<Rightarrow> unit manager_reply \<times> 's"

definition credentialTarget :: "('n, 's) credential_manager \<Rightarrow> string \<Rightarrow> 'n res" where
  "credentialTarget cm reference = (if reference = '''' then Inl (Sentinel ErrNotFound)
     else if CHR 0x00 \<in> set reference then Inl (Plain ''invalid argument'') else Inr (cm_name cm (''QuackRidge/'' @ reference)))"

definition manager_Get :: "('n, 's) credential_manager \<Rightarrow> string \<Rightarrow> 's \<Rightarrow> string res \<times> 's" where
  "manager_Get cm reference s = (case credentialTarget cm reference of Inl e \<Rightarrow> (Inl e, s)
   | Inr target \<Rightarrow> (case cm_Read cm target s of
       (No_such_credential, s) \<Rightarrow> (Inl (Sentinel ErrNotFound), s)
     | (Manager_error, s) \<Rightarrow> (Inl (Plain ''read credential from Windows Credential Manager''), s)
     | (Done blob, s) \<Rightarrow> (if blob = [] then Inl (Sentinel ErrNotFound) else Inr blob, s)))"

definition manager_Put :: "('n, 's) credential_manager \<Rightarrow> string \<Rightarrow> string \<Rightarrow> 's \<Rightarrow> go_error option \<times> 's" where
  "manager_Put cm reference v s =
     (if v = [] then (Some value_required, s)
      else case credentialTarget cm reference of Inl e \<Rightarrow> (Some e, s)
      | Inr target \<Rightarrow> (case cm_Write cm target (take (length v mod 2 ^ 32) v) s of (ok, s) \<Rightarrow>
          (if ok then None else Some (Plain ''store credential in Windows Credential Manager''), s)))"

definition manager_Delete :: "('n, 's) credential_manager \<Rightarrow> string \<Rightarrow> 's \<Rightarrow> go_error option \<times> 's" where
  "manager_Delete cm reference s = (case credentialTarget cm reference of Inl e \<Rightarrow> (Some e, s)
   | Inr target \<Rightarrow> (case cm_Delete cm target s of
       (Done _, s) \<Rightarrow> (None, s)
     | (No_such_credential, s) \<Rightarrow> (Some (Sentinel ErrNotFound), s)
     | (Manager_error, s) \<Rightarrow> (Some (Plain ''delete credential from Windows Credential Manager''), s)))"

definition manager_ops :: "('n, 's) credential_manager \<Rightarrow> 's credential_ops" where
  "manager_ops cm = \<lparr>cs_Get = manager_Get cm, cs_Put = manager_Put cm, cs_Delete = manager_Delete cm\<rparr>"

definition manager_laws :: "('n, 's) credential_manager \<Rightarrow> ('s \<Rightarrow> 'n \<rightharpoonup> string) \<Rightarrow> bool" where
  "manager_laws cm stored \<longleftrightarrow>
     (\<forall>name s. case cm_Read cm name s of (reply, s') \<Rightarrow> stored s' = stored s \<and>
        (case reply of Done blob \<Rightarrow> stored s name = Some blob | No_such_credential \<Rightarrow> stored s name = None | Manager_error \<Rightarrow> True)) \<and>
     (\<forall>name v s. case cm_Write cm name v s of (ok, s') \<Rightarrow> stored s' = (if ok then (stored s)(name \<mapsto> v) else stored s)) \<and>
     (\<forall>name s. case cm_Delete cm name s of (reply, s') \<Rightarrow> (case reply of
        Done _ \<Rightarrow> stored s' = (stored s)(name := None)
      | No_such_credential \<Rightarrow> stored s' = stored s \<and> stored s name = None
      | Manager_error \<Rightarrow> stored s' = stored s))"

section \<open>Builds without a store\<close>

definition unsupported_store :: "'s credential_ops res" where
  "unsupported_store = Inl (Plain ''platform credential store is unsupported'')"

definition nocgo_store :: "'s credential_ops res" where
  "nocgo_store = Inl (Plain ''macOS Keychain requires CGO'')"

section \<open>The contract of a store whose references share items\<close>

text \<open>The contract of \<^const>\<open>credential_store\<close> for references that are names of items: two references with the same name are one
  item, and a reference without a name is refused.\<close>

locale named_store =
  fixes ops :: "'s credential_ops" and stored :: "'s \<Rightarrow> 'n \<rightharpoonup> string" and name :: "string \<Rightarrow> 'n option"
  assumes get: "cs_Get ops ref s = (r, s') \<Longrightarrow> stored s' = stored s \<and>
      (\<forall>v. r = Inr v \<longrightarrow> (\<exists>n. name ref = Some n \<and> stored s n = Some v)) \<and> (name ref = None \<longrightarrow> (\<exists>e. r = Inl e) \<and> s' = s)"
    and put: "length v < 2 ^ 32 \<Longrightarrow> cs_Put ops ref v s = (err, s') \<Longrightarrow>
      (case err of Some _ \<Rightarrow> stored s' = stored s
       | None \<Rightarrow> v \<noteq> [] \<and> (\<exists>n. name ref = Some n \<and> stored s' = (stored s)(n \<mapsto> v)))"
    and delete: "cs_Delete ops ref s = (err, s') \<Longrightarrow>
      (case err of Some _ \<Rightarrow> stored s' = stored s | None \<Rightarrow> \<exists>n. name ref = Some n \<and> stored s' = (stored s)(n := None))"

definition view_of :: "('s \<Rightarrow> 'n \<rightharpoonup> string) \<Rightarrow> (string \<Rightarrow> 'n option) \<Rightarrow> 's \<Rightarrow> string \<rightharpoonup> string" where
  "view_of stored name s ref = (case name ref of None \<Rightarrow> None | Some n \<Rightarrow> stored s n)"

lemma view_cong: "stored s' = stored s \<Longrightarrow> view_of stored name s' = view_of stored name s"
  by (rule ext) (simp add: view_of_def split: option.split)

lemma view_upd:
  assumes "name ref = Some n" and "\<forall>r. name r = name ref \<longrightarrow> r = ref" and "stored s' = (stored s)(n := x)"
  shows "view_of stored name s' = (view_of stored name s)(ref := x)"
proof (rule ext)
  fix r
  show "view_of stored name s' r = ((view_of stored name s)(ref := x)) r"
  proof (cases "r = ref")
    case False
    then have "name r \<noteq> Some n" using assms(1,2) by metis
    then show ?thesis using assms(3) False by (cases "name r") (auto simp: view_of_def)
  qed (simp add: view_of_def assms(1,3))
qed

context named_store
begin

text \<open>Where no other reference has the same name, the store is the map of the references.\<close>

lemma get_view:
  assumes "cs_Get ops ref s = (Inr v, s')"
  shows "view_of stored name s ref = Some v" and "view_of stored name s' = view_of stored name s"
proof -
  show "view_of stored name s ref = Some v" using get [OF assms] by (auto simp: view_of_def)
  show "view_of stored name s' = view_of stored name s" using get [OF assms] by (intro view_cong) simp
qed

lemma put_view:
  assumes "cs_Put ops ref v s = (None, s')" and "length v < 2 ^ 32" and "\<forall>r. name r = name ref \<longrightarrow> r = ref"
  shows "view_of stored name s' = (view_of stored name s)(ref \<mapsto> v)"
proof -
  obtain n where "name ref = Some n" "stored s' = (stored s)(n \<mapsto> v)" using put [OF assms(2,1)] by auto
  then show ?thesis using view_upd assms(3) by metis
qed

lemma put_shared:
  assumes "cs_Put ops ref v s = (None, s')" and "length v < 2 ^ 32" and "name other = name ref"
  shows "view_of stored name s' other = Some v"
  using put [OF assms(2,1)] assms(3) by (auto simp: view_of_def)

lemma failed_view:
  "length v < 2 ^ 32 \<Longrightarrow> cs_Put ops ref v s = (Some e, s') \<Longrightarrow> view_of stored name s' = view_of stored name s"
  "cs_Delete ops ref s = (Some e, s') \<Longrightarrow> view_of stored name s' = view_of stored name s"
  using put [of v ref s "Some e" s'] delete [of ref s "Some e" s'] by (auto intro: view_cong)

lemma delete_view:
  assumes "cs_Delete ops ref s = (None, s')" and "\<forall>r. name r = name ref \<longrightarrow> r = ref"
  shows "view_of stored name s' = (view_of stored name s)(ref := None)"
proof -
  obtain n where "name ref = Some n" "stored s' = (stored s)(n := None)" using delete [OF assms(1)] by auto
  then show ?thesis using view_upd assms(2) by metis
qed

end

interpretation environment_names: named_store "environment_ops prefix" "\<lambda>s. s" "\<lambda>reference. Some (environment_key prefix reference)"
  for prefix
  by unfold_locales (auto simp: environment_ops_def environment_get_def split: option.splits if_splits)

section \<open>The two stores keep it\<close>

definition keychain_name :: "string \<Rightarrow> string option" where
  "keychain_name reference = (if reference = '''' then None else Some (c_string reference))"

definition manager_name :: "('n, 's) credential_manager \<Rightarrow> string \<Rightarrow> 'n option" where
  "manager_name cm reference = (case credentialTarget cm reference of Inl _ \<Rightarrow> None | Inr target \<Rightarrow> Some target)"

lemma keychain_find:
  assumes "keychain_laws kc stored" and "kc_Find kc name s = ((status, data, item), s')"
  shows "stored s' = stored s" and "status = errSecSuccess \<Longrightarrow> stored s name = Some data"
    and "status = errSecSuccess \<Longrightarrow> kc_Modify kc item v s' = (st, t) \<Longrightarrow>
      stored t = (if st = errSecSuccess then (stored s)(name \<mapsto> v) else stored s)"
    and "status = errSecSuccess \<Longrightarrow> kc_Delete kc item s' = (st, t) \<Longrightarrow>
      stored t = (if st = errSecSuccess then (stored s)(name := None) else stored s)"
  using conjunct1 [OF assms(1) [unfolded keychain_laws_def], rule_format, of s name] assms(2)
  by (auto split: prod.splits)

lemma keychain_add:
  assumes "keychain_laws kc stored" and "kc_Add kc name v s = (st, t)"
  shows "stored t = (if st = errSecSuccess then (stored s)(name \<mapsto> v) else stored s)"
  using conjunct2 [OF assms(1) [unfolded keychain_laws_def], rule_format, of s name v] assms(2) by simp

lemma keychain_qr_put:
  assumes "keychain_laws kc stored" and "qr_put kc name v s = (st, t)"
  shows "stored t = (if st = errSecSuccess then (stored s)(name \<mapsto> v) else stored s)"
proof -
  obtain status data item s1 where f: "kc_Find kc name s = ((status, data, item), s1)" by (metis prod.exhaust)
  note k = keychain_find [OF assms(1) f]
  show ?thesis using assms(2) f k keychain_add [OF assms(1)] by (auto simp: qr_put_def split: if_splits)
qed

lemma keychain_qr_delete:
  assumes "keychain_laws kc stored" and "qr_delete kc name s = (st, t)"
  shows "stored t = (if st = errSecSuccess then (stored s)(name := None) else stored s)"
proof -
  obtain status data item s1 where f: "kc_Find kc name s = ((status, data, item), s1)" by (metis prod.exhaust)
  note k = keychain_find [OF assms(1) f]
  show ?thesis using assms(2) f k by (auto simp: qr_delete_def split: if_splits)
qed

lemma keychain_named:
  assumes laws: "keychain_laws kc stored"
  shows "named_store (keychain_ops kc) stored keychain_name"
proof unfold_locales
  fix ref r s s'
  assume g: "cs_Get (keychain_ops kc) ref s = (r, s')"
  obtain status data item s1 where f: "kc_Find kc (c_string ref) s = ((status, data, item), s1)" by (metis prod.exhaust)
  show "stored s' = stored s \<and> (\<forall>v. r = Inr v \<longrightarrow> (\<exists>n. keychain_name ref = Some n \<and> stored s n = Some v)) \<and>
      (keychain_name ref = None \<longrightarrow> (\<exists>e. r = Inl e) \<and> s' = s)"
    using g f keychain_find(1,2) [OF laws f] by (auto simp: keychain_ops_def keychain_Get_def keychain_name_def split: if_splits)
next
  fix v ref s err s'
  assume "length (v :: string) < 2 ^ 32" and p: "cs_Put (keychain_ops kc) ref v s = (err, s')"
  then have v: "take (length v mod 2 ^ 32) v = v" by simp
  obtain st t where q: "qr_put kc (c_string ref) v s = (st, t)" by (metis prod.exhaust)
  have "ref \<noteq> '''' \<and> v \<noteq> [] \<or> err = Some value_required \<and> s' = s"
    using p by (auto simp: keychain_ops_def keychain_Put_def split: if_splits)
  then show "case err of Some _ \<Rightarrow> stored s' = stored s
       | None \<Rightarrow> v \<noteq> [] \<and> (\<exists>n. keychain_name ref = Some n \<and> stored s' = (stored s)(n \<mapsto> v))"
  proof
    assume ne: "ref \<noteq> '''' \<and> v \<noteq> []"
    then have "(err, s') = (if st \<noteq> errSecSuccess then Some (Plain ''store credential in Keychain'') else None, t)"
      using p unfolding keychain_ops_def credential_ops.simps keychain_Put_def v q by simp
    then show ?thesis using keychain_qr_put [OF laws q] ne by (auto simp: keychain_name_def split: if_splits)
  qed simp
next
  fix ref s err s'
  assume d: "cs_Delete (keychain_ops kc) ref s = (err, s')"
  obtain st t where q: "qr_delete kc (c_string ref) s = (st, t)" by (metis prod.exhaust)
  show "case err of Some _ \<Rightarrow> stored s' = stored s | None \<Rightarrow> \<exists>n. keychain_name ref = Some n \<and> stored s' = (stored s)(n := None)"
    using d q keychain_qr_delete [OF laws q]
    by (auto simp: keychain_ops_def keychain_Delete_def keychain_name_def split: if_splits option.splits)
qed

lemma manager_answers:
  assumes "manager_laws cm stored"
  shows "cm_Read cm name s = (reply, s') \<Longrightarrow> stored s' = stored s \<and> (\<forall>blob. reply = Done blob \<longrightarrow> stored s name = Some blob)"
    and "cm_Write cm name v s = (ok, s') \<Longrightarrow> stored s' = (if ok then (stored s)(name \<mapsto> v) else stored s)"
    and "cm_Delete cm name s = (gone, s') \<Longrightarrow> stored s' = (if gone = Done () then (stored s)(name := None) else stored s)"
proof -
  note laws = assms [unfolded manager_laws_def]
  show "stored s' = stored s \<and> (\<forall>blob. reply = Done blob \<longrightarrow> stored s name = Some blob)" if "cm_Read cm name s = (reply, s')"
    using conjunct1 [OF laws, rule_format, of s name] that by (cases reply) auto
  show "stored s' = (if ok then (stored s)(name \<mapsto> v) else stored s)" if "cm_Write cm name v s = (ok, s')"
    using conjunct1 [OF conjunct2 [OF laws], rule_format, of s name v] that by simp
  show "stored s' = (if gone = Done () then (stored s)(name := None) else stored s)" if "cm_Delete cm name s = (gone, s')"
    using conjunct2 [OF conjunct2 [OF laws], rule_format, of s name] that by (cases gone) auto
qed

lemma manager_named:
  assumes laws: "manager_laws cm stored"
  shows "named_store (manager_ops cm) stored (manager_name cm)"
proof unfold_locales
  fix ref r s s'
  assume g: "cs_Get (manager_ops cm) ref s = (r, s')"
  show "stored s' = stored s \<and> (\<forall>v. r = Inr v \<longrightarrow> (\<exists>n. manager_name cm ref = Some n \<and> stored s n = Some v)) \<and>
      (manager_name cm ref = None \<longrightarrow> (\<exists>e. r = Inl e) \<and> s' = s)"
  proof (cases "credentialTarget cm ref")
    case (Inr target)
    obtain reply s1 where f: "cm_Read cm target s = (reply, s1)" by fastforce
    show ?thesis using g Inr f manager_answers(1) [OF laws f]
      by (auto simp: manager_ops_def manager_Get_def manager_name_def split: manager_reply.splits if_splits)
  qed (use g in \<open>auto simp: manager_ops_def manager_Get_def manager_name_def\<close>)
next
  fix v ref s err s'
  assume "length (v :: string) < 2 ^ 32" and p: "cs_Put (manager_ops cm) ref v s = (err, s')"
  then have v: "take (length v mod 2 ^ 32) v = v" by simp
  show "case err of Some _ \<Rightarrow> stored s' = stored s
       | None \<Rightarrow> v \<noteq> [] \<and> (\<exists>n. manager_name cm ref = Some n \<and> stored s' = (stored s)(n \<mapsto> v))"
  proof (cases "v = [] \<or> (\<exists>e. credentialTarget cm ref = Inl e)")
    case True
    then have "\<exists>e. err = Some e" "s' = s" using p by (auto simp: manager_ops_def manager_Put_def split: if_splits)
    then show ?thesis by auto
  next
    case False
    then obtain target where t: "credentialTarget cm ref = Inr target" "v \<noteq> []" by (cases "credentialTarget cm ref") auto
    obtain ok s1 where f: "cm_Write cm target v s = (ok, s1)" by fastforce
    have "(err, s') = (if ok then None else Some (Plain ''store credential in Windows Credential Manager''), s1)"
      using p t unfolding manager_ops_def credential_ops.simps manager_Put_def v by (simp add: f)
    then show ?thesis using manager_answers(2) [OF laws f] t by (auto simp: manager_name_def split: if_splits)
  qed
next
  fix ref s err s'
  assume d: "cs_Delete (manager_ops cm) ref s = (err, s')"
  show "case err of Some _ \<Rightarrow> stored s' = stored s | None \<Rightarrow> \<exists>n. manager_name cm ref = Some n \<and> stored s' = (stored s)(n := None)"
  proof (cases "credentialTarget cm ref")
    case (Inr target)
    obtain reply s1 where f: "cm_Delete cm target s = (reply, s1)" by fastforce
    show ?thesis using d Inr f manager_answers(3) [OF laws f]
      by (auto simp: manager_ops_def manager_Delete_def manager_name_def split: manager_reply.splits)
  qed (use d in \<open>auto simp: manager_ops_def manager_Delete_def manager_name_def\<close>)
qed

text \<open>A reference with a NUL shares the item of what comes before it on macOS, and is refused on Windows.\<close>

lemma keychain_name_collision: "keychain_name [CHR ''a'', CHR 0x00, CHR ''b''] = keychain_name ''a''"
  by (simp add: keychain_name_def c_string_def)

text \<open>On a Keychain and a Credential Manager that behave as documented, the system stores of macOS and Windows keep
  the contract of a store of named items: a lookup that succeeds returns what is stored under the name of its reference,
  a put or delete that succeeds changes the item of that name and nothing else, and one that fails changes nothing; a
  reference without a name is refused before the service is asked.\<close>

theorem system_stores_contract:
  assumes "keychain_laws kc stored" and "manager_laws cm held"
  shows "named_store (keychain_ops kc) stored keychain_name \<and> named_store (manager_ops cm) held (manager_name cm)"
  using keychain_named [OF assms(1)] manager_named [OF assms(2)] by simp

text \<open>Services over a map, the manager without regard to case; an item is the place of its account in a table of accounts.\<close>

definition demo_keychain :: "(string list \<times> (string \<rightharpoonup> string)) keychain" where
  "demo_keychain = \<lparr>
     kc_Find = (\<lambda>name (accounts, m). case m name of
        Some data \<Rightarrow> ((errSecSuccess, data, 0), (name # accounts, m)) | None \<Rightarrow> ((errSecItemNotFound, [], 0), (accounts, m))),
     kc_Modify = (\<lambda>_ v (accounts, m). (errSecSuccess, accounts, m(hd accounts \<mapsto> v))),
     kc_Add = (\<lambda>name v (accounts, m). (errSecSuccess, accounts, m(name \<mapsto> v))),
     kc_Delete = (\<lambda>_ (accounts, m). (errSecSuccess, accounts, m(hd accounts := None)))\<rparr>"

lemma demo_keychain_laws: "keychain_laws demo_keychain snd"
  unfolding keychain_laws_def by (auto simp: demo_keychain_def errSecSuccess_def errSecItemNotFound_def split: option.splits prod.splits)

definition demo_manager :: "(string, string \<rightharpoonup> string) credential_manager" where
  "demo_manager = \<lparr>cm_name = to_upper,
     cm_Read = (\<lambda>name m. (case m name of None \<Rightarrow> No_such_credential | Some blob \<Rightarrow> Done blob, m)),
     cm_Write = (\<lambda>name v m. (True, m(name \<mapsto> v))),
     cm_Delete = (\<lambda>name m. case m name of None \<Rightarrow> (No_such_credential, m) | Some _ \<Rightarrow> (Done (), m(name := None)))\<rparr>"

lemma demo_manager_laws: "manager_laws demo_manager id"
  unfolding manager_laws_def by (auto simp: demo_manager_def split: option.splits)

theorem system_stores_contract_witness:
  "named_store (keychain_ops demo_keychain) snd keychain_name \<and>
   named_store (manager_ops demo_manager) id (manager_name demo_manager)"
  by (rule system_stores_contract [OF demo_keychain_laws demo_manager_laws])

end
