(* ===== verification/Jsonenc.thy ===== *)
theory Jsonenc
  imports Json Gostd Policy
begin

text \<open>
  More of encoding/json: the raw text of members (\<open>json.RawMessage\<close>), the decoding of an object into
  struct fields (with \<open>DisallowUnknownFields\<close>), and the encoder with its indentation.  A decoding
  error is one value, whatever its text: the program only wraps it.
\<close>

section \<open>Raw texts\<close>

definition decode_error :: go_error where
  "decode_error = Plain ''json: cannot decode''"

text \<open>The first value of a text with its own bytes.\<close>

definition raw_value :: "string \<Rightarrow> (string \<times> json \<times> string) option" where
  "raw_value s = (case json_decode s of None \<Rightarrow> None
   | Some (v, rest) \<Rightarrow> let t = skip_ws s in Some (take (length t - length rest) t, v, rest))"

text \<open>The members of an object, or the elements of an array, after its bracket or a comma, each with
  its text; the key of an element is empty.  The fuel is the length of the text.\<close>

fun raw_items :: "nat \<Rightarrow> bool \<Rightarrow> string \<Rightarrow> (string \<times> string \<times> json) list option" where
  "raw_items 0 obj s = None"
| "raw_items (Suc n) obj s =
     (let key = (if obj then (case skip_ws s of [] \<Rightarrow> None
            | q # qs \<Rightarrow> (case parse_string (Suc (length qs)) qs of None \<Rightarrow> None
                | Some (k, r) \<Rightarrow> (case skip_ws r of [] \<Rightarrow> None | _ # r' \<Rightarrow> Some (k, r'))))
          else Some ('''', s))
      in case key of None \<Rightarrow> None
       | Some (k, r) \<Rightarrow> (case raw_value r of None \<Rightarrow> None
         | Some (t, v, rest) \<Rightarrow> (case skip_ws rest of [] \<Rightarrow> None
           | c # cs \<Rightarrow>
               if c = CHR '','' then map_option (Cons (k, t, v)) (raw_items n obj cs)
               else Some [(k, t, v)])))"

text \<open>The members of the object, or elements of the array, that a text holds; \<open>None\<close> where the text
  is another value.\<close>

definition raw_members :: "string \<Rightarrow> (string \<times> string \<times> json) list option" where
  "raw_members s = (case raw_value s of
     Some (t, JObj m, _) \<Rightarrow> if skip_ws (tl t) = ''}'' then Some [] else raw_items (length t) True (tl t)
   | _ \<Rightarrow> None)"

definition raw_elements :: "string \<Rightarrow> (string \<times> json) list option" where
  "raw_elements s = (case raw_value s of
     Some (t, JArr xs, _) \<Rightarrow>
       if xs = [] then Some [] else map_option (map snd) (raw_items (length t) False (tl t))
   | _ \<Rightarrow> None)"

section \<open>Structs\<close>

text \<open>A member belongs to the field of its exact name, else to the one whose name it folds to.\<close>

function fold_text :: "string \<Rightarrow> string" where
  "fold_text s = (case read_fold s of Some (c, r) \<Rightarrow> c # fold_text r | None \<Rightarrow> [])"
  by pat_completeness auto
termination
  by (relation "measure length") (auto dest: read_fold_length)

declare fold_text.simps [simp del]

definition field_of :: "string list \<Rightarrow> string \<Rightarrow> string option" where
  "field_of names key = (if List.member names key then Some key
     else List.find (\<lambda>f. fold_text f = fold_text key) names)"

text \<open>
  A struct is filled from its members in order by the setters of its fields; a setter fails on a
  value of the wrong type, and an unknown field is an error.  A decoder that meets an error goes on,
  but its caller drops the value, so the first error ends the fold.
\<close>

fun fill :: "(string \<times> (string \<Rightarrow> json \<Rightarrow> 'a \<Rightarrow> 'a res)) list \<Rightarrow> (string \<times> string \<times> json) list \<Rightarrow>
    'a \<Rightarrow> 'a res" where
  "fill setters [] x = Inr x"
| "fill setters ((key, raw, v) # rest) x = (case field_of (map fst setters) key of
     None \<Rightarrow> Inl decode_error
   | Some f \<Rightarrow> (case map_of setters f of None \<Rightarrow> Inl decode_error
       | Some assign \<Rightarrow> (case assign raw v x of Inl e \<Rightarrow> Inl e | Inr y \<Rightarrow> fill setters rest y)))"

definition set_string :: "(string \<Rightarrow> 'a \<Rightarrow> 'a) \<Rightarrow> string \<Rightarrow> json \<Rightarrow> 'a \<Rightarrow> 'a res" where
  "set_string upd raw v x = (case v of JStr s \<Rightarrow> Inr (upd s x) | JNull \<Rightarrow> Inr x | _ \<Rightarrow> Inl decode_error)"

definition set_bool :: "(bool \<Rightarrow> 'a \<Rightarrow> 'a) \<Rightarrow> string \<Rightarrow> json \<Rightarrow> 'a \<Rightarrow> 'a res" where
  "set_bool upd raw v x = (case v of JBool b \<Rightarrow> Inr (upd b x) | JNull \<Rightarrow> Inr x | _ \<Rightarrow> Inl decode_error)"

text \<open>A number fits a Go int when its literal is an integer of 64 bits.\<close>

definition int_literal :: "string \<Rightarrow> int option" where
  "int_literal s = (let neg = has_prefix ''-'' s; d = (if neg then tl s else s);
       v = (if neg then - int (decimal_value d) else int (decimal_value d))
     in if d \<noteq> [] \<and> list_all is_digit_byte d \<and> - (2 ^ 63) \<le> v \<and> v < 2 ^ 63 then Some v else None)"

definition set_int :: "(int \<Rightarrow> 'a \<Rightarrow> 'a) \<Rightarrow> string \<Rightarrow> json \<Rightarrow> 'a \<Rightarrow> 'a res" where
  "set_int upd raw v x = (case v of
     JNum s \<Rightarrow> (case int_literal s of Some i \<Rightarrow> Inr (upd i x) | None \<Rightarrow> Inl decode_error)
   | JNull \<Rightarrow> Inr x | _ \<Rightarrow> Inl decode_error)"

definition set_raw :: "(string \<Rightarrow> 'a \<Rightarrow> 'a) \<Rightarrow> string \<Rightarrow> json \<Rightarrow> 'a \<Rightarrow> 'a res" where
  "set_raw upd raw v x = Inr (upd raw x)"

text \<open>A map of strings; a null element is the empty string, a null map leaves the field alone.\<close>

fun string_members :: "(string \<times> json) list \<Rightarrow> (string \<times> string) list \<Rightarrow> (string \<times> string) list res" where
  "string_members [] acc = Inr acc"
| "string_members ((k, JStr s) # rest) acc = string_members rest (AList.update k s acc)"
| "string_members ((k, JNull) # rest) acc = string_members rest (AList.update k '''' acc)"
| "string_members (_ # rest) acc = Inl decode_error"

definition set_string_map :: "((string \<times> string) list \<Rightarrow> 'a \<Rightarrow> 'a) \<Rightarrow> string \<Rightarrow> json \<Rightarrow> 'a \<Rightarrow> 'a res" where
  "set_string_map upd raw v x = (case v of
     JObj m \<Rightarrow> (case string_members m [] of Inl e \<Rightarrow> Inl e | Inr y \<Rightarrow> Inr (upd y x))
   | JNull \<Rightarrow> Inr x | _ \<Rightarrow> Inl decode_error)"

text \<open>The first value of a text into a struct; null leaves the zero value.\<close>

definition decode_struct ::
  "(string \<times> (string \<Rightarrow> json \<Rightarrow> 'a \<Rightarrow> 'a res)) list \<Rightarrow> 'a \<Rightarrow> string \<Rightarrow> 'a res" where
  "decode_struct setters zero s = (case raw_value s of
     None \<Rightarrow> Inl decode_error
   | Some (t, v, _) \<Rightarrow> (case v of
       JNull \<Rightarrow> Inr zero
     | JObj _ \<Rightarrow> (case raw_members s of None \<Rightarrow> Inl decode_error | Some ms \<Rightarrow> fill setters ms zero)
     | _ \<Rightarrow> Inl decode_error))"

text \<open>\<open>json.Unmarshal\<close>: the whole text is one value, and unknown members are ignored.\<close>

definition decode_lenient ::
  "(string \<times> (string \<Rightarrow> json \<Rightarrow> 'a \<Rightarrow> 'a res)) list \<Rightarrow> 'a \<Rightarrow> string \<Rightarrow> 'a res" where
  "decode_lenient setters zero s = (case json_unmarshal s of
     None \<Rightarrow> Inl decode_error
   | Some v \<Rightarrow> (case v of
       JNull \<Rightarrow> Inr zero
     | JObj _ \<Rightarrow> (case raw_members s of None \<Rightarrow> Inl decode_error
         | Some ms \<Rightarrow> fill setters (filter (\<lambda>(k, _). field_of (map fst setters) k \<noteq> None) ms) zero)
     | _ \<Rightarrow> Inl decode_error))"

section \<open>The encoder\<close>

definition hex_byte :: "nat \<Rightarrow> string" where
  "hex_byte n = [hex_digit (n div 16), hex_digit (n mod 16)]"

definition backslash :: string where "backslash = [CHR 0x5C]"

text \<open>A string literal with the HTML escapes; an invalid byte becomes U+FFFD.\<close>

definition escape_ascii :: "char \<Rightarrow> string" where
  "escape_ascii c =
     (if c = CHR 0x22 \<or> c = CHR 0x5C then backslash @ [c]
      else if byte c = 8 then backslash @ ''b'' else if byte c = 12 then backslash @ ''f''
      else if byte c = 10 then backslash @ ''n'' else if byte c = 13 then backslash @ ''r''
      else if byte c = 9 then backslash @ ''t''
      else if byte c < 32 \<or> c = CHR ''<'' \<or> c = CHR ''>'' \<or> c = CHR ''&''
      then backslash @ ''u00'' @ hex_byte (byte c) else [c])"

definition escape_rune :: "string \<Rightarrow> string" where
  "escape_rune r =
     (if r = map char_of [0xE2::nat, 0x80, 0xA8] then backslash @ ''u2028''
      else if r = map char_of [0xE2::nat, 0x80, 0xA9] then backslash @ ''u2029'' else r)"

fun encode_chars :: "nat \<Rightarrow> string \<Rightarrow> string" where
  "encode_chars 0 s = []"
| "encode_chars (Suc n) [] = []"
| "encode_chars (Suc n) (c # cs) =
     (if byte c < 128 then escape_ascii c @ encode_chars n cs
      else let k = utf8_len (c # cs) in
        if k = 0 then backslash @ ''ufffd'' @ encode_chars n cs
        else escape_rune (take k (c # cs)) @ encode_chars n (drop k (c # cs)))"

definition encode_string :: "string \<Rightarrow> string" where
  "encode_string s = [CHR 0x22] @ encode_chars (length s) s @ [CHR 0x22]"

text \<open>\<open>appendCompact\<close> of a valid text: white space outside strings dropped, the HTML escapes made.  The
  first argument says whether the position is inside a string, the second whether after a
  backslash.\<close>

definition line_separators :: "string list" where
  "line_separators = [map char_of [0xE2::nat, 0x80, 0xA8], map char_of [0xE2::nat, 0x80, 0xA9]]"

function compact :: "bool \<Rightarrow> bool \<Rightarrow> string \<Rightarrow> string" where
  "compact str esc [] = []"
| "compact str esc (c # cs) =
     (if \<not> str \<and> json_ws c then compact str False cs
      else if List.member line_separators (take 3 (c # cs))
      then escape_rune (take 3 (c # cs)) @ compact str False (drop 2 cs)
      else
        (if c = CHR ''<'' \<or> c = CHR ''>'' \<or> c = CHR ''&'' then backslash @ ''u00'' @ hex_byte (byte c)
         else [c]) @
        compact (if str then \<not> (c = CHR 0x22 \<and> \<not> esc) else c = CHR 0x22)
          (str \<and> c = CHR 0x5C \<and> \<not> esc) cs)"
  by pat_completeness auto
termination
  by (relation "measure (\<lambda>(str, esc, s). length s)") auto

definition newline :: "nat \<Rightarrow> string" where
  "newline depth = CHR 0x0A # concat (replicate depth ''  '')"

text \<open>\<open>appendIndent\<close> with the indentation of two spaces, of a compact text.\<close>

fun indent :: "bool \<Rightarrow> bool \<Rightarrow> bool \<Rightarrow> nat \<Rightarrow> string \<Rightarrow> string" where
  "indent str esc need depth [] = []"
| "indent str esc need depth (c # cs) =
     (if str then c # indent (\<not> (c = CHR 0x22 \<and> \<not> esc)) (c = CHR 0x5C \<and> \<not> esc) False depth cs
      else if c = CHR ''}'' \<or> c = CHR '']'' then
        (if need then c # indent False False False depth cs
         else newline (depth - 1) @ c # indent False False False (depth - 1) cs)
      else
        (let before = (if need then newline (Suc depth) else []);
             d = (if need then Suc depth else depth)
         in before @
            (if c = CHR ''{'' \<or> c = CHR ''['' then c # indent False False True d cs
             else if c = CHR '','' then c # newline d @ indent False False False d cs
             else if c = CHR '':'' then c # CHR '' '' # indent False False False d cs
             else c # indent (c = CHR 0x22) False False d cs)))"

definition indent_json :: "string \<Rightarrow> string" where
  "indent_json s = indent False False False 0 s"

end
