(* ===== verification/Config.thy ===== *)
theory Config
  imports Source Jsonenc Secrets
begin

text \<open>
  Package config (internal/config).  A document is validated before it is saved and after it is
  loaded.  Saving goes through the file system: \<open>disk\<close> holds the files with, for each, whether its
  contents have been synced, and a log of every state the disk has been in, newest first, which is
  where a crash can leave it.  An \<open>fs_oracle\<close> decides, for each system call by its number, whether it
  fails (and how much of a write was made) and which suffix \<open>os.CreateTemp\<close> picks.  Closing and opening
  a directory are calls too.  The whole of \<open>os.Rename\<close> is one step, as POSIX has it.

  The configuration service is a client of the \<open>credential_store\<close> contract: its lemmas are proved for
  every store that keeps it.
\<close>

definition CurrentVersion :: int where "CurrentVersion = 1"

record config_source =
  cf_ID :: string
  cf_Name :: string
  cf_Alias :: string
  cf_Type :: string
  cf_DatabaseType :: string
  cf_Enabled :: bool
  cf_CredentialRef :: string
  cf_Options :: string

record document =
  doc_Version :: int
  doc_Sources :: "config_source list option"

definition sources_of :: "document \<Rightarrow> config_source list" where
  "sources_of d = (case doc_Sources d of None \<Rightarrow> [] | Some xs \<Rightarrow> xs)"

text \<open>\<open>Clone\<close> copies the slice and the options; a nil slice becomes an empty one.\<close>

definition Clone :: "document \<Rightarrow> document" where
  "Clone d = d\<lparr>doc_Sources := Some (sources_of d)\<rparr>"

section \<open>Validation\<close>

definition secret_fields :: "string list" where
  "secret_fields = [''password'', ''passwd'', ''secret'', ''token'', ''connection_string'', ''uri'']"

definition secret_field :: "string \<Rightarrow> bool" where
  "secret_field key = List.member secret_fields (to_lower (replace_all CHR ''-'' ''_'' key))"

fun containsSecretField :: "json \<Rightarrow> bool" where
  "containsSecretField (JObj m) = list_ex (\<lambda>(k, child). secret_field k \<or> containsSecretField child) m"
| "containsSecretField (JArr xs) = list_ex containsSecretField xs"
| "containsSecretField _ = False"

definition validateOptions :: "string \<Rightarrow> go_error option" where
  "validateOptions raw =
     (if raw = [] then Some (Plain ''options are required'')
      else case json_decode raw of
        None \<Rightarrow> Some (Wrap ''invalid JSON'' decode_error)
      | Some (v, _) \<Rightarrow> (case v of
          JObj m \<Rightarrow> if containsSecretField v then Some (Plain ''secret-bearing fields are forbidden'') else None
        | _ \<Rightarrow> Some (Plain ''options must be an object'')))"

fun validate_sources ::
  "string list \<Rightarrow> string list \<Rightarrow> string list \<Rightarrow> config_source list \<Rightarrow> go_error option" where
  "validate_sources ids aliases refs [] = None"
| "validate_sources ids aliases refs (c # cs) =
     (if cf_ID c = '''' \<or> cf_Name c = '''' \<or> cf_Type c = ''''
      then Some (Plain ''source id, name, and type are required'')
      else case ValidateAlias (cf_Alias c) of Some e \<Rightarrow> Some e | None \<Rightarrow>
      if List.member ids (cf_ID c) then Some (Plain (''duplicate source id '' @ quoted (cf_ID c)))
      else if List.member aliases (cf_Alias c)
      then Some (Plain (''duplicate source alias '' @ quoted (cf_Alias c)))
      else if cf_CredentialRef c \<noteq> '''' \<and> List.member refs (cf_CredentialRef c)
      then Some (Plain (''duplicate credential reference '' @ quoted (cf_CredentialRef c)))
      else
        (let refs' = (if cf_CredentialRef c \<noteq> '''' then cf_CredentialRef c # refs else refs) in
         case validateOptions (cf_Options c) of
           Some e \<Rightarrow> Some (Wrap (''source '' @ quoted (cf_ID c) @ '' options'') e)
         | None \<Rightarrow> validate_sources (cf_ID c # ids) (cf_Alias c # aliases) refs' cs))"

definition unsupported_version :: "int \<Rightarrow> go_error" where
  "unsupported_version v = Plain (''unsupported configuration version '' @ itoa v)"

definition Validate :: "document \<Rightarrow> go_error option" where
  "Validate d = (if doc_Version d \<noteq> CurrentVersion then Some (unsupported_version (doc_Version d))
     else validate_sources [] [] [] (sources_of d))"

text \<open>A text that a decoder accepts must be free of secret names wherever an object can hold one.\<close>

inductive has_key :: "(string \<Rightarrow> bool) \<Rightarrow> json \<Rightarrow> bool" for p where
  hk_here: "(k, child) \<in> set m \<Longrightarrow> p k \<Longrightarrow> has_key p (JObj m)"
| hk_obj: "(k, child) \<in> set m \<Longrightarrow> has_key p child \<Longrightarrow> has_key p (JObj m)"
| hk_arr: "child \<in> set xs \<Longrightarrow> has_key p child \<Longrightarrow> has_key p (JArr xs)"

inductive_simps has_key_simps [simp]:
  "has_key p (JObj m)" "has_key p (JArr xs)" "has_key p JNull" "has_key p (JBool b)" "has_key p (JNum n)"
  "has_key p (JStr s)"

lemma containsSecretField_iff: "containsSecretField v \<longleftrightarrow> has_key secret_field v"
  by (induction v) (force simp: list_ex_iff)+

definition options_ok :: "string \<Rightarrow> bool" where
  "options_ok raw \<longleftrightarrow> (\<exists>m rest. json_decode raw = Some (JObj m, rest) \<and> \<not> has_key secret_field (JObj m))"

lemma json_decode_Nil [simp]: "json_decode [] = None"
  by (simp add: json_decode_def parse_value.simps(2) skip_ws_def numeral_2_eq_2)

lemma validateOptions_ok: "validateOptions raw = None \<longleftrightarrow> options_ok raw"
proof (cases "json_decode raw")
  case (Some p)
  obtain v rest where "p = (v, rest)" by (cases p)
  with Some show ?thesis
    by (cases "raw = []"; cases v)
      (auto simp: validateOptions_def options_ok_def containsSecretField_iff [symmetric]
        simp del: has_key_simps containsSecretField.simps)
qed (auto simp: validateOptions_def options_ok_def)

definition source_ok :: "config_source \<Rightarrow> bool" where
  "source_ok c \<longleftrightarrow> cf_ID c \<noteq> '''' \<and> cf_Name c \<noteq> '''' \<and> cf_Type c \<noteq> '''' \<and> aliasPattern (cf_Alias c) \<and>
     options_ok (cf_Options c)"

definition credential_refs :: "config_source list \<Rightarrow> string list" where
  "credential_refs cs = filter (\<lambda>r. r \<noteq> '''') (map cf_CredentialRef cs)"

lemma validate_sources_ok:
  "validate_sources ids aliases refs cs = None \<longleftrightarrow>
     list_all source_ok cs \<and> distinct (map cf_ID cs) \<and> distinct (map cf_Alias cs) \<and>
     distinct (credential_refs cs) \<and> set (map cf_ID cs) \<inter> set ids = {} \<and>
     set (map cf_Alias cs) \<inter> set aliases = {} \<and> set (credential_refs cs) \<inter> set refs = {}"
proof (induction cs arbitrary: ids aliases refs)
  case (Cons c cs)
  show ?case
    by (cases "validateOptions (cf_Options c)")
      (auto simp: Cons.IH source_ok_def credential_refs_def ValidateAlias_def validateOptions_ok [symmetric]
        Let_def)
qed (simp add: credential_refs_def)

lemma Validate_ok:
  "Validate d = None \<longleftrightarrow> doc_Version d = CurrentVersion \<and> list_all source_ok (sources_of d) \<and>
     distinct (map cf_ID (sources_of d)) \<and> distinct (map cf_Alias (sources_of d)) \<and>
     distinct (credential_refs (sources_of d))"
  by (simp add: Validate_def validate_sources_ok)

text \<open>C13. A document validates exactly when its version is the current one and every source has an id,
  a name, a type, a well-formed alias and options that are a JSON object without a secret-bearing
  name at any depth, with pairwise distinct ids, aliases and nonempty credential references.\<close>

theorem Validate_exact:
  "Validate d = None \<longleftrightarrow> doc_Version d = CurrentVersion \<and> list_all source_ok (sources_of d) \<and>
     distinct (map cf_ID (sources_of d)) \<and> distinct (map cf_Alias (sources_of d)) \<and>
     distinct (credential_refs (sources_of d))"
  by (rule Validate_ok)

text \<open>A duplicate member hides what an earlier one of the same name held: the text below carries a
  password and is accepted.\<close>

definition hidden_password :: string where
  "hidden_password = ''{'' @ [CHR 0x22] @ ''a'' @ [CHR 0x22] @ '':{'' @ [CHR 0x22] @ ''password'' @ [CHR 0x22] @
     '':'' @ [CHR 0x22] @ ''x'' @ [CHR 0x22] @ ''},'' @ [CHR 0x22] @ ''a'' @ [CHR 0x22] @ '':1}''"

lemma validateOptions_hidden_password: "validateOptions hidden_password = None"
  by code_simp

section \<open>The disk\<close>

datatype fault = Fault go_error nat

record fs_oracle =
  or_fault :: "nat \<Rightarrow> fault option"
  or_temp :: "nat \<Rightarrow> string"

text \<open>The contents of a file and whether they are known to be on the disk.\<close>

type_synonym files = "string \<rightharpoonup> string \<times> bool"

record disk =
  dk_files :: files
  dk_log :: "files list"

definition sys_call ::
  "fs_oracle \<Rightarrow> (files \<Rightarrow> files) \<Rightarrow> (nat \<Rightarrow> files \<Rightarrow> files) \<Rightarrow> disk \<Rightarrow> go_error option \<times> disk" where
  "sys_call orc effect partial dk =
     (let (err, files) = (case or_fault orc (length (dk_log dk)) of
            None \<Rightarrow> (None, effect (dk_files dk))
          | Some (Fault e n) \<Rightarrow> (Some e, partial n (dk_files dk)))
      in (err, \<lparr>dk_files = files, dk_log = files # dk_log dk\<rparr>))"

text \<open>A call that leaves the files as they are: MkdirAll, Chmod, Close, Open and Sync of a directory.\<close>

definition fs_other :: "fs_oracle \<Rightarrow> disk \<Rightarrow> go_error option \<times> disk" where
  "fs_other orc = sys_call orc id (\<lambda>_. id)"

text \<open>A read of a file that exists never fails with \<open>fs.ErrNotExist\<close>.\<close>

definition fs_ReadFile :: "fs_oracle \<Rightarrow> string \<Rightarrow> disk \<Rightarrow> string res \<times> disk" where
  "fs_ReadFile orc path dk = (case dk_files dk path of
     None \<Rightarrow> (Inl (Sentinel ErrNotExist), snd (fs_other orc dk))
   | Some (bytes, _) \<Rightarrow> (case fs_other orc dk of
       (Some e, dk') \<Rightarrow> (Inl (Plain (error_text e)), dk') | (None, dk') \<Rightarrow> (Inr bytes, dk')))"

definition temp_path :: "string \<Rightarrow> string \<Rightarrow> string" where
  "temp_path directory suffix =
     (if has_suffix ''/'' directory then directory else directory @ ''/'') @ ''.quackridge-config-'' @ suffix"

text \<open>\<open>os.CreateTemp\<close> makes a file that did not exist.\<close>

definition fs_CreateTemp :: "fs_oracle \<Rightarrow> string \<Rightarrow> disk \<Rightarrow> string res \<times> disk" where
  "fs_CreateTemp orc directory dk =
     (let t = temp_path directory (or_temp orc (length (dk_log dk))) in
      if dk_files dk t \<noteq> None then (Inl (Plain ''file exists''), snd (fs_other orc dk))
      else case sys_call orc (\<lambda>fs. fs(t \<mapsto> ([], False))) (\<lambda>_. id) dk of
        (Some e, dk') \<Rightarrow> (Inl e, dk') | (None, dk') \<Rightarrow> (Inr t, dk'))"

definition fs_Write :: "fs_oracle \<Rightarrow> string \<Rightarrow> string \<Rightarrow> disk \<Rightarrow> go_error option \<times> disk" where
  "fs_Write orc path bytes = sys_call orc (\<lambda>fs. fs(path \<mapsto> (bytes, False)))
     (\<lambda>n fs. fs(path \<mapsto> (take n bytes, False)))"

definition fs_Sync :: "fs_oracle \<Rightarrow> string \<Rightarrow> disk \<Rightarrow> go_error option \<times> disk" where
  "fs_Sync orc path = sys_call orc
     (\<lambda>fs. fs(path := map_option (\<lambda>(bytes, _). (bytes, True)) (fs path))) (\<lambda>_. id)"

definition fs_Rename :: "fs_oracle \<Rightarrow> string \<Rightarrow> string \<Rightarrow> disk \<Rightarrow> go_error option \<times> disk" where
  "fs_Rename orc source destination = sys_call orc
     (\<lambda>fs. (fs(destination := fs source))(source := if source = destination then fs source else None)) (\<lambda>_. id)"

definition fs_Remove :: "fs_oracle \<Rightarrow> string \<Rightarrow> disk \<Rightarrow> go_error option \<times> disk" where
  "fs_Remove orc path = sys_call orc (\<lambda>fs. fs(path := None)) (\<lambda>_. id)"

definition replaceFile :: "fs_oracle \<Rightarrow> string \<Rightarrow> string \<Rightarrow> disk \<Rightarrow> go_error option \<times> disk" where
  "replaceFile = fs_Rename"

text \<open>The calls of \<open>writeAtomic\<close> on its temporary file up to and with the rename, then the directory.
  The deferred removal of the temporary file comes last, whatever happened.\<close>

definition sync_directory :: "fs_oracle \<Rightarrow> disk \<Rightarrow> go_error option \<times> disk" where
  "sync_directory orc dk = (case fs_other orc dk of
     (Some e, dk) \<Rightarrow> (Some e, dk)
   | (None, dk) \<Rightarrow> (case fs_other orc dk of (err, dk) \<Rightarrow> (err, snd (fs_other orc dk))))"

definition write_temporary ::
  "fs_oracle \<Rightarrow> string \<Rightarrow> string \<Rightarrow> string \<Rightarrow> disk \<Rightarrow> go_error option \<times> disk" where
  "write_temporary orc t path data dk =
     (let close = (\<lambda>e dk. (Some e, snd (fs_other orc dk))) in
      case fs_other orc dk of (Some e, dk) \<Rightarrow> close e dk | (None, dk) \<Rightarrow>
      case fs_Write orc t data dk of (Some e, dk) \<Rightarrow> close e dk | (None, dk) \<Rightarrow>
      case fs_Sync orc t dk of (Some e, dk) \<Rightarrow> close e dk | (None, dk) \<Rightarrow>
      case fs_other orc dk of (Some e, dk) \<Rightarrow> (Some e, dk) | (None, dk) \<Rightarrow>
      case replaceFile orc t path dk of (Some e, dk) \<Rightarrow> (Some e, dk) | (None, dk) \<Rightarrow>
      sync_directory orc dk)"

definition writeAtomic :: "fs_oracle \<Rightarrow> string \<Rightarrow> string \<Rightarrow> disk \<Rightarrow> go_error option \<times> disk" where
  "writeAtomic orc path data dk = (case fs_CreateTemp orc (filepath_Dir path) dk of
     (Inl e, dk) \<Rightarrow> (Some e, dk)
   | (Inr t, dk) \<Rightarrow> (case write_temporary orc t path data dk of
       (err, dk) \<Rightarrow> (err, snd (fs_Remove orc t dk))))"

section \<open>Encoding and decoding\<close>

definition source_setters :: "(string \<times> (string \<Rightarrow> json \<Rightarrow> config_source \<Rightarrow> config_source res)) list" where
  "source_setters =
    [(''id'', set_string (\<lambda>x. cf_ID_update (\<lambda>_. x))), (''name'', set_string (\<lambda>x. cf_Name_update (\<lambda>_. x))),
     (''alias'', set_string (\<lambda>x. cf_Alias_update (\<lambda>_. x))), (''type'', set_string (\<lambda>x. cf_Type_update (\<lambda>_. x))),
     (''database_type'', set_string (\<lambda>x. cf_DatabaseType_update (\<lambda>_. x))),
     (''enabled'', set_bool (\<lambda>x. cf_Enabled_update (\<lambda>_. x))),
     (''credential_ref'', set_string (\<lambda>x. cf_CredentialRef_update (\<lambda>_. x))),
     (''options'', set_raw (\<lambda>x. cf_Options_update (\<lambda>_. x)))]"

definition zero_source :: config_source where
  "zero_source = \<lparr>cf_ID = '''', cf_Name = '''', cf_Alias = '''', cf_Type = '''', cf_DatabaseType = '''',
     cf_Enabled = False, cf_CredentialRef = '''', cf_Options = ''''\<rparr>"

fun decode_elements :: "(string \<Rightarrow> 'b res) \<Rightarrow> (string \<times> json) list \<Rightarrow> 'b list res" where
  "decode_elements dec [] = Inr []"
| "decode_elements dec ((raw, _) # rest) = (case dec raw of Inl e \<Rightarrow> Inl e
   | Inr x \<Rightarrow> (case decode_elements dec rest of Inl e \<Rightarrow> Inl e | Inr xs \<Rightarrow> Inr (x # xs)))"

text \<open>A slice is decoded afresh; null leaves it nil.\<close>

definition set_sources :: "string \<Rightarrow> json \<Rightarrow> document \<Rightarrow> document res" where
  "set_sources raw v d = (case v of
     JArr _ \<Rightarrow> (case raw_elements raw of None \<Rightarrow> Inl decode_error
       | Some xs \<Rightarrow> (case decode_elements (decode_struct source_setters zero_source) xs of
           Inl e \<Rightarrow> Inl e | Inr cs \<Rightarrow> Inr (d\<lparr>doc_Sources := Some cs\<rparr>)))
   | JNull \<Rightarrow> Inr (d\<lparr>doc_Sources := None\<rparr>)
   | _ \<Rightarrow> Inl decode_error)"

definition decode_document :: "string \<Rightarrow> document res" where
  "decode_document = decode_struct
     [(''version'', set_int (\<lambda>x. doc_Version_update (\<lambda>_. x))), (''sources'', set_sources)]
     \<lparr>doc_Version = 0, doc_Sources = None\<rparr>"

definition json_field :: "string \<Rightarrow> string \<Rightarrow> string" where
  "json_field name text = encode_string name @ '':'' @ text"

definition encode_source :: "config_source \<Rightarrow> string res" where
  "encode_source c = (if json_unmarshal (cf_Options c) = None
     then Inl (Plain ''json: error calling MarshalJSON for type json.RawMessage'')
     else Inr (''{'' @ join '','' ([json_field ''id'' (encode_string (cf_ID c)),
       json_field ''name'' (encode_string (cf_Name c)), json_field ''alias'' (encode_string (cf_Alias c)),
       json_field ''type'' (encode_string (cf_Type c))] @
       (if cf_DatabaseType c = '''' then [] else [json_field ''database_type'' (encode_string (cf_DatabaseType c))]) @
       [json_field ''enabled'' (if cf_Enabled c then ''true'' else ''false''),
        json_field ''credential_ref'' (encode_string (cf_CredentialRef c)),
        json_field ''options'' (compact False False (cf_Options c))]) @ ''}''))"

fun encode_sources :: "config_source list \<Rightarrow> string list res" where
  "encode_sources [] = Inr []"
| "encode_sources (c # cs) = (case encode_source c of Inl e \<Rightarrow> Inl e
   | Inr x \<Rightarrow> (case encode_sources cs of Inl e \<Rightarrow> Inl e | Inr xs \<Rightarrow> Inr (x # xs)))"

text \<open>The compact text of the document.  The indentation scans it again, and fails when the options inside
  it nest too deeply.\<close>

definition document_text :: "document \<Rightarrow> string list \<Rightarrow> string" where
  "document_text d xs = ''{'' @ json_field ''version'' (itoa (doc_Version d)) @ '','' @
     json_field ''sources'' (if doc_Sources d = None then ''null'' else ''['' @ join '','' xs @ '']'') @ ''}''"

definition encode_document :: "document \<Rightarrow> string res" where
  "encode_document d = (case encode_sources (sources_of d) of Inl e \<Rightarrow> Inl e
   | Inr xs \<Rightarrow> if json_unmarshal (document_text d xs) = None then Inl (Plain ''exceeded max depth'')
       else Inr (indent_json (document_text d xs)))"

section \<open>The store\<close>

definition loadFile :: "fs_oracle \<Rightarrow> string \<Rightarrow> disk \<Rightarrow> document res \<times> disk" where
  "loadFile orc path dk = (case fs_ReadFile orc path dk of
     (Inl e, dk) \<Rightarrow> (Inl e, dk) | (Inr bytes, dk) \<Rightarrow> (decode_document bytes, dk))"

definition migrate :: "document \<Rightarrow> document res" where
  "migrate d =
     (if doc_Version d \<noteq> 0 \<and> doc_Version d \<noteq> CurrentVersion then Inl (unsupported_version (doc_Version d))
      else let d' = \<lparr>doc_Version = CurrentVersion, doc_Sources = Some (sources_of d)\<rparr> in
        case Validate d' of Some e \<Rightarrow> Inl e | None \<Rightarrow> Inr (Clone d'))"

definition backup_path :: "string \<Rightarrow> string" where
  "backup_path path = path @ ''.bak''"

text \<open>The copy of the present file to the backup, when there is one.\<close>

definition backup_existing :: "fs_oracle \<Rightarrow> string \<Rightarrow> disk \<Rightarrow> go_error option \<times> disk" where
  "backup_existing orc path dk = (case fs_ReadFile orc path dk of
     (Inr existing, dk) \<Rightarrow> (case writeAtomic orc (backup_path path) existing dk of
       (Some e, dk) \<Rightarrow> (Some (Wrap ''backup configuration'' e), dk) | (None, dk) \<Rightarrow> (None, dk))
   | (Inl e, dk) \<Rightarrow> (if is_sentinel ErrNotExist e then None else Some e, dk))"

definition Save :: "fs_oracle \<Rightarrow> string \<Rightarrow> document \<Rightarrow> disk \<Rightarrow> go_error option \<times> disk" where
  "Save orc path d dk = (case Validate d of Some e \<Rightarrow> (Some e, dk) | None \<Rightarrow>
     case encode_document d of Inl e \<Rightarrow> (Some e, dk) | Inr text \<Rightarrow>
     case fs_other orc dk of (Some e, dk) \<Rightarrow> (Some e, dk) | (None, dk) \<Rightarrow>
     case backup_existing orc path dk of (Some e, dk) \<Rightarrow> (Some e, dk) | (None, dk) \<Rightarrow>
     case writeAtomic orc path (text @ [CHR 0x0A]) dk of
       (Some e, dk) \<Rightarrow> (Some (Wrap ''save configuration'' e), dk) | (None, dk) \<Rightarrow> (None, dk))"

definition Load :: "fs_oracle \<Rightarrow> string \<Rightarrow> disk \<Rightarrow> document res \<times> disk" where
  "Load orc path dk = (case loadFile orc path dk of
     (Inr d, dk) \<Rightarrow> (case migrate d of Inl e \<Rightarrow> (Inl e, dk)
       | Inr migrated \<Rightarrow>
           if doc_Version d \<noteq> CurrentVersion
           then (case Save orc path migrated dk of
               (Some e, dk) \<Rightarrow> (Inl (Wrap ''persist configuration migration'' e), dk)
             | (None, dk) \<Rightarrow> (Inr migrated, dk))
           else (Inr migrated, dk))
   | (Inl e, dk) \<Rightarrow>
       if is_sentinel ErrNotExist e
       then (Inr \<lparr>doc_Version = CurrentVersion, doc_Sources = Some []\<rparr>, dk)
       else (case loadFile orc (backup_path path) dk of
           (Inl _, dk) \<Rightarrow> (Inl (Wrap ''load configuration'' e), dk)
         | (Inr backup, dk) \<Rightarrow> (migrate backup, dk)))"

section \<open>What a crash can leave\<close>

text \<open>\<open>during P dk dk'\<close>: every state of the disk after \<open>dk\<close> and up to \<open>dk'\<close> satisfies \<open>P\<close>.\<close>

definition during :: "(files \<Rightarrow> bool) \<Rightarrow> disk \<Rightarrow> disk \<Rightarrow> bool" where
  "during P dk dk' \<longleftrightarrow> (\<exists>new. dk_log dk' = new @ dk_log dk \<and> list_all P new) \<and> P (dk_files dk')"

lemma during_refl: "P (dk_files dk) \<Longrightarrow> during P dk dk"
  by (simp add: during_def)

lemma during_trans: "during P a b \<Longrightarrow> during P b c \<Longrightarrow> during P a c"
  unfolding during_def by (metis append_assoc list_all_append)

lemma during_mono: "during P a b \<Longrightarrow> (\<And>fs. P fs \<Longrightarrow> Q fs) \<Longrightarrow> during Q a b"
  unfolding during_def list_all_iff by blast

lemma during_end: "during P a b \<Longrightarrow> P (dk_files b)"
  by (simp add: during_def)

text \<open>\<open>runs P pre c post\<close>: from a disk with \<open>P\<close> and \<open>pre\<close>, every state of a run of \<open>c\<close> satisfies \<open>P\<close>, and
  \<open>post\<close> holds at its end when it succeeds.\<close>

definition runs :: "(files \<Rightarrow> bool) \<Rightarrow> (files \<Rightarrow> bool) \<Rightarrow> (disk \<Rightarrow> go_error option \<times> disk) \<Rightarrow> (files \<Rightarrow> bool) \<Rightarrow> bool"
  where "runs P pre c post \<longleftrightarrow> (\<forall>dk err dk'. P (dk_files dk) \<longrightarrow> pre (dk_files dk) \<longrightarrow> c dk = (err, dk') \<longrightarrow>
     during P dk dk' \<and> (err = None \<longrightarrow> post (dk_files dk')))"

named_theorems runs_rules

lemma runsD:
  assumes "runs P pre c post" "c dk = (err, dk')" "P (dk_files dk)" "pre (dk_files dk)"
  shows "during P dk dk'" and "err = None \<Longrightarrow> post (dk_files dk')"
  using assms unfolding runs_def by blast+

lemma runs_then:
  assumes c: "runs P pre c mid" and k: "runs P mid k post" and fail: "\<And>e. runs P (\<lambda>_. True) (f e) post"
  shows "runs P pre (\<lambda>dk. case c dk of (Some e, dk) \<Rightarrow> f e dk | (None, dk) \<Rightarrow> k dk) post"
  unfolding runs_def
proof (intro allI impI)
  fix dk err dk'
  assume P: "P (dk_files dk)" and pre: "pre (dk_files dk)"
    and r: "(case c dk of (Some e, dk) \<Rightarrow> f e dk | (None, dk) \<Rightarrow> k dk) = (err, dk')"
  obtain e1 d1 where c1: "c dk = (e1, d1)" by (cases "c dk")
  have d1: "during P dk d1" using runsD(1) [OF c c1 P pre] .
  then have P1: "P (dk_files d1)" by (rule during_end)
  show "during P dk dk' \<and> (err = None \<longrightarrow> post (dk_files dk'))"
  proof (cases e1)
    case None
    with r c1 have "k d1 = (err, dk')" by simp
    with runsD [OF k this P1] runsD(2) [OF c c1 P pre None] d1 show ?thesis
      by (blast intro: during_trans)
  next
    case (Some e)
    with r c1 have "f e d1 = (err, dk')" by simp
    with runsD [OF fail this P1] d1 show ?thesis by (blast intro: during_trans)
  qed
qed

lemma runs_weaken:
  "runs P pre' c post' \<Longrightarrow> (\<And>fs. pre fs \<Longrightarrow> pre' fs) \<Longrightarrow> (\<And>fs. post' fs \<Longrightarrow> post fs) \<Longrightarrow> runs P pre c post"
  unfolding runs_def by blast

lemma runs_post: "runs P pre c post' \<Longrightarrow> (\<And>fs. post' fs \<Longrightarrow> post fs) \<Longrightarrow> runs P pre c post"
  by (rule runs_weaken) assumption

lemma runs_sys_call:
  assumes "\<And>fs. P fs \<Longrightarrow> pre fs \<Longrightarrow> P (effect fs) \<and> post (effect fs)"
    and "\<And>fs n. P fs \<Longrightarrow> pre fs \<Longrightarrow> P (partial n fs)"
  shows "runs P pre (sys_call orc effect partial) post"
  unfolding runs_def during_def
proof (intro allI impI)
  fix dk err dk'
  assume a: "P (dk_files dk)" "pre (dk_files dk)" "sys_call orc effect partial dk = (err, dk')"
  show "((\<exists>new. dk_log dk' = new @ dk_log dk \<and> list_all P new) \<and> P (dk_files dk')) \<and>
      (err = None \<longrightarrow> post (dk_files dk'))"
    using assms(1) [OF a(1,2)] assms(2) [OF a(1,2)] a(3)
    by (auto simp: sys_call_def split: option.splits fault.splits)
qed

lemma runs_other [runs_rules]: "(\<And>fs. pre fs \<Longrightarrow> post fs) \<Longrightarrow> runs P pre (fs_other orc) post"
  unfolding fs_other_def by (rule runs_sys_call) simp_all

lemma runs_give_up: "runs P (\<lambda>_. True) (\<lambda>dk. (Some e, dk)) post"
  by (simp add: runs_def during_refl)

lemma runs_last: "runs P pre c (\<lambda>_. True) \<Longrightarrow> runs P pre (\<lambda>dk. (Some e, snd (c dk))) post"
  unfolding runs_def by (auto dest: spec split: prod.splits) (metis prod.collapse)

lemma runs_keep:
  assumes c: "runs P pre c mid" and d: "\<And>fs. mid fs \<Longrightarrow> post fs" and n: "runs P (\<lambda>_. True) n (\<lambda>_. True)"
    and k: "\<And>dk. post (dk_files dk) \<Longrightarrow> post (dk_files (snd (n dk)))"
  shows "runs P pre (\<lambda>dk. case c dk of (err, dk) \<Rightarrow> (err, snd (n dk))) post"
  unfolding runs_def
proof (intro allI impI)
  fix dk err dk'
  assume P: "P (dk_files dk)" and pre: "pre (dk_files dk)"
    and r: "(case c dk of (err, dk) \<Rightarrow> (err, snd (n dk))) = (err, dk')"
  obtain d1 where c1: "c dk = (err, d1)" and n1: "snd (n d1) = dk'" using r by (auto split: prod.splits)
  obtain e2 where n2: "n d1 = (e2, dk')" using n1 by (metis prod.collapse)
  have d1: "during P dk d1" using runsD(1) [OF c c1 P pre] .
  have "during P d1 dk'" using runsD(1) [OF n n2 during_end [OF d1]] by simp
  then show "during P dk dk' \<and> (err = None \<longrightarrow> post (dk_files dk'))"
    using d1 runsD(2) [OF c c1 P pre] d k n1 by (blast intro: during_trans)
qed

lemma fs_other_files [simp]: "dk_files (snd (fs_other orc dk)) = dk_files dk"
  by (auto simp: fs_other_def sys_call_def split: option.split fault.split)

text \<open>The path that is written has its old contents or the new ones, synced, and nothing else changes but
  temporary files.\<close>

definition temporary_path :: "string \<Rightarrow> string \<Rightarrow> bool" where
  "temporary_path path q \<longleftrightarrow> (\<exists>suffix. q = temp_path (filepath_Dir path) suffix)"

definition atomic_view :: "string \<Rightarrow> string \<Rightarrow> files \<Rightarrow> files \<Rightarrow> bool" where
  "atomic_view path data fs0 fs \<longleftrightarrow> (fs path = fs0 path \<or> fs path = Some (data, True)) \<and>
     (\<forall>q. q \<noteq> path \<longrightarrow> \<not> temporary_path path q \<longrightarrow> fs q = fs0 q)"

lemma atomic_view_refl [simp]: "atomic_view path data fs fs"
  by (simp add: atomic_view_def)

lemma atomic_view_temp [simp]:
  "temporary_path path t \<Longrightarrow> t \<noteq> path \<Longrightarrow> atomic_view path data fs0 (fs(t := x)) = atomic_view path data fs0 fs"
  by (auto simp: atomic_view_def)

lemma sync_directory_runs: "runs P pre (sync_directory orc) pre"
  unfolding sync_directory_def [abs_def]
  by (rule runs_then [where mid = pre], rule runs_other, assumption)
    (auto intro!: runs_keep [where mid = pre] runs_other runs_give_up)

lemma write_temporary_runs:
  assumes t: "temporary_path path t" "t \<noteq> path"
  shows "runs (atomic_view path data fs0) (\<lambda>_. True) (write_temporary orc t path data)
    (\<lambda>fs. fs path = Some (data, True))"
proof -
  let ?P = "atomic_view path data fs0"
  have close: "runs ?P (\<lambda>_. True) (\<lambda>dk. (Some e, snd (fs_other orc dk))) post" for e post
    by (rule runs_last) (rule runs_other, simp)
  have "runs ?P (\<lambda>_. True) (fs_Write orc t data) (\<lambda>fs. fs t = Some (data, False))"
    unfolding fs_Write_def by (rule runs_sys_call) (simp_all add: t)
  moreover have "runs ?P (\<lambda>fs. fs t = Some (data, False)) (fs_Sync orc t) (\<lambda>fs. fs t = Some (data, True))"
    unfolding fs_Sync_def by (rule runs_sys_call) (simp_all add: t)
  moreover have "runs ?P (\<lambda>fs. fs t = Some (data, True)) (fs_Rename orc t path) (\<lambda>fs. fs path = Some (data, True))"
    unfolding fs_Rename_def by (rule runs_sys_call) (use t in \<open>auto simp: atomic_view_def\<close>)
  ultimately show ?thesis
    unfolding write_temporary_def [abs_def] Let_def replaceFile_def
    by (intro runs_then [OF runs_other [where post = "\<lambda>_. True"]] close
        runs_then [where mid = "\<lambda>fs. fs t = Some (data, False)"]
        runs_then [where mid = "\<lambda>fs. fs t = Some (data, True)"]
        runs_then [where mid = "\<lambda>fs. fs path = Some (data, True)"] sync_directory_runs runs_give_up
        runs_other) simp_all
qed

lemma fs_CreateTemp_during:
  assumes P: "atomic_view path data fs0 (dk_files dk)" and plain: "\<not> temporary_path path path"
    and c: "fs_CreateTemp orc (filepath_Dir path) dk = (r, d1)"
  shows "during (atomic_view path data fs0) dk d1" and "r = Inr t \<Longrightarrow> temporary_path path t"
proof -
  let ?t = "temp_path (filepath_Dir path) (or_temp orc (length (dk_log dk)))"
  have t: "temporary_path path ?t" by (auto simp: temporary_path_def)
  then have "?t \<noteq> path" using plain by auto
  then have upd: "runs (atomic_view path data fs0) (\<lambda>_. True)
      (sys_call orc (\<lambda>fs. fs(?t \<mapsto> ([], False))) (\<lambda>_. id)) (\<lambda>_. True)"
    by (intro runs_sys_call) (simp_all add: t)
  have other: "runs (atomic_view path data fs0) (\<lambda>_. True) (fs_other orc) (\<lambda>_. True)"
    by (rule runs_other) simp
  show "during (atomic_view path data fs0) dk d1"
    using c runsD(1) [OF upd _ P] runsD(1) [OF other _ P]
    by (auto simp: fs_CreateTemp_def Let_def split: if_splits prod.splits option.splits)
      (metis prod.collapse)
  show "temporary_path path t" if "r = Inr t"
    using c t that by (auto simp: fs_CreateTemp_def Let_def split: if_splits prod.splits option.splits)
qed

lemma fs_Remove_other: "t \<noteq> path \<Longrightarrow> dk_files (snd (fs_Remove orc t dk)) path = dk_files dk path"
  by (auto simp: fs_Remove_def sys_call_def split: option.split fault.split)

lemma writeAtomic_runs:
  assumes plain: "\<not> temporary_path path path"
  shows "runs (atomic_view path data fs0) (\<lambda>_. True) (writeAtomic orc path data)
    (\<lambda>fs. fs path = Some (data, True))"
  unfolding runs_def
proof (intro allI impI)
  fix dk err dk'
  assume P: "atomic_view path data fs0 (dk_files dk)" and w: "writeAtomic orc path data dk = (err, dk')"
  obtain r d1 where c: "fs_CreateTemp orc (filepath_Dir path) dk = (r, d1)"
    by (cases "fs_CreateTemp orc (filepath_Dir path) dk")
  note created = fs_CreateTemp_during [OF P plain c]
  show "during (atomic_view path data fs0) dk dk' \<and> (err = None \<longrightarrow> dk_files dk' path = Some (data, True))"
  proof (cases r)
    case (Inl e)
    with w c created show ?thesis by (auto simp: writeAtomic_def)
  next
    case (Inr t)
    then have t: "temporary_path path t" "t \<noteq> path" using created(2) plain by auto
    have "runs (atomic_view path data fs0) (\<lambda>_. True) (fs_Remove orc t) (\<lambda>_. True)"
      unfolding fs_Remove_def by (rule runs_sys_call) (simp_all add: t)
    then have "runs (atomic_view path data fs0) (\<lambda>_. True)
        (\<lambda>dk. case write_temporary orc t path data dk of (err, dk) \<Rightarrow> (err, snd (fs_Remove orc t dk)))
        (\<lambda>fs. fs path = Some (data, True))"
      by (intro runs_keep [OF write_temporary_runs [OF t]]) (simp_all add: fs_Remove_other t)
    from runsD [OF this _ during_end [OF created(1)]] w c Inr created(1) show ?thesis
      by (simp add: writeAtomic_def) (blast intro: during_trans)
  qed
qed

text \<open>A configuration path whose own name and whose backup's name are not those of temporary files.\<close>

definition plain_path :: "string \<Rightarrow> bool" where
  "plain_path path \<longleftrightarrow> (\<forall>p\<in>{path, backup_path path}. \<forall>q\<in>{path, backup_path path}. \<not> temporary_path p q)"

lemma backup_path_neq [simp]: "backup_path path \<noteq> path" "path \<noteq> backup_path path"
  by (simp_all add: backup_path_def)

text \<open>The states a save can leave: the old file, with the backup as it was or a synced copy of the old
  file; or the new file, synced, with the backup a synced copy of the old file if there was one.\<close>

definition save_begun :: "string \<Rightarrow> files \<Rightarrow> files \<Rightarrow> bool" where
  "save_begun path fs0 fs \<longleftrightarrow> fs path = fs0 path \<and>
     (fs (backup_path path) = fs0 (backup_path path) \<or>
      (\<exists>old synced. fs0 path = Some (old, synced) \<and> fs (backup_path path) = Some (old, True)))"

definition backed_up :: "string \<Rightarrow> files \<Rightarrow> files \<Rightarrow> bool" where
  "backed_up path fs0 fs \<longleftrightarrow> fs (backup_path path) = (case fs0 path of
     None \<Rightarrow> fs0 (backup_path path) | Some (old, _) \<Rightarrow> Some (old, True))"

definition save_done :: "string \<Rightarrow> string \<Rightarrow> files \<Rightarrow> files \<Rightarrow> bool" where
  "save_done path data fs0 fs \<longleftrightarrow> fs path = Some (data, True) \<and> backed_up path fs0 fs"

lemma fs_ReadFile_during:
  assumes "P (dk_files dk)" and "fs_ReadFile orc path dk = (r, dk')"
  shows "during P dk dk'" and "dk_files dk' = dk_files dk"
    and "r = Inr bytes \<Longrightarrow> \<exists>synced. dk_files dk path = Some (bytes, synced)"
    and "r = Inl e \<Longrightarrow> is_sentinel ErrNotExist e \<Longrightarrow> dk_files dk path = None"
proof -
  have "runs P (\<lambda>_. True) (fs_other orc) (\<lambda>_. True)" by (rule runs_other) simp
  note other = runsD(1) [OF this _ assms(1)]
  obtain e1 d1 where o1: "fs_other orc dk = (e1, d1)" by (cases "fs_other orc dk")
  have "dk_files d1 = dk_files dk" using fs_other_files [of orc dk] o1 by simp
  with other [OF o1] o1 show "during P dk dk'" "dk_files dk' = dk_files dk"
    "r = Inr bytes \<Longrightarrow> \<exists>synced. dk_files dk path = Some (bytes, synced)"
    "r = Inl e \<Longrightarrow> is_sentinel ErrNotExist e \<Longrightarrow> dk_files dk path = None"
    using assms(2) by (auto simp: fs_ReadFile_def split: option.splits)
qed

lemma backup_existing_during:
  assumes plain: "plain_path path" and b: "backup_existing orc path dk = (err, dk')"
  shows "during (save_begun path (dk_files dk)) dk dk'"
    and "err = None \<Longrightarrow> backed_up path (dk_files dk) (dk_files dk')"
proof -
  let ?fs0 = "dk_files dk" and ?bak = "backup_path path"
  have begun0: "save_begun path ?fs0 ?fs0" by (simp add: save_begun_def)
  obtain r d1 where rd: "fs_ReadFile orc path dk = (r, d1)" by (cases "fs_ReadFile orc path dk")
  note read = fs_ReadFile_during [where P = "save_begun path ?fs0", OF begun0 rd]
  have "during (save_begun path ?fs0) dk dk' \<and> (err = None \<longrightarrow> backed_up path ?fs0 (dk_files dk'))"
  proof (cases r)
    case (Inl e)
    then have "dk' = d1" "err = None \<Longrightarrow> is_sentinel ErrNotExist e"
      using b rd by (auto simp: backup_existing_def split: if_splits)
    with read(1,2) read(4) [OF Inl] show ?thesis by (auto simp: backed_up_def)
  next
    case (Inr existing)
    then obtain err1 where w: "writeAtomic orc ?bak existing d1 = (err1, dk')" "err = None \<longleftrightarrow> err1 = None"
      using b rd by (auto simp: backup_existing_def split: prod.splits option.splits)
    obtain synced where old: "?fs0 path = Some (existing, synced)" using read(3) [OF Inr] by blast
    have P: "atomic_view ?bak existing ?fs0 (dk_files d1)" using read(2) by simp
    have "runs (atomic_view ?bak existing ?fs0) (\<lambda>_. True) (writeAtomic orc ?bak existing)
        (\<lambda>fs. fs ?bak = Some (existing, True))"
      by (rule writeAtomic_runs) (use plain in \<open>simp add: plain_path_def\<close>)
    note run = runsD [OF this w(1) P]
    have "save_begun path ?fs0 fs" if "atomic_view ?bak existing ?fs0 fs" for fs
    proof -
      have "\<not> temporary_path ?bak path" using plain by (simp add: plain_path_def)
      with that have "fs path = ?fs0 path" by (simp add: atomic_view_def)
      with that old show ?thesis by (auto simp: save_begun_def atomic_view_def)
    qed
    with run(1) have "during (save_begun path ?fs0) d1 dk'" by (blast intro: during_mono)
    with read(1) run(2) w(2) old show ?thesis by (auto simp: backed_up_def intro: during_trans)
  qed
  then show "during (save_begun path ?fs0) dk dk'" "err = None \<Longrightarrow> backed_up path ?fs0 (dk_files dk')"
    by blast+
qed

lemma write_document_during:
  assumes plain: "plain_path path" and w: "writeAtomic orc path data dk = (err, dk')"
    and b: "save_begun path fs0 (dk_files dk)" "backed_up path fs0 (dk_files dk)"
  shows "during (\<lambda>fs. save_begun path fs0 fs \<or> save_done path data fs0 fs) dk dk'"
    and "err = None \<Longrightarrow> save_done path data fs0 (dk_files dk')"
proof -
  let ?fs1 = "dk_files dk"
  have "runs (atomic_view path data ?fs1) (\<lambda>_. True) (writeAtomic orc path data)
      (\<lambda>fs. fs path = Some (data, True))"
    by (rule writeAtomic_runs) (use plain in \<open>simp add: plain_path_def\<close>)
  note run = runsD [OF this w atomic_view_refl]
  have bak: "fs (backup_path path) = ?fs1 (backup_path path)" if "atomic_view path data ?fs1 fs" for fs
    using that plain by (simp add: atomic_view_def plain_path_def)
  have "save_begun path fs0 fs \<or> save_done path data fs0 fs" if v: "atomic_view path data ?fs1 fs" for fs
    using v bak [OF v] b by (auto simp: atomic_view_def save_begun_def save_done_def backed_up_def)
  with run(1) show "during (\<lambda>fs. save_begun path fs0 fs \<or> save_done path data fs0 fs) dk dk'"
    by (blast intro: during_mono)
  show "save_done path data fs0 (dk_files dk')" if "err = None"
    using run(2) [OF _ that] bak [OF during_end [OF run(1)]] b(2) by (simp add: save_done_def backed_up_def)
qed

definition encoded_file :: "document \<Rightarrow> string" where
  "encoded_file d = (case encode_document d of Inl _ \<Rightarrow> [] | Inr text \<Rightarrow> text @ [CHR 0x0A])"

lemma Save_crash_safe_aux:
  assumes "plain_path path" and "Save orc path d dk = (err, dk')"
  shows "during (\<lambda>fs. save_begun path (dk_files dk) fs \<or>
           save_done path (encoded_file d) (dk_files dk) fs) dk dk' \<and>
         (err = None \<longrightarrow> save_done path (encoded_file d) (dk_files dk) (dk_files dk'))"
proof -
  let ?fs0 = "dk_files dk"
  let ?P = "\<lambda>fs. save_begun path ?fs0 fs \<or> save_done path (encoded_file d) ?fs0 fs"
  have begun0: "save_begun path ?fs0 ?fs0" by (simp add: save_begun_def)
  show ?thesis
  proof (cases "Validate d = None \<and> (\<exists>text. encode_document d = Inr text)")
    case False
    then have "dk' = dk" "err \<noteq> None"
      using assms(2) by (cases "Validate d"; cases "encode_document d"; auto simp: Save_def)+
    then show ?thesis using begun0 by (auto intro: during_refl)
  next
    case True
    then obtain enc where enc: "Validate d = None" "encode_document d = Inr enc" by blast
    have data: "enc @ [CHR 0x0A] = encoded_file d" by (simp add: encoded_file_def enc)
    obtain e1 d1 where c1: "fs_other orc dk = (e1, d1)" by (cases "fs_other orc dk")
    have f1: "dk_files d1 = ?fs0" using fs_other_files [of orc dk] c1 by simp
    have "runs ?P (\<lambda>_. True) (fs_other orc) (\<lambda>_. True)" by (rule runs_other) simp
    from runsD(1) [OF this c1] begun0 have D1: "during ?P dk d1" by blast
    obtain e2 d2 where c2: "backup_existing orc path d1 = (e2, d2)" by (cases "backup_existing orc path d1")
    note backup = backup_existing_during [OF assms(1) c2, unfolded f1]
    have D2: "during ?P d1 d2" using backup(1) by (blast intro: during_mono)
    obtain e3 d3 where c3: "writeAtomic orc path (encoded_file d) d2 = (e3, d3)"
      by (cases "writeAtomic orc path (encoded_file d) d2")
    note doc = write_document_during [OF assms(1) c3 during_end [OF backup(1)] backup(2)]
    have "(err, dk') = (case e1 of Some e \<Rightarrow> (Some e, d1) | None \<Rightarrow>
        case e2 of Some e \<Rightarrow> (Some e, d2) | None \<Rightarrow>
        (case e3 of Some e \<Rightarrow> (Some (Wrap ''save configuration'' e), d3) | None \<Rightarrow> (None, d3)))"
      using assms(2) by (cases e1; cases e2; cases e3) (auto simp: Save_def enc c1 c2 c3 data)
    then show ?thesis
      using D1 during_trans [OF D1 D2] doc during_trans [OF during_trans [OF D1 D2]]
      by (auto split: option.splits)
  qed
qed

text \<open>C14. Saving is atomic and keeps a backup: whichever system calls fail, in every state the disk goes
  through - so wherever a crash stops it - the configuration file is the old one, or the whole new
  one, already synced, and then the backup is a synced copy of the old one; until then the backup is
  the previous backup or that copy.  A save that returns nil has written the new file.\<close>

theorem Save_crash_safe:
  assumes "plain_path path" and "Save orc path d dk = (err, dk')"
  shows "during (\<lambda>fs. save_begun path (dk_files dk) fs \<or>
           save_done path (encoded_file d) (dk_files dk) fs) dk dk' \<and>
         (err = None \<longrightarrow> save_done path (encoded_file d) (dk_files dk) (dk_files dk'))"
  by (rule Save_crash_safe_aux [OF assms])

text \<open>A first save of an empty document.\<close>

definition calm_oracle :: fs_oracle where
  "calm_oracle = \<lparr>or_fault = (\<lambda>_. None), or_temp = (\<lambda>_. ''1'')\<rparr>"

definition demo_path :: string where "demo_path = ''/c/config.json''"

definition demo_disk :: disk where "demo_disk = \<lparr>dk_files = Map.empty, dk_log = []\<rparr>"

definition empty_document :: document where
  "empty_document = \<lparr>doc_Version = CurrentVersion, doc_Sources = Some []\<rparr>"

lemma demo_dir: "filepath_Dir demo_path = ''/c''" "filepath_Dir (backup_path demo_path) = ''/c''"
  by code_simp+

lemma demo_plain: "plain_path demo_path"
proof -
  have "demo_path \<noteq> temp_path ''/c'' x" "backup_path demo_path \<noteq> temp_path ''/c'' x" for x
    by (simp_all add: temp_path_def has_suffix_def demo_path_def backup_path_def)
  then show ?thesis by (simp add: plain_path_def temporary_path_def demo_dir)
qed

theorem Save_crash_safe_witness:
  "case Save calm_oracle demo_path empty_document demo_disk of (err, dk') \<Rightarrow>
     during (\<lambda>fs. save_begun demo_path (dk_files demo_disk) fs \<or>
       save_done demo_path (encoded_file empty_document) (dk_files demo_disk) fs) demo_disk dk'"
  using Save_crash_safe [OF demo_plain, of calm_oracle empty_document demo_disk]
  by (cases "Save calm_oracle demo_path empty_document demo_disk") simp

text \<open>A save after a recovery copies the damaged file over the good backup.  When the write that follows
  fails, neither file can be loaded: here the rename of the new file does.\<close>

definition damaged_disk :: disk where
  "damaged_disk = \<lparr>dk_files = [demo_path \<mapsto> (''x'', True),
     backup_path demo_path \<mapsto> (encoded_file empty_document, True)], dk_log = []\<rparr>"

definition rename_fails :: fs_oracle where
  "rename_fails = \<lparr>or_fault = (\<lambda>n. if n = 16 then Some (Fault (Plain ''no space left on device'') 0) else None),
     or_temp = (\<lambda>_. ''1'')\<rparr>"

definition demo_temp :: string where "demo_temp = temp_path ''/c'' ''1''"

lemma demo_names [simp]: "demo_temp \<noteq> demo_path" "demo_temp \<noteq> backup_path demo_path"
  "demo_path \<noteq> demo_temp" "backup_path demo_path \<noteq> demo_temp"
  by code_simp+

lemma empty_document_encodes: "Validate empty_document = None" "\<exists>enc. encode_document empty_document = Inr enc"
proof -
  have "json_unmarshal (document_text empty_document []) \<noteq> None" by code_simp
  then show "\<exists>enc. encode_document empty_document = Inr enc"
    by (simp add: encode_document_def) (simp add: empty_document_def sources_of_def)
qed code_simp

lemma Save_loses_backup:
  "\<exists>e. Save rename_fails demo_path empty_document damaged_disk = (Some e, dk) \<and>
     dk_files dk demo_path = Some (''x'', True) \<and> dk_files dk (backup_path demo_path) = Some (''x'', True)"
  if "dk = snd (Save rename_fails demo_path empty_document damaged_disk)" for dk
proof -
  obtain enc where "encode_document empty_document = Inr enc" using empty_document_encodes(2) by blast
  with that show ?thesis
    by (simp add: Save_def empty_document_encodes fs_other_def sys_call_def rename_fails_def damaged_disk_def
        backup_existing_def fs_ReadFile_def writeAtomic_def fs_CreateTemp_def demo_dir demo_temp_def [symmetric]
        write_temporary_def fs_Write_def fs_Sync_def replaceFile_def fs_Rename_def sync_directory_def
        fs_Remove_def is_sentinel.simps)
qed

section \<open>The service\<close>

text \<open>The service over its store, a credential store (\<open>None\<close> is a nil one) and a validator.\<close>

type_synonym validator = "config_source \<Rightarrow> string \<Rightarrow> go_error option"

definition with_source :: "document \<Rightarrow> config_source \<Rightarrow> document" where
  "with_source d c = (Clone d)\<lparr>doc_Sources := Some (sources_of d @ [c])\<rparr>"

text \<open>The calls of the credential store, made for a source that has a reference.\<close>

definition put_credential ::
  "'s credential_ops option \<Rightarrow> string \<Rightarrow> string \<Rightarrow> 's \<Rightarrow> go_error option \<times> 's" where
  "put_credential credentials ref credential s =
     (if ref \<noteq> '''' then cs_Put (the credentials) ref credential s else (None, s))"

definition delete_credential :: "'s credential_ops option \<Rightarrow> string \<Rightarrow> 's \<Rightarrow> go_error option \<times> 's" where
  "delete_credential credentials ref s =
     (if ref \<noteq> '''' then cs_Delete (the credentials) ref s else (None, s))"

definition config_Add ::
  "fs_oracle \<Rightarrow> string \<Rightarrow> 's credential_ops option \<Rightarrow> validator option \<Rightarrow> config_source \<Rightarrow> string \<Rightarrow>
   disk \<times> 's \<Rightarrow> go_error option \<times> disk \<times> 's" where
  "config_Add orc path credentials validator configured credential = (\<lambda>(dk, s).
     case validator of None \<Rightarrow>
       (Some (Plain ''source validator and configured credential store are required''), dk, s)
   | Some validate \<Rightarrow>
     if cf_CredentialRef configured \<noteq> '''' \<and> credentials = None
     then (Some (Plain ''source validator and configured credential store are required''), dk, s)
     else case Load orc path dk of (Inl e, dk) \<Rightarrow> (Some e, dk, s) | (Inr document, dk) \<Rightarrow>
     let candidate = with_source document configured in
     case Validate candidate of Some e \<Rightarrow> (Some e, dk, s) | None \<Rightarrow>
     case validate configured credential of Some e \<Rightarrow> (Some (Wrap ''validate source'' e), dk, s) | None \<Rightarrow>
     case put_credential credentials (cf_CredentialRef configured) credential s of
       (Some e, s) \<Rightarrow> (Some (Wrap ''store source credential'' e), dk, s)
     | (None, s) \<Rightarrow>
     case Save orc path candidate dk of
       (Some e, dk) \<Rightarrow> (Some e, dk, snd (delete_credential credentials (cf_CredentialRef configured) s))
     | (None, dk) \<Rightarrow> (None, dk, s))"

definition config_Test ::
  "fs_oracle \<Rightarrow> string \<Rightarrow> validator option \<Rightarrow> config_source \<Rightarrow> string \<Rightarrow> disk \<Rightarrow> go_error option \<times> disk" where
  "config_Test orc path validator configured credential dk = (case validator of
     None \<Rightarrow> (Some (Plain ''source validator is required''), dk)
   | Some validate \<Rightarrow> case Load orc path dk of (Inl e, dk) \<Rightarrow> (Some e, dk) | (Inr document, dk) \<Rightarrow>
     (case Validate (with_source document configured) of Some e \<Rightarrow> (Some e, dk)
      | None \<Rightarrow> (validate configured credential, dk)))"

fun index_of :: "string \<Rightarrow> config_source list \<Rightarrow> nat option" where
  "index_of sourceID [] = None"
| "index_of sourceID (c # cs) =
     (if cf_ID c = sourceID then Some 0 else map_option Suc (index_of sourceID cs))"

definition without_index :: "document \<Rightarrow> nat \<Rightarrow> document" where
  "without_index d i = (Clone d)\<lparr>doc_Sources := Some (take i (sources_of d) @ drop (Suc i) (sources_of d))\<rparr>"

definition config_Remove ::
  "fs_oracle \<Rightarrow> string \<Rightarrow> 's credential_ops option \<Rightarrow> string \<Rightarrow> disk \<times> 's \<Rightarrow> go_error option \<times> disk \<times> 's" where
  "config_Remove orc path credentials sourceID = (\<lambda>(dk, s).
     case Load orc path dk of (Inl e, dk) \<Rightarrow> (Some e, dk, s) | (Inr document, dk) \<Rightarrow>
     case index_of sourceID (sources_of document) of None \<Rightarrow> (Some (Plain ''source not found''), dk, s)
   | Some index \<Rightarrow>
     let removed = sources_of document ! index; ref = cf_CredentialRef removed in
     case Save orc path (without_index document index) dk of (Some e, dk) \<Rightarrow> (Some e, dk, s) | (None, dk) \<Rightarrow>
     if ref \<noteq> '''' \<and> credentials = None
     then (Some (Plain ''credential store is required''), snd (Save orc path document dk), s)
     else case delete_credential credentials ref s of
       (Some e, s) \<Rightarrow> (Some (Wrap ''delete source credential'' e), snd (Save orc path document dk), s)
     | (None, s) \<Rightarrow> (None, dk, s))"

text \<open>What a load returns is valid.\<close>

lemma migrate_valid: "migrate d = Inr d' \<Longrightarrow> Validate d' = None"
  by (auto simp: migrate_def Let_def Clone_def sources_of_def Validate_def split: if_splits option.splits)

lemma Load_valid: "Load orc path dk = (Inr d, dk') \<Longrightarrow> Validate d = None"
proof -
  have "Validate \<lparr>doc_Version = CurrentVersion, doc_Sources = Some []\<rparr> = None"
    by (simp add: Validate_def sources_of_def)
  moreover assume "Load orc path dk = (Inr d, dk')"
  ultimately show ?thesis
    by (auto simp: Load_def dest: migrate_valid split: prod.splits sum.splits if_splits option.splits)
qed

text \<open>Every credential a document names is in the store.\<close>

definition credentials_present :: "document \<Rightarrow> (string \<rightharpoonup> string) \<Rightarrow> bool" where
  "credentials_present d view \<longleftrightarrow> set (credential_refs (sources_of d)) \<subseteq> dom view"

lemma sources_with_source [simp]: "sources_of (with_source d c) = sources_of d @ [c]"
  by (simp add: with_source_def Clone_def sources_of_def)

lemma credential_refs_append [simp]: "credential_refs (xs @ ys) = credential_refs xs @ credential_refs ys"
  by (simp add: credential_refs_def)

lemma credential_refs_simps [simp]:
  "credential_refs [] = []"
  "credential_refs (c # cs) =
     (if cf_CredentialRef c = '''' then [] else [cf_CredentialRef c]) @ credential_refs cs"
  by (simp_all add: credential_refs_def)

lemma new_ref_fresh:
  "Validate (with_source d c) = None \<Longrightarrow> cf_CredentialRef c \<noteq> '''' \<Longrightarrow>
   cf_CredentialRef c \<notin> set (credential_refs (sources_of d))"
  by (auto simp: Validate_ok)

lemma Save_done:
  "plain_path path \<Longrightarrow> Save orc path d dk = (None, dk') \<Longrightarrow>
   save_done path (encoded_file d) (dk_files dk) (dk_files dk')"
  using Save_crash_safe_aux by blast

context credential_store
begin

lemma Add_outcome:
  assumes s: "inv s" "storable credential" "plain_path path"
    and load: "Load orc path dk = (Inr d, d1)" and present: "credentials_present d (view s)"
    and add: "config_Add orc path (Some ops) (Some validate) c credential (dk, s) = (err, dk', s')"
  shows "inv s'" and "credentials_present d (view s')"
    and "\<And>r. r \<noteq> cf_CredentialRef c \<Longrightarrow> view s' r = view s r"
    and "err = None \<Longrightarrow> save_done path (encoded_file (with_source d c)) (dk_files d1) (dk_files dk') \<and>
      credentials_present (with_source d c) (view s') \<and>
      (cf_CredentialRef c \<noteq> '''' \<longrightarrow> view s' (cf_CredentialRef c) = Some credential)"
    and "err = Some e \<Longrightarrow> (dk' = d1 \<and> view s' = view s) \<or>
      (save_begun path (dk_files d1) (dk_files dk') \<or>
       save_done path (encoded_file (with_source d c)) (dk_files d1) (dk_files dk')) \<and>
      (if cf_CredentialRef c = '''' then view s' = view s
       else \<exists>t e'. view t = (view s)(cf_CredentialRef c \<mapsto> credential) \<and>
         cs_Delete ops (cf_CredentialRef c) t = (e', s') \<and>
         view s' (cf_CredentialRef c) = (if e' = None then None else Some credential))"
proof -
  let ?ref = "cf_CredentialRef c"
  let ?files = "save_begun path (dk_files d1) (dk_files dk') \<or>
       save_done path (encoded_file (with_source d c)) (dk_files d1) (dk_files dk')"
  let ?undone = "if ?ref = '''' then view s' = view s
       else \<exists>t e'. view t = (view s)(?ref \<mapsto> credential) \<and> cs_Delete ops ?ref t = (e', s') \<and>
         view s' ?ref = (if e' = None then None else Some credential)"
  let ?goal = "inv s' \<and> credentials_present d (view s') \<and> (\<forall>r. r \<noteq> ?ref \<longrightarrow> view s' r = view s r) \<and>
    (err = None \<longrightarrow> save_done path (encoded_file (with_source d c)) (dk_files d1) (dk_files dk') \<and>
      credentials_present (with_source d c) (view s') \<and> (?ref \<noteq> '''' \<longrightarrow> view s' ?ref = Some credential)) \<and>
    (err \<noteq> None \<longrightarrow> (dk' = d1 \<and> view s' = view s) \<or> ?files \<and> ?undone)"
  have ?goal
  proof (cases "Validate (with_source d c) = None \<and> validate c credential = None")
    case False
    then have "s' = s" "dk' = d1" "\<exists>e. err = Some e"
      using add load
      by (cases "Validate (with_source d c)"; cases "validate c credential"; auto simp: config_Add_def Let_def)+
    then show ?thesis using s present by auto
  next
    case True
    obtain e1 s1 where p1: "put_credential (Some ops) ?ref credential s = (e1, s1)"
      by (cases "put_credential (Some ops) ?ref credential s")
    show ?thesis
    proof (cases e1)
      case (Some e)
      then have "inv s1 \<and> view s1 = view s" using put_failed [OF s(1,2)] p1 by (auto simp: put_credential_def split: if_splits)
      moreover have "s' = s1" "dk' = d1" "\<exists>e. err = Some e"
        using add load True p1 Some by (auto simp: config_Add_def)
      ultimately show ?thesis using present by (auto simp: credentials_present_def)
    next
      case None
      then have s1: "inv s1" "view s1 = (if ?ref \<noteq> '''' then (view s)(?ref \<mapsto> credential) else view s)"
        using put_ok [OF s(1,2)] p1 s(1) by (auto simp: put_credential_def split: if_splits)
      obtain e2 d2 where sv: "Save orc path (with_source d c) d1 = (e2, d2)"
        by (cases "Save orc path (with_source d c) d1")
      show ?thesis
      proof (cases e2)
        case (Some e)
        then have r: "\<exists>e. err = Some e" "s' = (if ?ref \<noteq> '''' then snd (cs_Delete ops ?ref s1) else s1)" "dk' = d2"
          using add load True p1 None sv by (auto simp: config_Add_def delete_credential_def)
        obtain e3 s3 where d3: "cs_Delete ops ?ref s1 = (e3, s3)" by (cases "cs_Delete ops ?ref s1")
        have s3: "inv s3 \<and> view s3 = (if e3 = None then (view s1)(?ref := None) else view s1)"
          by (rule delete [OF s1(1) d3])
        with r s1 d3 have "inv s'" "\<forall>r. r \<noteq> ?ref \<longrightarrow> view s' r = view s r"
          "?ref = '''' \<Longrightarrow> view s' = view s" by auto
        moreover have "credentials_present d (view s')"
          using present new_ref_fresh [of d c] True calculation(2,3)
          by (cases "?ref = ''''") (auto simp: credentials_present_def subset_iff dom_def; metis)+
        moreover have ?files
          using during_end [OF conjunct1 [OF Save_crash_safe_aux [OF s(3) sv]]] r(3) by simp
        moreover have ?undone
        proof (cases "?ref = ''''")
          case False
          then have "view s1 = (view s)(?ref \<mapsto> credential)" "cs_Delete ops ?ref s1 = (e3, s')"
            "view s' ?ref = (if e3 = None then None else Some credential)"
            using s1(2) r(2) d3 s3 by auto
          then show ?thesis using False by auto
        qed (use calculation(3) in simp)
        moreover have "err \<noteq> None" using r(1) by auto
        ultimately show ?thesis by blast
      next
        case None
        then have r: "err = None" "s' = s1" "dk' = d2"
          using add load True p1 \<open>e1 = None\<close> sv by (auto simp: config_Add_def)
        have "save_done path (encoded_file (with_source d c)) (dk_files d1) (dk_files dk')"
          using Save_done [OF s(3)] sv None r(3) by blast
        with r s1 present show ?thesis by (auto simp: credentials_present_def)
      qed
    qed
  qed
  then show "inv s'" "credentials_present d (view s')" "\<And>r. r \<noteq> ?ref \<Longrightarrow> view s' r = view s r"
    "err = None \<Longrightarrow> save_done path (encoded_file (with_source d c)) (dk_files d1) (dk_files dk') \<and>
      credentials_present (with_source d c) (view s') \<and> (?ref \<noteq> '''' \<longrightarrow> view s' ?ref = Some credential)"
    "err = Some e \<Longrightarrow> (dk' = d1 \<and> view s' = view s) \<or> ?files \<and> ?undone" by blast+
qed

end

lemma index_of_Some:
  "index_of i cs = Some n \<Longrightarrow> n < length cs \<and> cf_ID (cs ! n) = i"
  by (induction cs arbitrary: n) (auto split: if_splits)

lemma sources_without_index [simp]:
  "sources_of (without_index d i) = take i (sources_of d) @ drop (Suc i) (sources_of d)"
  by (simp add: without_index_def Clone_def sources_of_def)

lemma removed_ref_fresh:
  assumes "Validate d = None" and "i < length (sources_of d)"
    and "cf_CredentialRef (sources_of d ! i) \<noteq> ''''"
  shows "set (credential_refs (sources_of (without_index d i))) =
    set (credential_refs (sources_of d)) - {cf_CredentialRef (sources_of d ! i)}"
proof -
  let ?xs = "sources_of d"
  have split: "?xs = take i ?xs @ [?xs ! i] @ drop (Suc i) ?xs"
    using assms(2) id_take_nth_drop by simp
  have "distinct (credential_refs ?xs)" using assms(1) by (simp add: Validate_ok)
  then have "distinct (credential_refs (take i ?xs @ [?xs ! i] @ drop (Suc i) ?xs))" using split by simp
  moreover have "set (credential_refs ?xs) =
      set (credential_refs (take i ?xs @ [?xs ! i] @ drop (Suc i) ?xs))" using split by simp
  ultimately show ?thesis using assms(3) by auto
qed

context credential_store
begin

lemma Remove_outcome:
  assumes s: "inv s" "plain_path path"
    and load: "Load orc path dk = (Inr d, d1)" and present: "credentials_present d (view s)"
    and i: "index_of sourceID (sources_of d) = Some i"
    and rm: "config_Remove orc path (Some ops) sourceID (dk, s) = (err, dk', s')"
  shows "inv s'"
    and "err \<noteq> None \<Longrightarrow> view s' = view s"
    and "err = None \<Longrightarrow> credentials_present (without_index d i) (view s') \<and>
      save_done path (encoded_file (without_index d i)) (dk_files d1) (dk_files dk') \<and>
      view s' = (let ref = cf_CredentialRef (sources_of d ! i) in
        if ref = '''' then view s else (view s)(ref := None))"
proof -
  let ?ref = "cf_CredentialRef (sources_of d ! i)"
  let ?goal = "inv s' \<and> (err \<noteq> None \<longrightarrow> view s' = view s) \<and>
    (err = None \<longrightarrow> credentials_present (without_index d i) (view s') \<and>
      save_done path (encoded_file (without_index d i)) (dk_files d1) (dk_files dk') \<and>
      view s' = (if ?ref = '''' then view s else (view s)(?ref := None)))"
  have len: "i < length (sources_of d)" using index_of_Some [OF i] by blast
  obtain e2 d2 where sv: "Save orc path (without_index d i) d1 = (e2, d2)"
    by (cases "Save orc path (without_index d i) d1")
  have ?goal
  proof (cases e2)
    case (Some e)
    then have "s' = s" "\<exists>e. err = Some e" using rm load i sv by (auto simp: config_Remove_def Let_def)
    then show ?thesis using s(1) by auto
  next
    case None
    then have saved: "save_done path (encoded_file (without_index d i)) (dk_files d1) (dk_files d2)"
      using Save_done [OF s(2)] sv by blast
    obtain e3 s3 where d3: "delete_credential (Some ops) ?ref s = (e3, s3)"
      by (cases "delete_credential (Some ops) ?ref s")
    have s3: "inv s3 \<and> view s3 = (if e3 = None \<and> ?ref \<noteq> '''' then (view s)(?ref := None) else view s)"
      using delete [OF s(1)] d3 s(1) by (auto simp: delete_credential_def split: if_splits)
    show ?thesis
    proof (cases e3)
      case (Some e)
      then have "s' = s3" "\<exists>e. err = Some e"
        using rm load i sv None d3 by (auto simp: config_Remove_def Let_def)
      with s3 Some show ?thesis by auto
    next
      case e3: None
      then have r: "s' = s3" "err = None" "dk' = d2"
        using rm load i sv None d3 by (auto simp: config_Remove_def Let_def)
      have "credentials_present (without_index d i) (view s')"
      proof (cases "?ref = ''''")
        case True
        have "set (credential_refs (take i (sources_of d))) \<union> set (credential_refs (drop (Suc i) (sources_of d)))
            \<subseteq> set (credential_refs (sources_of d))"
          unfolding credential_refs_def by (auto dest: in_set_takeD in_set_dropD)
        with True r(1) s3 present show ?thesis by (auto simp: credentials_present_def)
      next
        case False
        have "set (credential_refs (sources_of (without_index d i))) \<subseteq> dom (view s) - {?ref}"
          using removed_ref_fresh [OF Load_valid [OF load] len False] present
          by (auto simp: credentials_present_def)
        with False r(1) s3 e3 show ?thesis by (auto simp: credentials_present_def)
      qed
      with r s3 e3 saved show ?thesis by auto
    qed
  qed
  then show "inv s'" "err \<noteq> None \<Longrightarrow> view s' = view s"
    "err = None \<Longrightarrow> credentials_present (without_index d i) (view s') \<and>
      save_done path (encoded_file (without_index d i)) (dk_files d1) (dk_files dk') \<and>
      view s' = (let ref = ?ref in if ref = '''' then view s else (view s)(ref := None))"
    by (auto simp: Let_def)
qed

end

text \<open>C16. Over any credential store that keeps the contract, adding a source keeps the credentials of the
  configured sources: whatever fails, every credential the loaded document names is still in the store and
  no entry but the new source's is touched.  A nil result means that the file is the encoded document
  with the source and that every credential it names is stored, the new one with the given value.  After a
  failure before the credential was stored, nothing has changed.  When the save failed, the file is the
  old one, or the whole new one when only the work after its rename failed; then the new credential has
  been deleted again, unless the deletion failed too, so that in the second case the file names a
  credential that is gone.\<close>

theorem Add_keeps_credentials:
  assumes "credential_store ops ok view storable" and "ok s" and "storable credential" and "plain_path path"
    and "Load orc path dk = (Inr d, d1)" and "credentials_present d (view s)"
    and "config_Add orc path (Some ops) (Some validate) c credential (dk, s) = (err, dk', s')"
  shows "ok s' \<and> credentials_present d (view s') \<and> (\<forall>r. r \<noteq> cf_CredentialRef c \<longrightarrow> view s' r = view s r) \<and>
    (case err of
       None \<Rightarrow> save_done path (encoded_file (with_source d c)) (dk_files d1) (dk_files dk') \<and>
         credentials_present (with_source d c) (view s') \<and>
         (cf_CredentialRef c \<noteq> '''' \<longrightarrow> view s' (cf_CredentialRef c) = Some credential)
     | Some e \<Rightarrow> (dk' = d1 \<and> view s' = view s) \<or>
         (save_begun path (dk_files d1) (dk_files dk') \<or>
          save_done path (encoded_file (with_source d c)) (dk_files d1) (dk_files dk')) \<and>
         (if cf_CredentialRef c = '''' then view s' = view s
          else \<exists>t e'. view t = (view s)(cf_CredentialRef c \<mapsto> credential) \<and>
            cs_Delete ops (cf_CredentialRef c) t = (e', s') \<and>
            view s' (cf_CredentialRef c) = (if e' = None then None else Some credential)))"
  using credential_store.Add_outcome [OF assms] by (cases err) simp_all

definition demo_source :: config_source where
  "demo_source = \<lparr>cf_ID = ''s1'', cf_Name = ''Shop'', cf_Alias = ''shop'', cf_Type = ''postgres'',
     cf_DatabaseType = '''', cf_Enabled = True, cf_CredentialRef = ''shop-password'', cf_Options = ''{}''\<rparr>"

definition empty_store :: "memory \<times> heap \<times> nat set" where "empty_store = (NewMemory, [], {})"

lemma empty_store_inv: "memory_world_inv empty_store" "memory_view empty_store = Map.empty"
  by (auto simp: memory_world_inv_def memory_view_def empty_store_def memory_inv_def NewMemory_def contents_def)

definition sync_fails :: fs_oracle where
  "sync_fails = \<lparr>or_fault = (\<lambda>n. if n = 9 then Some (Fault (Plain ''input/output error'') 0) else None),
     or_temp = (\<lambda>_. ''1'')\<rparr>"

lemma demo_candidate:
  "Validate (with_source empty_document demo_source) = None"
  "\<exists>enc. encode_document (with_source empty_document demo_source) = Inr enc"
proof -
  show "Validate (with_source empty_document demo_source) = None" by code_simp
  have "case encode_sources (sources_of (with_source empty_document demo_source)) of Inl _ \<Rightarrow> False
    | Inr xs \<Rightarrow> json_unmarshal (document_text (with_source empty_document demo_source) xs) \<noteq> None" by code_simp
  then show "\<exists>enc. encode_document (with_source empty_document demo_source) = Inr enc"
    by (auto simp: encode_document_def split: sum.splits)
qed

abbreviation demo_candidate_document :: document where
  "demo_candidate_document \<equiv> with_source empty_document demo_source"

abbreviation loaded_disk :: disk where
  "loaded_disk \<equiv> \<lparr>dk_files = Map.empty, dk_log = [Map.empty]\<rparr>"

lemma demo_loads:
  "Load calm_oracle demo_path demo_disk = (Inr empty_document, loaded_disk)"
  "Load sync_fails demo_path demo_disk = (Inr empty_document, loaded_disk)"
  by (simp_all add: Load_def loadFile_def fs_ReadFile_def demo_disk_def empty_document_def fs_other_def
      sys_call_def sync_fails_def calm_oracle_def)

lemmas demo_save = Save_def demo_candidate(1) fs_other_def sys_call_def backup_existing_def fs_ReadFile_def
  writeAtomic_def fs_CreateTemp_def demo_dir write_temporary_def fs_Write_def fs_Sync_def replaceFile_def
  fs_Rename_def sync_directory_def fs_Remove_def is_sentinel.simps

lemma demo_saves:
  "\<exists>dk. Save calm_oracle demo_path demo_candidate_document loaded_disk = (None, dk)"
proof -
  obtain enc where enc: "encode_document demo_candidate_document = Inr enc"
    using demo_candidate(2) by blast
  show ?thesis by (simp add: demo_save enc calm_oracle_def demo_temp_def [symmetric])
qed

lemma Save_fails_after_rename:
  "\<exists>e dk. Save sync_fails demo_path demo_candidate_document loaded_disk = (Some e, dk) \<and>
     save_done demo_path (encoded_file demo_candidate_document) Map.empty (dk_files dk)"
proof -
  obtain enc where enc: "encode_document demo_candidate_document = Inr enc"
    using demo_candidate(2) by blast
  show ?thesis
    by (simp add: demo_save enc sync_fails_def demo_temp_def [symmetric] save_done_def backed_up_def encoded_file_def)
qed

lemma demo_put: "memory_put ''shop-password'' ''pass'' empty_store =
    (None, ([(''shop-password'', Suc 0)], [''pass'', ''pass''], {0}))"
  by (simp add: memory_put_def empty_store_def alloc_def Memory_Put_def NewMemory_def)

lemma demo_ref: "cf_CredentialRef demo_source = ''shop-password''"
  by (simp add: demo_source_def)

lemma demo_adds:
  "\<exists>dk s. config_Add calm_oracle demo_path (Some memory_ops) (Some (\<lambda>_ _. None)) demo_source ''pass''
     (demo_disk, empty_store) = (None, dk, s)"
proof -
  obtain dk where "Save calm_oracle demo_path demo_candidate_document loaded_disk = (None, dk)"
    using demo_saves by blast
  then show ?thesis
    by (simp add: config_Add_def demo_loads demo_candidate(1) put_credential_def demo_ref memory_ops_def demo_put)
qed

text \<open>A source is added to an empty configuration, on a disk without faults.\<close>

theorem Add_keeps_credentials_witness:
  "\<exists>dk s. config_Add calm_oracle demo_path (Some memory_ops) (Some (\<lambda>_ _. None)) demo_source ''pass''
       (demo_disk, empty_store) = (None, dk, s) \<and>
     save_done demo_path (encoded_file demo_candidate_document) Map.empty (dk_files dk) \<and>
     memory_view s ''shop-password'' = Some ''pass''"
proof -
  obtain dk s where a: "config_Add calm_oracle demo_path (Some memory_ops) (Some (\<lambda>_ _. None)) demo_source ''pass''
      (demo_disk, empty_store) = (None, dk, s)" using demo_adds by blast
  have p: "credentials_present empty_document (memory_view empty_store)"
    by (simp add: credentials_present_def empty_document_def sources_of_def credential_refs_def)
  show ?thesis
    using Add_keeps_credentials [OF mem.credential_store_axioms empty_store_inv(1) TrueI demo_plain demo_loads(1) p a] a
    by (simp add: demo_ref)
qed

text \<open>A save that fails after its rename - here when the directory is opened to be synced - makes Add
  delete the credential of a source that the file on the disk now has.\<close>

lemma Add_deletes_saved_credential:
  "\<exists>e dk s. config_Add sync_fails demo_path (Some memory_ops) (Some (\<lambda>_ _. None)) demo_source ''pass''
       (demo_disk, empty_store) = (Some e, dk, s) \<and>
     save_done demo_path (encoded_file demo_candidate_document) (dk_files demo_disk) (dk_files dk) \<and>
     memory_view s ''shop-password'' = None"
proof -
  have s2: "memory_delete ''shop-password'' ([(''shop-password'', Suc 0)], [''pass'', ''pass''], {0}) =
      (None, ([], [''pass'', replicate 4 CHR 0x00], {0}))"
    by (simp add: memory_delete_def Memory_Delete_def clear_buffer_def numeral_eq_Suc)
  obtain e dk where sv: "Save sync_fails demo_path demo_candidate_document loaded_disk = (Some e, dk)"
    "save_done demo_path (encoded_file demo_candidate_document) Map.empty (dk_files dk)"
    using Save_fails_after_rename by blast
  have f0: "dk_files demo_disk = Map.empty" by (simp add: demo_disk_def)
  have "config_Add sync_fails demo_path (Some memory_ops) (Some (\<lambda>_ _. None)) demo_source ''pass''
       (demo_disk, empty_store) = (Some e, dk, ([], [''pass'', replicate 4 CHR 0x00], {0}))"
    by (simp add: config_Add_def demo_loads demo_candidate(1) put_credential_def delete_credential_def demo_ref
        memory_ops_def demo_put s2 sv(1))
  then show ?thesis using sv(2) by (auto simp: f0 memory_view_def contents_def)
qed

end
