(* ===== verification/Adapters.thy ===== *)
theory Adapters
  imports EngineSafety Jsonenc
begin

text \<open>
  The source adapters (internal/source/filedb, mysql, postgres, odbc) over the engine.  An adapter is
  the record of the methods of the interface \<open>source.Adapter\<close> over a world \<open>'w\<close>; here the world is
  the engine's state with the history of its calls, and each adapter is built from its configuration
  and credential.  The dialer's connectivity check is a call \<open>Dial\<close> of the environment.

  \<open>QueryRow\<close> of an engine that is not running panics.  An adapter calls it after an attach that
  succeeded, or for a source that is attached; the reply \<open>nil_database\<close> stands for the panic.
\<close>

record 'w adapter =
  ad_Type :: string
  ad_Validate :: "source_def \<Rightarrow> 'w \<Rightarrow> go_error option \<times> 'w"
  ad_Attach :: "source_def \<Rightarrow> 'w \<Rightarrow> go_error option \<times> 'w"
  ad_Metadata :: "source_def \<Rightarrow> 'w \<Rightarrow> (metadata_row list \<times> go_error option) \<times> 'w"
  ad_Health :: "source_def \<Rightarrow> 'w \<Rightarrow> go_error option \<times> 'w"
  ad_Cleanup :: "source_def \<Rightarrow> 'w \<Rightarrow> go_error option \<times> 'w"
  ad_Posture :: "(source_def \<Rightarrow> 'w \<Rightarrow> string list res \<times> 'w) option"  \<comment> \<open>\<open>postureInspector\<close>\<close>

section \<open>The engine as the adapters see it\<close>

type_synonym eworld = "engine \<times> hist"

definition ask :: "env \<Rightarrow> call \<Rightarrow> eworld \<Rightarrow> reply \<times> eworld" where
  "ask env c = (\<lambda>(en, h). (env h c, (en, h @ [c])))"

definition e_Attach :: "env \<Rightarrow> attachment \<Rightarrow> eworld \<Rightarrow> go_error option \<times> eworld" where
  "e_Attach env a = (\<lambda>(en, h). case engine_Attach env a en h of ((r, en'), h') \<Rightarrow> (r, (en', h')))"

definition e_AttachODBC :: "env \<Rightarrow> odbc_attachment \<Rightarrow> eworld \<Rightarrow> go_error option \<times> eworld" where
  "e_AttachODBC env a = (\<lambda>(en, h). case engine_AttachODBC env a en h of ((r, en'), h') \<Rightarrow> (r, (en', h')))"

definition e_Detach :: "env \<Rightarrow> string \<Rightarrow> string \<Rightarrow> eworld \<Rightarrow> go_error option \<times> eworld" where
  "e_Detach env alias i = (\<lambda>(en, h). case engine_Detach env alias i en h of ((r, en'), h') \<Rightarrow> (r, (en', h')))"

definition e_Query :: "env \<Rightarrow> string \<Rightarrow> arg list \<Rightarrow> eworld \<Rightarrow> reply \<times> eworld" where
  "e_Query env q args = (\<lambda>(en, h). case engine_Query env q args en h of (r, h') \<Rightarrow> (r, (en, h')))"

definition nil_database :: go_error where "nil_database = Plain ''panic: sql: database has no connector''"

definition e_QueryRow :: "env \<Rightarrow> string \<Rightarrow> arg list \<Rightarrow> eworld \<Rightarrow> reply \<times> eworld" where
  "e_QueryRow env q args = (\<lambda>(en, h). case engine_QueryRow env q args en h of
     (None, h') \<Rightarrow> (RErr nil_database, (en, h')) | (Some r, h') \<Rightarrow> (r, (en, h')))"

definition e_ODBCQuery ::
  "env \<Rightarrow> string \<Rightarrow> string \<Rightarrow> string \<Rightarrow> string \<Rightarrow> string \<Rightarrow> eworld \<Rightarrow> reply \<times> eworld" where
  "e_ODBCQuery env i connection username password query = (\<lambda>(en, h).
     case engine_ODBCQuery env i connection username password query en h of ((r, en'), h') \<Rightarrow> (r, (en', h')))"

definition e_ClearODBC :: "string \<Rightarrow> eworld \<Rightarrow> eworld" where
  "e_ClearODBC i = (\<lambda>(en, h). (engine_ClearODBC i en, h))"

definition e_RegisterObjectTypes ::
  "env \<Rightarrow> string \<Rightarrow> object_type list \<Rightarrow> eworld \<Rightarrow> go_error option \<times> eworld" where
  "e_RegisterObjectTypes env i objects = (\<lambda>(en, h).
     case engine_RegisterObjectTypes env i objects en h of (r, h') \<Rightarrow> (r, (en, h')))"

definition e_UpdateDatabaseType :: "env \<Rightarrow> string \<Rightarrow> string \<Rightarrow> eworld \<Rightarrow> go_error option \<times> eworld" where
  "e_UpdateDatabaseType env i t = (\<lambda>(en, h). case engine_UpdateDatabaseType env i t en h of (r, h') \<Rightarrow> (r, (en, h')))"

text \<open>The dial and the close of its connection.\<close>

definition dial :: "env \<Rightarrow> string \<Rightarrow> string \<Rightarrow> eworld \<Rightarrow> go_error option \<times> eworld" where
  "dial env message address w = (case ask env (Dial address) w of (r, w) \<Rightarrow>
     (case reply_error r of
        Some e \<Rightarrow> (Some (Wrap message e), w)
      | None \<Rightarrow> (case ask env HangUp w of (r, w) \<Rightarrow> (reply_error r, w))))"

section \<open>What the adapters share\<close>

definition check_definition :: "source_def \<Rightarrow> go_error option" where
  "check_definition d =
     (if sd_ID d = '''' \<or> sd_Name d = '''' then Some (Plain ''source id and name are required'')
      else ValidateAlias (sd_Alias d))"

definition null_text :: "cell \<Rightarrow> string sql_null option" where
  "null_text c = (case c of CText s \<Rightarrow> Some \<lparr>n_Value = s, n_Valid = True\<rparr>
   | CNull \<Rightarrow> Some \<lparr>n_Value = '''', n_Valid = False\<rparr> | _ \<Rightarrow> None)"

definition null_int :: "cell \<Rightarrow> int sql_null option" where
  "null_int c = (case c of CInt i \<Rightarrow> Some \<lparr>n_Value = i, n_Valid = True\<rparr>
   | CNull \<Rightarrow> Some \<lparr>n_Value = 0, n_Valid = False\<rparr> | _ \<Rightarrow> None)"

definition null_bool :: "cell \<Rightarrow> bool sql_null option" where
  "null_bool c = (case c of CBool b \<Rightarrow> Some \<lparr>n_Value = b, n_Valid = True\<rparr>
   | CNull \<Rightarrow> Some \<lparr>n_Value = False, n_Valid = False\<rparr> | _ \<Rightarrow> None)"

definition cell_text :: "cell \<Rightarrow> string option" where
  "cell_text c = (case c of CText s \<Rightarrow> Some s | _ \<Rightarrow> None)"

definition scan_metadata :: "cell list \<Rightarrow> scanned_row res" where
  "scan_metadata row =
     (if length row \<noteq> 15 then Inl scan_error
      else if list_ex (\<lambda>c. cell_text c = None) (take 6 row) \<or>
        list_ex (\<lambda>i. null_text (row ! i) = None) [6, 7, 8, 9, 11, 14] \<or> null_int (row ! 10) = None \<or>
        list_ex (\<lambda>i. null_bool (row ! i) = None) [12, 13] then Inl scan_error
      else let text = (\<lambda>i. the (cell_text (row ! i))); nullable = (\<lambda>i. the (null_text (row ! i))) in
        Inr \<lparr>sc_SourceID = text 0, sc_SourceName = text 1, sc_ConnectorType = text 2,
          sc_DatabaseType = text 3, sc_SourceHealth = text 4, sc_CatalogName = text 5,
          sc_SchemaName = nullable 6, sc_ObjectName = nullable 7, sc_ObjectType = nullable 8,
          sc_ColumnName = nullable 9, sc_OrdinalPosition = the (null_int (row ! 10)),
          sc_DuckDBType = nullable 11, sc_Nullable = the (null_bool (row ! 12)),
          sc_IsSystemSchema = the (null_bool (row ! 13)), sc_ErrorCode = nullable 14\<rparr>)"

definition metadata_query :: string where
  "metadata_query = ''SELECT source_id, source_name, connector_type, database_type, source_health, catalog_name, schema_name, object_name, object_type, column_name, ordinal_position, duckdb_type, nullable, is_system_schema, error_code FROM quackridge_metadata_v2() WHERE source_id = ? ORDER BY schema_name, object_name, ordinal_position''"

definition metadata_rows :: "reply \<Rightarrow> scanned_row query_rows" where
  "metadata_rows r = (case r of
     RErr e \<Rightarrow> Inl e | RRows rows final \<Rightarrow> Inr (map scan_metadata rows, final) | _ \<Rightarrow> Inr ([], None))"

definition read_metadata ::
  "env \<Rightarrow> source_def \<Rightarrow> eworld \<Rightarrow> (metadata_row list \<times> go_error option) \<times> eworld" where
  "read_metadata env d w = (case e_Query env metadata_query [AText (sd_ID d)] w of
     (r, w) \<Rightarrow> (ReadMetadata (\<lambda>_. metadata_rows r) (sd_ID d), w))"

text \<open>The rows of schema, name and type.\<close>

fun scan_objects :: "cell list list \<Rightarrow> object_type list \<Rightarrow> object_type list res" where
  "scan_objects [] objects = Inr objects"
| "scan_objects ([CText schema, CText name, CText type] # rows) objects =
     scan_objects rows (objects @ [\<lparr>ob_Schema = schema, ob_Name = name, ob_Type = type\<rparr>])"
| "scan_objects (_ # rows) objects = Inl scan_error"

definition object_rows :: "string \<Rightarrow> reply \<Rightarrow> object_type list res" where
  "object_rows message r = (case r of
     RErr e \<Rightarrow> Inl (Wrap message e)
   | RRows rows final \<Rightarrow> (case scan_objects rows [] of Inl e \<Rightarrow> Inl e
       | Inr objects \<Rightarrow> (case final of Some e \<Rightarrow> Inl e | None \<Rightarrow> Inr objects))
   | _ \<Rightarrow> Inr [])"

definition remote_query :: "string \<Rightarrow> string \<Rightarrow> string \<Rightarrow> string \<Rightarrow> string" where
  "remote_query columns function alias query =
     ''SELECT '' @ columns @ '' FROM '' @ function @ ''('' @ sql_literal alias @ '', '' @ sql_literal query @ '')''"

definition objects_query :: string where
  "objects_query = ''SELECT table_schema, table_name, CASE WHEN table_type = '' @ sql_literal ''VIEW'' @
     '' THEN '' @ sql_literal ''view'' @ '' ELSE '' @ sql_literal ''table'' @
     '' END AS object_type FROM information_schema.tables''"

definition register_objects ::
  "env \<Rightarrow> string \<Rightarrow> string \<Rightarrow> source_def \<Rightarrow> eworld \<Rightarrow> go_error option \<times> eworld" where
  "register_objects env function message d w =
     (case e_Query env (remote_query ''table_schema, table_name, object_type'' function (sd_Alias d) objects_query) [] w of
        (r, w) \<Rightarrow> (case object_rows message r of Inl e \<Rightarrow> (Some e, w)
          | Inr objects \<Rightarrow> e_RegisterObjectTypes env (sd_ID d) objects w))"

text \<open>The detach of a failed attach, whose own error is dropped.\<close>

definition give_back :: "env \<Rightarrow> source_def \<Rightarrow> go_error \<Rightarrow> eworld \<Rightarrow> go_error option \<times> eworld" where
  "give_back env d e w = (Some e, snd (e_Detach env (sd_Alias d) (sd_ID d) w))"

definition cleanup :: "env \<Rightarrow> source_def \<Rightarrow> eworld \<Rightarrow> go_error option \<times> eworld" where
  "cleanup env d = e_Detach env (sd_Alias d) (sd_ID d)"

section \<open>Database files\<close>

definition filedb_Validate :: "env \<Rightarrow> string \<Rightarrow> string \<Rightarrow> source_def \<Rightarrow> eworld \<Rightarrow> go_error option \<times> eworld" where
  "filedb_Validate env connector path d w = (case check_definition d of Some e \<Rightarrow> (Some e, w) | None \<Rightarrow>
     if connector \<noteq> ''sqlite'' \<and> connector \<noteq> ''duckdb'' then (Some (Plain ''unsupported file connector''), w)
     else if sd_DatabaseType d \<noteq> '''' \<and> sd_DatabaseType d \<noteq> connector
     then (Some (Plain ''file database type must match its connector''), w)
     else if \<not> filepath_IsAbs path then (Some (Plain ''database path must be absolute''), w)
     else case ask env (Stat path) w of (r, w) \<Rightarrow>
       (if r \<noteq> RRegular True then Some (Plain ''database file is unavailable'') else None, w))"

definition filedb_attachment :: "string \<Rightarrow> string \<Rightarrow> source_def \<Rightarrow> attachment" where
  "filedb_attachment connector path d = \<lparr>at_SourceID = sd_ID d, at_SourceName = sd_Name d,
     at_Alias = sd_Alias d, at_Type = connector, at_DatabaseType = connector, at_Connection = path,
     at_Secret = [], at_ReadOnly = True\<rparr>"

definition filedb_Attach :: "env \<Rightarrow> string \<Rightarrow> string \<Rightarrow> source_def \<Rightarrow> eworld \<Rightarrow> go_error option \<times> eworld" where
  "filedb_Attach env connector path d w = (case filedb_Validate env connector path d w of
     (Some e, w) \<Rightarrow> (Some e, w) | (None, w) \<Rightarrow> e_Attach env (filedb_attachment connector path d) w)"

definition filedb_Health :: "env \<Rightarrow> source_def \<Rightarrow> eworld \<Rightarrow> go_error option \<times> eworld" where
  "filedb_Health env d w =
     (case e_QueryRow env ''SELECT count(*) FROM duckdb_databases() WHERE database_name = ?'' [AText (sd_Alias d)] w of
        (r, w) \<Rightarrow> (if scan_int r \<noteq> Inr 1 then Some (Plain ''database file health check failed'') else None, w))"

definition filedb_adapter :: "env \<Rightarrow> string \<Rightarrow> string \<Rightarrow> eworld adapter" where
  "filedb_adapter env connector path = \<lparr>ad_Type = connector, ad_Validate = filedb_Validate env connector path,
     ad_Attach = filedb_Attach env connector path, ad_Metadata = read_metadata env,
     ad_Health = filedb_Health env, ad_Cleanup = cleanup env, ad_Posture = None\<rparr>"

section \<open>MySQL\<close>

record mysql_config =
  my_Host :: string
  my_Port :: int
  my_Database :: string
  my_User :: string
  my_SSLMode :: string

definition mysql_ssl_modes :: "string list" where
  "mysql_ssl_modes = [''disabled'', ''required'', ''verify_ca'', ''verify_identity'', ''preferred'']"

definition mysql_Validate :: "env \<Rightarrow> mysql_config \<Rightarrow> source_def \<Rightarrow> eworld \<Rightarrow> go_error option \<times> eworld" where
  "mysql_Validate env c d w = (case check_definition d of Some e \<Rightarrow> (Some e, w) | None \<Rightarrow>
     if my_Host c = '''' \<or> my_Database c = '''' \<or> my_User c = ''''
     then (Some (Plain ''host, database, and user are required''), w)
     else if sd_DatabaseType d \<noteq> '''' \<and> sd_DatabaseType d \<noteq> ''mysql'' \<and> sd_DatabaseType d \<noteq> ''mariadb''
     then (Some (Plain ''MySQL database type must be mysql or mariadb''), w)
     else if my_Port c < 1 \<or> my_Port c > 65535 then (Some (Plain ''invalid MySQL port''), w)
     else if \<not> List.member mysql_ssl_modes (my_SSLMode c) then (Some (Plain ''invalid MySQL SSL mode''), w)
     else dial env ''MySQL connectivity check failed'' (JoinHostPort (my_Host c) (itoa (my_Port c))) w)"

definition mysql_secretValues :: "mysql_config \<Rightarrow> string \<Rightarrow> (string \<times> string) list" where
  "mysql_secretValues c password = [(''HOST'', my_Host c), (''PORT'', itoa (my_Port c)),
     (''DATABASE'', my_Database c), (''USER'', my_User c), (''PASSWORD'', password),
     (''SSL_MODE'', my_SSLMode c)]"

definition mysql_attachment :: "mysql_config \<Rightarrow> string \<Rightarrow> source_def \<Rightarrow> attachment" where
  "mysql_attachment c password d = \<lparr>at_SourceID = sd_ID d, at_SourceName = sd_Name d,
     at_Alias = sd_Alias d, at_Type = ''mysql'', at_DatabaseType = or_default (sd_DatabaseType d) ''mysql'',
     at_Connection = '''', at_Secret = mysql_secretValues c password, at_ReadOnly = True\<rparr>"

text \<open>After the ATTACH: the version, the refined database type, the objects; each failure detaches.\<close>

definition mysql_finish :: "env \<Rightarrow> source_def \<Rightarrow> eworld \<Rightarrow> go_error option \<times> eworld" where
  "mysql_finish env d w =
     (case e_QueryRow env (remote_query ''version'' ''mysql_query'' (sd_Alias d) ''SELECT VERSION() AS version'') [] w of
        (r, w) \<Rightarrow> (case scan_text r of
          Inl e \<Rightarrow> give_back env d (Wrap ''MySQL health check failed'' e) w
        | Inr version \<Rightarrow>
            (case (if sd_DatabaseType d = '''' \<and> contains ''mariadb'' (to_lower version)
                   then e_UpdateDatabaseType env (sd_ID d) ''mariadb'' w else (None, w)) of
               (Some e, w) \<Rightarrow> give_back env d e w
             | (None, w) \<Rightarrow>
                 (case register_objects env ''mysql_query'' ''load MySQL object metadata'' d w of
                    (Some e, w) \<Rightarrow> give_back env d e w | (None, w) \<Rightarrow> (None, w)))))"

definition mysql_Attach :: "env \<Rightarrow> mysql_config \<Rightarrow> string \<Rightarrow> source_def \<Rightarrow> eworld \<Rightarrow> go_error option \<times> eworld" where
  "mysql_Attach env c password d w = (case mysql_Validate env c d w of (Some e, w) \<Rightarrow> (Some e, w) | (None, w) \<Rightarrow>
     case e_Attach env (mysql_attachment c password d) w of (Some e, w) \<Rightarrow> (Some e, w)
   | (None, w) \<Rightarrow> mysql_finish env d w)"

definition mysql_Health :: "env \<Rightarrow> source_def \<Rightarrow> eworld \<Rightarrow> go_error option \<times> eworld" where
  "mysql_Health env d w =
     (case e_QueryRow env (remote_query ''value'' ''mysql_query'' (sd_Alias d) ''SELECT 1 AS value'') [] w of
        (r, w) \<Rightarrow> (case scan_int r of Inl e \<Rightarrow> Some (Wrap ''MySQL health check failed'' e) | Inr _ \<Rightarrow> None, w))"

definition mysql_adapter :: "env \<Rightarrow> mysql_config \<Rightarrow> string \<Rightarrow> eworld adapter" where
  "mysql_adapter env c password = \<lparr>ad_Type = ''mysql'', ad_Validate = mysql_Validate env c,
     ad_Attach = mysql_Attach env c password, ad_Metadata = read_metadata env,
     ad_Health = mysql_Health env, ad_Cleanup = cleanup env, ad_Posture = None\<rparr>"

section \<open>PostgreSQL\<close>

record postgres_config =
  pg_Host :: string
  pg_Port :: int
  pg_Database :: string
  pg_User :: string
  pg_SSLMode :: string
  pg_RootCertRef :: string
  pg_Options :: "(string \<times> string) list"

record postgres_credential =
  pc_Password :: string
  pc_RootCertificatePath :: string

definition validSSLMode :: "string \<Rightarrow> bool" where
  "validSSLMode v \<longleftrightarrow>
     List.member [''disable'', ''allow'', ''prefer'', ''require'', ''verify-ca'', ''verify-full''] v"

definition safeOption :: "string \<Rightarrow> bool" where
  "safeOption key \<longleftrightarrow> List.member [''connect_timeout'', ''application_name'', ''keepalives'',
     ''keepalives_idle'', ''options''] (to_lower key)"

definition verifies_certificate :: "string \<Rightarrow> bool" where
  "verifies_certificate mode \<longleftrightarrow> mode = ''verify-ca'' \<or> mode = ''verify-full''"

definition postgres_Validate ::
  "env \<Rightarrow> postgres_config \<Rightarrow> postgres_credential \<Rightarrow> source_def \<Rightarrow> eworld \<Rightarrow> go_error option \<times> eworld" where
  "postgres_Validate env c cred d w = (case check_definition d of Some e \<Rightarrow> (Some e, w) | None \<Rightarrow>
     if pg_Host c = '''' \<or> pg_Database c = '''' \<or> pg_User c = ''''
     then (Some (Plain ''host, database, and user are required''), w)
     else if pg_Port c < 1 \<or> pg_Port c > 65535 then (Some (Plain ''invalid PostgreSQL port''), w)
     else if \<not> validSSLMode (pg_SSLMode c) then (Some (Plain ''invalid PostgreSQL SSL mode''), w)
     else if verifies_certificate (pg_SSLMode c) \<and> (pg_RootCertRef c = '''' \<or> pc_RootCertificatePath cred = '''')
     then (Some (Plain (''root certificate reference is required for '' @ pg_SSLMode c)), w)
     else if pc_Password cred = '''' then (Some (Plain ''PostgreSQL credential is unavailable''), w)
     else dial env ''PostgreSQL connectivity check failed'' (JoinHostPort (pg_Host c) (itoa (pg_Port c))) w)"

fun add_options :: "(string \<times> string) list \<Rightarrow> (string \<times> string) list \<Rightarrow> (string \<times> string) list" where
  "add_options [] values = values"
| "add_options ((key, v) # rest) values =
     add_options rest (if safeOption key then AList.update (to_upper key) v values else values)"

definition postgres_secretValues :: "postgres_config \<Rightarrow> postgres_credential \<Rightarrow> (string \<times> string) list" where
  "postgres_secretValues c cred =
     (let values = add_options (pg_Options c) [(''HOST'', pg_Host c), (''PORT'', itoa (pg_Port c)),
            (''DATABASE'', pg_Database c), (''USER'', pg_User c), (''PASSWORD'', pc_Password cred),
            (''SSLMODE'', pg_SSLMode c)]
      in if pc_RootCertificatePath cred \<noteq> ''''
         then AList.update ''SSLROOTCERT'' (pc_RootCertificatePath cred) values else values)"

definition postgres_attachment :: "postgres_config \<Rightarrow> postgres_credential \<Rightarrow> source_def \<Rightarrow> attachment" where
  "postgres_attachment c cred d = \<lparr>at_SourceID = sd_ID d, at_SourceName = sd_Name d,
     at_Alias = sd_Alias d, at_Type = ''postgres'', at_DatabaseType = ''postgres'',
     at_Connection = '''', at_Secret = postgres_secretValues c cred, at_ReadOnly = True\<rparr>"

definition read_only_query :: "string \<Rightarrow> string" where
  "read_only_query alias = remote_query ''setting'' ''postgres_query'' alias
     (''SELECT current_setting('' @ sql_literal ''transaction_read_only'' @ '') AS setting'')"

definition verifyReadOnly :: "env \<Rightarrow> string \<Rightarrow> eworld \<Rightarrow> go_error option \<times> eworld" where
  "verifyReadOnly env alias w = (case e_QueryRow env (read_only_query alias) [] w of (r, w) \<Rightarrow>
     (case scan_text r of
        Inl e \<Rightarrow> Some (Wrap ''verify PostgreSQL read-only transaction'' e)
      | Inr setting \<Rightarrow> if setting \<noteq> ''on''
          then Some (Plain ''PostgreSQL role does not default to read-only transactions'') else None, w))"

definition postgres_Attach ::
  "env \<Rightarrow> postgres_config \<Rightarrow> postgres_credential \<Rightarrow> source_def \<Rightarrow> eworld \<Rightarrow> go_error option \<times> eworld" where
  "postgres_Attach env c cred d w = (case postgres_Validate env c cred d w of (Some e, w) \<Rightarrow> (Some e, w) | (None, w) \<Rightarrow>
     case e_Attach env (postgres_attachment c cred d) w of (Some e, w) \<Rightarrow> (Some e, w) | (None, w) \<Rightarrow>
     case verifyReadOnly env (sd_Alias d) w of (Some e, w) \<Rightarrow> give_back env d e w | (None, w) \<Rightarrow>
     case register_objects env ''postgres_query'' ''load PostgreSQL object metadata'' d w of
       (Some e, w) \<Rightarrow> give_back env d e w | (None, w) \<Rightarrow> (None, w))"

text \<open>The adapter has a metadata reader of its own.\<close>

definition postgres_Metadata ::
  "env \<Rightarrow> source_def \<Rightarrow> eworld \<Rightarrow> (metadata_row list \<times> go_error option) \<times> eworld" where
  "postgres_Metadata env d w = (case e_Query env metadata_query [AText (sd_ID d)] w of (r, w) \<Rightarrow>
     (case metadata_rows r of Inl e \<Rightarrow> (([], Some e), w)
      | Inr (scans, final) \<Rightarrow> (case scan_rows scans [] of
          Inl e \<Rightarrow> (([], Some e), w) | Inr metadata \<Rightarrow> ((metadata, final), w))))"

lemma postgres_Metadata_shared: "postgres_Metadata = read_metadata"
  by (intro ext)
    (auto simp: postgres_Metadata_def read_metadata_def ReadMetadata_def split: prod.split sum.split)

definition postgres_Health :: "env \<Rightarrow> source_def \<Rightarrow> eworld \<Rightarrow> go_error option \<times> eworld" where
  "postgres_Health env d w =
     (case e_QueryRow env (remote_query ''value'' ''postgres_query'' (sd_Alias d) ''SELECT 1 AS value'') [] w of
        (r, w) \<Rightarrow> (case scan_int r of Inl e \<Rightarrow> Some (Wrap ''PostgreSQL health check failed'' e) | Inr _ \<Rightarrow> None, w))"

fun scan_role :: "reply \<Rightarrow> bool list res" where
  "scan_role (RErr e) = Inl e"
| "scan_role (RRows ([CBool a, CBool b, CBool c, CBool d, CBool e] # _) _) = Inr [a, b, c, d, e]"
| "scan_role _ = Inl scan_error"

definition role_query :: "string \<Rightarrow> string" where
  "role_query alias = remote_query ''rolsuper, rolcreaterole, rolcreatedb, rolreplication, rolbypassrls''
     ''postgres_query'' alias ''SELECT rolsuper, rolcreaterole, rolcreatedb, rolreplication, rolbypassrls FROM pg_roles WHERE rolname = current_user''"

definition grants_query :: "string \<Rightarrow> string" where
  "grants_query alias = remote_query ''write_grants'' ''postgres_query'' alias
     (''SELECT count(*)::BIGINT AS write_grants FROM information_schema.role_table_grants WHERE grantee = current_user AND privilege_type <> '' @
      sql_literal ''SELECT'')"

definition PostureWarnings :: "env \<Rightarrow> source_def \<Rightarrow> eworld \<Rightarrow> string list res \<times> eworld" where
  "PostureWarnings env d w = (case e_QueryRow env (role_query (sd_Alias d)) [] w of (r, w) \<Rightarrow>
     (case scan_role r of Inl e \<Rightarrow> (Inl (Wrap ''inspect PostgreSQL role posture'' e), w)
      | Inr role \<Rightarrow> (case e_QueryRow env (grants_query (sd_Alias d)) [] w of (r, w) \<Rightarrow>
          (case scan_int r of Inl e \<Rightarrow> (Inl (Wrap ''inspect PostgreSQL grants'' e), w)
           | Inr grants \<Rightarrow> (Inr ((if list_ex id role then [''PostgreSQL role has elevated role attributes''] else []) @
               (if grants > 0 then [''PostgreSQL role has non-SELECT table grants''] else [])), w)))))"

definition postgres_adapter :: "env \<Rightarrow> postgres_config \<Rightarrow> postgres_credential \<Rightarrow> eworld adapter" where
  "postgres_adapter env c cred = \<lparr>ad_Type = ''postgres'', ad_Validate = postgres_Validate env c cred,
     ad_Attach = postgres_Attach env c cred, ad_Metadata = postgres_Metadata env,
     ad_Health = postgres_Health env, ad_Cleanup = cleanup env, ad_Posture = Some (PostureWarnings env)\<rparr>"

section \<open>ODBC\<close>

record odbc_config =
  oc_DSN :: string
  oc_Driver :: string
  oc_Properties :: "(string \<times> string) list"
  oc_DatabaseType :: string

record odbc_credential =
  ocr_Username :: string
  ocr_Password :: string

definition no_credential :: odbc_credential where
  "no_credential = \<lparr>ocr_Username = '''', ocr_Password = ''''\<rparr>"

definition DecodeCredential :: "string \<Rightarrow> odbc_credential res" where
  "DecodeCredential raw =
     (if raw = [] then Inr no_credential
      else case decode_lenient [(''username'', set_string (\<lambda>x. ocr_Username_update (\<lambda>_. x))),
          (''password'', set_string (\<lambda>x. ocr_Password_update (\<lambda>_. x)))] no_credential raw of
        Inl _ \<Rightarrow> Inl (Plain ''ODBC credential must contain username and password JSON'')
      | Inr c \<Rightarrow> Inr c)"

definition odbc_databaseType :: "odbc_config \<Rightarrow> string" where
  "odbc_databaseType c = (if oc_DatabaseType c = '''' then ''odbc'' else oc_DatabaseType c)"

definition validDSN :: "string \<Rightarrow> bool" where
  "validDSN v \<longleftrightarrow> v = trim_space v \<and> v \<noteq> '''' \<and> \<not> contains_any (''};={'' @ [CHR 0x0D, CHR 0x0A]) v"

definition property_char :: "char \<Rightarrow> bool" where
  "property_char c \<longleftrightarrow> is_upper_byte c \<or> is_lower_byte c \<or> is_digit_byte c \<or> c = CHR ''_''"

definition validPropertyKey :: "string \<Rightarrow> bool" where
  "validPropertyKey v \<longleftrightarrow> v \<noteq> '''' \<and> v = trim_space v \<and> list_all property_char v"

definition secret_property :: "string \<Rightarrow> bool" where
  "secret_property key \<longleftrightarrow> (let upper = to_upper (trim_space key) in
     upper = ''UID'' \<or> upper = ''USER'' \<or> upper = ''PWD'' \<or> upper = ''PASSWORD'' \<or>
     contains ''PASS'' upper \<or> contains ''SECRET'' upper \<or> contains ''TOKEN'' upper \<or>
     contains ''CREDENTIAL'' upper \<or> contains_any '';{}'' key)"

definition odbc_database_types :: "string list" where
  "odbc_database_types = [''odbc'', ''postgres'', ''mysql'', ''mariadb'', ''sqlite'', ''duckdb'', ''sqlserver'', ''oracle'']"

definition odbc_check :: "odbc_config \<Rightarrow> source_def \<Rightarrow> go_error option" where
  "odbc_check c d = (case check_definition d of Some e \<Rightarrow> Some e | None \<Rightarrow>
     if (oc_DSN c = '''') = (oc_Driver c = '''') then Some (Plain ''exactly one of dsn or driver is required'')
     else if oc_DSN c \<noteq> '''' \<and> \<not> validDSN (oc_DSN c)
     then Some (Plain ''ODBC dsn must be a non-secret data source name'')
     else if \<not> List.member odbc_database_types (odbc_databaseType c)
     then Some (Plain ''ODBC database_type is unsupported'')
     else if list_ex (\<lambda>(key, _). \<not> validPropertyKey key \<or> secret_property key) (oc_Properties c)
     then Some (Plain ''ODBC property is invalid'') else None)"

definition odbc_Validate :: "odbc_config \<Rightarrow> source_def \<Rightarrow> eworld \<Rightarrow> go_error option \<times> eworld" where
  "odbc_Validate c d w = (odbc_check c d, w)"

definition escape_brace :: "string \<Rightarrow> string" where
  "escape_brace v = replace_all CHR ''}'' ''}}'' v"

definition connectionValue :: "string \<Rightarrow> string" where
  "connectionValue v = (if v = '''' \<or> v \<noteq> trim_space v \<or> contains_any '';{}'' v
     then ''{'' @ escape_brace v @ ''}'' else v)"

definition connectionString :: "odbc_config \<Rightarrow> string" where
  "connectionString c = join '';''
     ((if oc_DSN c \<noteq> '''' then ''DSN={'' @ escape_brace (oc_DSN c) @ ''}''
       else ''Driver={'' @ escape_brace (oc_Driver c) @ ''}'') #
      map (\<lambda>key. key @ ''='' @ connectionValue (the (map_of (oc_Properties c) key))) (sorted_keys (oc_Properties c)))"

definition reservedSchema :: "string \<Rightarrow> string \<Rightarrow> bool" where
  "reservedSchema databaseType schema = (let normalized = to_lower schema in
     if databaseType = ''postgres'' \<or> databaseType = ''duckdb''
     then normalized = ''information_schema'' \<or> normalized = ''pg_catalog''
     else if databaseType = ''mysql'' \<or> databaseType = ''mariadb''
     then normalized = ''information_schema'' \<or> normalized = ''mysql'' \<or>
       normalized = ''performance_schema'' \<or> normalized = ''sys''
     else if databaseType = ''sqlserver'' then normalized = ''information_schema'' \<or> normalized = ''sys''
     else if databaseType = ''oracle''
     then normalized = ''sys'' \<or> normalized = ''system'' \<or> normalized = ''outln'' \<or> normalized = ''xdb''
     else normalized = ''information_schema'')"

definition remoteName :: "string \<Rightarrow> string \<Rightarrow> string \<Rightarrow> string" where
  "remoteName databaseType schema name =
     (let quote = (if databaseType = ''mysql'' \<or> databaseType = ''mariadb'' then CHR ''`'' else CHR 0x22);
          escape = (\<lambda>v. [quote] @ replace_all quote [quote, quote] v @ [quote])
      in if databaseType = ''sqlite'' then escape name else escape schema @ ''.'' @ escape name)"

definition discovery_query :: "string \<Rightarrow> string" where
  "discovery_query databaseType =
     (if databaseType = ''sqlite''
      then ''SELECT 'main' table_schema, name table_name, CASE WHEN type = 'view' THEN 'view' ELSE 'table' END object_type FROM sqlite_master WHERE type IN ('table', 'view') AND name NOT LIKE '' @ sql_literal ''sqlite_%''
      else if databaseType = ''oracle''
      then ''SELECT owner table_schema, table_name, 'table' object_type FROM all_tables UNION ALL SELECT owner, view_name table_name, 'view' object_type FROM all_views''
      else ''SELECT table_schema, table_name, CASE WHEN table_type = 'VIEW' THEN 'view' ELSE 'table' END object_type FROM information_schema.tables'')"

definition newProbeID :: "env \<Rightarrow> eworld \<Rightarrow> string res \<times> eworld" where
  "newProbeID env w = (case ask env (RandRead 16) w of (r, w) \<Rightarrow>
     (case reply_error r of Some e \<Rightarrow> (Inl e, w)
      | None \<Rightarrow> (Inr (''probe_'' @ hex_encode (text_reply r)), w)))"

fun discovered ::
  "string \<Rightarrow> cell list list \<Rightarrow> odbc_object list \<Rightarrow> odbc_object list res" where
  "discovered databaseType [] objects = Inr objects"
| "discovered databaseType ([CText schema, CText name, CText type] # rows) objects =
     discovered databaseType rows (if reservedSchema databaseType schema then objects
       else objects @ [\<lparr>ob_Schema = schema, ob_Name = name, ob_Type = type,
         ob_RemoteSelect = ''SELECT * FROM '' @ remoteName databaseType schema name\<rparr>])"
| "discovered databaseType (_ # rows) objects = Inl (Wrap ''ODBC metadata discovery failed'' scan_error)"

definition discover ::
  "env \<Rightarrow> odbc_config \<Rightarrow> odbc_credential \<Rightarrow> eworld \<Rightarrow> odbc_object list res \<times> eworld" where
  "discover env c cred w = (case newProbeID env w of
     (Inl e, w) \<Rightarrow> (Inl (Wrap ''create ODBC metadata probe'' e), w)
   | (Inr probe, w) \<Rightarrow>
       (case e_ODBCQuery env probe (connectionString c) (ocr_Username cred) (ocr_Password cred)
           (discovery_query (odbc_databaseType c)) w of (r, w) \<Rightarrow>
         ((case r of RErr e \<Rightarrow> Inl (Wrap ''ODBC metadata discovery failed'' e)
           | RRows rows final \<Rightarrow> (case discovered (odbc_databaseType c) rows [] of Inl e \<Rightarrow> Inl e
               | Inr objects \<Rightarrow> (case final of Some e \<Rightarrow> Inl e | None \<Rightarrow> Inr objects))
           | _ \<Rightarrow> Inr []), e_ClearODBC probe w)))"

definition odbc_attachment_of ::
  "odbc_config \<Rightarrow> odbc_credential \<Rightarrow> odbc_object list \<Rightarrow> source_def \<Rightarrow> odbc_attachment" where
  "odbc_attachment_of c cred objects d = \<lparr>oa_SourceID = sd_ID d, oa_SourceName = sd_Name d,
     oa_Alias = sd_Alias d, oa_DatabaseType = odbc_databaseType c, oa_Connection = connectionString c,
     oa_Username = ocr_Username cred, oa_Password = ocr_Password cred, oa_Objects = objects\<rparr>"

definition odbc_Attach ::
  "env \<Rightarrow> odbc_config \<Rightarrow> odbc_credential \<Rightarrow> source_def \<Rightarrow> eworld \<Rightarrow> go_error option \<times> eworld" where
  "odbc_Attach env c cred d w = (case odbc_Validate c d w of (Some e, w) \<Rightarrow> (Some e, w) | (None, w) \<Rightarrow>
     case discover env c cred w of (Inl e, w) \<Rightarrow> (Some e, w)
   | (Inr objects, w) \<Rightarrow> e_AttachODBC env (odbc_attachment_of c cred objects d) w)"

definition odbc_Health :: "env \<Rightarrow> odbc_config \<Rightarrow> odbc_credential \<Rightarrow> source_def \<Rightarrow> eworld \<Rightarrow> go_error option \<times> eworld" where
  "odbc_Health env c cred d w = (case newProbeID env w of
     (Inl e, w) \<Rightarrow> (Some (Plain ''ODBC health check failed''), w)
   | (Inr probe, w) \<Rightarrow>
       (case e_ODBCQuery env probe (connectionString c) (ocr_Username cred) (ocr_Password cred) ''SELECT 1'' w of
         (r, w) \<Rightarrow> (map_option (\<lambda>_. Plain ''ODBC health check failed'') (reply_error r), e_ClearODBC probe w)))"

definition odbc_adapter :: "env \<Rightarrow> odbc_config \<Rightarrow> odbc_credential \<Rightarrow> eworld adapter" where
  "odbc_adapter env c cred = \<lparr>ad_Type = ''odbc'', ad_Validate = odbc_Validate c,
     ad_Attach = odbc_Attach env c cred, ad_Metadata = read_metadata env,
     ad_Health = odbc_Health env c cred, ad_Cleanup = cleanup env, ad_Posture = None\<rparr>"

section \<open>The contract of the adapters\<close>

text \<open>
  What a client of adapters relies on: which sources are attached and ready, by id, with their names
  (\<open>attached\<close>).  A failed attach says nothing of its own source, since the detach that follows a late
  failure can fail too.
\<close>

locale source_adapters =
  fixes good :: "'w adapter \<Rightarrow> bool" and attached :: "'w \<Rightarrow> string \<Rightarrow> string option"
  assumes attach_ok: "good a \<Longrightarrow> ad_Attach a d w = (None, w') \<Longrightarrow>
      attached w' = (attached w)(sd_ID d \<mapsto> sd_Name d)"
    and attach_failed: "good a \<Longrightarrow> ad_Attach a d w = (Some e, w') \<Longrightarrow> i \<noteq> sd_ID d \<Longrightarrow>
      attached w' i = attached w i"
    and cleanup_ok: "good a \<Longrightarrow> ad_Cleanup a d w = (None, w') \<Longrightarrow> attached w' = (attached w)(sd_ID d := None)"
    and cleanup_failed: "good a \<Longrightarrow> ad_Cleanup a d w = (Some e, w') \<Longrightarrow> attached w' = attached w"
    and validate_keeps: "good a \<Longrightarrow> ad_Validate a d w = (r, w') \<Longrightarrow> attached w' = attached w"
    and health_keeps: "good a \<Longrightarrow> ad_Health a d w = (r, w') \<Longrightarrow> attached w' = attached w"

definition e_attached :: "eworld \<Rightarrow> string \<Rightarrow> string option" where
  "e_attached w i = (case map_of (en_sources (fst w)) i of None \<Rightarrow> None
     | Some s \<Rightarrow> if ss_Health s = ''ready'' then Some (ss_Name s) else None)"

definition e_sources :: "eworld \<Rightarrow> (string \<times> source_status) list" where
  "e_sources w = en_sources (fst w)"

lemma e_attached_cong: "e_sources w = e_sources w' \<Longrightarrow> e_attached w = e_attached w'"
  by (simp add: e_attached_def e_sources_def fun_eq_iff)

named_theorems keeps_sources

lemma ask_sources [keeps_sources]: "e_sources (snd (ask env c w)) = e_sources w"
  by (simp add: ask_def e_sources_def split: prod.split)

lemma e_Query_sources [keeps_sources]: "e_sources (snd (e_Query env q args w)) = e_sources w"
  by (auto simp: e_Query_def e_sources_def split: prod.split)

lemma e_QueryRow_sources [keeps_sources]: "e_sources (snd (e_QueryRow env q args w)) = e_sources w"
  by (auto simp: e_QueryRow_def e_sources_def split: prod.split option.split)

lemma e_Register_sources [keeps_sources]: "e_sources (snd (e_RegisterObjectTypes env i os w)) = e_sources w"
  by (auto simp: e_RegisterObjectTypes_def e_sources_def split: prod.split)

lemma e_Update_sources [keeps_sources]: "e_sources (snd (e_UpdateDatabaseType env i t w)) = e_sources w"
  by (auto simp: e_UpdateDatabaseType_def e_sources_def split: prod.split)

lemma e_Clear_sources [keeps_sources]: "e_sources (e_ClearODBC i w) = e_sources w"
  by (auto simp: e_ClearODBC_def engine_ClearODBC_def resolver_delete_def e_sources_def split: prod.split)

lemma e_ODBCQuery_sources [keeps_sources]: "e_sources (snd (e_ODBCQuery env i c u p q w)) = e_sources w"
proof -
  obtain en h where w: "w = (en, h)" by (cases w)
  obtain err en1 h1 where e: "ensureConnectorExtension env ''odbc'' en h = ((err, en1), h1)"
    by (metis prod.exhaust)
  then have "en_sources en1 = en_sources en" using ensure_sources [of env "''odbc''" en h] by simp
  with w e show ?thesis
    by (auto simp: e_ODBCQuery_def engine_ODBCQuery_def e_sources_def resolver_set_def Let_def split: option.split)
qed

lemma dial_sources [keeps_sources]: "e_sources (snd (dial env m a w)) = e_sources w"
  using ask_sources [of env "Dial a" w] ask_sources [of env HangUp "snd (ask env (Dial a) w)"]
  by (auto simp: dial_def split: prod.split option.split)

lemma e_Detach_sources:
  "e_Detach env alias i w = (None, w') \<Longrightarrow> e_sources w' = AList.delete i (e_sources w)"
  "e_Detach env alias i w = (Some e, w') \<Longrightarrow> e_sources w' = e_sources w"
  by (auto simp: e_Detach_def engine_Detach_def e_sources_def call_or_def Let_def resolver_delete_def
      split: prod.splits if_splits option.splits)

lemma e_Attach_sources:
  "e_Attach env a w = (None, w') \<Longrightarrow>
     map_of (e_sources w') = (map_of (e_sources w))(at_SourceID a \<mapsto> recorded a ''ready'' '''')"
  "e_Attach env a w = (Some e, w') \<Longrightarrow> i \<noteq> at_SourceID a \<Longrightarrow> map_of (e_sources w') i = map_of (e_sources w) i"
  using Attach_effect [of env a "fst w" "snd w"]
  by (auto simp: e_Attach_def attach_effect_def e_sources_def fun_eq_iff split: prod.splits)

lemma e_AttachODBC_sources:
  assumes "e_AttachODBC env a w = (r, w')"
  shows "r = None \<Longrightarrow> map_of (e_sources w') = (map_of (e_sources w))(oa_SourceID a \<mapsto>
       \<lparr>ss_ID = oa_SourceID a, ss_Name = oa_SourceName a, ss_Type = ''odbc'', ss_Health = ''ready'',
         ss_ErrorCode = ''''\<rparr>)"
    and "r = Some e \<Longrightarrow> e_sources w' = e_sources w"
proof -
  obtain en h where w: "w = (en, h)" by (cases w)
  obtain err en1 h1 where e: "ensureConnectorExtension env ''odbc'' en h = ((err, en1), h1)"
    by (metis prod.exhaust)
  then have same: "en_sources en1 = en_sources en" using ensure_sources [of env "''odbc''" en h] by simp
  show "r = None \<Longrightarrow> map_of (e_sources w') = (map_of (e_sources w))(oa_SourceID a \<mapsto>
       \<lparr>ss_ID = oa_SourceID a, ss_Name = oa_SourceName a, ss_Type = ''odbc'', ss_Health = ''ready'',
         ss_ErrorCode = ''''\<rparr>)" "r = Some e \<Longrightarrow> e_sources w' = e_sources w"
    using assms w e same
    by (auto simp: e_AttachODBC_def engine_AttachODBC_def e_sources_def call_or_def Let_def
        split: prod.splits if_splits option.splits sum.splits)
qed

text \<open>What follows a successful ATTACH keeps the sources, or fails and touches the source only.\<close>

definition finishes :: "source_def \<Rightarrow> eworld \<Rightarrow> go_error option \<times> eworld \<Rightarrow> bool" where
  "finishes d w p \<longleftrightarrow> (case p of (None, w') \<Rightarrow> e_sources w' = e_sources w
     | (Some e, w') \<Rightarrow> \<forall>i. i \<noteq> sd_ID d \<longrightarrow> map_of (e_sources w') i = map_of (e_sources w) i)"

lemma finishes_done: "e_sources w' = e_sources w \<Longrightarrow> finishes d w (err, w')"
  by (simp add: finishes_def split: option.split)

lemma finishes_give_back: "e_sources w1 = e_sources w \<Longrightarrow> finishes d w (give_back env d e w1)"
  using e_Detach_sources [of env "sd_Alias d" "sd_ID d" w1]
  by (cases "e_Detach env (sd_Alias d) (sd_ID d) w1"; cases "fst (e_Detach env (sd_Alias d) (sd_ID d) w1)")
    (auto simp: finishes_def give_back_def)

lemma keeps_D: "e_sources (snd p) = s \<Longrightarrow> p = (r, w') \<Longrightarrow> e_sources w' = s"
  by simp

lemma register_objects_sources [keeps_sources]: "e_sources (snd (register_objects env f m d w)) = e_sources w"
  using e_Query_sources [of env "remote_query ''table_schema, table_name, object_type'' f (sd_Alias d) objects_query" "[]" w]
  by (auto simp: register_objects_def e_Register_sources split: prod.split sum.split)

lemma mysql_finishes: "finishes d w (mysql_finish env d w)"
proof -
  obtain r w1 where q: "e_QueryRow env (remote_query ''version'' ''mysql_query'' (sd_Alias d) ''SELECT VERSION() AS version'') [] w = (r, w1)"
    by (metis prod.exhaust)
  have w1: "e_sources w1 = e_sources w" by (rule keeps_D [OF e_QueryRow_sources q])
  show ?thesis
  proof (cases "scan_text r")
    case (Inl e)
    then show ?thesis using w1 q by (simp add: mysql_finish_def finishes_give_back)
  next
    case (Inr version)
    obtain e2 w2 where u: "(if sd_DatabaseType d = '''' \<and> contains ''mariadb'' (to_lower version)
        then e_UpdateDatabaseType env (sd_ID d) ''mariadb'' w1 else (None, w1)) = (e2, w2)"
      by (metis prod.exhaust)
    have w2: "e_sources w2 = e_sources w"
    proof (cases "sd_DatabaseType d = '''' \<and> contains ''mariadb'' (to_lower version)")
      case True
      then have "e_UpdateDatabaseType env (sd_ID d) ''mariadb'' w1 = (e2, w2)" using u by (simp only: simp_thms if_True)
      then show ?thesis using keeps_D [OF e_Update_sources] w1 by (simp only:)
    next
      case False
      then have "(None, w1) = (e2, w2)" using u by (simp only: if_False)
      then show ?thesis using w1 by simp
    qed
    obtain e3 w3 where g: "register_objects env ''mysql_query'' ''load MySQL object metadata'' d w2 = (e3, w3)"
      by (metis prod.exhaust)
    have w3: "e_sources w3 = e_sources w" using keeps_D [OF register_objects_sources g] w2 by simp
    have "mysql_finish env d w = (case e2 of Some e \<Rightarrow> give_back env d e w2 | None \<Rightarrow>
        (case e3 of Some e \<Rightarrow> give_back env d e w3 | None \<Rightarrow> (None, w3)))"
      unfolding mysql_finish_def q prod.case Inr sum.case u g ..
    then show ?thesis
      by (cases e2; cases e3) (simp_all add: finishes_give_back [OF w2] finishes_give_back [OF w3] finishes_done [OF w3])
  qed
qed

text \<open>The relation an attach keeps.\<close>

definition attach_keeps :: "source_def \<Rightarrow> eworld \<Rightarrow> go_error option \<times> eworld \<Rightarrow> bool" where
  "attach_keeps d w p \<longleftrightarrow> (case p of (None, w') \<Rightarrow> e_attached w' = (e_attached w)(sd_ID d \<mapsto> sd_Name d)
     | (Some e, w') \<Rightarrow> \<forall>i. i \<noteq> sd_ID d \<longrightarrow> e_attached w' i = e_attached w i)"

lemma e_attached_recorded:
  "map_of (e_sources w') = (map_of (e_sources w))(i \<mapsto> s) \<Longrightarrow> ss_Health s = ''ready'' \<Longrightarrow>
   e_attached w' = (e_attached w)(i \<mapsto> ss_Name s)"
  by (auto simp: e_attached_def e_sources_def fun_eq_iff)

lemma e_attached_other: "map_of (e_sources w') i = map_of (e_sources w) i \<Longrightarrow> e_attached w' i = e_attached w i"
  by (simp add: e_attached_def e_sources_def)

lemma attach_keeps_failed: "e_sources w' = e_sources w \<Longrightarrow> attach_keeps d w (Some e, w')"
  unfolding attach_keeps_def by (simp add: e_attached_cong [of w' w])

lemma e_Attach_keeps:
  assumes "e_sources w1 = e_sources w" "at_SourceID a = sd_ID d" "at_SourceName a = sd_Name d"
    and "e_Attach env a w1 = (r, w2)"
  shows "attach_keeps d w (r, w2)"
proof (cases r)
  case None
  have "map_of (e_sources w2) = (map_of (e_sources w))(sd_ID d \<mapsto> recorded a ''ready'' '''')"
    using e_Attach_sources(1) [of env a w1 w2] assms None by simp
  from e_attached_recorded [OF this] assms(3) None show ?thesis
    by (simp add: attach_keeps_def recorded_def)
next
  case (Some e)
  have "map_of (e_sources w2) i = map_of (e_sources w) i" if "i \<noteq> sd_ID d" for i
    using e_Attach_sources(2) [of env a w1 e w2 i] assms Some that by simp
  then show ?thesis unfolding attach_keeps_def Some by (auto intro: e_attached_other)
qed

text \<open>An attach of the engine followed by checks that finish it.\<close>

lemma attach_then_finish:
  assumes a: "attach_keeps d w (None, w1)" and f: "finishes d w1 p"
  shows "attach_keeps d w p"
proof -
  obtain r w2 where p: "p = (r, w2)" by (cases p)
  show ?thesis
  proof (cases r)
    case None
    then have "e_attached w2 = e_attached w1" using f p by (auto simp: finishes_def intro: e_attached_cong)
    then show ?thesis using a p None by (simp add: attach_keeps_def)
  next
    case (Some e)
    then have "e_attached w2 i = e_attached w1 i" if "i \<noteq> sd_ID d" for i
      using f p that by (auto simp: finishes_def intro: e_attached_other)
    then show ?thesis using a p Some by (simp add: attach_keeps_def)
  qed
qed

lemma attach_keeps_Wrap: "attach_keeps d w (Some e, w') \<Longrightarrow> attach_keeps d w (Some e', w')"
  by (simp add: attach_keeps_def)

lemma filedb_Validate_sources [keeps_sources]: "e_sources (snd (filedb_Validate env k path d w)) = e_sources w"
  using ask_sources [of env "Stat path" w]
  by (auto simp: filedb_Validate_def split: option.split prod.split)

lemma mysql_Validate_sources [keeps_sources]: "e_sources (snd (mysql_Validate env c d w)) = e_sources w"
  by (simp add: mysql_Validate_def dial_sources split: option.split)

lemma postgres_Validate_sources [keeps_sources]: "e_sources (snd (postgres_Validate env c cred d w)) = e_sources w"
  by (simp add: postgres_Validate_def dial_sources split: option.split)

lemma filedb_Attach_keeps: "attach_keeps d w (filedb_Attach env k path d w)"
proof -
  obtain e1 w1 where v: "filedb_Validate env k path d w = (e1, w1)" by (metis prod.exhaust)
  have w1: "e_sources w1 = e_sources w" by (rule keeps_D [OF filedb_Validate_sources v])
  obtain r w2 where a: "e_Attach env (filedb_attachment k path d) w1 = (r, w2)" by (metis prod.exhaust)
  have "attach_keeps d w (r, w2)"
    by (rule e_Attach_keeps [OF w1 _ _ a]) (simp_all add: filedb_attachment_def)
  then show ?thesis using attach_keeps_failed [OF w1]
    by (simp add: filedb_Attach_def v a split: option.split)
qed

lemma mysql_Attach_keeps: "attach_keeps d w (mysql_Attach env c password d w)"
proof -
  obtain e1 w1 where v: "mysql_Validate env c d w = (e1, w1)" by (metis prod.exhaust)
  have w1: "e_sources w1 = e_sources w" by (rule keeps_D [OF mysql_Validate_sources v])
  obtain r w2 where a: "e_Attach env (mysql_attachment c password d) w1 = (r, w2)" by (metis prod.exhaust)
  have k: "attach_keeps d w (r, w2)"
    by (rule e_Attach_keeps [OF w1 _ _ a]) (simp_all add: mysql_attachment_def)
  show ?thesis
  proof (cases e1)
    case (Some e)
    then show ?thesis using attach_keeps_failed [OF w1] by (simp add: mysql_Attach_def v)
  next
    case None
    show ?thesis
    proof (cases r)
      case r: None
      then have "mysql_Attach env c password d w = mysql_finish env d w2"
        using None by (simp add: mysql_Attach_def v a)
      then show ?thesis using attach_then_finish [OF _ mysql_finishes] k r by simp
    next
      case (Some e)
      then show ?thesis using None k by (simp add: mysql_Attach_def v a)
    qed
  qed
qed

lemma postgres_Attach_keeps: "attach_keeps d w (postgres_Attach env c cred d w)"
proof -
  obtain e1 w1 where v: "postgres_Validate env c cred d w = (e1, w1)" by (metis prod.exhaust)
  have w1: "e_sources w1 = e_sources w" by (rule keeps_D [OF postgres_Validate_sources v])
  obtain r w2 where a: "e_Attach env (postgres_attachment c cred d) w1 = (r, w2)" by (metis prod.exhaust)
  have k: "attach_keeps d w (r, w2)"
    by (rule e_Attach_keeps [OF w1 _ _ a]) (simp_all add: postgres_attachment_def)
  obtain e3 w3 where ro: "verifyReadOnly env (sd_Alias d) w2 = (e3, w3)" by (metis prod.exhaust)
  have w3: "e_sources w3 = e_sources w2"
    using ro e_QueryRow_sources [of env "read_only_query (sd_Alias d)" "[]" w2]
    by (auto simp: verifyReadOnly_def split: prod.splits)
  obtain e4 w4 where g: "register_objects env ''postgres_query'' ''load PostgreSQL object metadata'' d w3 = (e4, w4)"
    by (metis prod.exhaust)
  have w4: "e_sources w4 = e_sources w2" using keeps_D [OF register_objects_sources g] w3 by simp
  have f: "finishes d w2 (case e3 of Some e \<Rightarrow> give_back env d e w3 | None \<Rightarrow>
      (case e4 of Some e \<Rightarrow> give_back env d e w4 | None \<Rightarrow> (None, w4)))"
    by (cases e3; cases e4)
      (simp_all add: finishes_give_back [OF w3] finishes_give_back [OF w4] finishes_done [OF w4])
  have eq: "postgres_Attach env c cred d w = (case e1 of Some e \<Rightarrow> (Some e, w1) | None \<Rightarrow>
      (case r of Some e \<Rightarrow> (Some e, w2) | None \<Rightarrow> (case e3 of Some e \<Rightarrow> give_back env d e w3 | None \<Rightarrow>
      (case e4 of Some e \<Rightarrow> give_back env d e w4 | None \<Rightarrow> (None, w4)))))"
    unfolding postgres_Attach_def v prod.case a ro g ..
  show ?thesis
  proof (cases e1)
    case (Some e)
    then show ?thesis using attach_keeps_failed [OF w1] by (simp add: eq)
  next
    case None
    show ?thesis
    proof (cases r)
      case r: None
      then show ?thesis using None attach_then_finish [OF _ f] k by (simp add: eq)
    next
      case (Some e)
      then show ?thesis using None k by (simp add: eq)
    qed
  qed
qed

lemma newProbeID_sources [keeps_sources]: "e_sources (snd (newProbeID env w)) = e_sources w"
  using ask_sources [of env "RandRead 16" w] by (auto simp: newProbeID_def split: prod.split option.split)

lemma discover_sources [keeps_sources]: "e_sources (snd (discover env c cred w)) = e_sources w"
proof -
  obtain p w1 where n: "newProbeID env w = (p, w1)" by (metis prod.exhaust)
  have w1: "e_sources w1 = e_sources w" by (rule keeps_D [OF newProbeID_sources n])
  show ?thesis
  proof (cases p)
    case (Inr probe)
    obtain r w2 where q: "e_ODBCQuery env probe (connectionString c) (ocr_Username cred) (ocr_Password cred)
        (discovery_query (odbc_databaseType c)) w1 = (r, w2)" by (metis prod.exhaust)
    have "e_sources w2 = e_sources w1" by (rule keeps_D [OF e_ODBCQuery_sources q])
    then show ?thesis using Inr n q w1 by (simp add: discover_def e_Clear_sources)
  qed (simp add: discover_def n w1)
qed

lemma odbc_Attach_keeps: "attach_keeps d w (odbc_Attach env c cred d w)"
proof -
  obtain objects w1 where n: "discover env c cred w = (objects, w1)" by (metis prod.exhaust)
  have w1: "e_sources w1 = e_sources w" by (rule keeps_D [OF discover_sources n])
  show ?thesis
  proof (cases "odbc_check c d")
    case (Some e)
    then show ?thesis by (simp add: odbc_Attach_def odbc_Validate_def attach_keeps_failed)
  next
    case None
    show ?thesis
    proof (cases objects)
      case (Inl e)
      then show ?thesis using None n attach_keeps_failed [OF w1] by (simp add: odbc_Attach_def odbc_Validate_def)
    next
      case (Inr os)
      obtain r w2 where a: "e_AttachODBC env (odbc_attachment_of c cred os d) w1 = (r, w2)"
        by (metis prod.exhaust)
      have "attach_keeps d w (r, w2)"
      proof (cases r)
        case r: None
        have "map_of (e_sources w2) = (map_of (e_sources w))(sd_ID d \<mapsto> \<lparr>ss_ID = sd_ID d, ss_Name = sd_Name d,
            ss_Type = ''odbc'', ss_Health = ''ready'', ss_ErrorCode = ''''\<rparr>)"
          using e_AttachODBC_sources(1) [OF a r] w1 by (simp add: odbc_attachment_of_def)
        from e_attached_recorded [OF this] r show ?thesis by (simp add: attach_keeps_def)
      next
        case (Some e)
        then show ?thesis using e_AttachODBC_sources(2) [OF a Some] w1 attach_keeps_failed by simp
      qed
      then show ?thesis using None n Inr a by (simp add: odbc_Attach_def odbc_Validate_def)
    qed
  qed
qed

lemma snd_case_pair: "snd (case p of (r, w) \<Rightarrow> (f r, w)) = snd p"
  by (cases p) simp

lemma filedb_Health_sources: "e_sources (snd (filedb_Health env d w)) = e_sources w"
  by (simp add: filedb_Health_def snd_case_pair e_QueryRow_sources)

lemma mysql_Health_sources: "e_sources (snd (mysql_Health env d w)) = e_sources w"
  by (simp add: mysql_Health_def snd_case_pair e_QueryRow_sources)

lemma postgres_Health_sources: "e_sources (snd (postgres_Health env d w)) = e_sources w"
  by (simp add: postgres_Health_def snd_case_pair e_QueryRow_sources)

lemma odbc_Health_sources: "e_sources (snd (odbc_Health env c cred d w)) = e_sources w"
proof -
  obtain p w1 where n: "newProbeID env w = (p, w1)" by (metis prod.exhaust)
  have w1: "e_sources w1 = e_sources w" by (rule keeps_D [OF newProbeID_sources n])
  show ?thesis
  proof (cases p)
    case (Inr probe)
    obtain r w2 where q: "e_ODBCQuery env probe (connectionString c) (ocr_Username cred) (ocr_Password cred)
        ''SELECT 1'' w1 = (r, w2)" by (metis prod.exhaust)
    have "e_sources w2 = e_sources w1" by (rule keeps_D [OF e_ODBCQuery_sources q])
    then show ?thesis using Inr n q w1 by (simp add: odbc_Health_def e_Clear_sources)
  qed (simp add: odbc_Health_def n w1)
qed

definition engine_adapters :: "env \<Rightarrow> eworld adapter \<Rightarrow> bool" where
  "engine_adapters env a \<longleftrightarrow>
     (\<exists>connector path. a = filedb_adapter env connector path) \<or> (\<exists>c password. a = mysql_adapter env c password) \<or>
     (\<exists>c cred. a = postgres_adapter env c cred) \<or> (\<exists>c cred. a = odbc_adapter env c cred)"

lemma engine_adapter_Attach: "engine_adapters env a \<Longrightarrow> attach_keeps d w (ad_Attach a d w)"
  by (auto simp: engine_adapters_def filedb_adapter_def mysql_adapter_def postgres_adapter_def odbc_adapter_def
      filedb_Attach_keeps mysql_Attach_keeps postgres_Attach_keeps odbc_Attach_keeps)

lemma engine_adapter_Cleanup: "engine_adapters env a \<Longrightarrow> ad_Cleanup a = cleanup env"
  by (auto simp: engine_adapters_def filedb_adapter_def mysql_adapter_def postgres_adapter_def odbc_adapter_def)

lemma engine_adapter_Validate: "engine_adapters env a \<Longrightarrow> e_sources (snd (ad_Validate a d w)) = e_sources w"
  by (auto simp: engine_adapters_def filedb_adapter_def mysql_adapter_def postgres_adapter_def odbc_adapter_def
      filedb_Validate_sources mysql_Validate_sources postgres_Validate_sources odbc_Validate_def)

lemma engine_adapter_Health: "engine_adapters env a \<Longrightarrow> e_sources (snd (ad_Health a d w)) = e_sources w"
  by (auto simp: engine_adapters_def filedb_adapter_def mysql_adapter_def postgres_adapter_def odbc_adapter_def
      filedb_Health_sources mysql_Health_sources postgres_Health_sources odbc_Health_sources)

lemma e_attached_removed: "e_sources w' = AList.delete i (e_sources w) \<Longrightarrow> e_attached w' = (e_attached w)(i := None)"
  by (auto simp: e_attached_def e_sources_def fun_eq_iff)

interpretation adapters: source_adapters "engine_adapters env" e_attached for env
proof
  show "e_attached w' = (e_attached w)(sd_ID d \<mapsto> sd_Name d)"
    if "engine_adapters env a" "ad_Attach a d w = (None, w')" for a d w w'
    using engine_adapter_Attach [OF that(1), of d w] that(2) by (simp add: attach_keeps_def)
  show "e_attached w' i = e_attached w i"
    if "engine_adapters env a" "ad_Attach a d w = (Some e, w')" "i \<noteq> sd_ID d" for a d w e w' i
    using engine_adapter_Attach [OF that(1), of d w] that(2,3) by (simp add: attach_keeps_def)
  show "e_attached w' = (e_attached w)(sd_ID d := None)"
    if "engine_adapters env a" "ad_Cleanup a d w = (None, w')" for a d w w'
    using e_Detach_sources(1) that(2) unfolding engine_adapter_Cleanup [OF that(1)] cleanup_def
    by (blast intro: e_attached_removed)
  show "e_attached w' = e_attached w"
    if "engine_adapters env a" "ad_Cleanup a d w = (Some e, w')" for a d w e w'
    using e_Detach_sources(2) that(2) unfolding engine_adapter_Cleanup [OF that(1)] cleanup_def
    by (blast intro: e_attached_cong)
  show "e_attached w' = e_attached w"
    if "engine_adapters env a" "ad_Validate a d w = (r, w')" for a d w r w'
    using engine_adapter_Validate [OF that(1), of d w] that(2) by (auto intro: e_attached_cong)
  show "e_attached w' = e_attached w"
    if "engine_adapters env a" "ad_Health a d w = (r, w')" for a d w r w'
    using engine_adapter_Health [OF that(1), of d w] that(2) by (auto intro: e_attached_cong)
qed

section \<open>Only read-only sources\<close>

lemma e_Query_extends: "e_Query env q args (en, h) = (r, (en', h')) \<Longrightarrow> en' = en \<and> (\<exists>cs. h' = h @ cs)"
  by (auto simp: e_Query_def engine_Query_def split: if_splits)

lemma e_Register_extends:
  "e_RegisterObjectTypes env i os (en, h) = (r, (en', h')) \<Longrightarrow> en' = en \<and> (\<exists>cs. h' = h @ cs)"
  using quiet_registerObjectTypes [OF quiet_refl, of h env i os]
  by (auto simp: e_RegisterObjectTypes_def engine_RegisterObjectTypes_def quiet_def split: if_splits prod.splits)

lemma register_objects_extends:
  assumes "register_objects env f m d (en, h) = (r, (en', h'))"
  shows "\<exists>cs. h' = h @ cs"
proof -
  obtain p en1 h1 where q: "e_Query env (remote_query ''table_schema, table_name, object_type'' f (sd_Alias d) objects_query) [] (en, h) =
      (p, (en1, h1))" by (metis prod_cases3)
  obtain cs where h1: "en1 = en" "h1 = h @ cs" using e_Query_extends [OF q] by blast
  show ?thesis
  proof (cases "object_rows m p")
    case (Inl e)
    then show ?thesis using assms q h1 by (auto simp: register_objects_def)
  next
    case (Inr os)
    then have "e_RegisterObjectTypes env (sd_ID d) os (en1, h1) = (r, (en', h'))"
      using assms q by (simp add: register_objects_def)
    from e_Register_extends [OF this] h1 show ?thesis by auto
  qed
qed

lemma verifyReadOnly_answer:
  assumes "verifyReadOnly env alias (en, h) = (None, (en', h'))"
  shows "h' = h @ [QueryRow (read_only_query alias) []] \<and>
    scan_text (env h (QueryRow (read_only_query alias) [])) = Inr ''on''"
  using assms
  by (auto simp: verifyReadOnly_def e_QueryRow_def engine_QueryRow_def scan_text_def
      split: prod.splits option.splits if_splits sum.splits)

text \<open>C17. A PostgreSQL source is attached only for a role whose sessions are read-only: whenever the attach
  returns nil, the catalog was attached with READ_ONLY and the server then answered the query for
  \<open>transaction_read_only\<close> with on.\<close>

theorem postgres_Attach_read_only:
  assumes "postgres_Attach env c cred d (en, h) = (None, (en', h'))"
  shows "\<exists>past cs. h' = past @ QueryRow (read_only_query (sd_Alias d)) [] # cs \<and>
     scan_text (env past (QueryRow (read_only_query (sd_Alias d)) [])) = Inr ''on'' \<and>
     executed env past (attach_statement '''' (sd_Alias d) ''postgres'' True True)"
proof -
  obtain e1 en1 h1 where v: "postgres_Validate env c cred d (en, h) = (e1, (en1, h1))" by (metis prod_cases3)
  obtain r en2 h2 where a: "e_Attach env (postgres_attachment c cred d) (en1, h1) = (r, (en2, h2))"
    by (metis prod_cases3)
  obtain e3 en3 h3 where ro: "verifyReadOnly env (sd_Alias d) (en2, h2) = (e3, (en3, h3))"
    by (metis prod_cases3)
  obtain e4 en4 h4 where g: "register_objects env ''postgres_query'' ''load PostgreSQL object metadata'' d (en3, h3) =
      (e4, (en4, h4))" by (metis prod_cases3)
  have "postgres_Attach env c cred d (en, h) = (case e1 of Some e \<Rightarrow> (Some e, (en1, h1)) | None \<Rightarrow>
      (case r of Some e \<Rightarrow> (Some e, (en2, h2)) | None \<Rightarrow>
      (case e3 of Some e \<Rightarrow> give_back env d e (en3, h3) | None \<Rightarrow>
      (case e4 of Some e \<Rightarrow> give_back env d e (en4, h4) | None \<Rightarrow> (None, (en4, h4))))))"
    unfolding postgres_Attach_def v prod.case a ro g ..
  with assms have ok: "e1 = None" "r = None" "e3 = None" "h' = h4"
    by (auto simp: give_back_def split: option.splits)
  have "executed env h2 (attach_statement '''' (sd_Alias d) ''postgres'' True True)"
  proof -
    have "engine_Attach env (postgres_attachment c cred d) en1 h1 = ((None, en2), h2)"
      using a ok(2) by (auto simp: e_Attach_def split: prod.splits)
    moreover have "postgres_secretValues c cred \<noteq> []"
    proof -
      have "add_options opts vs \<noteq> []" if "vs \<noteq> []" for opts vs :: "(string \<times> string) list"
        using that by (induction opts vs rule: add_options.induct) (auto simp: update_nonempty)
      then show ?thesis by (simp add: postgres_secretValues_def Let_def update_nonempty)
    qed
    ultimately show ?thesis using Attach_effect [of env "postgres_attachment c cred d" en1 h1]
      by (simp add: attach_effect_def postgres_attachment_def)
  qed
  moreover obtain cs where "h4 = h3 @ cs" using register_objects_extends [OF g] by blast
  ultimately show ?thesis using verifyReadOnly_answer [of env "sd_Alias d" en2 h2 en3 h3] ro ok by fastforce
qed

text \<open>A server that answers as a read-only role does.\<close>

definition read_only_env :: env where
  "read_only_env h c = (case c of
     Stat _ \<Rightarrow> RRegular True
   | QueryRow q args \<Rightarrow> if q = extension_version_query then RText ''41223e5'' else RText ''on''
   | QueryRows q args \<Rightarrow> RRows [] None
   | _ \<Rightarrow> ROk)"

definition demo_postgres :: postgres_config where
  "demo_postgres = \<lparr>pg_Host = ''db'', pg_Port = 5432, pg_Database = ''shop'', pg_User = ''reader'',
     pg_SSLMode = ''require'', pg_RootCertRef = '''', pg_Options = []\<rparr>"

definition demo_password :: postgres_credential where
  "demo_password = \<lparr>pc_Password = ''pass'', pc_RootCertificatePath = ''''\<rparr>"

definition demo_definition :: source_def where
  "demo_definition = \<lparr>sd_ID = ''s1'', sd_Name = ''Shop'', sd_Alias = ''shop'', sd_ConnectorType = ''postgres'',
     sd_DatabaseType = '''', sd_Enabled = True\<rparr>"

definition running_engine :: engine where
  "running_engine = engine_New\<lparr>en_db := True\<rparr>"

lemma read_only_env_simps [simp]:
  "read_only_env h (Exec s a) = ROk" "read_only_env h (TxExec s a) = ROk" "read_only_env h BeginTx = ROk"
  "read_only_env h Commit = ROk" "read_only_env h (Dial x) = ROk" "read_only_env h HangUp = ROk"
  "read_only_env h (Stat p) = RRegular True" "read_only_env h (QueryRows q a) = RRows [] None"
  by (simp_all add: read_only_env_def)

lemma read_only_env_answers:
  "read_only_env h (QueryRow extension_version_query [AText ''postgres_scanner'']) = RText ''41223e5''"
  "read_only_env h (QueryRow (read_only_query alias) []) = RText ''on''"
proof -
  have "read_only_query alias \<noteq> extension_version_query"
    by (simp add: read_only_query_def remote_query_def extension_version_query_def)
  then show "read_only_env h (QueryRow (read_only_query alias) []) = RText ''on''"
    by (simp add: read_only_env_def)
qed (simp add: read_only_env_def)

lemma demo_secret: "\<exists>s. createSecretStatement (secret_name ''shop'') ''postgres''
    (postgres_secretValues demo_postgres demo_password) = Inr s"
  by (simp add: createSecretStatement_def postgres_secretValues_def demo_postgres_def demo_password_def
      allowed_secret_keys_def secret_keys_def validIdentifier_def is_lower_byte_def byte_def to_upper_def
      upper_byte_def)

lemma demo_check: "check_definition demo_definition = None"
  by code_simp

lemma read_only_call [simp]: "call_or read_only_env (Exec s a) h fail ok = ok ROk (h @ [Exec s a])"
  "call_or read_only_env (TxExec s a) h fail ok = ok ROk (h @ [TxExec s a])"
  "call_or read_only_env BeginTx h fail ok = ok ROk (h @ [BeginTx])"
  "call_or read_only_env Commit h fail ok = ok ROk (h @ [Commit])"
  by (simp_all add: call_or_def reply_error_def)

lemma demo_ensure: "\<exists>en' h'. ensureConnectorExtension read_only_env ''postgres'' running_engine h = ((None, en'), h') \<and> en_db en'"
  by (simp add: ensureConnectorExtension_def connector_extension_def running_engine_def engine_New_def
      loadExtension_def read_only_env_answers scan_text_def ExtensionVersions_def Let_def)

lemma demo_engine_attach:
  "\<exists>en' h'. e_Attach read_only_env (postgres_attachment demo_postgres demo_password demo_definition) (running_engine, h) =
     (None, (en', h')) \<and> en_db en'"
proof -
  obtain s where s: "createSecretStatement (secret_name ''shop'') ''postgres''
      (postgres_secretValues demo_postgres demo_password) = Inr s" using demo_secret by blast
  obtain en1 h1 where e: "ensureConnectorExtension read_only_env ''postgres'' running_engine h = ((None, en1), h1)"
    "en_db en1" using demo_ensure by blast
  have ids: "validIdentifier ''shop''" "validIdentifier ''postgres''" "en_db running_engine"
    by (simp_all add: validIdentifier_def is_lower_byte_def byte_def running_engine_def)
  show ?thesis
    by (simp add: e_Attach_def engine_Attach_def postgres_attachment_def demo_definition_def ids e s
        attach_catalog_def registerAttachedObjectTypes_def recordSource_def Let_def)
qed

lemma demo_postgres_attaches:
  "\<exists>w'. postgres_Attach read_only_env demo_postgres demo_password demo_definition (running_engine, []) = (None, w')"
proof -
  obtain h1 where v: "postgres_Validate read_only_env demo_postgres demo_password demo_definition (running_engine, []) =
      (None, (running_engine, h1))"
    by (simp add: postgres_Validate_def demo_check demo_postgres_def demo_password_def validSSLMode_def
        verifies_certificate_def dial_def ask_def reply_error_def)
  obtain en2 h2 where a: "e_Attach read_only_env (postgres_attachment demo_postgres demo_password demo_definition)
      (running_engine, h1) = (None, (en2, h2))" "en_db en2" using demo_engine_attach by blast
  show ?thesis
    by (simp add: postgres_Attach_def v a verifyReadOnly_def e_QueryRow_def engine_QueryRow_def read_only_env_answers
        scan_text_def register_objects_def e_Query_def engine_Query_def object_rows_def
        e_RegisterObjectTypes_def engine_RegisterObjectTypes_def registerObjectTypes_def)
qed

text \<open>The demonstration source attaches; the history shows the ATTACH and the server's answer.\<close>

theorem postgres_Attach_read_only_witness:
  "\<exists>en' h' past cs.
     postgres_Attach read_only_env demo_postgres demo_password demo_definition (running_engine, []) = (None, (en', h')) \<and>
     h' = past @ QueryRow (read_only_query ''shop'') [] # cs \<and>
     scan_text (read_only_env past (QueryRow (read_only_query ''shop'') [])) = Inr ''on'' \<and>
     executed read_only_env past (attach_statement '''' ''shop'' ''postgres'' True True)"
proof -
  obtain en' h' where a: "postgres_Attach read_only_env demo_postgres demo_password demo_definition (running_engine, []) =
      (None, (en', h'))" using demo_postgres_attaches by (metis prod.exhaust)
  have name: "sd_Alias demo_definition = ''shop''" by (simp add: demo_definition_def)
  show ?thesis using postgres_Attach_read_only [OF a, unfolded name] a by blast
qed

section \<open>Reading ODBC connection strings\<close>

text \<open>The grammar of ODBC: attributes \<open>key=value\<close> separated by semicolons, where a value in braces
  extends to the first brace that is not doubled.\<close>

fun read_braced :: "string \<Rightarrow> (string \<times> string) option" where
  "read_braced [] = None"
| "read_braced [c] = (if c = CHR ''}'' then Some ([], []) else None)"
| "read_braced (c # x # cs) =
     (if c = CHR ''}'' then
        (if x = CHR ''}'' then map_option (\<lambda>(v, r). (c # v, r)) (read_braced cs) else Some ([], x # cs))
      else map_option (\<lambda>(v, r). (c # v, r)) (read_braced (x # cs)))"

lemma read_braced_length: "read_braced s = Some (v, r) \<Longrightarrow> length r < length s"
  by (induction s arbitrary: v r rule: read_braced.induct) (fastforce split: if_splits)+

definition read_attribute :: "string \<Rightarrow> ((string \<times> string) \<times> string) option" where
  "read_attribute s = (case dropWhile (\<lambda>c. c \<noteq> CHR ''='') s of [] \<Rightarrow> None
   | _ # t \<Rightarrow> let key = takeWhile (\<lambda>c. c \<noteq> CHR ''='') s in
       (case t of
          c # cs \<Rightarrow> if c = CHR ''{'' then map_option (\<lambda>(v, r). ((key, v), r)) (read_braced cs)
            else Some ((key, takeWhile (\<lambda>c. c \<noteq> CHR '';'') t), dropWhile (\<lambda>c. c \<noteq> CHR '';'') t)
        | [] \<Rightarrow> Some ((key, []), [])))"

lemma read_attribute_length: "read_attribute s = Some (a, r) \<Longrightarrow> length r < length s"
proof -
  assume a: "read_attribute s = Some (a, r)"
  then obtain c t where t: "dropWhile (\<lambda>c. c \<noteq> CHR ''='') s = c # t"
    by (auto simp: read_attribute_def split: list.splits)
  then have "length t < length s"
    using length_dropWhile_le [of "\<lambda>c. c \<noteq> CHR ''=''" s] by simp
  moreover have "length r \<le> length t"
    using a t read_braced_length length_dropWhile_le [of "\<lambda>c. c \<noteq> CHR '';''" t]
    by (fastforce simp: read_attribute_def Let_def split: list.splits if_splits)
  ultimately show ?thesis by simp
qed

function odbc_read :: "string \<Rightarrow> (string \<times> string) list option" where
  "odbc_read s = (case read_attribute s of None \<Rightarrow> None
   | Some (a, rest) \<Rightarrow> (case rest of [] \<Rightarrow> Some [a]
     | c # cs \<Rightarrow> if c = CHR '';'' then map_option (Cons a) (odbc_read cs) else None))"
  by pat_completeness auto
termination
  by (relation "measure length") (auto dest: read_attribute_length)

declare odbc_read.simps [simp del]

text \<open>An attribute as it is written: key, value, and whether the value is in braces.\<close>

definition attribute_text :: "string \<times> string \<times> bool \<Rightarrow> string" where
  "attribute_text = (\<lambda>(k, v, braced). k @ ''='' @ (if braced then ''{'' @ escape_brace v @ ''}'' else v))"

definition attribute_ok :: "string \<times> string \<times> bool \<Rightarrow> bool" where
  "attribute_ok = (\<lambda>(k, v, braced). CHR ''='' \<notin> set k \<and>
     (\<not> braced \<longrightarrow> v \<noteq> [] \<and> CHR '';'' \<notin> set v \<and> hd v \<noteq> CHR ''{''))"

lemma read_braced_escape:
  "(case rest of c # _ \<Rightarrow> c \<noteq> CHR ''}'' | [] \<Rightarrow> True) \<Longrightarrow>
   read_braced (escape_brace v @ CHR ''}'' # rest) = Some (v, rest)"
proof (induction v)
  case Nil
  then show ?case by (cases rest) (auto simp: escape_brace_def)
next
  case (Cons c v)
  show ?case
  proof (cases "c = CHR ''}''")
    case True
    then show ?thesis using Cons by (simp add: escape_brace_def)
  next
    case False
    obtain x xs where x: "escape_brace v @ CHR ''}'' # rest = x # xs"
      by (cases "escape_brace v @ CHR ''}'' # rest") auto
    have "escape_brace (c # v) @ CHR ''}'' # rest = c # x # xs" using False x by (simp add: escape_brace_def)
    then show ?thesis using False Cons x by simp
  qed
qed

lemma read_attribute_text:
  assumes ok: "attribute_ok (k, v, b)" and rest: "case rest of c # _ \<Rightarrow> c = CHR '';'' | [] \<Rightarrow> True"
  shows "read_attribute (attribute_text (k, v, b) @ rest) = Some ((k, v), rest)"
proof -
  let ?t = "(if b then ''{'' @ escape_brace v @ ''}'' else v) @ rest"
  have k: "\<forall>c\<in>set k. c \<noteq> CHR ''=''" using ok by (auto simp: attribute_ok_def)
  have eq: "attribute_text (k, v, b) @ rest = k @ CHR ''='' # ?t" by (simp add: attribute_text_def)
  have key: "takeWhile (\<lambda>c. c \<noteq> CHR ''='') (k @ CHR ''='' # ?t) = k"
    "dropWhile (\<lambda>c. c \<noteq> CHR ''='') (k @ CHR ''='' # ?t) = CHR ''='' # ?t"
    using k by (simp_all add: takeWhile_append2 dropWhile_append2)
  show ?thesis
  proof (cases b)
    case True
    have "read_braced (escape_brace v @ CHR ''}'' # rest) = Some (v, rest)"
      by (rule read_braced_escape) (use rest in \<open>auto split: list.splits\<close>)
    then show ?thesis using True key unfolding eq by (simp add: read_attribute_def)
  next
    case False
    then obtain c cs where v: "v = c # cs" "c \<noteq> CHR ''{''" using ok by (cases v) (auto simp: attribute_ok_def)
    have semi: "\<forall>c\<in>set v. c \<noteq> CHR '';''" using ok False by (auto simp: attribute_ok_def)
    have "takeWhile (\<lambda>c. c \<noteq> CHR '';'') (v @ rest) = v" "dropWhile (\<lambda>c. c \<noteq> CHR '';'') (v @ rest) = rest"
      using semi rest by (auto simp: takeWhile_append2 dropWhile_append2 split: list.splits)
    then show ?thesis using False key v unfolding eq by (simp add: read_attribute_def Let_def)
  qed
qed

lemma odbc_read_join:
  assumes "list_all attribute_ok xs" and "xs \<noteq> []"
  shows "odbc_read (join '';'' (map attribute_text xs)) = Some (map (\<lambda>(k, v, b). (k, v)) xs)"
  using assms
proof (induction xs)
  case (Cons x xs)
  obtain k v b where x: "x = (k, v, b)" by (cases x)
  show ?case
  proof (cases "xs = []")
    case True
    have "read_attribute (attribute_text (k, v, b)) = Some ((k, v), [])"
      using read_attribute_text [of k v b "[]"] Cons.prems x by simp
    then show ?thesis using True x by (simp add: odbc_read.simps [of "attribute_text (k, v, b)"])
  next
    case False
    let ?rest = "join '';'' (map attribute_text xs)"
    have j: "join '';'' (map attribute_text (x # xs)) = attribute_text (k, v, b) @ CHR '';'' # ?rest"
      using False x by (simp add: join_Cons)
    have "read_attribute (attribute_text (k, v, b) @ CHR '';'' # ?rest) = Some ((k, v), CHR '';'' # ?rest)"
      by (rule read_attribute_text) (use Cons.prems x in simp_all)
    then show ?thesis unfolding j using Cons.IH Cons.prems False x
      by (simp add: odbc_read.simps [of "attribute_text (k, v, b) @ CHR '';'' # ?rest"])
  qed
qed simp

definition needs_braces :: "string \<Rightarrow> bool" where
  "needs_braces v \<longleftrightarrow> v = '''' \<or> v \<noteq> trim_space v \<or> contains_any '';{}'' v"

text \<open>The attributes of a configuration, and those of the credential.\<close>

definition config_attributes :: "odbc_config \<Rightarrow> (string \<times> string \<times> bool) list" where
  "config_attributes c =
     (if oc_DSN c \<noteq> '''' then (''DSN'', oc_DSN c, True) else (''Driver'', oc_Driver c, True)) #
     map (\<lambda>key. let v = the (map_of (oc_Properties c) key) in (key, v, needs_braces v))
       (sorted_keys (oc_Properties c))"

definition credential_attributes :: "string \<Rightarrow> string \<Rightarrow> (string \<times> string \<times> bool) list" where
  "credential_attributes username password =
     (if username \<noteq> '''' then [(''UID'', username, True)] else []) @
     (if password \<noteq> '''' then [(''PWD'', password, True)] else [])"

lemma connectionString_attributes:
  "connectionString c = join '';'' (map attribute_text (config_attributes c))"
  by (simp add: connectionString_def config_attributes_def attribute_text_def comp_def Let_def
      connectionValue_def needs_braces_def)

lemma contains_any_iff: "contains_any cs v \<longleftrightarrow> (\<exists>c\<in>set v. c \<in> set cs)"
  by (auto simp: contains_any_def list_ex_iff)

lemma property_char_no_equals: "list_all property_char k \<Longrightarrow> CHR ''='' \<notin> set k"
  by (auto simp: list_all_iff property_char_def is_upper_byte_def is_lower_byte_def is_digit_byte_def byte_def)

lemma config_attributes_ok:
  assumes "odbc_check c d = None"
  shows "list_all attribute_ok (config_attributes c)"
proof -
  have "CHR ''='' \<notin> set k" if "k \<in> set (sorted_keys (oc_Properties c))" for k
  proof -
    from that obtain v where "(k, v) \<in> set (oc_Properties c)" by (auto simp: dom_map_of_conv_image_fst)
    then have "list_all property_char k"
      using assms by (auto simp: odbc_check_def list_ex_iff validPropertyKey_def split: option.splits if_splits)
    then show ?thesis by (rule property_char_no_equals)
  qed
  moreover have "v \<noteq> [] \<and> CHR '';'' \<notin> set v \<and> hd v \<noteq> CHR ''{''" if "\<not> needs_braces v" for v
    using that by (cases v) (auto simp: needs_braces_def contains_any_iff)
  ultimately show ?thesis by (auto simp: config_attributes_def attribute_ok_def list_all_iff Let_def)
qed

lemma join_append: "xs \<noteq> [] \<Longrightarrow> ys \<noteq> [] \<Longrightarrow> join sep (xs @ ys) = join sep xs @ sep @ join sep ys"
proof (induction xs)
  case (Cons x xs)
  then show ?case by (cases "xs = []") (simp_all add: join_Cons)
qed simp

lemma attribute_text_last: "attribute_ok a \<Longrightarrow> attribute_text a \<noteq> [] \<and> last (attribute_text a) \<noteq> CHR '';''"
  by (cases a) (auto simp: attribute_ok_def attribute_text_def in_set_conv_decomp split: if_splits
      dest: last_in_set)

lemma join_attributes_last:
  "list_all attribute_ok xs \<Longrightarrow> xs \<noteq> [] \<Longrightarrow>
   join '';'' (map attribute_text xs) \<noteq> [] \<and> last (join '';'' (map attribute_text xs)) \<noteq> CHR '';''"
proof (induction xs)
  case (Cons x xs)
  then show ?case using attribute_text_last by (cases "xs = []") (auto simp: join_Cons)
qed simp

lemma trim_suffix_last: "s \<noteq> [] \<Longrightarrow> last s \<noteq> c \<Longrightarrow> trim_suffix [c] s = s"
  by (auto simp: trim_suffix_def has_suffix_iff)

text \<open>C18. A connection string reads back as exactly the intended attributes, in order, by the grammar of
  ODBC: for every configuration that validates and for every user name and password, whatever
  characters they contain, the driver sees the data source or driver, the properties and the
  credential and nothing else.\<close>

theorem odbc_connection_reads_back:
  assumes "odbc_check c d = None"
  shows "odbc_read (odbcConnectionString (connectionString c) username password) =
    Some (map (\<lambda>(k, v, b). (k, v)) (config_attributes c @ credential_attributes username password))"
proof -
  let ?xs = "config_attributes c" and ?ys = "credential_attributes username password"
  have ok: "list_all attribute_ok ?xs" "?xs \<noteq> []"
    using config_attributes_ok [OF assms] by (simp_all add: config_attributes_def)
  have "trim_suffix '';'' (connectionString c) = connectionString c"
    unfolding connectionString_attributes
    by (rule trim_suffix_last) (use join_attributes_last [OF ok] in simp_all)
  then have "odbcConnectionString (connectionString c) username password = join '';'' (map attribute_text (?xs @ ?ys))"
    using ok(2) unfolding connectionString_attributes
    by (simp add: odbcConnectionString_def credential_attributes_def attribute_text_def escape_brace_def join_append)
  moreover have "list_all attribute_ok (?xs @ ?ys)"
    using ok(1) by (simp add: credential_attributes_def attribute_ok_def)
  ultimately show ?thesis using odbc_read_join [of "?xs @ ?ys"] ok(2) by simp
qed

definition demo_odbc :: odbc_config where
  "demo_odbc = \<lparr>oc_DSN = ''shop'', oc_Driver = '''', oc_Properties = [(''Server'', ''a;PWD=x''), (''Port'', ''1'')],
     oc_DatabaseType = ''sqlserver''\<rparr>"

lemma demo_odbc_keys:
  "validPropertyKey ''Port''" "validPropertyKey ''Server''"
  by code_simp+

lemma demo_odbc_secret: "\<not> secret_property ''Server''" "\<not> secret_property ''Port''"
  by code_simp+

lemma demo_odbc_type: "odbc_databaseType demo_odbc \<in> set odbc_database_types"
  by (simp add: odbc_databaseType_def demo_odbc_def odbc_database_types_def)

lemma demo_odbc_DSN: "validDSN ''shop''"
  by code_simp

lemmas demo_odbc_parts = demo_odbc_keys demo_odbc_secret demo_odbc_type demo_odbc_DSN

lemma demo_odbc_check: "odbc_check demo_odbc demo_definition = None"
  using demo_check demo_odbc_parts by (simp add: odbc_check_def demo_odbc_def)

theorem odbc_connection_reads_back_witness:
  "odbc_read (odbcConnectionString (connectionString demo_odbc) ''sa'' ''p};UID=root'') =
     Some (map (\<lambda>(k, v, b). (k, v)) (config_attributes demo_odbc @ credential_attributes ''sa'' ''p};UID=root''))"
  by (rule odbc_connection_reads_back [OF demo_odbc_check])

end
