(* ===== verification/Sha256.thy ===== *)
theory Sha256
  imports Gostd "HOL-Library.Word"
begin

text \<open>
  crypto/sha256 (FIPS 180-4) over byte strings: the fingerprints of the reconciliation manager and
  the checksums of release archives and extension bundles.  Words are 32 bits wide, and addition
  wraps.
\<close>

unbundle bit_operations_syntax

section \<open>The round constants\<close>

definition sha_H :: "32 word list" where
  "sha_H = [0x6a09e667, 0xbb67ae85, 0x3c6ef372, 0xa54ff53a, 0x510e527f, 0x9b05688c, 0x1f83d9ab, 0x5be0cd19]"

definition sha_K :: "32 word list" where
  "sha_K = [
    0x428a2f98, 0x71374491, 0xb5c0fbcf, 0xe9b5dba5, 0x3956c25b, 0x59f111f1, 0x923f82a4, 0xab1c5ed5,
    0xd807aa98, 0x12835b01, 0x243185be, 0x550c7dc3, 0x72be5d74, 0x80deb1fe, 0x9bdc06a7, 0xc19bf174,
    0xe49b69c1, 0xefbe4786, 0x0fc19dc6, 0x240ca1cc, 0x2de92c6f, 0x4a7484aa, 0x5cb0a9dc, 0x76f988da,
    0x983e5152, 0xa831c66d, 0xb00327c8, 0xbf597fc7, 0xc6e00bf3, 0xd5a79147, 0x06ca6351, 0x14292967,
    0x27b70a85, 0x2e1b2138, 0x4d2c6dfc, 0x53380d13, 0x650a7354, 0x766a0abb, 0x81c2c92e, 0x92722c85,
    0xa2bfe8a1, 0xa81a664b, 0xc24b8b70, 0xc76c51a3, 0xd192e819, 0xd6990624, 0xf40e3585, 0x106aa070,
    0x19a4c116, 0x1e376c08, 0x2748774c, 0x34b0bcb5, 0x391c0cb3, 0x4ed8aa4a, 0x5b9cca4f, 0x682e6ff3,
    0x748f82ee, 0x78a5636f, 0x84c87814, 0x8cc70208, 0x90befffa, 0xa4506ceb, 0xbef9a3f7, 0xc67178f2]"

section \<open>Bytes and words\<close>

definition word_of_bytes :: "string \<Rightarrow> 32 word" where
  "word_of_bytes bs = foldl (\<lambda>w b. push_bit 8 w OR word_of_nat (byte b)) 0 bs"

definition byte_at :: "nat \<Rightarrow> 32 word \<Rightarrow> char" where
  "byte_at shift w = char_of (unat (drop_bit shift w AND 0xFF))"

definition bytes_of_word :: "32 word \<Rightarrow> string" where
  "bytes_of_word w = [byte_at 24 w, byte_at 16 w, byte_at 8 w, byte_at 0 w]"

definition big_endian64 :: "64 word \<Rightarrow> string" where
  "big_endian64 w = map (\<lambda>i. char_of (unat (drop_bit i w AND 0xFF))) [56, 48, 40, 32, 24, 16, 8, 0]"

text \<open>The message, a set bit, zeros, and the length in bits, to a multiple of 64 bytes.\<close>

definition sha_pad :: "string \<Rightarrow> string" where
  "sha_pad m = m @ [char_of (0x80::nat)] @ replicate ((119 - length m mod 64) mod 64) (char_of (0::nat)) @
     big_endian64 (word_of_nat (8 * length m))"

function chunks :: "nat \<Rightarrow> 'a list \<Rightarrow> 'a list list" where
  "chunks n xs = (if xs = [] \<or> n = 0 then [] else take n xs # chunks n (drop n xs))"
  by pat_completeness auto
termination
  by (relation "measure (\<lambda>(n, xs). length xs)") auto

declare chunks.simps [simp del]

section \<open>The compression function\<close>

definition small_sigma0 :: "32 word \<Rightarrow> 32 word" where
  "small_sigma0 x = word_rotr 7 x XOR word_rotr 18 x XOR drop_bit 3 x"

definition small_sigma1 :: "32 word \<Rightarrow> 32 word" where
  "small_sigma1 x = word_rotr 17 x XOR word_rotr 19 x XOR drop_bit 10 x"

definition big_sigma0 :: "32 word \<Rightarrow> 32 word" where
  "big_sigma0 x = word_rotr 2 x XOR word_rotr 13 x XOR word_rotr 22 x"

definition big_sigma1 :: "32 word \<Rightarrow> 32 word" where
  "big_sigma1 x = word_rotr 6 x XOR word_rotr 11 x XOR word_rotr 25 x"

definition sha_ch :: "32 word \<Rightarrow> 32 word \<Rightarrow> 32 word \<Rightarrow> 32 word" where
  "sha_ch x y z = (x AND y) XOR (NOT x AND z)"

definition sha_maj :: "32 word \<Rightarrow> 32 word \<Rightarrow> 32 word \<Rightarrow> 32 word" where
  "sha_maj x y z = (x AND y) XOR (x AND z) XOR (y AND z)"

text \<open>The schedule, newest word first.\<close>

fun sha_schedule :: "nat \<Rightarrow> 32 word list \<Rightarrow> 32 word list" where
  "sha_schedule 0 ws = ws"
| "sha_schedule (Suc n) ws =
     sha_schedule n ((small_sigma1 (ws ! 1) + ws ! 6 + small_sigma0 (ws ! 14) + ws ! 15) # ws)"

fun sha_round :: "32 word list \<Rightarrow> 32 word \<times> 32 word \<Rightarrow> 32 word list" where
  "sha_round [a, b, c, d, e, f, g, h] (k, w) =
     (let t1 = h + big_sigma1 e + sha_ch e f g + k + w; t2 = big_sigma0 a + sha_maj a b c
      in [t1 + t2, a, b, c, d + t1, e, f, g])"
| "sha_round other _ = other"

definition sha_compress :: "32 word list \<Rightarrow> string \<Rightarrow> 32 word list" where
  "sha_compress hs block =
     (let ws = rev (sha_schedule 48 (rev (map word_of_bytes (chunks 4 block))))
      in map2 (+) hs (foldl sha_round hs (zip sha_K ws)))"

definition Sum256 :: "string \<Rightarrow> string" where
  "Sum256 m = concat (map bytes_of_word (foldl sha_compress sha_H (chunks 64 (sha_pad m))))"

lemma length_sha_round: "length (sha_round hs kw) = length hs"
  by (cases "(hs, kw)" rule: sha_round.cases) (auto simp: Let_def)

lemma length_sha_rounds: "length (foldl sha_round hs kws) = length hs"
  by (induction kws arbitrary: hs) (simp_all add: length_sha_round)

lemma length_sha_compress: "length (sha_compress hs block) = length hs"
  by (simp add: sha_compress_def length_sha_rounds Let_def)

lemma length_sha_blocks: "length (foldl sha_compress hs bs) = length hs"
  by (induction bs arbitrary: hs) (simp_all add: length_sha_compress)

lemma length_Sum256 [simp]: "length (Sum256 m) = 32"
proof -
  have four: "length (concat (map bytes_of_word ws)) = 4 * length ws" for ws
    by (induction ws) (simp_all add: bytes_of_word_def)
  show ?thesis by (simp add: Sum256_def four length_sha_blocks sha_H_def)
qed

end
