(* ===== verification/Reconcile.thy ===== *)
theory Reconcile
  imports Adapters Config Sha256
begin

text \<open>
  The reconciliation manager (internal/reconcile): it prepares the whole candidate configuration with
  its credentials, then changes the attached sources, and rolls back what it did when a step fails.
  The manager works over a loader of type \<open>'l\<close>, a credential store of type \<open>'s\<close> and a world \<open>'w\<close> that
  its adapters change; the factories for the engine's adapters follow at the end.  Go visits a map in
  any order: the argument \<open>order\<close> permutes the ids of the sources to remove.
\<close>

section \<open>State\<close>

text \<open>\<open>activeSource\<close> and \<open>preparedSource\<close> have the same fields, and one is converted to the other.\<close>

record 'w managed_source =
  ms_definition :: source_def
  ms_adapter :: "'w adapter"
  ms_fingerprint :: string

record 'w factory =
  fa_Type :: string
  fa_Build :: "config_source \<Rightarrow> string \<Rightarrow> 'w adapter res"

type_synonym 'l loader = "'l \<Rightarrow> document res \<times> 'l"

type_synonym 'w sources = "(string \<times> 'w managed_source) list"

record ('l, 's, 'w) manager =
  mg_loader :: "'l loader"
  mg_secrets :: "'s credential_ops"
  mg_factories :: "(string \<times> 'w factory) list"
  mg_active :: "'w sources"

type_synonym ('l, 's, 'w) mworld = "'l \<times> 's \<times> 'w"

record failure =
  fl_ID :: string
  fl_Name :: string
  fl_Type :: string
  fl_Err :: go_error

record source_diagnostic =
  sg_ID :: string
  sg_Health :: string
  sg_ReadOnly :: bool
  sg_Warnings :: "string list"

section \<open>Construction\<close>

fun add_factories :: "'w factory option list \<Rightarrow> (string \<times> 'w factory) list \<Rightarrow> (string \<times> 'w factory) list res" where
  "add_factories [] fs = Inr fs"
| "add_factories (f # rest) fs = (case f of
     None \<Rightarrow> Inl (Plain ''source factory type is required'')
   | Some g \<Rightarrow>
       if fa_Type g = '''' then Inl (Plain ''source factory type is required'')
       else if map_of fs (fa_Type g) \<noteq> None
         then Inl (Plain (''duplicate source factory '' @ quoted (fa_Type g)))
       else add_factories rest (AList.update (fa_Type g) g fs))"

definition manager_New ::
  "'l loader option \<Rightarrow> 's credential_ops option \<Rightarrow> 'w factory option list \<Rightarrow> ('l, 's, 'w) manager res" where
  "manager_New loader store factories =
     (if loader = None \<or> store = None then Inl (Plain ''configuration and credential stores are required'')
      else case add_factories factories [] of Inl e \<Rightarrow> Inl e
        | Inr fs \<Rightarrow> Inr \<lparr>mg_loader = the loader, mg_secrets = the store, mg_factories = fs, mg_active = []\<rparr>)"

definition RebindLoader :: "'l loader option \<Rightarrow> ('l, 's, 'w) manager \<Rightarrow> go_error option \<times> ('l, 's, 'w) manager" where
  "RebindLoader loader m = (case loader of None \<Rightarrow> (Some (Plain ''configuration loader is required''), m)
     | Some l \<Rightarrow> (None, m\<lparr>mg_loader := l\<rparr>))"

section \<open>Preparation\<close>

definition NUL :: string where "NUL = [char_of (0::nat)]"

definition fingerprint_fields :: "config_source \<Rightarrow> string list" where
  "fingerprint_fields c = [cf_ID c, cf_Name c, cf_Alias c, cf_Type c, cf_DatabaseType c,
     cf_CredentialRef c, cf_Options c]"

definition fingerprint_text :: "config_source \<Rightarrow> string \<Rightarrow> string" where
  "fingerprint_text c credential = join NUL (fingerprint_fields c @ [Sum256 credential])"

definition fingerprint :: "config_source \<Rightarrow> string \<Rightarrow> string" where
  "fingerprint c credential = Sum256 (fingerprint_text c credential)"

definition stageAlias :: "string \<Rightarrow> string \<Rightarrow> string" where
  "stageAlias alias fp =
     (let suffix = hex_encode (take 4 fp);
          maximumPrefix = 63 - length ''qr_stage__'' - length suffix;
          alias = (if length alias > maximumPrefix then take maximumPrefix alias else alias)
      in ''qr_stage_'' @ alias @ ''_'' @ suffix)"

definition definition_of :: "config_source \<Rightarrow> source_def" where
  "definition_of c = \<lparr>sd_ID = cf_ID c, sd_Name = cf_Name c, sd_Alias = cf_Alias c,
     sd_ConnectorType = cf_Type c, sd_DatabaseType = cf_DatabaseType c, sd_Enabled = cf_Enabled c\<rparr>"

definition source_unavailable :: "string \<Rightarrow> go_error \<Rightarrow> go_error" where
  "source_unavailable msg e = QError CodeSourceUnavailable msg (Some e)"

definition get_credential :: "('l, 's, 'w) manager \<Rightarrow> config_source \<Rightarrow> 's \<Rightarrow> string res \<times> 's" where
  "get_credential m c s =
     (if cf_CredentialRef c = '''' then (Inr [], s) else cs_Get (mg_secrets m) (cf_CredentialRef c) s)"

definition prepareOne ::
  "('l, 's, 'w) manager \<Rightarrow> config_source \<Rightarrow> 's \<times> 'w \<Rightarrow> 'w managed_source res \<times> ('s \<times> 'w)" where
  "prepareOne m c = (\<lambda>(s, w). case map_of (mg_factories m) (cf_Type c) of
     None \<Rightarrow> (Inl (QError CodeSourceUnavailable ''source adapter is unavailable'' None), s, w)
   | Some factory \<Rightarrow> (case get_credential m c s of
       (Inl e, s) \<Rightarrow> (Inl (source_unavailable ''source credential is unavailable'' e), s, w)
     | (Inr credential, s) \<Rightarrow> (case fa_Build factory c credential of
         Inl e \<Rightarrow> (Inl (source_unavailable ''source configuration is invalid'' e), s, w)
       | Inr ad \<Rightarrow> (case ad_Validate ad (definition_of c) w of
           (Some e, w) \<Rightarrow> (Inl (source_unavailable ''source validation failed'' e), s, w)
         | (None, w) \<Rightarrow> (Inr \<lparr>ms_definition = definition_of c, ms_adapter = ad,
             ms_fingerprint = fingerprint c credential\<rparr>, s, w)))))"

fun prepare_all ::
  "('l, 's, 'w) manager \<Rightarrow> config_source list \<Rightarrow> 'w sources \<Rightarrow> 's \<times> 'w \<Rightarrow> 'w sources res \<times> ('s \<times> 'w)" where
  "prepare_all m [] prepared sw = (Inr prepared, sw)"
| "prepare_all m (c # cs) prepared sw =
     (if \<not> cf_Enabled c then prepare_all m cs prepared sw
      else case prepareOne m c sw of (Inl e, sw) \<Rightarrow> (Inl e, sw)
        | (Inr candidate, sw) \<Rightarrow> prepare_all m cs (AList.update (cf_ID c) candidate prepared) sw)"

definition prepare ::
  "('l, 's, 'w) manager \<Rightarrow> ('l, 's, 'w) mworld \<Rightarrow> 'w sources res \<times> ('l, 's, 'w) mworld" where
  "prepare m = (\<lambda>(l, sw). case mg_loader m l of
     (Inl e, l) \<Rightarrow> (Inl (source_unavailable ''source configuration is invalid'' e), l, sw)
   | (Inr document, l) \<Rightarrow> (case prepare_all m (sources_of document) [] sw of (r, sw) \<Rightarrow> (r, l, sw)))"

definition manager_Validate ::
  "('l, 's, 'w) manager \<Rightarrow> config_source \<Rightarrow> string \<Rightarrow> 'w \<Rightarrow> go_error option \<times> 'w" where
  "manager_Validate m c credential w = (case map_of (mg_factories m) (cf_Type c) of
     None \<Rightarrow> (Some (Plain ''source adapter is unavailable''), w)
   | Some factory \<Rightarrow> (case fa_Build factory c credential of Inl e \<Rightarrow> (Some e, w)
       | Inr ad \<Rightarrow> ad_Validate ad (definition_of c) w))"

section \<open>Application\<close>

text \<open>The rollback actions, as data: a source to clean up, or one to attach again.  A rollback ignores
  the errors of its actions; they are kept here to state when it restored everything.\<close>

datatype 'w undo = UndoCleanup "'w managed_source" | UndoAttach "'w managed_source"

fun undo_one :: "'w undo \<Rightarrow> 'w \<Rightarrow> go_error option \<times> 'w" where
  "undo_one (UndoCleanup p) w = ad_Cleanup (ms_adapter p) (ms_definition p) w"
| "undo_one (UndoAttach p) w = ad_Attach (ms_adapter p) (ms_definition p) w"

text \<open>The actions run from the last to the first; the list is kept newest first.\<close>

fun roll_back :: "'w undo list \<Rightarrow> 'w \<Rightarrow> go_error option list \<times> 'w" where
  "roll_back [] w = ([], w)"
| "roll_back (u # us) w = (case undo_one u w of (e, w) \<Rightarrow> (case roll_back us w of (es, w) \<Rightarrow> (e # es, w)))"

definition staged_definition :: "string \<Rightarrow> 'w managed_source \<Rightarrow> source_def" where
  "staged_definition i candidate = (ms_definition candidate)\<lparr>sd_ID := ''stage_'' @ i,
     sd_Alias := stageAlias (sd_Alias (ms_definition candidate)) (ms_fingerprint candidate)\<rparr>"

text \<open>One step of an application: an error with the actions that it ignored, or the undo list, the next
  set and the world.\<close>

type_synonym 'w step_result = "((go_error \<times> 'w undo list \<times> go_error option list) + ('w undo list \<times> 'w sources)) \<times> 'w"

definition replace_source ::
  "string \<Rightarrow> 'w managed_source \<Rightarrow> 'w managed_source \<Rightarrow> 'w undo list \<Rightarrow> 'w sources \<Rightarrow> 'w \<Rightarrow> 'w step_result" where
  "replace_source i current candidate us nxt w =
     (let staged = staged_definition i candidate in
      case ad_Attach (ms_adapter candidate) staged w of
        (Some e, w) \<Rightarrow> (Inl (source_unavailable ''replacement source validation failed'' e, us, []), w)
      | (None, w) \<Rightarrow> case ad_Cleanup (ms_adapter candidate) staged w of
        (Some e, w) \<Rightarrow> (Inl (source_unavailable ''replacement source cleanup failed'' e, us, []), w)
      | (None, w) \<Rightarrow> case ad_Cleanup (ms_adapter current) (ms_definition current) w of
        (Some e, w) \<Rightarrow> (Inl (source_unavailable ''existing source cleanup failed'' e, us, []), w)
      | (None, w) \<Rightarrow> case ad_Attach (ms_adapter candidate) (ms_definition candidate) w of
        (Some e, w) \<Rightarrow> (case ad_Attach (ms_adapter current) (ms_definition current) w of
           (ignored, w) \<Rightarrow> (Inl (source_unavailable ''replacement source attach failed'' e, us, [ignored]), w))
      | (None, w) \<Rightarrow> (Inr (UndoCleanup candidate # UndoAttach current # us, AList.update i candidate nxt), w))"

definition apply_one ::
  "'w sources \<Rightarrow> string \<Rightarrow> 'w managed_source \<Rightarrow> 'w undo list \<Rightarrow> 'w sources \<Rightarrow> 'w \<Rightarrow> 'w step_result" where
  "apply_one active i candidate us nxt w = (case map_of active i of
     Some current \<Rightarrow>
       if ms_fingerprint current = ms_fingerprint candidate then (Inr (us, AList.update i current nxt), w)
       else replace_source i current candidate us nxt w
   | None \<Rightarrow> (case ad_Attach (ms_adapter candidate) (ms_definition candidate) w of
       (Some e, w) \<Rightarrow> (Inl (source_unavailable ''source attach failed'' e, us, []), w)
     | (None, w) \<Rightarrow> (Inr (UndoCleanup candidate # us, AList.update i candidate nxt), w)))"

fun apply_ids ::
  "'w sources \<Rightarrow> 'w sources \<Rightarrow> string list \<Rightarrow> 'w undo list \<Rightarrow> 'w sources \<Rightarrow> 'w \<Rightarrow> 'w step_result" where
  "apply_ids active prepared [] us nxt w = (Inr (us, nxt), w)"
| "apply_ids active prepared (i # is) us nxt w =
     (case apply_one active i (the (map_of prepared i)) us nxt w of
        (Inl e, w) \<Rightarrow> (Inl e, w)
      | (Inr (us, nxt), w) \<Rightarrow> apply_ids active prepared is us nxt w)"

fun remove_ids ::
  "'w sources \<Rightarrow> 'w sources \<Rightarrow> string list \<Rightarrow> 'w undo list \<Rightarrow> 'w sources \<Rightarrow> 'w \<Rightarrow> 'w step_result" where
  "remove_ids active prepared [] us nxt w = (Inr (us, nxt), w)"
| "remove_ids active prepared (i # is) us nxt w =
     (if map_of prepared i \<noteq> None then remove_ids active prepared is us nxt w
      else let current = the (map_of active i) in
        case ad_Cleanup (ms_adapter current) (ms_definition current) w of
          (Some e, w) \<Rightarrow> (Inl (source_unavailable ''removed source cleanup failed'' e, us, []), w)
        | (None, w) \<Rightarrow> remove_ids active prepared is (UndoAttach current # us) nxt w)"

text \<open>The last component holds the errors that the failed application ignored.\<close>

definition apply_prepared ::
  "(string list \<Rightarrow> string list) \<Rightarrow> 'w sources \<Rightarrow> ('l, 's, 'w) manager \<Rightarrow> 'w \<Rightarrow>
   (go_error option \<times> ('l, 's, 'w) manager \<times> 'w) \<times> go_error option list" where
  "apply_prepared order prepared m w =
     (case (case apply_ids (mg_active m) prepared (sorted_keys prepared) [] [] w of
              (Inl e, w) \<Rightarrow> (Inl e, w)
            | (Inr (us, nxt), w) \<Rightarrow> remove_ids (mg_active m) prepared (order (keys (mg_active m))) us nxt w) of
        (Inl (e, us, ignored), w) \<Rightarrow> (case roll_back us w of (es, w) \<Rightarrow> ((Some e, m, w), ignored @ es))
      | (Inr (us, nxt), w) \<Rightarrow> ((None, m\<lparr>mg_active := nxt\<rparr>, w), []))"

definition manager_Reload ::
  "(string list \<Rightarrow> string list) \<Rightarrow> ('l, 's, 'w) manager \<Rightarrow> ('l, 's, 'w) mworld \<Rightarrow>
   (go_error option \<times> ('l, 's, 'w) manager \<times> ('l, 's, 'w) mworld) \<times> go_error option list" where
  "manager_Reload order m lsw = (case prepare m lsw of
     (Inl e, lsw) \<Rightarrow> ((Some e, m, lsw), [])
   | (Inr prepared, (l, s, w)) \<Rightarrow> (case apply_prepared order prepared m w of
       ((e, m, w), ignored) \<Rightarrow> ((e, m, l, s, w), ignored)))"

section \<open>Bootstrap and diagnostics\<close>

definition failure_of :: "config_source \<Rightarrow> go_error \<Rightarrow> failure" where
  "failure_of c e = \<lparr>fl_ID = cf_ID c, fl_Name = cf_Name c, fl_Type = cf_Type c, fl_Err = e\<rparr>"

fun bootstrap_all ::
  "('l, 's, 'w) manager \<Rightarrow> config_source list \<Rightarrow> failure list \<Rightarrow> 's \<times> 'w \<Rightarrow>
   failure list \<times> ('l, 's, 'w) manager \<times> ('s \<times> 'w)" where
  "bootstrap_all m [] failures sw = (failures, m, sw)"
| "bootstrap_all m (c # cs) failures sw =
     (if \<not> cf_Enabled c then bootstrap_all m cs failures sw
      else case prepareOne m c sw of
        (Inl e, sw) \<Rightarrow> bootstrap_all m cs (failures @ [failure_of c e]) sw
      | (Inr candidate, (s, w)) \<Rightarrow> (case ad_Attach (ms_adapter candidate) (ms_definition candidate) w of
          (Some e, w) \<Rightarrow> bootstrap_all m cs (failures @ [failure_of c e]) (s, w)
        | (None, w) \<Rightarrow> bootstrap_all (m\<lparr>mg_active := AList.update (cf_ID c) candidate (mg_active m)\<rparr>) cs
            failures (s, w)))"

definition Bootstrap ::
  "('l, 's, 'w) manager \<Rightarrow> ('l, 's, 'w) mworld \<Rightarrow>
   failure list res \<times> ('l, 's, 'w) manager \<times> ('l, 's, 'w) mworld" where
  "Bootstrap m = (\<lambda>(l, sw). case mg_loader m l of
     (Inl e, l) \<Rightarrow> (Inl e, m, l, sw)
   | (Inr document, l) \<Rightarrow> (case bootstrap_all m (sources_of document) [] sw of
       (failures, m, sw) \<Rightarrow> (Inr failures, m, l, sw)))"

definition posture_warnings :: "'w managed_source \<Rightarrow> 'w \<Rightarrow> string list \<times> 'w" where
  "posture_warnings a w = (case ad_Posture (ms_adapter a) of None \<Rightarrow> ([], w)
     | Some inspect \<Rightarrow> (case inspect (ms_definition a) w of
         (Inl e, w) \<Rightarrow> ([''source read-only posture could not be inspected''], w)
       | (Inr warnings, w) \<Rightarrow> (warnings, w)))"

definition diagnose :: "string \<Rightarrow> 'w managed_source \<Rightarrow> 'w \<Rightarrow> source_diagnostic \<times> 'w" where
  "diagnose i a w = (case ad_Health (ms_adapter a) (ms_definition a) w of (e, w) \<Rightarrow>
     (case posture_warnings a w of (warnings, w) \<Rightarrow>
       (\<lparr>sg_ID = i, sg_Health = (if e = None then ''ready'' else ''unavailable''), sg_ReadOnly = True,
          sg_Warnings = (if e = None then [] else [''source connectivity check failed'']) @ warnings\<rparr>, w)))"

fun diagnose_ids :: "'w sources \<Rightarrow> string list \<Rightarrow> 'w \<Rightarrow> source_diagnostic list \<times> 'w" where
  "diagnose_ids active [] w = ([], w)"
| "diagnose_ids active (i # is) w = (case diagnose i (the (map_of active i)) w of (g, w) \<Rightarrow>
     (case diagnose_ids active is w of (gs, w) \<Rightarrow> (g # gs, w)))"

definition manager_Diagnostics :: "('l, 's, 'w) manager \<Rightarrow> 'w \<Rightarrow> source_diagnostic list \<times> 'w" where
  "manager_Diagnostics m w = diagnose_ids (mg_active m) (sorted_keys (mg_active m)) w"

section \<open>Correctness of an application\<close>

text \<open>The sources of a set, by id, with the names under which they are attached.\<close>

definition names_of :: "'w sources \<Rightarrow> string \<Rightarrow> string option" where
  "names_of ss i = map_option (\<lambda>p. sd_Name (ms_definition p)) (map_of ss i)"

definition good_source :: "('w adapter \<Rightarrow> bool) \<Rightarrow> string \<Rightarrow> 'w managed_source \<Rightarrow> bool" where
  "good_source good i p \<longleftrightarrow> sd_ID (ms_definition p) = i \<and> good (ms_adapter p)"

definition good_sources :: "('w adapter \<Rightarrow> bool) \<Rightarrow> 'w sources \<Rightarrow> bool" where
  "good_sources good ss \<longleftrightarrow> (\<forall>i p. map_of ss i = Some p \<longrightarrow> good_source good i p)"

text \<open>What an application leaves under an id: the active source when its fingerprint is unchanged.\<close>

definition chosen :: "'w sources \<Rightarrow> string \<Rightarrow> 'w managed_source \<Rightarrow> 'w managed_source" where
  "chosen active i candidate = (case map_of active i of None \<Rightarrow> candidate
     | Some current \<Rightarrow> if ms_fingerprint current = ms_fingerprint candidate then current else candidate)"

text \<open>No id is the id under which another source is staged.\<close>

definition stage_free :: "'w sources \<Rightarrow> 'w sources \<Rightarrow> bool" where
  "stage_free active prepared \<longleftrightarrow> (\<forall>i \<in> dom (map_of prepared).
     ''stage_'' @ i \<notin> dom (map_of active) \<union> dom (map_of prepared))"

fun undo_effect :: "'w undo list \<Rightarrow> (string \<Rightarrow> string option) \<Rightarrow> string \<Rightarrow> string option" where
  "undo_effect [] f = f"
| "undo_effect (UndoCleanup p # us) f = undo_effect us (f(sd_ID (ms_definition p) := None))"
| "undo_effect (UndoAttach p # us) f = undo_effect us (f(sd_ID (ms_definition p) \<mapsto> sd_Name (ms_definition p)))"

fun undo_source :: "'w undo \<Rightarrow> 'w managed_source" where
  "undo_source (UndoCleanup p) = p"
| "undo_source (UndoAttach p) = p"

definition quiet_errors :: "go_error option list \<Rightarrow> bool" where
  "quiet_errors es \<longleftrightarrow> (\<forall>e \<in> set es. e = None)"

lemma undo_effect_point: "f i = g i \<Longrightarrow> undo_effect us f i = undo_effect us g i"
proof (induction us arbitrary: f g)
  case (Cons u us)
  show ?case by (cases u) (auto intro!: Cons.IH simp: Cons.prems)
qed simp

lemma names_of_update: "names_of (AList.update i p ss) = (names_of ss)(i \<mapsto> sd_Name (ms_definition p))"
  by (simp add: names_of_def fun_eq_iff)

lemma dom_names_of: "dom (names_of ss) = dom (map_of ss)"
  by (auto simp: names_of_def dom_def)

context source_adapters
begin

lemma roll_back_effect:
  assumes "\<forall>u \<in> set us. good (ms_adapter (undo_source u))"
    and "roll_back us w = (es, w')" and "quiet_errors es"
  shows "attached w' = undo_effect us (attached w)"
  using assms
proof (induction us arbitrary: w es)
  case (Cons u us)
  obtain e w1 where u: "undo_one u w = (e, w1)" by fastforce
  obtain es1 w2 where r: "roll_back us w1 = (es1, w2)" by fastforce
  have e: "e = None" "w' = w2" "quiet_errors es1" using Cons.prems u r by (auto simp: quiet_errors_def)
  have "attached w2 = undo_effect us (attached w1)"
    using Cons.IH [of w1 es1] Cons.prems(1) r e by simp
  moreover have "undo_effect us (attached w1) = undo_effect (u # us) (attached w)"
    using u e(1) Cons.prems(1) by (cases u) (auto dest: attach_ok cleanup_ok)
  ultimately show ?case using e(2) by simp
qed simp

text \<open>The actions taken so far, undone from the present world, give back the active sources.\<close>

definition restores :: "'w sources \<Rightarrow> 'w undo list \<Rightarrow> 'w \<Rightarrow> bool" where
  "restores active us w \<longleftrightarrow> (\<forall>u \<in> set us. good (ms_adapter (undo_source u))) \<and>
     (\<forall>i \<in> dom (map_of active). undo_effect us (attached w) i = names_of active i)"

lemma restores_changed:
  assumes "restores active us w" and "\<And>i. i \<in> dom (map_of active) \<Longrightarrow> attached w' i = attached w i"
  shows "restores active us w'"
  using assms undo_effect_point [of "attached w'" _ "attached w" us] by (simp add: restores_def)

lemma roll_back_restores:
  assumes "restores active us w" and "roll_back us w = (es, w')" and "quiet_errors es"
    and "i \<in> dom (map_of active)"
  shows "attached w' i = names_of active i"
  using assms roll_back_effect [of us w es w'] by (simp add: restores_def)

lemma replace_source_ok:
  assumes r: "replace_source i current candidate us nxt w = (Inr (us', nxt'), w')"
    and cand: "good_source good i candidate" and cur: "good_source good i current"
    and free: "attached w (''stage_'' @ i) = None"
  shows "nxt' = AList.update i candidate nxt \<and> us' = UndoCleanup candidate # UndoAttach current # us \<and>
     attached w' = (attached w)(i \<mapsto> sd_Name (ms_definition candidate))"
proof -
  let ?st = "staged_definition i candidate" and ?a = "ms_adapter candidate"
  obtain e1 w1 where 1: "ad_Attach ?a ?st w = (e1, w1)" by fastforce
  obtain e2 w2 where 2: "ad_Cleanup ?a ?st w1 = (e2, w2)" by fastforce
  obtain e3 w3 where 3: "ad_Cleanup (ms_adapter current) (ms_definition current) w2 = (e3, w3)" by fastforce
  obtain e4 w4 where 4: "ad_Attach ?a (ms_definition candidate) w3 = (e4, w4)" by fastforce
  have ok: "e1 = None" "e2 = None" "e3 = None" "e4 = None" and
    res: "us' = UndoCleanup candidate # UndoAttach current # us" "nxt' = AList.update i candidate nxt" "w' = w4"
    using r unfolding replace_source_def Let_def 1 prod.case 2 3 4
    by (auto split: option.splits prod.splits)
  have a1: "attached w1 = (attached w)(''stage_'' @ i \<mapsto> sd_Name ?st)"
    using attach_ok [of ?a ?st w w1] 1 ok(1) cand by (simp add: good_source_def staged_definition_def)
  have a2: "attached w2 = attached w"
    using cleanup_ok [of ?a ?st w1 w2] 2 ok(2) cand a1 free
    by (auto simp: good_source_def staged_definition_def)
  have a3: "attached w3 = (attached w)(i := None)"
    using cleanup_ok [OF _ 3 [unfolded ok(3)]] cur a2 by (simp add: good_source_def)
  have "attached w4 = (attached w)(i \<mapsto> sd_Name (ms_definition candidate))"
    using attach_ok [OF _ 4 [unfolded ok(4)]] cand a3 by (simp add: good_source_def)
  with res show ?thesis by simp
qed

lemma replace_source_failed:
  assumes r: "replace_source i current candidate us nxt w = (Inl (e, us', ignored), w')"
    and cand: "good_source good i candidate" and cur: "good_source good i current"
    and here: "attached w i = Some (sd_Name (ms_definition current))"
    and quiet: "quiet_errors ignored" and j: "j \<noteq> ''stage_'' @ i"
  shows "us' = us \<and> attached w' j = attached w j"
proof -
  let ?st = "staged_definition i candidate" and ?a = "ms_adapter candidate"
  obtain e1 w1 where 1: "ad_Attach ?a ?st w = (e1, w1)" by fastforce
  obtain e2 w2 where 2: "ad_Cleanup ?a ?st w1 = (e2, w2)" by fastforce
  obtain e3 w3 where 3: "ad_Cleanup (ms_adapter current) (ms_definition current) w2 = (e3, w3)" by fastforce
  obtain e4 w4 where 4: "ad_Attach ?a (ms_definition candidate) w3 = (e4, w4)" by fastforce
  obtain e5 w5 where 5: "ad_Attach (ms_adapter current) (ms_definition current) w4 = (e5, w5)" by fastforce
  have good: "good ?a" "good (ms_adapter current)" and ids: "sd_ID (ms_definition candidate) = i"
    "sd_ID (ms_definition current) = i" "sd_ID ?st = ''stage_'' @ i"
    using cand cur by (simp_all add: good_source_def staged_definition_def)
  have ri: "(case e1 of Some e \<Rightarrow> (Inl (source_unavailable ''replacement source validation failed'' e, us, []), w1)
      | None \<Rightarrow> case e2 of Some e \<Rightarrow> (Inl (source_unavailable ''replacement source cleanup failed'' e, us, []), w2)
      | None \<Rightarrow> case e3 of Some e \<Rightarrow> (Inl (source_unavailable ''existing source cleanup failed'' e, us, []), w3)
      | None \<Rightarrow> case e4 of Some e \<Rightarrow> (Inl (source_unavailable ''replacement source attach failed'' e, us, [e5]), w5)
      | None \<Rightarrow> (Inr (UndoCleanup candidate # UndoAttach current # us, AList.update i candidate nxt), w4)) =
      (Inl (e, us', ignored), w')"
    using r unfolding replace_source_def Let_def 1 prod.case 2 3 4 5 by (auto split: option.splits)
  have a1: "attached w1 j = attached w j"
    using 1 attach_ok [OF good(1)] attach_failed [OF good(1)] ids j by (cases e1) auto
  have a2: "attached w2 j = attached w j"
    using 2 a1 cleanup_ok [OF good(1)] cleanup_failed [OF good(1)] ids j by (cases e2) auto
  have a3: "attached w3 = attached w2" if "e3 \<noteq> None"
    using 3 that cleanup_failed [OF good(2)] by (cases e3) auto
  have a3': "attached w3 = (attached w2)(i := None)" if "e3 = None"
    using 3 that cleanup_ok [OF good(2)] ids by auto
  have a4: "attached w4 k = attached w3 k" if "e4 \<noteq> None" "k \<noteq> i" for k
    using 4 that attach_failed [OF good(1)] ids by (cases e4) auto
  have a5: "attached w5 = (attached w4)(i \<mapsto> sd_Name (ms_definition current))" if "e5 = None"
    using 5 that attach_ok [OF good(2)] ids by auto
  show ?thesis
  proof (cases "j = i")
    case True
    then show ?thesis
      using ri a1 a2 a3 a5 here quiet by (auto simp: quiet_errors_def split: option.splits)
  next
    case False
    then show ?thesis
      using ri a1 a2 a3 a3' a4 a5 quiet by (auto simp: quiet_errors_def split: option.splits)
  qed
qed

end

context source_adapters
begin

lemma apply_one_ok:
  assumes r: "apply_one active i candidate us nxt w = (Inr (us', nxt'), w')"
    and cand: "good_source good i candidate" and act: "good_sources good active"
    and here: "attached w i = names_of active i" and free: "attached w (''stage_'' @ i) = None"
    and res: "restores active us w"
  shows "nxt' = AList.update i (chosen active i candidate) nxt \<and>
     attached w' = (attached w)(i \<mapsto> sd_Name (ms_definition (chosen active i candidate))) \<and>
     restores active us' w'"
proof (cases "map_of active i")
  case None
  then have a: "ad_Attach (ms_adapter candidate) (ms_definition candidate) w = (None, w')"
    and u: "us' = UndoCleanup candidate # us" "nxt' = AList.update i candidate nxt"
    using r by (auto simp: apply_one_def split: option.splits prod.splits)
  have good: "good (ms_adapter candidate)" "sd_ID (ms_definition candidate) = i"
    using cand by (simp_all add: good_source_def)
  have w': "attached w' = (attached w)(i \<mapsto> sd_Name (ms_definition candidate))"
    using attach_ok [OF good(1) a] good(2) by simp
  have "(attached w')(i := None) = attached w"
    using w' here None by (auto simp: names_of_def fun_eq_iff)
  then have "restores active us' w'" using res u good by (simp add: restores_def)
  with None w' u show ?thesis by (simp add: chosen_def)
next
  case (Some current)
  have cur: "good_source good i current" using act Some by (simp add: good_sources_def)
  show ?thesis
  proof (cases "ms_fingerprint current = ms_fingerprint candidate")
    case True
    then have u: "us' = us" "nxt' = AList.update i current nxt" "w' = w"
      using r Some by (simp_all add: apply_one_def)
    then show ?thesis using True Some here res by (auto simp: chosen_def names_of_def fun_eq_iff)
  next
    case False
    then have rep: "replace_source i current candidate us nxt w = (Inr (us', nxt'), w')"
      using r Some by (simp add: apply_one_def)
    note ok = replace_source_ok [OF rep cand cur free]
    have "(attached w')(i := None, i \<mapsto> sd_Name (ms_definition current)) = attached w"
      using ok here Some by (auto simp: names_of_def fun_eq_iff)
    then have "restores active us' w'"
      using res ok cand cur by (simp add: restores_def good_source_def)
    with ok False Some show ?thesis by (simp add: chosen_def)
  qed
qed

lemma apply_one_failed:
  assumes r: "apply_one active i candidate us nxt w = (Inl (e, us', ignored), w')"
    and cand: "good_source good i candidate" and act: "good_sources good active"
    and here: "attached w i = names_of active i" and free: "''stage_'' @ i \<notin> dom (map_of active)"
    and res: "restores active us w" and quiet: "quiet_errors ignored"
  shows "restores active us' w'"
proof (cases "map_of active i")
  case None
  then obtain e' where a: "ad_Attach (ms_adapter candidate) (ms_definition candidate) w = (Some e', w')"
    and u: "us' = us" using r by (auto simp: apply_one_def split: option.splits prod.splits)
  have "attached w' j = attached w j" if "j \<in> dom (map_of active)" for j
  proof -
    have "j \<noteq> sd_ID (ms_definition candidate)" using that None cand by (auto simp: good_source_def)
    then show ?thesis using attach_failed [OF _ a] cand by (simp add: good_source_def)
  qed
  then show ?thesis using restores_changed [OF res] u by simp
next
  case (Some current)
  then have cur: "good_source good i current" using act by (simp add: good_sources_def)
  have rep: "replace_source i current candidate us nxt w = (Inl (e, us', ignored), w')"
    using r Some by (auto simp: apply_one_def split: if_splits)
  have here': "attached w i = Some (sd_Name (ms_definition current))" using here Some by (simp add: names_of_def)
  have j: "us' = us \<and> attached w' j = attached w j" if "j \<in> dom (map_of active)" for j
    by (rule replace_source_failed [OF rep cand cur here' quiet]) (use that free in auto)
  then show ?thesis using restores_changed [OF res] Some by blast
qed

lemma apply_ids_outcome:
  assumes "apply_ids active prepared is us nxt w = (r, w')"
    and act: "good_sources good active" and prep: "good_sources good prepared" and free: "stage_free active prepared"
    and "distinct is" and "set is \<subseteq> dom (map_of prepared)" and "dom (map_of nxt) \<subseteq> dom (map_of prepared)"
    and "set is \<inter> dom (map_of nxt) = {}" and "attached w = names_of active ++ names_of nxt"
    and "restores active us w"
  shows "case r of
      Inr (us', nxt') \<Rightarrow>
        map_of nxt' = map_of nxt ++ (\<lambda>i. if i \<in> set is then map_option (chosen active i) (map_of prepared i) else None) \<and>
        attached w' = names_of active ++ names_of nxt' \<and> restores active us' w'
    | Inl (e, us', ignored) \<Rightarrow> quiet_errors ignored \<longrightarrow> restores active us' w'"
  using assms(1,5-)
proof (induction "is" arbitrary: us nxt w)
  case Nil
  then show ?case by auto
next
  case (Cons i "is")
  obtain candidate where p: "map_of prepared i = Some candidate" using Cons.prems(3) by auto
  have cand: "good_source good i candidate" using prep p by (simp add: good_sources_def)
  have st: "''stage_'' @ i \<notin> dom (map_of active)" "''stage_'' @ i \<notin> dom (map_of prepared)"
    using free p by (auto simp: stage_free_def)
  have stn: "attached w (''stage_'' @ i) = None"
    using st Cons.prems(4,6) by (auto simp: map_add_def names_of_def split: option.split)
  have here: "attached w i = names_of active i"
    using Cons.prems(5,6) by (auto simp: map_add_def names_of_def split: option.split)
  obtain s1 w1 where one: "apply_one active i candidate us nxt w = (s1, w1)" by fastforce
  show ?case
  proof (cases s1)
    case (Inl f)
    then obtain e us' ignored where f: "s1 = Inl (e, us', ignored)" by (cases f) auto
    then have "r = Inl (e, us', ignored)" "w' = w1" using Cons.prems(1) p one by auto
    then show ?thesis
      using apply_one_failed [OF one [unfolded f] cand act here st(1) Cons.prems(7)] by auto
  next
    case (Inr n)
    then obtain us1 nxt1 where f: "s1 = Inr (us1, nxt1)" by (cases n) auto
    note ok = apply_one_ok [OF one [unfolded f] cand act here stn Cons.prems(7)]
    have rec: "apply_ids active prepared is us1 nxt1 w1 = (r, w')" using Cons.prems(1) p one f by simp
    have att: "attached w1 = names_of active ++ names_of nxt1"
      using ok Cons.prems(6) by (simp add: names_of_update)
    have dis: "set is \<inter> dom (map_of nxt1) = {}" using ok Cons.prems(2,5) by auto
    have sub: "dom (map_of nxt1) \<subseteq> dom (map_of prepared)" using ok Cons.prems(4) p by auto
    have ids: "distinct is" "set is \<subseteq> dom (map_of prepared)" using Cons.prems(2,3) by auto
    have IH: "case r of
      Inr (us', nxt') \<Rightarrow>
        map_of nxt' = map_of nxt1 ++ (\<lambda>i. if i \<in> set is then map_option (chosen active i) (map_of prepared i) else None) \<and>
        attached w' = names_of active ++ names_of nxt' \<and> restores active us' w'
    | Inl (e, us', ignored) \<Rightarrow> quiet_errors ignored \<longrightarrow> restores active us' w'"
      by (rule Cons.IH [OF rec ids sub dis att]) (use ok in simp)
    have "map_of nxt1 ++ (\<lambda>j. if j \<in> set is then map_option (chosen active j) (map_of prepared j) else None) =
        map_of nxt ++ (\<lambda>j. if j \<in> set (i # is) then map_option (chosen active j) (map_of prepared j) else None)"
      using ok p by (auto simp: fun_eq_iff map_add_def split: option.splits)
    with IH show ?thesis by (cases r) auto
  qed
qed

lemma remove_ids_outcome:
  assumes "remove_ids active prepared is us nxt w = (r, w')" and act: "good_sources good active"
    and "set is \<subseteq> dom (map_of active)" and "distinct is"
    and "\<forall>i \<in> set is. map_of prepared i = None \<longrightarrow> attached w i = names_of active i"
    and "restores active us w"
  shows "case r of
      Inr (us', nxt') \<Rightarrow> nxt' = nxt \<and>
        attached w' = (\<lambda>i. if i \<in> set is \<and> map_of prepared i = None then None else attached w i) \<and>
        restores active us' w'
    | Inl (e, us', ignored) \<Rightarrow> quiet_errors ignored \<longrightarrow> restores active us' w'"
  using assms(1,3-)
proof (induction "is" arbitrary: us w)
  case Nil
  then show ?case by auto
next
  case (Cons i "is")
  show ?case
  proof (cases "map_of prepared i")
    case (Some p)
    then have rec: "remove_ids active prepared is us nxt w = (r, w')" using Cons.prems(1) by simp
    have "case r of
      Inr (us', nxt') \<Rightarrow> nxt' = nxt \<and>
        attached w' = (\<lambda>i. if i \<in> set is \<and> map_of prepared i = None then None else attached w i) \<and>
        restores active us' w'
    | Inl (e, us', ignored) \<Rightarrow> quiet_errors ignored \<longrightarrow> restores active us' w'"
      using Cons.IH [OF rec] Cons.prems by simp
    with Some show ?thesis by (cases r) (auto simp: fun_eq_iff)
  next
    case None
    obtain current where c: "map_of active i = Some current" using Cons.prems(2) by auto
    then have cur: "good (ms_adapter current)" "sd_ID (ms_definition current) = i"
      using act by (auto simp: good_sources_def good_source_def)
    obtain e w1 where cl: "ad_Cleanup (ms_adapter current) (ms_definition current) w = (e, w1)" by fastforce
    show ?thesis
    proof (cases e)
      case (Some e')
      then have r: "r = Inl (source_unavailable ''removed source cleanup failed'' e', us, [])" "w' = w1"
        using Cons.prems(1) None c cl by auto
      have "attached w1 = attached w" using cleanup_failed [OF cur(1)] cl Some by simp
      then show ?thesis using restores_changed [OF Cons.prems(5)] r by simp
    next
      case gone: None
      then have rec: "remove_ids active prepared is (UndoAttach current # us) nxt w1 = (r, w')"
        using Cons.prems(1) None c cl by simp
      have w1: "attached w1 = (attached w)(i := None)" using cleanup_ok [OF cur(1)] cl gone cur(2) by simp
      have "(attached w1)(i \<mapsto> sd_Name (ms_definition current)) = attached w"
        using w1 Cons.prems(4) None c by (auto simp: names_of_def fun_eq_iff)
      then have res: "restores active (UndoAttach current # us) w1"
        using Cons.prems(5) cur by (simp add: restores_def)
      have "\<forall>j \<in> set is. map_of prepared j = None \<longrightarrow> attached w1 j = names_of active j"
        using Cons.prems(3,4) w1 by auto
      then have "case r of
        Inr (us', nxt') \<Rightarrow> nxt' = nxt \<and>
          attached w' = (\<lambda>i. if i \<in> set is \<and> map_of prepared i = None then None else attached w1 i) \<and>
          restores active us' w'
      | Inl (e, us', ignored) \<Rightarrow> quiet_errors ignored \<longrightarrow> restores active us' w'"
        using Cons.IH [OF rec] Cons.prems res by simp
      with None w1 show ?thesis by (cases r) (auto simp: fun_eq_iff)
    qed
  qed
qed

end

section \<open>Correctness of a reload\<close>

definition enabled_ids :: "document \<Rightarrow> string set" where
  "enabled_ids d = {cf_ID c | c. c \<in> set (sources_of d) \<and> cf_Enabled c}"

definition good_factories :: "('w adapter \<Rightarrow> bool) \<Rightarrow> (string \<times> 'w factory) list \<Rightarrow> bool" where
  "good_factories good fs \<longleftrightarrow>
     (\<forall>t f c credential a. map_of fs t = Some f \<longrightarrow> fa_Build f c credential = Inr a \<longrightarrow> good a)"

text \<open>No source of the document or of the manager has the id under which an enabled source of the
  document is staged.\<close>

definition stage_ids_unused :: "document \<Rightarrow> 'w sources \<Rightarrow> bool" where
  "stage_ids_unused d active \<longleftrightarrow>
     (\<forall>i \<in> enabled_ids d. ''stage_'' @ i \<notin> dom (map_of active) \<union> enabled_ids d)"

text \<open>The manager's set is well formed, and exactly its sources are attached.\<close>

definition reconciled ::
  "('w adapter \<Rightarrow> bool) \<Rightarrow> ('w \<Rightarrow> string \<Rightarrow> string option) \<Rightarrow> ('l, 's, 'w) manager \<Rightarrow> 'w \<Rightarrow> bool" where
  "reconciled good att m w \<longleftrightarrow>
     good_sources good (mg_active m) \<and> wf_map (mg_active m) \<and> att w = names_of (mg_active m)"

text \<open>The source was built from this configuration and some credential.\<close>

definition built_from :: "config_source \<Rightarrow> 'w managed_source \<Rightarrow> bool" where
  "built_from c p \<longleftrightarrow> ms_definition p = definition_of c \<and> (\<exists>credential. ms_fingerprint p = fingerprint c credential)"

context source_adapters
begin

lemma prepareOne_outcome:
  assumes "prepareOne m c (s, w) = (r, (s', w'))" and fs: "good_factories good (mg_factories m)"
  shows "attached w' = attached w" and "r = Inr p \<Longrightarrow> good_source good (cf_ID c) p \<and> built_from c p"
proof -
  have "attached w' = attached w \<and> (r = Inr p \<longrightarrow> good_source good (cf_ID c) p \<and> built_from c p)"
  proof (cases "map_of (mg_factories m) (cf_Type c)")
    case (Some f)
    obtain k s1 where k: "get_credential m c s = (k, s1)" by fastforce
    show ?thesis
    proof (cases k)
      case (Inr credential)
      show ?thesis
      proof (cases "fa_Build f c credential")
        case (Inr a)
        then have "good a" using fs Some by (auto simp: good_factories_def)
        obtain e w1 where v: "ad_Validate a (definition_of c) w = (e, w1)" by fastforce
        have "attached w1 = attached w" using validate_keeps [OF \<open>good a\<close> v] .
        with \<open>good a\<close> show ?thesis
          using assms(1) Some k \<open>k = Inr credential\<close> Inr v
          by (cases e) (auto simp: prepareOne_def good_source_def built_from_def definition_of_def)
      qed (use assms(1) Some k Inr in \<open>auto simp: prepareOne_def\<close>)
    qed (use assms(1) Some k in \<open>auto simp: prepareOne_def\<close>)
  qed (use assms(1) in \<open>auto simp: prepareOne_def\<close>)
  then show "attached w' = attached w" "r = Inr p \<Longrightarrow> good_source good (cf_ID c) p \<and> built_from c p"
    by auto
qed

lemma prepare_all_attached:
  assumes "prepare_all m cs prepared (s, w) = (r, (s', w'))" and fs: "good_factories good (mg_factories m)"
  shows "attached w' = attached w"
  using assms(1)
proof (induction cs arbitrary: prepared s w)
  case (Cons c cs)
  obtain k s1 w1 where one: "prepareOne m c (s, w) = (k, (s1, w1))" by (metis prod_cases3)
  have "attached w1 = attached w" using prepareOne_outcome(1) [OF one fs] .
  then show ?case using Cons one by (cases k) (auto split: if_splits)
qed simp

lemma prepare_all_ok:
  assumes "prepare_all m cs prepared (s, w) = (Inr P, (s', w'))" and fs: "good_factories good (mg_factories m)"
    and "good_sources good prepared" and "wf_map prepared"
  shows "good_sources good P \<and> wf_map P \<and>
    dom (map_of P) = dom (map_of prepared) \<union> {cf_ID c | c. c \<in> set cs \<and> cf_Enabled c} \<and>
    (\<forall>i. i \<notin> cf_ID ` set cs \<longrightarrow> map_of P i = map_of prepared i) \<and>
    (distinct (map cf_ID cs) \<longrightarrow> (\<forall>c \<in> set cs. cf_Enabled c \<longrightarrow>
      (\<exists>p. map_of P (cf_ID c) = Some p \<and> built_from c p)))"
  using assms(1,3,4)
proof (induction cs arbitrary: prepared s w)
  case (Cons c cs)
  show ?case
  proof (cases "cf_Enabled c")
    case False
    then have "prepare_all m cs prepared (s, w) = (Inr P, (s', w'))" using Cons.prems(1) by simp
    from Cons.IH [OF this Cons.prems(2,3)] False show ?thesis by auto
  next
    case True
    obtain k s1 w1 where one: "prepareOne m c (s, w) = (k, (s1, w1))" by (metis prod_cases3)
    then obtain p where k: "k = Inr p" using Cons.prems(1) True by (cases k) auto
    have rec: "prepare_all m cs (AList.update (cf_ID c) p prepared) (s1, w1) = (Inr P, (s', w'))"
      using Cons.prems(1) True one k by simp
    have p: "good_source good (cf_ID c) p" "built_from c p" using prepareOne_outcome(2) [OF one fs k] by auto
    have "good_sources good (AList.update (cf_ID c) p prepared)"
      using Cons.prems(2) p(1) by (auto simp: good_sources_def)
    note IH = Cons.IH [OF rec this wf_map_update [OF Cons.prems(3)]]
    have "dom (map_of P) = dom (map_of prepared) \<union> {cf_ID c' | c'. c' \<in> set (c # cs) \<and> cf_Enabled c'}"
    proof -
      have "{cf_ID c' | c'. c' \<in> set (c # cs) \<and> cf_Enabled c'} =
          insert (cf_ID c) {cf_ID c' | c'. c' \<in> set cs \<and> cf_Enabled c'}" using True by auto
      moreover have "dom (map_of (AList.update (cf_ID c) p prepared)) = insert (cf_ID c) (dom (map_of prepared))"
        by simp
      ultimately show ?thesis using IH by (simp only: Un_insert_left Un_insert_right)
    qed
    moreover have "map_of P (cf_ID c) = Some p" if "distinct (map cf_ID (c # cs))"
      using IH that by auto
    ultimately show ?thesis using IH p(2) by auto
  qed
qed auto

lemma apply_prepared_outcome:
  assumes a: "apply_prepared order prepared m w = ((err, m', w'), ignored)" and rec: "reconciled good attached m w"
    and prep: "good_sources good prepared" "wf_map prepared" and free: "stage_free (mg_active m) prepared"
    and perm: "\<And>xs. mset (order xs) = mset xs"
  shows "(err = None \<longrightarrow> attached w' = names_of (mg_active m') \<and>
       map_of (mg_active m') = (\<lambda>i. map_option (chosen (mg_active m) i) (map_of prepared i)) \<and>
       m' = m\<lparr>mg_active := mg_active m'\<rparr>) \<and>
     (err \<noteq> None \<longrightarrow> m' = m \<and>
       (quiet_errors ignored \<longrightarrow> (\<forall>i \<in> dom (map_of (mg_active m)). attached w' i = attached w i)))"
proof -
  let ?A = "mg_active m"
  have act: "good_sources good ?A" "wf_map ?A" "attached w = names_of ?A"
    using rec by (simp_all add: reconciled_def)
  have start: "restores ?A [] w" using act by (simp add: restores_def)
  obtain r1 w1 where 1: "apply_ids ?A prepared (sorted_keys prepared) [] [] w = (r1, w1)" by fastforce
  have initially: "attached w = names_of ?A ++ names_of []"
    unfolding act(3) by (simp add: names_of_def map_add_def fun_eq_iff)
  have o1: "case r1 of
      Inr (us', nxt') \<Rightarrow>
        map_of nxt' = map_of [] ++ (\<lambda>i. if i \<in> set (sorted_keys prepared)
           then map_option (chosen ?A i) (map_of prepared i) else None) \<and>
        attached w1 = names_of ?A ++ names_of nxt' \<and> restores ?A us' w1
    | Inl (e, us', ignored) \<Rightarrow> quiet_errors ignored \<longrightarrow> restores ?A us' w1"
    by (rule apply_ids_outcome [OF 1 act(1) prep(1) free distinct_sorted_keys [OF prep(2)] _ _ _ initially start])
      auto
  have undone: "\<forall>i \<in> dom (map_of ?A). attached w3 i = attached w i"
    if "restores ?A us w2" "roll_back us w2 = (es, w3)" "quiet_errors es" for us w2 es w3
    using roll_back_restores [OF that(1,2,3)] act(3) by simp
  show ?thesis
  proof (cases r1)
    case (Inl f)
    then obtain e us ig where f: "r1 = Inl (e, us, ig)" by (cases f) auto
    obtain es w2 where rb: "roll_back us w1 = (es, w2)" by fastforce
    have "err = Some e" "m' = m" "w' = w2" "ignored = ig @ es"
      using a f rb by (simp_all add: apply_prepared_def 1)
    moreover have "restores ?A us w1" if "quiet_errors ig" using o1 f that by simp
    ultimately show ?thesis using undone [OF _ rb] by (auto simp: quiet_errors_def)
  next
    case (Inr n)
    then obtain us nxt where f: "r1 = Inr (us, nxt)" by (cases n) auto
    obtain r2 w2 where 2: "remove_ids ?A prepared (order (keys ?A)) us nxt w1 = (r2, w2)" by fastforce
    have nxt: "map_of nxt = (\<lambda>i. map_option (chosen ?A i) (map_of prepared i))"
      "attached w1 = names_of ?A ++ names_of nxt" "restores ?A us w1"
      using o1 f by (auto simp: fun_eq_iff map_add_def split: option.splits if_splits)
    have ks: "set (order (keys ?A)) = dom (map_of ?A)" "distinct (order (keys ?A))"
      using perm [of "keys ?A"] act(2)
      by (metis set_keys set_mset_mset, metis distinct_count_atmost_1 mset_eq_imp_distinct_iff perm wf_map_def)
    have gone: "names_of nxt i = None" if "map_of prepared i = None" for i
      using that nxt(1) by (simp add: names_of_def)
    have o2: "case r2 of
      Inr (us', nxt') \<Rightarrow> nxt' = nxt \<and>
        attached w2 = (\<lambda>i. if i \<in> set (order (keys ?A)) \<and> map_of prepared i = None then None else attached w1 i) \<and>
        restores ?A us' w2
    | Inl (e, us', ignored) \<Rightarrow> quiet_errors ignored \<longrightarrow> restores ?A us' w2"
      by (rule remove_ids_outcome [OF 2 act(1) _ ks(2) _ nxt(3)])
        (use ks(1) gone nxt(2) in \<open>auto simp: map_add_def split: option.split\<close>)
    show ?thesis
    proof (cases r2)
      case (Inl g)
      then obtain e us2 ig where g: "r2 = Inl (e, us2, ig)" by (cases g) auto
      obtain es w3 where rb: "roll_back us2 w2 = (es, w3)" by fastforce
      have "err = Some e" "m' = m" "w' = w3" "ignored = ig @ es"
        using a f g rb by (simp_all add: apply_prepared_def 1 2)
      moreover have "restores ?A us2 w2" if "quiet_errors ig" using o2 g that by simp
      ultimately show ?thesis using undone [OF _ rb] by (auto simp: quiet_errors_def)
    next
      case (Inr g)
      then obtain us2 nxt2 where g: "r2 = Inr (us2, nxt2)" by (cases g) auto
      have finished: "err = None" "m' = m\<lparr>mg_active := nxt2\<rparr>" "w' = w2" "ignored = []"
        using a f g by (simp_all add: apply_prepared_def 1 2)
      have "attached w2 i = names_of nxt i" for i
        using o2 g ks(1) nxt(1,2) gone
        by (cases "map_of prepared i"; cases "map_of ?A i") (auto simp: names_of_def map_add_def)
      with finished o2 g nxt(1) show ?thesis by (simp add: fun_eq_iff)
    qed
  qed
qed

end

lemma apply_one_wf: "apply_one active i c us nxt w = (Inr (us', nxt'), w') \<Longrightarrow> wf_map nxt \<Longrightarrow> wf_map nxt'"
  by (auto simp: apply_one_def replace_source_def Let_def split: option.splits prod.splits if_splits)

lemma apply_ids_wf:
  "apply_ids active prepared is us nxt w = (Inr (us', nxt'), w') \<Longrightarrow> wf_map nxt \<Longrightarrow> wf_map nxt'"
  by (induction "is" arbitrary: us nxt w) (auto split: prod.splits sum.splits dest: apply_one_wf)

lemma remove_ids_nxt: "remove_ids active prepared is us nxt w = (Inr (us', nxt'), w') \<Longrightarrow> nxt' = nxt"
  by (induction "is" arbitrary: us w) (auto simp: Let_def split: prod.splits option.splits if_splits)

lemma apply_prepared_wf:
  "apply_prepared order prepared m w = ((None, m', w'), ignored) \<Longrightarrow> wf_map (mg_active m')"
  by (auto simp: apply_prepared_def split: prod.splits sum.splits dest!: remove_ids_nxt dest: apply_ids_wf)

lemma chosen_good: "good_sources good active \<Longrightarrow> good_source good i p \<Longrightarrow> good_source good i (chosen active i p)"
  by (auto simp: chosen_def good_sources_def split: option.split)

lemma chosen_fingerprint: "ms_fingerprint (chosen active i p) = ms_fingerprint p"
  by (simp add: chosen_def split: option.split)

context source_adapters
begin

text \<open>What a reload does, by its result.\<close>

lemma Reload_outcome:
  assumes r: "manager_Reload order m (l, s, w) = ((err, m', (l', s', w')), ignored)"
    and rec: "reconciled good attached m w" and fs: "good_factories good (mg_factories m)"
    and perm: "\<And>xs. mset (order xs) = mset xs"
    and doc: "\<And>d l1. mg_loader m l = (Inr d, l1) \<Longrightarrow>
      stage_ids_unused d (mg_active m) \<and> distinct (map cf_ID (sources_of d))"
  shows "(err = None \<longrightarrow> (\<exists>d l1. mg_loader m l = (Inr d, l1) \<and> reconciled good attached m' w' \<and>
       dom (map_of (mg_active m')) = enabled_ids d \<and>
       (\<forall>c \<in> set (sources_of d). cf_Enabled c \<longrightarrow> (\<exists>p credential.
          map_of (mg_active m') (cf_ID c) = Some p \<and> ms_fingerprint p = fingerprint c credential)))) \<and>
     (err \<noteq> None \<longrightarrow> m' = m \<and>
       (quiet_errors ignored \<longrightarrow> (\<forall>i \<in> dom (map_of (mg_active m)). attached w' i = attached w i)))"
proof -
  obtain dr l1 where ld: "mg_loader m l = (dr, l1)" by fastforce
  show ?thesis
  proof (cases dr)
    case (Inl e)
    then show ?thesis using r ld by (auto simp: manager_Reload_def prepare_def)
  next
    case (Inr d)
    note free = doc [OF ld [unfolded Inr]]
    obtain pr s1 w1 where pa: "prepare_all m (sources_of d) [] (s, w) = (pr, (s1, w1))" by (metis prod_cases3)
    have w1: "attached w1 = attached w" by (rule prepare_all_attached [OF pa fs])
    show ?thesis
    proof (cases pr)
      case (Inl e)
      then show ?thesis using r ld Inr pa w1 by (auto simp: manager_Reload_def prepare_def)
    next
      case prepared: (Inr P)
      have "good_sources good []" by (simp add: good_sources_def)
      note P = prepare_all_ok [OF pa [unfolded prepared] fs this wf_map_Nil]
      have domP: "dom (map_of P) = enabled_ids d" using P by (simp add: enabled_ids_def)
      have stf: "stage_free (mg_active m) P" using free domP by (simp add: stage_free_def stage_ids_unused_def)
      have rec1: "reconciled good attached m w1" using rec w1 by (simp add: reconciled_def)
      obtain e2 m2 w2 ig2 where ap: "apply_prepared order P m w1 = ((e2, m2, w2), ig2)" by (metis prod_cases3 surj_pair)
      have res: "err = e2" "m' = m2" "w' = w2" "ignored = ig2"
        using r ld Inr pa prepared ap by (auto simp: manager_Reload_def prepare_def)
      note out = apply_prepared_outcome [OF ap rec1 conjunct1 [OF P] _ stf perm]
      show ?thesis
      proof (cases e2)
        case None
        then have at: "attached w2 = names_of (mg_active m2)"
          and act: "map_of (mg_active m2) = (\<lambda>i. map_option (chosen (mg_active m) i) (map_of P i))"
          using out P by auto
        have "good_sources good (mg_active m2)"
          using act P rec chosen_good [of good "mg_active m"] by (auto simp: good_sources_def reconciled_def)
        then have "reconciled good attached m2 w2"
          using at apply_prepared_wf ap None by (auto simp: reconciled_def)
        moreover have "dom (map_of (mg_active m2)) = enabled_ids d" using act domP by (auto simp: dom_def)
        moreover have "\<exists>p credential. map_of (mg_active m2) (cf_ID c) = Some p \<and> ms_fingerprint p = fingerprint c credential"
          if enabled: "c \<in> set (sources_of d)" "cf_Enabled c" for c
        proof -
          obtain p credential where "map_of P (cf_ID c) = Some p" "ms_fingerprint p = fingerprint c credential"
            using P free enabled unfolding built_from_def by blast
          then show ?thesis using act chosen_fingerprint [of "mg_active m" "cf_ID c" p] by auto
        qed
        ultimately show ?thesis using res None ld Inr by auto
      next
        case (Some e)
        then show ?thesis using out P res w1 by simp
      qed
    qed
  qed
qed

text \<open>A tolerant start: each enabled source is attached, or its failure reported, whatever the others do.\<close>

lemma bootstrap_all_outcome:
  assumes "bootstrap_all m cs failures (s, w) = (failures', m', (s', w'))"
    and fs: "good_factories good (mg_factories m)" and "distinct (map cf_ID cs)"
  shows "set failures \<subseteq> set failures' \<and> mg_factories m' = mg_factories m \<and>
    (\<forall>i. i \<notin> cf_ID ` set cs \<longrightarrow> attached w' i = attached w i \<and> map_of (mg_active m') i = map_of (mg_active m) i) \<and>
    (\<forall>c \<in> set cs. cf_Enabled c \<longrightarrow> (\<exists>e. failure_of c e \<in> set failures') \<or>
      (\<exists>p. map_of (mg_active m') (cf_ID c) = Some p \<and> built_from c p \<and> good_source good (cf_ID c) p \<and>
        attached w' (cf_ID c) = Some (cf_Name c)))"
  using assms
proof (induction cs arbitrary: m failures s w)
  case (Cons c cs)
  show ?case
  proof (cases "cf_Enabled c")
    case False
    then have "bootstrap_all m cs failures (s, w) = (failures', m', (s', w'))" using Cons.prems(1) by simp
    from Cons.IH [OF this Cons.prems(2)] Cons.prems(3) False show ?thesis by auto
  next
    case True
    obtain k s1 w1 where one: "prepareOne m c (s, w) = (k, (s1, w1))" by (metis prod_cases3)
    have w1: "attached w1 = attached w" by (rule prepareOne_outcome(1) [OF one Cons.prems(2)])
    have dis: "distinct (map cf_ID cs)" and new: "cf_ID c \<notin> cf_ID ` set cs" using Cons.prems(3) by auto
    show ?thesis
    proof (cases k)
      case (Inl e)
      then have rec: "bootstrap_all m cs (failures @ [failure_of c e]) (s1, w1) = (failures', m', (s', w'))"
        using Cons.prems(1) True one by simp
      show ?thesis using Cons.IH [OF rec Cons.prems(2) dis] w1 by auto
    next
      case (Inr p)
      have p: "good_source good (cf_ID c) p" "built_from c p"
        using prepareOne_outcome(2) [OF one Cons.prems(2) Inr] by auto
      then have g: "good (ms_adapter p)" "sd_ID (ms_definition p) = cf_ID c" "sd_Name (ms_definition p) = cf_Name c"
        by (simp_all add: good_source_def built_from_def definition_of_def)
      obtain e w2 where a: "ad_Attach (ms_adapter p) (ms_definition p) w1 = (e, w2)" by fastforce
      show ?thesis
      proof (cases e)
        case (Some e')
        then have rec: "bootstrap_all m cs (failures @ [failure_of c e']) (s1, w2) = (failures', m', (s', w'))"
          using Cons.prems(1) True one Inr a by simp
        have "attached w2 i = attached w i" if "i \<noteq> cf_ID c" for i
          using attach_failed [OF g(1)] a Some g(2) that w1 by simp
        then show ?thesis using Cons.IH [OF rec Cons.prems(2) dis] by auto
      next
        case None
        let ?m = "m\<lparr>mg_active := AList.update (cf_ID c) p (mg_active m)\<rparr>"
        have rec: "bootstrap_all ?m cs failures (s1, w2) = (failures', m', (s', w'))"
          using Cons.prems(1) True one Inr a None by simp
        have w2: "attached w2 = (attached w)(cf_ID c \<mapsto> cf_Name c)"
          using attach_ok [OF g(1)] a None g w1 by simp
        have fs: "good_factories good (mg_factories ?m)" using Cons.prems(2) by simp
        show ?thesis using Cons.IH [OF rec fs dis] w2 new p by auto
      qed
    qed
  qed
qed auto

lemma Bootstrap_outcome:
  assumes b: "Bootstrap m (l, s, w) = (Inr failures, m', (l', s', w'))"
    and fs: "good_factories good (mg_factories m)"
    and doc: "\<And>d l1. mg_loader m l = (Inr d, l1) \<Longrightarrow> distinct (map cf_ID (sources_of d))"
  shows "\<exists>d l1. mg_loader m l = (Inr d, l1) \<and> (\<forall>c \<in> set (sources_of d). cf_Enabled c \<longrightarrow>
     (\<exists>e. failure_of c e \<in> set failures) \<or>
     (\<exists>p. map_of (mg_active m') (cf_ID c) = Some p \<and> built_from c p \<and> attached w' (cf_ID c) = Some (cf_Name c)))"
proof -
  obtain dr l1 where ld: "mg_loader m l = (dr, l1)" by fastforce
  then obtain d where d: "dr = Inr d" using b by (cases dr) (auto simp: Bootstrap_def)
  obtain f2 m2 s2 w2 where ba: "bootstrap_all m (sources_of d) [] (s, w) = (f2, m2, (s2, w2))" by (metis prod_cases4)
  then have "f2 = failures" "m2 = m'" "w2 = w'" using b ld d by (auto simp: Bootstrap_def)
  then show ?thesis
    using bootstrap_all_outcome [OF ba fs] doc ld d by blast
qed

end

section \<open>Fingerprints and staged names\<close>

definition nul_free :: "config_source \<Rightarrow> bool" where
  "nul_free c \<longleftrightarrow> list_all (\<lambda>f. char_of (0::nat) \<notin> set (f c))
     [cf_ID, cf_Name, cf_Alias, cf_Type, cf_DatabaseType, cf_CredentialRef, cf_Options]"

definition collision :: "string \<Rightarrow> string \<Rightarrow> bool" where
  "collision x y \<longleftrightarrow> x \<noteq> y \<and> Sum256 x = Sum256 y"

lemma append_separator_inject:
  "z \<notin> set x \<Longrightarrow> z \<notin> set y \<Longrightarrow> x @ z # r = y @ z # s \<longleftrightarrow> x = y \<and> r = s"
  by (auto simp: append_eq_append_conv2 append_eq_Cons_conv Cons_eq_append_conv)

lemma join_inject:
  assumes "length xs = length ys" and "\<forall>x \<in> set xs. z \<notin> set x" and "\<forall>y \<in> set ys. z \<notin> set y"
  shows "join [z] (xs @ [a]) = join [z] (ys @ [b]) \<longleftrightarrow> xs = ys \<and> a = b"
  using assms
proof (induction xs ys rule: list_induct2)
  case (Cons x xs y ys)
  have "join [z] ((x # xs) @ [a]) = x @ z # join [z] (xs @ [a])" "join [z] ((y # ys) @ [b]) = y @ z # join [z] (ys @ [b])"
    by (simp_all add: join_Cons)
  with Cons show ?case by (auto simp: append_separator_inject)
qed simp

lemma fingerprint_text_eq:
  assumes "nul_free c" and "nul_free c'"
  shows "fingerprint_text c k = fingerprint_text c' k' \<longleftrightarrow>
    fingerprint_fields c = fingerprint_fields c' \<and> Sum256 k = Sum256 k'"
  unfolding fingerprint_text_def NUL_def
  by (rule join_inject) (use assms in \<open>auto simp: nul_free_def fingerprint_fields_def\<close>)

lemma fingerprint_fields_eq:
  "fingerprint_fields c = fingerprint_fields c' \<longleftrightarrow> c\<lparr>cf_Enabled := True\<rparr> = c'\<lparr>cf_Enabled := True\<rparr>"
  by (cases c; cases c') (simp add: fingerprint_fields_def)

lemma fingerprint_eq:
  assumes "nul_free c" and "nul_free c'"
  shows "fingerprint c k = fingerprint c' k' \<longleftrightarrow>
    c\<lparr>cf_Enabled := True\<rparr> = c'\<lparr>cf_Enabled := True\<rparr> \<and> k = k' \<or>
    collision (fingerprint_text c k) (fingerprint_text c' k') \<or>
    c\<lparr>cf_Enabled := True\<rparr> = c'\<lparr>cf_Enabled := True\<rparr> \<and> collision k k'"
  unfolding fingerprint_fields_eq [symmetric]
  using fingerprint_text_eq [OF assms, of k k']
  by (auto simp: fingerprint_def collision_def)

text \<open>A NUL byte in a field, which JSON can write, shifts the boundary to the next field.\<close>

lemma fingerprint_shifts_boundary:
  "fingerprint (c\<lparr>cf_DatabaseType := a @ NUL @ b, cf_CredentialRef := r\<rparr>) k =
   fingerprint (c\<lparr>cf_DatabaseType := a, cf_CredentialRef := b @ NUL @ r\<rparr>) k"
  by (simp add: fingerprint_def fingerprint_text_def fingerprint_fields_def join_Cons)

text \<open>C22. The fingerprint notices every change: for configurations whose texts have no NUL byte, two sources have
  the same fingerprint exactly when they agree in everything but the enabled flag - id, name, alias, connector
  and database type, credential reference and options - and the credentials agree, or SHA-256 collides on the
  two texts or on the two credentials.  With a NUL byte in a field this fails (\<open>fingerprint_shifts_boundary\<close>).\<close>

theorem fingerprint_exact:
  assumes "nul_free c" and "nul_free c'"
  shows "fingerprint c k = fingerprint c' k' \<longleftrightarrow>
    c\<lparr>cf_Enabled := True\<rparr> = c'\<lparr>cf_Enabled := True\<rparr> \<and> k = k' \<or>
    collision (fingerprint_text c k) (fingerprint_text c' k') \<or>
    c\<lparr>cf_Enabled := True\<rparr> = c'\<lparr>cf_Enabled := True\<rparr> \<and> collision k k'"
  by (rule fingerprint_eq [OF assms])

lemma byte_hex_digit: "n < 16 \<Longrightarrow> byte (hex_digit n) = (if n < 10 then 48 + n else 87 + n)"
  by (auto simp: hex_digit_def byte_def)

lemma hex_encode_alias: "list_all alias_char (hex_encode s)"
proof -
  have "alias_char (hex_digit n)" if "n < 16" for n
    using byte_hex_digit [OF that] that
    by (auto simp: alias_char_def is_lower_byte_def is_digit_byte_def)
  moreover have "byte c div 16 < 16" "byte c mod 16 < 16" for c
    by (simp_all add: byte_def less_mult_imp_div_less)
  ultimately show ?thesis by (induction s) (auto simp: hex_encode_def)
qed

text \<open>A staged alias is an alias again, of at most 63 bytes.\<close>

lemma stageAlias_valid:
  assumes "ValidateAlias alias = None" and "4 \<le> length fp"
  shows "ValidateAlias (stageAlias alias fp) = None"
proof -
  let ?suffix = "hex_encode (take 4 fp)" and ?max = "63 - length ''qr_stage__'' - length (hex_encode (take 4 fp))"
  obtain c cs where a: "alias = c # cs" "is_lower_byte c" "list_all alias_char cs"
    using assms(1) by (auto simp: ValidateAlias_def aliasPattern_def split: list.splits if_splits)
  then have chars: "list_all alias_char alias" by (simp add: alias_char_def)
  have suffix: "length ?suffix = 8" using assms(2) by (simp add: length_hex_encode)
  let ?short = "if length alias > ?max then take ?max alias else alias"
  have short: "list_all alias_char ?short" "length ?short \<le> 45"
    using chars suffix by (auto simp: list_all_iff dest: in_set_takeD)
  have "stageAlias alias fp = CHR ''q'' # ''r_stage_'' @ ?short @ ''_'' @ ?suffix"
    by (simp add: stageAlias_def Let_def)
  moreover have "list_all alias_char (''r_stage_'' @ ?short @ ''_'' @ ?suffix)"
    using short(1) hex_encode_alias [of "take 4 fp"] by (simp add: alias_char_def is_lower_byte_def byte_def)
  moreover have "length (''r_stage_'' @ ?short @ ''_'' @ ?suffix) \<le> 62" using short(2) suffix by simp
  moreover have "is_lower_byte CHR ''q''" by (simp add: is_lower_byte_def byte_def)
  ultimately show ?thesis by (simp add: ValidateAlias_def aliasPattern_def)
qed

section \<open>The factories of the engine's adapters\<close>

definition mysql_setters :: "(string \<times> (string \<Rightarrow> json \<Rightarrow> mysql_config \<Rightarrow> mysql_config res)) list" where
  "mysql_setters =
    [(''host'', set_string (\<lambda>x. my_Host_update (\<lambda>_. x))), (''port'', set_int (\<lambda>x. my_Port_update (\<lambda>_. x))),
     (''database'', set_string (\<lambda>x. my_Database_update (\<lambda>_. x))), (''user'', set_string (\<lambda>x. my_User_update (\<lambda>_. x))),
     (''ssl_mode'', set_string (\<lambda>x. my_SSLMode_update (\<lambda>_. x)))]"

definition zero_mysql :: mysql_config where
  "zero_mysql = \<lparr>my_Host = '''', my_Port = 0, my_Database = '''', my_User = '''', my_SSLMode = ''''\<rparr>"

definition MySQLFactory :: "env \<Rightarrow> eworld factory" where
  "MySQLFactory env = \<lparr>fa_Type = ''mysql'', fa_Build = (\<lambda>c credential.
     case decode_struct mysql_setters zero_mysql (cf_Options c) of Inl e \<Rightarrow> Inl e
     | Inr options \<Rightarrow> Inr (mysql_adapter env options credential))\<rparr>"

definition odbc_setters :: "(string \<times> (string \<Rightarrow> json \<Rightarrow> odbc_config \<Rightarrow> odbc_config res)) list" where
  "odbc_setters =
    [(''dsn'', set_string (\<lambda>x. oc_DSN_update (\<lambda>_. x))), (''driver'', set_string (\<lambda>x. oc_Driver_update (\<lambda>_. x))),
     (''properties'', set_string_map (\<lambda>x. oc_Properties_update (\<lambda>_. x))),
     (''database_type'', set_string (\<lambda>x. oc_DatabaseType_update (\<lambda>_. x)))]"

definition zero_odbc :: odbc_config where
  "zero_odbc = \<lparr>oc_DSN = '''', oc_Driver = '''', oc_Properties = [], oc_DatabaseType = ''''\<rparr>"

definition ODBCFactory :: "env \<Rightarrow> eworld factory" where
  "ODBCFactory env = \<lparr>fa_Type = ''odbc'', fa_Build = (\<lambda>c credential.
     case decode_struct odbc_setters zero_odbc (cf_Options c) of Inl e \<Rightarrow> Inl e
     | Inr options \<Rightarrow> (case DecodeCredential credential of Inl e \<Rightarrow> Inl e
         | Inr value \<Rightarrow> Inr (odbc_adapter env options value)))\<rparr>"

definition FileFactory :: "env \<Rightarrow> string \<Rightarrow> eworld factory" where
  "FileFactory env connector = \<lparr>fa_Type = connector, fa_Build = (\<lambda>c credential.
     case decode_struct [(''path'', set_string (\<lambda>x _. x))] '''' (cf_Options c) of Inl e \<Rightarrow> Inl e
     | Inr path \<Rightarrow> Inr (filedb_adapter env connector path))\<rparr>"

definition postgres_setters :: "(string \<times> (string \<Rightarrow> json \<Rightarrow> postgres_config \<Rightarrow> postgres_config res)) list" where
  "postgres_setters =
    [(''host'', set_string (\<lambda>x. pg_Host_update (\<lambda>_. x))), (''port'', set_int (\<lambda>x. pg_Port_update (\<lambda>_. x))),
     (''database'', set_string (\<lambda>x. pg_Database_update (\<lambda>_. x))), (''user'', set_string (\<lambda>x. pg_User_update (\<lambda>_. x))),
     (''ssl_mode'', set_string (\<lambda>x. pg_SSLMode_update (\<lambda>_. x))),
     (''root_certificate_ref'', set_string (\<lambda>x. pg_RootCertRef_update (\<lambda>_. x))),
     (''options'', set_string_map (\<lambda>x. pg_Options_update (\<lambda>_. x)))]"

definition zero_postgres :: postgres_config where
  "zero_postgres = \<lparr>pg_Host = '''', pg_Port = 0, pg_Database = '''', pg_User = '''', pg_SSLMode = '''',
     pg_RootCertRef = '''', pg_Options = []\<rparr>"

definition PostgresFactory :: "env \<Rightarrow> eworld factory" where
  "PostgresFactory env = \<lparr>fa_Type = ''postgres'', fa_Build = (\<lambda>c credential.
     case decode_struct postgres_setters zero_postgres (cf_Options c) of Inl e \<Rightarrow> Inl e
     | Inr options \<Rightarrow> if credential = [] then Inl (Plain ''PostgreSQL credential is empty'')
         else Inr (postgres_adapter env options \<lparr>pc_Password = credential, pc_RootCertificatePath = ''''\<rparr>))\<rparr>"

text \<open>The factories of \<open>newManager\<close> (internal/app/runtime.go).\<close>

definition engine_factories :: "env \<Rightarrow> (string \<times> eworld factory) list" where
  "engine_factories env = [(''postgres'', PostgresFactory env), (''mysql'', MySQLFactory env),
     (''sqlite'', FileFactory env ''sqlite''), (''duckdb'', FileFactory env ''duckdb''), (''odbc'', ODBCFactory env)]"

definition newManager :: "env \<Rightarrow> 'l loader \<Rightarrow> 's credential_ops \<Rightarrow> ('l, 's, eworld) manager res" where
  "newManager env loader store = manager_New (Some loader) (Some store)
     (map Some [PostgresFactory env, MySQLFactory env, FileFactory env ''sqlite'', FileFactory env ''duckdb'',
       ODBCFactory env])"

lemma newManager_ok:
  "newManager env loader store =
     Inr \<lparr>mg_loader = loader, mg_secrets = store, mg_factories = engine_factories env, mg_active = []\<rparr>"
  by (simp add: newManager_def manager_New_def engine_factories_def PostgresFactory_def MySQLFactory_def
      FileFactory_def ODBCFactory_def)

lemma factory_builds:
  "fa_Build (PostgresFactory env) c credential = Inr a \<Longrightarrow> \<exists>options cred. a = postgres_adapter env options cred"
  "fa_Build (MySQLFactory env) c credential = Inr a \<Longrightarrow> \<exists>options password. a = mysql_adapter env options password"
  "fa_Build (FileFactory env connector) c credential = Inr a \<Longrightarrow> \<exists>path. a = filedb_adapter env connector path"
  "fa_Build (ODBCFactory env) c credential = Inr a \<Longrightarrow> \<exists>options cred. a = odbc_adapter env options cred"
  by (auto simp: PostgresFactory_def MySQLFactory_def FileFactory_def ODBCFactory_def split: if_splits sum.splits)

lemma engine_factories_good: "good_factories (engine_adapters env) (engine_factories env)"
  unfolding good_factories_def engine_adapters_def
proof (intro allI impI)
  fix t f c credential a
  assume "map_of (engine_factories env) t = Some f" and b: "fa_Build f c credential = Inr a"
  then have "f \<in> set (map snd (engine_factories env))" by (force dest: map_of_SomeD)
  then consider "f = PostgresFactory env" | "f = MySQLFactory env" | connector where "f = FileFactory env connector"
    | "f = ODBCFactory env"
    by (auto simp: engine_factories_def)
  then show "(\<exists>connector path. a = filedb_adapter env connector path) \<or> (\<exists>c password. a = mysql_adapter env c password) \<or>
     (\<exists>c cred. a = postgres_adapter env c cred) \<or> (\<exists>c cred. a = odbc_adapter env c cred)"
  proof cases
    case 1
    then have "\<exists>options cred. a = postgres_adapter env options cred" using b factory_builds(1) by simp
    then show ?thesis by blast
  next
    case 2
    then have "\<exists>options password. a = mysql_adapter env options password" using b factory_builds(2) by simp
    then show ?thesis by blast
  next
    case (3 connector)
    then have "\<exists>path. a = filedb_adapter env connector path" using b factory_builds(3) by simp
    then show ?thesis by blast
  next
    case 4
    then have "\<exists>options cred. a = odbc_adapter env options cred" using b factory_builds(4) by simp
    then show ?thesis by blast
  qed
qed

text \<open>The certificate modes of PostgreSQL never validate: the factory sets no root certificate.\<close>

lemma postgres_factory_no_certificate:
  assumes "fa_Build (PostgresFactory env) c credential = Inr a"
    and "decode_struct postgres_setters zero_postgres (cf_Options c) = Inr options"
    and "verifies_certificate (pg_SSLMode options)"
  shows "\<exists>e. fst (ad_Validate a d w) = Some e"
  using assms
  by (auto simp: PostgresFactory_def postgres_adapter_def postgres_Validate_def split: if_splits option.splits)

section \<open>Reloads and starts over the engine\<close>

text \<open>C19. A reload that succeeds leaves exactly the enabled sources of the document: they are the active
  set, each under a fingerprint of its configuration, every one of them is attached and ready under
  its name, and no other source is.  The document is one that validates (distinct ids), and no source
  has the id under which another is staged; Go's order of map iteration is arbitrary.\<close>

theorem Reload_reconciles:
  assumes "manager_Reload order m (l, s, w) = ((None, m', (l', s', w')), ignored)"
    and "mg_factories m = engine_factories env"
    and "reconciled (engine_adapters env) e_attached m w"
    and "\<forall>xs. mset (order xs) = mset xs"
    and "mg_loader m l = (Inr d, l1)" and "stage_ids_unused d (mg_active m)"
    and "distinct (map cf_ID (sources_of d))"
  shows "reconciled (engine_adapters env) e_attached m' w' \<and> dom (map_of (mg_active m')) = enabled_ids d \<and>
    (\<forall>c \<in> set (sources_of d). cf_Enabled c \<longrightarrow> (\<exists>p credential.
       map_of (mg_active m') (cf_ID c) = Some p \<and> ms_fingerprint p = fingerprint c credential))"
  using adapters.Reload_outcome [OF assms(1,3)] assms(2,4-7) engine_factories_good by auto

text \<open>C20. A reload that fails leaves the manager as it was, and, when none of the rollback's own calls
  failed, every source that was active is attached again under its name.\<close>

theorem Reload_rolls_back:
  assumes "manager_Reload order m (l, s, w) = ((Some e, m', (l', s', w')), ignored)"
    and "mg_factories m = engine_factories env"
    and "reconciled (engine_adapters env) e_attached m w"
    and "\<forall>xs. mset (order xs) = mset xs"
    and "\<forall>d l1. mg_loader m l = (Inr d, l1) \<longrightarrow>
      stage_ids_unused d (mg_active m) \<and> distinct (map cf_ID (sources_of d))"
  shows "m' = m \<and> (quiet_errors ignored \<longrightarrow>
    (\<forall>i \<in> dom (map_of (mg_active m)). e_attached w' i = e_attached w i))"
  using adapters.Reload_outcome [OF assms(1,3)] assms(2,4,5) engine_factories_good by auto

text \<open>C21. A start tolerates failures: after it, each enabled source of the document is either active and
  attached under its name, or reported with its error.\<close>

theorem Bootstrap_tolerant:
  assumes "Bootstrap m (l, s, w) = (Inr failures, m', (l', s', w'))"
    and "mg_factories m = engine_factories env"
    and "mg_loader m l = (Inr d, l1)" and "distinct (map cf_ID (sources_of d))"
    and "c \<in> set (sources_of d)" and "cf_Enabled c"
  shows "(\<exists>e. failure_of c e \<in> set failures) \<or>
    (\<exists>p. map_of (mg_active m') (cf_ID c) = Some p \<and> built_from c p \<and>
       e_attached w' (cf_ID c) = Some (cf_Name c))"
  using adapters.Bootstrap_outcome [OF assms(1)] assms(2-6) engine_factories_good by auto

text \<open>Staging under an id that is in use takes that source away: after the replacement it is no longer
  attached, and no error is reported.\<close>

context source_adapters
begin

lemma replace_source_takes_staged:
  assumes "replace_source i current candidate us nxt w = (Inr n, w')"
    and "good_source good i candidate" and "good_source good i current"
  shows "attached w' (''stage_'' @ i) = None"
proof -
  let ?st = "staged_definition i candidate" and ?a = "ms_adapter candidate"
  obtain e1 w1 where 1: "ad_Attach ?a ?st w = (e1, w1)" by fastforce
  obtain e2 w2 where 2: "ad_Cleanup ?a ?st w1 = (e2, w2)" by fastforce
  obtain e3 w3 where 3: "ad_Cleanup (ms_adapter current) (ms_definition current) w2 = (e3, w3)" by fastforce
  obtain e4 w4 where 4: "ad_Attach ?a (ms_definition candidate) w3 = (e4, w4)" by fastforce
  have ok: "e2 = None" "e3 = None" "e4 = None" "w' = w4"
    using assms(1) unfolding replace_source_def Let_def 1 prod.case 2 3 4
    by (auto split: option.splits prod.splits)
  have "attached w2 (''stage_'' @ i) = None"
    using cleanup_ok [of ?a ?st w1 w2] 2 ok(1) assms(2) by (simp add: good_source_def staged_definition_def)
  then show ?thesis
    using cleanup_ok [OF _ 3 [unfolded ok(2)]] attach_ok [OF _ 4 [unfolded ok(3)]] ok(4) assms(2,3)
    by (simp add: good_source_def)
qed

end

text \<open>A database file, a manager over a fixed document, and a running engine.\<close>

definition demo_file_source :: config_source where
  "demo_file_source = \<lparr>cf_ID = ''s1'', cf_Name = ''Shop'', cf_Alias = ''shop'', cf_Type = ''duckdb'',
     cf_DatabaseType = '''', cf_Enabled = True, cf_CredentialRef = '''',
     cf_Options = ''{'' @ [CHR 0x22] @ ''path'' @ [CHR 0x22] @ '':'' @ [CHR 0x22] @ ''/shop.db'' @ [CHR 0x22] @ ''}''\<rparr>"

definition demo_manager :: "env \<Rightarrow> config_source list \<Rightarrow> eworld sources \<Rightarrow> (unit, memory \<times> heap \<times> nat set, eworld) manager" where
  "demo_manager env cs active = \<lparr>mg_loader = (\<lambda>l. (Inr \<lparr>doc_Version = 1, doc_Sources = Some cs\<rparr>, l)),
     mg_secrets = memory_ops, mg_factories = engine_factories env, mg_active = active\<rparr>"

lemma demo_file_decodes:
  "decode_struct [(''path'', set_string (\<lambda>x _. x))] '''' (cf_Options demo_file_source) = Inr ''/shop.db''"
  by code_simp

lemma demo_file_definition: "check_definition (definition_of demo_file_source) = None"
  by code_simp

lemma demo_file_fields: "sd_ID (definition_of demo_file_source) = ''s1''"
  "sd_Name (definition_of demo_file_source) = ''Shop''" "sd_Alias (definition_of demo_file_source) = ''shop''"
  "sd_DatabaseType (definition_of demo_file_source) = ''''"
  by (simp_all add: definition_of_def demo_file_source_def)

lemma demo_file_valid:
  assumes "\<And>h. env h (Stat ''/shop.db'') = RRegular True"
  shows "filedb_Validate env ''duckdb'' ''/shop.db'' (definition_of demo_file_source) (en, h) =
    (None, (en, h @ [Stat ''/shop.db'']))"
  by (simp add: filedb_Validate_def demo_file_definition demo_file_fields ask_def filepath_IsAbs_def assms)

lemma demo_file_attaches:
  "\<exists>w'. filedb_Attach read_only_env ''duckdb'' ''/shop.db'' (definition_of demo_file_source) (running_engine, h) = (None, w')"
proof -
  have ids: "validIdentifier ''shop''" "validIdentifier ''duckdb''" "en_db running_engine"
    by (simp_all add: validIdentifier_def is_lower_byte_def byte_def running_engine_def)
  show ?thesis
    by (simp add: filedb_Attach_def demo_file_valid e_Attach_def engine_Attach_def filedb_attachment_def demo_file_fields
        ids ensureConnectorExtension_def connector_extension_def attach_catalog_def registerAttachedObjectTypes_def
        recordSource_def Let_def)
qed

definition demo_file_adapter :: "env \<Rightarrow> eworld adapter" where
  "demo_file_adapter env = filedb_adapter env ''duckdb'' ''/shop.db''"

definition demo_file_managed :: "env \<Rightarrow> eworld managed_source" where
  "demo_file_managed env = \<lparr>ms_definition = definition_of demo_file_source, ms_adapter = demo_file_adapter env,
     ms_fingerprint = fingerprint demo_file_source []\<rparr>"

lemma demo_file_prepared:
  "prepareOne (demo_manager read_only_env cs active) demo_file_source (s, (en, h)) =
     (Inr (demo_file_managed read_only_env), s, (en, h @ [Stat ''/shop.db'']))"
proof -
  have "map_of (mg_factories (demo_manager read_only_env cs active)) (cf_Type demo_file_source) =
      Some (FileFactory read_only_env ''duckdb'')"
    by (simp add: demo_manager_def engine_factories_def demo_file_source_def)
  moreover have "fa_Build (FileFactory read_only_env ''duckdb'') demo_file_source k = Inr (demo_file_adapter read_only_env)" for k
    by (simp add: FileFactory_def demo_file_decodes demo_file_adapter_def)
  moreover have "get_credential (demo_manager read_only_env cs active) demo_file_source s = (Inr [], s)"
    by (simp add: get_credential_def demo_file_source_def)
  ultimately show ?thesis
    by (simp add: prepareOne_def demo_file_adapter_def filedb_adapter_def demo_file_valid demo_file_managed_def)
qed

definition demo_document :: "config_source list \<Rightarrow> document" where
  "demo_document cs = \<lparr>doc_Version = 1, doc_Sources = Some cs\<rparr>"

lemma demo_manager_simps:
  "mg_loader (demo_manager env cs active) l = (Inr (demo_document cs), l)"
  "mg_factories (demo_manager env cs active) = engine_factories env"
  "mg_active (demo_manager env cs active) = active" "sources_of (demo_document cs) = cs"
  by (simp_all add: demo_manager_def demo_document_def sources_of_def)

lemma demo_enabled [simp]: "cf_Enabled demo_file_source" "cf_ID demo_file_source = ''s1''"
    "cf_Name demo_file_source = ''Shop''"
  by (simp_all add: demo_file_source_def)

lemma demo_reload:
  "\<exists>m' w'. manager_Reload id (demo_manager read_only_env [demo_file_source] []) ((), empty_store, (running_engine, [])) =
     ((None, m', ((), empty_store, w')), [])"
proof -
  obtain w' where a: "filedb_Attach read_only_env ''duckdb'' ''/shop.db'' (definition_of demo_file_source)
      (running_engine, [Stat ''/shop.db'']) = (None, w')" using demo_file_attaches by blast
  show ?thesis
    using a by (simp add: manager_Reload_def prepare_def demo_manager_simps demo_file_prepared apply_prepared_def
        sorted_keys_def keys_def apply_one_def demo_file_managed_def demo_file_adapter_def filedb_adapter_def)
qed

lemma demo_not_attached: "reconciled good e_attached (demo_manager env cs []) (running_engine, h)"
  by (simp add: reconciled_def demo_manager_simps good_sources_def fun_eq_iff e_attached_def running_engine_def
      engine_New_def names_of_def)

theorem Reload_reconciles_witness:
  "\<exists>m' w'. manager_Reload id (demo_manager read_only_env [demo_file_source] []) ((), empty_store, (running_engine, [])) =
       ((None, m', ((), empty_store, w')), []) \<and>
     reconciled (engine_adapters read_only_env) e_attached m' w' \<and> dom (map_of (mg_active m')) = {''s1''}"
proof -
  let ?m = "demo_manager read_only_env [demo_file_source] []" and ?d = "demo_document [demo_file_source]"
  obtain m' w' where r: "manager_Reload id ?m ((), empty_store, (running_engine, [])) = ((None, m', ((), empty_store, w')), [])"
    using demo_reload by blast
  have ids: "enabled_ids ?d = {''s1''}" by (auto simp: enabled_ids_def demo_manager_simps)
  then have "stage_ids_unused ?d (mg_active ?m)" "distinct (map cf_ID (sources_of ?d))"
    by (simp_all add: stage_ids_unused_def demo_manager_simps)
  from Reload_reconciles [OF r demo_manager_simps(2) demo_not_attached _ demo_manager_simps(1) this] r ids
  show ?thesis by auto
qed

text \<open>A server that refuses to detach.\<close>

definition stuck_env :: env where
  "stuck_env h c = (case c of Exec q _ \<Rightarrow> RErr (Plain ''busy'') | _ \<Rightarrow> ROk)"

definition stuck_world :: eworld where
  "stuck_world = (running_engine\<lparr>en_sources := [(''s1'', \<lparr>ss_ID = ''s1'', ss_Name = ''Shop'', ss_Type = ''duckdb'',
     ss_Health = ''ready'', ss_ErrorCode = ''''\<rparr>)]\<rparr>, [])"

definition stuck_manager :: "(unit, memory \<times> heap \<times> nat set, eworld) manager" where
  "stuck_manager = demo_manager stuck_env [] [(''s1'', demo_file_managed stuck_env)]"

lemma stuck_reload:
  "\<exists>e w'. manager_Reload id stuck_manager ((), empty_store, stuck_world) =
     ((Some e, stuck_manager, ((), empty_store, w')), [])"
proof -
  have "validIdentifier ''shop''" by (simp add: validIdentifier_def is_lower_byte_def byte_def)
  then have "\<exists>e. cleanup stuck_env (definition_of demo_file_source) stuck_world =
      (Some e, (fst stuck_world, [Exec (detach_statement ''shop'') []]))"
    by (simp add: cleanup_def demo_file_fields e_Detach_def engine_Detach_def stuck_world_def running_engine_def call_or_def
        stuck_env_def reply_error_def Let_def)
  then show ?thesis
    by (auto simp: manager_Reload_def prepare_def stuck_manager_def demo_manager_simps apply_prepared_def sorted_keys_def
        keys_def demo_file_managed_def demo_file_adapter_def filedb_adapter_def Let_def)
qed

theorem Reload_rolls_back_witness:
  "\<exists>e w'. manager_Reload id stuck_manager ((), empty_store, stuck_world) =
       ((Some e, stuck_manager, ((), empty_store, w')), []) \<and> e_attached w' ''s1'' = Some ''Shop''"
proof -
  obtain e w' where r: "manager_Reload id stuck_manager ((), empty_store, stuck_world) =
      ((Some e, stuck_manager, ((), empty_store, w')), [])" using stuck_reload by blast
  have m: "mg_factories stuck_manager = engine_factories stuck_env" by (simp add: stuck_manager_def demo_manager_simps)
  have good: "good_source (engine_adapters stuck_env) ''s1'' (demo_file_managed stuck_env)"
    by (auto simp: good_source_def demo_file_managed_def demo_file_fields demo_file_adapter_def engine_adapters_def)
  have rec: "reconciled (engine_adapters stuck_env) e_attached stuck_manager stuck_world"
    using good by (auto simp: reconciled_def stuck_manager_def demo_manager_simps good_sources_def fun_eq_iff e_attached_def
        stuck_world_def names_of_def demo_file_managed_def demo_file_fields wf_map_def keys_def)
  have doc: "\<forall>d l1. mg_loader stuck_manager () = (Inr d, l1) \<longrightarrow>
      stage_ids_unused d (mg_active stuck_manager) \<and> distinct (map cf_ID (sources_of d))"
    by (auto simp: stuck_manager_def demo_manager_simps stage_ids_unused_def enabled_ids_def)
  have "\<forall>i \<in> dom (map_of (mg_active stuck_manager)). e_attached w' i = e_attached stuck_world i"
    using Reload_rolls_back [OF r m rec _ doc] by (simp add: quiet_errors_def)
  moreover have "e_attached stuck_world ''s1'' = Some ''Shop''" by (simp add: e_attached_def stuck_world_def)
  ultimately have "e_attached w' ''s1'' = Some ''Shop''" by (simp add: stuck_manager_def demo_manager_simps)
  with r show ?thesis by blast
qed

lemma demo_bootstrap:
  "\<exists>m' w'. Bootstrap (demo_manager read_only_env [demo_file_source] []) ((), empty_store, (running_engine, [])) =
     (Inr [], m', ((), empty_store, w'))"
proof -
  obtain w' where a: "filedb_Attach read_only_env ''duckdb'' ''/shop.db'' (definition_of demo_file_source)
      (running_engine, [Stat ''/shop.db'']) = (None, w')" using demo_file_attaches by blast
  show ?thesis
    using a by (simp add: Bootstrap_def demo_manager_simps demo_file_prepared demo_file_managed_def demo_file_adapter_def
        filedb_adapter_def)
qed

theorem Bootstrap_tolerant_witness:
  "\<exists>m' w'. Bootstrap (demo_manager read_only_env [demo_file_source] []) ((), empty_store, (running_engine, [])) =
       (Inr [], m', ((), empty_store, w')) \<and>
     (\<exists>p. map_of (mg_active m') ''s1'' = Some p \<and> built_from demo_file_source p) \<and> e_attached w' ''s1'' = Some ''Shop''"
proof -
  obtain m' w' where b: "Bootstrap (demo_manager read_only_env [demo_file_source] []) ((), empty_store, (running_engine, [])) =
      (Inr [], m', ((), empty_store, w'))" using demo_bootstrap by blast
  have c: "demo_file_source \<in> set (sources_of (demo_document [demo_file_source]))"
    "distinct (map cf_ID (sources_of (demo_document [demo_file_source])))" by (simp_all add: demo_manager_simps)
  from Bootstrap_tolerant [OF b demo_manager_simps(2) demo_manager_simps(1) c(2,1)] b show ?thesis by auto
qed

text \<open>Changing the credential reference changes the fingerprint, unless SHA-256 collides.\<close>

theorem fingerprint_exact_witness:
  "fingerprint demo_file_source ''a'' = fingerprint (demo_file_source\<lparr>cf_CredentialRef := ''stock''\<rparr>) ''a'' \<longleftrightarrow>
     collision (fingerprint_text demo_file_source ''a'')
       (fingerprint_text (demo_file_source\<lparr>cf_CredentialRef := ''stock''\<rparr>) ''a'')"
proof -
  have nul: "nul_free demo_file_source" "nul_free (demo_file_source\<lparr>cf_CredentialRef := ''stock''\<rparr>)"
    by (simp_all add: nul_free_def demo_file_source_def char_of_eq_iff)
  have "demo_file_source\<lparr>cf_Enabled := True\<rparr> \<noteq> demo_file_source\<lparr>cf_CredentialRef := ''stock''\<rparr>\<lparr>cf_Enabled := True\<rparr>"
    by (simp add: demo_file_source_def)
  then show ?thesis using fingerprint_exact [OF nul, of "''a''" "''a''"] by blast
qed

end
