(* ===== verification/WorldSafety.thy ===== *)
theory WorldSafety
  imports Reconcile EngineSafety
begin

text \<open>
  What no adapter and no operation of the manager breaks: a property of the world that every method of
  the adapters keeps is kept by preparing, applying, rolling back, starting and diagnosing.  The
  engine's invariant (\<open>engine_inv\<close>: it holds its resources exactly while it runs, and serves only its own
  endpoint with its own token), with its endpoint and token unchanged, is such a property for the four
  adapters.
\<close>

locale kept_world =
  fixes good :: "'w adapter \<Rightarrow> bool" and kept :: "'w \<Rightarrow> bool"
  assumes keeps_Validate: "good a \<Longrightarrow> kept w \<Longrightarrow> kept (snd (ad_Validate a d w))"
    and keeps_Attach: "good a \<Longrightarrow> kept w \<Longrightarrow> kept (snd (ad_Attach a d w))"
    and keeps_Health: "good a \<Longrightarrow> kept w \<Longrightarrow> kept (snd (ad_Health a d w))"
    and keeps_Cleanup: "good a \<Longrightarrow> kept w \<Longrightarrow> kept (snd (ad_Cleanup a d w))"
    and keeps_Posture: "good a \<Longrightarrow> ad_Posture a = Some p \<Longrightarrow> kept w \<Longrightarrow> kept (snd (p d w))"

definition all_good :: "('w adapter \<Rightarrow> bool) \<Rightarrow> 'w sources \<Rightarrow> bool" where
  "all_good good ss \<longleftrightarrow> (\<forall>i p. map_of ss i = Some p \<longrightarrow> good (ms_adapter p))"

lemma all_good_update [simp]: "all_good good ss \<Longrightarrow> good (ms_adapter p) \<Longrightarrow> all_good good (AList.update i p ss)"
  by (simp add: all_good_def)

lemma all_good_Nil [simp]: "all_good good []"
  by (simp add: all_good_def)

section \<open>The manager\<close>

context kept_world
begin

lemma keeps_prepareOne:
  assumes "prepareOne m c (s, w) = (r, (s', w'))" and "kept w" and "good_factories good (mg_factories m)"
  shows "kept w' \<and> (\<forall>p. r = Inr p \<longrightarrow> good (ms_adapter p))"
proof (cases "map_of (mg_factories m) (cf_Type c)")
  case (Some f)
  obtain k s1 where k: "get_credential m c s = (k, s1)" by fastforce
  show ?thesis
  proof (cases k)
    case credential: (Inr credential)
    show ?thesis
    proof (cases "fa_Build f c credential")
      case (Inr a)
      then have g: "good a" using assms(3) Some by (auto simp: good_factories_def)
      obtain e w1 where v: "ad_Validate a (definition_of c) w = (e, w1)" by fastforce
      have "kept w1" using keeps_Validate [OF g assms(2), of "definition_of c"] v by simp
      with g show ?thesis
        using assms(1) Some k credential Inr v by (cases e) (auto simp: prepareOne_def)
    qed (use assms(1,2) Some k credential in \<open>auto simp: prepareOne_def\<close>)
  qed (use assms(1,2) Some k in \<open>auto simp: prepareOne_def\<close>)
qed (use assms(1,2) in \<open>auto simp: prepareOne_def\<close>)

lemma keeps_prepare_all:
  assumes "prepare_all m cs prepared (s, w) = (r, (s', w'))" and "kept w"
    and "good_factories good (mg_factories m)" and "all_good good prepared"
  shows "kept w' \<and> (\<forall>P. r = Inr P \<longrightarrow> all_good good P)"
  using assms(1,2,4)
proof (induction cs arbitrary: prepared s w)
  case (Cons c cs)
  obtain k s1 w1 where one: "prepareOne m c (s, w) = (k, (s1, w1))" by (metis prod_cases3)
  show ?case
  proof (cases "cf_Enabled c")
    case True
    note k1 = keeps_prepareOne [OF one Cons.prems(2) assms(3)]
    show ?thesis
    proof (cases k)
      case (Inl e)
      then show ?thesis using Cons.prems(1) True one k1 by auto
    next
      case (Inr p)
      then have rec: "prepare_all m cs (AList.update (cf_ID c) p prepared) (s1, w1) = (r, (s', w'))"
        using Cons.prems(1) True one by simp
      show ?thesis by (rule Cons.IH [OF rec]) (use k1 Inr Cons.prems(3) in simp_all)
    qed
  next
    case False
    then have "prepare_all m cs prepared (s, w) = (r, (s', w'))" using Cons.prems(1) by simp
    from Cons.IH [OF this Cons.prems(2,3)] show ?thesis .
  qed
qed auto

lemma keeps_undo_one: "good (ms_adapter (undo_source u)) \<Longrightarrow> kept w \<Longrightarrow> kept (snd (undo_one u w))"
  by (cases u) (simp_all add: keeps_Attach keeps_Cleanup)

lemma keeps_roll_back:
  "\<forall>u \<in> set us. good (ms_adapter (undo_source u)) \<Longrightarrow> kept w \<Longrightarrow> kept (snd (roll_back us w))"
proof (induction us arbitrary: w)
  case (Cons u us)
  have "kept (snd (undo_one u w))" using Cons.prems by (simp add: keeps_undo_one)
  then have "kept (snd (roll_back us (snd (undo_one u w))))" using Cons by simp
  then show ?case by (simp add: case_prod_beta)
qed simp

definition step_kept :: "'w step_result \<Rightarrow> bool" where
  "step_kept x \<longleftrightarrow> kept (snd x) \<and> (case fst x of
     Inl (e, us, ignored) \<Rightarrow> \<forall>u \<in> set us. good (ms_adapter (undo_source u))
   | Inr (us, nxt) \<Rightarrow> (\<forall>u \<in> set us. good (ms_adapter (undo_source u))) \<and> all_good good nxt)"

lemma keeps_replace:
  assumes "good (ms_adapter candidate)" and "good (ms_adapter current)" and "kept w"
    and "\<forall>u \<in> set us. good (ms_adapter (undo_source u))" and "all_good good nxt"
  shows "step_kept (replace_source i current candidate us nxt w)"
proof -
  let ?st = "staged_definition i candidate" and ?a = "ms_adapter candidate"
  obtain e1 w1 where 1: "ad_Attach ?a ?st w = (e1, w1)" by fastforce
  obtain e2 w2 where 2: "ad_Cleanup ?a ?st w1 = (e2, w2)" by fastforce
  obtain e3 w3 where 3: "ad_Cleanup (ms_adapter current) (ms_definition current) w2 = (e3, w3)" by fastforce
  obtain e4 w4 where 4: "ad_Attach ?a (ms_definition candidate) w3 = (e4, w4)" by fastforce
  obtain e5 w5 where 5: "ad_Attach (ms_adapter current) (ms_definition current) w4 = (e5, w5)" by fastforce
  have k1: "kept w1" using keeps_Attach [OF assms(1,3), of ?st] 1 by simp
  have k2: "kept w2" using keeps_Cleanup [OF assms(1) k1, of ?st] 2 by simp
  have k3: "kept w3" using keeps_Cleanup [OF assms(2) k2, of "ms_definition current"] 3 by simp
  have k4: "kept w4" using keeps_Attach [OF assms(1) k3, of "ms_definition candidate"] 4 by simp
  have k5: "kept w5" using keeps_Attach [OF assms(2) k4, of "ms_definition current"] 5 by simp
  show ?thesis
    unfolding replace_source_def Let_def 1 prod.case 2 3 4 5
    using assms k1 k2 k3 k4 k5 by (cases e1; cases e2; cases e3; cases e4) (simp_all add: step_kept_def)
qed

lemma keeps_apply_one:
  assumes "good (ms_adapter candidate)" and "all_good good active" and "kept w"
    and "\<forall>u \<in> set us. good (ms_adapter (undo_source u))" and "all_good good nxt"
  shows "step_kept (apply_one active i candidate us nxt w)"
proof (cases "map_of active i")
  case None
  obtain e w1 where 1: "ad_Attach (ms_adapter candidate) (ms_definition candidate) w = (e, w1)" by fastforce
  have "kept w1" using keeps_Attach [OF assms(1,3), of "ms_definition candidate"] 1 by simp
  then show ?thesis using None 1 assms by (cases e) (simp_all add: apply_one_def step_kept_def)
next
  case (Some current)
  then have "good (ms_adapter current)" using assms(2) by (simp add: all_good_def)
  then show ?thesis
    using Some assms keeps_replace [of candidate current w us nxt i] by (simp add: apply_one_def step_kept_def)
qed

lemma keeps_apply_ids:
  assumes "all_good good active" and "all_good good prepared" and "set is \<subseteq> dom (map_of prepared)" and "kept w"
    and "\<forall>u \<in> set us. good (ms_adapter (undo_source u))" and "all_good good nxt"
  shows "step_kept (apply_ids active prepared is us nxt w)"
  using assms(3-)
proof (induction "is" arbitrary: us nxt w)
  case (Cons i "is")
  obtain p where p: "map_of prepared i = Some p" using Cons.prems(1) by auto
  then have "good (ms_adapter p)" using assms(2) by (simp add: all_good_def)
  then have one: "step_kept (apply_one active i p us nxt w)"
    using keeps_apply_one assms(1) Cons.prems by simp
  obtain s1 w1 where a: "apply_one active i p us nxt w = (s1, w1)" by fastforce
  show ?case
  proof (cases s1)
    case (Inl e)
    then show ?thesis using one a p by (simp add: step_kept_def)
  next
    case (Inr n)
    obtain us1 nxt1 where "n = (us1, nxt1)" by fastforce
    then show ?thesis using one a p Inr Cons.IH [of w1 us1 nxt1] Cons.prems(1) by (simp add: step_kept_def)
  qed
qed (simp add: step_kept_def)

lemma keeps_remove_ids:
  assumes "all_good good active" and "set is \<subseteq> dom (map_of active)" and "kept w"
    and "\<forall>u \<in> set us. good (ms_adapter (undo_source u))" and "all_good good nxt"
  shows "step_kept (remove_ids active prepared is us nxt w)"
  using assms(2-4)
proof (induction "is" arbitrary: us w)
  case (Cons i "is")
  obtain p where p: "map_of active i = Some p" using Cons.prems(1) by auto
  then have g: "good (ms_adapter p)" using assms(1) by (simp add: all_good_def)
  obtain e w1 where a: "ad_Cleanup (ms_adapter p) (ms_definition p) w = (e, w1)" by fastforce
  have "kept w1" using keeps_Cleanup [OF g Cons.prems(2), of "ms_definition p"] a by simp
  then show ?case
    using Cons p g a by (cases e) (auto simp: step_kept_def)
qed (use assms(5) in \<open>simp add: step_kept_def\<close>)

lemma keeps_apply_prepared:
  assumes "apply_prepared order prepared m w = ((e, m', w'), ignored)" and "kept w"
    and "all_good good (mg_active m)" and "all_good good prepared" and "\<And>xs. set (order xs) = set xs"
  shows "kept w' \<and> all_good good (mg_active m') \<and> mg_factories m' = mg_factories m"
proof -
  let ?A = "mg_active m"
  obtain r1 w1 where 1: "apply_ids ?A prepared (sorted_keys prepared) [] [] w = (r1, w1)" by fastforce
  have k1: "step_kept (r1, w1)"
    using keeps_apply_ids [OF assms(3,4), of "sorted_keys prepared" w "[]" "[]"] assms(2) 1 by simp
  show ?thesis
  proof (cases r1)
    case (Inl f)
    then obtain x us ig where f: "r1 = Inl (x, us, ig)" by (cases f) auto
    have "kept (snd (roll_back us w1))" using k1 f keeps_roll_back by (simp add: step_kept_def)
    then show ?thesis using assms(1,3) f by (auto simp: apply_prepared_def 1 split: prod.splits)
  next
    case (Inr n)
    then obtain us nxt where f: "r1 = Inr (us, nxt)" by (cases n) auto
    obtain r2 w2 where 2: "remove_ids ?A prepared (order (keys ?A)) us nxt w1 = (r2, w2)" by fastforce
    have "set (order (keys ?A)) \<subseteq> dom (map_of ?A)" using assms(5) by (simp add: set_keys)
    then have k2: "step_kept (r2, w2)"
      using keeps_remove_ids [OF assms(3), of "order (keys ?A)" w1 us nxt prepared] k1 f 2
      by (simp add: step_kept_def)
    show ?thesis
    proof (cases r2)
      case (Inl g)
      then obtain x us2 ig where g: "r2 = Inl (x, us2, ig)" by (cases g) auto
      have "kept (snd (roll_back us2 w2))" using k2 g keeps_roll_back by (simp add: step_kept_def)
      then show ?thesis using assms(1,3) f g by (auto simp: apply_prepared_def 1 2 split: prod.splits)
    next
      case (Inr g)
      then obtain us2 nxt2 where g: "r2 = Inr (us2, nxt2)" by (cases g) auto
      then show ?thesis using assms(1) k2 f by (auto simp: apply_prepared_def 1 2 step_kept_def)
    qed
  qed
qed

lemma keeps_Reload:
  assumes "manager_Reload order m (l, s, w) = ((e, m', (l', s', w')), ignored)" and "kept w"
    and "good_factories good (mg_factories m)" and "all_good good (mg_active m)" and "\<And>xs. set (order xs) = set xs"
  shows "kept w' \<and> all_good good (mg_active m') \<and> mg_factories m' = mg_factories m"
proof -
  obtain dr l1 where ld: "mg_loader m l = (dr, l1)" by fastforce
  show ?thesis
  proof (cases dr)
    case (Inl x)
    then show ?thesis using assms ld by (auto simp: manager_Reload_def prepare_def)
  next
    case (Inr d)
    obtain pr s1 w1 where pa: "prepare_all m (sources_of d) [] (s, w) = (pr, (s1, w1))" by (metis prod_cases3)
    note k1 = keeps_prepare_all [OF pa assms(2,3) all_good_Nil]
    show ?thesis
    proof (cases pr)
      case (Inl x)
      then show ?thesis using assms ld Inr pa k1 by (auto simp: manager_Reload_def prepare_def)
    next
      case prepared: (Inr P)
      obtain e2 m2 w2 ig2 where ap: "apply_prepared order P m w1 = ((e2, m2, w2), ig2)" by (metis prod_cases3 surj_pair)
      have "m' = m2" "w' = w2" using assms(1) ld Inr pa prepared ap by (auto simp: manager_Reload_def prepare_def)
      then show ?thesis using keeps_apply_prepared [OF ap _ assms(4) _ assms(5)] k1 prepared by simp
    qed
  qed
qed

lemma keeps_bootstrap_all:
  assumes "bootstrap_all m cs failures (s, w) = (failures', m', (s', w'))" and "kept w"
    and "good_factories good (mg_factories m)" and "all_good good (mg_active m)"
  shows "kept w' \<and> all_good good (mg_active m') \<and> mg_factories m' = mg_factories m"
  using assms
proof (induction cs arbitrary: m failures s w)
  case (Cons c cs)
  show ?case
  proof (cases "cf_Enabled c")
    case True
    obtain k s1 w1 where one: "prepareOne m c (s, w) = (k, (s1, w1))" by (metis prod_cases3)
    note k1 = keeps_prepareOne [OF one Cons.prems(2,3)]
    show ?thesis
    proof (cases k)
      case (Inl e)
      then show ?thesis using Cons.IH [of m _ s1 w1] Cons.prems True one k1 by simp
    next
      case (Inr p)
      then have g: "good (ms_adapter p)" using k1 by simp
      obtain e w2 where a: "ad_Attach (ms_adapter p) (ms_definition p) w1 = (e, w2)" by fastforce
      have k2: "kept w2" using keeps_Attach [OF g, of w1 "ms_definition p"] k1 a by simp
      show ?thesis
      proof (cases e)
        case (Some x)
        then show ?thesis using Cons.IH [of m _ s1 w2] Cons.prems True one Inr a k2 by simp
      next
        case None
        let ?m = "m\<lparr>mg_active := AList.update (cf_ID c) p (mg_active m)\<rparr>"
        have "bootstrap_all ?m cs failures (s1, w2) = (failures', m', (s', w'))"
          using Cons.prems(1) True one Inr a None by simp
        from Cons.IH [OF this k2] Cons.prems(3,4) g show ?thesis by simp
      qed
    qed
  next
    case False
    then have "bootstrap_all m cs failures (s, w) = (failures', m', (s', w'))" using Cons.prems(1) by simp
    from Cons.IH [OF this Cons.prems(2-4)] show ?thesis .
  qed
qed simp

lemma keeps_Bootstrap:
  assumes "Bootstrap m (l, s, w) = (r, m', (l', s', w'))" and "kept w"
    and "good_factories good (mg_factories m)" and "all_good good (mg_active m)"
  shows "kept w' \<and> all_good good (mg_active m') \<and> mg_factories m' = mg_factories m"
proof -
  obtain dr l1 where ld: "mg_loader m l = (dr, l1)" by fastforce
  show ?thesis
  proof (cases dr)
    case (Inr d)
    obtain f2 m2 s2 w2 where ba: "bootstrap_all m (sources_of d) [] (s, w) = (f2, m2, (s2, w2))" by (metis prod_cases4)
    then show ?thesis using keeps_bootstrap_all [OF ba assms(2-4)] assms(1) ld Inr by (auto simp: Bootstrap_def)
  qed (use assms ld in \<open>auto simp: Bootstrap_def\<close>)
qed

lemma keeps_diagnose: "good (ms_adapter a) \<Longrightarrow> kept w \<Longrightarrow> kept (snd (diagnose i a w))"
proof -
  assume g: "good (ms_adapter a)" and "kept w"
  obtain e w1 where h: "ad_Health (ms_adapter a) (ms_definition a) w = (e, w1)" by fastforce
  have w1: "kept w1" using keeps_Health [OF g \<open>kept w\<close>, of "ms_definition a"] h by simp
  have "kept (snd (posture_warnings a w1))"
  proof (cases "ad_Posture (ms_adapter a)")
    case (Some p)
    obtain r w2 where p: "p (ms_definition a) w1 = (r, w2)" by fastforce
    have "kept w2" using keeps_Posture [OF g Some w1, of "ms_definition a"] p by simp
    then show ?thesis using Some p by (cases r) (simp_all add: posture_warnings_def)
  qed (simp add: posture_warnings_def w1)
  then show ?thesis by (simp add: diagnose_def h case_prod_beta)
qed

lemma keeps_Diagnostics:
  assumes "kept w" and "all_good good (mg_active m)"
  shows "kept (snd (manager_Diagnostics m w))"
proof -
  have "kept (snd (diagnose_ids (mg_active m) is w))" if "set is \<subseteq> dom (map_of (mg_active m))" "kept w" for "is" w
    using that
  proof (induction "is" arbitrary: w)
    case (Cons i "is")
    then obtain p where p: "map_of (mg_active m) i = Some p" by auto
    then have "good (ms_adapter p)" using assms(2) by (simp add: all_good_def)
    then have "kept (snd (diagnose i p w))" using keeps_diagnose Cons.prems by simp
    then show ?case using Cons p by (simp add: case_prod_beta)
  qed simp
  then show ?thesis using assms(1) by (simp add: manager_Diagnostics_def)
qed

end

section \<open>The engine's invariant\<close>

text \<open>The invariant with fixed control fields: whether the engine runs, its endpoint, its token.\<close>

definition engine_at :: "env \<Rightarrow> bool \<times> string \<times> string \<Rightarrow> eworld \<Rightarrow> bool" where
  "engine_at env c w \<longleftrightarrow> engine_inv env w \<and> control (fst w) = c"

lemma engine_at_step:
  "engine_at env c (en, h) \<Longrightarrow> engine_step env (en, h) (en', h') \<Longrightarrow> keeps_control en en' \<Longrightarrow> engine_at env c (en', h')"
  using engine_step_inv [of env "(en, h)" "(en', h')"] by (simp add: engine_at_def keeps_control_def)

lemma ask_inv: "engine_at env c w \<Longrightarrow> neutral k \<Longrightarrow> engine_at env c (snd (ask env k w))"
  using inv_quiet_state [of env "fst w" "snd w" "snd w @ [k]"] by (cases w) (simp add: ask_def engine_at_def)

lemma e_Attach_inv: "engine_at env c w \<Longrightarrow> engine_at env c (snd (e_Attach env a w))"
  using keeps_Attach [of "fst w" env a "snd w"]
  by (cases w) (auto simp: e_Attach_def split: prod.split intro: engine_at_step step_Attach)

lemma e_AttachODBC_inv: "engine_at env c w \<Longrightarrow> engine_at env c (snd (e_AttachODBC env a w))"
  using keeps_AttachODBC [of "fst w" env a "snd w"]
  by (cases w) (auto simp: e_AttachODBC_def split: prod.split intro: engine_at_step step_AttachODBC)

lemma e_Detach_inv: "engine_at env c w \<Longrightarrow> engine_at env c (snd (e_Detach env alias i w))"
  using keeps_Detach [of "fst w" env "alias" i "snd w"]
  by (cases w) (auto simp: e_Detach_def split: prod.split intro: engine_at_step step_Detach)

lemma e_Query_inv: "engine_at env c w \<Longrightarrow> engine_at env c (snd (e_Query env q args w))"
  by (cases w) (auto simp: e_Query_def split: prod.split intro: engine_at_step step_Query)

lemma e_QueryRow_inv: "engine_at env c w \<Longrightarrow> engine_at env c (snd (e_QueryRow env q args w))"
  using inv_quiet_state [of env "fst w" "snd w" "snd w @ [QueryRow q args]"]
  by (cases w) (auto simp: e_QueryRow_def engine_QueryRow_def engine_at_def)

lemma e_ODBCQuery_inv: "engine_at env c w \<Longrightarrow> engine_at env c (snd (e_ODBCQuery env i k u p q w))"
  using keeps_ODBCQuery [of "fst w" env i k u p q "snd w"]
  by (cases w) (auto simp: e_ODBCQuery_def split: prod.split intro: engine_at_step step_ODBCQuery)

lemma keeps_ClearODBC: "keeps_control en (engine_ClearODBC i en)"
  by (simp add: engine_ClearODBC_def resolver_delete_def keeps_control_def control_def)

lemma e_ClearODBC_inv: "engine_at env c w \<Longrightarrow> engine_at env c (e_ClearODBC i w)"
  by (cases w) (simp add: e_ClearODBC_def engine_at_step [OF _ step_ClearODBC keeps_ClearODBC])

lemma e_Register_inv: "engine_at env c w \<Longrightarrow> engine_at env c (snd (e_RegisterObjectTypes env i os w))"
  by (cases w) (auto simp: e_RegisterObjectTypes_def split: prod.split intro: engine_at_step step_RegisterObjectTypes)

lemma e_Update_inv: "engine_at env c w \<Longrightarrow> engine_at env c (snd (e_UpdateDatabaseType env i t w))"
  by (cases w) (auto simp: e_UpdateDatabaseType_def split: prod.split intro: engine_at_step step_UpdateDatabaseType)

named_theorems keeps_engine

lemmas [keeps_engine] = e_Attach_inv e_AttachODBC_inv e_Detach_inv e_Query_inv e_QueryRow_inv e_ODBCQuery_inv
  e_ClearODBC_inv e_Register_inv e_Update_inv

text \<open>A step over a pair whose world keeps the invariant, for each shape of continuation.\<close>

lemma inv_case:
  "engine_at env c (snd p) \<Longrightarrow> (\<And>r w. engine_at env c w \<Longrightarrow> engine_at env c (snd (f r w))) \<Longrightarrow>
   engine_at env c (snd (case p of (r, w) \<Rightarrow> f r w))"
  by (cases p) simp

lemma inv_option:
  "(\<And>x. engine_at env c (snd (f x))) \<Longrightarrow> engine_at env c (snd g) \<Longrightarrow>
   engine_at env c (snd (case r of None \<Rightarrow> g | Some x \<Rightarrow> f x))"
  by (cases r) simp_all

lemma inv_sum:
  "(\<And>e. engine_at env c (snd (f e))) \<Longrightarrow> (\<And>x. engine_at env c (snd (g x))) \<Longrightarrow>
   engine_at env c (snd (case r of Inl e \<Rightarrow> f e | Inr x \<Rightarrow> g x))"
  by (cases r) simp_all

lemma inv_if: "engine_at env c (snd x) \<Longrightarrow> engine_at env c (snd y) \<Longrightarrow> engine_at env c (snd (if b then x else y))"
  by simp

lemma inv_pair: "engine_at env c w \<Longrightarrow> engine_at env c (snd (r, w))"
  by simp

lemmas inv_shapes = inv_case inv_option inv_sum inv_if inv_pair

lemma ask_calls_inv [keeps_engine]:
  "engine_at env c w \<Longrightarrow> engine_at env c (snd (ask env (Dial a) w))"
  "engine_at env c w \<Longrightarrow> engine_at env c (snd (ask env HangUp w))"
  "engine_at env c w \<Longrightarrow> engine_at env c (snd (ask env (Stat f) w))"
  "engine_at env c w \<Longrightarrow> engine_at env c (snd (ask env (RandRead n) w))"
  by (simp_all add: ask_inv)

lemma dial_inv [keeps_engine]: "engine_at env c w \<Longrightarrow> engine_at env c (snd (dial env m a w))"
  unfolding dial_def  by (rule keeps_engine inv_shapes | assumption)+

lemma read_metadata_inv [keeps_engine]: "engine_at env c w \<Longrightarrow> engine_at env c (snd (read_metadata env d w))"
  unfolding read_metadata_def  by (rule keeps_engine inv_shapes | assumption)+

lemma register_objects_inv [keeps_engine]: "engine_at env c w \<Longrightarrow> engine_at env c (snd (register_objects env f m d w))"
  unfolding register_objects_def  by (rule keeps_engine inv_shapes | assumption)+

lemma give_back_inv [keeps_engine]: "engine_at env c w \<Longrightarrow> engine_at env c (snd (give_back env d e w))"
  by (simp add: give_back_def keeps_engine)

lemma cleanup_inv [keeps_engine]: "engine_at env c w \<Longrightarrow> engine_at env c (snd (cleanup env d w))"
  by (simp add: cleanup_def keeps_engine)

lemma filedb_Validate_inv [keeps_engine]: "engine_at env c w \<Longrightarrow> engine_at env c (snd (filedb_Validate env x p d w))"
  unfolding filedb_Validate_def  by (rule keeps_engine inv_shapes | assumption)+

lemma filedb_Attach_inv [keeps_engine]: "engine_at env c w \<Longrightarrow> engine_at env c (snd (filedb_Attach env x p d w))"
  unfolding filedb_Attach_def  by (rule keeps_engine inv_shapes | assumption)+

lemma filedb_Health_inv [keeps_engine]: "engine_at env c w \<Longrightarrow> engine_at env c (snd (filedb_Health env d w))"
  unfolding filedb_Health_def  by (rule keeps_engine inv_shapes | assumption)+

lemma mysql_Validate_inv [keeps_engine]: "engine_at env c w \<Longrightarrow> engine_at env c (snd (mysql_Validate env x d w))"
  unfolding mysql_Validate_def  by (rule keeps_engine inv_shapes | assumption)+

lemma mysql_finish_inv [keeps_engine]: "engine_at env c w \<Longrightarrow> engine_at env c (snd (mysql_finish env d w))"
  unfolding mysql_finish_def by (rule keeps_engine inv_shapes | assumption)+

lemma mysql_Attach_inv [keeps_engine]: "engine_at env c w \<Longrightarrow> engine_at env c (snd (mysql_Attach env x p d w))"
  unfolding mysql_Attach_def  by (rule keeps_engine inv_shapes | assumption)+

lemma mysql_Health_inv [keeps_engine]: "engine_at env c w \<Longrightarrow> engine_at env c (snd (mysql_Health env d w))"
  unfolding mysql_Health_def  by (rule keeps_engine inv_shapes | assumption)+

lemma postgres_Validate_inv [keeps_engine]: "engine_at env c w \<Longrightarrow> engine_at env c (snd (postgres_Validate env x k d w))"
  unfolding postgres_Validate_def  by (rule keeps_engine inv_shapes | assumption)+

lemma verifyReadOnly_inv [keeps_engine]: "engine_at env c w \<Longrightarrow> engine_at env c (snd (verifyReadOnly env a w))"
  unfolding verifyReadOnly_def  by (rule keeps_engine inv_shapes | assumption)+

lemma postgres_Attach_inv [keeps_engine]: "engine_at env c w \<Longrightarrow> engine_at env c (snd (postgres_Attach env x k d w))"
  unfolding postgres_Attach_def  by (rule keeps_engine inv_shapes | assumption)+

lemma postgres_Health_inv [keeps_engine]: "engine_at env c w \<Longrightarrow> engine_at env c (snd (postgres_Health env d w))"
  unfolding postgres_Health_def  by (rule keeps_engine inv_shapes | assumption)+

lemma PostureWarnings_inv [keeps_engine]: "engine_at env c w \<Longrightarrow> engine_at env c (snd (PostureWarnings env d w))"
  unfolding PostureWarnings_def by (rule keeps_engine inv_shapes | assumption)+

lemma newProbeID_inv [keeps_engine]: "engine_at env c w \<Longrightarrow> engine_at env c (snd (newProbeID env w))"
  unfolding newProbeID_def  by (rule keeps_engine inv_shapes | assumption)+

lemma discover_inv [keeps_engine]: "engine_at env c w \<Longrightarrow> engine_at env c (snd (discover env x k w))"
  unfolding discover_def  by (rule keeps_engine inv_shapes | assumption)+

lemma odbc_Attach_inv [keeps_engine]: "engine_at env c w \<Longrightarrow> engine_at env c (snd (odbc_Attach env x k d w))"
  unfolding odbc_Attach_def odbc_Validate_def by (rule keeps_engine inv_shapes | assumption)+

lemma odbc_Health_inv [keeps_engine]: "engine_at env c w \<Longrightarrow> engine_at env c (snd (odbc_Health env x k d w))"
  unfolding odbc_Health_def  by (rule keeps_engine inv_shapes | assumption)+

interpretation engine_world: kept_world "engine_adapters env" "engine_at env c" for env c
proof
  fix a :: "eworld adapter" and d w p
  assume a: "engine_adapters env a" and w: "engine_at env c w"
  note adapter_defs = engine_adapters_def filedb_adapter_def mysql_adapter_def postgres_adapter_def odbc_adapter_def
  show "engine_at env c (snd (ad_Validate a d w))"
    using a w by (auto simp: adapter_defs odbc_Validate_def intro: keeps_engine)
  show "engine_at env c (snd (ad_Attach a d w))"
    using a w by (auto simp: adapter_defs intro: keeps_engine)
  show "engine_at env c (snd (ad_Health a d w))"
    using a w by (auto simp: adapter_defs intro: keeps_engine)
  show "engine_at env c (snd (ad_Cleanup a d w))"
    using a w by (auto simp: adapter_defs intro: keeps_engine)
  show "engine_at env c (snd (p d w))" if "ad_Posture a = Some p"
    using a w that by (auto simp: adapter_defs intro: keeps_engine)
qed

end
