(* ===== verification/App.thy ===== *)
theory App
  imports WorldSafety
begin

text \<open>
  The application runtime (internal/app/runtime.go): an engine, its reconciliation manager and the
  live configuration.  It replaces the engine by a new one when a reload changes the paths that the
  engine's configuration locked.  Engine number \<open>k\<close>, counted from zero in the order of creation, answers
  by its own environment \<open>envs k\<close> and has its own history.  The engines that the runtime has let go stay
  listed in \<open>ap_dropped\<close>, which the code does not keep, to state what became of them.  The logger only
  reports and is left out.
\<close>

section \<open>Addresses and numbers\<close>

text \<open>\<open>net.SplitHostPort\<close> and \<open>strconv.Atoi\<close>.\<close>

definition split_last :: "char \<Rightarrow> string \<Rightarrow> (string \<times> string) option" where
  "split_last c s = (if c \<notin> set s then None
     else let after = rev (takeWhile (\<lambda>x. x \<noteq> c) (rev s))
       in Some (take (length s - length after - 1) s, after))"

definition address_error :: go_error where "address_error = Plain ''address is invalid''"

definition SplitHostPort :: "string \<Rightarrow> (string \<times> string) res" where
  "SplitHostPort hostport = (case split_last CHR '':'' hostport of
     None \<Rightarrow> Inl address_error
   | Some (before, port) \<Rightarrow>
       if has_prefix ''['' hostport then
         (let host = takeWhile (\<lambda>x. x \<noteq> CHR '']'') (tl hostport);
              rest = dropWhile (\<lambda>x. x \<noteq> CHR '']'') (tl hostport) in
          if rest = [] \<or> length (tl rest) \<noteq> Suc (length port) \<or> CHR ''['' \<in> set (tl hostport) \<or>
            CHR '']'' \<in> set (tl rest)
          then Inl address_error else Inr (host, port))
       else if CHR '':'' \<in> set before \<or> CHR ''['' \<in> set hostport \<or> CHR '']'' \<in> set hostport
       then Inl address_error else Inr (before, port))"

definition Atoi :: "string \<Rightarrow> int option" where
  "Atoi s = (let signed = (has_prefix ''-'' s \<or> has_prefix ''+'' s); d = (if signed then tl s else s);
       v = (if has_prefix ''-'' s then - int (decimal_value d) else int (decimal_value d))
     in if d \<noteq> [] \<and> list_all is_digit_byte d \<and> - (2 ^ 63) \<le> v \<and> v < 2 ^ 63 then Some v else None)"

definition endpointAddress :: "string \<Rightarrow> (string \<times> int) option" where
  "endpointAddress endpoint = (case SplitHostPort (trim_prefix ''quack:'' endpoint) of
     Inl e \<Rightarrow> None | Inr (host, rawPort) \<Rightarrow> map_option (Pair host) (Atoi rawPort))"

section \<open>Paths\<close>

definition file_path :: "config_source \<Rightarrow> string res" where
  "file_path c = decode_lenient [(''path'', set_string (\<lambda>x _. x))] '''' (cf_Options c)"

definition paths_of :: "config_source \<Rightarrow> string list" where
  "paths_of c =
     (if \<not> cf_Enabled c \<or> (cf_Type c \<noteq> ''sqlite'' \<and> cf_Type c \<noteq> ''duckdb'') then []
      else case file_path c of Inl e \<Rightarrow> []
        | Inr path \<Rightarrow> if path = '''' then []
            else if cf_Type c = ''duckdb'' then [path, path @ ''.wal''] else [path])"

definition filePaths :: "document \<Rightarrow> string list" where
  "filePaths d = concat (map paths_of (sources_of d))"

definition mergePaths :: "string list list \<Rightarrow> string list" where
  "mergePaths groups = sort (remdups (filter (\<lambda>p. p \<noteq> '''') (concat groups)))"

section \<open>State\<close>

record ('l, 's) app =
  ap_created :: nat
  ap_index :: nat
  ap_world :: eworld
  ap_manager :: "('l, 's, eworld) manager"
  ap_failures :: "source_status list"
  ap_loader :: "'l loader"
  ap_secrets :: "'s credential_ops"
  ap_options :: options
  ap_basePaths :: "string list"
  ap_document :: document
  ap_dropped :: "(nat \<times> eworld) list"

definition zero_options :: options where
  "zero_options = \<lparr>op_ExtensionDir = '''', op_AllowedPaths = [], op_ListenHost = '''', op_ListenPort = 0,
     op_Token = '''', op_MemoryLimit = '''', op_TempLimit = '''', op_Threads = 0, op_QueryTimeout = 0\<rparr>"

definition app_New :: "(nat \<Rightarrow> env) \<Rightarrow> 'l loader \<Rightarrow> 's credential_ops \<Rightarrow> ('l, 's) app res" where
  "app_New envs loader store = (case newManager (envs 0) loader store of
     Inl e \<Rightarrow> Inl e
   | Inr m \<Rightarrow> Inr \<lparr>ap_created = 1, ap_index = 0, ap_world = (engine_New, []), ap_manager = m, ap_failures = [],
       ap_loader = loader, ap_secrets = store, ap_options = zero_options, ap_basePaths = [],
       ap_document = \<lparr>doc_Version = 0, doc_Sources = None\<rparr>, ap_dropped = []\<rparr>)"

text \<open>The engine's operations on a world.\<close>

definition w_Start :: "env \<Rightarrow> options \<Rightarrow> eworld \<Rightarrow> string res \<times> eworld" where
  "w_Start env opts = (\<lambda>(en, h). case engine_Start env opts en h of ((r, en), h) \<Rightarrow> (r, (en, h)))"

definition w_Stop :: "env \<Rightarrow> eworld \<Rightarrow> go_error option \<times> eworld" where
  "w_Stop env = (\<lambda>(en, h). case engine_Stop env en h of ((r, en), h) \<Rightarrow> (r, (en, h)))"

definition w_Reload :: "env \<Rightarrow> eworld \<Rightarrow> go_error option \<times> eworld" where
  "w_Reload env = (\<lambda>(en, h). case engine_Reload env en h of (r, h) \<Rightarrow> (r, (en, h)))"

definition w_RotateToken :: "env \<Rightarrow> eworld \<Rightarrow> go_error option \<times> eworld" where
  "w_RotateToken env = (\<lambda>(en, h). case engine_RotateToken env en h of ((r, en), h) \<Rightarrow> (r, (en, h)))"

section \<open>Start\<close>

definition failure_status :: "failure \<Rightarrow> source_status" where
  "failure_status f = \<lparr>ss_ID = fl_ID f, ss_Name = fl_Name f, ss_Type = fl_Type f, ss_Health = ''unavailable'',
     ss_ErrorCode = code_string CodeSourceUnavailable\<rparr>"

text \<open>The options a later engine is started with: the bound address and the generated token.\<close>

definition pin_options :: "string \<Rightarrow> string \<Rightarrow> options \<Rightarrow> options" where
  "pin_options endpoint token opts =
     (case endpointAddress endpoint of
        Some (host, port) \<Rightarrow> opts\<lparr>op_ListenHost := host, op_ListenPort := port\<rparr> | None \<Rightarrow> opts)\<lparr>op_Token := token\<rparr>"

definition app_Start ::
  "(nat \<Rightarrow> env) \<Rightarrow> options \<Rightarrow> ('l, 's) app \<Rightarrow> 'l \<times> 's \<Rightarrow> string res \<times> ('l, 's) app \<times> ('l \<times> 's)" where
  "app_Start envs opts a = (\<lambda>(l, s). case ap_loader a l of
     (Inl e, l) \<Rightarrow> (Inl (source_unavailable ''load source configuration failed'' e), a, (l, s))
   | (Inr document, l) \<Rightarrow>
     let env = envs (ap_index a); base = mergePaths [op_AllowedPaths opts]; a = a\<lparr>ap_basePaths := base\<rparr>;
         opts = opts\<lparr>op_AllowedPaths := mergePaths [base, filePaths document]\<rparr> in
     case w_Start env opts (ap_world a) of
       (Inl e, w) \<Rightarrow> (Inl e, a\<lparr>ap_world := w\<rparr>, (l, s))
     | (Inr endpoint, w) \<Rightarrow>
       let a = a\<lparr>ap_options := pin_options endpoint (engine_Token (fst w)) opts, ap_document := Clone document\<rparr> in
       case Bootstrap (ap_manager a) (l, s, w) of
         (Inl e, m, (l, s, w)) \<Rightarrow> (case w_Stop env w of (_, w) \<Rightarrow>
           (Inl (source_unavailable ''load source configuration failed'' e), a\<lparr>ap_manager := m, ap_world := w\<rparr>, (l, s)))
       | (Inr failures, m, (l, s, w)) \<Rightarrow>
           (Inr endpoint, a\<lparr>ap_manager := m, ap_world := w, ap_failures := map failure_status failures\<rparr>, (l, s)))"

section \<open>Reload\<close>

text \<open>An engine that is let go keeps its number; the number of a new engine is the count of those created
  before it.\<close>

definition drop_engine :: "nat \<Rightarrow> eworld \<Rightarrow> ('l, 's) app \<Rightarrow> ('l, 's) app" where
  "drop_engine k w a = a\<lparr>ap_dropped := ap_dropped a @ [(k, w)]\<rparr>"

definition created :: "('l, 's) app \<Rightarrow> ('l, 's) app" where
  "created a = a\<lparr>ap_created := Suc (ap_created a)\<rparr>"

text \<open>A fresh engine starts and its manager attaches the sources; it is stopped again when they cannot be
  attached.\<close>

definition bring_up ::
  "env \<Rightarrow> (string list \<Rightarrow> string list) \<Rightarrow> (go_error \<Rightarrow> go_error) \<Rightarrow> (go_error \<Rightarrow> go_error) \<Rightarrow>
   ('l, 's, eworld) manager \<Rightarrow> options \<Rightarrow> 'l \<times> 's \<Rightarrow> ('l, 's, eworld) manager res \<times> eworld \<times> ('l \<times> 's)" where
  "bring_up env order start_failed reload_failed m opts = (\<lambda>(l, s).
     case w_Start env opts (engine_New, []) of
       (Inl e, w) \<Rightarrow> (Inl (start_failed e), w, (l, s))
     | (Inr _, w) \<Rightarrow> (case fst (manager_Reload order m (l, s, w)) of
         (Some e, m, (l, s, w)) \<Rightarrow> (case w_Stop env w of (_, w) \<Rightarrow> (Inl (reload_failed e), w, (l, s)))
       | (None, m, (l, s, w)) \<Rightarrow> (Inr m, w, (l, s))))"

definition documentLoader :: "document \<Rightarrow> 'l loader" where
  "documentLoader document = (\<lambda>l. (Inr (Clone document), l))"

definition use_engine ::
  "nat \<Rightarrow> eworld \<Rightarrow> ('l, 's, eworld) manager \<Rightarrow> options \<Rightarrow> document \<Rightarrow> ('l, 's) app \<Rightarrow> ('l, 's) app" where
  "use_engine k w m opts document a = (drop_engine (ap_index a) (ap_world a) a)
     \<lparr>ap_index := k, ap_world := w, ap_manager := m, ap_options := opts, ap_document := Clone document\<rparr>"

definition restore ::
  "(nat \<Rightarrow> env) \<Rightarrow> (string list \<Rightarrow> string list) \<Rightarrow> document \<Rightarrow> options \<Rightarrow> ('l, 's) app \<Rightarrow> 'l \<times> 's \<Rightarrow>
   go_error option \<times> ('l, 's) app \<times> ('l \<times> 's)" where
  "restore envs order document opts a ls =
     (let k = ap_created a; a = created a in
      case newManager (envs k) (documentLoader document) (ap_secrets a) of
        Inl e \<Rightarrow> (Some (Wrap ''restore previous engine'' e), a, ls)
      | Inr m \<Rightarrow> case bring_up (envs k) order (Wrap ''restore previous engine'') (Wrap ''restore previous sources'') m opts ls of
        (Inl e, w, ls) \<Rightarrow> (Some e, drop_engine k w a, ls)
      | (Inr m, w, ls) \<Rightarrow> (None, use_engine k w (snd (RebindLoader (Some (ap_loader a)) m)) opts document a, ls))"

text \<open>The candidate on a disposable engine.\<close>

definition probe ::
  "(nat \<Rightarrow> env) \<Rightarrow> (string list \<Rightarrow> string list) \<Rightarrow> options \<Rightarrow> ('l, 's) app \<Rightarrow> 'l \<times> 's \<Rightarrow>
   go_error option \<times> ('l, 's) app \<times> ('l \<times> 's)" where
  "probe envs order opts a ls =
     (let k = ap_created a; a = created a in
      case newManager (envs k) (ap_loader a) (ap_secrets a) of Inl e \<Rightarrow> (Some e, a, ls)
      | Inr m \<Rightarrow> case bring_up (envs k) order (Wrap ''validate reloaded engine'') id m
          (opts\<lparr>op_ListenPort := 0, op_Token := ''''\<rparr>) ls of
        (Inl e, w, ls) \<Rightarrow> (Some e, drop_engine k w a, ls)
      | (Inr m, w, ls) \<Rightarrow> (case w_Stop (envs k) w of (e, w) \<Rightarrow>
          (map_option (Wrap ''stop reload validation engine'') e, drop_engine k w a, ls)))"

definition replace_engine ::
  "(nat \<Rightarrow> env) \<Rightarrow> (string list \<Rightarrow> string list) \<Rightarrow> document \<Rightarrow> options \<Rightarrow> document \<Rightarrow> options \<Rightarrow> ('l, 's) app \<Rightarrow> 'l \<times> 's \<Rightarrow>
   go_error option \<times> ('l, 's) app \<times> ('l \<times> 's)" where
  "replace_engine envs order document opts previousDocument previousOptions a ls =
     (let undo_with = (\<lambda>err a ls. case restore envs order previousDocument previousOptions a ls of
            (restoreErr, a, ls) \<Rightarrow> (errors_join [Some err, restoreErr], a, ls)) in
      case w_Stop (envs (ap_index a)) (ap_world a) of
        (Some e, w) \<Rightarrow> undo_with e (a\<lparr>ap_world := w\<rparr>) ls
      | (None, w) \<Rightarrow>
        let a = a\<lparr>ap_world := w\<rparr>; k = ap_created a; a = created a in
        case newManager (envs k) (ap_loader a) (ap_secrets a) of Inl e \<Rightarrow> (Some e, a, ls)
        | Inr m \<Rightarrow> case bring_up (envs k) order (Wrap ''restart engine for file-source allowlist'')
            (Wrap ''reattach sources after engine restart'') m opts ls of
          (Inl e, w, ls) \<Rightarrow> undo_with e (drop_engine k w a) ls
        | (Inr m, w, ls) \<Rightarrow> (None, (use_engine k w m opts document a)\<lparr>ap_failures := []\<rparr>, ls))"

definition rebuild ::
  "(nat \<Rightarrow> env) \<Rightarrow> (string list \<Rightarrow> string list) \<Rightarrow> document \<Rightarrow> string list \<Rightarrow> ('l, 's) app \<Rightarrow> 'l \<times> 's \<Rightarrow>
   go_error option \<times> ('l, 's) app \<times> ('l \<times> 's)" where
  "rebuild envs order document paths a ls =
     (let opts = (ap_options a)\<lparr>op_AllowedPaths := paths\<rparr> in
      case probe envs order opts a ls of
        (Some e, a, ls) \<Rightarrow> (Some e, a, ls)
      | (None, a, ls) \<Rightarrow> replace_engine envs order document opts (Clone (ap_document a)) (ap_options a) a ls)"

definition app_Reload ::
  "(nat \<Rightarrow> env) \<Rightarrow> (string list \<Rightarrow> string list) \<Rightarrow> ('l, 's) app \<Rightarrow> 'l \<times> 's \<Rightarrow>
   go_error option \<times> ('l, 's) app \<times> ('l \<times> 's)" where
  "app_Reload envs order a = (\<lambda>(l, s). case ap_loader a l of
     (Inl e, l) \<Rightarrow> (Some e, a, (l, s))
   | (Inr document, l) \<Rightarrow>
     let nextPaths = mergePaths [ap_basePaths a, filePaths document] in
     if nextPaths \<noteq> op_AllowedPaths (ap_options a) then rebuild envs order document nextPaths a (l, s)
     else case fst (manager_Reload order (ap_manager a) (l, s, ap_world a)) of
       (Some e, m, (l, s, w)) \<Rightarrow> (Some e, a\<lparr>ap_manager := m, ap_world := w\<rparr>, (l, s))
     | (None, m, (l, s, w)) \<Rightarrow> (case w_Reload (envs (ap_index a)) w of
         (Some e, w) \<Rightarrow> (Some e, a\<lparr>ap_manager := m, ap_world := w\<rparr>, (l, s))
       | (None, w) \<Rightarrow> (None, a\<lparr>ap_manager := m, ap_world := w, ap_failures := [], ap_document := Clone document\<rparr>, (l, s))))"

section \<open>Stop, sources, token, diagnostics\<close>

definition app_Stop :: "(nat \<Rightarrow> env) \<Rightarrow> ('l, 's) app \<Rightarrow> go_error option \<times> ('l, 's) app" where
  "app_Stop envs a = (case w_Stop (envs (ap_index a)) (ap_world a) of
     (e, w) \<Rightarrow> (e, a\<lparr>ap_world := w, ap_failures := []\<rparr>))"

fun by_id :: "source_status list \<Rightarrow> (string \<times> source_status) list \<Rightarrow> (string \<times> source_status) list" where
  "by_id [] m = m"
| "by_id (s # ss) m = by_id ss (AList.update (ss_ID s) s m)"

definition app_Sources :: "('l, 's) app \<Rightarrow> source_status list" where
  "app_Sources a = sort_key ss_ID (map snd (by_id (engine_Sources (fst (ap_world a)) @ ap_failures a) []))"

definition app_Token :: "('l, 's) app \<Rightarrow> string" where
  "app_Token a = engine_Token (fst (ap_world a))"

definition app_RotateToken :: "(nat \<Rightarrow> env) \<Rightarrow> ('l, 's) app \<Rightarrow> go_error option \<times> ('l, 's) app" where
  "app_RotateToken envs a = (case w_RotateToken (envs (ap_index a)) (ap_world a) of
     (Some e, w) \<Rightarrow> (Some e, a\<lparr>ap_world := w\<rparr>)
   | (None, w) \<Rightarrow> (None, a\<lparr>ap_world := w, ap_options := (ap_options a)\<lparr>op_Token := engine_Token (fst w)\<rparr>\<rparr>))"

record app_diagnostics =
  ad_engine :: diagnostics
  ad_sources :: "source_status list"
  ad_source_diagnostics :: "source_diagnostic list"
  ad_product_version :: string
  ad_protocol_version :: int
  ad_capabilities :: "string list"
  ad_extension_versions :: "(string \<times> string) list"

definition app_Diagnostics :: "(nat \<Rightarrow> env) \<Rightarrow> ('l, 's) app \<Rightarrow> app_diagnostics res \<times> ('l, 's) app" where
  "app_Diagnostics envs a = (case ap_world a of (en, h) \<Rightarrow>
     (case engine_Diagnostics (envs (ap_index a)) en h of
        (Inl e, h) \<Rightarrow> (Inl e, a\<lparr>ap_world := (en, h)\<rparr>)
      | (Inr g, h) \<Rightarrow> (case manager_Diagnostics (ap_manager a) (en, h) of (sd, w) \<Rightarrow>
          (Inr \<lparr>ad_engine = g, ad_sources = app_Sources a, ad_source_diagnostics = sd,
             ad_product_version = Version, ad_protocol_version = ProtocolVersion,
             ad_capabilities = Capabilities, ad_extension_versions = ExtensionVersions\<rparr>, a\<lparr>ap_world := w\<rparr>))))"

section \<open>One engine at a time\<close>

text \<open>An engine that is let go was stopped, or never started.\<close>

definition let_go :: "env \<Rightarrow> eworld \<Rightarrow> bool" where
  "let_go env w \<longleftrightarrow> engine_inv env w \<and> \<not> en_db (fst w)"

definition own_manager :: "env \<Rightarrow> ('l, 's, eworld) manager \<Rightarrow> bool" where
  "own_manager env m \<longleftrightarrow> mg_factories m = engine_factories env \<and> all_good (engine_adapters env) (mg_active m)"

definition app_inv :: "(nat \<Rightarrow> env) \<Rightarrow> ('l, 's) app \<Rightarrow> bool" where
  "app_inv envs a \<longleftrightarrow> engine_inv (envs (ap_index a)) (ap_world a) \<and> own_manager (envs (ap_index a)) (ap_manager a) \<and>
     (\<forall>(k, w) \<in> set (ap_dropped a). let_go (envs k) w) \<and>
     (\<forall>k < ap_created a. k = ap_index a \<or> k \<in> fst ` set (ap_dropped a)) \<and> ap_index a < ap_created a"

text \<open>One operation of the runtime, with any loader and store answers and any order of iteration.\<close>

inductive app_step :: "(nat \<Rightarrow> env) \<Rightarrow> ('l, 's) app \<Rightarrow> ('l, 's) app \<Rightarrow> bool" for envs where
  as_Start: "app_Start envs opts a ls = (r, a', ls') \<Longrightarrow> app_step envs a a'"
| as_Reload: "\<forall>xs. mset (order xs) = mset xs \<Longrightarrow> app_Reload envs order a ls = (e, a', ls') \<Longrightarrow> app_step envs a a'"
| as_Stop: "app_Stop envs a = (e, a') \<Longrightarrow> app_step envs a a'"
| as_RotateToken: "app_RotateToken envs a = (e, a') \<Longrightarrow> app_step envs a a'"
| as_Diagnostics: "app_Diagnostics envs a = (g, a') \<Longrightarrow> app_step envs a a'"

inductive app_reachable :: "(nat \<Rightarrow> env) \<Rightarrow> ('l, 's) app \<Rightarrow> bool" for envs where
  ar_New: "app_New envs loader store = Inr a \<Longrightarrow> app_reachable envs a"
| ar_step: "app_reachable envs a \<Longrightarrow> app_step envs a a' \<Longrightarrow> app_reachable envs a'"

inductive_cases app_stepE: "app_step envs a a'"

lemma engine_at_iff: "engine_inv env w \<longleftrightarrow> engine_at env (control (fst w)) w"
  by (simp add: engine_at_def)

lemma engine_at_inv: "engine_at env c w \<Longrightarrow> engine_inv env w"
  by (simp add: engine_at_def)

lemma engine_inv_New: "engine_inv env (engine_New, [])"
  by (rule engine_inv_stopped) (simp_all add: engine_New_def)

lemma w_Start_inv: "engine_inv env w \<Longrightarrow> w_Start env opts w = (r, w') \<Longrightarrow> engine_inv env w'"
  by (cases w) (auto simp: w_Start_def split: prod.splits intro: Start_inv)

lemma w_Start_failed:
  assumes "engine_inv env w" and "\<not> en_db (fst w)" and "w_Start env opts w = (Inl e, w')"
  shows "let_go env w'"
proof -
  obtain en h where w: "w = (en, h)" by fastforce
  obtain r en' h' where s: "engine_Start env opts en h = ((r, en'), h')" by (metis prod_cases3 surj_pair)
  have idle: "world env h = idle_world" using assms(1,2) w by (simp add: engine_inv_def)
  have r: "r = Inl e" "w' = (en', h')" using assms(3) w s by (simp_all add: w_Start_def)
  then have "en' = en" using engine_Start_outcome [OF idle, of en opts] assms(2) w s by (simp add: start_outcome_def)
  moreover have "engine_inv env (en', h')" using Start_inv [OF _ s] assms(1) w by simp
  ultimately show ?thesis using r assms(2) w by (simp add: let_go_def)
qed

lemma w_Stop_let_go: "engine_inv env w \<Longrightarrow> w_Stop env w = (e, w') \<Longrightarrow> let_go env w'"
  using Stop_inv [of env "fst w" "snd w"] by (cases w) (auto simp: w_Stop_def let_go_def split: prod.splits)

lemma w_Reload_inv: "engine_at env c w \<Longrightarrow> w_Reload env w = (e, w') \<Longrightarrow> engine_at env c w'"
  using engine_step_inv [OF step_Reload]
  by (cases w) (auto simp: w_Reload_def engine_at_def split: prod.splits)

lemma w_Rotate_inv: "engine_inv env w \<Longrightarrow> w_RotateToken env w = (e, w') \<Longrightarrow> engine_inv env w'"
  by (cases w) (auto simp: w_RotateToken_def split: prod.splits intro: Rotate_inv)

lemma newManager_own: "newManager env loader store = Inr m \<Longrightarrow> own_manager env m \<and> mg_active m = []"
  by (auto simp: newManager_ok own_manager_def)

lemma reload_keeps:
  assumes "fst (manager_Reload order m (l, s, w)) = (e, m', (l', s', w'))" and "engine_at env c w" and "own_manager env m"
    and "\<forall>xs. mset (order xs) = mset xs"
  shows "engine_at env c w' \<and> own_manager env m'"
proof -
  obtain ig where r: "manager_Reload order m (l, s, w) = ((e, m', (l', s', w')), ig)" using assms(1) by (metis prod.collapse)
  have "set (order xs) = set xs" for xs :: "string list" using assms(4) by (metis set_mset_mset)
  then show ?thesis
    using engine_world.keeps_Reload [OF r assms(2)] assms(3) engine_factories_good by (simp add: own_manager_def)
qed

lemma bring_up_outcome:
  assumes "bring_up env order sf rf m opts (l, s) = (r, w, ls)" and "own_manager env m"
    and "\<forall>xs. mset (order xs) = mset xs"
  shows "case r of Inl e \<Rightarrow> let_go env w | Inr m' \<Rightarrow> engine_inv env w \<and> own_manager env m'"
proof -
  obtain r1 w1 where st: "w_Start env opts (engine_New, []) = (r1, w1)" by (metis prod.exhaust)
  have i1: "engine_inv env w1" using w_Start_inv [OF engine_inv_New st] .
  show ?thesis
  proof (cases r1)
    case (Inl e)
    then have "let_go env w1" using w_Start_failed [OF engine_inv_New _ st [unfolded Inl]] by (simp add: engine_New_def)
    then show ?thesis using assms(1) st Inl by (auto simp: bring_up_def)
  next
    case (Inr uri)
    obtain e m2 l2 s2 w2 where re: "fst (manager_Reload order m (l, s, w1)) = (e, m2, (l2, s2, w2))" by (metis prod_cases5)
    have k: "engine_inv env w2 \<and> own_manager env m2"
      using reload_keeps [OF re i1 [unfolded engine_at_iff] assms(2,3)] engine_at_inv by blast
    obtain e3 w3 where sp: "w_Stop env w2 = (e3, w3)" by (metis prod.exhaust)
    have "let_go env w3" using w_Stop_let_go sp k by blast
    then show ?thesis using assms(1) st Inr re sp k by (cases e) (auto simp: bring_up_def)
  qed
qed

text \<open>The invariant without its current engine, to which a let-go engine is added.\<close>

lemma app_inv_drop:
  assumes "app_inv envs a" and "let_go (envs (ap_created a)) w"
  shows "app_inv envs (drop_engine (ap_created a) w (created a))"
  using assms by (auto simp: app_inv_def drop_engine_def created_def less_Suc_eq)

lemma app_inv_use:
  assumes "app_inv envs a" and "\<not> en_db (fst (ap_world a))"
    and "engine_inv (envs (ap_created a)) w" and "own_manager (envs (ap_created a)) m"
  shows "app_inv envs (use_engine (ap_created a) w m opts d (created a))"
  using assms by (auto simp: app_inv_def use_engine_def drop_engine_def created_def less_Suc_eq let_go_def)

lemma app_inv_world: "app_inv envs a \<Longrightarrow> engine_inv (envs (ap_index a)) w \<Longrightarrow> app_inv envs (a\<lparr>ap_world := w\<rparr>)"
  by (simp add: app_inv_def)

lemma restore_inv:
  fixes a :: "('l, 's) app"
  assumes "restore envs order d opts a (l, s) = (e, a', ls')" and "app_inv envs a" and "\<not> en_db (fst (ap_world a))"
    and "\<forall>xs. mset (order xs) = mset xs"
  shows "app_inv envs a'"
proof -
  let ?env = "envs (ap_created a)"
  obtain m :: "('l, 's, eworld) manager" where m: "newManager ?env (documentLoader d) (ap_secrets a) = Inr m"
    by (simp add: newManager_ok)
  obtain r w ls1 where b: "bring_up ?env order (Wrap ''restore previous engine'') (Wrap ''restore previous sources'') m opts (l, s) =
      (r, w, ls1)" by (metis prod_cases3)
  note out = bring_up_outcome [OF b conjunct1 [OF newManager_own [OF m]] assms(4)]
  have sec: "ap_secrets (created a) = ap_secrets a" by (simp add: created_def)
  show ?thesis
  proof (cases r)
    case (Inl x)
    then have "a' = drop_engine (ap_created a) w (created a)"
      using assms(1) m b by (simp add: restore_def sec)
    then show ?thesis using app_inv_drop [OF assms(2)] out Inl by simp
  next
    case (Inr m')
    then have a': "a' = use_engine (ap_created a) w (snd (RebindLoader (Some (ap_loader a)) m')) opts d (created a)"
      using assms(1) m b by (simp add: restore_def sec) (simp add: created_def Let_def)
    have "own_manager ?env (snd (RebindLoader (Some (ap_loader a)) m'))"
      using out Inr by (simp add: RebindLoader_def own_manager_def)
    then show ?thesis using app_inv_use [OF assms(2,3)] out Inr a' by simp
  qed
qed

lemma probe_inv:
  assumes "probe envs order opts a (l, s) = (e, a', ls')" and "app_inv envs a" and "\<forall>xs. mset (order xs) = mset xs"
  shows "app_inv envs a' \<and> (\<exists>w. a' = drop_engine (ap_created a) w (created a))"
proof -
  let ?env = "envs (ap_created a)"
  obtain m where m: "newManager ?env (ap_loader a) (ap_secrets a) = Inr m" by (simp add: newManager_ok)
  obtain r w ls1 where b: "bring_up ?env order (Wrap ''validate reloaded engine'') id m
      (opts\<lparr>op_ListenPort := 0, op_Token := ''''\<rparr>) (l, s) = (r, w, ls1)" by (metis prod_cases3)
  note out = bring_up_outcome [OF b conjunct1 [OF newManager_own [OF m]] assms(3)]
  have same: "ap_secrets (created a) = ap_secrets a" "ap_loader (created a) = ap_loader a" by (simp_all add: created_def)
  show ?thesis
  proof (cases r)
    case (Inl x)
    then have "a' = drop_engine (ap_created a) w (created a)" using assms(1) m b by (simp add: probe_def same)
    then show ?thesis using app_inv_drop [OF assms(2)] out Inl by (auto simp del: split_paired_Ex)
  next
    case (Inr m')
    obtain e2 w2 where sp: "w_Stop ?env w = (e2, w2)" by (metis prod.exhaust)
    have "a' = drop_engine (ap_created a) w2 (created a)" using assms(1) m b Inr sp by (simp add: probe_def same)
    then show ?thesis using app_inv_drop [OF assms(2)] w_Stop_let_go [OF _ sp] out Inr by (auto simp del: split_paired_Ex)
  qed
qed

lemma app_inv_failures: "app_inv envs (a\<lparr>ap_failures := fs\<rparr>) = app_inv envs a"
  by (simp add: app_inv_def)

lemma replace_engine_inv:
  assumes "replace_engine envs order d opts pd po a (l, s) = (e, a', ls')" and "app_inv envs a"
    and "\<forall>xs. mset (order xs) = mset xs"
  shows "app_inv envs a'"
proof -
  obtain e1 w1 where sp: "w_Stop (envs (ap_index a)) (ap_world a) = (e1, w1)" by (metis prod.exhaust)
  have lg: "let_go (envs (ap_index a)) w1" using w_Stop_let_go [OF _ sp] assms(2) by (simp add: app_inv_def)
  let ?a = "a\<lparr>ap_world := w1\<rparr>"
  have inv: "app_inv envs ?a" using app_inv_world [OF assms(2)] lg by (simp add: let_go_def)
  have off: "\<not> en_db (fst (ap_world ?a))" using lg by (simp add: let_go_def)
  show ?thesis
  proof (cases e1)
    case (Some x)
    obtain re a2 ls2 where rs: "restore envs order pd po ?a (l, s) = (re, a2, ls2)" by (metis prod_cases3)
    have "a' = a2" using assms(1) sp Some rs by (simp add: replace_engine_def)
    then show ?thesis using restore_inv [OF rs inv off assms(3)] by simp
  next
    case None
    let ?env = "envs (ap_created ?a)"
    obtain m where m: "newManager ?env (ap_loader ?a) (ap_secrets ?a) = Inr m" by (simp add: newManager_ok)
    obtain r w ls1 where b: "bring_up ?env order (Wrap ''restart engine for file-source allowlist'')
        (Wrap ''reattach sources after engine restart'') m opts (l, s) = (r, w, ls1)" by (metis prod_cases3)
    note out = bring_up_outcome [OF b conjunct1 [OF newManager_own [OF m]] assms(3)]
    have same: "ap_secrets (created ?a) = ap_secrets a" "ap_loader (created ?a) = ap_loader a"
      "ap_created ?a = ap_created a" by (simp_all add: created_def)
    show ?thesis
    proof (cases r)
      case (Inl x)
      let ?d = "drop_engine (ap_created a) w (created ?a)"
      obtain l2 s2 where ls1: "ls1 = (l2, s2)" by fastforce
      obtain re a2 ls2 where rs: "restore envs order pd po ?d (l2, s2) = (re, a2, ls2)" by (metis prod_cases3)
      have "a' = a2" using assms(1) sp None m b Inl rs ls1 by (simp add: replace_engine_def same)
      moreover have "app_inv envs ?d" using app_inv_drop [OF inv] out Inl by (simp add: same)
      moreover have "\<not> en_db (fst (ap_world ?d))" using off by (simp add: drop_engine_def created_def)
      ultimately show ?thesis using restore_inv [OF rs _ _ assms(3)] by simp
    next
      case (Inr m')
      then have "a' = (use_engine (ap_created a) w m' opts d (created ?a))\<lparr>ap_failures := []\<rparr>"
        using assms(1) sp None m b by (simp add: replace_engine_def same)
      then show ?thesis using app_inv_use [OF inv off] out Inr by (simp add: app_inv_failures same)
    qed
  qed
qed

lemma app_Reload_inv:
  assumes "app_Reload envs order a (l, s) = (e, a', ls')" and "app_inv envs a" and "\<forall>xs. mset (order xs) = mset xs"
  shows "app_inv envs a'"
proof -
  obtain dr l1 where ld: "ap_loader a l = (dr, l1)" by fastforce
  show ?thesis
  proof (cases dr)
    case (Inl x)
    then show ?thesis using assms(1,2) ld by (simp add: app_Reload_def)
  next
    case (Inr d)
    let ?paths = "mergePaths [ap_basePaths a, filePaths d]"
    show ?thesis
    proof (cases "?paths = op_AllowedPaths (ap_options a)")
      case False
      let ?opts = "(ap_options a)\<lparr>op_AllowedPaths := ?paths\<rparr>"
      obtain pe a2 l2 s2 where p: "probe envs order ?opts a (l1, s) = (pe, a2, (l2, s2))" by (metis prod_cases4)
      have i2: "app_inv envs a2" using probe_inv [OF p assms(2,3)] by blast
      show ?thesis
      proof (cases pe)
        case (Some x)
        then show ?thesis using assms(1) ld Inr False p i2 by (simp add: app_Reload_def rebuild_def)
      next
        case None
        then have "replace_engine envs order d ?opts (Clone (ap_document a2)) (ap_options a2) a2 (l2, s2) = (e, a', ls')"
          using assms(1) ld Inr False p by (simp add: app_Reload_def rebuild_def)
        then show ?thesis by (rule replace_engine_inv [OF _ i2 assms(3)])
      qed
    next
      case True
      let ?env = "envs (ap_index a)"
      obtain re m2 l2 s2 w2 where r: "fst (manager_Reload order (ap_manager a) (l1, s, ap_world a)) = (re, m2, (l2, s2, w2))"
        by (metis prod_cases5)
      have i: "engine_inv ?env (ap_world a)" "own_manager ?env (ap_manager a)" using assms(2) by (simp_all add: app_inv_def)
      note k = reload_keeps [OF r i(1) [unfolded engine_at_iff] i(2) assms(3)]
      obtain e3 w3 where s3: "w_Reload ?env w2 = (e3, w3)" by (metis prod.exhaust)
      have k3: "engine_inv ?env w3" using w_Reload_inv [OF conjunct1 [OF k] s3] engine_at_inv by blast
      show ?thesis
      proof (cases re)
        case (Some x)
        then have "a' = a\<lparr>ap_manager := m2, ap_world := w2\<rparr>" using assms(1) ld Inr True r by (simp add: app_Reload_def)
        then show ?thesis using assms(2) k engine_at_inv [OF conjunct1 [OF k]] by (simp add: app_inv_def)
      next
        case None
        then show ?thesis using assms(1,2) ld Inr True r s3 k k3 by (cases e3) (auto simp: app_Reload_def app_inv_def)
      qed
    qed
  qed
qed

lemma app_Start_inv:
  assumes "app_Start envs opts a (l, s) = (r, a', ls')" and "app_inv envs a"
  shows "app_inv envs a'"
proof -
  obtain dr l1 where ld: "ap_loader a l = (dr, l1)" by fastforce
  show ?thesis
  proof (cases dr)
    case (Inl x)
    then show ?thesis using assms ld by (simp add: app_Start_def)
  next
    case (Inr d)
    let ?env = "envs (ap_index a)" and ?base = "mergePaths [op_AllowedPaths opts]"
    let ?opts = "opts\<lparr>op_AllowedPaths := mergePaths [?base, filePaths d]\<rparr>"
    obtain sr w1 where st: "w_Start ?env ?opts (ap_world a) = (sr, w1)" by (metis prod.exhaust)
    have i: "engine_inv ?env (ap_world a)" "own_manager ?env (ap_manager a)" using assms(2) by (simp_all add: app_inv_def)
    have i1: "engine_inv ?env w1" using w_Start_inv [OF i(1) st] .
    show ?thesis
    proof (cases sr)
      case (Inl x)
      then show ?thesis using assms ld Inr st i1 by (auto simp: app_Start_def Let_def app_inv_def)
    next
      case ok: (Inr uri)
      obtain br m2 l2 s2 w2 where b: "Bootstrap (ap_manager a) (l1, s, w1) = (br, m2, (l2, s2, w2))" by (metis prod_cases5)
      have k: "engine_inv ?env w2" "own_manager ?env m2"
        using engine_world.keeps_Bootstrap [OF b i1 [unfolded engine_at_iff]] i(2) engine_factories_good
        by (auto simp: own_manager_def engine_at_def)
      obtain e3 w3 where sp: "w_Stop ?env w2 = (e3, w3)" by (metis prod.exhaust)
      have "engine_inv ?env w3" using w_Stop_let_go [OF k(1) sp] by (simp add: let_go_def)
      then show ?thesis
        using assms ld Inr st ok b sp k by (cases br) (auto simp: app_Start_def Let_def app_inv_def)
    qed
  qed
qed

lemma app_step_inv: "app_step envs a a' \<Longrightarrow> app_inv envs a \<Longrightarrow> app_inv envs a'"
proof (induction rule: app_step.induct)
  case (as_Start opts a ls r a' ls')
  then show ?case by (cases ls) (auto intro: app_Start_inv)
next
  case (as_Reload order a ls e a' ls')
  then show ?case by (cases ls) (auto intro: app_Reload_inv)
next
  case (as_Stop a e a')
  then show ?case
    by (auto simp: app_Stop_def app_inv_def let_go_def split: prod.splits dest: w_Stop_let_go)
next
  case (as_RotateToken a e a')
  then show ?case
    by (auto simp: app_RotateToken_def app_inv_def split: prod.splits option.splits dest: w_Rotate_inv)
next
  case (as_Diagnostics a g a')
  obtain en h where w: "ap_world a = (en, h)" by fastforce
  let ?env = "envs (ap_index a)"
  have i: "engine_inv ?env (en, h)" "own_manager ?env (ap_manager a)" using as_Diagnostics(2) w by (simp_all add: app_inv_def)
  obtain gr h1 where d: "engine_Diagnostics ?env en h = (gr, h1)" by fastforce
  have i1: "engine_inv ?env (en, h1)" using engine_step_inv [OF step_Diagnostics [OF d] i(1)] .
  obtain sd w2 where md: "manager_Diagnostics (ap_manager a) (en, h1) = (sd, w2)" by (metis prod.exhaust)
  have "engine_inv ?env w2"
    using engine_world.keeps_Diagnostics [OF i1 [unfolded engine_at_iff], of "ap_manager a"] i(2) md engine_at_inv
    by (auto simp: own_manager_def)
  then show ?case
    using as_Diagnostics w d i1 md by (cases gr) (auto simp: app_Diagnostics_def app_inv_def)
qed

lemma app_New_inv: "app_New envs loader store = Inr a \<Longrightarrow> app_inv envs a"
  using engine_inv_New [of "envs 0"] newManager_own [of "envs 0" loader store]
  by (auto simp: app_New_def app_inv_def split: sum.splits)

lemma app_reachable_inv: "app_reachable envs a \<Longrightarrow> app_inv envs a"
  by (induction rule: app_reachable.induct) (auto intro: app_New_inv app_step_inv)

text \<open>C23. At most one engine runs.  Whatever sequence of starts, reloads, stops, token rotations and
  diagnostics a runtime goes through, and whatever its engines, loader and store answer, every engine
  it has created other than its current one holds no database, policy, connection or sandbox and
  serves nothing; and the current one serves nothing but its own endpoint with its own token.\<close>

theorem one_engine:
  assumes "app_reachable envs a"
  shows "(\<forall>k < ap_created a. k \<noteq> ap_index a \<longrightarrow>
      (\<exists>en h. (k, (en, h)) \<in> set (ap_dropped a) \<and> \<not> en_db en \<and> world (envs k) h = idle_world)) \<and>
    w_serving (world (envs (ap_index a)) (snd (ap_world a))) \<in>
      {None, Some [AText (en_endpoint (fst (ap_world a))), AText (app_Token a)]}"
proof (intro conjI allI impI)
  note inv = app_reachable_inv [OF assms]
  fix k
  assume "k < ap_created a" "k \<noteq> ap_index a"
  then obtain en h where m: "(k, (en, h)) \<in> set (ap_dropped a)" using inv by (fastforce simp: app_inv_def)
  then have "let_go (envs k) (en, h)" using inv by (auto simp: app_inv_def)
  then have "\<not> en_db en \<and> world (envs k) h = idle_world" by (auto simp: let_go_def engine_inv_def)
  then show "\<exists>en h. (k, (en, h)) \<in> set (ap_dropped a) \<and> \<not> en_db en \<and> world (envs k) h = idle_world"
    using m by blast
next
  obtain en h where w: "ap_world a = (en, h)" by fastforce
  have "engine_inv (envs (ap_index a)) (en, h)" using app_reachable_inv [OF assms] w by (simp add: app_inv_def)
  then show "w_serving (world (envs (ap_index a)) (snd (ap_world a))) \<in>
      {None, Some [AText (en_endpoint (fst (ap_world a))), AText (app_Token a)]}"
    using w by (auto simp: engine_inv_def app_Token_def engine_Token_def idle_world_def Let_def split: if_splits)
qed

section \<open>The same address and token\<close>

definition address_of :: "options \<Rightarrow> int \<Rightarrow> string" where
  "address_of opts port = ''quack:'' @ JoinHostPort (listen_host opts) (itoa port)"

text \<open>What a start that succeeds leaves in the engine, by its options.\<close>

definition port_follows :: "env \<Rightarrow> options \<Rightarrow> int \<Rightarrow> bool" where
  "port_follows env opts port \<longleftrightarrow>
     (if op_ListenPort opts = 0 then \<exists>h host. port = int_reply (env h (FreePort host)) else port = op_ListenPort opts)"

definition token_follows :: "env \<Rightarrow> options \<Rightarrow> string \<Rightarrow> bool" where
  "token_follows env opts token \<longleftrightarrow>
     (if op_Token opts = '''' then \<exists>h. token = hex_encode (text_reply (env h (RandRead 32))) else token = op_Token opts)"

definition start_follows :: "env \<Rightarrow> options \<Rightarrow> (string res \<times> engine) \<times> hist \<Rightarrow> bool" where
  "start_follows env opts x \<longleftrightarrow> (\<forall>uri. fst (fst x) = Inr uri \<longrightarrow> (\<exists>port token.
     control (snd (fst x)) = (True, uri, token) \<and> en_sources (snd (fst x)) = [] \<and> uri = address_of opts port \<and>
     port_follows env opts port \<and> token_follows env opts token))"

lemma follows_call:
  "(\<And>e h. start_follows env opts (fail e h)) \<Longrightarrow> (\<And>h'. start_follows env opts (ok (env h c) h')) \<Longrightarrow>
   start_follows env opts (call_or env c h fail ok)"
  by (simp add: call_or_def Let_def split: option.split)

lemma follows_case:
  "(\<And>e h. start_follows env opts (fail e h)) \<Longrightarrow> (\<And>h. start_follows env opts (ok h)) \<Longrightarrow>
   start_follows env opts (case x of (Some e, h) \<Rightarrow> fail e h | (None, h) \<Rightarrow> ok h)"
  by (auto split: prod.split option.split)

lemma follows_error [simp]:
  "start_follows env opts ((Inl e, en), h)" "start_follows env opts (start_abort sandbox en e h)"
  by (simp_all add: start_follows_def start_abort_def)

lemma follows_if:
  "(b \<Longrightarrow> start_follows env opts x) \<Longrightarrow> (\<not> b \<Longrightarrow> start_follows env opts y) \<Longrightarrow>
   start_follows env opts (if b then x else y)"
  by simp

lemma start_listen_follows:
  assumes "port_follows env opts port" and "token_follows env opts token"
  shows "start_follows env opts (start_listen env opts sandbox en token port h)"
  unfolding start_listen_def Let_def
proof (intro follows_call follows_case)
  show "start_follows env opts ((Inr (''quack:'' @ JoinHostPort (listen_host opts) (itoa port)),
      started opts sandbox (''quack:'' @ JoinHostPort (listen_host opts) (itoa port)) token en), h)" for h
    using assms by (auto simp: start_follows_def started_def control_def address_of_def)
qed simp_all

lemma start_address_follows:
  assumes "token_follows env opts token"
  shows "start_follows env opts (start_address env opts sandbox en token h)"
proof -
  have free: "port_follows env opts (int_reply (env h (FreePort host)))" if "op_ListenPort opts = 0" for h host
    using that by (auto simp: port_follows_def)
  have given: "port_follows env opts (op_ListenPort opts)" if "op_ListenPort opts \<noteq> 0"
    using that by (simp add: port_follows_def)
  show ?thesis
    unfolding start_address_def Let_def
    by (intro follows_if follows_call follows_error start_listen_follows assms free given)
qed

lemma start_serving_follows: "start_follows env opts (start_serving env opts sandbox en h)"
proof -
  have random: "token_follows env opts (hex_encode (text_reply (env h (RandRead 32))))" if "op_Token opts = ''''" for h
    using that by (auto simp: token_follows_def)
  have given: "token_follows env opts (op_Token opts)" if "op_Token opts \<noteq> ''''"
    using that by (simp add: token_follows_def)
  show ?thesis
    unfolding start_serving_def Let_def
    by (intro follows_if follows_call follows_error start_address_follows random given)
qed

lemma engine_Start_follows: "start_follows env opts (engine_Start env opts en h)"
  unfolding engine_Start_def Let_def
  by (intro follows_if follows_call follows_case start_serving_follows follows_error)

lemma w_Start_follows:
  assumes "w_Start env opts w = (Inr uri, w')"
  shows "\<exists>port token. control (fst w') = (True, uri, token) \<and> en_sources (fst w') = [] \<and> uri = address_of opts port \<and>
     port_follows env opts port \<and> token_follows env opts token"
proof -
  obtain en h where w: "w = (en, h)" by fastforce
  have "start_follows env opts (engine_Start env opts en h)" by (rule engine_Start_follows)
  then show ?thesis using assms w by (auto simp: w_Start_def start_follows_def split: prod.splits)
qed

text \<open>The options name the address and the token of the running engine.\<close>

definition pinned_to :: "options \<Rightarrow> eworld \<Rightarrow> bool" where
  "pinned_to opts w \<longleftrightarrow> control (fst w) = (True, address_of opts (op_ListenPort opts), op_Token opts) \<and>
     op_ListenPort opts \<noteq> 0 \<and> op_Token opts \<noteq> ''''"

definition pinned :: "('l, 's) app \<Rightarrow> bool" where
  "pinned a \<longleftrightarrow> pinned_to (ap_options a) (ap_world a)"

lemma bring_up_pinned:
  assumes "bring_up env order sf rf m opts (l, s) = (Inr m', w, ls)" and "own_manager env m"
    and "\<forall>xs. mset (order xs) = mset xs" and "op_ListenPort opts \<noteq> 0" and "op_Token opts \<noteq> ''''"
  shows "pinned_to opts w"
proof -
  obtain r1 w1 where st: "w_Start env opts (engine_New, []) = (r1, w1)" by (metis prod.exhaust)
  then obtain uri where uri: "r1 = Inr uri" using assms(1) by (cases r1) (auto simp: bring_up_def)
  have i1: "engine_inv env w1" using w_Start_inv [OF engine_inv_New st] .
  obtain e m2 l2 s2 w2 where re: "fst (manager_Reload order m (l, s, w1)) = (e, m2, (l2, s2, w2))" by (metis prod_cases5)
  have "engine_at env (control (fst w1)) w2" using reload_keeps [OF re i1 [unfolded engine_at_iff] assms(2,3)] by simp
  moreover have "w = w2"
    using assms(1) st uri re by (cases e) (auto simp: bring_up_def split: prod.splits)
  moreover have "control (fst w1) = (True, address_of opts (op_ListenPort opts), op_Token opts)"
    using w_Start_follows [OF st [unfolded uri]] assms(4,5) by (auto simp: port_follows_def token_follows_def)
  ultimately show ?thesis using assms(4,5) by (simp add: pinned_to_def engine_at_def)
qed

lemma restore_pinned:
  fixes a :: "('l, 's) app"
  assumes "restore envs order d opts a (l, s) = (e, a', ls')" and "\<not> en_db (fst (ap_world a))"
    and "\<forall>xs. mset (order xs) = mset xs" and "op_ListenPort opts \<noteq> 0" and "op_Token opts \<noteq> ''''"
  shows "\<not> en_db (fst (ap_world a')) \<or> pinned_to opts (ap_world a') \<and> ap_options a' = opts"
proof -
  let ?env = "envs (ap_created a)"
  obtain m :: "('l, 's, eworld) manager" where m: "newManager ?env (documentLoader d) (ap_secrets a) = Inr m"
    by (simp add: newManager_ok)
  obtain r w ls1 where b: "bring_up ?env order (Wrap ''restore previous engine'') (Wrap ''restore previous sources'') m opts (l, s) =
      (r, w, ls1)" by (metis prod_cases3)
  have sec: "ap_secrets (created a) = ap_secrets a" by (simp add: created_def)
  show ?thesis
  proof (cases r)
    case (Inl x)
    then have "a' = drop_engine (ap_created a) w (created a)"
      using assms(1) m b by (simp add: restore_def sec)
    then show ?thesis using assms(2) by (simp add: drop_engine_def created_def)
  next
    case (Inr m')
    then have "ap_world a' = w" "ap_options a' = opts"
      using assms(1) m b by (auto simp: restore_def sec use_engine_def Let_def)
    then show ?thesis
      using bring_up_pinned [OF b [unfolded Inr] conjunct1 [OF newManager_own [OF m]] assms(3-5)] by simp
  qed
qed

lemma replace_engine_pinned:
  assumes "replace_engine envs order d opts pd po a (l, s) = (e, a', ls')" and "app_inv envs a"
    and "\<forall>xs. mset (order xs) = mset xs" and "op_ListenPort po \<noteq> 0" and "op_Token po \<noteq> ''''"
    and "opts = po\<lparr>op_AllowedPaths := paths\<rparr>"
  shows "\<not> en_db (fst (ap_world a')) \<or> (\<exists>paths'. ap_options a' = po\<lparr>op_AllowedPaths := paths'\<rparr> \<and>
     pinned_to (ap_options a') (ap_world a'))"
proof -
  have same_po: "\<exists>paths'. po = po\<lparr>op_AllowedPaths := paths'\<rparr>" by (rule exI [of _ "op_AllowedPaths po"]) simp
  obtain e1 w1 where sp: "w_Stop (envs (ap_index a)) (ap_world a) = (e1, w1)" by (metis prod.exhaust)
  have lg: "let_go (envs (ap_index a)) w1" using w_Stop_let_go [OF _ sp] assms(2) by (simp add: app_inv_def)
  let ?a = "a\<lparr>ap_world := w1\<rparr>"
  have off: "\<not> en_db (fst (ap_world ?a))" using lg by (simp add: let_go_def)
  show ?thesis
  proof (cases e1)
    case (Some x)
    obtain re a2 ls2 where rs: "restore envs order pd po ?a (l, s) = (re, a2, ls2)" by (metis prod_cases3)
    have "a' = a2" using assms(1) sp Some rs by (simp add: replace_engine_def)
    then show ?thesis using restore_pinned [OF rs off assms(3-5)] same_po by metis
  next
    case None
    let ?env = "envs (ap_created ?a)"
    obtain m where m: "newManager ?env (ap_loader ?a) (ap_secrets ?a) = Inr m" by (simp add: newManager_ok)
    obtain r w ls1 where b: "bring_up ?env order (Wrap ''restart engine for file-source allowlist'')
        (Wrap ''reattach sources after engine restart'') m opts (l, s) = (r, w, ls1)" by (metis prod_cases3)
    have same: "ap_secrets (created ?a) = ap_secrets a" "ap_loader (created ?a) = ap_loader a"
      "ap_created ?a = ap_created a" by (simp_all add: created_def)
    show ?thesis
    proof (cases r)
      case (Inl x)
      let ?d = "drop_engine (ap_created a) w (created ?a)"
      obtain l2 s2 where ls1: "ls1 = (l2, s2)" by fastforce
      obtain re a2 ls2 where rs: "restore envs order pd po ?d (l2, s2) = (re, a2, ls2)" by (metis prod_cases3)
      have "a' = a2" using assms(1) sp None m b Inl rs ls1 by (simp add: replace_engine_def same)
      moreover have "\<not> en_db (fst (ap_world ?d))" using off by (simp add: drop_engine_def created_def)
      ultimately show ?thesis using restore_pinned [OF rs _ assms(3-5)] same_po by metis
    next
      case (Inr m')
      then have "ap_world a' = w" "ap_options a' = opts"
        using assms(1) sp None m b by (auto simp: replace_engine_def same use_engine_def Let_def)
      moreover have "pinned_to opts w"
        by (rule bring_up_pinned [OF b [unfolded Inr] conjunct1 [OF newManager_own [OF m]] assms(3)])
          (use assms(4-6) in simp_all)
      ultimately show ?thesis using assms(6) by auto
    qed
  qed
qed

lemma address_paths [simp]: "address_of (opts\<lparr>op_AllowedPaths := p\<rparr>) port = address_of opts port"
  by (simp add: address_of_def listen_host_def)

text \<open>Whatever happens, a reload changes nothing of the options but the allowed paths.\<close>

lemma restore_options:
  "restore envs order d opts a ls = (e, a', ls') \<Longrightarrow> ap_options a' = opts \<or> ap_options a' = ap_options a"
  by (auto simp: restore_def Let_def use_engine_def drop_engine_def created_def split: sum.splits prod.splits)

lemma replace_engine_options:
  assumes "replace_engine envs order d opts pd po a ls = (e, a', ls')"
  shows "ap_options a' \<in> {opts, po, ap_options a}"
proof -
  have undone: "restore envs order pd po b l = (x, b', l') \<Longrightarrow> ap_options b = ap_options a \<Longrightarrow> ap_options b' \<in> {opts, po, ap_options a}"
    for b l x b' l' using restore_options by fastforce
  show ?thesis
    using assms by (auto simp: replace_engine_def Let_def use_engine_def drop_engine_def created_def
        split: sum.splits prod.splits option.splits dest!: undone)
qed

lemma probe_options: "probe envs order opts a ls = (e, a', ls') \<Longrightarrow> ap_options a' = ap_options a"
  by (auto simp: probe_def Let_def drop_engine_def created_def split: sum.splits prod.splits)

lemma Reload_options:
  assumes "app_Reload envs order a (l, s) = (e, a', ls')"
  shows "\<exists>paths. ap_options a' = (ap_options a)\<lparr>op_AllowedPaths := paths\<rparr>"
proof -
  have same: "\<exists>paths. ap_options a = (ap_options a)\<lparr>op_AllowedPaths := paths\<rparr>"
    by (rule exI [of _ "op_AllowedPaths (ap_options a)"]) simp
  obtain dr l1 where ld: "ap_loader a l = (dr, l1)" by fastforce
  show ?thesis
  proof (cases dr)
    case (Inl x)
    then show ?thesis using assms ld same by (auto simp: app_Reload_def)
  next
    case (Inr d)
    show ?thesis
    proof (cases "mergePaths [ap_basePaths a, filePaths d] = op_AllowedPaths (ap_options a)")
      case True
      then have "ap_options a' = ap_options a"
        using assms ld Inr by (auto simp: app_Reload_def split: prod.splits option.splits)
      then show ?thesis using same by simp
    next
      case False
      let ?opts = "(ap_options a)\<lparr>op_AllowedPaths := mergePaths [ap_basePaths a, filePaths d]\<rparr>"
      obtain pe a2 ls2 where p: "probe envs order ?opts a (l1, s) = (pe, a2, ls2)" by (metis prod_cases3)
      note po = probe_options [OF p]
      show ?thesis
      proof (cases pe)
        case None
        then have "replace_engine envs order d ?opts (Clone (ap_document a2)) (ap_options a) a2 ls2 = (e, a', ls')"
          using assms ld Inr False p po by (simp add: app_Reload_def rebuild_def)
        from replace_engine_options [OF this] show ?thesis using po same by auto
      next
        case (Some x)
        then show ?thesis using assms ld Inr False p po same by (auto simp: app_Reload_def rebuild_def)
      qed
    qed
  qed
qed

text \<open>The options name an address and a token, and the engine's own while it runs.\<close>

definition named :: "('l, 's) app \<Rightarrow> bool" where
  "named a \<longleftrightarrow> op_ListenPort (ap_options a) \<noteq> 0 \<and> op_Token (ap_options a) \<noteq> '''' \<and> (en_db (fst (ap_world a)) \<longrightarrow> pinned a)"

lemma Reload_named:
  assumes "app_Reload envs order a (l, s) = (e, a', ls')" and "app_inv envs a" and "\<forall>xs. mset (order xs) = mset xs"
    and "named a"
  shows "named a'"
proof -
  obtain dr l1 where ld: "ap_loader a l = (dr, l1)" by fastforce
  have pin: "op_ListenPort (ap_options a) \<noteq> 0" "op_Token (ap_options a) \<noteq> ''''" using assms(4) by (simp_all add: named_def)
  then have pin': "op_ListenPort (ap_options a') \<noteq> 0" "op_Token (ap_options a') \<noteq> ''''"
    using Reload_options [OF assms(1)] by auto
  have "pinned a'" if runs: "en_db (fst (ap_world a'))"
  proof (cases dr)
    case (Inl x)
    then show ?thesis using assms(1,4) ld runs by (auto simp: app_Reload_def named_def)
  next
    case (Inr d)
    let ?paths = "mergePaths [ap_basePaths a, filePaths d]"
    show ?thesis
    proof (cases "?paths = op_AllowedPaths (ap_options a)")
      case False
      let ?opts = "(ap_options a)\<lparr>op_AllowedPaths := ?paths\<rparr>"
      obtain pe a2 l2 s2 where p: "probe envs order ?opts a (l1, s) = (pe, a2, (l2, s2))" by (metis prod_cases4)
      note pi = probe_inv [OF p assms(2,3)]
      then have a2: "ap_world a2 = ap_world a" "ap_options a2 = ap_options a"
        by (auto simp: drop_engine_def created_def)
      show ?thesis
      proof (cases pe)
        case (Some x)
        then have "a' = a2" using assms(1) ld Inr False p by (simp add: app_Reload_def rebuild_def)
        then show ?thesis using assms(4) a2 runs by (simp add: pinned_def named_def)
      next
        case None
        then have r: "replace_engine envs order d ?opts (Clone (ap_document a2)) (ap_options a) a2 (l2, s2) = (e, a', ls')"
          using assms(1) ld Inr False p a2 by (simp add: app_Reload_def rebuild_def)
        from replace_engine_pinned [OF r conjunct1 [OF pi] assms(3) pin refl] show ?thesis
          using runs by (auto simp: pinned_def)
      qed
    next
      case True
      let ?env = "envs (ap_index a)"
      obtain re m2 l2 s2 w2 where r: "fst (manager_Reload order (ap_manager a) (l1, s, ap_world a)) = (re, m2, (l2, s2, w2))"
        by (metis prod_cases5)
      have i: "engine_inv ?env (ap_world a)" "own_manager ?env (ap_manager a)" using assms(2) by (simp_all add: app_inv_def)
      note k = reload_keeps [OF r i(1) [unfolded engine_at_iff] i(2) assms(3)]
      obtain e3 w3 where s3: "w_Reload ?env w2 = (e3, w3)" by (metis prod.exhaust)
      have k3: "engine_at ?env (control (fst (ap_world a))) w3" using w_Reload_inv [OF conjunct1 [OF k] s3] .
      have "(ap_world a' = w2 \<or> ap_world a' = w3) \<and> ap_options a' = ap_options a"
        using assms(1) ld Inr True r s3 by (cases re; cases e3) (auto simp: app_Reload_def)
      then have c: "control (fst (ap_world a')) = control (fst (ap_world a))" "ap_options a' = ap_options a"
        using k k3 by (auto simp: engine_at_def)
      then have "en_db (fst (ap_world a))" using runs by (simp add: control_def)
      then show ?thesis using assms(4) c by (simp add: named_def pinned_def pinned_to_def)
    qed
  qed
  then show ?thesis using pin' by (simp add: named_def)
qed

lemma pinned_named: "pinned a \<Longrightarrow> named a"
  by (simp add: named_def pinned_def pinned_to_def)

lemma Reload_pinned:
  assumes "app_Reload envs order a (l, s) = (e, a', ls')" and "app_inv envs a" and "\<forall>xs. mset (order xs) = mset xs"
    and "pinned a"
  shows "\<not> en_db (fst (ap_world a')) \<or> pinned a' \<and> en_endpoint (fst (ap_world a')) = en_endpoint (fst (ap_world a)) \<and>
     app_Token a' = app_Token a"
  using Reload_named [OF assms(1-3) pinned_named [OF assms(4)]] Reload_options [OF assms(1)] assms(4)
  by (auto simp: named_def pinned_def pinned_to_def control_def app_Token_def engine_Token_def)

text \<open>C24. A reload never moves a paired client: when the options name the running engine's address and
  token, as a start leaves them, then after any reload, whether it succeeds, fails or replaces the
  engine, the runtime either has no running engine or serves the same endpoint with the same token,
  and its options name them again.\<close>

theorem Reload_keeps_address:
  assumes "app_reachable envs a" and "pinned a" and "\<forall>xs. mset (order xs) = mset xs"
    and "app_Reload envs order a (l, s) = (e, a', ls')"
  shows "\<not> en_db (fst (ap_world a')) \<or> pinned a' \<and> en_endpoint (fst (ap_world a')) = en_endpoint (fst (ap_world a)) \<and>
     app_Token a' = app_Token a"
  by (rule Reload_pinned [OF assms(4) app_reachable_inv [OF assms(1)] assms(3,2)])

section \<open>The document is served\<close>

lemma attached_none: "en_sources (fst w) = [] \<Longrightarrow> e_attached w = Map.empty"
  by (simp add: e_attached_def fun_eq_iff)

lemma stage_unused_fresh: "stage_ids_unused d active \<Longrightarrow> stage_ids_unused d ([] :: eworld sources)"
  by (auto simp: stage_ids_unused_def)

text \<open>A fresh engine brought up with a loader of a document serves it.\<close>

lemma bring_up_serves:
  assumes b: "bring_up env order sf rf m opts (l, s) = (Inr m', w, ls)"
    and m: "newManager env loader store = Inr m" and ld: "loader l = (Inr d, l)"
    and perm: "\<forall>xs. mset (order xs) = mset xs"
    and d: "stage_ids_unused d ([] :: eworld sources)" "distinct (map cf_ID (sources_of d))"
  shows "reconciled (engine_adapters env) e_attached m' w \<and> dom (map_of (mg_active m')) = enabled_ids d"
proof -
  obtain r1 w1 where st: "w_Start env opts (engine_New, []) = (r1, w1)" by (metis prod.exhaust)
  then obtain uri where uri: "r1 = Inr uri" using b by (cases r1) (auto simp: bring_up_def)
  obtain e m2 l2 s2 w2 ig where re: "manager_Reload order m (l, s, w1) = ((e, m2, (l2, s2, w2)), ig)"
    by (metis prod_cases6 surj_pair)
  have ok: "e = None" "m' = m2" "w = w2"
    using b st uri re by (cases e; auto simp: bring_up_def split: prod.splits)+
  have m': "mg_factories m = engine_factories env" "mg_active m = []" "mg_loader m l = (Inr d, l)"
    using m ld by (auto simp: newManager_ok)
  have "e_attached w1 = Map.empty" using w_Start_follows [OF st [unfolded uri]] attached_none by blast
  then have "reconciled (engine_adapters env) e_attached m w1"
    by (simp add: reconciled_def m' good_sources_def names_of_def fun_eq_iff)
  then show ?thesis
    using adapters.Reload_outcome [OF re, of env] m' perm d ok engine_factories_good by auto
qed

text \<open>The loader's state is touched by its own call alone.\<close>

lemma manager_Reload_loads:
  assumes "mg_loader m l = (r, l1)" and "manager_Reload order m (l, s, w) = ((e, m', (l', s', w')), ig)"
  shows "l' = l1"
proof -
  obtain pr s2 w2 where p: "prepare m (l, s, w) = (pr, l1, s2, w2)"
  proof (cases r)
    case (Inl x)
    then show ?thesis using assms(1) that by (simp add: prepare_def)
  next
    case (Inr d)
    obtain pr s2 w2 where "prepare_all m (sources_of d) [] (s, w) = (pr, s2, w2)" by (metis prod_cases3)
    then show ?thesis using Inr assms(1) that by (simp add: prepare_def)
  qed
  show ?thesis using assms(2) by (cases pr) (auto simp: manager_Reload_def p split: prod.splits)
qed

lemma bring_up_loads:
  assumes "bring_up env order sf rf m opts (l, s) = (r, w, (l', s'))" and "mg_loader m l = (d, l)"
  shows "l' = l"
proof -
  obtain r1 w1 where st: "w_Start env opts (engine_New, []) = (r1, w1)" by (metis prod.exhaust)
  obtain e m2 l2 s2 w2 ig where re: "manager_Reload order m (l, s, w1) = ((e, m2, (l2, s2, w2)), ig)"
    by (metis prod_cases6 surj_pair)
  have "l2 = l" by (rule manager_Reload_loads [OF assms(2) re])
  then show ?thesis
    using assms(1) st re by (cases r1; cases e) (auto simp: bring_up_def split: prod.splits)
qed

text \<open>A restoration that returns nil serves the previous document under the previous options, and the
  manager reads the live loader again.\<close>

lemma restore_serves:
  fixes a :: "('l, 's) app"
  assumes "restore envs order d opts a (l, s) = (None, a', ls')" and "\<forall>xs. mset (order xs) = mset xs"
    and "stage_ids_unused d ([] :: eworld sources)" and "distinct (map cf_ID (sources_of d))"
  shows "reconciled (engine_adapters (envs (ap_index a'))) e_attached (ap_manager a') (ap_world a') \<and>
    dom (map_of (mg_active (ap_manager a'))) = enabled_ids d \<and> ap_options a' = opts \<and>
    ap_document a' = Clone d \<and> mg_loader (ap_manager a') = ap_loader a"
proof -
  let ?env = "envs (ap_created a)"
  obtain m :: "('l, 's, eworld) manager" where m: "newManager ?env (documentLoader d) (ap_secrets a) = Inr m"
    by (simp add: newManager_ok)
  obtain r w ls1 where b: "bring_up ?env order (Wrap ''restore previous engine'') (Wrap ''restore previous sources'') m opts (l, s) =
      (r, w, ls1)" by (metis prod_cases3)
  have sec: "ap_secrets (created a) = ap_secrets a" "ap_loader (created a) = ap_loader a" by (simp_all add: created_def)
  obtain m' where r: "r = Inr m'" using assms(1) m b by (cases r) (simp_all add: restore_def sec)
  then have a': "ap_index a' = ap_created a" "ap_world a' = w" "ap_manager a' = m'\<lparr>mg_loader := ap_loader a\<rparr>"
    "ap_options a' = opts" "ap_document a' = Clone d"
    using assms(1) m b by (auto simp: restore_def sec use_engine_def RebindLoader_def Let_def)
  have cl: "sources_of (Clone d) = sources_of d" "enabled_ids (Clone d) = enabled_ids d"
    by (simp_all add: Clone_def sources_of_def enabled_ids_def)
  have "reconciled (engine_adapters ?env) e_attached m' w \<and> dom (map_of (mg_active m')) = enabled_ids (Clone d)"
    by (rule bring_up_serves [OF b [unfolded r] m _ assms(2)])
      (use assms(3,4) cl in \<open>simp_all add: documentLoader_def stage_ids_unused_def\<close>)
  then show ?thesis using a' cl by (simp add: reconciled_def)
qed

lemma probe_loads:
  assumes "probe envs order opts a (l, s) = (e, a', (l', s'))" and ld: "ap_loader a l = (d, l)"
  shows "l' = l"
proof -
  obtain m where m: "newManager (envs (ap_created a)) (ap_loader a) (ap_secrets a) = Inr m" by (simp add: newManager_ok)
  then have ml: "mg_loader m l = (d, l)" using ld by (auto simp: newManager_ok)
  obtain r w l2 s2 where b: "bring_up (envs (ap_created a)) order (Wrap ''validate reloaded engine'') id m
      (opts\<lparr>op_ListenPort := 0, op_Token := ''''\<rparr>) (l, s) = (r, w, (l2, s2))" by (metis prod_cases4)
  have "l2 = l" by (rule bring_up_loads [OF b ml])
  moreover have "ap_loader (created a) = ap_loader a" "ap_secrets (created a) = ap_secrets a" by (simp_all add: created_def)
  ultimately show ?thesis
    using assms(1) m b by (cases r) (auto simp: probe_def Let_def split: prod.splits)
qed

lemma Reload_serves:
  assumes r: "app_Reload envs order a (l, s) = (None, a', ls')"
    and ld: "ap_loader a l = (Inr d, l)" and ml: "mg_loader (ap_manager a) = ap_loader a"
    and fs: "mg_factories (ap_manager a) = engine_factories (envs (ap_index a))"
    and rec: "reconciled (engine_adapters (envs (ap_index a))) e_attached (ap_manager a) (ap_world a)"
    and perm: "\<forall>xs. mset (order xs) = mset xs"
    and d: "stage_ids_unused d (mg_active (ap_manager a))" "distinct (map cf_ID (sources_of d))"
    and inv: "app_inv envs a"
  shows "reconciled (engine_adapters (envs (ap_index a'))) e_attached (ap_manager a') (ap_world a') \<and>
    dom (map_of (mg_active (ap_manager a'))) = enabled_ids d \<and> ap_document a' = Clone d \<and> ap_failures a' = [] \<and>
    op_AllowedPaths (ap_options a') = mergePaths [ap_basePaths a, filePaths d]"
proof -
  let ?paths = "mergePaths [ap_basePaths a, filePaths d]"
  show ?thesis
  proof (cases "?paths = op_AllowedPaths (ap_options a)")
    case True
    obtain re m2 l2 s2 w2 ig where m: "manager_Reload order (ap_manager a) (l, s, ap_world a) = ((re, m2, (l2, s2, w2)), ig)"
      by (metis prod_cases6 surj_pair)
    obtain e3 w3 where s3: "w_Reload (envs (ap_index a)) w2 = (e3, w3)" by (metis prod.exhaust)
    have ok: "re = None" "e3 = None"
      using r ld True m s3 by (cases re; cases e3; simp add: app_Reload_def)+
    then have a': "ap_index a' = ap_index a" "ap_world a' = w3" "ap_manager a' = m2" "ap_document a' = Clone d"
      "ap_failures a' = []" "ap_options a' = ap_options a"
      using r ld True m s3 by (auto simp: app_Reload_def)
    have "fst w3 = fst w2" using s3 by (cases w2) (auto simp: w_Reload_def split: prod.splits)
    then have att: "e_attached w3 = e_attached w2" by (simp add: e_attached_def fun_eq_iff)
    have "reconciled (engine_adapters (envs (ap_index a))) e_attached m2 w2 \<and> dom (map_of (mg_active m2)) = enabled_ids d"
      using adapters.Reload_outcome [OF m rec] ok ml ld fs perm d engine_factories_good by auto
    then show ?thesis using a' att True by (simp add: reconciled_def)
  next
    case False
    let ?opts = "(ap_options a)\<lparr>op_AllowedPaths := ?paths\<rparr>"
    obtain pe a2 l2 s2 where p: "probe envs order ?opts a (l, s) = (pe, a2, (l2, s2))" by (metis prod_cases4)
    obtain pw where a2: "a2 = drop_engine (ap_created a) pw (created a)" using probe_inv [OF p inv perm] by blast
    have "l2 = l" by (rule probe_loads [OF p ld])
    have pe: "pe = None" using r ld False p by (cases pe) (simp_all add: app_Reload_def rebuild_def)
    then have re: "replace_engine envs order d ?opts (Clone (ap_document a2)) (ap_options a2) a2 (l2, s2) = (None, a', ls')"
      using r ld False p by (simp add: app_Reload_def rebuild_def)
    obtain e1 w1 where sp: "w_Stop (envs (ap_index a2)) (ap_world a2) = (e1, w1)" by (metis prod.exhaust)
    have join: "(errors_join [Some x, y] = None) = False" for x y by (simp add: errors_join_def)
    have e1: "e1 = None" using re sp by (cases e1) (auto simp: replace_engine_def join split: prod.splits)
    let ?a = "a2\<lparr>ap_world := w1\<rparr>"
    have same: "ap_created a2 = Suc (ap_created a)" "ap_loader (created ?a) = ap_loader a" "ap_secrets (created ?a) = ap_secrets a"
      by (simp_all add: a2 drop_engine_def created_def)
    let ?env = "envs (Suc (ap_created a))"
    obtain m where m: "newManager ?env (ap_loader a) (ap_secrets a) = Inr m" by (simp add: newManager_ok)
    obtain r2 w ls2 where b: "bring_up ?env order (Wrap ''restart engine for file-source allowlist'')
        (Wrap ''reattach sources after engine restart'') m ?opts (l2, s2) = (r2, w, ls2)" by (metis prod_cases3)
    obtain m' where r2: "r2 = Inr m'"
      using re sp e1 m b by (cases r2) (auto simp: replace_engine_def same join Let_def split: prod.splits)
    then have a': "ap_index a' = Suc (ap_created a)" "ap_world a' = w" "ap_manager a' = m'" "ap_document a' = Clone d"
      "ap_failures a' = []" "ap_options a' = ?opts"
      using re sp e1 m b by (auto simp: replace_engine_def same use_engine_def Let_def)
    have "reconciled (engine_adapters ?env) e_attached m' w \<and> dom (map_of (mg_active m')) = enabled_ids d"
      by (rule bring_up_serves [OF b [unfolded r2] m _ perm stage_unused_fresh [OF d(1)] d(2)]) (simp add: ld \<open>l2 = l\<close>)
    then show ?thesis using a' by simp
  qed
qed

section \<open>A start pins its address\<close>

lemma split_last_append: "c \<notin> set b \<Longrightarrow> split_last c (a @ c # b) = Some (a, b)"
proof -
  assume "c \<notin> set b"
  then have "takeWhile (\<lambda>x. x \<noteq> c) (rev b @ c # rev a) = rev b" by (subst takeWhile_append2) auto
  then show ?thesis by (simp add: split_last_def)
qed

lemma takeWhile_bracket:
  "CHR '']'' \<notin> set host \<Longrightarrow> takeWhile (\<lambda>x. x \<noteq> CHR '']'') (host @ CHR '']'' # r) = host \<and>
    dropWhile (\<lambda>x. x \<noteq> CHR '']'') (host @ CHR '']'' # r) = CHR '']'' # r"
  by (induction host) auto

definition plain_host :: "string \<Rightarrow> bool" where
  "plain_host host \<longleftrightarrow> CHR ''['' \<notin> set host \<and> CHR '']'' \<notin> set host"

lemma SplitHostPort_Join:
  assumes "plain_host host" and "list_all is_digit_byte port"
  shows "SplitHostPort (JoinHostPort host port) = Inr (host, port)"
proof -
  have port: "CHR '':'' \<notin> set port" "CHR ''['' \<notin> set port" "CHR '']'' \<notin> set port"
    using assms(2) by (auto simp: list_all_iff is_digit_byte_def byte_def)
  have host: "CHR ''['' \<notin> set host" "CHR '']'' \<notin> set host" using assms(1) by (simp_all add: plain_host_def)
  show ?thesis
  proof (cases "CHR '':'' \<in> set host")
    case True
    have "JoinHostPort host port = (''['' @ host @ '']'') @ CHR '':'' # port"
      using True by (simp add: JoinHostPort_def)
    then have "split_last CHR '':'' (JoinHostPort host port) = Some (''['' @ host @ '']'', port)"
      by (simp only: split_last_append [OF port(1)])
    moreover have "tl (JoinHostPort host port) = host @ CHR '']'' # CHR '':'' # port" "has_prefix ''['' (JoinHostPort host port)"
      using True by (simp_all add: JoinHostPort_def)
    ultimately show ?thesis
      using host port takeWhile_bracket [OF host(2), of "CHR '':'' # port"] by (simp add: SplitHostPort_def)
  next
    case False
    have "JoinHostPort host port = host @ CHR '':'' # port"
      using False by (simp add: JoinHostPort_def)
    moreover have "\<not> has_prefix ''['' (host @ CHR '':'' # port)" using host by (cases host) auto
    ultimately show ?thesis
      using False host port split_last_append [OF port(1), of host] by (simp add: SplitHostPort_def)
  qed
qed

lemma Atoi_itoa: "0 \<le> p \<Longrightarrow> p < 2 ^ 63 \<Longrightarrow> Atoi (itoa p) = Some p"
proof -
  assume p: "0 \<le> p" "p < 2 ^ 63"
  have d: "list_all is_digit_byte (decimal (nat p))" "decimal (nat p) \<noteq> []" using decimal_digits by auto
  then have "\<not> has_prefix ''-'' (decimal (nat p))" "\<not> has_prefix ''+'' (decimal (nat p))"
    by (cases "decimal (nat p)"; auto simp: is_digit_byte_def byte_def)+
  with d p show ?thesis by (simp add: Atoi_def itoa_def decimal_value_decimal)
qed

lemma endpointAddress_of:
  assumes "plain_host (listen_host opts)" and "0 \<le> p" and "p < 2 ^ 63"
  shows "endpointAddress (address_of opts p) = Some (listen_host opts, p)"
proof -
  have "list_all is_digit_byte (itoa p)" using assms(2) decimal_digits by (simp add: itoa_def)
  note split = SplitHostPort_Join [OF assms(1) this]
  have "trim_prefix ''quack:'' (address_of opts p) = JoinHostPort (listen_host opts) (itoa p)"
    unfolding address_of_def by (rule trim_prefix_append)
  then show ?thesis using split Atoi_itoa [OF assms(2,3)] by (simp add: endpointAddress_def)
qed

text \<open>What the operating system and the random source promise: a free port is a port, and 32 random bytes
  are not empty.\<close>

definition ports_and_tokens :: "env \<Rightarrow> bool" where
  "ports_and_tokens env \<longleftrightarrow> (\<forall>h host. 0 < int_reply (env h (FreePort host)) \<and> int_reply (env h (FreePort host)) < 65536) \<and>
     (\<forall>h. text_reply (env h (RandRead 32)) \<noteq> '''')"

lemma listen_host_idem [simp]: "listen_host (opts\<lparr>op_ListenHost := listen_host opts, op_ListenPort := p\<rparr>) = listen_host opts"
  by (simp add: listen_host_def or_default_def)

lemma w_Start_pin:
  assumes "w_Start env opts w = (Inr uri, w')" and "ports_and_tokens env" and "plain_host (listen_host opts)"
    and "0 \<le> op_ListenPort opts" and "op_ListenPort opts < 65536"
  obtains port token where "control (fst w') = (True, address_of opts port, token)" and "port \<noteq> 0" and "token \<noteq> ''''"
    and "uri = address_of opts port" and "engine_Token (fst w') = token"
    and "pin_options uri (engine_Token (fst w')) opts =
      opts\<lparr>op_ListenHost := listen_host opts, op_ListenPort := port, op_Token := token\<rparr>"
proof -
  obtain port token where f: "control (fst w') = (True, uri, token)" "uri = address_of opts port"
    "port_follows env opts port" "token_follows env opts token"
    using w_Start_follows [OF assms(1)] by blast
  have port: "0 < port" "port < 65536"
    using f(3) assms(2,4,5) by (auto simp: port_follows_def ports_and_tokens_def split: if_splits)
  have token: "token \<noteq> ''''"
    using f(4) assms(2) by (auto simp: token_follows_def ports_and_tokens_def hex_encode_def split: if_splits)
  have "endpointAddress uri = Some (listen_host opts, port)"
    using endpointAddress_of [of opts port] assms(3) port f(2) by simp
  moreover have "engine_Token (fst w') = token" using f(1) by (simp add: control_def engine_Token_def)
  ultimately show ?thesis using that f port token by (simp add: pin_options_def)
qed

lemma Start_pins:
  assumes "app_Start envs opts a (l, s) = (Inr endpoint, a', ls')" and "app_inv envs a"
    and "ports_and_tokens (envs (ap_index a))" and "plain_host (listen_host opts)"
    and "0 \<le> op_ListenPort opts" and "op_ListenPort opts < 65536"
  shows "pinned a' \<and> endpoint = en_endpoint (fst (ap_world a'))"
proof -
  let ?env = "envs (ap_index a)"
  obtain dr l1 where ld: "ap_loader a l = (dr, l1)" by fastforce
  then obtain d where d: "dr = Inr d" using assms(1) by (cases dr) (simp_all add: app_Start_def)
  let ?base = "mergePaths [op_AllowedPaths opts]"
  let ?opts = "opts\<lparr>op_AllowedPaths := mergePaths [?base, filePaths d]\<rparr>"
  obtain sr w1 where st: "w_Start ?env ?opts (ap_world a) = (sr, w1)" by (metis prod.exhaust)
  then obtain uri where sr: "sr = Inr uri" using assms(1) ld d by (cases sr) (auto simp: app_Start_def Let_def)
  have i: "engine_inv ?env (ap_world a)" "own_manager ?env (ap_manager a)" using assms(2) by (simp_all add: app_inv_def)
  have i1: "engine_inv ?env w1" using w_Start_inv [OF i(1) st] .
  obtain br m2 l2 s2 w2 where b: "Bootstrap (ap_manager a) (l1, s, w1) = (br, m2, (l2, s2, w2))" by (metis prod_cases5)
  obtain fs where br: "br = Inr fs"
    using assms(1) ld d st sr b by (cases br) (auto simp: app_Start_def Let_def split: prod.splits)
  have a': "endpoint = uri" "ap_world a' = w2" "ap_options a' = pin_options uri (engine_Token (fst w1)) ?opts"
    using assms(1) ld d st sr b br by (auto simp: app_Start_def Let_def)
  have "engine_at ?env (control (fst w1)) w2"
    using engine_world.keeps_Bootstrap [OF b i1 [unfolded engine_at_iff]] i(2) engine_factories_good
    by (auto simp: own_manager_def)
  then have c: "control (fst w2) = control (fst w1)" by (simp add: engine_at_def)
  have lh: "listen_host ?opts = listen_host opts" by (simp add: listen_host_def)
  obtain port token where f: "control (fst w1) = (True, address_of ?opts port, token)" "port \<noteq> 0" "token \<noteq> ''''"
    "uri = address_of ?opts port" "pin_options uri (engine_Token (fst w1)) ?opts =
      ?opts\<lparr>op_ListenHost := listen_host ?opts, op_ListenPort := port, op_Token := token\<rparr>"
    using w_Start_pin [OF st [unfolded sr] assms(3)] assms(4-6) by (simp add: lh) metis
  have o: "ap_options a' = ?opts\<lparr>op_ListenHost := listen_host ?opts, op_ListenPort := port, op_Token := token\<rparr>"
    using a'(3) f(5) by simp
  have "address_of (ap_options a') port = address_of ?opts port"
    unfolding o by (simp add: address_of_def listen_host_def or_default_def)
  moreover have "op_ListenPort (ap_options a') = port" "op_Token (ap_options a') = token" unfolding o by simp_all
  ultimately have "pinned_to (ap_options a') w2" using c f(1-3) by (simp add: pinned_to_def)
  moreover have "en_endpoint (fst w2) = uri" using c f(1,4) by (simp add: control_def)
  ultimately show ?thesis using a'(1,2) by (simp add: pinned_def)
qed

text \<open>C25. A reload that succeeds serves the document: the manager's sources are exactly the enabled
  sources of the document, each attached and ready under its name and nothing else, whether the
  engine was kept or replaced; the recorded document and the allowed paths are the document's, and no
  failure of an earlier start is reported any more.  The loader's answer does not change its own
  state, since a replacement reads the document three times.\<close>

theorem Reload_serves_document:
  assumes "app_reachable envs a" and "app_Reload envs order a (l, s) = (None, a', ls')"
    and "ap_loader a l = (Inr d, l)" and "mg_loader (ap_manager a) = ap_loader a"
    and "reconciled (engine_adapters (envs (ap_index a))) e_attached (ap_manager a) (ap_world a)"
    and "\<forall>xs. mset (order xs) = mset xs"
    and "stage_ids_unused d (mg_active (ap_manager a))" and "distinct (map cf_ID (sources_of d))"
  shows "reconciled (engine_adapters (envs (ap_index a'))) e_attached (ap_manager a') (ap_world a') \<and>
    dom (map_of (mg_active (ap_manager a'))) = enabled_ids d \<and> ap_document a' = Clone d \<and> ap_failures a' = [] \<and>
    op_AllowedPaths (ap_options a') = mergePaths [ap_basePaths a, filePaths d]"
proof -
  have inv: "app_inv envs a" by (rule app_reachable_inv [OF assms(1)])
  then have "mg_factories (ap_manager a) = engine_factories (envs (ap_index a))"
    by (simp add: app_inv_def own_manager_def)
  then show ?thesis using Reload_serves [OF assms(2-4) _ assms(5-8) inv] by simp
qed

section \<open>A running example\<close>

text \<open>The configuration has no source at first, and a database file once its state says so.\<close>

definition demo_envs :: "nat \<Rightarrow> env" where "demo_envs k = demo_env"

definition demo_loader :: "bool loader" where
  "demo_loader l = (Inr (demo_document (if l then [demo_file_source] else [])), l)"

definition demo_app :: "(bool, memory \<times> heap \<times> nat set) app" where
  "demo_app = \<lparr>ap_created = 1, ap_index = 0, ap_world = (engine_New, []),
     ap_manager = \<lparr>mg_loader = demo_loader, mg_secrets = memory_ops, mg_factories = engine_factories demo_env, mg_active = []\<rparr>,
     ap_failures = [], ap_loader = demo_loader, ap_secrets = memory_ops, ap_options = zero_options,
     ap_basePaths = [], ap_document = \<lparr>doc_Version = 0, doc_Sources = None\<rparr>, ap_dropped = []\<rparr>"

lemma demo_app_reachable: "app_reachable demo_envs demo_app"
  by (rule ar_New [of demo_envs demo_loader memory_ops])
    (simp add: app_New_def newManager_ok demo_app_def demo_envs_def)

lemma demo_file_path: "file_path demo_file_source = Inr ''/shop.db''"
  by code_simp

lemma demo_paths: "filePaths (demo_document [demo_file_source]) = [''/shop.db'', ''/shop.db.wal'']"
proof -
  have "cf_Type demo_file_source = ''duckdb''" by (simp add: demo_file_source_def)
  then show ?thesis by (simp add: filePaths_def demo_manager_simps paths_of_def demo_file_path)
qed

lemma mergePaths_nonempty: "p \<in> set (concat groups) \<Longrightarrow> p \<noteq> '''' \<Longrightarrow> mergePaths groups \<noteq> []"
proof -
  assume "p \<in> set (concat groups)" and "p \<noteq> ''''"
  then have "p \<in> set (mergePaths groups)" by (simp add: mergePaths_def)
  then show ?thesis by (cases "mergePaths groups") simp_all
qed

text \<open>The demonstration engine starts whatever the paths, the port and the token are.\<close>

lemma demo_start:
  assumes "is_loopback_host (listen_host opts)" and "op_ExtensionDir opts = ''/ext''" and "op_Threads opts = 0"
    and "op_MemoryLimit opts = ''''" and "op_TempLimit opts = ''''"
  shows "\<exists>uri w. w_Start demo_env opts (engine_New, []) = (Inr uri, w)"
proof -
  have serving: "\<exists>uri en' h'. start_serving demo_env opts s en h = ((Inr uri, en'), h')" for s en h
    using assms(1) by (simp add: start_serving_def start_address_def start_listen_def Let_def
        installMetadataRelation_def lockConfiguration_def started_def)
  obtain h1 where load: "load_all demo_env ''/ext'' [''httpfs'', ''quack''] ([OpenDB] @ [Ping]) = (None, h1)"
    using demo_load [of "''/ext''" "[''httpfs'', ''quack'']"] by (metis prod.collapse)
  obtain h2 where verify: "verifyVersionPair demo_env h1 = (None, h2)"
    using demo_verify [of h1] by (metis prod.collapse)
  have conf: "configure demo_env opts s h = (None, h @ map (\<lambda>(a, s). Exec s [])
      (map (Pair lock_action) (configure_statements opts s)))" for s h
    using assms by (simp add: configure_def thread_count_def)
  obtain s en h where "engine_Start demo_env opts engine_New [] = start_serving demo_env opts s en h"
    using load assms(2) by (simp add: engine_Start_def engine_New_def verify conf Let_def del: load_all.simps)
  then show ?thesis using serving [of s en h] by (auto simp: w_Start_def)
qed

lemma demo_file_prepares:
  assumes "mg_factories m = engine_factories demo_env"
  shows "prepareOne m demo_file_source (s, (en, h)) = (Inr (demo_file_managed demo_env), s, (en, h @ [Stat ''/shop.db'']))"
proof -
  have "map_of (mg_factories m) (cf_Type demo_file_source) = Some (FileFactory demo_env ''duckdb'')"
    by (simp add: assms engine_factories_def demo_file_source_def)
  moreover have "fa_Build (FileFactory demo_env ''duckdb'') demo_file_source k = Inr (demo_file_adapter demo_env)" for k
    by (simp add: FileFactory_def demo_file_decodes demo_file_adapter_def)
  moreover have "get_credential m demo_file_source s = (Inr [], s)"
    by (simp add: get_credential_def demo_file_source_def)
  moreover have "demo_env h (Stat ''/shop.db'') = RRegular True" for h by (simp add: demo_env_def)
  ultimately show ?thesis
    by (simp add: prepareOne_def demo_file_adapter_def filedb_adapter_def demo_file_valid demo_file_managed_def)
qed

lemma demo_attaches:
  assumes "en_db en"
  shows "\<exists>w'. filedb_Attach demo_env ''duckdb'' ''/shop.db'' (definition_of demo_file_source) (en, h) = (None, w')"
proof -
  have ids: "validIdentifier ''shop''" "validIdentifier ''duckdb''"
    by (simp_all add: validIdentifier_def is_lower_byte_def byte_def)
  have "demo_env h (Stat ''/shop.db'') = RRegular True" for h by (simp add: demo_env_def)
  then show ?thesis
    by (simp add: filedb_Attach_def demo_file_valid e_Attach_def engine_Attach_def filedb_attachment_def demo_file_fields
        ids assms ensureConnectorExtension_def connector_extension_def attach_catalog_def registerAttachedObjectTypes_def
        recordSource_def Let_def)
qed

lemma started_runs: "w_Start env opts (engine_New, []) = (Inr uri, w) \<Longrightarrow> en_db (fst w)"
  by (drule w_Start_follows) (auto simp: control_def)

lemma demo_brings_up:
  assumes "\<exists>uri w. w_Start demo_env opts (engine_New, []) = (Inr uri, w)"
    and "newManager demo_env demo_loader memory_ops = Inr m"
  shows "\<exists>m' w. bring_up demo_env id sf rf m opts (True, s) = (Inr m', w, (True, s))"
proof -
  obtain uri en h where st: "w_Start demo_env opts (engine_New, []) = (Inr uri, (en, h))" using assms(1) by auto
  then have "en_db en" using started_runs by fastforce
  then obtain w' where a: "filedb_Attach demo_env ''duckdb'' ''/shop.db'' (definition_of demo_file_source)
      (en, h @ [Stat ''/shop.db'']) = (None, w')" using demo_attaches by blast
  have m: "mg_factories m = engine_factories demo_env" "mg_active m = []"
    "mg_loader m True = (Inr (demo_document [demo_file_source]), True)"
    using assms(2) by (auto simp: newManager_ok demo_loader_def)
  have "\<exists>m'. manager_Reload id m (True, s, (en, h)) = ((None, m', (True, s, w')), [])"
    using a by (simp add: manager_Reload_def prepare_def m demo_manager_simps demo_file_prepares apply_prepared_def
        sorted_keys_def keys_def apply_one_def demo_file_managed_def demo_file_adapter_def filedb_adapter_def)
  then show ?thesis using st by (auto simp: bring_up_def)
qed

lemma demo_stops: "\<exists>w'. w_Stop demo_env w = (None, w') \<and> \<not> en_db (fst w')"
proof -
  obtain en h where w: "w = (en, h)" by fastforce
  have close: "\<exists>h'. close_handles demo_env hs None h = (None, h')" for hs h
    by (induction hs arbitrary: h) (auto simp: call_error_def errors_join_def)
  have call: "call_error demo_env c h = (None, h @ [c])" for c h by (simp add: call_error_def)
  show ?thesis
  proof (cases "en_db en")
    case True
    obtain h' where "close_handles demo_env (en_odbcHandles en) None (h @ [stop_call (en_endpoint en), ClosePolicy]) = (None, h')"
      using close by blast
    then show ?thesis using True w by (simp add: w_Stop_def engine_Stop_def Let_def call errors_join_def)
  qed (simp add: w_Stop_def engine_Stop_def w)
qed

definition demo_running :: "(bool, memory \<times> heap \<times> nat set) app" where
  "demo_running = fst (snd (app_Start demo_envs demo_options demo_app (False, empty_store)))"

lemma demo_running_start:
  obtains uri w where "app_Start demo_envs demo_options demo_app (False, empty_store) =
      (Inr uri, demo_running, (False, empty_store))"
    and "demo_running = demo_app\<lparr>ap_world := w, ap_document := demo_document [],
      ap_options := pin_options uri (engine_Token (fst w)) demo_options\<rparr>"
    and "w_Start demo_env demo_options (engine_New, []) = (Inr uri, w)"
proof -
  have "op_ExtensionDir demo_options = ''/ext''" "op_Threads demo_options = 0"
    "op_MemoryLimit demo_options = ''''" "op_TempLimit demo_options = ''''" by (simp_all add: demo_options_def)
  then obtain uri w where st: "w_Start demo_env demo_options (engine_New, []) = (Inr uri, w)"
    using demo_start [OF demo_loopback] by blast
  have opts: "demo_options\<lparr>op_AllowedPaths := mergePaths [mergePaths [op_AllowedPaths demo_options], filePaths (demo_document [])]\<rparr> =
      demo_options"
    by (simp add: demo_options_def mergePaths_def filePaths_def demo_manager_simps)
  have base: "mergePaths [op_AllowedPaths demo_options] = []" by (simp add: demo_options_def mergePaths_def)
  have b: "Bootstrap (ap_manager demo_app) (False, empty_store, w) = (Inr [], ap_manager demo_app, (False, empty_store, w))"
    by (simp add: Bootstrap_def demo_app_def demo_loader_def demo_manager_simps)
  have "Clone (demo_document []) = demo_document []" by (simp add: Clone_def demo_document_def sources_of_def)
  then have "app_Start demo_envs demo_options demo_app (False, empty_store) =
      (Inr uri, demo_app\<lparr>ap_world := w, ap_document := demo_document [],
      ap_options := pin_options uri (engine_Token (fst w)) demo_options\<rparr>, (False, empty_store))"
    using st b opts base by (simp add: app_Start_def demo_app_def demo_loader_def demo_envs_def Let_def)
  then show ?thesis using that st by (simp add: demo_running_def)
qed

lemma demo_ports: "ports_and_tokens demo_env"
  by (simp add: ports_and_tokens_def demo_env_def int_reply_def text_reply_def)

lemma demo_plain_host: "plain_host (listen_host demo_options)" "0 \<le> op_ListenPort demo_options" "op_ListenPort demo_options < 65536"
  by (simp_all add: demo_options_def listen_host_def or_default_def plain_host_def)

lemma demo_running_reachable: "app_reachable demo_envs demo_running"
  by (rule demo_running_start) (rule ar_step [OF demo_app_reachable as_Start])

lemma demo_running_pinned: "pinned demo_running"
proof (rule demo_running_start)
  fix uri assume "app_Start demo_envs demo_options demo_app (False, empty_store) = (Inr uri, demo_running, (False, empty_store))"
  from Start_pins [OF this app_reachable_inv [OF demo_app_reachable]] show ?thesis
    using demo_ports demo_plain_host by (simp add: demo_envs_def)
qed

lemma demo_running_fields: "ap_created demo_running = 1" "ap_index demo_running = 0" "ap_loader demo_running = demo_loader"
  "ap_secrets demo_running = memory_ops" "ap_basePaths demo_running = []" "ap_manager demo_running = ap_manager demo_app"
  "en_db (fst (ap_world demo_running))" "en_sources (fst (ap_world demo_running)) = []"
  "\<exists>port token. ap_options demo_running = demo_options\<lparr>op_ListenHost := listen_host demo_options, op_ListenPort := port, op_Token := token\<rparr>"
proof -
  obtain uri w where d: "demo_running = demo_app\<lparr>ap_world := w, ap_document := demo_document [],
      ap_options := pin_options uri (engine_Token (fst w)) demo_options\<rparr>"
    and st: "w_Start demo_env demo_options (engine_New, []) = (Inr uri, w)" by (rule demo_running_start)
  show "ap_created demo_running = 1" "ap_index demo_running = 0" "ap_loader demo_running = demo_loader"
    "ap_secrets demo_running = memory_ops" "ap_basePaths demo_running = []" "ap_manager demo_running = ap_manager demo_app"
    by (simp_all add: d demo_app_def)
  show "en_db (fst (ap_world demo_running))" "en_sources (fst (ap_world demo_running)) = []"
    using w_Start_follows [OF st] by (auto simp: d control_def)
  show "\<exists>port token. ap_options demo_running =
      demo_options\<lparr>op_ListenHost := listen_host demo_options, op_ListenPort := port, op_Token := token\<rparr>"
    by (rule w_Start_pin [OF st demo_ports demo_plain_host]) (auto simp: d)
qed

text \<open>Once the document names a database file the reload replaces the engine: one engine probes the
  document and another serves it.\<close>

lemma demo_replaces:
  "\<exists>a'. app_Reload demo_envs id demo_running (True, empty_store) = (None, a', (True, empty_store)) \<and>
     ap_index a' = 2 \<and> ap_created a' = 3 \<and> en_db (fst (ap_world a'))"
proof -
  let ?d = "demo_document [demo_file_source]"
  let ?paths = "mergePaths [ap_basePaths demo_running, filePaths ?d]"
  let ?opts = "(ap_options demo_running)\<lparr>op_AllowedPaths := ?paths\<rparr>"
  let ?m = "ap_manager demo_app"
  obtain port token where o: "ap_options demo_running =
      demo_options\<lparr>op_ListenHost := listen_host demo_options, op_ListenPort := port, op_Token := token\<rparr>"
    using demo_running_fields(9) by blast
  have paths: "?paths \<noteq> op_AllowedPaths (ap_options demo_running)"
    using mergePaths_nonempty [of "''/shop.db''"] by (simp add: o demo_options_def demo_paths)
  have m: "newManager demo_env demo_loader memory_ops = Inr ?m" by (simp add: newManager_ok demo_app_def)
  have start: "\<exists>uri w. w_Start demo_env (?opts\<lparr>op_ListenPort := p, op_Token := t\<rparr>) (engine_New, []) = (Inr uri, w)" for p t
    by (rule demo_start) (simp_all add: o listen_host_def or_default_def demo_options_def
        demo_loopback [unfolded demo_options_def listen_host_def or_default_def, simplified])
  have up: "\<exists>m' w. bring_up demo_env id sf rf ?m (?opts\<lparr>op_ListenPort := p, op_Token := t\<rparr>) (True, empty_store) =
      (Inr m', w, (True, empty_store))" for sf rf p t by (rule demo_brings_up [OF start m])
  have pt: "port \<noteq> 0" "token \<noteq> ''''"
    using demo_running_pinned by (simp_all add: pinned_def pinned_to_def o)
  have opts: "?opts\<lparr>op_ListenPort := port, op_Token := token\<rparr> = ?opts" by (simp add: o)
  obtain m1 w1 where p1: "bring_up demo_env id (Wrap ''validate reloaded engine'') id ?m
      (?opts\<lparr>op_ListenPort := 0, op_Token := ''''\<rparr>) (True, empty_store) = (Inr m1, w1, (True, empty_store))"
    using up by blast
  obtain m2 w2 where p2: "bring_up demo_env id (Wrap ''restart engine for file-source allowlist'')
      (Wrap ''reattach sources after engine restart'') ?m ?opts (True, empty_store) = (Inr m2, w2, (True, empty_store))"
    using up [of _ _ token port] unfolding opts by blast
  have "pinned_to ?opts w2"
    by (rule bring_up_pinned [OF p2]) (use newManager_own [OF m] pt in \<open>simp_all add: o\<close>)
  then have runs: "en_db (fst w2)" by (simp add: pinned_to_def control_def)
  obtain w3 where s1: "w_Stop demo_env w1 = (None, w3)" using demo_stops by blast
  obtain w4 where s2: "w_Stop demo_env (ap_world demo_running) = (None, w4)" using demo_stops by blast
  have ld: "ap_loader demo_running True = (Inr ?d, True)" by (simp add: demo_running_fields demo_loader_def)
  let ?a = "drop_engine 1 w3 (created demo_running)"
  have pr: "probe demo_envs id ?opts demo_running (True, empty_store) = (None, ?a, (True, empty_store))"
    using m p1 s1 by (simp add: probe_def Let_def demo_envs_def demo_running_fields created_def)
  have same: "ap_world ?a = ap_world demo_running" "ap_index ?a = 0" "ap_created ?a = 2" "ap_loader ?a = demo_loader"
    "ap_secrets ?a = memory_ops" by (simp_all add: drop_engine_def created_def demo_running_fields)
  have "\<exists>a'. replace_engine demo_envs id ?d ?opts pd po ?a (True, empty_store) = (None, a', (True, empty_store)) \<and>
      ap_index a' = 2 \<and> ap_created a' = 3 \<and> en_db (fst (ap_world a'))" for pd po
    using m p2 s2 same runs by (simp add: replace_engine_def demo_envs_def created_def use_engine_def drop_engine_def Let_def)
  then show ?thesis using paths ld pr by (simp add: app_Reload_def rebuild_def)
qed

theorem one_engine_witness:
  "\<exists>a'. app_Reload demo_envs id demo_running (True, empty_store) = (None, a', (True, empty_store)) \<and>
     ap_index a' = 2 \<and> ap_created a' = 3 \<and>
     (\<exists>en h. (0, (en, h)) \<in> set (ap_dropped a') \<and> \<not> en_db en \<and> world (demo_envs 0) h = idle_world) \<and>
     (\<exists>en h. (1, (en, h)) \<in> set (ap_dropped a') \<and> \<not> en_db en \<and> world (demo_envs 1) h = idle_world)"
proof -
  obtain a' where r: "app_Reload demo_envs id demo_running (True, empty_store) = (None, a', (True, empty_store))"
    and n: "ap_index a' = 2" "ap_created a' = 3" using demo_replaces by blast
  have "app_step demo_envs demo_running a'" by (rule as_Reload [OF _ r]) simp
  then have "app_reachable demo_envs a'" by (rule ar_step [OF demo_running_reachable])
  from one_engine [OF this] r n show ?thesis by (intro exI [of _ a']) simp
qed

theorem Reload_keeps_address_witness:
  "\<exists>a'. app_Reload demo_envs id demo_running (True, empty_store) = (None, a', (True, empty_store)) \<and>
     ap_index a' = 2 \<and> pinned a' \<and>
     en_endpoint (fst (ap_world a')) = en_endpoint (fst (ap_world demo_running)) \<and> app_Token a' = app_Token demo_running"
proof -
  obtain a' where r: "app_Reload demo_envs id demo_running (True, empty_store) = (None, a', (True, empty_store))"
    and n: "ap_index a' = 2" "en_db (fst (ap_world a'))" using demo_replaces by blast
  from Reload_keeps_address [OF demo_running_reachable demo_running_pinned _ r] r n show ?thesis by simp
qed

theorem Reload_serves_document_witness:
  "\<exists>a'. app_Reload demo_envs id demo_running (True, empty_store) = (None, a', (True, empty_store)) \<and>
     reconciled (engine_adapters (demo_envs (ap_index a'))) e_attached (ap_manager a') (ap_world a') \<and>
     dom (map_of (mg_active (ap_manager a'))) = {''s1''} \<and>
     ap_document a' = Clone (demo_document [demo_file_source]) \<and> op_AllowedPaths (ap_options a') \<noteq> []"
proof -
  let ?d = "demo_document [demo_file_source]"
  obtain a' where r: "app_Reload demo_envs id demo_running (True, empty_store) = (None, a', (True, empty_store))"
    using demo_replaces by blast
  have ids: "enabled_ids ?d = {''s1''}" by (auto simp: enabled_ids_def demo_manager_simps)
  have rec: "reconciled (engine_adapters (demo_envs (ap_index demo_running))) e_attached (ap_manager demo_running) (ap_world demo_running)"
    using attached_none [OF demo_running_fields(8)]
    by (simp add: demo_running_fields reconciled_def demo_app_def good_sources_def names_of_def fun_eq_iff)
  have ld: "ap_loader demo_running True = (Inr ?d, True)" "mg_loader (ap_manager demo_running) = ap_loader demo_running"
    by (simp_all add: demo_running_fields demo_loader_def demo_app_def)
  have unused: "stage_ids_unused ?d (mg_active (ap_manager demo_running))"
    by (simp add: stage_ids_unused_def ids demo_running_fields demo_app_def)
  have paths: "mergePaths [ap_basePaths demo_running, filePaths ?d] \<noteq> []"
    by (rule mergePaths_nonempty [of "''/shop.db''"]) (simp_all add: demo_paths)
  from Reload_serves_document [OF demo_running_reachable r ld rec _ unused] ids paths r show ?thesis
    by (intro exI [of _ a']) (simp add: demo_manager_simps)
qed

end
