(* ===== verification/JsonRound.thy ===== *)
theory JsonRound
  imports Config
begin

text \<open>
  Decoding undoes encoding: what the decoder of package json reads from a text that the encoder
  wrote.  \<open>json_text t v\<close> says that the decoder reads exactly \<open>v\<close> from \<open>t\<close>, whatever follows it in the
  surrounding text.  Strings are covered up to their ASCII characters.
\<close>

definition ascii :: "string \<Rightarrow> bool" where
  "ascii s \<longleftrightarrow> list_all (\<lambda>c. byte c < 128) s"

section \<open>Strings\<close>

lemma byte_eq: "byte c = byte d \<longleftrightarrow> c = d"
  by (simp add: byte_def)

lemma hex_value_digit: "n < 16 \<Longrightarrow> hex_value (hex_digit n) = Some n"
  by (auto simp: hex_value_def hex_digit_def is_digit_byte_def)

lemma hex4_byte: "n < 256 \<Longrightarrow> hex4 (''00'' @ hex_byte n @ r) = Some (n, r)"
proof -
  assume "n < 256"
  then have d: "n div 16 < 16" "n mod 16 < 16" by auto
  have z: "hex_value CHR ''0'' = Some 0" by (simp add: hex_value_def is_digit_byte_def byte_def)
  show ?thesis using hex_value_digit [OF d(1)] hex_value_digit [OF d(2)] z by (simp add: hex_byte_def)
qed

text \<open>One character, plain or escaped, before the rest of the literal.\<close>

lemma parse_escaped:
  assumes "byte c < 128"
  shows "parse_string (Suc n) (escape_ascii c @ r) = map_option (\<lambda>(t, r). (c # t, r)) (parse_string n r)"
proof -
  have quick: "parse_string (Suc n) (CHR 0x5C # x # r) = map_option (\<lambda>(t, r). (c # t, r)) (parse_string n r)"
    if "escape_seq (x # r) = Some ([c], r)" for x
    using that by (simp add: byte_def)
  have u: "escape_seq (CHR ''u'' # ''00'' @ hex_byte (byte c) @ r) = Some ([c], r)"
  proof -
    have "unicode_escape (''00'' @ hex_byte (byte c) @ r) = Some (encode_rune (byte c), r)"
      using hex4_byte [of "byte c" r] assms unfolding unicode_escape_def by simp
    moreover have "encode_rune (byte c) = [c]" using assms by (simp add: encode_rune_def byte_def)
    ultimately show ?thesis by (simp add: escape_seq_def)
  qed
  consider (q) "c = CHR 0x22 \<or> c = CHR 0x5C" | (b) "byte c = 8" | (f) "byte c = 12" | (n) "byte c = 10"
    | (r) "byte c = 13" | (t) "byte c = 9"
    | (x) "c \<noteq> CHR 0x22" "c \<noteq> CHR 0x5C" "byte c \<notin> {8, 12, 10, 13, 9}" "byte c < 32 \<or> c = CHR ''<'' \<or> c = CHR ''>'' \<or> c = CHR ''&''"
    | (p) "c \<noteq> CHR 0x22" "c \<noteq> CHR 0x5C" "byte c \<ge> 32" "\<not> (c = CHR ''<'' \<or> c = CHR ''>'' \<or> c = CHR ''&'')"
    by fastforce
  then show ?thesis
  proof cases
    case q
    then show ?thesis by (auto simp: escape_ascii_def backslash_def escape_seq_def byte_def)
  next
    case b
    then have "c = CHR 0x08" using byte_eq [of c "CHR 0x08"] by (simp add: byte_def)
    then show ?thesis by (simp add: escape_ascii_def backslash_def escape_seq_def byte_def)
  next
    case f
    then have "c = CHR 0x0C" using byte_eq [of c "CHR 0x0C"] by (simp add: byte_def)
    then show ?thesis by (simp add: escape_ascii_def backslash_def escape_seq_def byte_def)
  next
    case n
    then have "c = CHR 0x0A" using byte_eq [of c "CHR 0x0A"] by (simp add: byte_def)
    then show ?thesis by (simp add: escape_ascii_def backslash_def escape_seq_def byte_def)
  next
    case r
    then have "c = CHR 0x0D" using byte_eq [of c "CHR 0x0D"] by (simp add: byte_def)
    then show ?thesis by (simp add: escape_ascii_def backslash_def escape_seq_def byte_def)
  next
    case t
    then have "c = CHR 0x09" using byte_eq [of c "CHR 0x09"] by (simp add: byte_def)
    then show ?thesis by (simp add: escape_ascii_def backslash_def escape_seq_def byte_def)
  next
    case x
    then have "escape_ascii c = backslash @ ''u00'' @ hex_byte (byte c)" by (auto simp: escape_ascii_def)
    then show ?thesis using u by (simp add: backslash_def byte_def)
  next
    case p
    then have "escape_ascii c = [c]" by (auto simp: escape_ascii_def)
    then show ?thesis using p assms by simp
  qed
qed

lemma parse_encoded:
  assumes "ascii s" and "length s < n" and "length s \<le> m"
  shows "parse_string n (encode_chars m s @ CHR 0x22 # r) = Some (s, r)"
  using assms
proof (induction s arbitrary: n m)
  case Nil
  then show ?case by (cases n; cases m) simp_all
next
  case (Cons c s)
  obtain n' m' where nm: "n = Suc n'" "m = Suc m'" using Cons.prems(2,3) by (cases n; cases m) auto
  have "byte c < 128" "ascii s" using Cons.prems(1) by (simp_all add: ascii_def)
  then show ?case
    using parse_escaped [of c n' "encode_chars m' s @ CHR 0x22 # r"] Cons.IH [of n' m'] Cons.prems(2,3) nm
    by simp
qed

lemma length_encode_chars: "ascii s \<Longrightarrow> length s \<le> length (encode_chars (length s) s)"
proof (induction s)
  case (Cons c s)
  have "0 < length (escape_ascii c)" by (simp add: escape_ascii_def backslash_def)
  moreover have "length s \<le> length (encode_chars (length s) s)" using Cons by (simp add: ascii_def)
  ultimately have "Suc (length s) \<le> length (escape_ascii c) + length (encode_chars (length s) s)" by linarith
  then show ?case using Cons.prems by (simp add: ascii_def)
qed simp

section \<open>Values\<close>

text \<open>What may follow a value inside an object or an array, or at the end.\<close>

definition delimited :: "string \<Rightarrow> bool" where
  "delimited r \<longleftrightarrow> r = [] \<or> hd r \<in> {CHR '','', CHR '']'', CHR ''}''} \<or> json_ws (hd r)"

definition json_text :: "nat \<Rightarrow> string \<Rightarrow> json \<Rightarrow> bool" where
  "json_text k t v \<longleftrightarrow> t \<noteq> [] \<and> \<not> json_ws (hd t) \<and> hd t \<noteq> CHR '']'' \<and>
     (\<forall>d r n. k \<le> d \<longrightarrow> delimited r \<longrightarrow> 2 * length (t @ r) < n \<longrightarrow> parse_value n d (t @ r) = Some (v, r))"

lemma json_textD: "json_text k t v \<Longrightarrow> k \<le> d \<Longrightarrow> delimited r \<Longrightarrow> 2 * length (t @ r) < n \<Longrightarrow>
    parse_value n d (t @ r) = Some (v, r)"
  by (simp add: json_text_def)

lemma skip_ws_start: "t \<noteq> [] \<Longrightarrow> \<not> json_ws (hd t) \<Longrightarrow> skip_ws (t @ r) = t @ r"
  by (cases t) (simp_all add: skip_ws_def)

lemma skip_ws_text: "json_text k t v \<Longrightarrow> skip_ws (t @ r) = t @ r"
  by (simp add: json_text_def skip_ws_start)

lemma skip_ws_char [simp]: "\<not> json_ws c \<Longrightarrow> skip_ws (c # cs) = c # cs"
  by (simp add: skip_ws_def)

lemma punctuation [simp]: "\<not> json_ws CHR '',''" "\<not> json_ws CHR '']''" "\<not> json_ws CHR ''}''" "\<not> json_ws CHR '':''"
  "\<not> json_ws CHR ''['' " "\<not> json_ws CHR ''{''" "\<not> json_ws CHR 0x22"
  by (simp_all add: json_ws_def byte_def)

lemma delimited_char [simp]: "delimited (CHR '','' # r)" "delimited (CHR '']'' # r)" "delimited (CHR ''}'' # r)" "delimited []"
  by (simp_all add: delimited_def)

text \<open>A scalar text is read alike with any fuel and depth.\<close>

lemma json_text_scalar:
  assumes "t \<noteq> []" and "\<not> json_ws (hd t)" and "hd t \<noteq> CHR ''[''" and "hd t \<noteq> CHR ''{''"
    and "hd t \<noteq> CHR '']''" and "\<And>r. delimited r \<Longrightarrow> parse_scalar (t @ r) = Some (v, r)"
  shows "json_text 0 t v"
proof -
  obtain c cs where t: "t = c # cs" using assms(1) by (cases t) auto
  have "parse_value n d (t @ r) = Some (v, r)" if "delimited r" "2 * length (t @ r) < n" for d r n
  proof -
    obtain m where "n = Suc m" using \<open>2 * length (t @ r) < n\<close> by (cases n) auto
    then show ?thesis using assms(2-4) assms(6) [OF that(1)] t by (simp add: parse_value_step)
  qed
  then show ?thesis using assms(1,2,5) by (simp add: json_text_def)
qed

lemma json_text_string: "ascii s \<Longrightarrow> json_text 0 (encode_string s) (JStr s)"
proof (rule json_text_scalar)
  assume a: "ascii s"
  fix r
  let ?cs = "encode_chars (length s) s @ CHR 0x22 # r"
  have "parse_string (Suc (length ?cs)) ?cs = Some (s, r)"
    by (rule parse_encoded [OF a]) (use length_encode_chars [OF a] in auto)
  then show "parse_scalar (encode_string s @ r) = Some (JStr s, r)"
    by (simp add: parse_scalar_def encode_string_def del: parse_string.simps)
qed (simp_all add: encode_string_def)

lemma json_text_bool: "json_text 0 (if b then ''true'' else ''false'') (JBool b)"
proof (rule json_text_scalar)
  fix r
  have "strip ''true'' (''true'' @ r) = Some r" "strip ''false'' (''false'' @ r) = Some r"
    by (simp_all add: strip_def)
  then show "parse_scalar ((if b then ''true'' else ''false'') @ r) = Some (JBool b, r)"
    by (simp add: parse_scalar_def)
qed (simp_all add: json_ws_def byte_def)

lemma decimal_start: "decimal n = ''0'' \<or> decimal n \<noteq> [] \<and> hd (decimal n) \<noteq> CHR ''0''"
proof (induction n rule: decimal.induct)
  case (1 n)
  have c: "char_of (48 + n) \<noteq> CHR ''0''" if "0 < n" "n < 10"
  proof
    assume "char_of (48 + n) = CHR ''0''"
    then have "byte (char_of (48 + n)) = byte CHR ''0''" by simp
    then show False using that by (simp add: byte_def)
  qed
  show ?case
  proof (cases "n < 10")
    case True
    then have "decimal n = [char_of (48 + n)]" by (subst decimal.simps) simp
    then show ?thesis using c True by (cases "n = 0") auto
  next
    case False
    then have "decimal (n div 10) \<noteq> ''0''" 
    proof -
      have "decimal_value (decimal (n div 10)) = n div 10" by (rule decimal_value_decimal)
      moreover have "0 < n div 10" using False by simp
      ultimately show ?thesis by (auto simp: decimal_value_def byte_def)
    qed
    moreover have "decimal n = decimal (n div 10) @ [char_of (48 + n mod 10)]" using False by (subst decimal.simps) simp
    ultimately show ?thesis using 1 False by simp
  qed
qed

lemma delimited_number:
  assumes "delimited r"
  shows "takeWhile is_digit_byte r = []" "dropWhile is_digit_byte r = r" "frac_part r = Some ([], r)" "exp_part r = Some ([], r)"
proof -
  have "r = [] \<or> \<not> is_digit_byte (hd r) \<and> hd r \<noteq> CHR ''.'' \<and> hd r \<noteq> CHR ''e'' \<and> hd r \<noteq> CHR ''E''"
    using assms by (auto simp: delimited_def json_ws_def is_digit_byte_def byte_def)
  then show "takeWhile is_digit_byte r = []" "dropWhile is_digit_byte r = r" "frac_part r = Some ([], r)" "exp_part r = Some ([], r)"
    by (cases r; simp add: frac_part_def exp_part_def)+
qed

lemma int_part_decimal:
  assumes "delimited r"
  shows "int_part (decimal n @ r) = Some (decimal n, r)"
proof -
  have d: "list_all is_digit_byte (decimal n)" "decimal n \<noteq> []" using decimal_digits by auto
  have "takeWhile is_digit_byte (decimal n @ r) = decimal n @ takeWhile is_digit_byte r"
    "dropWhile is_digit_byte (decimal n @ r) = dropWhile is_digit_byte r"
    using d(1) by (simp_all add: list_all_iff)
  then have digits: "digits (decimal n @ r) = Some (decimal n, r)"
    using d(2) by (simp add: digits_def delimited_number [OF assms])
  show ?thesis
    using decimal_start [of n] digits by (cases "decimal n") (auto simp: int_part_def)
qed

lemma json_text_int: "json_text 0 (itoa i) (JNum (itoa i))"
proof (rule json_text_scalar)
  have d: "list_all is_digit_byte (decimal n)" "decimal n \<noteq> []" for n using decimal_digits by auto
  then have h: "is_digit_byte (hd (decimal n))" for n by (metis list.pred_inject(2) list.exhaust_sel)
  have start: "itoa i = CHR ''-'' # decimal (nat (- i)) \<or> itoa i = decimal (nat i)" by (simp add: itoa_def)
  then have hd: "hd (itoa i) = CHR ''-'' \<or> is_digit_byte (hd (itoa i))" and ne: "itoa i \<noteq> []" using h d(2) by auto
  show "itoa i \<noteq> []" by (rule ne)
  show "\<not> json_ws (hd (itoa i))" "hd (itoa i) \<noteq> CHR ''[''" "hd (itoa i) \<noteq> CHR ''{''"
    "hd (itoa i) \<noteq> CHR '']''"
    using hd by (auto simp: json_ws_def is_digit_byte_def byte_def)
  fix r assume r: "delimited r"
  have num: "parse_number (itoa i @ r) = Some (itoa i, r)"
  proof (cases "itoa i = CHR ''-'' # decimal (nat (- i))")
    case True
    then show ?thesis using int_part_decimal [OF r] delimited_number [OF r] by (simp add: parse_number_def)
  next
    case False
    then have "itoa i = decimal (nat i)" using start by simp
    moreover have "hd (decimal (nat i)) \<noteq> CHR ''-''" using h [of "nat i"] by (auto simp: is_digit_byte_def byte_def)
    ultimately show ?thesis using int_part_decimal [OF r, of "nat i"] delimited_number [OF r] d(2) [of "nat i"]
      by (cases "decimal (nat i)") (auto simp: parse_number_def)
  qed
  obtain c cs where c: "itoa i = c # cs" using ne by (cases "itoa i") auto
  have "c \<noteq> CHR 0x22" "c \<noteq> CHR ''t''" "c \<noteq> CHR ''f''" "c \<noteq> CHR ''n''"
    using hd c by (auto simp: is_digit_byte_def byte_def)
  then show "parse_scalar (itoa i @ r) = Some (JNum (itoa i), r)"
    using num c by (simp add: parse_scalar_def)
qed

section \<open>Arrays and objects\<close>

definition json_array :: "string list \<Rightarrow> string" where
  "json_array ts = ''['' @ join '','' ts @ '']''"

definition json_strings :: "string list \<Rightarrow> string" where
  "json_strings xs = json_array (map encode_string xs)"

definition json_object :: "(string \<times> string) list \<Rightarrow> string" where
  "json_object ms = ''{'' @ join '','' (map (\<lambda>(k, t). json_field k t) ms) @ ''}''"

lemma join_two: "ts \<noteq> [] \<Longrightarrow> join '','' (t # ts) @ r = t @ CHR '','' # join '','' ts @ r"
  by (simp add: join_Cons)

lemma json_text_start: "json_text k t v \<Longrightarrow> t \<noteq> []" "json_text k t v \<Longrightarrow> \<not> json_ws (hd t)"
  "json_text k t v \<Longrightarrow> hd t \<noteq> CHR '']''"
  by (simp_all add: json_text_def)

lemma parse_elems_texts:
  assumes "list_all2 (json_text k) ts vs" and "ts \<noteq> []" and "k \<le> d"
    and "2 * length (join '','' ts @ CHR '']'' # r) + 1 < n"
  shows "parse_elems n d acc (join '','' ts @ CHR '']'' # r) = Some (JArr (acc @ vs), r)"
  using assms
proof (induction ts vs arbitrary: acc n rule: list_all2_induct)
  case (Cons t ts v vs)
  obtain m where n: "n = Suc m" using Cons.prems(3) by (cases n) auto
  show ?case
  proof (cases "ts = []")
    case True
    then have "vs = []" using Cons.hyps(2) by simp
    moreover have "parse_value m d (t @ CHR '']'' # r) = Some (v, CHR '']'' # r)"
      by (rule json_textD [OF Cons.hyps(1) Cons.prems(2)]) (use Cons.prems(3) True n in simp_all)
    ultimately show ?thesis using True n by (simp add: parse_elems.simps(2))
  next
    case False
    let ?rest = "join '','' ts @ CHR '']'' # r"
    have len: "2 * length (t @ CHR '','' # ?rest) + 1 < n"
      using Cons.prems(3) unfolding join_two [OF False] .
    have t: "0 < length t" using json_text_start(1) [OF Cons.hyps(1)] by simp
    have "parse_value m d (t @ CHR '','' # ?rest) = Some (v, CHR '','' # ?rest)"
      by (rule json_textD [OF Cons.hyps(1) Cons.prems(2)]) (use len n in simp_all)
    moreover have "parse_elems m d (acc @ [v]) ?rest = Some (JArr ((acc @ [v]) @ vs), r)"
      by (rule Cons.IH [OF False Cons.prems(2)]) (use len n t in simp)
    ultimately show ?thesis using n unfolding join_two [OF False] by (simp add: parse_elems.simps(2))
  qed
qed simp

lemma json_text_array:
  assumes "list_all2 (json_text k) ts vs"
  shows "json_text (Suc k) (json_array ts) (JArr vs)"
proof -
  have "parse_value n d (json_array ts @ r) = Some (JArr vs, r)"
    if le: "Suc k \<le> d" and fuel: "2 * length (json_array ts @ r) < n" for d r n
  proof -
    obtain m where n: "n = Suc m" using fuel by (cases n) auto
    obtain d' where d: "d = Suc d'" "k \<le> d'" using le by (cases d) auto
    show ?thesis
    proof (cases "ts = []")
      case True
      then show ?thesis using assms n d by (simp add: json_array_def parse_value_step)
    next
      case False
      let ?s = "join '','' ts @ CHR '']'' # r"
      have "parse_elems m d' [] ?s = Some (JArr ([] @ vs), r)"
        by (rule parse_elems_texts [OF assms False d(2)]) (use fuel n in \<open>simp add: json_array_def\<close>)
      moreover obtain t ts' where ts: "ts = t # ts'" using False by (cases ts) auto
      moreover obtain v where "json_text k t v" using assms ts by (cases vs) auto
      then have "t \<noteq> []" "\<not> json_ws (hd t)" "hd t \<noteq> CHR '']''" 
        using json_text_start by blast+
      moreover have "\<exists>q. ?s = t @ q" using ts by (cases "ts' = []") (auto simp: join_Cons)
      ultimately show ?thesis using n d
        by (cases t) (auto simp: json_array_def parse_value_step)
    qed
  qed
  then show ?thesis by (simp add: json_text_def json_array_def)
qed

text \<open>The members of an object, each with its name, its text and its value.\<close>

type_synonym members = "(string \<times> string \<times> json) list"

definition member_texts :: "members \<Rightarrow> (string \<times> string) list" where
  "member_texts ms = map (\<lambda>(k, t, v). (k, t)) ms"

definition member_values :: "members \<Rightarrow> (string \<times> json) list" where
  "member_values ms = map (\<lambda>(k, t, v). (k, v)) ms"

definition members_text :: "nat \<Rightarrow> members \<Rightarrow> bool" where
  "members_text k ms \<longleftrightarrow> distinct (map fst ms) \<and> (\<forall>(name, t, v) \<in> set ms. ascii name \<and> json_text k t v)"

definition joined :: "members \<Rightarrow> string" where
  "joined ms = join '','' (map (\<lambda>(k, t). json_field k t) (member_texts ms))"

lemma joined_Cons: "joined ((name, t, v) # ms) @ r =
    CHR 0x22 # encode_chars (length name) name @ CHR 0x22 # CHR '':'' # t @
      (if ms = [] then r else CHR '','' # joined ms @ r)"
  by (simp add: joined_def member_texts_def json_field_def encode_string_def join_Cons)

lemma update_new: "k \<notin> fst ` set m \<Longrightarrow> AList.update k v m = m @ [(k, v)]"
  by (induction m) auto

lemma key_read:
  "ascii name \<Longrightarrow> parse_string (Suc (length (encode_chars (length name) name @ CHR 0x22 # r)))
     (encode_chars (length name) name @ CHR 0x22 # r) = Some (name, r)"
  by (rule parse_encoded) (use length_encode_chars [of name] in auto)

lemma parse_members_texts:
  assumes "members_text k ms" and "ms \<noteq> []" and "k \<le> d" and "fst ` set acc \<inter> fst ` set ms = {}"
    and "2 * length (joined ms @ CHR ''}'' # r) + 1 < n"
  shows "parse_members n d acc (joined ms @ CHR ''}'' # r) = Some (JObj (acc @ member_values ms), r)"
  using assms
proof (induction ms arbitrary: acc n)
  case (Cons x ms)
  obtain name t v where x: "x = (name, t, v)" by (metis prod_cases3)
  obtain m where n: "n = Suc m" using Cons.prems(5) by (cases n) auto
  have a: "ascii name" and t: "json_text k t v" and ms: "members_text k ms" and new: "name \<notin> fst ` set ms"
    using Cons.prems(1) by (auto simp: members_text_def x)
  let ?r = "if ms = [] then CHR ''}'' # r else CHR '','' # joined ms @ CHR ''}'' # r"
  let ?key = "encode_chars (length name) name @ CHR 0x22 # CHR '':'' # t @ ?r"
  have j: "joined (x # ms) @ CHR ''}'' # r = CHR 0x22 # ?key" unfolding x by (rule joined_Cons)
  have len: "2 * length (CHR 0x22 # ?key) + 1 < n" using Cons.prems(5) unfolding j .
  have key: "parse_string (Suc (length ?key)) ?key = Some (name, CHR '':'' # t @ ?r)" by (rule key_read [OF a])
  have val: "parse_value m d (t @ ?r) = Some (v, ?r)"
    by (rule json_textD [OF t Cons.prems(3)]) (use len n in \<open>simp_all add: delimited_def\<close>)
  have upd: "AList.update name v acc = acc @ [(name, v)]" using Cons.prems(4) by (intro update_new) (auto simp: x)
  show ?case
  proof (cases "ms = []")
    case True
    then show ?thesis using n key val unfolding j
      by (simp add: parse_members.simps(2) upd member_values_def x del: parse_string.simps)
  next
    case False
    have "parse_members m d (acc @ [(name, v)]) (joined ms @ CHR ''}'' # r) =
        Some (JObj ((acc @ [(name, v)]) @ member_values ms), r)"
      by (rule Cons.IH [OF ms False Cons.prems(3)]) (use Cons.prems(4) new len n False in \<open>auto simp: x\<close>)
    then show ?thesis using n key val False unfolding j
      by (simp add: parse_members.simps(2) upd member_values_def x del: parse_string.simps)
  qed
qed simp

lemma json_object_joined: "json_object (member_texts ms) = ''{'' @ joined ms @ ''}''"
  by (simp add: json_object_def joined_def)

lemma joined_start: "ms \<noteq> [] \<Longrightarrow> \<exists>q. joined ms @ r = CHR 0x22 # q"
proof -
  assume "ms \<noteq> []"
  then obtain name t v rest where "ms = (name, t, v) # rest" by (metis list.exhaust prod_cases3)
  then show ?thesis using joined_Cons [of name t v rest r] by simp
qed

lemma json_text_object:
  assumes "members_text k ms"
  shows "json_text (Suc k) (json_object (member_texts ms)) (JObj (member_values ms))"
proof -
  let ?t = "json_object (member_texts ms)"
  have "parse_value n d (?t @ r) = Some (JObj (member_values ms), r)"
    if le: "Suc k \<le> d" and fuel: "2 * length (?t @ r) < n" for d r n
  proof -
    obtain m where n: "n = Suc m" using fuel by (cases n) auto
    obtain d' where d: "d = Suc d'" "k \<le> d'" using le by (cases d) auto
    show ?thesis
    proof (cases "ms = []")
      case True
      then show ?thesis using n d by (simp add: json_object_def member_texts_def member_values_def parse_value_step)
    next
      case False
      let ?s = "joined ms @ CHR ''}'' # r"
      have "parse_members m d' [] ?s = Some (JObj ([] @ member_values ms), r)"
        by (rule parse_members_texts [OF assms False d(2)]) (use fuel n in \<open>simp_all add: json_object_joined\<close>)
      moreover obtain q where "?s = CHR 0x22 # q" using joined_start [OF False] by blast
      ultimately show ?thesis using n d by (simp add: json_object_joined parse_value_step)
    qed
  qed
  then show ?thesis by (simp add: json_text_def json_object_def)
qed

section \<open>Raw members and elements\<close>

lemma raw_value_text:
  assumes "json_text k t v" and "k \<le> max_nesting" and "delimited r"
  shows "raw_value (t @ r) = Some (t, v, r)"
proof -
  have "json_decode (t @ r) = Some (v, r)"
    unfolding json_decode_def by (rule json_textD [OF assms]) simp
  then show ?thesis by (simp add: raw_value_def skip_ws_text [OF assms(1)])
qed

lemma raw_items_members:
  assumes "members_text k ms" and "k \<le> max_nesting" and "ms \<noteq> []" and "length ms \<le> n"
  shows "raw_items n True (joined ms @ CHR ''}'' # r) = Some ms"
  using assms
proof (induction ms arbitrary: n)
  case (Cons x ms)
  obtain name t v where x: "x = (name, t, v)" by (metis prod_cases3)
  obtain m where n: "n = Suc m" "length ms \<le> m" using Cons.prems(4) by (cases n) auto
  have a: "ascii name" and t: "json_text k t v" and ms: "members_text k ms"
    using Cons.prems(1) by (auto simp: members_text_def x)
  let ?r = "if ms = [] then CHR ''}'' # r else CHR '','' # joined ms @ CHR ''}'' # r"
  let ?key = "encode_chars (length name) name @ CHR 0x22 # CHR '':'' # t @ ?r"
  have j: "joined (x # ms) @ CHR ''}'' # r = CHR 0x22 # ?key" unfolding x by (rule joined_Cons)
  have key: "parse_string (Suc (length ?key)) ?key = Some (name, CHR '':'' # t @ ?r)" by (rule key_read [OF a])
  have val: "raw_value (t @ ?r) = Some (t, v, ?r)"
    by (rule raw_value_text [OF t Cons.prems(2)]) (simp add: delimited_def)
  show ?case
  proof (cases "ms = []")
    case True
    then show ?thesis using n key val unfolding j by (simp add: Let_def x del: parse_string.simps)
  next
    case False
    then show ?thesis using n key val Cons.IH [OF ms Cons.prems(2) False n(2)] unfolding j
      by (simp add: Let_def x del: parse_string.simps)
  qed
qed simp

lemma length_joined: "length ms \<le> length (joined ms)"
proof (induction ms)
  case (Cons x ms)
  obtain name t v where "x = (name, t, v)" by (metis prod_cases3)
  then show ?case using Cons joined_Cons [of name t v ms "[]"] by simp
qed simp

lemma raw_members_object:
  assumes "members_text k ms" and "Suc k \<le> max_nesting" and "delimited r"
  shows "raw_members (json_object (member_texts ms) @ r) = Some ms"
proof -
  let ?t = "json_object (member_texts ms)"
  have v: "raw_value (?t @ r) = Some (?t, JObj (member_values ms), r)"
    by (rule raw_value_text [OF json_text_object [OF assms(1)] assms(2,3)])
  show ?thesis
  proof (cases "ms = []")
    case True
    then show ?thesis using v by (simp add: raw_members_def member_texts_def json_object_def)
  next
    case False
    obtain q where q: "joined ms @ ''}'' = CHR 0x22 # q" using joined_start [OF False] by blast
    have "raw_items (length ?t) True (tl ?t) = Some ms"
      using raw_items_members [OF assms(1) _ False, of "length ?t" "[]"] assms(2) length_joined [of ms]
      by (simp add: json_object_joined)
    moreover have "skip_ws (tl ?t) \<noteq> ''}''" using q by (simp add: json_object_joined)
    ultimately show ?thesis using v by (simp add: raw_members_def)
  qed
qed

text \<open>The decoder fills a struct from the members that the encoder wrote.\<close>

lemma decode_struct_object:
  assumes "members_text k ms" and "Suc k \<le> max_nesting" and "delimited r"
  shows "decode_struct setters zero (json_object (member_texts ms) @ r) = fill setters ms zero"
  using raw_value_text [OF json_text_object [OF assms(1)] assms(2,3)] raw_members_object [OF assms]
  by (simp add: decode_struct_def)

end
