(* ===== verification/JsonLayout.thy ===== *)
theory JsonLayout
  imports JsonRound
begin

text \<open>
  Layout does not matter: a text that the decoder accepts, compacted and indented as \<open>json.MarshalIndent\<close>
  does with the raw texts inside a value, reads as the same value.  A \<open>syn\<close> is the tree of a text: literals with what they
  denote, arrays and objects.  \<open>flat\<close> is its compact text, \<open>pretty\<close> its indented one.
\<close>

section \<open>Continuation bytes\<close>

definition trailing :: "char \<Rightarrow> bool" where
  "trailing c \<longleftrightarrow> 0x80 \<le> byte c \<and> byte c \<le> 0xBF"

lemma nth_trailing:
  "n < length cs \<and> continuation lo hi (cs ! n) \<Longrightarrow> 0x80 \<le> lo \<Longrightarrow> hi \<le> 0xBF \<Longrightarrow> trailing (cs ! n)"
  by (simp add: continuation_def trailing_def)

text \<open>A valid sequence is a byte and up to three trailing bytes, whatever follows it.\<close>

lemma utf8_len_cases:
  "utf8_len s = 0 \<or> (\<exists>c x r. s = c # x # r \<and> trailing x \<and> utf8_len s = 2) \<or>
   (\<exists>c x y r. s = c # x # y # r \<and> trailing x \<and> trailing y \<and> utf8_len s = 3) \<or>
   (\<exists>c x y z r. s = c # x # y # z # r \<and> trailing x \<and> trailing y \<and> trailing z \<and> utf8_len s = 4)"
proof (cases s)
  case (Cons c cs)
  have t: "trailing x" if "continuation lo hi x" "0x80 \<le> lo" "hi \<le> 0xBF" for lo hi x
    using that by (simp add: continuation_def trailing_def)
  consider "cs = []" | x where "cs = [x]" | x y where "cs = [x, y]" | x y z r where "cs = x # y # z # r"
    by (metis neq_Nil_conv)
  then show ?thesis
  proof cases
    case 1
    then show ?thesis by (simp add: Cons utf8_len.simps(2) Let_def)
  next
    case (2 x)
    then show ?thesis by (simp add: Cons utf8_len.simps(2) Let_def t split: if_split)
  next
    case (3 x y)
    then show ?thesis by (simp add: Cons utf8_len.simps(2) Let_def t split: if_split)
  next
    case (4 x y z r)
    then show ?thesis by (simp add: Cons utf8_len.simps(2) Let_def t split: if_split)
  qed
qed (simp add: utf8_len.simps)

lemma utf8_len_head:
  "utf8_len (c # x # cs) = 2 \<longleftrightarrow> 0xC2 \<le> byte c \<and> byte c \<le> 0xDF \<and> continuation 0x80 0xBF x"
  by (simp add: utf8_len.simps(2) Let_def)

lemma utf8_len_head3:
  "utf8_len (c # x # y # cs) = 3 \<longleftrightarrow> utf8_len (c # x # [y]) = 3"
  by (simp add: utf8_len.simps(2) Let_def)

lemma utf8_len_head4:
  "utf8_len (c # x # y # z # cs) = 4 \<longleftrightarrow> utf8_len (c # x # y # [z]) = 4"
  by (simp add: utf8_len.simps(2) Let_def)

lemma utf8_len_prefix:
  "utf8_len (c # x # r) = 2 \<Longrightarrow> utf8_len (c # x # r') = 2"
  "utf8_len (c # x # y # r) = 3 \<Longrightarrow> utf8_len (c # x # y # r') = 3"
  "utf8_len (c # x # y # z # r) = 4 \<Longrightarrow> utf8_len (c # x # y # z # r') = 4"
  by (metis utf8_len_head utf8_len_head3 utf8_len_head4)+

lemma utf8_len_invalid:
  assumes "utf8_len (c # cs) = 0" and "takeWhile trailing cs = takeWhile trailing cs'"
  shows "utf8_len (c # cs') = 0"
proof (rule ccontr)
  assume n: "utf8_len (c # cs') \<noteq> 0"
  have same: "\<exists>q. cs = p @ q" if "cs' = p @ q'" "list_all trailing p" for p q'
  proof -
    have "takeWhile trailing cs' = p @ takeWhile trailing q'" using that by (simp add: list_all_iff)
    then have "takeWhile trailing cs = p @ takeWhile trailing q'" using assms(2) by simp
    then show ?thesis by (metis append.assoc takeWhile_dropWhile_id)
  qed
  consider x r where "cs' = x # r" "trailing x" "utf8_len (c # cs') = 2"
    | x y r where "cs' = x # y # r" "trailing x" "trailing y" "utf8_len (c # cs') = 3"
    | x y z r where "cs' = x # y # z # r" "trailing x" "trailing y" "trailing z" "utf8_len (c # cs') = 4"
    using n utf8_len_cases [of "c # cs'"] by auto
  then show False
  proof cases
    case (1 x r)
    then obtain q where "cs = x # q" using same [of "[x]" r] by auto
    then show False using 1 utf8_len_prefix(1) [of c x r q] assms(1) by simp
  next
    case (2 x y r)
    then obtain q where "cs = x # y # q" using same [of "[x, y]" r] by auto
    then show False using 2 utf8_len_prefix(2) [of c x y r q] assms(1) by simp
  next
    case (3 x y z r)
    then obtain q where "cs = x # y # z # q" using same [of "[x, y, z]" r] by auto
    then show False using 3 utf8_len_prefix(3) [of c x y z r q] assms(1) by simp
  qed
qed

text \<open>A rune: a valid sequence, kept whatever follows it.\<close>

definition rune :: "string \<Rightarrow> bool" where
  "rune u \<longleftrightarrow> u \<noteq> [] \<and> 128 \<le> byte (hd u) \<and> list_all trailing (tl u) \<and> (\<forall>r. utf8_len (u @ r) = length u)"

lemma utf8_len_rune:
  assumes "utf8_len s \<noteq> 0"
  shows "rune (take (utf8_len s) s) \<and> length (take (utf8_len s) s) = utf8_len s"
proof -
  obtain c cs where s: "s = c # cs" using assms by (cases s) (auto simp: utf8_len.simps)
  have high: "128 \<le> byte c" using assms unfolding s by (simp add: utf8_len.simps(2) Let_def split: if_splits)
  consider x r where "cs = x # r" "trailing x" "utf8_len s = 2"
    | x y r where "cs = x # y # r" "trailing x" "trailing y" "utf8_len s = 3"
    | x y z r where "cs = x # y # z # r" "trailing x" "trailing y" "trailing z" "utf8_len s = 4"
    using assms utf8_len_cases [of s] s by auto
  then show ?thesis
  proof cases
    case (1 x r)
    then show ?thesis using high utf8_len_prefix(1) [of c x r] s by (auto simp: rune_def numeral_2_eq_2)
  next
    case (2 x y r)
    then show ?thesis using high utf8_len_prefix(2) [of c x y r] s by (auto simp: rune_def numeral_3_eq_3)
  next
    case (3 x y z r)
    then show ?thesis using high utf8_len_prefix(3) [of c x y z r] s by (auto simp: rune_def eval_nat_numeral)
  qed
qed

section \<open>Compaction inside a literal\<close>

definition separator :: "string \<Rightarrow> bool" where
  "separator s \<longleftrightarrow> take 3 s \<in> set line_separators"

definition html :: "char \<Rightarrow> bool" where
  "html c \<longleftrightarrow> c = CHR ''<'' \<or> c = CHR ''>'' \<or> c = CHR ''&''"

lemma compact_plain:
  "\<not> separator (c # cs) \<Longrightarrow> \<not> html c \<Longrightarrow> c \<noteq> CHR 0x22 \<Longrightarrow> c \<noteq> CHR 0x5C \<Longrightarrow>
   compact True False (c # cs) = c # compact True False cs"
  by (simp add: separator_def html_def)

lemma separator_head: "separator s \<Longrightarrow> \<exists>x cs. s = char_of (0xE2::nat) # char_of (0x80::nat) # x # cs \<and>
    (x = char_of (0xA8::nat) \<or> x = char_of (0xA9::nat))"
  by (cases s; cases "tl s"; cases "tl (tl s)") (auto simp: separator_def line_separators_def)

lemma not_separator: "byte c \<noteq> 0xE2 \<Longrightarrow> \<not> separator (c # cs)"
  by (auto dest!: separator_head simp: byte_def)

lemma compact_low: "byte c < 128 \<Longrightarrow> \<not> html c \<Longrightarrow> c \<noteq> CHR 0x22 \<Longrightarrow> c \<noteq> CHR 0x5C \<Longrightarrow>
    compact True False (c # cs) = c # compact True False cs"
  by (rule compact_plain) (simp_all add: not_separator)

lemma compact_html: "html c \<Longrightarrow> compact True False (c # cs) = backslash @ ''u00'' @ hex_byte (byte c) @ compact True False cs"
  using not_separator [of c cs] by (auto simp: html_def separator_def byte_def)

lemma compact_quote: "compact True False (CHR 0x22 # cs) = CHR 0x22 # compact False False cs"
  using not_separator [of "CHR 0x22" cs] by (auto simp: separator_def byte_def)

lemma compact_escape: "byte c < 128 \<Longrightarrow> \<not> html c \<Longrightarrow>
    compact True False (CHR 0x5C # c # cs) = CHR 0x5C # c # compact True False cs"
  using not_separator [of "CHR 0x5C" "c # cs"] not_separator [of c cs]
  by (auto simp: separator_def html_def byte_def)

lemma compact_separator:
  "separator s \<Longrightarrow> compact True False s = escape_rune (take 3 s) @ compact True False (drop 3 s)"
  by (cases s) (auto simp: separator_def line_separators_def eval_nat_numeral)

lemma trailing_plain: "trailing c \<Longrightarrow> byte c \<noteq> 0xE2 \<and> \<not> html c \<and> c \<noteq> CHR 0x22 \<and> c \<noteq> CHR 0x5C"
  by (auto simp: trailing_def html_def byte_def)

lemma compact_trailing: "list_all trailing u \<Longrightarrow> compact True False (u @ cs) = u @ compact True False cs"
  by (induction u) (simp_all add: compact_plain not_separator trailing_plain del: compact.simps)

section \<open>Literals that indentation keeps\<close>

definition inert :: "string \<Rightarrow> bool" where
  "inert b \<longleftrightarrow> (\<forall>need d r. indent True False need d (b @ CHR 0x22 # r) = b @ CHR 0x22 # indent False False False d r)"

lemma inert_Nil: "inert []"
  by (simp add: inert_def)

lemma inert_char: "inert b \<Longrightarrow> c \<noteq> CHR 0x22 \<Longrightarrow> c \<noteq> CHR 0x5C \<Longrightarrow> inert (c # b)"
  by (simp add: inert_def)

lemma inert_escape: "inert b \<Longrightarrow> inert (CHR 0x5C # c # b)"
  by (simp add: inert_def)

lemma inert_chars: "inert b \<Longrightarrow> \<forall>c\<in>set u. c \<noteq> CHR 0x22 \<and> c \<noteq> CHR 0x5C \<Longrightarrow> inert (u @ b)"
  by (induction u) (simp_all add: inert_char)

text \<open>\<open>key_ok b k\<close>: the body \<open>b\<close> of a literal, before its closing quote, denotes \<open>k\<close>, whatever follows.\<close>

definition key_ok :: "string \<Rightarrow> string \<Rightarrow> bool" where
  "key_ok b k \<longleftrightarrow> inert b \<and> (\<forall>r n. length b < n \<longrightarrow> parse_string n (b @ CHR 0x22 # r) = Some (k, r))"

lemma key_ok_Nil: "key_ok [] []"
  by (auto simp: key_ok_def inert_Nil gr0_conv_Suc)

lemma key_ok_unit:
  assumes "key_ok b k" and "u \<noteq> []" and "inert b \<Longrightarrow> inert (u @ b)"
    and "\<And>r n. parse_string (Suc n) (u @ b @ CHR 0x22 # r) = map_option (\<lambda>(t, r). (out @ t, r)) (parse_string n (b @ CHR 0x22 # r))"
  shows "key_ok (u @ b) (out @ k)"
  unfolding key_ok_def
proof (intro conjI allI impI)
  show "inert (u @ b)" using assms(1,3) by (simp add: key_ok_def)
  fix r n
  assume n: "length (u @ b) < n"
  then obtain m where m: "n = Suc m" by (cases n) auto
  have "0 < length u" using assms(2) by simp
  then have "length b < m" using n unfolding m length_append by linarith
  then show "parse_string n ((u @ b) @ CHR 0x22 # r) = Some (out @ k, r)"
    using assms(1) assms(4) [of m r] by (simp add: key_ok_def m)
qed

text \<open>A low surrogate at the front: an escape before it is read with it.\<close>

definition low_start :: "string \<Rightarrow> bool" where
  "low_start s \<longleftrightarrow> take 2 s = CHR 0x5C # ''u'' \<and>
     (case hex4 (drop 2 s) of None \<Rightarrow> False | Some (w, _) \<Rightarrow> 0xDC00 \<le> w \<and> w < 0xE000)"

lemma low_start_simps [simp]:
  "\<not> low_start []" "c \<noteq> CHR 0x5C \<Longrightarrow> \<not> low_start (c # s)" "e \<noteq> CHR ''u'' \<Longrightarrow> \<not> low_start (CHR 0x5C # e # s)"
  by (simp_all add: low_start_def numeral_2_eq_2)

lemma low_start_shape:
  "low_start s \<Longrightarrow> \<exists>p w r. s = CHR 0x5C # CHR ''u'' # p \<and> hex4 p = Some (w, r) \<and> 0xDC00 \<le> w \<and> w < 0xE000"
  by (cases s; cases "tl s") (auto simp: low_start_def numeral_2_eq_2 simp del: hex4.simps split: option.splits)

lemma hex4_shape:
  "hex4 s = Some (w, rest) \<Longrightarrow> \<exists>a b c d. s = a # b # c # d # rest \<and> hex_value a \<noteq> None \<and> hex_value b \<noteq> None \<and>
    hex_value c \<noteq> None \<and> hex_value d \<noteq> None \<and> (\<forall>x. hex4 (a # b # c # d # x) = Some (w, x))"
  by (induction s rule: hex4.induct) (auto split: option.splits)

definition pair_rune :: "nat \<Rightarrow> nat \<Rightarrow> string" where
  "pair_rune w w2 = encode_rune ((w - 0xD800) * 1024 + (w2 - 0xDC00) + 0x10000)"

lemma unicode_escape_eq:
  assumes "hex4 s = Some (w, rest)"
  shows "unicode_escape s = Some
    (if 0xD800 \<le> w \<and> w < 0xE000
     then (if w < 0xDC00 \<and> low_start rest
       then (pair_rune w (fst (the (hex4 (drop 2 rest)))), snd (the (hex4 (drop 2 rest)))) else (replacement, rest))
     else (encode_rune w, rest))"
proof (cases "take 2 rest = CHR 0x5C # ''u''")
  case True
  then obtain q where q: "rest = CHR 0x5C # CHR ''u'' # q" by (cases rest; cases "tl rest") (auto simp: eval_nat_numeral)
  show ?thesis
  proof (cases "hex4 q")
    case None
    then show ?thesis using assms q by (simp add: unicode_escape_def low_start_def)
  next
    case (Some p)
    then show ?thesis using assms q by (cases p) (auto simp: unicode_escape_def low_start_def pair_rune_def)
  qed
next
  case False
  then have "\<not> low_start rest" by (simp add: low_start_def)
  moreover have "\<not> (x = CHR 0x5C \<and> y = CHR ''u'')" if "rest = x # y # q" for x y q using False that by auto
  ultimately show ?thesis using assms by (auto simp: unicode_escape_def split: list.split)
qed

lemma hex_plain: "hex_value c \<noteq> None \<Longrightarrow> byte c < 128 \<and> \<not> html c \<and> c \<noteq> CHR 0x22 \<and> c \<noteq> CHR 0x5C"
  by (auto simp: hex_value_def html_def is_digit_byte_def byte_def split: if_splits)

lemma compact_hex:
  "\<forall>c\<in>set u. hex_value c \<noteq> None \<Longrightarrow> compact True False (u @ cs) = u @ compact True False cs"
  by (induction u) (simp_all add: compact_low hex_plain del: compact.simps)

lemma escape_unit:
  assumes "escape_seq cs = Some (out, rest)"
  shows "\<exists>u. compact True False (CHR 0x5C # cs) = CHR 0x5C # u @ compact True False rest \<and>
    (\<forall>x. (low_start x \<longrightarrow> low_start rest) \<longrightarrow> escape_seq (u @ x) = Some (out, x)) \<and>
    (\<forall>b. inert b \<longrightarrow> inert (CHR 0x5C # u @ b)) \<and> (\<forall>x. low_start (CHR 0x5C # u @ x) \<longrightarrow> low_start (CHR 0x5C # cs))"
proof -
  obtain e es where cs: "cs = e # es" using assms by (cases cs) (auto simp: escape_seq_def)
  show ?thesis
  proof (cases "e = CHR ''u''")
    case False
    then have e: "byte e < 128" "\<not> html e" "rest = es" "\<forall>x. escape_seq (e # x) = Some (out, x)"
      using assms unfolding cs escape_seq_def by (auto simp: html_def byte_def split: if_splits)
    then show ?thesis using False
      by (intro exI [of _ "[e]"]) (simp add: cs compact_escape inert_escape del: compact.simps)
  next
    case True
    then have "unicode_escape es = Some (out, rest)" using assms by (simp add: cs escape_seq_def)
    then obtain w q where w: "hex4 es = Some (w, q)" by (auto simp: unicode_escape_def split: option.splits prod.splits)
    then obtain a b c d where h: "es = a # b # c # d # q" "hex_value a \<noteq> None" "hex_value b \<noteq> None" "hex_value c \<noteq> None"
      "hex_value d \<noteq> None" "\<forall>x. hex4 (a # b # c # d # x) = Some (w, x)" using hex4_shape [OF w] by blast
    have eq: "unicode_escape es = Some
      (if 0xD800 \<le> w \<and> w < 0xE000
       then (if w < 0xDC00 \<and> low_start q
         then (pair_rune w (fst (the (hex4 (drop 2 q)))), snd (the (hex4 (drop 2 q)))) else (replacement, q))
       else (encode_rune w, q))" by (rule unicode_escape_eq [OF w])
    have u: "byte CHR ''u'' < 128" "\<not> html CHR ''u''" by (simp_all add: byte_def html_def)
    have flat: "compact True False (CHR 0x5C # cs) = CHR 0x5C # CHR ''u'' # [a, b, c, d] @ compact True False q"
      using compact_escape [OF u, of es] compact_hex [of "[a, b, c, d]" q] h by (simp add: cs True del: compact.simps)
    have quiet: "\<forall>x \<in> set [a, b, c, d]. x \<noteq> CHR 0x22 \<and> x \<noteq> CHR 0x5C" using h hex_plain by auto
    have low: "low_start (CHR 0x5C # CHR ''u'' # a # b # c # d # x) \<longleftrightarrow> low_start (CHR 0x5C # cs)" for x
      using h(6) by (simp add: low_start_def cs True h(1) del: hex4.simps)
    show ?thesis
    proof (cases "0xD800 \<le> w \<and> w < 0xE000 \<and> w < 0xDC00 \<and> low_start q")
      case False
      then have o: "rest = q" "out = (if 0xD800 \<le> w \<and> w < 0xE000 then replacement else encode_rune w)"
        using eq \<open>unicode_escape es = Some (out, rest)\<close> by (auto split: if_splits)
      have "escape_seq (CHR ''u'' # [a, b, c, d] @ x) = Some (out, x)" if "low_start x \<longrightarrow> low_start q" for x
        using unicode_escape_eq [of "a # b # c # d # x" w x] h(6) False that o by (auto simp: escape_seq_def simp del: hex4.simps)
      moreover have "inert (CHR 0x5C # CHR ''u'' # [a, b, c, d] @ x)" if "inert x" for x
        by (rule inert_escape, rule inert_chars [OF that quiet])
      ultimately show ?thesis using flat low o(1)
        by (intro exI [of _ "CHR ''u'' # [a, b, c, d]"]) (simp del: compact.simps hex4.simps)
    next
      case True
      then obtain p w2 r2 where q: "q = CHR 0x5C # CHR ''u'' # p" and w2: "hex4 p = Some (w2, r2)" "0xDC00 \<le> w2" "w2 < 0xE000"
        using low_start_shape by blast
      then obtain a2 b2 c2 d2 where h2: "p = a2 # b2 # c2 # d2 # r2" "hex_value a2 \<noteq> None" "hex_value b2 \<noteq> None"
        "hex_value c2 \<noteq> None" "hex_value d2 \<noteq> None" "\<forall>x. hex4 (a2 # b2 # c2 # d2 # x) = Some (w2, x)"
        using hex4_shape [OF w2(1)] by blast
      have o: "rest = r2" "out = pair_rune w w2"
        using eq \<open>unicode_escape es = Some (out, rest)\<close> True w2 by (auto simp: q)
      let ?u = "CHR ''u'' # [a, b, c, d] @ CHR 0x5C # CHR ''u'' # [a2, b2, c2, d2]"
      have "compact True False q = CHR 0x5C # CHR ''u'' # [a2, b2, c2, d2] @ compact True False r2"
        using compact_escape [OF \<open>byte CHR ''u'' < 128\<close> \<open>\<not> html CHR ''u''\<close>, of p] compact_hex [of "[a2, b2, c2, d2]" r2] h2
        by (simp add: q del: compact.simps)
      then have "compact True False (CHR 0x5C # cs) = CHR 0x5C # ?u @ compact True False rest"
        using flat o(1) by (simp del: compact.simps)
      moreover have "escape_seq (?u @ x) = Some (out, x)" for x
      proof -
        have "low_start (CHR 0x5C # CHR ''u'' # a2 # b2 # c2 # d2 # x)" using h2(6) w2(2,3) by (simp add: low_start_def del: hex4.simps)
        then show ?thesis using unicode_escape_eq [of "a # b # c # d # CHR 0x5C # CHR ''u'' # a2 # b2 # c2 # d2 # x" w] h(6) h2(6) True o
          by (simp add: escape_seq_def del: hex4.simps)
      qed
      moreover have "inert (CHR 0x5C # ?u @ x)" if "inert x" for x
      proof -
        have "\<forall>x \<in> set [a2, b2, c2, d2]. x \<noteq> CHR 0x22 \<and> x \<noteq> CHR 0x5C" using h2 hex_plain by auto
        from inert_chars [OF that this] have "inert (CHR 0x5C # CHR ''u'' # [a2, b2, c2, d2] @ x)" by (rule inert_escape)
        from inert_chars [OF this quiet] show ?thesis unfolding append_Cons append_assoc by (rule inert_escape)
      qed
      ultimately show ?thesis using low by (intro exI [of _ ?u]) (simp del: compact.simps hex4.simps)
    qed
  qed
qed

text \<open>\<open>reads b k s\<close>: the compacted body \<open>b\<close> denotes \<open>k\<close>, and starts like \<open>s\<close> for what may come before it.\<close>

definition reads :: "string \<Rightarrow> string \<Rightarrow> string \<Rightarrow> bool" where
  "reads b k s \<longleftrightarrow> key_ok b k \<and> (\<forall>r. low_start (b @ CHR 0x22 # r) \<longrightarrow> low_start s) \<and>
     (\<forall>r. takeWhile trailing (b @ CHR 0x22 # r) = takeWhile trailing s)"

lemma not_trailing: "byte c < 128 \<Longrightarrow> \<not> trailing c"
  by (simp add: trailing_def)

lemma reads_low_unit:
  assumes "key_ok (u @ b) k" and "byte c < 128" and "byte (hd u) < 128" and "u \<noteq> []"
    and "\<And>x. low_start (u @ x) \<Longrightarrow> low_start (c # cs)"
  shows "reads (u @ b) k (c # cs)"
proof -
  obtain x us where u: "u = x # us" using assms(4) by (cases u) auto
  then have "\<not> trailing x" "\<not> trailing c" using assms(2,3) not_trailing by auto
  then show ?thesis using assms(1,5) u by (auto simp: reads_def)
qed

lemma html_unit:
  assumes "html c"
  shows "escape_seq (''u00'' @ hex_byte (byte c) @ x) = Some ([c], x)"
    and "\<forall>y\<in>set (''u00'' @ hex_byte (byte c)). y \<noteq> CHR 0x22 \<and> y \<noteq> CHR 0x5C"
    and "\<not> low_start (CHR 0x5C # ''u00'' @ hex_byte (byte c) @ x)"
proof -
  have b: "byte c < 128" using assms by (auto simp: html_def byte_def)
  then have h: "hex4 (''00'' @ hex_byte (byte c) @ x) = Some (byte c, x)" by (intro hex4_byte) simp
  then have "unicode_escape (''00'' @ hex_byte (byte c) @ x) = Some (encode_rune (byte c), x)"
    using unicode_escape_eq [OF h] b by simp
  moreover have "encode_rune (byte c) = [c]" using b by (simp add: encode_rune_def byte_def)
  ultimately show "escape_seq (''u00'' @ hex_byte (byte c) @ x) = Some ([c], x)" by (simp add: escape_seq_def)
  show "\<forall>y\<in>set (''u00'' @ hex_byte (byte c)). y \<noteq> CHR 0x22 \<and> y \<noteq> CHR 0x5C"
    using assms by (auto simp: html_def hex_byte_def hex_digit_def byte_def char_of_eq_iff)
  show "\<not> low_start (CHR 0x5C # ''u00'' @ hex_byte (byte c) @ x)"
    using h b by (simp add: low_start_def numeral_2_eq_2 del: hex4.simps)
qed

lemma separator_unit:
  assumes "r = map char_of [0xE2::nat, 0x80, 0xA8] \<or> r = map char_of [0xE2::nat, 0x80, 0xA9]"
  shows "\<exists>u. escape_rune r = CHR 0x5C # u \<and> escape_seq (u @ x) = Some (r, x) \<and>
    (\<forall>y\<in>set u. y \<noteq> CHR 0x22 \<and> y \<noteq> CHR 0x5C) \<and> \<not> low_start (CHR 0x5C # u @ x)"
proof -
  let ?u = "\<lambda>d. ''u202'' @ [d]"
  have h: "hex4 (''2028'' @ x) = Some (0x2028, x)" "hex4 (''2029'' @ x) = Some (0x2029, x)"
    by (simp_all add: hex_value_def is_digit_byte_def byte_def)
  have e: "encode_rune 0x2028 = map char_of [0xE2::nat, 0x80, 0xA8]" "encode_rune 0x2029 = map char_of [0xE2::nat, 0x80, 0xA9]"
    by (simp_all add: encode_rune_def)
  have s: "escape_seq (?u CHR ''8'' @ x) = Some (map char_of [0xE2::nat, 0x80, 0xA8], x)"
    "escape_seq (?u CHR ''9'' @ x) = Some (map char_of [0xE2::nat, 0x80, 0xA9], x)"
    using unicode_escape_eq [OF h(1)] unicode_escape_eq [OF h(2)] e by (simp_all add: escape_seq_def del: hex4.simps)
  have l: "\<not> low_start (CHR 0x5C # ?u CHR ''8'' @ x)" "\<not> low_start (CHR 0x5C # ?u CHR ''9'' @ x)"
    using h by (simp_all add: low_start_def numeral_2_eq_2 del: hex4.simps)
  have d: "map char_of [0xE2::nat, 0x80, 0xA8] \<noteq> (map char_of [0xE2::nat, 0x80, 0xA9] :: string)" by (simp add: char_of_eq_iff)
  show ?thesis using assms
  proof
    assume r: "r = map char_of [0xE2::nat, 0x80, 0xA8]"
    show ?thesis using s(1) l(1) r by (intro exI [of _ "?u CHR ''8''"]) (simp add: escape_rune_def backslash_def)
  next
    assume r: "r = map char_of [0xE2::nat, 0x80, 0xA9]"
    show ?thesis using s(2) l(2) r d by (intro exI [of _ "?u CHR ''9''"]) (simp add: escape_rune_def backslash_def)
  qed
qed

lemma escape_step:
  assumes "escape_seq (u @ x) = Some (out, x)"
  shows "parse_string (Suc n) (CHR 0x5C # u @ x) = map_option (\<lambda>(t, r). (out @ t, r)) (parse_string n x)"
  using assms by (simp add: byte_def)

text \<open>The compacted body of a literal denotes what the body denoted.\<close>

lemma compact_string:
  "parse_string n s = Some (k, r) \<Longrightarrow>
   \<exists>b. compact True False s = b @ CHR 0x22 # compact False False r \<and> reads b k s"
proof (induction n s arbitrary: k r rule: parse_string.induct)
  case (3 n c cs)
  note compact.simps [simp del]
  consider (stop) "c = CHR 0x22" | (esc) "c \<noteq> CHR 0x22" "\<not> byte c < 32" "c = CHR 0x5C"
    | (plain) "c \<noteq> CHR 0x22" "\<not> byte c < 32" "c \<noteq> CHR 0x5C" "byte c < 128"
    | (multi) "c \<noteq> CHR 0x22" "\<not> byte c < 32" "c \<noteq> CHR 0x5C" "\<not> byte c < 128"
    using "3.prems" by (auto split: if_splits)
  then show ?case
  proof cases
    case stop
    then have "k = []" "r = cs" using "3.prems" by auto
    moreover have "reads [] [] (c # cs)" using stop not_trailing [of "CHR 0x22"] by (simp add: reads_def key_ok_Nil byte_def)
    ultimately show ?thesis using compact_quote [of cs] stop by (intro exI [of _ "[]"]) simp
  next
    case esc
    obtain out rest t where o: "escape_seq cs = Some (out, rest)" "parse_string n rest = Some (t, r)" "k = out @ t"
      using "3.prems" esc by (auto split: option.splits)
    obtain b where b: "compact True False rest = b @ CHR 0x22 # compact False False r" "reads b t rest"
      using "3.IH"(1) [OF esc o(1) refl o(2)] by blast
    obtain u where u: "compact True False (CHR 0x5C # cs) = CHR 0x5C # u @ compact True False rest"
      "\<And>x. (low_start x \<longrightarrow> low_start rest) \<Longrightarrow> escape_seq (u @ x) = Some (out, x)"
      "\<And>b. inert b \<Longrightarrow> inert (CHR 0x5C # u @ b)" "\<And>x. low_start (CHR 0x5C # u @ x) \<Longrightarrow> low_start (CHR 0x5C # cs)"
      using escape_unit [OF o(1)] by blast
    have key: "key_ok ((CHR 0x5C # u) @ b) (out @ t)"
    proof (rule key_ok_unit)
      show "key_ok b t" using b(2) by (simp add: reads_def)
      show "inert ((CHR 0x5C # u) @ b)" if "inert b" using u(3) [OF that] by simp
      fix q m
      have "escape_seq (u @ b @ CHR 0x22 # q) = Some (out, b @ CHR 0x22 # q)" using b(2) by (intro u(2)) (auto simp: reads_def)
      then show "parse_string (Suc m) ((CHR 0x5C # u) @ b @ CHR 0x22 # q) =
          map_option (\<lambda>(t, r). (out @ t, r)) (parse_string m (b @ CHR 0x22 # q))"
        unfolding append_Cons by (rule escape_step)
    qed simp
    have "reads ((CHR 0x5C # u) @ b) k (c # cs)"
      using key o(3) u(4) esc(3) by (intro reads_low_unit) (simp_all add: byte_def)
    then show ?thesis using u(1) b(1) esc(3) by (intro exI [of _ "(CHR 0x5C # u) @ b"]) simp
  next
    case plain
    obtain t where o: "parse_string n cs = Some (t, r)" "k = c # t" using "3.prems" plain by auto
    obtain b where b: "compact True False cs = b @ CHR 0x22 # compact False False r" "reads b t cs"
      using "3.IH"(2) [OF plain o(1)] by blast
    show ?thesis
    proof (cases "html c")
      case False
      have "key_ok ([c] @ b) ([c] @ t)"
        by (rule key_ok_unit) (use b(2) plain in \<open>auto simp: reads_def inert_char\<close>)
      then have "reads ([c] @ b) k (c # cs)" using o(2) plain by (intro reads_low_unit) simp_all
      then show ?thesis using compact_low [OF plain(4) False plain(1,3), of cs] b(1) by (intro exI [of _ "[c] @ b"]) simp
    next
      case True
      let ?u = "''u00'' @ hex_byte (byte c)"
      have key: "key_ok ((CHR 0x5C # ?u) @ b) ([c] @ t)"
      proof (rule key_ok_unit)
        show "key_ok b t" using b(2) by (simp add: reads_def)
        show "inert ((CHR 0x5C # ?u) @ b)" if "inert b"
          using inert_escape [OF inert_chars [OF that, of "tl ?u"], of "hd ?u"] html_unit(2) [OF True] by simp
        fix q m
        show "parse_string (Suc m) ((CHR 0x5C # ?u) @ b @ CHR 0x22 # q) =
            map_option (\<lambda>(t, r). ([c] @ t, r)) (parse_string m (b @ CHR 0x22 # q))"
          using escape_step [of ?u "b @ CHR 0x22 # q" "[c]" m] html_unit(1) [OF True] by (simp del: parse_string.simps)
      qed simp
      have "reads ((CHR 0x5C # ?u) @ b) k (c # cs)"
        using key o(2) plain(4) html_unit(3) [OF True] by (intro reads_low_unit) (simp_all add: byte_def)
      then show ?thesis using compact_html [OF True, of cs] b(1)
        by (intro exI [of _ "(CHR 0x5C # ?u) @ b"]) (simp add: backslash_def)
    qed
  next
    case multi
    let ?k = "utf8_len (c # cs)"
    show ?thesis
    proof (cases "?k = 0")
      case True
      obtain t where o: "parse_string n cs = Some (t, r)" "k = replacement @ t"
        using "3.prems" multi True by (auto simp: Let_def)
      obtain b where b: "compact True False cs = b @ CHR 0x22 # compact False False r" "reads b t cs"
        using "3.IH"(3) [OF multi refl True o(1)] by blast
      have sep: "\<not> separator (c # cs)"
      proof
        assume "separator (c # cs)"
        then have "\<exists>x q. c # cs = char_of (0xE2::nat) # char_of (0x80::nat) # x # q \<and>
          (x = char_of (0xA8::nat) \<or> x = char_of (0xA9::nat))" by (rule separator_head)
        then show False using True by (auto simp: utf8_len.simps(2) Let_def continuation_def byte_def)
      qed
      have inv: "utf8_len (c # b @ CHR 0x22 # q) = 0" for q
        using utf8_len_invalid [OF True, of "b @ CHR 0x22 # q"] b(2) by (simp add: reads_def)
      have key: "key_ok ([c] @ b) (replacement @ t)"
      proof (rule key_ok_unit)
        fix q m
        show "parse_string (Suc m) ([c] @ b @ CHR 0x22 # q) =
            map_option (\<lambda>(t, r). (replacement @ t, r)) (parse_string m (b @ CHR 0x22 # q))"
          using multi inv [of q] by (simp add: Let_def)
      qed (use b(2) multi in \<open>auto simp: reads_def inert_char\<close>)
      have "reads ([c] @ b) k (c # cs)" using key o(2) b(2) multi(3) by (auto simp: reads_def)
      moreover have "\<not> html c" using multi(4) by (auto simp: html_def byte_def)
      ultimately show ?thesis using compact_plain [OF sep _ multi(1,3)] b(1) by (intro exI [of _ "[c] @ b"]) simp
    next
      case False
      obtain t where o: "parse_string n (drop ?k (c # cs)) = Some (t, r)" "k = take ?k (c # cs) @ t"
        using "3.prems" multi False by (auto simp: Let_def)
      obtain b where b: "compact True False (drop ?k (c # cs)) = b @ CHR 0x22 # compact False False r"
        "reads b t (drop ?k (c # cs))"
        using "3.IH"(4) [OF multi refl False o(1)] by blast
      let ?u = "take ?k (c # cs)"
      have rune: "rune ?u" "length ?u = ?k" using utf8_len_rune [OF False] by blast+
      have split: "c # cs = ?u @ drop ?k (c # cs)" by simp
      show ?thesis
      proof (cases "separator (c # cs)")
        case True
        then obtain x q where x: "c # cs = char_of (0xE2::nat) # char_of (0x80::nat) # x # q"
          "x = char_of (0xA8::nat) \<or> x = char_of (0xA9::nat)" using separator_head by blast
        then have k3: "?k = 3" by (auto simp: utf8_len.simps(2) Let_def continuation_def byte_def)
        have sepu: "?u = map char_of [0xE2::nat, 0x80, 0xA8] \<or> ?u = map char_of [0xE2::nat, 0x80, 0xA9]"
          using x unfolding k3 by auto
        obtain v where v: "escape_rune ?u = CHR 0x5C # v" "\<forall>y\<in>set v. y \<noteq> CHR 0x22 \<and> y \<noteq> CHR 0x5C"
          using separator_unit [OF sepu, of "[]"] by blast
        have v2: "escape_seq (v @ x) = Some (?u, x) \<and> \<not> low_start (CHR 0x5C # v @ x)" for x
          using separator_unit [OF sepu, of x] v(1) by auto
        have key: "key_ok ((CHR 0x5C # v) @ b) (?u @ t)"
        proof (rule key_ok_unit)
          show "key_ok b t" using b(2) by (simp add: reads_def)
          show "inert ((CHR 0x5C # v) @ b)" if "inert b"
          proof (cases v)
            case Nil
            then show ?thesis using v2 [of "[]"] by (simp add: escape_seq_def)
          next
            case (Cons e es)
            then show ?thesis using inert_escape [OF inert_chars [OF that, of es], of e] v(2) by simp
          qed
          fix q m
          show "parse_string (Suc m) ((CHR 0x5C # v) @ b @ CHR 0x22 # q) =
              map_option (\<lambda>(t, r). (?u @ t, r)) (parse_string m (b @ CHR 0x22 # q))"
            using escape_step [of v "b @ CHR 0x22 # q" ?u m] v2 by (simp del: parse_string.simps)
        qed simp
        have "\<not> trailing c" "\<not> trailing CHR 0x5C" using x(1) by (auto simp: trailing_def byte_def)
        then have "reads ((CHR 0x5C # v) @ b) k (c # cs)" using key o(2) v2 by (simp add: reads_def)
        then show ?thesis using compact_separator [OF True] v(1) b(1) k3 by (intro exI [of _ "(CHR 0x5C # v) @ b"]) simp
      next
        case sep: False
        obtain us where us: "?u = c # us" using rune by (cases ?u) (auto simp: rune_def take_Cons split: nat.splits)
        have tr: "list_all trailing us" using rune(1) us by (simp add: rune_def)
        have quiet: "\<forall>y\<in>set ?u. y \<noteq> CHR 0x22 \<and> y \<noteq> CHR 0x5C"
          using tr multi trailing_plain unfolding us by (auto simp: list_all_iff)
        have html: "\<not> html c" using multi(4) by (auto simp: html_def byte_def)
        have cs: "cs = us @ drop ?k (c # cs)" using split us by (metis append_Cons list.inject)
        have flat: "compact True False (c # cs) = ?u @ compact True False (drop ?k (c # cs))"
          using compact_plain [OF sep html multi(1,3)] compact_trailing [OF tr, of "drop ?k (c # cs)"] cs us by simp
        have key: "key_ok (?u @ b) (?u @ t)"
        proof (rule key_ok_unit)
          show "key_ok b t" using b(2) by (simp add: reads_def)
          show "inert (?u @ b)" if "inert b" by (rule inert_chars [OF that quiet])
          show "?u \<noteq> []" using us by simp
          fix q m
          have l: "utf8_len (?u @ b @ CHR 0x22 # q) = ?k" using rune by (simp add: rune_def)
          have "take ?k (?u @ b @ CHR 0x22 # q) = ?u" "drop ?k (?u @ b @ CHR 0x22 # q) = b @ CHR 0x22 # q"
            using rune(2) by simp_all
          then show "parse_string (Suc m) (?u @ b @ CHR 0x22 # q) =
              map_option (\<lambda>(t, r). (?u @ t, r)) (parse_string m (b @ CHR 0x22 # q))"
            using multi False l unfolding us by (simp add: Let_def)
        qed
        have "takeWhile trailing (?u @ b @ CHR 0x22 # q) = takeWhile trailing (c # cs)" for q
        proof -
          have "takeWhile trailing (us @ b @ CHR 0x22 # q) = us @ takeWhile trailing (b @ CHR 0x22 # q)"
            "takeWhile trailing (us @ drop ?k (c # cs)) = us @ takeWhile trailing (drop ?k (c # cs))"
            using tr by (simp_all add: list_all_iff)
          then show ?thesis using b(2) cs us by (simp add: reads_def)
        qed
        then have "reads (?u @ b) k (c # cs)" using key o(2) us multi(3) by (simp add: reads_def)
        then show ?thesis using flat b(1) by (intro exI [of _ "?u @ b"]) simp
      qed
    qed
  qed
qed simp_all

section \<open>Numbers\<close>

definition stop :: "string \<Rightarrow> bool" where
  "stop x \<longleftrightarrow> (case x of [] \<Rightarrow> True | c # _ \<Rightarrow> \<not> is_digit_byte c)"

lemma digits_again:
  "digits s = Some (d, r) \<Longrightarrow> s = d @ r \<and> d \<noteq> [] \<and> list_all is_digit_byte d \<and> (\<forall>x. stop x \<longrightarrow> digits (d @ x) = Some (d, x))"
proof -
  assume a: "digits s = Some (d, r)"
  then have d: "d = takeWhile is_digit_byte s" "r = dropWhile is_digit_byte s" "d \<noteq> []" by (auto simp: digits_def split: if_splits)
  then have all: "list_all is_digit_byte d" by (auto simp: list_all_iff dest: set_takeWhileD)
  have "digits (d @ x) = Some (d, x)" if "stop x" for x
  proof -
    have "takeWhile is_digit_byte x = []" "dropWhile is_digit_byte x = x" using that by (auto simp: stop_def split: list.splits)
    then show ?thesis using all d(3) by (simp add: digits_def list_all_iff)
  qed
  then show ?thesis using d all by simp
qed

lemma int_again:
  "int_part s = Some (i, r) \<Longrightarrow> s = i @ r \<and> i \<noteq> [] \<and> list_all is_digit_byte i \<and> (\<forall>x. stop x \<longrightarrow> int_part (i @ x) = Some (i, x))"
proof -
  assume a: "int_part s = Some (i, r)"
  then obtain c cs where s: "s = c # cs" by (cases s) (auto simp: int_part_def)
  show ?thesis
  proof (cases "c = CHR ''0''")
    case True
    then show ?thesis using a by (auto simp: s int_part_def is_digit_byte_def byte_def)
  next
    case False
    then have d: "digits s = Some (i, r)" using a by (simp add: s int_part_def)
    note g = digits_again [OF d]
    then have "hd i = c" using s by (cases i) auto
    then show ?thesis using g False by (cases i) (auto simp: int_part_def)
  qed
qed

lemma frac_again:
  "frac_part s = Some (f, r) \<Longrightarrow> s = f @ r \<and> (f = [] \<or> hd f = CHR ''.'') \<and> (\<forall>c\<in>set f. c = CHR ''.'' \<or> is_digit_byte c) \<and>
    (\<forall>x. stop x \<longrightarrow> (f = [] \<longrightarrow> x = [] \<or> hd x \<noteq> CHR ''.'') \<longrightarrow> frac_part (f @ x) = Some (f, x))"
proof -
  assume a: "frac_part s = Some (f, r)"
  show ?thesis
  proof (cases "\<exists>cs. s = CHR ''.'' # cs")
    case True
    then obtain cs where s: "s = CHR ''.'' # cs" by blast
    then obtain d where d: "digits cs = Some (d, r)" "f = CHR ''.'' # d" using a by (auto simp: frac_part_def)
    show ?thesis using digits_again [OF d(1)] s d(2) by (auto simp: frac_part_def list_all_iff)
  next
    case False
    then have f: "f = []" "r = s" using a by (auto simp: frac_part_def split: list.splits if_splits)
    have "frac_part x = Some ([], x)" if "x = [] \<or> hd x \<noteq> CHR ''.''" for x
      using that by (cases x) (auto simp: frac_part_def)
    then show ?thesis using f by auto
  qed
qed

lemma exp_again:
  "exp_part s = Some (e, r) \<Longrightarrow> s = e @ r \<and> (e = [] \<or> hd e = CHR ''e'' \<or> hd e = CHR ''E'') \<and>
    (\<forall>c\<in>set e. c = CHR ''e'' \<or> c = CHR ''E'' \<or> c = CHR ''+'' \<or> c = CHR ''-'' \<or> is_digit_byte c) \<and>
    (\<forall>x. stop x \<longrightarrow> (e = [] \<longrightarrow> x = [] \<or> hd x \<noteq> CHR ''e'' \<and> hd x \<noteq> CHR ''E'') \<longrightarrow> exp_part (e @ x) = Some (e, x))"
proof -
  assume a: "exp_part s = Some (e, r)"
  show ?thesis
  proof (cases "\<exists>c cs. s = c # cs \<and> (c = CHR ''e'' \<or> c = CHR ''E'')")
    case True
    then obtain c cs where s: "s = c # cs" "c = CHR ''e'' \<or> c = CHR ''E''" by blast
    then obtain y ys where cs: "cs = y # ys" using a by (cases cs) (auto simp: exp_part_def)
    show ?thesis
    proof (cases "y = CHR ''+'' \<or> y = CHR ''-''")
      case True
      then obtain d where d: "digits ys = Some (d, r)" "e = c # y # d" using a s cs by (auto simp: exp_part_def)
      show ?thesis using digits_again [OF d(1)] s cs d(2) True by (auto simp: exp_part_def list_all_iff)
    next
      case False
      then obtain d where d: "digits cs = Some (d, r)" "e = c # d" using a s cs by (auto simp: exp_part_def)
      note g = digits_again [OF d(1)]
      then obtain ds where ds: "d = y # ds" using cs by (cases d) auto
      have "exp_part (e @ x) = Some (e, x)" if "stop x" for x
        using g that s False unfolding d(2) ds by (auto simp: exp_part_def)
      then show ?thesis using g s d(2) by (auto simp: list_all_iff)
    qed
  next
    case False
    then have e: "e = []" "r = s" using a by (auto simp: exp_part_def split: list.splits if_splits)
    have "exp_part x = Some ([], x)" if "x = [] \<or> hd x \<noteq> CHR ''e'' \<and> hd x \<noteq> CHR ''E''" for x
      using that by (cases x) (auto simp: exp_part_def)
    then show ?thesis using e by auto
  qed
qed

definition number_char :: "char \<Rightarrow> bool" where
  "number_char c \<longleftrightarrow> is_digit_byte c \<or> List.member ''+-.eE'' c"

lemma delimited_stop: "delimited r \<Longrightarrow> stop r \<and> (r = [] \<or> hd r \<noteq> CHR ''.'' \<and> hd r \<noteq> CHR ''e'' \<and> hd r \<noteq> CHR ''E'')"
  by (cases r) (auto simp: delimited_def stop_def json_ws_def is_digit_byte_def byte_def)

lemma number_again:
  assumes "parse_number s = Some (t, r)"
  shows "s = t @ r \<and> t \<noteq> [] \<and> list_all number_char t \<and> (\<forall>x. delimited x \<longrightarrow> parse_number (t @ x) = Some (t, x))"
proof -
  obtain sign s0 where sign: "s = sign @ s0" "sign = ''-'' \<or> sign = [] \<and> (s0 = [] \<or> hd s0 \<noteq> CHR ''-'')"
    "(case s of c # cs \<Rightarrow> if c = CHR ''-'' then ([c], cs) else ([], s) | [] \<Rightarrow> ([], [])) = (sign, s0)"
  proof (cases "\<exists>cs. s = CHR ''-'' # cs")
    case True
    then show ?thesis using that [of "''-''"] by auto
  next
    case False
    then show ?thesis using that [of "[]" s] by (cases s) auto
  qed
  obtain i s1 f s2 e where p: "int_part s0 = Some (i, s1)" "frac_part s1 = Some (f, s2)" "exp_part s2 = Some (e, r)"
    "t = sign @ i @ f @ e"
    using assms unfolding parse_number_def sign(3) by (auto split: option.splits prod.splits)
  note i = int_again [OF p(1)] and f = frac_again [OF p(2)] and e = exp_again [OF p(3)]
  have "parse_number (t @ x) = Some (t, x)" if x: "delimited x" for x
  proof -
    note d = delimited_stop [OF x]
    have e1: "exp_part (e @ x) = Some (e, x)" using e d by blast
    have not_num: "\<not> is_digit_byte CHR ''e'' \<and> \<not> is_digit_byte CHR ''E'' \<and> \<not> is_digit_byte CHR ''.''"
      by (simp add: is_digit_byte_def byte_def)
    have se: "stop (e @ x) \<and> (e @ x = [] \<or> hd (e @ x) \<noteq> CHR ''.'')"
    proof (cases e)
      case Nil
      then show ?thesis using d by auto
    next
      case (Cons a as)
      then have "a = CHR ''e'' \<or> a = CHR ''E''" using e by simp
      then show ?thesis using not_num unfolding Cons stop_def by auto
    qed
    then have f1: "frac_part (f @ e @ x) = Some (f, e @ x)" using f by blast
    have "stop (f @ e @ x)"
    proof (cases f)
      case (Cons a as)
      then have "a = CHR ''.''" using f by simp
      then show ?thesis using not_num unfolding Cons stop_def by simp
    qed (use se in simp)
    then have i1: "int_part (i @ f @ e @ x) = Some (i, f @ e @ x)" using i by blast
    obtain c cs where c: "i = c # cs" "is_digit_byte c" using i by (cases i) auto
    then have "c \<noteq> CHR ''-''" by (auto simp: is_digit_byte_def byte_def)
    then show ?thesis using sign(2) p(4) i1 f1 e1 c by (auto simp: parse_number_def)
  qed
  moreover have "list_all number_char t" using p(4) sign(2) i f e by (auto simp: number_char_def list_all_iff)
  ultimately show ?thesis using sign(1) i f e p(4) by auto
qed

section \<open>Scalars\<close>

text \<open>\<open>lit_ok t v\<close>: the literal \<open>t\<close> denotes \<open>v\<close>, whatever follows, and is kept by the indentation.\<close>

definition lit_ok :: "string \<Rightarrow> json \<Rightarrow> bool" where
  "lit_ok t v \<longleftrightarrow> t \<noteq> [] \<and> \<not> json_ws (hd t) \<and> hd t \<notin> set ''[]{}'' \<and>
     (\<forall>r. delimited r \<longrightarrow> parse_scalar (t @ r) = Some (v, r)) \<and>
     (\<forall>d r. indent False False False d (t @ r) = t @ indent False False False d r)"

lemma lit_string:
  assumes "key_ok b k"
  shows "lit_ok (CHR 0x22 # b @ [CHR 0x22]) (JStr k)"
proof -
  have "parse_string (Suc (length (b @ CHR 0x22 # r))) (b @ CHR 0x22 # r) = Some (k, r)" for r
    using assms by (simp add: key_ok_def)
  moreover have "indent True False False d (b @ CHR 0x22 # r) = b @ CHR 0x22 # indent False False False d r" for d r
    using assms by (simp add: key_ok_def inert_def)
  ultimately show ?thesis by (simp add: lit_ok_def parse_scalar_def json_ws_def byte_def del: parse_string.simps)
qed

text \<open>Characters that neither compaction nor indentation touches outside a literal.\<close>

definition bare :: "char \<Rightarrow> bool" where
  "bare c \<longleftrightarrow> byte c < 128 \<and> \<not> json_ws c \<and> \<not> html c \<and> c \<noteq> CHR 0x22 \<and> c \<notin> set ''[]{},:''"

lemma indent_bare: "list_all bare t \<Longrightarrow> indent False False False d (t @ r) = t @ indent False False False d r"
  by (induction t) (auto simp: bare_def)

lemma compact_bare: "list_all bare t \<Longrightarrow> compact False False (t @ r) = t @ compact False False r"
proof (induction t)
  case (Cons c t)
  then have b: "bare c" by simp
  then have "\<not> separator (c # t @ r)" by (intro not_separator) (simp add: bare_def)
  then show ?case using Cons b by (auto simp: bare_def separator_def html_def)
qed simp

lemma compact_punctuation [simp]:
  "c \<in> set ''[]{},:'' \<Longrightarrow> compact False False (c # cs) = c # compact False False cs"
proof -
  assume c: "c \<in> set ''[]{},:''"
  then have "\<not> separator (c # cs)" by (intro not_separator) (auto simp: byte_def)
  moreover have "\<not> json_ws c" "c \<noteq> CHR 0x22" "\<not> html c" using c by (auto simp: json_ws_def html_def byte_def)
  ultimately show ?thesis by (simp add: separator_def html_def)
qed

lemma compact_skip: "compact False False (skip_ws s) = compact False False s"
  by (induction s) (simp_all add: skip_ws_def)

lemma number_bare: "number_char c \<Longrightarrow> bare c"
  by (auto simp: number_char_def bare_def json_ws_def html_def is_digit_byte_def byte_def)

lemma lit_bare:
  assumes "list_all bare t" and "t \<noteq> []" and "\<And>r. delimited r \<Longrightarrow> parse_scalar (t @ r) = Some (v, r)"
  shows "lit_ok t v"
proof -
  have "bare (hd t)" using assms(1,2) by (cases t) auto
  then show ?thesis using assms indent_bare [OF assms(1)] by (auto simp: lit_ok_def bare_def)
qed

lemma strip_eq: "strip p s = Some r \<longleftrightarrow> s = p @ r"
  by (auto simp: strip_def has_prefix_iff)

lemma lit_words: "lit_ok ''true'' (JBool True)" "lit_ok ''false'' (JBool False)" "lit_ok ''null'' JNull"
  by (rule lit_bare; simp add: bare_def json_ws_def html_def byte_def parse_scalar_def strip_def)+

lemma lit_number:
  assumes "list_all number_char t" and "t \<noteq> []" and "\<forall>x. delimited x \<longrightarrow> parse_number (t @ x) = Some (t, x)"
  shows "lit_ok t (JNum t)"
proof (rule lit_bare)
  show "list_all bare t" using assms(1) number_bare by (auto simp: list_all_iff)
  fix r assume "delimited r"
  obtain c cs where t: "t = c # cs" using assms(2) by (cases t) auto
  then have "number_char c" using assms(1) by simp
  then have "c \<noteq> CHR 0x22 \<and> c \<noteq> CHR ''t'' \<and> c \<noteq> CHR ''f'' \<and> c \<noteq> CHR ''n''"
    by (auto simp: number_char_def is_digit_byte_def byte_def)
  then show "parse_scalar (t @ r) = Some (JNum t, r)" using assms(3) \<open>delimited r\<close> by (simp add: parse_scalar_def t)
qed (rule assms(2))

text \<open>The compacted text of a scalar is a literal of it.\<close>

lemma compact_scalar:
  assumes "parse_scalar s = Some (v, r)"
  shows "\<exists>t. compact False False s = t @ compact False False r \<and> lit_ok t v"
proof -
  obtain c cs where s: "s = c # cs" using assms by (cases s) (auto simp: parse_scalar_def)
  consider (str) "c = CHR 0x22" | (t) "c = CHR ''t''" | (f) "c = CHR ''f''" | (n) "c = CHR ''n''"
    | (number) "c \<noteq> CHR 0x22" "c \<noteq> CHR ''t''" "c \<noteq> CHR ''f''" "c \<noteq> CHR ''n''" by blast
  then show ?thesis
  proof cases
    case str
    then obtain k where k: "parse_string (Suc (length cs)) cs = Some (k, r)" "v = JStr k"
      using assms by (auto simp: parse_scalar_def s simp del: parse_string.simps)
    obtain b where b: "compact True False cs = b @ CHR 0x22 # compact False False r" "reads b k cs"
      using compact_string [OF k(1)] by blast
    have "compact False False s = CHR 0x22 # compact True False cs"
      using not_separator [of "CHR 0x22" cs] by (simp add: s str separator_def json_ws_def byte_def)
    then show ?thesis using b lit_string [of b k] k(2)
      by (intro exI [of _ "CHR 0x22 # b @ [CHR 0x22]"]) (simp add: reads_def)
  next
    case t
    then have "s = ''true'' @ r" "v = JBool True" using assms strip_eq [of "''true''" s] by (auto simp: parse_scalar_def s)
    then show ?thesis using lit_words(1) compact_bare [of "''true''" r]
      by (auto simp: bare_def json_ws_def html_def byte_def simp del: compact.simps)
  next
    case f
    then have "s = ''false'' @ r" "v = JBool False" using assms strip_eq [of "''false''" s] by (auto simp: parse_scalar_def s)
    then show ?thesis using lit_words(2) compact_bare [of "''false''" r]
      by (auto simp: bare_def json_ws_def html_def byte_def simp del: compact.simps)
  next
    case n
    then have "s = ''null'' @ r" "v = JNull" using assms strip_eq [of "''null''" s] by (auto simp: parse_scalar_def s)
    then show ?thesis using lit_words(3) compact_bare [of "''null''" r]
      by (auto simp: bare_def json_ws_def html_def byte_def simp del: compact.simps)
  next
    case number
    then obtain t where t: "parse_number s = Some (t, r)" "v = JNum t" using assms by (auto simp: parse_scalar_def s)
    note g = number_again [OF t(1)]
    have "list_all bare t" using g number_bare by (auto simp: list_all_iff)
    then show ?thesis using g lit_number [of t] t(2) compact_bare [of t r] by (intro exI [of _ t]) simp
  qed
qed

end
