(* ===== verification/JsonTree.thy ===== *)
theory JsonTree
  imports JsonLayout
begin

text \<open>
  The tree of a JSON text.  \<open>layout\<close> writes a tree, \<open>flat\<close> as a compact text and \<open>pretty\<close> as
  \<open>json.MarshalIndent\<close> does; \<open>meaning\<close> is the value that every layout denotes.  The lists inside arrays and
  objects are not empty.  A member has the body of its key, between the quotes, and the key.
\<close>

datatype tree = Lit string json | NoElems | NoMembers | Arr elems | Obj fields
  and elems = Elem tree | Elems tree elems
  and fields = Field string string tree | Fields string string tree fields

text \<open>A layout puts \<open>nl d\<close> before an item at depth \<open>d\<close> and before the closing bracket, and \<open>sp\<close> after a colon.\<close>

primrec layout :: "(nat \<Rightarrow> string) \<Rightarrow> string \<Rightarrow> nat \<Rightarrow> tree \<Rightarrow> string"
  and layout_elems :: "(nat \<Rightarrow> string) \<Rightarrow> string \<Rightarrow> nat \<Rightarrow> elems \<Rightarrow> string"
  and layout_fields :: "(nat \<Rightarrow> string) \<Rightarrow> string \<Rightarrow> nat \<Rightarrow> fields \<Rightarrow> string" where
  "layout nl sp d (Lit t v) = t"
| "layout nl sp d NoElems = ''[]''"
| "layout nl sp d NoMembers = ''{}''"
| "layout nl sp d (Arr es) = CHR ''['' # nl (Suc d) @ layout_elems nl sp (Suc d) es @ nl d @ '']''"
| "layout nl sp d (Obj ms) = CHR ''{'' # nl (Suc d) @ layout_fields nl sp (Suc d) ms @ nl d @ ''}''"
| "layout_elems nl sp d (Elem y) = layout nl sp d y"
| "layout_elems nl sp d (Elems y es) = layout nl sp d y @ CHR '','' # nl d @ layout_elems nl sp d es"
| "layout_fields nl sp d (Field b k y) = CHR 0x22 # b @ CHR 0x22 # CHR '':'' # sp @ layout nl sp d y"
| "layout_fields nl sp d (Fields b k y ms) =
     CHR 0x22 # b @ CHR 0x22 # CHR '':'' # sp @ layout nl sp d y @ CHR '','' # nl d @ layout_fields nl sp d ms"

text \<open>The compact layout and the one of \<open>json.MarshalIndent\<close>.\<close>

abbreviation flat :: "tree \<Rightarrow> string" where "flat \<equiv> layout (\<lambda>_. []) [] 0"

abbreviation flat_elems :: "elems \<Rightarrow> string" where "flat_elems \<equiv> layout_elems (\<lambda>_. []) [] 0"

abbreviation flat_fields :: "fields \<Rightarrow> string" where "flat_fields \<equiv> layout_fields (\<lambda>_. []) [] 0"

abbreviation pretty :: "nat \<Rightarrow> tree \<Rightarrow> string" where "pretty \<equiv> layout newline '' ''"

abbreviation pretty_elems :: "nat \<Rightarrow> elems \<Rightarrow> string" where "pretty_elems \<equiv> layout_elems newline '' ''"

abbreviation pretty_fields :: "nat \<Rightarrow> fields \<Rightarrow> string" where "pretty_fields \<equiv> layout_fields newline '' ''"

lemma flat_depth [simp]:
  "layout (\<lambda>_. []) [] (Suc d) y = layout (\<lambda>_. []) [] d y"
  "layout_elems (\<lambda>_. []) [] (Suc d) es = layout_elems (\<lambda>_. []) [] d es"
  "layout_fields (\<lambda>_. []) [] (Suc d) ms = layout_fields (\<lambda>_. []) [] d ms"
  by (induction y and es and ms arbitrary: d and d and d) simp_all

primrec meaning :: "tree \<Rightarrow> json" and elem_values :: "elems \<Rightarrow> json list"
  and field_values :: "fields \<Rightarrow> (string \<times> json) list \<Rightarrow> (string \<times> json) list" where
  "meaning (Lit t v) = v"
| "meaning NoElems = JArr []"
| "meaning NoMembers = JObj []"
| "meaning (Arr es) = JArr (elem_values es)"
| "meaning (Obj ms) = JObj (field_values ms [])"
| "elem_values (Elem y) = [meaning y]"
| "elem_values (Elems y es) = meaning y # elem_values es"
| "field_values (Field b k y) acc = AList.update k (meaning y) acc"
| "field_values (Fields b k y ms) acc = field_values ms (AList.update k (meaning y) acc)"

text \<open>The literals and keys denote what the tree says.\<close>

primrec sound :: "tree \<Rightarrow> bool" and sound_elems :: "elems \<Rightarrow> bool" and sound_fields :: "fields \<Rightarrow> bool" where
  "sound (Lit t v) = lit_ok t v"
| "sound NoElems = True"
| "sound NoMembers = True"
| "sound (Arr es) = sound_elems es"
| "sound (Obj ms) = sound_fields ms"
| "sound_elems (Elem y) = sound y"
| "sound_elems (Elems y es) = (sound y \<and> sound_elems es)"
| "sound_fields (Field b k y) = (key_ok b k \<and> sound y)"
| "sound_fields (Fields b k y ms) = (key_ok b k \<and> sound y \<and> sound_fields ms)"

primrec nesting :: "tree \<Rightarrow> nat" and nesting_elems :: "elems \<Rightarrow> nat" and nesting_fields :: "fields \<Rightarrow> nat" where
  "nesting (Lit t v) = 0"
| "nesting NoElems = 1"
| "nesting NoMembers = 1"
| "nesting (Arr es) = Suc (nesting_elems es)"
| "nesting (Obj ms) = Suc (nesting_fields ms)"
| "nesting_elems (Elem y) = nesting y"
| "nesting_elems (Elems y es) = max (nesting y) (nesting_elems es)"
| "nesting_fields (Field b k y) = nesting y"
| "nesting_fields (Fields b k y ms) = max (nesting y) (nesting_fields ms)"

section \<open>Every accepted text has a tree\<close>

lemma compact_end: "skip_ws s = c # cs \<Longrightarrow> c \<in> set ''[]{},:'' \<Longrightarrow> compact False False s = c # compact False False cs"
  using compact_skip [of s] compact_punctuation [of c cs] by simp

lemma compact_key:
  assumes "skip_ws s = CHR 0x22 # qs" and "parse_string (Suc (length qs)) qs = Some (k, r)"
  shows "\<exists>b. compact False False s = CHR 0x22 # b @ CHR 0x22 # compact False False r \<and> key_ok b k"
proof -
  have "compact False False s = CHR 0x22 # compact True False qs"
    using compact_skip [of s] not_separator [of "CHR 0x22" qs] assms(1)
    by (simp add: separator_def json_ws_def byte_def)
  then show ?thesis using compact_string [OF assms(2)] by (auto simp: reads_def)
qed

lemma parse_value_scalar:
  "parse_value (Suc n) d s = Some (v, r) \<Longrightarrow> skip_ws s = c # cs \<Longrightarrow> c \<noteq> CHR ''['' \<Longrightarrow> c \<noteq> CHR ''{'' \<Longrightarrow>
   parse_scalar (skip_ws s) = Some (v, r)"
  by (simp add: parse_value_step del: parse_string.simps)

lemma parsed_tree:
  "parse_value n d s = Some (v, r) \<Longrightarrow>
     \<exists>y. compact False False s = flat y @ compact False False r \<and> sound y \<and> meaning y = v \<and> nesting y \<le> d"
  "parse_elems n d acc s = Some (v, r) \<Longrightarrow>
     \<exists>es. compact False False s = flat_elems es @ CHR '']'' # compact False False r \<and> sound_elems es \<and>
       JArr (acc @ elem_values es) = v \<and> nesting_elems es \<le> d"
  "parse_members n d mem s = Some (v, r) \<Longrightarrow>
     \<exists>ms. compact False False s = flat_fields ms @ CHR ''}'' # compact False False r \<and> sound_fields ms \<and>
       JObj (field_values ms mem) = v \<and> nesting_fields ms \<le> d"
proof (induction n d s and n d acc s and n d mem s arbitrary: v r and v r and v r
    rule: parse_value_parse_elems_parse_members.induct)
  case (2 n d s)
  note compact.simps [simp del] and parse_string.simps [simp del]
  obtain c cs where s: "skip_ws s = c # cs" using "2.prems" by (cases "skip_ws s") (auto simp: parse_value.simps(2))
  consider (arr) "c = CHR ''[''" | (obj) "c = CHR ''{''" | (scalar) "c \<noteq> CHR ''[''" "c \<noteq> CHR ''{''" by blast
  then show ?case
  proof cases
    case arr
    then obtain x xs where x: "d \<noteq> 0" "skip_ws cs = x # xs"
      "if x = CHR '']'' then v = JArr [] \<and> r = xs else parse_elems n (d - 1) [] (x # xs) = Some (v, r)"
      using "2.prems" s by (auto simp: parse_value.simps(2) split: if_splits list.splits)
    have open_: "compact False False s = CHR ''['' # compact False False cs" using compact_end [OF s] arr by simp
    show ?thesis
    proof (cases "x = CHR '']''")
      case True
      then show ?thesis using x open_ compact_end [OF x(2)] by (intro exI [of _ NoElems]) simp
    next
      case False
      then have p: "parse_elems n (d - 1) [] (x # xs) = Some (v, r)" using x(3) by simp
      have "\<exists>es. compact False False (x # xs) = flat_elems es @ CHR '']'' # compact False False r \<and> sound_elems es \<and>
          JArr ([] @ elem_values es) = v \<and> nesting_elems es \<le> d - 1"
        using "2.IH"(1) [OF s _ _ x(1) x(2) False p] arr by simp
      then obtain es where "compact False False (x # xs) = flat_elems es @ CHR '']'' # compact False False r"
        "sound_elems es" "JArr (elem_values es) = v" "nesting_elems es \<le> d - 1" by auto
      moreover have "compact False False cs = compact False False (x # xs)" using compact_skip [of cs] x(2) by simp
      ultimately show ?thesis using open_ x(1) by (intro exI [of _ "Arr es"]) simp
    qed
  next
    case obj
    then obtain x xs where x: "d \<noteq> 0" "skip_ws cs = x # xs"
      "if x = CHR ''}'' then v = JObj [] \<and> r = xs else parse_members n (d - 1) [] (x # xs) = Some (v, r)"
      using "2.prems" s by (auto simp: parse_value.simps(2) split: if_splits list.splits)
    have open_: "compact False False s = CHR ''{'' # compact False False cs" using compact_end [OF s] obj by simp
    show ?thesis
    proof (cases "x = CHR ''}''")
      case True
      then show ?thesis using x open_ compact_end [OF x(2)] by (intro exI [of _ NoMembers]) simp
    next
      case False
      then have p: "parse_members n (d - 1) [] (x # xs) = Some (v, r)" using x(3) by simp
      have "\<exists>ms. compact False False (x # xs) = flat_fields ms @ CHR ''}'' # compact False False r \<and> sound_fields ms \<and>
          JObj (field_values ms []) = v \<and> nesting_fields ms \<le> d - 1"
        using "2.IH"(2) [OF s _ _ _ x(1) x(2) False p] obj by simp
      then obtain ms where "compact False False (x # xs) = flat_fields ms @ CHR ''}'' # compact False False r"
        "sound_fields ms" "JObj (field_values ms []) = v" "nesting_fields ms \<le> d - 1" by auto
      moreover have "compact False False cs = compact False False (x # xs)" using compact_skip [of cs] x(2) by simp
      ultimately show ?thesis using open_ x(1) by (intro exI [of _ "Obj ms"]) simp
    qed
  next
    case scalar
    have "parse_scalar (skip_ws s) = Some (v, r)" by (rule parse_value_scalar [OF "2.prems" s scalar])
    then obtain t where "compact False False (skip_ws s) = t @ compact False False r" "lit_ok t v"
      using compact_scalar by blast
    then show ?thesis using compact_skip [of s] by (intro exI [of _ "Lit t v"]) simp
  qed
next
  case (4 n d acc s)
  note compact.simps [simp del]
  obtain v1 rest where v1: "parse_value n d s = Some (v1, rest)" using "4.prems"
    by (auto simp: parse_elems.simps(2) split: option.splits)
  obtain c cs where c: "skip_ws rest = c # cs" using "4.prems" v1 by (auto simp: parse_elems.simps(2) split: list.splits)
  obtain y where y: "compact False False s = flat y @ compact False False rest" "sound y" "meaning y = v1" "nesting y \<le> d"
    using "4.IH"(1) [OF v1] by blast
  show ?case
  proof (cases "c = CHR '',''")
    case True
    then have p: "parse_elems n d (acc @ [v1]) cs = Some (v, r)" using "4.prems" v1 c by (simp add: parse_elems.simps(2))
    obtain es where "compact False False cs = flat_elems es @ CHR '']'' # compact False False r" "sound_elems es"
      "JArr ((acc @ [v1]) @ elem_values es) = v" "nesting_elems es \<le> d"
      using "4.IH"(2) [OF v1 refl c True p] by blast
    then show ?thesis using y compact_end [OF c] True by (intro exI [of _ "Elems y es"]) simp
  next
    case False
    then have "c = CHR '']''" "v = JArr (acc @ [v1])" "r = cs"
      using "4.prems" v1 c by (auto simp: parse_elems.simps(2) split: if_splits)
    then show ?thesis using y compact_end [OF c] by (intro exI [of _ "Elem y"]) simp
  qed
next
  case (6 n d mem s)
  note compact.simps [simp del] and parse_string.simps [simp del]
  obtain q qs where q: "skip_ws s = q # qs" using "6.prems" by (auto simp: parse_members.simps(2) split: list.splits)
  have quote: "q = CHR 0x22" using "6.prems" q by (auto simp: parse_members.simps(2) split: if_splits)
  obtain k rest where k: "parse_string (Suc (length qs)) qs = Some (k, rest)"
    using "6.prems" q quote by (auto simp: parse_members.simps(2) split: option.splits)
  obtain c cs where c: "skip_ws rest = c # cs" using "6.prems" q quote k by (auto simp: parse_members.simps(2) split: list.splits)
  have colon: "c = CHR '':''" using "6.prems" q quote k c by (auto simp: parse_members.simps(2) split: if_splits)
  obtain v1 rest2 where v1: "parse_value n d cs = Some (v1, rest2)"
    using "6.prems" q quote k c colon by (auto simp: parse_members.simps(2) split: option.splits)
  obtain e es where e: "skip_ws rest2 = e # es"
    using "6.prems" q quote k c colon v1 by (auto simp: parse_members.simps(2) split: list.splits)
  obtain b where b: "compact False False s = CHR 0x22 # b @ CHR 0x22 # compact False False rest" "key_ok b k"
    using compact_key [of s qs k rest] q quote k by blast
  have nq: "\<not> q \<noteq> CHR 0x22" and nc: "\<not> c \<noteq> CHR '':''" using quote colon by simp_all
  obtain y where y: "compact False False cs = flat y @ compact False False rest2" "sound y" "meaning y = v1" "nesting y \<le> d"
    using "6.IH"(1) [OF q nq k refl c nc v1] by blast
  have front: "compact False False s = CHR 0x22 # b @ CHR 0x22 # CHR '':'' # flat y @ compact False False rest2"
    using b(1) y(1) compact_end [OF c] colon by simp
  show ?case
  proof (cases "e = CHR '',''")
    case True
    then have p: "parse_members n d (AList.update k v1 mem) es = Some (v, r)"
      using "6.prems" q quote k c colon v1 e by (simp add: parse_members.simps(2))
    obtain ms where "compact False False es = flat_fields ms @ CHR ''}'' # compact False False r" "sound_fields ms"
      "JObj (field_values ms (AList.update k v1 mem)) = v" "nesting_fields ms \<le> d"
      using "6.IH"(2) [OF q nq k refl c nc v1 refl e True p] by blast
    then show ?thesis using y b(2) front compact_end [OF e] True by (intro exI [of _ "Fields b k y ms"]) simp
  next
    case False
    then have "e = CHR ''}''" "v = JObj (AList.update k v1 mem)" "r = es"
      using "6.prems" q quote k c colon v1 e by (auto simp: parse_members.simps(2) split: if_splits)
    then show ?thesis using y b(2) front compact_end [OF e] by (intro exI [of _ "Field b k y"]) simp
  qed
qed simp_all


section \<open>Indentation\<close>

lemma sound_start: "sound y \<Longrightarrow> \<exists>c cs. flat y = c # cs \<and> c \<noteq> CHR ''}'' \<and> c \<noteq> CHR '']''"
  by (cases y) (auto simp: lit_ok_def neq_Nil_conv)

lemma sound_elems_start: "sound_elems es \<Longrightarrow> \<exists>c cs. flat_elems es = c # cs \<and> c \<noteq> CHR ''}'' \<and> c \<noteq> CHR '']''"
  by (cases es) (auto dest: sound_start)

lemma indent_need:
  "c \<noteq> CHR ''}'' \<Longrightarrow> c \<noteq> CHR '']'' \<Longrightarrow>
   indent False False True d (c # cs) = newline (Suc d) @ indent False False False (Suc d) (c # cs)"
  by (simp add: Let_def)

lemma indent_key:
  "key_ok b k \<Longrightarrow> indent False False False d (CHR 0x22 # b @ CHR 0x22 # r) =
     CHR 0x22 # b @ CHR 0x22 # indent False False False d r"
  by (simp add: key_ok_def inert_def)

lemma indent_colon: "indent False False False d (CHR '':'' # r) = '': '' @ indent False False False d r"
  by simp

lemma indent_flat:
  "sound y \<Longrightarrow> indent False False False d (flat y @ r) = pretty d y @ indent False False False d r"
  "sound_elems es \<Longrightarrow> indent False False False d (flat_elems es @ r) = pretty_elems d es @ indent False False False d r"
  "sound_fields ms \<Longrightarrow> indent False False False d (flat_fields ms @ r) = pretty_fields d ms @ indent False False False d r"
proof (induction y and es and ms arbitrary: d r and d r and d r)
  case (Lit t v)
  then show ?case by (simp add: lit_ok_def)
next
  case (Arr es)
  then have s: "sound_elems es" by simp
  obtain c cs where c: "flat_elems es = c # cs" "c \<noteq> CHR ''}''" "c \<noteq> CHR '']''" using sound_elems_start [OF s] by blast
  have "indent False False True d (flat_elems es @ CHR '']'' # r) =
      newline (Suc d) @ indent False False False (Suc d) (flat_elems es @ CHR '']'' # r)"
    using indent_need [OF c(2,3)] c(1) by simp
  then show ?case using Arr.IH [OF s, of "Suc d" "CHR '']'' # r"] by simp
next
  case (Obj ms)
  then have s: "sound_fields ms" by simp
  have "\<exists>cs. flat_fields ms = CHR 0x22 # cs" by (cases ms) simp_all
  then have "indent False False True d (flat_fields ms @ CHR ''}'' # r) =
      newline (Suc d) @ indent False False False (Suc d) (flat_fields ms @ CHR ''}'' # r)"
    using indent_need [of "CHR 0x22"] by auto
  then show ?case using Obj.IH [OF s, of "Suc d" "CHR ''}'' # r"] by simp
next
  case (Field b k y)
  then have k: "key_ok b k" and y: "sound y" by simp_all
  show ?case using indent_key [OF k, of d "CHR '':'' # flat y @ r"] Field.IH [OF y, of d r] by simp
next
  case (Fields b k y ms)
  then have k: "key_ok b k" and y: "sound y" and ms: "sound_fields ms" by simp_all
  show ?case
    using indent_key [OF k, of d "CHR '':'' # flat y @ CHR '','' # flat_fields ms @ r"]
      Fields.IH(1) [OF y, of d "CHR '','' # flat_fields ms @ r"] Fields.IH(2) [OF ms, of d r] by simp
qed simp_all

section \<open>Every layout denotes the value\<close>

definition blank :: "string \<Rightarrow> bool" where
  "blank w \<longleftrightarrow> list_all json_ws w"

lemma skip_blank [simp]: "blank w \<Longrightarrow> skip_ws (w @ s) = skip_ws s"
  by (simp add: blank_def skip_ws_def list_all_iff)

lemma blank_newline [simp]: "blank (newline d)" "blank []" "blank '' ''"
proof -
  have "json_ws CHR 0x0A" "json_ws CHR '' ''" by (simp_all add: json_ws_def byte_def)
  then show "blank (newline d)" "blank []" "blank '' ''" by (auto simp: blank_def newline_def list_all_iff)
qed

lemma delimited_blank: "blank w \<Longrightarrow> delimited r \<Longrightarrow> delimited (w @ r)"
  by (cases w) (simp_all add: blank_def delimited_def)

lemma parse_value_blank: "blank w \<Longrightarrow> parse_value n d (w @ s) = parse_value n d s"
  by (cases n) (simp_all add: parse_value_step del: parse_string.simps)

lemma parse_elems_blank: "blank w \<Longrightarrow> parse_elems n d acc (w @ s) = parse_elems n d acc s"
  by (cases n) (simp_all add: parse_elems.simps(2) parse_value_blank)

lemma parse_members_blank: "blank w \<Longrightarrow> parse_members n d mem (w @ s) = parse_members n d mem s"
  by (cases n) (simp_all add: parse_members.simps(2) del: parse_string.simps)

lemma lit_json_text: "lit_ok t v \<Longrightarrow> json_text 0 t v"
  by (rule json_text_scalar) (simp_all add: lit_ok_def)

lemma key_parse:
  "key_ok b k \<Longrightarrow> parse_string (Suc (length (b @ CHR 0x22 # r))) (b @ CHR 0x22 # r) = Some (k, r)"
  by (simp add: key_ok_def del: parse_string.simps)

lemma raw_value_blank:
  assumes "blank w" and "json_text k t v" and "k \<le> max_nesting" and "delimited r"
  shows "raw_value (w @ t @ r) = Some (t, v, r)"
proof -
  have "json_decode (w @ t @ r) = Some (v, r)"
    unfolding json_decode_def parse_value_blank [OF assms(1)] by (rule json_textD [OF assms(2-4)]) simp
  then show ?thesis using assms(1) by (simp add: raw_value_def skip_ws_text [OF assms(2)])
qed

lemma raw_items_blank: "blank w \<Longrightarrow> raw_items n True (w @ s) = raw_items n True s"
  by (cases n) (simp_all add: Let_def del: parse_string.simps)

text \<open>The texts of the items of an array and of the members of an object.\<close>

primrec elem_items :: "(nat \<Rightarrow> string) \<Rightarrow> string \<Rightarrow> nat \<Rightarrow> elems \<Rightarrow> (string \<times> string \<times> json) list" where
  "elem_items nl sp d (Elem y) = [('''', layout nl sp d y, meaning y)]"
| "elem_items nl sp d (Elems y es) = ('''', layout nl sp d y, meaning y) # elem_items nl sp d es"

primrec field_items :: "(nat \<Rightarrow> string) \<Rightarrow> string \<Rightarrow> nat \<Rightarrow> fields \<Rightarrow> (string \<times> string \<times> json) list" where
  "field_items nl sp d (Field b k y) = [(k, layout nl sp d y, meaning y)]"
| "field_items nl sp d (Fields b k y ms) = (k, layout nl sp d y, meaning y) # field_items nl sp d ms"

text \<open>What is proved of a layout holds when it puts white space only.\<close>

locale spacing =
  fixes nl :: "nat \<Rightarrow> string" and sp :: string
  assumes ws: "blank (nl d)" "blank sp"
begin

declare ws [simp]

lemma sound_head:
  "sound y \<Longrightarrow> \<exists>c cs. layout nl sp d y = c # cs \<and> \<not> json_ws c \<and> c \<noteq> CHR '']'' \<and> c \<noteq> CHR ''}''"
  by (cases y) (auto simp: lit_ok_def neq_Nil_conv)

lemma layout_parse:
  "sound y \<Longrightarrow> nesting y \<le> k \<Longrightarrow> delimited r \<Longrightarrow> 2 * length (layout nl sp d y @ r) < n \<Longrightarrow>
     parse_value n k (layout nl sp d y @ r) = Some (meaning y, r)"
  "sound_elems es \<Longrightarrow> nesting_elems es \<le> k \<Longrightarrow> blank w \<Longrightarrow> 2 * length (layout_elems nl sp d es @ w @ CHR '']'' # r) + 1 < n \<Longrightarrow>
     parse_elems n k acc (layout_elems nl sp d es @ w @ CHR '']'' # r) = Some (JArr (acc @ elem_values es), r)"
  "sound_fields ms \<Longrightarrow> nesting_fields ms \<le> k \<Longrightarrow> blank w \<Longrightarrow> 2 * length (layout_fields nl sp d ms @ w @ CHR ''}'' # r) + 1 < n \<Longrightarrow>
     parse_members n k mem (layout_fields nl sp d ms @ w @ CHR ''}'' # r) = Some (JObj (field_values ms mem), r)"
proof (induction y and es and ms arbitrary: d k r n and d k r n w acc and d k r n w mem)
  case (Lit t v)
  then show ?case using json_textD [OF lit_json_text [of t v], of k r n] by simp
next
  case NoElems
  then show ?case by (cases n) (simp_all add: parse_value_step json_ws_def byte_def)
next
  case NoMembers
  then show ?case by (cases n) (simp_all add: parse_value_step json_ws_def byte_def)
next
  case (Arr es)
  then obtain m j where n: "n = Suc m" "k = Suc j" by (cases n; cases k) auto
  let ?s = "layout_elems nl sp (Suc d) es @ nl d @ CHR '']'' # r"
  have p: "parse_elems m j [] ?s = Some (JArr ([] @ elem_values es), r)"
    by (rule Arr.IH) (use Arr.prems n in simp_all)
  have "\<exists>c cs. ?s = c # cs \<and> \<not> json_ws c \<and> c \<noteq> CHR '']''"
    using Arr.prems(1) by (cases es) (auto dest!: sound_head [where d = "Suc d"])
  then show ?case using p n by (auto simp: parse_value_step)
next
  case (Obj ms)
  then obtain m j where n: "n = Suc m" "k = Suc j" by (cases n; cases k) auto
  let ?s = "layout_fields nl sp (Suc d) ms @ nl d @ CHR ''}'' # r"
  have p: "parse_members m j [] ?s = Some (JObj (field_values ms []), r)"
    by (rule Obj.IH) (use Obj.prems n in simp_all)
  have "\<exists>cs. ?s = CHR 0x22 # cs" by (cases ms) simp_all
  then show ?case using p n by (auto simp: parse_value_step)
next
  case (Elem y)
  then obtain m where n: "n = Suc m" by (cases n) auto
  have "parse_value m k (layout nl sp d y @ w @ CHR '']'' # r) = Some (meaning y, w @ CHR '']'' # r)"
    by (rule Elem.IH) (use Elem.prems n in \<open>simp_all add: delimited_blank\<close>)
  then show ?case using n Elem.prems(3) by (simp add: parse_elems.simps(2))
next
  case (Elems y es)
  then obtain m where n: "n = Suc m" by (cases n) auto
  let ?r = "nl d @ layout_elems nl sp d es @ w @ CHR '']'' # r"
  obtain c cs where "layout nl sp d y = c # cs" using Elems.prems(1) sound_head [of y d] by auto
  then have "0 < length (layout nl sp d y)" by simp
  then have len: "2 * length (layout nl sp d y @ CHR '','' # ?r) < m" "2 * length (layout_elems nl sp d es @ w @ CHR '']'' # r) + 1 < m"
    using Elems.prems(4) n by simp_all
  have "parse_value m k (layout nl sp d y @ CHR '','' # ?r) = Some (meaning y, CHR '','' # ?r)"
    by (rule Elems.IH(1)) (use Elems.prems len in simp_all)
  moreover have "parse_elems m k (acc @ [meaning y]) ?r = Some (JArr ((acc @ [meaning y]) @ elem_values es), r)"
    unfolding parse_elems_blank [OF ws(1)]
    by (rule Elems.IH(2)) (use Elems.prems len in simp_all)
  ultimately show ?case using n by (simp add: parse_elems.simps(2))
next
  case (Field b key y)
  then obtain m where n: "n = Suc m" by (cases n) auto
  note parse_string.simps [simp del]
  have k: "key_ok b key" and y: "sound y" using Field.prems(1) by simp_all
  let ?r = "w @ CHR ''}'' # r"
  have "parse_value m k (sp @ layout nl sp d y @ ?r) = Some (meaning y, ?r)"
    unfolding parse_value_blank [OF ws(2)]
    by (rule Field.IH) (use Field.prems n in \<open>simp_all add: delimited_blank\<close>)
  then show ?case using n Field.prems(3) key_parse [OF k, of "CHR '':'' # sp @ layout nl sp d y @ ?r"] by (simp add: parse_members.simps(2))
next
  case (Fields b key y ms)
  then obtain m where n: "n = Suc m" by (cases n) auto
  note parse_string.simps [simp del]
  have k: "key_ok b key" and y: "sound y" "sound_fields ms" using Fields.prems(1) by simp_all
  let ?q = "nl d @ layout_fields nl sp d ms @ w @ CHR ''}'' # r"
  let ?r = "CHR '','' # ?q"
  have "parse_value m k (sp @ layout nl sp d y @ ?r) = Some (meaning y, ?r)"
    unfolding parse_value_blank [OF ws(2)]
    by (rule Fields.IH(1)) (use Fields.prems n in simp_all)
  moreover have "parse_members m k (AList.update key (meaning y) mem) ?q =
      Some (JObj (field_values ms (AList.update key (meaning y) mem)), r)"
    unfolding parse_members_blank [OF ws(1)]
    by (rule Fields.IH(2)) (use Fields.prems n in simp_all)
  ultimately show ?case using n key_parse [OF k, of "CHR '':'' # sp @ layout nl sp d y @ ?r"] by (simp add: parse_members.simps(2))
qed

text \<open>A value that nests too deeply is refused.\<close>

lemma layout_deep:
  "sound y \<Longrightarrow> k < nesting y \<Longrightarrow> 2 * length (layout nl sp d y @ r) < n \<Longrightarrow>
     parse_value n k (layout nl sp d y @ r) = None"
  "sound_elems es \<Longrightarrow> k < nesting_elems es \<Longrightarrow> blank w \<Longrightarrow>
     2 * length (layout_elems nl sp d es @ w @ CHR '']'' # r) + 1 < n \<Longrightarrow>
     parse_elems n k acc (layout_elems nl sp d es @ w @ CHR '']'' # r) = None"
  "sound_fields ms \<Longrightarrow> k < nesting_fields ms \<Longrightarrow> blank w \<Longrightarrow>
     2 * length (layout_fields nl sp d ms @ w @ CHR ''}'' # r) + 1 < n \<Longrightarrow>
     parse_members n k mem (layout_fields nl sp d ms @ w @ CHR ''}'' # r) = None"
proof (induction y and es and ms arbitrary: d k r n and d k r n w acc and d k r n w mem)
  case NoElems
  then show ?case by (cases n) (simp_all add: parse_value_step json_ws_def byte_def)
next
  case NoMembers
  then show ?case by (cases n) (simp_all add: parse_value_step json_ws_def byte_def)
next
  case (Arr es)
  then obtain m where n: "n = Suc m" by (cases n) auto
  let ?s = "layout_elems nl sp (Suc d) es @ nl d @ CHR '']'' # r"
  have "\<exists>c cs. ?s = c # cs \<and> \<not> json_ws c \<and> c \<noteq> CHR '']''"
    using Arr.prems(1) by (cases es) (auto dest!: sound_head [where d = "Suc d"])
  moreover have "k = 0 \<or> parse_elems m (k - 1) [] ?s = None"
  proof (cases k)
    case (Suc j)
    have "parse_elems m j [] ?s = None" by (rule Arr.IH) (use Arr.prems n Suc in simp_all)
    then show ?thesis using Suc by simp
  qed simp
  ultimately show ?case using n by (auto simp: parse_value_step)
next
  case (Obj ms)
  then obtain m where n: "n = Suc m" by (cases n) auto
  let ?s = "layout_fields nl sp (Suc d) ms @ nl d @ CHR ''}'' # r"
  have "\<exists>cs. ?s = CHR 0x22 # cs" by (cases ms) simp_all
  moreover have "k = 0 \<or> parse_members m (k - 1) [] ?s = None"
  proof (cases k)
    case (Suc j)
    have "parse_members m j [] ?s = None" by (rule Obj.IH) (use Obj.prems n Suc in simp_all)
    then show ?thesis using Suc by simp
  qed simp
  ultimately show ?case using n by (auto simp: parse_value_step)
next
  case (Elem y)
  then obtain m where n: "n = Suc m" by (cases n) auto
  have "parse_value m k (layout nl sp d y @ w @ CHR '']'' # r) = None" by (rule Elem.IH) (use Elem.prems n in simp_all)
  then show ?case using n by (simp add: parse_elems.simps(2))
next
  case (Elems y es)
  then obtain m where n: "n = Suc m" by (cases n) auto
  let ?r = "nl d @ layout_elems nl sp d es @ w @ CHR '']'' # r"
  obtain c cs where "layout nl sp d y = c # cs" using Elems.prems(1) sound_head [of y d] by auto
  then have "0 < length (layout nl sp d y)" by simp
  then have len: "2 * length (layout nl sp d y @ CHR '','' # ?r) < m"
    "2 * length (layout_elems nl sp d es @ w @ CHR '']'' # r) + 1 < m" using Elems.prems(4) n by simp_all
  show ?case
  proof (cases "k < nesting y")
    case True
    have "parse_value m k (layout nl sp d y @ CHR '','' # ?r) = None"
      by (rule Elems.IH(1)) (use Elems.prems len True in simp_all)
    then show ?thesis using n by (simp add: parse_elems.simps(2))
  next
    case False
    have "parse_value m k (layout nl sp d y @ CHR '','' # ?r) = Some (meaning y, CHR '','' # ?r)"
      by (rule layout_parse(1)) (use Elems.prems len False in simp_all)
    moreover have "parse_elems m k (acc @ [meaning y]) ?r = None" unfolding parse_elems_blank [OF ws(1)]
      by (rule Elems.IH(2)) (use Elems.prems len False in simp_all)
    ultimately show ?thesis using n by (simp add: parse_elems.simps(2))
  qed
next
  case (Field b key y)
  then obtain m where n: "n = Suc m" by (cases n) auto
  note parse_string.simps [simp del]
  have k: "key_ok b key" using Field.prems(1) by simp
  let ?r = "w @ CHR ''}'' # r"
  have "parse_value m k (sp @ layout nl sp d y @ ?r) = None" unfolding parse_value_blank [OF ws(2)]
    by (rule Field.IH) (use Field.prems n in simp_all)
  then show ?case using n key_parse [OF k, of "CHR '':'' # sp @ layout nl sp d y @ ?r"] by (simp add: parse_members.simps(2))
next
  case (Fields b key y ms)
  then obtain m where n: "n = Suc m" by (cases n) auto
  note parse_string.simps [simp del]
  have k: "key_ok b key" using Fields.prems(1) by simp
  let ?q = "nl d @ layout_fields nl sp d ms @ w @ CHR ''}'' # r"
  let ?r = "CHR '','' # ?q"
  note key = key_parse [OF k, of "CHR '':'' # sp @ layout nl sp d y @ ?r"]
  show ?case
  proof (cases "k < nesting y")
    case True
    have "parse_value m k (sp @ layout nl sp d y @ ?r) = None" unfolding parse_value_blank [OF ws(2)]
      by (rule Fields.IH(1)) (use Fields.prems n True in simp_all)
    then show ?thesis using n key by (simp add: parse_members.simps(2))
  next
    case False
    have "parse_value m k (sp @ layout nl sp d y @ ?r) = Some (meaning y, ?r)" unfolding parse_value_blank [OF ws(2)]
      by (rule layout_parse(1)) (use Fields.prems n False in simp_all)
    moreover have "parse_members m k (AList.update key (meaning y) mem) ?q = None" unfolding parse_members_blank [OF ws(1)]
      by (rule Fields.IH(2)) (use Fields.prems n False in simp_all)
    ultimately show ?thesis using n key by (simp add: parse_members.simps(2))
  qed
qed simp_all

lemma layout_decodes:
  assumes "sound y" and "delimited r"
  shows "json_decode (layout nl sp d y @ r) = (if nesting y \<le> max_nesting then Some (meaning y, r) else None)"
  unfolding json_decode_def
  using layout_parse(1) [OF assms(1) _ assms(2), of max_nesting d] layout_deep(1) [OF assms(1), of max_nesting d r] by simp

lemma layout_text:
  assumes "sound y" and "nesting y \<le> k"
  shows "json_text k (layout nl sp d y) (meaning y)"
  using layout_parse(1) [OF assms(1)] sound_head [OF assms(1), of d] assms(2) by (auto simp: json_text_def)


lemma raw_elem_items:
  assumes "sound_elems es" and "nesting_elems es \<le> max_nesting" and "blank w" and "blank w'"
    and "length (elem_items nl sp d es) \<le> n"
  shows "raw_items n False (w' @ layout_elems nl sp d es @ w @ CHR '']'' # r) = Some (elem_items nl sp d es)"
  using assms
proof (induction es arbitrary: n w' rule: elems.induct [of "\<lambda>_. True" _ "\<lambda>_. True"])
  case (Elem y)
  then obtain m where n: "n = Suc m" by (cases n) auto
  have t: "json_text (nesting y) (layout nl sp d y) (meaning y)" by (rule layout_text) (use Elem in simp_all)
  have "raw_value (w' @ layout nl sp d y @ w @ CHR '']'' # r) = Some (layout nl sp d y, meaning y, w @ CHR '']'' # r)"
    by (rule raw_value_blank [OF _ t]) (use Elem.prems in \<open>simp_all add: delimited_blank\<close>)
  then show ?case using n Elem.prems(3) by simp
next
  case (Elems y es)
  then obtain m where n: "n = Suc m" by (cases n) auto
  let ?r = "nl d @ layout_elems nl sp d es @ w @ CHR '']'' # r"
  have t: "json_text (nesting y) (layout nl sp d y) (meaning y)" by (rule layout_text) (use Elems.prems in simp_all)
  have "raw_value (w' @ layout nl sp d y @ CHR '','' # ?r) = Some (layout nl sp d y, meaning y, CHR '','' # ?r)"
    by (rule raw_value_blank [OF _ t]) (use Elems.prems in simp_all)
  moreover have "raw_items m False ?r = Some (elem_items nl sp d es)"
    by (rule Elems.IH) (use Elems.prems n in simp_all)
  ultimately show ?case using n by simp
qed simp_all

lemma raw_field_items:
  assumes "sound_fields ms" and "nesting_fields ms \<le> max_nesting" and "blank w"
    and "length (field_items nl sp d ms) \<le> n"
  shows "raw_items n True (layout_fields nl sp d ms @ w @ CHR ''}'' # r) = Some (field_items nl sp d ms)"
  using assms
proof (induction ms arbitrary: n rule: fields.induct [of "\<lambda>_. True" "\<lambda>_. True"])
  case (Field b key y)
  then obtain m where n: "n = Suc m" by (cases n) auto
  note parse_string.simps [simp del]
  have t: "json_text (nesting y) (layout nl sp d y) (meaning y)" by (rule layout_text) (use Field.prems in simp_all)
  have k: "key_ok b key" using Field.prems by simp
  have "raw_value (sp @ layout nl sp d y @ w @ CHR ''}'' # r) = Some (layout nl sp d y, meaning y, w @ CHR ''}'' # r)"
    by (rule raw_value_blank [OF _ t]) (use Field.prems in \<open>simp_all add: delimited_blank\<close>)
  then show ?case using n Field.prems(3) key_parse [OF k, of "CHR '':'' # sp @ layout nl sp d y @ w @ CHR ''}'' # r"]
    by (simp add: Let_def)
next
  case (Fields b key y ms)
  then obtain m where n: "n = Suc m" by (cases n) auto
  note parse_string.simps [simp del]
  let ?q = "nl d @ layout_fields nl sp d ms @ w @ CHR ''}'' # r"
  have t: "json_text (nesting y) (layout nl sp d y) (meaning y)" by (rule layout_text) (use Fields.prems in simp_all)
  have k: "key_ok b key" using Fields.prems by simp
  have "raw_value (sp @ layout nl sp d y @ CHR '','' # ?q) = Some (layout nl sp d y, meaning y, CHR '','' # ?q)"
    by (rule raw_value_blank [OF _ t]) (use Fields.prems in simp_all)
  moreover have "raw_items m True ?q = Some (field_items nl sp d ms)"
    unfolding raw_items_blank [OF ws(1)] by (rule Fields.IH) (use Fields.prems n in simp_all)
  ultimately show ?case using n key_parse [OF k, of "CHR '':'' # sp @ layout nl sp d y @ CHR '','' # ?q"] by (simp add: Let_def)
qed simp_all

lemma length_elem_items: "length (elem_items nl sp d es) \<le> length (layout_elems nl sp e es) + 1"
  by (induction es rule: elems.induct [of "\<lambda>_. True" _ "\<lambda>_. True"]) simp_all

lemma length_field_items: "length (field_items nl sp d ms) \<le> length (layout_fields nl sp e ms)"
  by (induction ms rule: fields.induct [of "\<lambda>_. True" "\<lambda>_. True"]) simp_all

lemma raw_members_layout:
  assumes "sound_fields ms" and "Suc (nesting_fields ms) \<le> max_nesting" and "delimited r"
  shows "raw_value (layout nl sp d (Obj ms) @ r) = Some (layout nl sp d (Obj ms), meaning (Obj ms), r)"
    and "raw_members (layout nl sp d (Obj ms) @ r) = Some (field_items nl sp (Suc d) ms)"
proof -
  let ?t = "layout nl sp d (Obj ms)"
  have t: "json_text (Suc (nesting_fields ms)) ?t (meaning (Obj ms))"
    using layout_text [of "Obj ms" "Suc (nesting_fields ms)" d] assms(1) by simp
  show v: "raw_value (?t @ r) = Some (?t, meaning (Obj ms), r)" by (rule raw_value_text [OF t assms(2,3)])
  let ?b = "layout_fields nl sp (Suc d) ms @ nl d @ CHR ''}'' # []"
  have b: "tl ?t = nl (Suc d) @ ?b" by simp
  have "\<exists>q. ?b = CHR 0x22 # q" by (cases ms) simp_all
  then have ne: "skip_ws (tl ?t) \<noteq> ''}''" unfolding b by auto
  have "raw_items (length ?t) True ?b = Some (field_items nl sp (Suc d) ms)"
    by (rule raw_field_items) (use assms length_field_items [of "Suc d" ms "Suc d"] in simp_all)
  then have "raw_items (length ?t) True (tl ?t) = Some (field_items nl sp (Suc d) ms)"
    unfolding b raw_items_blank [OF ws(1)] .
  then show "raw_members (?t @ r) = Some (field_items nl sp (Suc d) ms)" using v ne by (simp add: raw_members_def)
qed

lemma raw_elements_layout:
  assumes "sound_elems es" and "Suc (nesting_elems es) \<le> max_nesting" and "delimited r"
  shows "raw_elements (layout nl sp d (Arr es) @ r) = Some (map snd (elem_items nl sp (Suc d) es))"
proof -
  let ?t = "layout nl sp d (Arr es)"
  have t: "json_text (Suc (nesting_elems es)) ?t (meaning (Arr es))"
    using layout_text [of "Arr es" "Suc (nesting_elems es)" d] assms(1) by simp
  have v: "raw_value (?t @ r) = Some (?t, meaning (Arr es), r)" by (rule raw_value_text [OF t assms(2,3)])
  have b: "tl ?t = nl (Suc d) @ layout_elems nl sp (Suc d) es @ nl d @ CHR '']'' # []" by simp
  have "raw_items (length ?t) False (tl ?t) = Some (elem_items nl sp (Suc d) es)"
    unfolding b by (rule raw_elem_items) (use assms length_elem_items [of "Suc d" es "Suc d"] in simp_all)
  moreover have "elem_values es \<noteq> []" by (cases es) simp_all
  ultimately show ?thesis using v by (simp add: raw_elements_def)
qed

end

interpretation wide: spacing newline "'' ''"
  by unfold_locales simp_all

interpretation tight: spacing "\<lambda>_. []" "[]"
  by unfold_locales simp_all

end
