(* ===== verification/ConfigRound.thy ===== *)
theory ConfigRound
  imports JsonTree
begin

text \<open>
  What is saved is what is loaded: the document that \<open>Save\<close> encodes, decoded by \<open>Load\<close>.  The text of a
  document is a tree; its strings and options are literals and subtrees, so the decoder reads each
  field back, whatever the strings hold, and each options value up to its layout.
\<close>

section \<open>Encoded strings\<close>

text \<open>A string is valid UTF-8.  The encoder replaces what is not.\<close>

function utf8 :: "string \<Rightarrow> bool" where
  "utf8 [] = True"
| "utf8 (c # cs) = (if byte c < 128 then utf8 cs
     else if utf8_len (c # cs) = 0 then False else utf8 (drop (utf8_len (c # cs)) (c # cs)))"
  by pat_completeness auto
termination
  by (relation "measure length") auto

lemma ascii_utf8: "ascii s \<Longrightarrow> utf8 s"
  by (induction s) (simp_all add: ascii_def)

lemma inert_escaped: "inert b \<Longrightarrow> inert (escape_ascii c @ b)"
proof -
  assume b: "inert b"
  have "\<forall>x\<in>set (''00'' @ hex_byte (byte c)). x \<noteq> CHR 0x22 \<and> x \<noteq> CHR 0x5C"
  proof -
    have "hex_digit n \<noteq> CHR 0x22 \<and> hex_digit n \<noteq> CHR 0x5C" if "n < 16" for n
      using hex_plain [of "hex_digit n"] hex_value_digit [OF that] by simp
    moreover have "byte c < 16 * 16" by (simp add: byte_def)
    then have "byte c div 16 < 16" by (rule less_mult_imp_div_less)
    ultimately show ?thesis by (simp add: hex_byte_def)
  qed
  then have "inert ((''00'' @ hex_byte (byte c)) @ b)" by (rule inert_chars [OF b])
  then have "inert (CHR 0x5C # CHR ''u'' # (''00'' @ hex_byte (byte c)) @ b)" by (rule inert_escape)
  then show ?thesis using b by (auto simp: escape_ascii_def backslash_def inert_escape inert_char)
qed

text \<open>A rune, plain or escaped, before the rest of the literal.\<close>

lemma parse_rune:
  assumes "rune u"
  shows "parse_string (Suc n) (escape_rune u @ x) = map_option (\<lambda>(t, r). (u @ t, r)) (parse_string n x)"
    and "inert b \<Longrightarrow> inert (escape_rune u @ b)" and "escape_rune u \<noteq> []"
proof -
  obtain c us where u: "u = c # us" "128 \<le> byte c" "list_all trailing us" "utf8_len (u @ x) = length u"
    using assms by (cases u) (auto simp: rune_def)
  have c: "c \<noteq> CHR 0x22" "c \<noteq> CHR 0x5C" using u(2) by (auto simp: byte_def)
  have us: "y \<noteq> CHR 0x22 \<and> y \<noteq> CHR 0x5C" if "y \<in> set us" for y
    using that u(3) trailing_plain [of y] by (simp add: list_all_iff)
  have quiet: "\<forall>y\<in>set u. y \<noteq> CHR 0x22 \<and> y \<noteq> CHR 0x5C" using us c unfolding u(1) by auto
  consider (sep) "u = map char_of [0xE2::nat, 0x80, 0xA8] \<or> u = map char_of [0xE2::nat, 0x80, 0xA9]"
    | (plain) "escape_rune u = u" unfolding escape_rune_def by metis
  then have "parse_string (Suc n) (escape_rune u @ x) = map_option (\<lambda>(t, r). (u @ t, r)) (parse_string n x) \<and>
    (inert b \<longrightarrow> inert (escape_rune u @ b)) \<and> escape_rune u \<noteq> []"
  proof cases
    case sep
    obtain v where v: "escape_rune u = CHR 0x5C # v" "escape_seq (v @ x) = Some (u, x)"
      "\<forall>y\<in>set v. y \<noteq> CHR 0x22 \<and> y \<noteq> CHR 0x5C" using separator_unit [OF sep, of x] by blast
    have ne: "v \<noteq> []" using escape_seq_length [OF v(2)] by auto
    have "inert (CHR 0x5C # v @ b)" if "inert b"
      using inert_escape [OF inert_chars [OF that, of "tl v"], of "hd v"] v(3) ne by (cases v) auto
    then show ?thesis using escape_step [OF v(2), of n] v(1) by (simp del: parse_string.simps)
  next
    case plain
    have "\<not> byte c < 32" "\<not> byte c < 128" using u(2) by auto
    moreover have "utf8_len (c # us @ x) = Suc (length us)" using u(1,4) by simp
    ultimately have "parse_string (Suc n) (c # us @ x) = map_option (\<lambda>(t, r). (c # us @ t, r)) (parse_string n x)"
      using c by (simp add: Let_def)
    then have "parse_string (Suc n) (u @ x) = map_option (\<lambda>(t, r). (u @ t, r)) (parse_string n x)"
      unfolding u(1) append_Cons .
    then show ?thesis using inert_chars [OF _ quiet] plain u(1) by (simp del: parse_string.simps)
  qed
  then show "parse_string (Suc n) (escape_rune u @ x) = map_option (\<lambda>(t, r). (u @ t, r)) (parse_string n x)"
    "inert b \<Longrightarrow> inert (escape_rune u @ b)" "escape_rune u \<noteq> []" by blast+
qed

lemma encoded_key:
  "utf8 s \<Longrightarrow> length s \<le> n \<Longrightarrow> key_ok (encode_chars n s) s"
proof (induction s arbitrary: n rule: utf8.induct)
  case 1
  then show ?case by (cases n) (simp_all add: key_ok_Nil)
next
  case (2 c cs)
  obtain m where n: "n = Suc m" "length cs \<le> m" using "2.prems"(2) by (cases n) auto
  show ?case
  proof (cases "byte c < 128")
    case True
    then have b: "key_ok (encode_chars m cs) cs" using "2.IH"(1) [OF True _ n(2)] "2.prems"(1) by simp
    have "key_ok (escape_ascii c @ encode_chars m cs) ([c] @ cs)"
    proof (rule key_ok_unit [OF b _ inert_escaped])
      show "escape_ascii c \<noteq> []" by (simp add: escape_ascii_def backslash_def)
      show "parse_string (Suc k) (escape_ascii c @ encode_chars m cs @ CHR 0x22 # r) =
          map_option (\<lambda>(t, r). ([c] @ t, r)) (parse_string k (encode_chars m cs @ CHR 0x22 # r))" for r k
        using parse_escaped [OF True, of k] by (simp del: parse_string.simps)
    qed
    then show ?thesis using True n(1) by simp
  next
    case False
    let ?k = "utf8_len (c # cs)"
    have k: "?k \<noteq> 0" "utf8 (drop ?k (c # cs))" using "2.prems"(1) False by (simp_all split: if_splits)
    have b: "key_ok (encode_chars m (drop ?k (c # cs))) (drop ?k (c # cs))"
      using "2.IH"(2) [OF False k, of m] n k(1) by simp
    have rune: "rune (take ?k (c # cs))" using utf8_len_rune [OF k(1)] by blast
    have "key_ok (escape_rune (take ?k (c # cs)) @ encode_chars m (drop ?k (c # cs))) (take ?k (c # cs) @ drop ?k (c # cs))"
      by (rule key_ok_unit [OF b parse_rune(3) [OF rune] parse_rune(2) [OF rune] parse_rune(1) [OF rune]])
    then show ?thesis using False n(1) k(1) by (simp add: Let_def)
  qed
qed


section \<open>Trees of structs\<close>

definition string_tree :: "string \<Rightarrow> tree" where
  "string_tree s = Lit (encode_string s) (JStr s)"

definition bool_tree :: "bool \<Rightarrow> tree" where
  "bool_tree b = Lit (if b then ''true'' else ''false'') (JBool b)"

fun fields_of :: "(string \<times> tree) \<Rightarrow> (string \<times> tree) list \<Rightarrow> fields" where
  "fields_of (k, y) [] = Field (encode_chars (length k) k) k y"
| "fields_of (k, y) (m # ms) = Fields (encode_chars (length k) k) k y (fields_of m ms)"

fun elems_of :: "tree \<Rightarrow> tree list \<Rightarrow> elems" where
  "elems_of y [] = Elem y"
| "elems_of y (z # zs) = Elems y (elems_of z zs)"

fun object_tree :: "(string \<times> tree) list \<Rightarrow> tree" where
  "object_tree [] = NoMembers"
| "object_tree (m # ms) = Obj (fields_of m ms)"

fun array_tree :: "tree list \<Rightarrow> tree" where
  "array_tree [] = NoElems"
| "array_tree (y # ys) = Arr (elems_of y ys)"

lemma sound_scalars [simp]: "utf8 s \<Longrightarrow> sound (string_tree s)" "sound (bool_tree b)"
  using lit_string [OF encoded_key [of s "length s"]] lit_words
  by (simp_all add: string_tree_def bool_tree_def encode_string_def)

lemma scalar_trees [simp]: "nesting (string_tree s) = 0" "nesting (bool_tree b) = 0"
  "meaning (string_tree s) = JStr s" "meaning (bool_tree b) = JBool b"
  "layout nl sp d (string_tree s) = encode_string s" "layout nl sp d (bool_tree b) = (if b then ''true'' else ''false'')"
  by (simp_all add: string_tree_def bool_tree_def)

lemma fields_of_facts:
  "flat_fields (fields_of m ms) = join '','' (map (\<lambda>(k, y). json_field k (flat y)) (m # ms))"
  "field_items nl sp d (fields_of m ms) = map (\<lambda>(k, y). (k, layout nl sp d y, meaning y)) (m # ms)"
  "nesting_fields (fields_of m ms) \<le> n \<longleftrightarrow> (\<forall>(k, y) \<in> set (m # ms). nesting y \<le> n)"
  "(\<forall>(k, y) \<in> set (m # ms). utf8 k \<and> sound y) \<Longrightarrow> sound_fields (fields_of m ms)"
  by (induction m ms rule: fields_of.induct) (simp_all add: json_field_def encode_string_def join_Cons encoded_key)

lemma elems_of_facts:
  "flat_elems (elems_of y ys) = join '','' (map flat (y # ys))"
  "elem_items nl sp d (elems_of y ys) = map (\<lambda>y. ('''', layout nl sp d y, meaning y)) (y # ys)"
  "nesting_elems (elems_of y ys) \<le> n \<longleftrightarrow> (\<forall>y \<in> set (y # ys). nesting y \<le> n)"
  "sound_elems (elems_of y ys) \<longleftrightarrow> (\<forall>y \<in> set (y # ys). sound y)"
  by (induction y ys rule: elems_of.induct) (simp_all add: join_Cons)

lemma object_tree_flat: "flat (object_tree ms) = ''{'' @ join '','' (map (\<lambda>(k, y). json_field k (flat y)) ms) @ ''}''"
  by (cases ms) (simp_all add: fields_of_facts)

lemma array_tree_flat: "flat (array_tree ys) = ''['' @ join '','' (map flat ys) @ '']''"
  by (cases ys) (simp_all add: elems_of_facts)

lemma object_tree_sound: "(\<forall>(k, y) \<in> set ms. utf8 k \<and> sound y) \<Longrightarrow> sound (object_tree ms)"
  by (cases ms) (simp_all add: fields_of_facts)

lemma array_tree_sound: "\<forall>y \<in> set ys. sound y \<Longrightarrow> sound (array_tree ys)"
  by (cases ys) (simp_all add: elems_of_facts)

lemma nesting_object: "ms \<noteq> [] \<Longrightarrow> nesting (object_tree ms) \<le> Suc n \<longleftrightarrow> (\<forall>(k, y) \<in> set ms. nesting y \<le> n)"
  by (cases ms) (simp_all add: fields_of_facts)

lemma nesting_array: "ys \<noteq> [] \<Longrightarrow> nesting (array_tree ys) \<le> Suc n \<longleftrightarrow> (\<forall>y \<in> set ys. nesting y \<le> n)"
  by (cases ys) (simp_all add: elems_of_facts)

context spacing
begin

lemma decode_struct_tree:
  assumes "\<forall>(k, y) \<in> set ms. utf8 k \<and> sound y" and "ms \<noteq> []" and "nesting (object_tree ms) \<le> max_nesting" and "delimited r"
  shows "decode_struct setters zero (layout nl sp d (object_tree ms) @ r) =
    fill setters (map (\<lambda>(k, y). (k, layout nl sp (Suc d) y, meaning y)) ms) zero"
proof -
  obtain m ms' where ms: "ms = m # ms'" using assms(2) by (cases ms) auto
  have s: "sound_fields (fields_of m ms')" using assms(1) unfolding ms by (rule fields_of_facts(4))
  have n: "Suc (nesting_fields (fields_of m ms')) \<le> max_nesting" using assms(3) by (simp add: ms)
  have o: "object_tree ms = Obj (fields_of m ms')" by (simp add: ms)
  show ?thesis
    unfolding decode_struct_def o raw_members_layout [OF s n assms(4)]
    by (simp add: ms fields_of_facts(2))
qed

lemma raw_elements_tree:
  assumes "\<forall>y \<in> set ys. sound y" and "nesting (array_tree ys) \<le> max_nesting" and "delimited r"
  shows "raw_elements (layout nl sp d (array_tree ys) @ r) = Some (map (\<lambda>y. (layout nl sp (Suc d) y, meaning y)) ys)"
proof (cases ys)
  case Nil
  have "raw_value (''[]'' @ r) = Some (''[]'', JArr [], r)"
    using layout_decodes [of NoElems r 0] assms(3) by (simp add: raw_value_def max_nesting_def)
  then show ?thesis by (simp add: Nil raw_elements_def)
next
  case (Cons y zs)
  have s: "sound_elems (elems_of y zs)" using assms(1) by (simp add: Cons elems_of_facts)
  have n: "Suc (nesting_elems (elems_of y zs)) \<le> max_nesting" using assms(2) by (simp add: Cons)
  show ?thesis using raw_elements_layout [OF s n assms(3), of d] by (simp add: Cons elems_of_facts)
qed

lemma decode_lenient_tree:
  assumes "\<forall>(k, y) \<in> set ms. utf8 k \<and> sound y" and "ms \<noteq> []" and "nesting (object_tree ms) \<le> max_nesting"
    and "\<forall>(k, y) \<in> set ms. field_of (map fst setters) k \<noteq> None"
  shows "decode_lenient setters zero (layout nl sp d (object_tree ms)) =
    fill setters (map (\<lambda>(k, y). (k, layout nl sp (Suc d) y, meaning y)) ms) zero"
proof -
  obtain m ms' where ms: "ms = m # ms'" using assms(2) by (cases ms) auto
  have s: "sound_fields (fields_of m ms')" using assms(1) unfolding ms by (rule fields_of_facts(4))
  have n: "Suc (nesting_fields (fields_of m ms')) \<le> max_nesting" using assms(3) by (simp add: ms)
  have o: "object_tree ms = Obj (fields_of m ms')" by (simp add: ms)
  let ?t = "layout nl sp d (Obj (fields_of m ms'))" and ?fs = "map (\<lambda>(k, y). (k, layout nl sp (Suc d) y, meaning y)) ms"
  have r: "raw_members (?t @ []) = Some ?fs"
    unfolding raw_members_layout(2) [OF s n delimited_char(4)] fields_of_facts(2) ms ..
  have "json_decode (?t @ []) = Some (meaning (Obj (fields_of m ms')), [])"
    using layout_decodes [of "Obj (fields_of m ms')" "[]" d] s n by simp
  then have u: "json_unmarshal ?t = Some (meaning (Obj (fields_of m ms')))" by (simp add: json_unmarshal_def skip_ws_def)
  have f: "filter (\<lambda>(k, _). field_of (map fst setters) k \<noteq> None) ?fs = ?fs"
    using assms(4) by (auto simp: filter_id_conv)
  show ?thesis using r u f unfolding o by (simp add: decode_lenient_def)
qed

end

declare utf8.simps(2) [simp del] object_tree.simps(2) [simp del] array_tree.simps(2) [simp del] encode_chars.simps(3) [simp del]

section \<open>The tree of a document\<close>

definition source_members :: "config_source \<Rightarrow> tree \<Rightarrow> (string \<times> tree) list" where
  "source_members c y =
    [(''id'', string_tree (cf_ID c)), (''name'', string_tree (cf_Name c)), (''alias'', string_tree (cf_Alias c)),
     (''type'', string_tree (cf_Type c))] @
    (if cf_DatabaseType c = '''' then [] else [(''database_type'', string_tree (cf_DatabaseType c))]) @
    [(''enabled'', bool_tree (cf_Enabled c)), (''credential_ref'', string_tree (cf_CredentialRef c)), (''options'', y)]"

text \<open>The options of a source as a tree.\<close>

definition options_tree :: "config_source \<Rightarrow> tree \<Rightarrow> bool" where
  "options_tree c y \<longleftrightarrow> sound y \<and> flat y = compact False False (cf_Options c) \<and>
     json_unmarshal (cf_Options c) = Some (meaning y)"

definition plain_source :: "config_source \<Rightarrow> bool" where
  "plain_source c \<longleftrightarrow> utf8 (cf_ID c) \<and> utf8 (cf_Name c) \<and> utf8 (cf_Alias c) \<and> utf8 (cf_Type c) \<and>
     utf8 (cf_DatabaseType c) \<and> utf8 (cf_CredentialRef c)"

lemma compact_blank: "skip_ws r = [] \<Longrightarrow> compact False False r = []"
  using compact_skip [of r] by simp

lemma encode_source_tree:
  assumes "encode_source c = Inr x"
  shows "\<exists>y. options_tree c y \<and> x = flat (object_tree (source_members c y))"
proof -
  obtain v where v: "json_unmarshal (cf_Options c) = Some v" using assms by (auto simp: encode_source_def split: if_splits)
  then obtain r where r: "json_decode (cf_Options c) = Some (v, r)" "skip_ws r = []"
    by (auto simp: json_unmarshal_def split: option.splits if_splits)
  obtain y where y: "compact False False (cf_Options c) = flat y @ compact False False r" "sound y" "meaning y = v"
    using parsed_tree(1) [OF r(1) [unfolded json_decode_def]] by blast
  then have "options_tree c y" using v compact_blank [OF r(2)] by (simp add: options_tree_def)
  moreover have "x = flat (object_tree (source_members c y))"
  proof -
    have "compact False False (cf_Options c) = flat y" using y(1) compact_blank [OF r(2)] by simp
    then show ?thesis using assms v unfolding encode_source_def object_tree_flat source_members_def
      by (cases "cf_DatabaseType c = []") (simp_all del: compact.simps)
  qed
  ultimately show ?thesis by blast
qed

lemma encode_sources_tree:
  "encode_sources cs = Inr xs \<Longrightarrow> \<exists>ys. list_all2 options_tree cs ys \<and>
     xs = map flat (map2 (\<lambda>c y. object_tree (source_members c y)) cs ys)"
proof (induction cs arbitrary: xs)
  case (Cons c cs)
  then obtain x xs' where x: "encode_source c = Inr x" "encode_sources cs = Inr xs'" "xs = x # xs'" by (auto split: sum.splits)
  obtain y where "options_tree c y" "x = flat (object_tree (source_members c y))" using encode_source_tree [OF x(1)] by blast
  moreover obtain ys where "list_all2 options_tree cs ys"
    "xs' = map flat (map2 (\<lambda>c y. object_tree (source_members c y)) cs ys)" using Cons.IH [OF x(2)] by blast
  ultimately show ?case using x(3) by (intro exI [of _ "y # ys"]) simp
qed simp


definition source_trees :: "config_source list \<Rightarrow> tree list \<Rightarrow> tree list" where
  "source_trees cs ys = map2 (\<lambda>c y. object_tree (source_members c y)) cs ys"

definition document_members :: "document \<Rightarrow> tree list \<Rightarrow> (string \<times> tree) list" where
  "document_members d ys =
    [(''version'', Lit (itoa (doc_Version d)) (JNum (itoa (doc_Version d)))),
     (''sources'', if doc_Sources d = None then Lit ''null'' JNull else array_tree (source_trees (sources_of d) ys))]"

lemma source_members_sound:
  assumes "plain_source c" and "options_tree c y"
  shows "\<forall>(k, t) \<in> set (source_members c y). utf8 k \<and> sound t" and "sound (object_tree (source_members c y))"
proof -
  have "utf8 ''id''" "utf8 ''name''" "utf8 ''alias''" "utf8 ''type''" "utf8 ''database_type''" "utf8 ''enabled''"
    "utf8 ''credential_ref''" "utf8 ''options''" by (simp_all add: ascii_utf8 ascii_def byte_def)
  then show s: "\<forall>(k, t) \<in> set (source_members c y). utf8 k \<and> sound t"
    using assms unfolding source_members_def plain_source_def options_tree_def by simp
  show "sound (object_tree (source_members c y))" by (rule object_tree_sound [OF s])
qed

lemma source_trees_sound:
  "list_all2 options_tree cs ys \<Longrightarrow> list_all plain_source cs \<Longrightarrow> \<forall>t \<in> set (source_trees cs ys). sound t"
  by (induction cs ys rule: list_all2_induct) (simp_all add: source_trees_def source_members_sound)

lemma digit_tree:
  assumes "is_digit_byte c" and "c \<noteq> CHR ''0''"
  shows "lit_ok [c] (JNum [c])"
proof (rule lit_number)
  show "list_all number_char [c]" using assms(1) by (simp add: number_char_def)
  show "\<forall>x. delimited x \<longrightarrow> parse_number ([c] @ x) = Some ([c], x)"
  proof (intro allI impI)
    fix x
    assume "delimited x"
    note stop = delimited_stop [OF this]
    have "c \<noteq> CHR ''-''" using assms(1) by (auto simp: is_digit_byte_def byte_def)
    then show "parse_number ([c] @ x) = Some ([c], x)" using stop assms
      by (cases x) (auto simp: stop_def parse_number_def int_part_def digits_def frac_part_def exp_part_def)
  qed
qed simp

lemma small_numbers: "lit_ok ''1'' (JNum ''1'')" "lit_ok ''2'' (JNum ''2'')"
  by (rule digit_tree; simp add: is_digit_byte_def byte_def)+

lemma document_members_sound:
  assumes "doc_Version d = CurrentVersion" and "list_all plain_source (sources_of d)" and "list_all2 options_tree (sources_of d) ys"
  shows "\<forall>(k, t) \<in> set (document_members d ys). utf8 k \<and> sound t"
proof -
  have "utf8 ''version''" "utf8 ''sources''" by (rule ascii_utf8; simp add: ascii_def byte_def)+
  moreover have "itoa CurrentVersion = ''1''" by code_simp
  ultimately show ?thesis
    using array_tree_sound [OF source_trees_sound [OF assms(3,2)]] small_numbers(1) lit_words(3) assms(1)
    by (simp add: document_members_def)
qed

lemma document_text_tree:
  "document_text d (map flat (source_trees (sources_of d) ys)) = flat (object_tree (document_members d ys))"
  by (simp add: document_text_def document_members_def object_tree_flat array_tree_flat)

text \<open>The file of a document is the indented text of its tree, which nests no deeper than the decoder reads.\<close>

lemma encode_document_tree:
  assumes "encode_document d = Inr text" and "doc_Version d = CurrentVersion" and "list_all plain_source (sources_of d)"
  shows "\<exists>ys. list_all2 options_tree (sources_of d) ys \<and> text = pretty 0 (object_tree (document_members d ys)) \<and>
    nesting (object_tree (document_members d ys)) \<le> max_nesting"
proof -
  obtain xs where xs: "encode_sources (sources_of d) = Inr xs" "json_unmarshal (document_text d xs) \<noteq> None"
    "text = indent_json (document_text d xs)"
    using assms(1) by (auto simp: encode_document_def split: sum.splits if_splits)
  obtain ys where ys: "list_all2 options_tree (sources_of d) ys" "xs = map flat (source_trees (sources_of d) ys)"
    using encode_sources_tree [OF xs(1)] by (auto simp: source_trees_def)
  let ?t = "object_tree (document_members d ys)"
  have flat: "document_text d xs = flat ?t @ []"
    unfolding ys(2) document_text_tree by simp
  have s: "sound ?t" by (rule object_tree_sound [OF document_members_sound [OF assms(2,3) ys(1)]])
  have "nesting ?t \<le> max_nesting"
  proof (rule ccontr)
    assume "\<not> nesting ?t \<le> max_nesting"
    then have "json_decode (flat ?t @ []) = None" using tight.layout_decodes [OF s delimited_char(4), of 0] by simp
    then show False using xs(2) unfolding flat by (simp add: json_unmarshal_def)
  qed
  moreover have "text = pretty 0 ?t"
    using indent_flat(1) [OF s, of 0 "[]"] unfolding xs(3) flat indent_json_def by simp
  ultimately show ?thesis using ys(1) by blast
qed

text \<open>A document whose options are written by the encoder, and nest within the limit, is encoded.\<close>

lemma options_tree_text:
  assumes "json_text k (cf_Options c) v" and "k + 3 \<le> max_nesting"
  shows "\<exists>y. options_tree c y \<and> nesting y + 3 \<le> max_nesting"
proof -
  let ?n = "2 * length (cf_Options c) + 2"
  have k: "k \<le> max_nesting - 3" using assms(2) by simp
  have p: "parse_value ?n d (cf_Options c) = Some (v, [])" if "k \<le> d" for d
    using json_textD [OF assms(1) that delimited_char(4), of ?n] by simp
  obtain y where y: "compact False False (cf_Options c) = flat y @ compact False False []" "sound y" "meaning y = v"
    "nesting y \<le> max_nesting - 3"
    using parsed_tree(1) [OF p [OF k]] by auto
  have "json_decode (cf_Options c) = Some (v, [])" unfolding json_decode_def by (rule p) (use assms(2) in simp)
  then have "json_unmarshal (cf_Options c) = Some v" by (simp add: json_unmarshal_def skip_ws_def)
  then have "options_tree c y" using y(1-3) by (simp add: options_tree_def)
  then show ?thesis using y(4) assms(2) by (intro exI [of _ y]) simp
qed

lemma encode_sources_trees:
  "list_all2 options_tree cs ys \<Longrightarrow> encode_sources cs = Inr (map flat (source_trees cs ys))"
proof (induction cs ys rule: list_all2_induct)
  case (Cons c cs y ys)
  then have "json_unmarshal (cf_Options c) = Some (meaning y)" "compact False False (cf_Options c) = flat y"
    by (simp_all add: options_tree_def)
  then have "encode_source c = Inr (flat (object_tree (source_members c y)))"
    unfolding encode_source_def object_tree_flat source_members_def
    by (cases "cf_DatabaseType c = []") (simp_all del: compact.simps)
  then show ?case using Cons by (simp add: source_trees_def)
qed (simp add: source_trees_def)

lemma document_nesting:
  assumes "\<forall>(c, y) \<in> set (zip (sources_of d) ys). nesting y + 3 \<le> max_nesting"
  shows "nesting (object_tree (document_members d ys)) \<le> max_nesting"
proof -
  let ?ts = "source_trees (sources_of d) ys"
  have "nesting t \<le> max_nesting - 2" if t: "t \<in> set ?ts" for t
  proof -
    obtain c y where "(c, y) \<in> set (zip (sources_of d) ys)" "t = object_tree (source_members c y)"
      using t by (auto simp: source_trees_def)
    moreover from this have "nesting y + 3 \<le> max_nesting" using assms by blast
    ultimately show ?thesis using nesting_object [of "source_members c y" "max_nesting - 3"]
      by (auto simp: source_members_def max_nesting_def)
  qed
  then have "nesting (array_tree ?ts) \<le> max_nesting - 1"
    using nesting_array [of ?ts "max_nesting - 2"] by (cases "?ts = []") (auto simp: max_nesting_def)
  then show ?thesis using nesting_object [of "document_members d ys" "max_nesting - 1"]
    by (auto simp: document_members_def max_nesting_def)
qed

lemma encode_document_ok:
  assumes "doc_Version d = CurrentVersion" and "list_all plain_source (sources_of d)"
    and "\<forall>c \<in> set (sources_of d). \<exists>k v. json_text k (cf_Options c) v \<and> k + 3 \<le> max_nesting"
  shows "\<exists>out. encode_document d = Inr out"
proof -
  have "\<forall>c \<in> set (sources_of d). \<exists>y. options_tree c y \<and> nesting y + 3 \<le> max_nesting"
    using assms(3) options_tree_text by blast
  then obtain f where f: "\<forall>c \<in> set (sources_of d). options_tree c (f c) \<and> nesting (f c) + 3 \<le> max_nesting" by metis
  let ?ys = "map f (sources_of d)"
  let ?t = "object_tree (document_members d ?ys)"
  have ys: "list_all2 options_tree (sources_of d) ?ys" using f by (simp add: list_all2_conv_all_nth)
  have s: "sound ?t" by (rule object_tree_sound [OF document_members_sound [OF assms(1,2) ys]])
  have "nesting ?t \<le> max_nesting" by (rule document_nesting) (use f in \<open>auto simp: set_zip\<close>)
  then have "json_decode (flat ?t @ []) = Some (meaning ?t, [])" using tight.layout_decodes [OF s delimited_char(4), of 0] by simp
  then have "json_unmarshal (flat ?t) \<noteq> None" by (simp add: json_unmarshal_def skip_ws_def)
  then show ?thesis by (simp add: encode_document_def encode_sources_trees [OF ys] document_text_tree)
qed

section \<open>Decoding the file of a document\<close>

text \<open>The source that is read back: its options are the indented text of their tree.\<close>

definition laid_source :: "(nat \<Rightarrow> string) \<Rightarrow> string \<Rightarrow> nat \<Rightarrow> config_source \<Rightarrow> tree \<Rightarrow> config_source" where
  "laid_source nl sp d c y = c\<lparr>cf_Options := layout nl sp (Suc d) y\<rparr>"

definition laid_document :: "(nat \<Rightarrow> string) \<Rightarrow> string \<Rightarrow> nat \<Rightarrow> document \<Rightarrow> tree list \<Rightarrow> document" where
  "laid_document nl sp k d ys = d\<lparr>doc_Sources := map_option (\<lambda>cs. map2 (laid_source nl sp k) cs ys) (doc_Sources d)\<rparr>"

abbreviation reread :: "nat \<Rightarrow> config_source \<Rightarrow> tree \<Rightarrow> config_source" where
  "reread \<equiv> laid_source newline '' ''"

abbreviation reread_document :: "document \<Rightarrow> tree list \<Rightarrow> document" where
  "reread_document \<equiv> laid_document newline '' '' 2"

context spacing
begin

lemma decode_source:
  assumes "plain_source c" and "options_tree c y" and "nesting (object_tree (source_members c y)) \<le> max_nesting"
  shows "decode_struct source_setters zero_source (layout nl sp d (object_tree (source_members c y))) = Inr (laid_source nl sp d c y)"
proof -
  have ne: "source_members c y \<noteq> []" by (simp add: source_members_def)
  have "decode_struct source_setters zero_source (layout nl sp d (object_tree (source_members c y)) @ []) =
      fill source_setters (map (\<lambda>(k, t). (k, layout nl sp (Suc d) t, meaning t)) (source_members c y)) zero_source"
    by (rule decode_struct_tree [OF source_members_sound(1) [OF assms(1,2)] ne assms(3) delimited_char(4)])
  also have "\<dots> = Inr (laid_source nl sp d c y)"
    by (cases "cf_DatabaseType c = []")
      (simp_all add: source_members_def source_setters_def field_of_def set_string_def set_bool_def set_raw_def laid_source_def
        zero_source_def)
  finally show ?thesis by simp
qed

lemma decode_sources:
  assumes "list_all2 options_tree cs ys" and "list_all plain_source cs"
    and "\<forall>t \<in> set (source_trees cs ys). nesting t \<le> max_nesting"
  shows "decode_elements (decode_struct source_setters zero_source)
    (map (\<lambda>t. (layout nl sp d t, meaning t)) (source_trees cs ys)) = Inr (map2 (laid_source nl sp d) cs ys)"
  using assms
  by (induction cs ys rule: list_all2_induct) (simp_all add: source_trees_def decode_source)

end

lemma meaning_array: "\<exists>vs. meaning (array_tree ys) = JArr vs"
  by (cases ys) (simp_all add: array_tree.simps)

lemma decode_document_tree:
  assumes "doc_Version d = CurrentVersion" and "list_all plain_source (sources_of d)" and "list_all2 options_tree (sources_of d) ys"
    and "nesting (object_tree (document_members d ys)) \<le> max_nesting" and "delimited r"
  shows "decode_document (pretty 0 (object_tree (document_members d ys)) @ r) = Inr (reread_document d ys)"
proof -
  let ?ms = "document_members d ys"
  have s: "\<forall>(k, t) \<in> set ?ms. utf8 k \<and> sound t" by (rule document_members_sound [OF assms(1-3)])
  have ne: "?ms \<noteq> []" by (simp add: document_members_def)
  have one: "itoa CurrentVersion = ''1''" "int_literal ''1'' = Some 1" by code_simp+
  have dec: "decode_document (pretty 0 (object_tree ?ms) @ r) = fill
      [(''version'', set_int (\<lambda>x. doc_Version_update (\<lambda>_. x))), (''sources'', set_sources)]
      (map (\<lambda>(k, y). (k, pretty (Suc 0) y, meaning y)) ?ms) \<lparr>doc_Version = 0, doc_Sources = None\<rparr>"
    unfolding decode_document_def by (rule wide.decode_struct_tree [OF s ne assms(4,5)])
  show ?thesis
  proof (cases "doc_Sources d")
    case None
    then show ?thesis unfolding dec
      by (cases d) (use assms(1) one in \<open>simp add: document_members_def field_of_def set_int_def set_sources_def laid_document_def
        CurrentVersion_def\<close>)
  next
    case (Some cs)
    then have cs: "sources_of d = cs" by (simp add: sources_of_def)
    let ?ts = "source_trees cs ys"
    have t: "\<forall>t \<in> set ?ts. sound t" using source_trees_sound assms(2,3) cs by blast
    have n: "nesting (array_tree ?ts) \<le> max_nesting"
      using assms(4) nesting_object [OF ne, of "max_nesting - 1"] Some cs by (auto simp: document_members_def max_nesting_def)
    then have "\<forall>t \<in> set ?ts. nesting t \<le> max_nesting"
      using nesting_array [of ?ts "max_nesting - 1"] by (cases "?ts = []") (auto simp: max_nesting_def)
    then have els: "decode_elements (decode_struct source_setters zero_source) (map (\<lambda>t. (pretty 2 t, meaning t)) ?ts) =
        Inr (map2 (reread 2) cs ys)" using wide.decode_sources assms(2,3) cs by blast
    have raw: "raw_elements (pretty (Suc 0) (array_tree ?ts)) = Some (map (\<lambda>t. (pretty 2 t, meaning t)) ?ts)"
      using wide.raw_elements_tree [OF t n delimited_char(4), of "Suc 0"] by (simp add: numeral_2_eq_2)
    obtain vs where "meaning (array_tree ?ts) = JArr vs" using meaning_array by blast
    then show ?thesis unfolding dec
      by (cases d) (use assms(1) one Some cs els raw in \<open>simp add: document_members_def field_of_def set_int_def set_sources_def
        laid_document_def CurrentVersion_def\<close>)
  qed
qed


section \<open>What is saved is what is loaded\<close>

text \<open>Two sources that differ in the layout of their options only.\<close>

definition same_source :: "config_source \<Rightarrow> config_source \<Rightarrow> bool" where
  "same_source c c' \<longleftrightarrow> c' = c\<lparr>cf_Options := cf_Options c'\<rparr> \<and> json_unmarshal (cf_Options c') = json_unmarshal (cf_Options c)"

definition same_document :: "document \<Rightarrow> document \<Rightarrow> bool" where
  "same_document d d' \<longleftrightarrow> doc_Version d' = doc_Version d \<and> list_all2 same_source (sources_of d) (sources_of d')"

context spacing
begin

lemma laid_same:
  assumes "options_tree c y" and "nesting y \<le> max_nesting"
  shows "same_source c (laid_source nl sp d c y)"
proof -
  have "json_decode (layout nl sp (Suc d) y @ []) = Some (meaning y, [])"
    using layout_decodes [of y "[]" "Suc d"] assms by (simp add: options_tree_def)
  then show ?thesis using assms(1) by (simp add: same_source_def laid_source_def json_unmarshal_def options_tree_def skip_ws_def)
qed

end

lemma same_source_ok: "same_source c c' \<Longrightarrow> json_unmarshal (cf_Options c) \<noteq> None \<Longrightarrow> source_ok c \<Longrightarrow> source_ok c'"
proof -
  assume same: "same_source c c'" and u: "json_unmarshal (cf_Options c) \<noteq> None" and ok: "source_ok c"
  obtain m rest where m: "json_decode (cf_Options c) = Some (JObj m, rest)" "\<not> has_key secret_field (JObj m)"
    using ok by (auto simp: source_ok_def options_ok_def)
  then have "json_unmarshal (cf_Options c) = Some (JObj m)" using u by (simp add: json_unmarshal_def split: if_splits)
  then have "json_unmarshal (cf_Options c') = Some (JObj m)" using same by (simp add: same_source_def)
  then have "options_ok (cf_Options c')" using m(2)
    by (auto simp: json_unmarshal_def options_ok_def split: option.splits if_splits)
  moreover have "cf_ID c' = cf_ID c \<and> cf_Name c' = cf_Name c \<and> cf_Type c' = cf_Type c \<and> cf_Alias c' = cf_Alias c"
    using same unfolding same_source_def by (metis config_source.select_convs(1-4) config_source.surjective config_source.update_convs(8))
  ultimately show ?thesis using ok by (simp add: source_ok_def)
qed

lemma same_sources_ok:
  "list_all2 same_source cs cs' \<Longrightarrow> \<forall>c \<in> set cs. json_unmarshal (cf_Options c) \<noteq> None \<Longrightarrow> list_all source_ok cs \<Longrightarrow>
   list_all source_ok cs'"
  by (induction rule: list_all2_induct) (auto intro: same_source_ok)

lemma same_document_valid:
  assumes "same_document d d'" and "Validate d = None" and "\<forall>c \<in> set (sources_of d). json_unmarshal (cf_Options c) \<noteq> None"
  shows "Validate d' = None"
proof -
  have l: "list_all2 same_source (sources_of d) (sources_of d')" using assms(1) by (simp add: same_document_def)
  have f: "cf_ID c' = cf_ID c \<and> cf_Alias c' = cf_Alias c \<and> cf_CredentialRef c' = cf_CredentialRef c" if "same_source c c'" for c c'
    using that unfolding same_source_def
    by (metis config_source.select_convs(1,3,7) config_source.surjective config_source.update_convs(8))
  from l have "map cf_ID (sources_of d') = map cf_ID (sources_of d)" "map cf_Alias (sources_of d') = map cf_Alias (sources_of d)"
    "map cf_CredentialRef (sources_of d') = map cf_CredentialRef (sources_of d)"
    by (induction rule: list_all2_induct) (simp_all add: f)
  moreover have "list_all source_ok (sources_of d')"
    using same_sources_ok [OF l assms(3)] assms(2) by (simp add: Validate_ok)
  ultimately show ?thesis using assms(1,2) by (simp add: Validate_ok credential_refs_def same_document_def)
qed

lemma options_nesting:
  assumes "doc_Sources d = Some cs" and "nesting (object_tree (document_members d ys)) \<le> max_nesting" and "(c, y) \<in> set (zip cs ys)"
  shows "nesting y \<le> max_nesting"
proof -
  have cs: "sources_of d = cs" using assms(1) by (simp add: sources_of_def)
  let ?ts = "source_trees cs ys"
  have t: "object_tree (source_members c y) \<in> set ?ts" using assms(3) by (force simp: source_trees_def)
  have "nesting (array_tree ?ts) \<le> max_nesting - 1"
    using assms(2) nesting_object [of "document_members d ys" "max_nesting - 1"] assms(1) cs
    by (auto simp: document_members_def max_nesting_def)
  then have "nesting (object_tree (source_members c y)) \<le> max_nesting - 2"
    using nesting_array [of ?ts "max_nesting - 2"] t by (cases "?ts = []") (auto simp: max_nesting_def)
  then show ?thesis using nesting_object [of "source_members c y" "max_nesting - 3"]
    by (auto simp: source_members_def max_nesting_def)
qed

context spacing
begin

lemma laid_document_same:
  assumes "list_all2 options_tree (sources_of d) ys" and "nesting (object_tree (document_members d ys)) \<le> max_nesting"
  shows "same_document d (laid_document nl sp k d ys)"
proof (cases "doc_Sources d")
  case None
  then show ?thesis by (simp add: same_document_def laid_document_def sources_of_def)
next
  case (Some cs)
  then have cs: "sources_of d = cs" by (simp add: sources_of_def)
  have "nesting y \<le> max_nesting" if "(c, y) \<in> set (zip cs ys)" for c y
    using options_nesting [OF Some assms(2) that] .
  then have "list_all2 same_source cs (map2 (laid_source nl sp k) cs ys)"
    using assms(1) unfolding cs list_all2_conv_all_nth by (auto simp: set_zip intro!: laid_same)
  then show ?thesis using Some by (simp add: same_document_def laid_document_def sources_of_def)
qed

end

lemma utf8_append: "utf8 a \<Longrightarrow> utf8 b \<Longrightarrow> utf8 (a @ b)"
proof (induction a rule: utf8.induct)
  case (2 c cs)
  show ?case
  proof (cases "byte c < 128")
    case True
    then show ?thesis using 2 by (simp add: utf8.simps(2))
  next
    case False
    let ?k = "utf8_len (c # cs)"
    have k: "?k \<noteq> 0" "utf8 (drop ?k (c # cs))" using "2.prems"(1) False by (auto simp: utf8.simps(2) split: if_splits)
    have r: "rune (take ?k (c # cs))" "length (take ?k (c # cs)) = ?k" using utf8_len_rune [OF k(1)] by blast+
    then have "utf8_len (take ?k (c # cs) @ drop ?k (c # cs) @ b) = ?k" by (simp add: rune_def)
    then have l: "utf8_len (c # cs @ b) = ?k" by (metis append.assoc append_Cons append_take_drop_id)
    have "?k \<le> length (c # cs)" using r(2) by simp
    then have "drop ?k (c # cs @ b) = drop ?k (c # cs) @ b" by (metis append_Cons drop_append diff_is_0_eq drop_0)
    then show ?thesis using "2.IH"(2) [OF False k "2.prems"(2)] False k(1) l by (simp add: utf8.simps(2))
  qed
qed simp

lemma migrate_current:
  assumes "Validate d = None"
  shows "migrate d = Inr (Clone d)"
proof -
  have v: "doc_Version d = CurrentVersion" using assms by (simp add: Validate_ok)
  then have c: "\<lparr>doc_Version = CurrentVersion, doc_Sources = Some (sources_of d)\<rparr> = Clone d" by (cases d) (simp add: Clone_def)
  have "sources_of (Clone d) = sources_of d" by (simp add: Clone_def sources_of_def)
  then have "Validate (Clone d) = None" "Clone (Clone d) = Clone d" using assms by (simp_all add: Validate_ok Clone_def)
  then show ?thesis using v unfolding migrate_def c by simp
qed

lemma Save_Load_exact:
  assumes "plain_path path" and "list_all plain_source (sources_of d)" and "Save orc path d dk = (None, dk1)"
    and "or_fault orc' (length (dk_log dk1)) = None"
  shows "\<exists>ys dk2. list_all2 options_tree (sources_of d) ys \<and> nesting (object_tree (document_members d ys)) \<le> max_nesting \<and>
    Load orc' path dk1 = (Inr (Clone (reread_document d ys)), dk2) \<and> dk_files dk2 = dk_files dk1"
proof -
  obtain out where enc: "Validate d = None" "encode_document d = Inr out"
    using assms(3) by (cases "Validate d"; cases "encode_document d") (auto simp: Save_def)
  then have v: "doc_Version d = CurrentVersion" by (simp add: Validate_ok)
  obtain ys where ys: "list_all2 options_tree (sources_of d) ys" "out = pretty 0 (object_tree (document_members d ys))"
    "nesting (object_tree (document_members d ys)) \<le> max_nesting"
    using encode_document_tree [OF enc(2) v assms(2)] by blast
  let ?r = "reread_document d ys"
  have saved: "dk_files dk1 path = Some (out @ [CHR 0x0A], True)"
    using Save_done [OF assms(1,3)] enc(2) by (simp add: save_done_def encoded_file_def)
  have "delimited [CHR 0x0A]" by (simp add: delimited_def json_ws_def byte_def)
  then have dec: "decode_document (out @ [CHR 0x0A]) = Inr ?r"
    using decode_document_tree [OF v assms(2) ys(1,3)] ys(2) by simp
  have same: "same_document d ?r" by (rule wide.laid_document_same [OF ys(1,3)])
  have "\<forall>c \<in> set (sources_of d). json_unmarshal (cf_Options c) \<noteq> None"
    using ys(1) by (auto simp: list_all2_conv_all_nth in_set_conv_nth options_tree_def)
  then have valid: "Validate ?r = None" by (rule same_document_valid [OF same enc(1)])
  have vr: "doc_Version ?r = CurrentVersion" using v by (simp add: laid_document_def)
  obtain dk2 where read: "fs_other orc' dk1 = (None, dk2)" "dk_files dk2 = dk_files dk1"
    using assms(4) by (simp add: fs_other_def sys_call_def)
  have "migrate ?r = Inr (Clone ?r)" by (rule migrate_current [OF valid])
  then have "Load orc' path dk1 = (Inr (Clone ?r), dk2)"
    using dec saved read vr by (simp add: Load_def loadFile_def fs_ReadFile_def)
  then show ?thesis using ys(1,3) read(2) by blast
qed

text \<open>C15. What Save writes, Load reads: after a successful save a load that can read the file returns the
  same version and the same sources in the same order, each field as it was - whatever the strings
  hold, as long as they are UTF-8 - and the options as the same JSON value, and it leaves the files alone.\<close>

theorem Save_Load_roundtrip:
  assumes "plain_path path" and "list_all plain_source (sources_of d)" and "Save orc path d dk = (None, dk1)"
    and "or_fault orc' (length (dk_log dk1)) = None"
  shows "\<exists>d' dk2. Load orc' path dk1 = (Inr d', dk2) \<and> same_document d d' \<and> dk_files dk2 = dk_files dk1"
proof -
  obtain ys dk2 where "list_all2 options_tree (sources_of d) ys" "nesting (object_tree (document_members d ys)) \<le> max_nesting"
    and load: "Load orc' path dk1 = (Inr (Clone (reread_document d ys)), dk2)" "dk_files dk2 = dk_files dk1"
    using Save_Load_exact [OF assms] by blast
  then have "same_document d (reread_document d ys)" by (intro wide.laid_document_same)
  then show ?thesis using load by (simp add: same_document_def Clone_def sources_of_def)
qed

text \<open>On a disk that never fails, a valid document is saved to a path that has no file.\<close>

lemma calm_call:
  "or_fault orc = (\<lambda>_. None) \<Longrightarrow> sys_call orc effect partial dk =
     (None, \<lparr>dk_files = effect (dk_files dk), dk_log = effect (dk_files dk) # dk_log dk\<rparr>)"
  by (simp add: sys_call_def)

lemma calm_Save:
  assumes "or_fault orc = (\<lambda>_. None)" and "Validate d = None" and "encode_document d = Inr out"
    and "dk_files dk = Map.empty"
  shows "\<exists>dk1. Save orc path d dk = (None, dk1)"
proof -
  have "fst (writeAtomic orc path data dk') = None" if "dk_files dk' = Map.empty" for data dk'
    using that
    by (simp add: writeAtomic_def fs_CreateTemp_def fs_other_def calm_call [OF assms(1)] write_temporary_def fs_Write_def
        fs_Sync_def replaceFile_def fs_Rename_def sync_directory_def Let_def split: prod.split)
  from this [of "\<lparr>dk_files = Map.empty, dk_log = Map.empty # Map.empty # dk_log dk\<rparr>" "out @ [CHR 0x0A]"] show ?thesis
    using assms(2-)
    by (auto simp: Save_def backup_existing_def fs_ReadFile_def fs_other_def calm_call [OF assms(1)] split: prod.split option.split)
qed

lemma demo_candidate_plain: "list_all plain_source (sources_of demo_candidate_document)"
  by (simp add: with_source_def empty_document_def sources_of_def demo_source_def plain_source_def ascii_utf8 ascii_def byte_def)

theorem Save_Load_roundtrip_witness:
  "\<exists>dk1 d' dk2. Save calm_oracle demo_path demo_candidate_document demo_disk = (None, dk1) \<and>
     Load calm_oracle demo_path dk1 = (Inr d', dk2) \<and> same_document demo_candidate_document d'"
proof -
  have calm: "or_fault calm_oracle = (\<lambda>_. None)" by (simp add: calm_oracle_def)
  obtain out where "encode_document demo_candidate_document = Inr out" using demo_candidate(2) by blast
  moreover have "dk_files demo_disk = Map.empty" by (simp add: demo_disk_def)
  ultimately obtain dk1 where save: "Save calm_oracle demo_path demo_candidate_document demo_disk = (None, dk1)"
    using calm_Save [OF calm demo_candidate(1)] by blast
  moreover have "or_fault calm_oracle (length (dk_log dk1)) = None" by (simp add: calm)
  ultimately show ?thesis using Save_Load_roundtrip [OF demo_plain demo_candidate_plain save] by blast
qed

end
