(* ===== verification/Identity.thy ===== *)
theory Identity
  imports Protocol JsonRound
begin

text \<open>
  The JSON form of the identity (protocol/v2/identity.go): what a server writes, and the strict
  decoder of a client, which takes one object with no unknown member and nothing after it, and
  validates it.
\<close>

section \<open>Fields\<close>

text \<open>A list of strings is decoded over the present one: a null keeps the element at its place.\<close>

fun string_elements :: "json list \<Rightarrow> string list \<Rightarrow> string list res" where
  "string_elements [] old = Inr []"
| "string_elements (v # vs) old =
     (case (case v of JStr s \<Rightarrow> Inr s | JNull \<Rightarrow> Inr (case old of [] \<Rightarrow> '''' | x # _ \<Rightarrow> x) | _ \<Rightarrow> Inl decode_error) of
        Inl e \<Rightarrow> Inl e
      | Inr s \<Rightarrow> map_sum id (Cons s) (string_elements vs (tl old)))"

definition set_strings ::
  "('a \<Rightarrow> string list) \<Rightarrow> (string list \<Rightarrow> 'a \<Rightarrow> 'a) \<Rightarrow> string \<Rightarrow> json \<Rightarrow> 'a \<Rightarrow> 'a res" where
  "set_strings get upd raw v x = (case v of
     JArr vs \<Rightarrow> (case string_elements vs (get x) of Inl e \<Rightarrow> Inl e | Inr xs \<Rightarrow> Inr (upd xs x))
   | JNull \<Rightarrow> Inr (upd [] x) | _ \<Rightarrow> Inl decode_error)"

definition identity_setters :: "(string \<times> (string \<Rightarrow> json \<Rightarrow> identity \<Rightarrow> identity res)) list" where
  "identity_setters =
    [(''product'', set_string (\<lambda>x. id_Product_update (\<lambda>_. x))),
     (''product_version'', set_string (\<lambda>x. id_ProductVersion_update (\<lambda>_. x))),
     (''protocol_version'', set_int (\<lambda>x. id_ProtocolVersion_update (\<lambda>_. x))),
     (''metadata_version'', set_int (\<lambda>x. id_MetadataVersion_update (\<lambda>_. x))),
     (''connector_types'', set_strings id_ConnectorTypes (\<lambda>x. id_ConnectorTypes_update (\<lambda>_. x))),
     (''read_only'', set_bool (\<lambda>x. id_ReadOnly_update (\<lambda>_. x))),
     (''capabilities'', set_strings id_Capabilities (\<lambda>x. id_Capabilities_update (\<lambda>_. x)))]"

definition zero_identity :: identity where
  "zero_identity = \<lparr>id_Product = '''', id_ProductVersion = '''', id_ProtocolVersion = 0, id_MetadataVersion = 0,
     id_ConnectorTypes = [], id_ReadOnly = False, id_Capabilities = []\<rparr>"

definition identity_members :: "identity \<Rightarrow> members" where
  "identity_members i =
     [(''product'', encode_string (id_Product i), JStr (id_Product i)),
      (''product_version'', encode_string (id_ProductVersion i), JStr (id_ProductVersion i)),
      (''protocol_version'', itoa (id_ProtocolVersion i), JNum (itoa (id_ProtocolVersion i))),
      (''metadata_version'', itoa (id_MetadataVersion i), JNum (itoa (id_MetadataVersion i))),
      (''connector_types'', json_strings (id_ConnectorTypes i), JArr (map JStr (id_ConnectorTypes i))),
      (''read_only'', if id_ReadOnly i then ''true'' else ''false'', JBool (id_ReadOnly i)),
      (''capabilities'', json_strings (id_Capabilities i), JArr (map JStr (id_Capabilities i)))]"

definition encode_identity :: "identity \<Rightarrow> string" where
  "encode_identity i = json_object
     [(''product'', encode_string (id_Product i)), (''product_version'', encode_string (id_ProductVersion i)),
      (''protocol_version'', itoa (id_ProtocolVersion i)), (''metadata_version'', itoa (id_MetadataVersion i)),
      (''connector_types'', json_strings (id_ConnectorTypes i)),
      (''read_only'', if id_ReadOnly i then ''true'' else ''false''),
      (''capabilities'', json_strings (id_Capabilities i))]"

section \<open>Decoding\<close>

text \<open>The second decode must meet the end of the text.  Its error, when there is one, is the cause.\<close>

definition DecodeIdentity :: "string \<Rightarrow> identity res" where
  "DecodeIdentity text = (case decode_struct identity_setters zero_identity text of
     Inl e \<Rightarrow> Inl (mismatch ''identity is malformed'' (Some e))
   | Inr i \<Rightarrow>
       let rest = (case json_decode text of Some (_, rest) \<Rightarrow> rest | None \<Rightarrow> []) in
       if skip_ws rest \<noteq> []
       then Inl (mismatch ''identity is malformed''
         (case decode_struct [] () rest of Inl e \<Rightarrow> Some e | Inr _ \<Rightarrow> None))
       else case ValidateIdentity i of Some e \<Rightarrow> Inl e | None \<Rightarrow> Inr i)"

section \<open>The round trip\<close>

definition go_int :: "int \<Rightarrow> bool" where
  "go_int i \<longleftrightarrow> - (2 ^ 63) \<le> i \<and> i < 2 ^ 63"

definition plain_identity :: "identity \<Rightarrow> bool" where
  "plain_identity i \<longleftrightarrow> ascii (id_Product i) \<and> ascii (id_ProductVersion i) \<and> go_int (id_ProtocolVersion i) \<and>
     go_int (id_MetadataVersion i) \<and> list_all ascii (id_ConnectorTypes i) \<and> list_all ascii (id_Capabilities i)"

lemma go_minus_prefix: "has_prefix ''-'' s \<Longrightarrow> hd s = CHR ''-''"
  by (cases s) simp_all

lemma int_literal_itoa: "go_int i \<Longrightarrow> int_literal (itoa i) = Some i"
proof -
  assume g: "go_int i"
  have d: "list_all is_digit_byte (decimal n)" "decimal n \<noteq> []" for n using decimal_digits by auto
  have "hd (decimal n) \<in> set (decimal n)" for n using d(2) by (rule hd_in_set)
  then have "is_digit_byte (hd (decimal n))" for n
    using d(1) [of n] unfolding list_all_iff by blast
  moreover have "\<not> is_digit_byte CHR ''-''" by (simp add: is_digit_byte_def byte_def)
  ultimately have "\<not> has_prefix ''-'' (decimal n)" for n by (metis go_minus_prefix)
  then show ?thesis
    using g d by (auto simp: itoa_def int_literal_def go_int_def Let_def decimal_value_decimal)
qed

lemma json_text_mono: "json_text k t v \<Longrightarrow> k \<le> l \<Longrightarrow> json_text l t v"
  by (auto simp: json_text_def)

lemma json_text_strings: "list_all ascii xs \<Longrightarrow> json_text (Suc 0) (json_strings xs) (JArr (map JStr xs))"
proof -
  assume "list_all ascii xs"
  then have "list_all2 (json_text 0) (map encode_string xs) (map JStr xs)"
    by (induction xs) (simp_all add: json_text_string)
  from json_text_array [OF this] show ?thesis by (simp add: json_strings_def)
qed

lemma string_elements_strings [simp]: "string_elements (map JStr xs) old = Inr xs"
  by (induction xs arbitrary: old) simp_all

lemma identity_texts: "encode_identity i = json_object (member_texts (identity_members i))"
  by (simp add: encode_identity_def identity_members_def member_texts_def)

lemma ascii_names [simp]: "ascii ''''" "ascii (c # s) \<longleftrightarrow> byte c < 128 \<and> ascii s"
  by (simp_all add: ascii_def)

lemma identity_members_text: "plain_identity i \<Longrightarrow> members_text (Suc 0) (identity_members i)"
  by (auto simp: members_text_def identity_members_def plain_identity_def byte_def json_text_strings
      intro: json_text_mono [OF json_text_string] json_text_mono [OF json_text_int]
        json_text_mono [OF json_text_bool [of True, simplified]] json_text_mono [OF json_text_bool [of False, simplified]])

lemma fill_identity:
  "plain_identity i \<Longrightarrow> fill identity_setters (identity_members i) zero_identity = Inr i"
  by (simp add: identity_members_def identity_setters_def field_of_def set_string_def set_int_def set_bool_def
      set_strings_def int_literal_itoa plain_identity_def)

lemma decode_encoded_identity:
  assumes "plain_identity i" and "delimited r"
  shows "decode_struct identity_setters zero_identity (encode_identity i @ r) = Inr i"
    and "json_decode (encode_identity i @ r) = Some (JObj (member_values (identity_members i)), r)"
proof -
  note m = identity_members_text [OF assms(1)]
  show "decode_struct identity_setters zero_identity (encode_identity i @ r) = Inr i"
    using decode_struct_object [OF m _ assms(2), of identity_setters zero_identity] fill_identity [OF assms(1)]
    by (simp add: identity_texts max_nesting_def)
  show "json_decode (encode_identity i @ r) = Some (JObj (member_values (identity_members i)), r)"
    unfolding json_decode_def identity_texts
    by (rule json_textD [OF json_text_object [OF m] _ assms(2)]) (simp_all add: max_nesting_def)
qed

text \<open>A client reads an identity as the server wrote it: for every identity of ASCII texts and 64-bit
  versions, followed by white space only, the strict decoder returns that identity when it validates
  and the validation error when it does not; when anything else follows, it fails as malformed.\<close>

theorem DecodeIdentity_roundtrip:
  assumes "plain_identity i" and "delimited r"
  shows "DecodeIdentity (encode_identity i @ r) =
    (if skip_ws r = [] then (case ValidateIdentity i of None \<Rightarrow> Inr i | Some e \<Rightarrow> Inl e)
     else Inl (mismatch ''identity is malformed'' (case decode_struct [] () r of Inl e \<Rightarrow> Some e | Inr _ \<Rightarrow> None)))"
  using decode_encoded_identity [OF assms] by (simp add: DecodeIdentity_def split: option.split)

theorem DecodeIdentity_roundtrip_witness:
  "DecodeIdentity (encode_identity CurrentIdentity @ [CHR 0x0A]) = Inr CurrentIdentity"
proof -
  have "plain_identity CurrentIdentity" by code_simp
  moreover have "delimited [CHR 0x0A]" "skip_ws [CHR 0x0A] = []"
    by (simp_all add: delimited_def json_ws_def skip_ws_def byte_def)
  moreover have "ValidateIdentity CurrentIdentity = None" by code_simp
  ultimately show ?thesis using DecodeIdentity_roundtrip [of CurrentIdentity "[CHR 0x0A]"] by simp
qed

end
