(* ===== verification/Pairing.thy ===== *)
theory Pairing
  imports Identity
begin

text \<open>
  The browser pairing exchange (internal/pairing/pairing.go): a listener on the loopback interface
  that hands the endpoint and its token to the first request that comes from an allowed origin, knows
  the nonce and arrives in time.  The parts of net/http that only carry the exchange, the route to
  the handler and the deadlines of a connection, are outside the model: a request is what the handler
  reads of it, and a response what the handler writes.  Times are nanoseconds of one clock.
\<close>

section \<open>The nonce\<close>

definition b64_char :: "nat \<Rightarrow> char" where
  "b64_char n = (if n < 26 then char_of (65 + n) else if n < 52 then char_of (97 + (n - 26))
     else if n < 62 then char_of (48 + (n - 52)) else if n = 62 then CHR ''-'' else CHR ''_'')"

text \<open>\<open>base64.RawURLEncoding\<close>: three bytes are four characters, and there is no padding.\<close>

fun b64_encode :: "string \<Rightarrow> string" where
  "b64_encode (a # b # c # s) =
     (let n = byte a * 65536 + byte b * 256 + byte c
      in [b64_char (n div 262144), b64_char (n div 4096 mod 64), b64_char (n div 64 mod 64), b64_char (n mod 64)])
     @ b64_encode s"
| "b64_encode [a, b] = (let n = byte a * 1024 + byte b * 4
     in [b64_char (n div 4096), b64_char (n div 64 mod 64), b64_char (n mod 64)])"
| "b64_encode [a] = (let n = byte a * 16 in [b64_char (n div 64), b64_char (n mod 64)])"
| "b64_encode [] = []"

definition randomNonce :: "string res \<Rightarrow> string res" where
  "randomNonce random = map_sum id b64_encode random"

section \<open>Start\<close>

record pairing_response =
  pr_Endpoint :: string
  pr_Identity :: identity
  pr_Token :: string

record pairing_options =
  po_Origins :: "string list"
  po_TTL :: int
  po_Endpoint :: string
  po_Token :: string

record challenge =
  ch_URL :: string
  ch_Nonce :: string
  ch_ExpiresAt :: int

record pairing =
  pa_nonce :: string
  pa_expiresAt :: int
  pa_consumed :: bool
  pa_origins :: "string list"
  pa_response :: pairing_response
  pa_open :: bool
  pa_done :: bool

text \<open>What the machine answers: 32 random bytes, the address of the new listener, the time.\<close>

record pairing_host =
  ph_Random :: "string res"
  ph_Listen :: "string res"
  ph_Now :: int

definition default_ttl :: int where "default_ttl = 120 * 10 ^ 9"

definition pairing_Start :: "pairing_host \<Rightarrow> pairing_options \<Rightarrow> (pairing \<times> challenge) res" where
  "pairing_Start host opts =
     (if po_Origins opts = [] then Inl (Plain ''at least one pairing origin is required'')
      else if po_Endpoint opts = '''' \<or> po_Token opts = ''''
      then Inl (Plain ''pairing endpoint and token are required'')
      else
        let ttl = (if po_TTL opts \<le> 0 then default_ttl else po_TTL opts) in
        case randomNonce (ph_Random host) of Inl e \<Rightarrow> Inl e
        | Inr nonce \<Rightarrow> (case ph_Listen host of Inl e \<Rightarrow> Inl e
          | Inr address \<Rightarrow>
              let expiresAt = ph_Now host + ttl in
              Inr (\<lparr>pa_nonce = nonce, pa_expiresAt = expiresAt, pa_consumed = False, pa_origins = po_Origins opts,
                     pa_response = \<lparr>pr_Endpoint = po_Endpoint opts, pr_Identity = CurrentIdentity, pr_Token = po_Token opts\<rparr>,
                     pa_open = True, pa_done = False\<rparr>,
                   \<lparr>ch_URL = ''http://'' @ address @ ''/v2/pair'', ch_Nonce = nonce, ch_ExpiresAt = expiresAt\<rparr>)))"

section \<open>The handler\<close>

record http_request =
  rq_Method :: string
  rq_Origin :: string
  rq_PrivateNetwork :: string
  rq_Body :: string

record http_response =
  rs_Status :: nat
  rs_Header :: "(string \<times> string) list"
  rs_Body :: string

text \<open>\<open>http.Error\<close> sets two headers and ends its text with a line break.\<close>

definition http_error :: "(string \<times> string) list \<Rightarrow> string \<Rightarrow> nat \<Rightarrow> http_response" where
  "http_error header message code = \<lparr>rs_Status = code,
     rs_Header = header @ [(''Content-Type'', ''text/plain; charset=utf-8''), (''X-Content-Type-Options'', ''nosniff'')],
     rs_Body = message @ [CHR 0x0A]\<rparr>"

definition body_limit :: nat where "body_limit = 4096"

text \<open>The decoder over at most \<open>body_limit\<close> bytes.  An object ends with its brace; a null that ends with the
  last byte allowed is followed by the error of the limit when the body goes on.\<close>

definition decode_nonce :: "string \<Rightarrow> string res" where
  "decode_nonce body =
     (let t = take body_limit body in
      if body_limit < length body \<and> (case json_decode t of Some (JNull, rest) \<Rightarrow> rest = [] | _ \<Rightarrow> False)
      then Inl decode_error
      else decode_struct [(''nonce'', set_string (\<lambda>x _. x))] '''' t)"

definition encode_response :: "pairing_response \<Rightarrow> string" where
  "encode_response r = json_object
     [(''endpoint'', encode_string (pr_Endpoint r)), (''identity'', encode_identity (pr_Identity r)),
      (''token'', encode_string (pr_Token r))]"

definition origin_headers :: "string \<Rightarrow> (string \<times> string) list" where
  "origin_headers origin = [(''Access-Control-Allow-Origin'', origin), (''Vary'', ''Origin''), (''Cache-Control'', ''no-store'')]"

definition pairing_handle :: "int \<Rightarrow> http_request \<Rightarrow> pairing \<Rightarrow> http_response \<times> pairing" where
  "pairing_handle now rq p =
     (let origin = rq_Origin rq; header = origin_headers origin in
      if origin \<notin> set (pa_origins p) then (http_error [] ''origin is not allowed'' 403, p)
      else if rq_Method rq = ''OPTIONS'' then
        (\<lparr>rs_Status = 204,
           rs_Header = header @ [(''Access-Control-Allow-Methods'', ''POST''), (''Access-Control-Allow-Headers'', ''Content-Type'')] @
             (if rq_PrivateNetwork rq = ''true'' then [(''Access-Control-Allow-Private-Network'', ''true'')] else []),
           rs_Body = ''''\<rparr>, p)
      else if rq_Method rq \<noteq> ''POST'' then (http_error header ''method is not allowed'' 405, p)
      else case decode_nonce (rq_Body rq) of
        Inl e \<Rightarrow> (http_error header ''malformed pairing request'' 400, p)
      | Inr submitted \<Rightarrow>
          if pa_consumed p then (http_error header ''pairing nonce was already used'' 409, p)
          else if pa_expiresAt p < now then (http_error header ''pairing nonce expired'' 410, p)
          else if submitted \<noteq> pa_nonce p then (http_error header ''pairing nonce is invalid'' 401, p)
          else (\<lparr>rs_Status = 200, rs_Header = header @ [(''Content-Type'', ''application/json'')],
                  rs_Body = encode_response (pa_response p) @ [CHR 0x0A]\<rparr>, p\<lparr>pa_consumed := True\<rparr>))"

section \<open>Close\<close>

text \<open>Closing a channel twice panics, which \<open>once\<close> prevents: \<open>finish\<close> closes it the first time only.  The
  listener is closed by the shutdown, whatever its error.\<close>

definition finish :: "pairing \<Rightarrow> pairing" where
  "finish p = (if pa_done p then p else p\<lparr>pa_done := True\<rparr>)"

definition pairing_Close :: "go_error option \<Rightarrow> pairing \<Rightarrow> go_error option \<times> pairing" where
  "pairing_Close shutdown p = (shutdown, finish (p\<lparr>pa_open := False\<rparr>))"

text \<open>What happens to a server: requests at their times, the end of the serving loop, and closes, by the timer, by
  the successful exchange or by the daemon.  A handler may still run after the listener is closed.\<close>

datatype pairing_event = Request int http_request | Serve_ended | Closed "go_error option"

fun run_pairing :: "pairing_event list \<Rightarrow> pairing \<Rightarrow> http_response list \<times> pairing" where
  "run_pairing [] p = ([], p)"
| "run_pairing (Request now rq # evs) p = (case pairing_handle now rq p of (rs, p) \<Rightarrow>
     (case run_pairing evs p of (rss, p) \<Rightarrow> (rs # rss, p)))"
| "run_pairing (Serve_ended # evs) p = run_pairing evs (finish p)"
| "run_pairing (Closed e # evs) p = run_pairing evs (snd (pairing_Close e p))"

fun requests :: "pairing_event list \<Rightarrow> (int \<times> http_request) list" where
  "requests [] = []"
| "requests (Request now rq # evs) = (now, rq) # requests evs"
| "requests (_ # evs) = requests evs"

section \<open>The token is given once\<close>

definition entitled :: "pairing \<Rightarrow> int \<times> http_request \<Rightarrow> bool" where
  "entitled p x \<longleftrightarrow> rq_Origin (snd x) \<in> set (pa_origins p) \<and> rq_Method (snd x) = ''POST'' \<and>
     decode_nonce (rq_Body (snd x)) = Inr (pa_nonce p) \<and> fst x \<le> pa_expiresAt p"

definition paired :: "pairing \<Rightarrow> http_response \<Rightarrow> bool" where
  "paired p rs \<longleftrightarrow> rs_Status rs = 200 \<and> rs_Body rs = encode_response (pa_response p) @ [CHR 0x0A]"

definition refusals :: "(nat \<times> string) list" where
  "refusals = [(403, ''origin is not allowed''), (405, ''method is not allowed''), (400, ''malformed pairing request''),
     (409, ''pairing nonce was already used''), (410, ''pairing nonce expired''), (401, ''pairing nonce is invalid'')]"

text \<open>A refusal is one of fixed texts, which say nothing of the endpoint, the nonce or the token.\<close>

definition refused :: "http_response \<Rightarrow> bool" where
  "refused rs \<longleftrightarrow> (rs_Status rs = 204 \<and> rs_Body rs = '''') \<or>
     (rs_Status rs, rs_Body rs) \<in> (\<lambda>(code, message). (code, message @ [CHR 0x0A])) ` set refusals"

lemma refused_error: "(c, m) \<in> set refusals \<Longrightarrow> refused (http_error h m c)"
  by (force simp: refused_def http_error_def)

lemma refusal_texts: "(403, ''origin is not allowed'') \<in> set refusals" "(405, ''method is not allowed'') \<in> set refusals"
  "(400, ''malformed pairing request'') \<in> set refusals" "(409, ''pairing nonce was already used'') \<in> set refusals"
  "(410, ''pairing nonce expired'') \<in> set refusals" "(401, ''pairing nonce is invalid'') \<in> set refusals"
  by (simp_all add: refusals_def)

lemmas refusing = refusal_texts [THEN refused_error]

lemma handle_outcome:
  assumes "pairing_handle now rq p = (rs, p')"
  shows "if \<not> pa_consumed p \<and> entitled p (now, rq) then paired p rs \<and> p' = p\<lparr>pa_consumed := True\<rparr> else refused rs \<and> p' = p"
proof (cases "rq_Origin rq \<notin> set (pa_origins p) \<or> rq_Method rq \<noteq> ''POST''")
  case True
  then have "\<not> entitled p (now, rq)" by (simp add: entitled_def) blast
  moreover have "refused rs \<and> p' = p"
  proof (cases "rq_Origin rq \<in> set (pa_origins p) \<and> rq_Method rq = ''OPTIONS''")
    case o: True
    then show ?thesis using assms by (auto simp: pairing_handle_def Let_def refused_def)
  next
    case False
    then show ?thesis using assms True by (auto simp: pairing_handle_def Let_def refusing split: if_split_asm)
  qed
  ultimately show ?thesis by simp
next
  case False
  then have *: "rq_Origin rq \<in> set (pa_origins p)" "rq_Method rq = ''POST''" by simp_all
  show ?thesis
  proof (cases "decode_nonce (rq_Body rq)")
    case (Inl e)
    then show ?thesis using assms * by (auto simp: pairing_handle_def Let_def entitled_def refusing)
  next
    case (Inr n)
    then have e: "entitled p (now, rq) \<longleftrightarrow> n = pa_nonce p \<and> now \<le> pa_expiresAt p"
      using * by (simp add: entitled_def)
    consider (used) "pa_consumed p" | (late) "\<not> pa_consumed p" "pa_expiresAt p < now"
      | (other) "\<not> pa_consumed p" "now \<le> pa_expiresAt p" "n \<noteq> pa_nonce p"
      | (right) "\<not> pa_consumed p" "now \<le> pa_expiresAt p" "n = pa_nonce p" by fastforce
    then show ?thesis
    proof cases
      case used
      then show ?thesis using assms * Inr by (auto simp: pairing_handle_def Let_def refusing)
    next
      case late
      then show ?thesis using assms * Inr e by (auto simp: pairing_handle_def Let_def refusing)
    next
      case other
      then show ?thesis using assms * Inr e by (auto simp: pairing_handle_def Let_def refusing)
    next
      case right
      then show ?thesis using assms * Inr e by (auto simp: pairing_handle_def Let_def paired_def)
    qed
  qed
qed

text \<open>Only the consumed flag bears on a later answer.\<close>

definition same_exchange :: "pairing \<Rightarrow> pairing \<Rightarrow> bool" where
  "same_exchange p q \<longleftrightarrow> pa_nonce q = pa_nonce p \<and> pa_expiresAt q = pa_expiresAt p \<and> pa_origins q = pa_origins p \<and>
     pa_response q = pa_response p"

lemma same_exchange_simps [simp]: "same_exchange p p" "same_exchange p (finish q) = same_exchange p q"
  "same_exchange p (snd (pairing_Close e q)) = same_exchange p q" "same_exchange p (q\<lparr>pa_consumed := b\<rparr>) = same_exchange p q"
  by (simp_all add: same_exchange_def finish_def pairing_Close_def)

lemma same_entitled: "same_exchange p q \<Longrightarrow> entitled q x = entitled p x"
  by (simp add: same_exchange_def entitled_def)

lemma same_paired: "same_exchange p q \<Longrightarrow> paired q rs = paired p rs"
  by (simp add: same_exchange_def paired_def)

lemma consumed_finish [simp]: "pa_consumed (finish p) = pa_consumed p"
  "pa_consumed (snd (pairing_Close e p)) = pa_consumed p" by (simp_all add: finish_def pairing_Close_def)

text \<open>The first entitled request is answered with the response, and every other one refused.\<close>

definition first_entitled :: "pairing \<Rightarrow> (int \<times> http_request) list \<Rightarrow> nat \<Rightarrow> bool" where
  "first_entitled p xs i \<longleftrightarrow> entitled p (xs ! i) \<and> (\<forall>j < i. \<not> entitled p (xs ! j))"

lemma first_entitled_Cons: "first_entitled p (x # xs) (Suc k) \<longleftrightarrow> \<not> entitled p x \<and> first_entitled p xs k"
  by (auto simp: first_entitled_def less_Suc_eq_0_disj)

lemma run_length: "run_pairing evs p = (rss, p') \<Longrightarrow> length rss = length (requests evs)"
  by (induction evs p arbitrary: rss rule: run_pairing.induct) (auto split: prod.splits)

lemma run_outcome:
  "run_pairing evs q = (rss, q') \<Longrightarrow> same_exchange p q \<Longrightarrow> i < length (requests evs) \<Longrightarrow>
   (if \<not> pa_consumed q \<and> first_entitled p (requests evs) i then paired p (rss ! i) else refused (rss ! i))"
proof (induction evs q arbitrary: rss i rule: run_pairing.induct)
  case (2 now rq evs q)
  obtain rs q1 where h: "pairing_handle now rq q = (rs, q1)" by fastforce
  obtain rss2 where r: "run_pairing evs q1 = (rss2, q')" and rss: "rss = rs # rss2"
    using "2.prems"(1) h by (auto split: prod.splits)
  have e: "entitled q x = entitled p x" "paired q y = paired p y" for x y
    using "2.prems"(2) by (simp_all add: same_entitled same_paired)
  note out = handle_outcome [OF h, unfolded e]
  show ?case
  proof (cases i)
    case 0
    then show ?thesis using out rss by (auto simp: first_entitled_def)
  next
    case (Suc k)
    have same: "same_exchange p q1" using out "2.prems"(2) by (auto split: if_splits)
    have "pa_consumed q1 \<longleftrightarrow> pa_consumed q \<or> entitled p (now, rq)" using out by (auto split: if_splits)
    then show ?thesis
      using "2.IH" [OF h [symmetric] r same, of k] "2.prems"(3) rss Suc by (auto simp: first_entitled_Cons)
  qed
next
  case (3 evs q)
  then show ?case using "3.IH" [of rss i] by simp
next
  case (4 e evs q)
  then show ?case using "4.IH" [of rss i] by simp
qed simp

lemma run_ended: "run_pairing evs q = (rss, q') \<Longrightarrow> pa_done q \<Longrightarrow> pa_done q'"
proof (induction evs q arbitrary: rss rule: run_pairing.induct)
  case (2 now rq evs q)
  obtain rs q1 where h: "pairing_handle now rq q = (rs, q1)" by fastforce
  have "pa_done q1" using handle_outcome [OF h] "2.prems"(2) by (auto split: if_splits)
  then show ?case using "2.IH" [OF h [symmetric]] "2.prems"(1) h by (auto split: prod.splits)
qed (auto simp: finish_def pairing_Close_def split: if_splits)

section \<open>The client\<close>

definition response_setters :: "(string \<times> (string \<Rightarrow> json \<Rightarrow> pairing_response \<Rightarrow> pairing_response res)) list" where
  "response_setters =
    [(''endpoint'', set_string (\<lambda>x. pr_Endpoint_update (\<lambda>_. x))),
     (''identity'', \<lambda>raw v r. map_sum id (\<lambda>i. r\<lparr>pr_Identity := i\<rparr>) (decode_struct identity_setters (pr_Identity r) raw)),
     (''token'', set_string (\<lambda>x. pr_Token_update (\<lambda>_. x)))]"

definition zero_response :: pairing_response where
  "zero_response = \<lparr>pr_Endpoint = '''', pr_Identity = zero_identity, pr_Token = ''''\<rparr>"

definition nonce_body :: "string \<Rightarrow> string" where
  "nonce_body nonce = json_object [(''nonce'', encode_string nonce)]"

definition response_limit :: nat where "response_limit = 65536"

text \<open>The manual exchange of the command line.  The first argument is the exchange itself, of the request to the URL
  of the challenge.\<close>

definition consumePairing ::
  "(string \<Rightarrow> http_request \<Rightarrow> 'w \<Rightarrow> http_response res \<times> 'w) \<Rightarrow> challenge \<Rightarrow> string \<Rightarrow> 'w \<Rightarrow> pairing_response res \<times> 'w" where
  "consumePairing exchange c origin w =
     (case exchange (ch_URL c) \<lparr>rq_Method = ''POST'', rq_Origin = origin, rq_PrivateNetwork = '''',
         rq_Body = nonce_body (ch_Nonce c)\<rparr> w of
        (Inl e, w) \<Rightarrow> (Inl e, w)
      | (Inr rs, w) \<Rightarrow>
          (if rs_Status rs \<noteq> 200 then Inl (Plain ''manual pairing failed'')
           else decode_struct response_setters zero_response (take response_limit (rs_Body rs)), w))"

text \<open>The exchange with a server of this repository at one time, when the network carries it.\<close>

definition reach :: "int \<Rightarrow> string \<Rightarrow> http_request \<Rightarrow> pairing \<Rightarrow> http_response res \<times> pairing" where
  "reach now url rq p = (case pairing_handle now rq p of (rs, p) \<Rightarrow> (Inr rs, p))"

lemma decode_nonce_body:
  assumes "ascii nonce" and "length (nonce_body nonce) \<le> body_limit"
  shows "decode_nonce (nonce_body nonce) = Inr nonce"
proof -
  let ?ms = "[(''nonce'', encode_string nonce, JStr nonce)] :: members"
  have body: "nonce_body nonce = json_object (member_texts ?ms)" by (simp add: nonce_body_def member_texts_def)
  have "members_text 0 ?ms" using assms(1) by (simp add: members_text_def json_text_string byte_def)
  from decode_struct_object [OF this, of "[]" "[(''nonce'', set_string (\<lambda>x _. x))]" "''''"] show ?thesis
    using assms(2) by (simp add: decode_nonce_def body max_nesting_def field_of_def set_string_def Let_def)
qed

lemma decode_encoded_response:
  assumes "ascii (pr_Endpoint r)" and "ascii (pr_Token r)" and "plain_identity (pr_Identity r)" and "delimited rest"
  shows "decode_struct response_setters zero_response (encode_response r @ rest) = Inr r"
proof -
  let ?ms = "[(''endpoint'', encode_string (pr_Endpoint r), JStr (pr_Endpoint r)),
      (''identity'', encode_identity (pr_Identity r), JObj (member_values (identity_members (pr_Identity r)))),
      (''token'', encode_string (pr_Token r), JStr (pr_Token r))] :: members"
  have body: "encode_response r = json_object (member_texts ?ms)" by (simp add: encode_response_def member_texts_def)
  have "json_text (Suc (Suc 0)) (encode_identity (pr_Identity r)) (JObj (member_values (identity_members (pr_Identity r))))"
    unfolding identity_texts by (rule json_text_object [OF identity_members_text [OF assms(3)]])
  then have "members_text (Suc (Suc 0)) ?ms"
    using assms(1,2) by (auto simp: members_text_def byte_def intro: json_text_mono [OF json_text_string])
  from decode_struct_object [OF this _ assms(4), of response_setters zero_response] show ?thesis
    using decode_encoded_identity(1) [OF assms(3) delimited_char(4)]
    by (simp add: body max_nesting_def response_setters_def field_of_def set_string_def zero_response_def)
qed

lemma b64_char_ascii: "byte (b64_char n) < 128"
proof -
  have "byte (char_of m) < 128" if "m < 123" for m :: nat using that by (simp add: byte_def)
  then show ?thesis by (auto simp: b64_char_def byte_def)
qed

lemma b64_ascii: "ascii (b64_encode s)"
  by (induction s rule: b64_encode.induct) (auto simp: Let_def b64_char_ascii ascii_def)

lemma b64_length: "3 * length (b64_encode s) = 4 * length s + (case length s mod 3 of 0 \<Rightarrow> 0 | Suc 0 \<Rightarrow> 2 | _ \<Rightarrow> 1)"
  by (induction s rule: b64_encode.induct) (auto simp: Let_def)

lemma b64_char_plain: "escape_ascii (b64_char n) = [b64_char n]"
proof -
  have ne: "char_of m \<noteq> c" if "byte c \<noteq> m" "m < 256" for m :: nat and c
    using that by (auto simp: byte_def)
  show ?thesis
    by (auto simp: b64_char_def escape_ascii_def byte_def ne)
qed

lemma encode_chars_plain:
  "ascii s \<Longrightarrow> \<forall>c \<in> set s. escape_ascii c = [c] \<Longrightarrow> encode_chars (length s) s = s"
  by (induction s) (simp_all add: ascii_def)

lemma b64_plain: "\<forall>c \<in> set (b64_encode s). escape_ascii c = [c]"
  by (induction s rule: b64_encode.induct) (auto simp: Let_def b64_char_plain)

lemma nonce_body_length: "length (nonce_body (b64_encode s)) = length (b64_encode s) + 12"
proof -
  have "encode_string ''nonce'' = [CHR 0x22] @ ''nonce'' @ [CHR 0x22]" by code_simp
  then show ?thesis
    using encode_chars_plain [OF b64_ascii b64_plain, of s] by (simp add: nonce_body_def json_object_def json_field_def encode_string_def)
qed

lemma nonce_short: "length s \<le> 32 \<Longrightarrow> length (nonce_body (b64_encode s)) \<le> body_limit"
proof -
  assume "length s \<le> 32"
  moreover have "(case length s mod 3 of 0 \<Rightarrow> 0 | Suc 0 \<Rightarrow> 2 | _ \<Rightarrow> 1) \<le> (2::nat)" by (auto split: nat.split)
  ultimately have "length (b64_encode s) \<le> 44" using b64_length [of s] by linarith
  then show ?thesis by (simp add: nonce_body_length body_limit_def)
qed

lemma started:
  assumes "pairing_Start host opts = Inr (p, c)"
  shows "\<not> pa_consumed p" "pa_origins p = po_Origins opts" "ch_Nonce c = pa_nonce p" "ch_ExpiresAt c = pa_expiresAt p"
    "pa_response p = \<lparr>pr_Endpoint = po_Endpoint opts, pr_Identity = CurrentIdentity, pr_Token = po_Token opts\<rparr>"
    "pa_expiresAt p = ph_Now host + (if 0 < po_TTL opts then po_TTL opts else default_ttl)"
    "\<exists>random. ph_Random host = Inr random \<and> pa_nonce p = b64_encode random"
  using assms
  by (cases "ph_Random host"; auto simp: pairing_Start_def randomNonce_def Let_def split: if_splits sum.splits)+

text \<open>C26. The pairing exchange gives the token away once.  Whatever requests a started server receives,
  interleaved with any closes, the response with the endpoint, the identity and the token goes to the
  first request that comes from an allowed origin with a POST whose body decodes to the nonce, no
  later than the expiry; that request always gets it, and every other one gets a fixed refusal that
  holds nothing of the exchange.  The expiry is the lifetime asked for, or two minutes.\<close>

theorem pairing_gives_token_once:
  assumes "pairing_Start host opts = Inr (p, c)" and "run_pairing evs p = (rss, p')"
  shows "length rss = length (requests evs) \<and>
    (\<forall>i < length (requests evs).
      if first_entitled p (requests evs) i then paired p (rss ! i) else refused (rss ! i)) \<and>
    pa_response p = \<lparr>pr_Endpoint = po_Endpoint opts, pr_Identity = CurrentIdentity, pr_Token = po_Token opts\<rparr> \<and>
    pa_origins p = po_Origins opts \<and> ch_Nonce c = pa_nonce p \<and> ch_ExpiresAt c = pa_expiresAt p \<and>
    pa_expiresAt p = ph_Now host + (if 0 < po_TTL opts then po_TTL opts else default_ttl)"
  using run_length [OF assms(2)] run_outcome [OF assms(2), of p] started [OF assms(1)] by auto

text \<open>C27. The client of the command line and the server agree: with the challenge of a server that has just started, an
  allowed origin and no later than the expiry, the manual pairing obtains exactly the endpoint, the current
  identity and the token that the server was started with, through both sides' JSON.\<close>

theorem pairing_reaches_client:
  assumes "pairing_Start host opts = Inr (p, c)" and "origin \<in> set (po_Origins opts)" and "now \<le> ch_ExpiresAt c"
    and "\<forall>random. ph_Random host = Inr random \<longrightarrow> length random = 32"
    and "ascii (po_Endpoint opts)" and "ascii (po_Token opts)"
    and "length (encode_response (pa_response p)) < response_limit"
  shows "consumePairing (reach now) c origin p =
    (Inr \<lparr>pr_Endpoint = po_Endpoint opts, pr_Identity = CurrentIdentity, pr_Token = po_Token opts\<rparr>, p\<lparr>pa_consumed := True\<rparr>)"
proof -
  note st = started [OF assms(1)]
  obtain random where r: "ph_Random host = Inr random" "pa_nonce p = b64_encode random" using st(7) by blast
  then have "length (nonce_body (pa_nonce p)) \<le> body_limit" using assms(4) nonce_short by simp
  then have dn: "decode_nonce (nonce_body (pa_nonce p)) = Inr (pa_nonce p)"
    using decode_nonce_body b64_ascii r(2) by simp
  let ?rq = "\<lparr>rq_Method = ''POST'', rq_Origin = origin, rq_PrivateNetwork = '''', rq_Body = nonce_body (ch_Nonce c)\<rparr>"
  obtain rs q where h: "pairing_handle now ?rq p = (rs, q)" by fastforce
  have "entitled p (now, ?rq)" using assms(2,3) st dn by (simp add: entitled_def)
  then have o: "paired p rs" "q = p\<lparr>pa_consumed := True\<rparr>" using handle_outcome [OF h] st(1) by simp_all
  let ?r = "pa_response p"
  have "plain_identity CurrentIdentity" by code_simp
  then have "decode_struct response_setters zero_response (encode_response ?r @ [CHR 0x0A]) = Inr ?r"
    using assms(5,6) st(5) by (intro decode_encoded_response) (simp_all add: delimited_def json_ws_def byte_def)
  then show ?thesis
    using h o assms(7) st(5) by (simp add: consumePairing_def reach_def paired_def)
qed

definition demo_host :: pairing_host where
  "demo_host = \<lparr>ph_Random = Inr (replicate 32 CHR ''a''), ph_Listen = Inr ''127.0.0.1:4001'', ph_Now = 0\<rparr>"

definition demo_pairing_options :: pairing_options where
  "demo_pairing_options = \<lparr>po_Origins = [''https://app.pondpilot.io''], po_TTL = 0,
     po_Endpoint = ''quack:127.0.0.1:4000'', po_Token = ''secret''\<rparr>"

definition demo_post :: "string \<Rightarrow> http_request" where
  "demo_post nonce = \<lparr>rq_Method = ''POST'', rq_Origin = ''https://app.pondpilot.io'', rq_PrivateNetwork = '''',
     rq_Body = nonce_body nonce\<rparr>"

definition demo_nonce :: string where "demo_nonce = b64_encode (replicate 32 CHR ''a'')"

definition demo_events :: "pairing_event list" where
  "demo_events = [Request 1 (demo_post ''x''), Request 2 (demo_post demo_nonce), Closed None, Request 3 (demo_post demo_nonce)]"

lemma demo_decodes: "decode_nonce (nonce_body demo_nonce) = Inr demo_nonce" "decode_nonce (nonce_body ''x'') = Inr ''x''"
  "demo_nonce \<noteq> ''x''"
proof -
  show "decode_nonce (nonce_body demo_nonce) = Inr demo_nonce"
    unfolding demo_nonce_def by (rule decode_nonce_body [OF b64_ascii nonce_short]) simp
  have "length (nonce_body ''x'') = 13" by code_simp
  then show "decode_nonce (nonce_body ''x'') = Inr ''x''"
    by (intro decode_nonce_body) (simp_all add: body_limit_def byte_def)
  have "length demo_nonce \<noteq> 1" using b64_length [of "replicate 32 CHR ''a''"] by (simp add: demo_nonce_def)
  moreover have "length ''x'' = 1" by simp
  ultimately show "demo_nonce \<noteq> ''x''" by metis
qed

lemma demo_pairing_start:
  obtains p c where "pairing_Start demo_host demo_pairing_options = Inr (p, c)" and "pa_nonce p = demo_nonce"
    and "pa_origins p = [''https://app.pondpilot.io'']" and "pa_expiresAt p = default_ttl"
  by (auto simp: pairing_Start_def demo_pairing_options_def demo_host_def randomNonce_def demo_nonce_def Let_def)

theorem pairing_gives_token_once_witness:
  "\<exists>p c rss p'. pairing_Start demo_host demo_pairing_options = Inr (p, c) \<and> run_pairing demo_events p = (rss, p') \<and>
     length rss = 3 \<and> refused (rss ! 0) \<and> paired p (rss ! 1) \<and> refused (rss ! 2)"
proof -
  obtain p c where s: "pairing_Start demo_host demo_pairing_options = Inr (p, c)" and f: "pa_nonce p = demo_nonce"
    "pa_origins p = [''https://app.pondpilot.io'']" "pa_expiresAt p = default_ttl" by (rule demo_pairing_start)
  obtain rss p' where r: "run_pairing demo_events p = (rss, p')" by fastforce
  have q: "requests demo_events = [(1, demo_post ''x''), (2, demo_post demo_nonce), (3, demo_post demo_nonce)]"
    by (simp add: demo_events_def)
  have en: "\<not> entitled p (1, demo_post ''x'')" "entitled p (2, demo_post demo_nonce)" "entitled p (3, demo_post demo_nonce)"
    using demo_decodes f by (simp_all add: entitled_def demo_post_def default_ttl_def)
  have fe: "\<not> first_entitled p (requests demo_events) 0" "first_entitled p (requests demo_events) 1"
    "\<not> first_entitled p (requests demo_events) 2"
    unfolding q using en by (auto simp: first_entitled_def intro: exI [of _ "Suc 0"])
  have n: "length (requests demo_events) = 3" by (simp add: q)
  note once = pairing_gives_token_once [OF s r, unfolded n]
  have each: "if first_entitled p (requests demo_events) i then paired p (rss ! i) else refused (rss ! i)" if "i < 3" for i
    using once that by blast
  show ?thesis
    using s r once each [of 0] each [of 1] each [of 2] fe by (intro exI [of _ p] exI [of _ c] exI [of _ rss] exI [of _ p']) simp
qed

theorem pairing_reaches_client_witness:
  "\<exists>p c. pairing_Start demo_host demo_pairing_options = Inr (p, c) \<and>
     consumePairing (reach 5) c ''https://app.pondpilot.io'' p =
       (Inr \<lparr>pr_Endpoint = ''quack:127.0.0.1:4000'', pr_Identity = CurrentIdentity, pr_Token = ''secret''\<rparr>, p\<lparr>pa_consumed := True\<rparr>)"
proof -
  obtain p c where s: "pairing_Start demo_host demo_pairing_options = Inr (p, c)" and x: "pa_expiresAt p = default_ttl"
    by (rule demo_pairing_start)
  have o: "po_Origins demo_pairing_options = [''https://app.pondpilot.io'']" "po_Token demo_pairing_options = ''secret''"
    "po_Endpoint demo_pairing_options = ''quack:127.0.0.1:4000''" by (simp_all add: demo_pairing_options_def)
  have "length (encode_response \<lparr>pr_Endpoint = ''quack:127.0.0.1:4000'', pr_Identity = CurrentIdentity, pr_Token = ''secret''\<rparr>) < 1000"
    by code_simp
  then have "length (encode_response (pa_response p)) < response_limit" using started(5) [OF s] o by (simp add: response_limit_def)
  moreover have "ascii ''quack:127.0.0.1:4000''" "ascii ''secret''" by code_simp+
  moreover have "(5::int) \<le> ch_ExpiresAt c" using started(4) [OF s] x by (simp add: default_ttl_def)
  ultimately have "consumePairing (reach 5) c ''https://app.pondpilot.io'' p =
     (Inr \<lparr>pr_Endpoint = po_Endpoint demo_pairing_options, pr_Identity = CurrentIdentity, pr_Token = po_Token demo_pairing_options\<rparr>,
      p\<lparr>pa_consumed := True\<rparr>)"
    using o by (intro pairing_reaches_client [OF s]) (simp_all add: demo_host_def)
  with s o show ?thesis by auto
qed

end
