(* ===== verification/Control.thy ===== *)
theory Control
  imports Lifecycle Pairing
begin

text \<open>
  The local management protocol (internal/control): one JSON request and one response over a
  connection of the user's own socket or pipe.  The backend is the interface that the code states:
  status and reload, and two optional parts for pairing and for management, which the code finds by
  a type assertion.  A panic of the server would be \<open>None\<close>.  What a connection carries is the text
  that is read from it; accepting connections and their deadlines are outside the model.
\<close>

section \<open>Requests\<close>

definition control_version :: int where "control_version = 1"

record control_request =
  cr_Version :: int
  cr_Operation :: string
  cr_Origins :: "string list"
  cr_TTLSeconds :: int

definition zero_request :: control_request where
  "zero_request = \<lparr>cr_Version = 0, cr_Operation = '''', cr_Origins = [], cr_TTLSeconds = 0\<rparr>"

definition request_setters :: "(string \<times> (string \<Rightarrow> json \<Rightarrow> control_request \<Rightarrow> control_request res)) list" where
  "request_setters =
    [(''version'', set_int (\<lambda>x. cr_Version_update (\<lambda>_. x))),
     (''operation'', set_string (\<lambda>x. cr_Operation_update (\<lambda>_. x))),
     (''origins'', set_strings cr_Origins (\<lambda>x. cr_Origins_update (\<lambda>_. x))),
     (''ttl_seconds'', set_int (\<lambda>x. cr_TTLSeconds_update (\<lambda>_. x)))]"

definition encode_request :: "control_request \<Rightarrow> string" where
  "encode_request rq = json_object
     ([(''version'', itoa (cr_Version rq)), (''operation'', encode_string (cr_Operation rq))] @
      (if cr_Origins rq = [] then [] else [(''origins'', json_strings (cr_Origins rq))]) @
      (if cr_TTLSeconds rq = 0 then [] else [(''ttl_seconds'', itoa (cr_TTLSeconds rq))]))"

section \<open>Responses\<close>

text \<open>A \<open>map[string]any\<close> as the JSON values of its members, in the order in which they are written.\<close>

type_synonym any_map = "(string \<times> json) list"

record 'd control_response =
  cs_Version :: int
  cs_OK :: bool
  cs_Status :: "status option"
  cs_ErrorCode :: string
  cs_Message :: string
  cs_Pairing :: "challenge option"
  cs_Configuration :: "document option"
  cs_Diagnostics :: "'d option"
  cs_VersionInfo :: "any_map option"

definition success :: "'d control_response" where
  "success = \<lparr>cs_Version = control_version, cs_OK = True, cs_Status = None, cs_ErrorCode = '''', cs_Message = '''',
     cs_Pairing = None, cs_Configuration = None, cs_Diagnostics = None, cs_VersionInfo = None\<rparr>"

definition failure_response :: "error_code \<Rightarrow> string \<Rightarrow> 'd control_response" where
  "failure_response code message = \<lparr>cs_Version = control_version, cs_OK = False, cs_Status = None, cs_ErrorCode = code_string code,
     cs_Message = message, cs_Pairing = None, cs_Configuration = None, cs_Diagnostics = None, cs_VersionInfo = None\<rparr>"

section \<open>The backend\<close>

record 'b pairing_backend =
  pb_Pair :: "string list \<Rightarrow> int \<Rightarrow> 'b \<Rightarrow> challenge res \<times> 'b"
  pb_RotateToken :: "'b \<Rightarrow> go_error option \<times> 'b"

record ('b, 'd) management_backend =
  mb_Configuration :: "'b \<Rightarrow> document res \<times> 'b"
  mb_Diagnostics :: "'b \<Rightarrow> 'd res \<times> 'b"

record ('b, 'd) backend =
  bk_Status :: "'b \<Rightarrow> status"
  bk_Reload :: "'b \<Rightarrow> go_error option \<times> 'b"
  bk_pairing :: "'b pairing_backend option"
  bk_management :: "('b, 'd) management_backend option"

section \<open>Dispatch\<close>

text \<open>A product of durations wraps at 64 bits.\<close>

definition wrap64 :: "int \<Rightarrow> int" where
  "wrap64 i = (i + 2 ^ 63) mod 2 ^ 64 - 2 ^ 63"

definition current_version :: any_map where
  "current_version = [(''capabilities'', JArr (map JStr Capabilities)), (''product'', JStr Product),
     (''product_version'', JStr Version), (''protocol_version'', JNum (itoa ProtocolVersion))]"

definition with_status :: "('b, 'd) backend \<Rightarrow> 'b \<Rightarrow> 'd control_response \<times> 'b" where
  "with_status bk b = (success\<lparr>cs_Status := Some (bk_Status bk b)\<rparr>, b)"

definition dispatch :: "('b, 'd) backend \<Rightarrow> control_request \<Rightarrow> 'b \<Rightarrow> ('d control_response \<times> 'b) option" where
  "dispatch bk rq b =
     (let fail = (\<lambda>code message b. Some (failure_response code message, b)) in
      if cr_Version rq \<noteq> control_version then fail CodeProtocolMismatch ''unsupported control protocol'' b
      else if cr_Operation rq = ''status'' then Some (with_status bk b)
      else if cr_Operation rq = ''reload'' then
        (case bk_Reload bk b of
           (Some e, b) \<Rightarrow> (case ClassifyError (Some e) of None \<Rightarrow> None
             | Some classified \<Rightarrow> (case as_public classified of None \<Rightarrow> None
                 | Some (code, message, _) \<Rightarrow> fail code message b))
         | (None, b) \<Rightarrow> Some (with_status bk b))
      else if cr_Operation rq = ''pair'' then
        (case bk_pairing bk of None \<Rightarrow> fail CodeInternal ''pairing is unavailable'' b
         | Some p \<Rightarrow> (case pb_Pair p (cr_Origins rq) (wrap64 (cr_TTLSeconds rq * 10 ^ 9)) b of
             (Inl e, b) \<Rightarrow> fail CodeInternal ''pairing failed'' b
           | (Inr challenge, b) \<Rightarrow> Some (success\<lparr>cs_Pairing := Some challenge\<rparr>, b)))
      else if cr_Operation rq = ''rotate_token'' then
        (case bk_pairing bk of None \<Rightarrow> fail CodeInternal ''token rotation is unavailable'' b
         | Some p \<Rightarrow> (case pb_RotateToken p b of
             (Some e, b) \<Rightarrow> fail CodeInternal ''token rotation failed'' b
           | (None, b) \<Rightarrow> Some (with_status bk b)))
      else if cr_Operation rq = ''configuration'' then
        (case bk_management bk of None \<Rightarrow> fail CodeInternal ''configuration is unavailable'' b
         | Some m \<Rightarrow> (case mb_Configuration m b of
             (Inl e, b) \<Rightarrow> fail CodeInternal ''configuration is unavailable'' b
           | (Inr document, b) \<Rightarrow> Some (success\<lparr>cs_Configuration := Some document\<rparr>, b)))
      else if cr_Operation rq = ''diagnostics'' then
        (case bk_management bk of None \<Rightarrow> fail CodeInternal ''diagnostics are unavailable'' b
         | Some m \<Rightarrow> (case mb_Diagnostics m b of
             (Inl e, b) \<Rightarrow> fail CodeInternal ''diagnostics are unavailable'' b
           | (Inr diagnostics, b) \<Rightarrow> Some (success\<lparr>cs_Diagnostics := Some diagnostics\<rparr>, b)))
      else if cr_Operation rq = ''version'' then Some (success\<lparr>cs_VersionInfo := Some current_version\<rparr>, b)
      else fail CodeProtocolMismatch ''unknown control operation'' b)"

definition request_limit :: nat where "request_limit = 65536"

definition control_handle :: "('b, 'd) backend \<Rightarrow> string \<Rightarrow> 'b \<Rightarrow> ('d control_response \<times> 'b) option" where
  "control_handle bk text b = (case decode_struct request_setters zero_request (take request_limit text) of
     Inl e \<Rightarrow> Some (failure_response CodeProtocolMismatch ''malformed control request'', b)
   | Inr rq \<Rightarrow> dispatch bk rq b)"

section \<open>The socket\<close>

datatype file_kind = Socket | Other_file

record socket_host =
  sh_Mkdir :: "go_error option"
  sh_Lstat :: "file_kind res"
  sh_Remove :: "go_error option"
  sh_Listen :: "go_error option"
  sh_Chmod :: "go_error option"

datatype socket_action = Make_directory | Remove_old | Listen_unix | Restrict_mode | Close_listener

text \<open>What listening on the address of Unix systems does, in order, and its error.\<close>

definition control_listen :: "socket_host \<Rightarrow> go_error option \<times> socket_action list" where
  "control_listen host =
     (case sh_Mkdir host of Some e \<Rightarrow> (Some e, [Make_directory]) | None \<Rightarrow>
      let bind = (\<lambda>before. case sh_Listen host of Some e \<Rightarrow> (Some e, before @ [Listen_unix])
          | None \<Rightarrow> (case sh_Chmod host of
              Some e \<Rightarrow> (Some e, before @ [Listen_unix, Restrict_mode, Close_listener])
            | None \<Rightarrow> (None, before @ [Listen_unix, Restrict_mode]))) in
      case sh_Lstat host of
        Inr kind \<Rightarrow>
          if kind \<noteq> Socket then (Some (Plain ''control address exists and is not a socket''), [Make_directory])
          else (case sh_Remove host of Some e \<Rightarrow> (Some e, [Make_directory, Remove_old])
            | None \<Rightarrow> bind [Make_directory, Remove_old])
      | Inl e \<Rightarrow> if is_sentinel ErrNotExist e then bind [Make_directory] else (Some e, [Make_directory]))"

text \<open>Closing removes the socket; it may be gone already.\<close>

definition cleanup_Close :: "go_error option \<Rightarrow> go_error option \<Rightarrow> go_error option" where
  "cleanup_Close err removeErr = errors_join [err,
     case removeErr of Some e \<Rightarrow> if is_sentinel ErrNotExist e then None else Some e | None \<Rightarrow> None]"

lemma control_listen_restricted:
  "control_listen host = (None, as) \<Longrightarrow> last as = Restrict_mode \<and> Close_listener \<notin> set as"
  by (auto simp: control_listen_def Let_def split: option.splits sum.splits if_splits)

lemma control_listen_spares_files:
  "sh_Lstat host = Inr Other_file \<Longrightarrow> fst (control_listen host) \<noteq> None \<and> Remove_old \<notin> set (snd (control_listen host))"
  by (auto simp: control_listen_def split: option.splits)

section \<open>The contract of the protocol\<close>

definition operations :: "string list" where
  "operations = [''status'', ''reload'', ''pair'', ''rotate_token'', ''configuration'', ''diagnostics'', ''version'']"

text \<open>A response carries the payload of its operation when it is a success, and no payload but a public code
  otherwise.\<close>

text \<open>The failures of the protocol, by operation: fixed codes and messages, none of which carries the text of an
  internal error.  The failures of a reload are the public classification of its error instead.\<close>

definition public_failures :: "string \<Rightarrow> (error_code \<times> string) list" where
  "public_failures operation = (CodeProtocolMismatch, ''unsupported control protocol'') #
     (if operation = ''pair'' then [(CodeInternal, ''pairing is unavailable''), (CodeInternal, ''pairing failed'')]
      else if operation = ''rotate_token''
      then [(CodeInternal, ''token rotation is unavailable''), (CodeInternal, ''token rotation failed'')]
      else if operation = ''configuration'' then [(CodeInternal, ''configuration is unavailable'')]
      else if operation = ''diagnostics'' then [(CodeInternal, ''diagnostics are unavailable'')]
      else if operation \<in> set operations then [] else [(CodeProtocolMismatch, ''unknown control operation'')])"

definition well_formed :: "string \<Rightarrow> 'd control_response \<Rightarrow> bool" where
  "well_formed operation r \<longleftrightarrow> cs_Version r = control_version \<and>
     (if cs_OK r then cs_ErrorCode r = '''' \<and> cs_Message r = '''' \<and>
        (cs_Status r \<noteq> None) = (operation \<in> {''status'', ''reload'', ''rotate_token''}) \<and>
        (cs_Pairing r \<noteq> None) = (operation = ''pair'') \<and>
        (cs_Configuration r \<noteq> None) = (operation = ''configuration'') \<and>
        (cs_Diagnostics r \<noteq> None) = (operation = ''diagnostics'') \<and>
        (cs_VersionInfo r \<noteq> None) = (operation = ''version'')
      else (\<exists>code message. r = failure_response code message \<and>
        (operation = ''reload'' \<or> (code, message) \<in> set (public_failures operation))))"

definition plain_request :: "control_request \<Rightarrow> bool" where
  "plain_request rq \<longleftrightarrow> go_int (cr_Version rq) \<and> ascii (cr_Operation rq) \<and> list_all ascii (cr_Origins rq) \<and>
     go_int (cr_TTLSeconds rq)"

definition request_members :: "control_request \<Rightarrow> members" where
  "request_members rq =
     [(''version'', itoa (cr_Version rq), JNum (itoa (cr_Version rq))),
      (''operation'', encode_string (cr_Operation rq), JStr (cr_Operation rq))] @
     (if cr_Origins rq = [] then [] else [(''origins'', json_strings (cr_Origins rq), JArr (map JStr (cr_Origins rq)))]) @
     (if cr_TTLSeconds rq = 0 then []
      else [(''ttl_seconds'', itoa (cr_TTLSeconds rq), JNum (itoa (cr_TTLSeconds rq)))])"

lemma request_texts: "encode_request rq = json_object (member_texts (request_members rq))"
  by (simp add: encode_request_def request_members_def member_texts_def)

lemma request_members_text: "plain_request rq \<Longrightarrow> members_text (Suc 0) (request_members rq)"
  by (auto simp: members_text_def request_members_def plain_request_def byte_def json_text_strings
      intro: json_text_mono [OF json_text_string] json_text_mono [OF json_text_int])

lemma fill_request: "plain_request rq \<Longrightarrow> fill request_setters (request_members rq) zero_request = Inr rq"
  by (cases rq) (simp add: request_members_def request_setters_def field_of_def set_string_def set_int_def set_strings_def
      int_literal_itoa plain_request_def zero_request_def)

lemma handle_encoded:
  assumes "plain_request rq" and "length (encode_request rq) < request_limit"
  shows "control_handle bk (encode_request rq @ [CHR 0x0A]) b = dispatch bk rq b"
proof -
  have "delimited [CHR 0x0A]" by (simp add: delimited_def json_ws_def byte_def)
  from decode_struct_object [OF request_members_text [OF assms(1)] _ this, of request_setters zero_request]
  show ?thesis using assms(2) fill_request [OF assms(1)]
    by (simp add: control_handle_def request_texts max_nesting_def)
qed

lemma classified_public: "\<exists>code message cause. ClassifyError (Some e) = Some (QError code message cause)"
  by (auto simp: ClassifyError_def Let_def split: option.split)

lemma well_formed_failure:
  "(code, message) \<in> set (public_failures operation) \<Longrightarrow> well_formed operation (failure_response code message)"
  "well_formed ''reload'' (failure_response code message)"
  by (auto simp: well_formed_def failure_response_def)

lemma well_formed_success [simp]:
  "operation \<in> {''status'', ''reload'', ''rotate_token''} \<Longrightarrow> well_formed operation (success\<lparr>cs_Status := Some st\<rparr>)"
  "well_formed ''pair'' (success\<lparr>cs_Pairing := Some ch\<rparr>)"
  "well_formed ''configuration'' (success\<lparr>cs_Configuration := Some d\<rparr>)"
  "well_formed ''diagnostics'' (success\<lparr>cs_Diagnostics := Some g\<rparr>)"
  "well_formed ''version'' (success\<lparr>cs_VersionInfo := Some v\<rparr>)"
  by (auto simp: well_formed_def success_def)

lemma dispatch_refusal:
  "cr_Version rq \<noteq> control_version \<Longrightarrow>
   dispatch bk rq b = Some (failure_response CodeProtocolMismatch ''unsupported control protocol'', b)"
  "cr_Version rq = control_version \<Longrightarrow> cr_Operation rq \<notin> set operations \<Longrightarrow>
   dispatch bk rq b = Some (failure_response CodeProtocolMismatch ''unknown control operation'', b)"
  by (auto simp: dispatch_def operations_def Let_def)

lemma dispatch_refused:
  assumes "cr_Version rq \<noteq> control_version \<or> cr_Operation rq \<notin> set operations"
  shows "\<exists>message. dispatch bk rq b = Some (failure_response CodeProtocolMismatch message, b)"
  using assms dispatch_refusal [of rq bk b] by blast

lemma dispatch_total: "\<exists>r b'. dispatch bk rq b = Some (r, b') \<and> well_formed (cr_Operation rq) r"
proof (cases "cr_Version rq \<noteq> control_version \<or> cr_Operation rq \<notin> set operations")
  case True
  then show ?thesis
    using dispatch_refusal [of rq bk b] well_formed_failure(1)
    by (cases "cr_Version rq = control_version") (auto simp: public_failures_def operations_def)
next
  case False
  then have v: "cr_Version rq = control_version" and op: "cr_Operation rq \<in> set operations" by simp_all
  consider (status) "cr_Operation rq = ''status''" | (reload) "cr_Operation rq = ''reload''"
    | (pair) "cr_Operation rq = ''pair''" | (rotate) "cr_Operation rq = ''rotate_token''"
    | (configuration) "cr_Operation rq = ''configuration''" | (diagnostics) "cr_Operation rq = ''diagnostics''"
    | (version) "cr_Operation rq = ''version''" using op by (auto simp: operations_def)
  then show ?thesis
  proof cases
    case status
    then show ?thesis by (simp add: dispatch_def v with_status_def)
  next
    case reload
    obtain e b2 where r: "bk_Reload bk b = (e, b2)" by fastforce
    show ?thesis
    proof (cases e)
      case None
      then show ?thesis using reload r by (simp add: dispatch_def v with_status_def)
    next
      case (Some x)
      obtain code message cause where "ClassifyError (Some x) = Some (QError code message cause)"
        using classified_public by blast
      then show ?thesis using reload r Some by (simp add: dispatch_def v well_formed_failure(2))
    qed
  next
    case pair
    then show ?thesis by (auto simp: dispatch_def v public_failures_def intro!: well_formed_failure(1) split: option.split prod.split sum.split)
  next
    case rotate
    then show ?thesis by (auto simp: dispatch_def v public_failures_def with_status_def intro!: well_formed_failure(1) split: option.split prod.split)
  next
    case configuration
    then show ?thesis by (auto simp: dispatch_def v public_failures_def intro!: well_formed_failure(1) split: option.split prod.split sum.split)
  next
    case diagnostics
    then show ?thesis by (auto simp: dispatch_def v public_failures_def intro!: well_formed_failure(1) split: option.split prod.split sum.split)
  next
    case version
    then show ?thesis by (simp add: dispatch_def v)
  qed
qed

text \<open>C28. The management protocol answers every request that a client of this repository encodes, and never
  panics: the request is read as it was written, and the response carries the payload of its operation and nothing else
  when it is a success, or no payload and a public failure: one of the fixed codes and messages of its operation, or,
  for a reload, exactly the code and message of the public classification of its error.  A request of another version or
  of an unknown operation is refused as such without touching the backend.  Any other text that a connection carries is
  answered, too: as the request that is read from it, or as a malformed one, without touching the backend.\<close>

theorem control_contract:
  assumes "plain_request rq" and "length (encode_request rq) < request_limit"
  shows "(\<exists>r b'. control_handle bk (encode_request rq @ [CHR 0x0A]) b = Some (r, b') \<and> well_formed (cr_Operation rq) r \<and>
    (cr_Version rq \<noteq> control_version \<longrightarrow>
       b' = b \<and> r = failure_response CodeProtocolMismatch ''unsupported control protocol'') \<and>
    (cr_Version rq = control_version \<and> cr_Operation rq \<notin> set operations \<longrightarrow>
       b' = b \<and> r = failure_response CodeProtocolMismatch ''unknown control operation'') \<and>
    (cr_Version rq = control_version \<and> cr_Operation rq = ''reload'' \<longrightarrow>
       (case bk_Reload bk b of (None, b2) \<Rightarrow> b' = b2 \<and> r = success\<lparr>cs_Status := Some (bk_Status bk b2)\<rparr>
        | (Some e, b2) \<Rightarrow> b' = b2 \<and> (\<exists>code message cause.
            ClassifyError (Some e) = Some (QError code message cause) \<and> r = failure_response code message)))) \<and>
    (\<forall>text. \<exists>r b'. control_handle bk text b = Some (r, b') \<and>
       ((\<exists>q. dispatch bk q b = Some (r, b') \<and> well_formed (cr_Operation q) r) \<or>
        b' = b \<and> r = failure_response CodeProtocolMismatch ''malformed control request''))"
proof (rule conjI)
  obtain r b' where d: "dispatch bk rq b = Some (r, b')" "well_formed (cr_Operation rq) r" using dispatch_total [of bk rq b] by blast
  have "case bk_Reload bk b of (None, b2) \<Rightarrow> b' = b2 \<and> r = success\<lparr>cs_Status := Some (bk_Status bk b2)\<rparr>
        | (Some e, b2) \<Rightarrow> b' = b2 \<and> (\<exists>code message cause.
            ClassifyError (Some e) = Some (QError code message cause) \<and> r = failure_response code message)"
    if x: "cr_Version rq = control_version \<and> cr_Operation rq = ''reload''"
  proof -
    obtain e b2 where q: "bk_Reload bk b = (e, b2)" by fastforce
    show ?thesis
    proof (cases e)
      case None
      then show ?thesis using d(1) q x by (auto simp: dispatch_def with_status_def)
    next
      case (Some y)
      obtain code message cause where c: "ClassifyError (Some y) = Some (QError code message cause)"
        using classified_public by blast
      then have "r = failure_response code message" "b' = b2" using d(1) q x Some by (simp_all add: dispatch_def)
      then show ?thesis using q Some c by auto
    qed
  qed
  then show "\<exists>r b'. control_handle bk (encode_request rq @ [CHR 0x0A]) b = Some (r, b') \<and> well_formed (cr_Operation rq) r \<and>
    (cr_Version rq \<noteq> control_version \<longrightarrow>
       b' = b \<and> r = failure_response CodeProtocolMismatch ''unsupported control protocol'') \<and>
    (cr_Version rq = control_version \<and> cr_Operation rq \<notin> set operations \<longrightarrow>
       b' = b \<and> r = failure_response CodeProtocolMismatch ''unknown control operation'') \<and>
    (cr_Version rq = control_version \<and> cr_Operation rq = ''reload'' \<longrightarrow>
       (case bk_Reload bk b of (None, b2) \<Rightarrow> b' = b2 \<and> r = success\<lparr>cs_Status := Some (bk_Status bk b2)\<rparr>
        | (Some e, b2) \<Rightarrow> b' = b2 \<and> (\<exists>code message cause.
            ClassifyError (Some e) = Some (QError code message cause) \<and> r = failure_response code message)))"
    using d dispatch_refusal [of rq bk b] handle_encoded [OF assms, of bk b]
    by (intro exI [of _ r] exI [of _ b']) simp
  show "\<forall>text. \<exists>r b'. control_handle bk text b = Some (r, b') \<and>
       ((\<exists>q. dispatch bk q b = Some (r, b') \<and> well_formed (cr_Operation q) r) \<or>
        b' = b \<and> r = failure_response CodeProtocolMismatch ''malformed control request'')"
  proof
    fix request
    show "\<exists>r b'. control_handle bk request b = Some (r, b') \<and>
       ((\<exists>q. dispatch bk q b = Some (r, b') \<and> well_formed (cr_Operation q) r) \<or>
        b' = b \<and> r = failure_response CodeProtocolMismatch ''malformed control request'')"
      using dispatch_total [of bk _ b] by (auto simp: control_handle_def split: sum.split) blast
  qed
qed

definition demo_backend :: "(bool, unit) backend" where
  "demo_backend = \<lparr>bk_Status = (\<lambda>_. stopped_status),
     bk_Reload = (\<lambda>b. if b then (None, b) else (Some (Plain ''dial tcp 10.0.0.1: connection refused''), True)),
     bk_pairing = None, bk_management = None\<rparr>"

definition demo_request :: control_request where
  "demo_request = \<lparr>cr_Version = 1, cr_Operation = ''reload'', cr_Origins = [], cr_TTLSeconds = 0\<rparr>"

theorem control_contract_witness:
  "\<exists>code message cause. control_handle demo_backend (encode_request demo_request @ [CHR 0x0A]) False =
      Some (failure_response code message, True) \<and>
    ClassifyError (Some (Plain ''dial tcp 10.0.0.1: connection refused'')) = Some (QError code message cause)"
proof -
  have "plain_request demo_request" by code_simp
  moreover have "length (encode_request demo_request) < 100" by code_simp
  then have "length (encode_request demo_request) < request_limit" by (simp add: request_limit_def)
  ultimately obtain r b' where c: "control_handle demo_backend (encode_request demo_request @ [CHR 0x0A]) False = Some (r, b')"
    and i: "case bk_Reload demo_backend False of (None, b2) \<Rightarrow> b' = b2 \<and> r = success\<lparr>cs_Status := Some (bk_Status demo_backend b2)\<rparr>
        | (Some e, b2) \<Rightarrow> b' = b2 \<and> (\<exists>code message cause.
            ClassifyError (Some e) = Some (QError code message cause) \<and> r = failure_response code message)"
    using control_contract [of demo_request demo_backend False] by (auto simp: demo_request_def control_version_def)
  have "bk_Reload demo_backend False = (Some (Plain ''dial tcp 10.0.0.1: connection refused''), True)"
    by (simp add: demo_backend_def)
  with i c show ?thesis by auto
qed

end
