(* ===== verification/ControlServer.thy ===== *)
theory ControlServer
  imports Control
begin

text \<open>
  The server of the control endpoint (internal/control/control.go: Start, serve, handle, Close) as the goroutines that
  it consists of: the accept loop, one handler for each connection, and the callers of Close.  A connection is the
  text that it delivers before its deadline.  Every operation is a step of one goroutine between two points where
  others can run; a dispatch is one step, and a request that would panic has none.
\<close>

section \<open>The goroutines\<close>

text \<open>The accept loop: in Accept, with a connection that is not handed over, or returned.\<close>

datatype accepting = Accepting | Accepted string | Stopped

text \<open>The first caller of Close: none, before and in the closing of the listener, waiting for the others, and returned.\<close>

datatype closing = Unclosed | Signalled | Waiting "go_error option" | Returned

text \<open>The handlers read or write; \<open>sv_blocked\<close> callers of Close wait for the first one in \<open>once.Do\<close>.  What was accepted
  and answered is recorded beside the state of the code.\<close>

record ('b, 'd) server =
  sv_backend :: 'b
  sv_listening :: bool
  sv_done :: bool
  sv_wg :: nat
  sv_accept :: accepting
  sv_reading :: "string list"
  sv_writing :: "(string \<times> 'd control_response) list"
  sv_once :: closing
  sv_blocked :: nat
  sv_results :: "go_error option list"
  sv_accepted :: "string list"
  sv_answered :: "(string \<times> 'd control_response) list"

definition remove_nth :: "nat \<Rightarrow> 'a list \<Rightarrow> 'a list" where
  "remove_nth i xs = take i xs @ drop (Suc i) xs"

text \<open>Start, once there is a listener.\<close>

definition server_Start :: "socket_host \<Rightarrow> 'b option \<Rightarrow> ('b, 'd) server res" where
  "server_Start host b = (case b of None \<Rightarrow> Inl (Plain ''control backend is required'')
   | Some b \<Rightarrow> (case fst (control_listen host) of Some e \<Rightarrow> Inl e
     | None \<Rightarrow> Inr \<lparr>sv_backend = b, sv_listening = True, sv_done = False, sv_wg = 1, sv_accept = Accepting, sv_reading = [],
         sv_writing = [], sv_once = Unclosed, sv_blocked = 0, sv_results = [], sv_accepted = [], sv_answered = []\<rparr>))"

section \<open>Steps\<close>

definition accept_connection :: "string \<Rightarrow> ('b, 'd) server \<Rightarrow> ('b, 'd) server option" where
  "accept_connection delivered s = (if sv_accept s = Accepting \<and> sv_listening s
     then Some (s\<lparr>sv_accept := Accepted delivered, sv_accepted := delivered # sv_accepted s\<rparr>) else None)"

definition accept_error :: "('b, 'd) server \<Rightarrow> ('b, 'd) server option" where
  "accept_error s = (if sv_accept s \<noteq> Accepting then None
     else Some (if sv_done s then s\<lparr>sv_accept := Stopped, sv_wg := sv_wg s - 1\<rparr> else s))"

definition hand_over :: "('b, 'd) server \<Rightarrow> ('b, 'd) server option" where
  "hand_over s = (case sv_accept s of
     Accepted delivered \<Rightarrow> Some (s\<lparr>sv_accept := Accepting, sv_wg := sv_wg s + 1, sv_reading := delivered # sv_reading s\<rparr>)
   | _ \<Rightarrow> None)"

definition handle_request :: "('b, 'd) backend \<Rightarrow> nat \<Rightarrow> ('b, 'd) server \<Rightarrow> ('b, 'd) server option" where
  "handle_request bk i s = (if length (sv_reading s) \<le> i then None
     else case control_handle bk (sv_reading s ! i) (sv_backend s) of None \<Rightarrow> None
     | Some (r, b) \<Rightarrow> Some (s\<lparr>sv_backend := b, sv_reading := remove_nth i (sv_reading s),
         sv_writing := (sv_reading s ! i, r) # sv_writing s\<rparr>))"

text \<open>The response is written, or not when the peer is gone; then the connection is closed.\<close>

definition finish_handler :: "nat \<Rightarrow> ('b, 'd) server \<Rightarrow> ('b, 'd) server option" where
  "finish_handler i s = (if length (sv_writing s) \<le> i then None
     else Some (s\<lparr>sv_writing := remove_nth i (sv_writing s), sv_answered := sv_writing s ! i # sv_answered s, sv_wg := sv_wg s - 1\<rparr>))"

text \<open>A call of Close: the first one closes the channel, one that comes while it runs waits in \<open>once.Do\<close>.\<close>

definition call_Close :: "('b, 'd) server \<Rightarrow> ('b, 'd) server" where
  "call_Close s = (case sv_once s of
     Unclosed \<Rightarrow> s\<lparr>sv_done := True, sv_once := Signalled\<rparr>
   | Returned \<Rightarrow> s\<lparr>sv_results := None # sv_results s\<rparr>
   | _ \<Rightarrow> s\<lparr>sv_blocked := Suc (sv_blocked s)\<rparr>)"

definition close_listener :: "go_error option \<Rightarrow> ('b, 'd) server \<Rightarrow> ('b, 'd) server option" where
  "close_listener err s = (if sv_once s = Signalled then Some (s\<lparr>sv_listening := False, sv_once := Waiting err\<rparr>) else None)"

definition close_return :: "('b, 'd) server \<Rightarrow> ('b, 'd) server option" where
  "close_return s = (case sv_once s of
     Waiting err \<Rightarrow> if sv_wg s = 0 then Some (s\<lparr>sv_once := Returned, sv_results := err # sv_results s\<rparr>) else None
   | _ \<Rightarrow> None)"

definition close_unblock :: "('b, 'd) server \<Rightarrow> ('b, 'd) server option" where
  "close_unblock s = (if sv_once s = Returned \<and> sv_blocked s \<noteq> 0
     then Some (s\<lparr>sv_blocked := sv_blocked s - 1, sv_results := None # sv_results s\<rparr>) else None)"

text \<open>What comes from outside: connections, errors of Accept on an open listener, and calls of Close.\<close>

inductive arrives :: "('b, 'd) server \<Rightarrow> ('b, 'd) server \<Rightarrow> bool" where
  ar_connection: "accept_connection delivered s = Some s' \<Longrightarrow> arrives s s'"
| ar_error: "sv_listening s \<Longrightarrow> accept_error s = Some s' \<Longrightarrow> arrives s s'"
| ar_close: "arrives s (call_Close s)"

text \<open>What the goroutines do with it; Accept on a closed listener returns an error.\<close>

inductive advances :: "('b, 'd) backend \<Rightarrow> ('b, 'd) server \<Rightarrow> ('b, 'd) server \<Rightarrow> bool" for bk where
  ad_stop: "\<not> sv_listening s \<Longrightarrow> accept_error s = Some s' \<Longrightarrow> advances bk s s'"
| ad_hand_over: "hand_over s = Some s' \<Longrightarrow> advances bk s s'"
| ad_handle: "handle_request bk i s = Some s' \<Longrightarrow> advances bk s s'"
| ad_finish: "finish_handler i s = Some s' \<Longrightarrow> advances bk s s'"
| ad_listener: "close_listener err s = Some s' \<Longrightarrow> advances bk s s'"
| ad_return: "close_return s = Some s' \<Longrightarrow> advances bk s s'"
| ad_unblock: "close_unblock s = Some s' \<Longrightarrow> advances bk s s'"

inductive server_reachable :: "('b, 'd) backend \<Rightarrow> ('b, 'd) server \<Rightarrow> bool" for bk where
  sr_start: "server_Start host b = Inr s \<Longrightarrow> server_reachable bk s"
| sr_arrives: "server_reachable bk s \<Longrightarrow> arrives s s' \<Longrightarrow> server_reachable bk s'"
| sr_advances: "server_reachable bk s \<Longrightarrow> advances bk s s' \<Longrightarrow> server_reachable bk s'"

lemmas server_steps = accept_connection_def accept_error_def hand_over_def handle_request_def finish_handler_def call_Close_def
  close_listener_def close_return_def close_unblock_def

inductive_cases arrivesE: "arrives s s'"
inductive_cases advancesE: "advances bk s s'"

section \<open>The invariant\<close>

definition pending :: "('b, 'd) server \<Rightarrow> string multiset" where
  "pending s = (case sv_accept s of Accepted delivered \<Rightarrow> {#delivered#} | _ \<Rightarrow> {#})"

definition accounted :: "('b, 'd) server \<Rightarrow> bool" where
  "accounted s \<longleftrightarrow> mset (sv_accepted s) =
     pending s + mset (sv_reading s) + image_mset fst (mset (sv_writing s)) + image_mset fst (mset (sv_answered s))"

definition counted :: "('b, 'd) server \<Rightarrow> bool" where
  "counted s \<longleftrightarrow> sv_wg s = (if sv_accept s = Stopped then 0 else 1) + length (sv_reading s) + length (sv_writing s)"

definition phases :: "('b, 'd) server \<Rightarrow> bool" where
  "phases s \<longleftrightarrow> (sv_done s \<longleftrightarrow> sv_once s \<noteq> Unclosed) \<and> (sv_listening s \<longleftrightarrow> sv_once s \<in> {Unclosed, Signalled}) \<and>
     (sv_accept s = Stopped \<longrightarrow> sv_done s) \<and> (sv_once s = Returned \<longrightarrow> sv_wg s = 0) \<and> (sv_blocked s \<noteq> 0 \<longrightarrow> sv_once s \<noteq> Unclosed)"

definition server_inv :: "('b, 'd) server \<Rightarrow> bool" where
  "server_inv s \<longleftrightarrow> accounted s \<and> counted s \<and> phases s"

lemma mset_remove_nth: "i < length xs \<Longrightarrow> mset xs = add_mset (xs ! i) (mset (remove_nth i xs))"
  using arg_cong [OF id_take_nth_drop [of i xs], of mset] by (simp add: remove_nth_def)

lemma length_remove_nth: "i < length xs \<Longrightarrow> length xs = Suc (length (remove_nth i xs))"
  by (simp add: remove_nth_def)

lemma start_inv: "server_Start host b = Inr s \<Longrightarrow> server_inv s"
  by (auto simp: server_Start_def server_inv_def accounted_def counted_def phases_def pending_def split: option.splits)

lemma arrives_inv:
  assumes "arrives s s'" and "server_inv s"
  shows "server_inv s'"
  using assms(1)
proof cases
  case (ar_connection delivered)
  then show ?thesis using assms(2)
    by (auto simp: accept_connection_def server_inv_def accounted_def counted_def phases_def pending_def split: if_splits)
next
  case ar_error
  then show ?thesis using assms(2)
    by (auto simp: accept_error_def server_inv_def accounted_def counted_def phases_def pending_def split: if_splits)
next
  case ar_close
  then show ?thesis using assms(2)
    by (auto simp: call_Close_def server_inv_def accounted_def counted_def phases_def pending_def split: closing.splits if_splits)
qed

lemma handle_request_some:
  assumes "handle_request bk i s = Some s'"
  obtains r b where "i < length (sv_reading s)" "control_handle bk (sv_reading s ! i) (sv_backend s) = Some (r, b)"
    "s' = s\<lparr>sv_backend := b, sv_reading := remove_nth i (sv_reading s), sv_writing := (sv_reading s ! i, r) # sv_writing s\<rparr>"
  using assms by (auto simp: handle_request_def split: if_splits option.splits)

lemma advances_inv:
  assumes "advances bk s s'" and "server_inv s"
  shows "server_inv s'"
  using assms(1)
proof cases
  case ad_stop
  then show ?thesis using assms(2)
    by (auto simp: accept_error_def server_inv_def accounted_def counted_def phases_def pending_def split: if_splits)
next
  case ad_hand_over
  then show ?thesis using assms(2)
    by (auto simp: hand_over_def server_inv_def accounted_def counted_def phases_def pending_def split: accepting.splits)
next
  case (ad_handle i)
  then obtain r b where h: "i < length (sv_reading s)"
    "s' = s\<lparr>sv_backend := b, sv_reading := remove_nth i (sv_reading s), sv_writing := (sv_reading s ! i, r) # sv_writing s\<rparr>"
    by (rule handle_request_some)
  then show ?thesis using assms(2) mset_remove_nth [OF h(1)] length_remove_nth [OF h(1)]
    by (auto simp: server_inv_def accounted_def counted_def phases_def pending_def)
next
  case (ad_finish i)
  then have h: "i < length (sv_writing s)"
    "s' = s\<lparr>sv_writing := remove_nth i (sv_writing s), sv_answered := sv_writing s ! i # sv_answered s, sv_wg := sv_wg s - 1\<rparr>"
    by (auto simp: finish_handler_def split: if_splits)
  then show ?thesis using assms(2) mset_remove_nth [OF h(1)] length_remove_nth [OF h(1)]
    by (auto simp: server_inv_def accounted_def counted_def phases_def pending_def)
next
  case (ad_listener err)
  then show ?thesis using assms(2)
    by (auto simp: close_listener_def server_inv_def accounted_def counted_def phases_def pending_def split: if_splits)
next
  case ad_return
  then show ?thesis using assms(2)
    by (auto simp: close_return_def server_inv_def accounted_def counted_def phases_def pending_def split: if_splits closing.splits)
next
  case ad_unblock
  then show ?thesis using assms(2)
    by (auto simp: close_unblock_def server_inv_def accounted_def counted_def phases_def pending_def split: if_splits)
qed

lemma server_reachable_inv: "server_reachable bk s \<Longrightarrow> server_inv s"
  by (induction rule: server_reachable.induct) (auto intro: start_inv arrives_inv advances_inv)


section \<open>What was answered\<close>

definition answers_of :: "('b, 'd) backend \<Rightarrow> string \<times> 'd control_response \<Rightarrow> bool" where
  "answers_of bk a \<longleftrightarrow> (\<exists>b b'. control_handle bk (fst a) b = Some (snd a, b'))"

lemma advances_answers:
  assumes "advances bk s s'" and "list_all (answers_of bk) (sv_writing s @ sv_answered s)"
  shows "list_all (answers_of bk) (sv_writing s' @ sv_answered s')"
  using assms(1)
proof cases
  case (ad_handle i)
  then obtain r b where h: "control_handle bk (sv_reading s ! i) (sv_backend s) = Some (r, b)"
    "s' = s\<lparr>sv_backend := b, sv_reading := remove_nth i (sv_reading s), sv_writing := (sv_reading s ! i, r) # sv_writing s\<rparr>"
    by (rule handle_request_some)
  have "answers_of bk (sv_reading s ! i, r)" using h(1) by (auto simp: answers_of_def)
  then show ?thesis using assms(2) h(2) by simp
next
  case (ad_finish i)
  then have "i < length (sv_writing s)" "sv_writing s' = remove_nth i (sv_writing s)"
    "sv_answered s' = sv_writing s ! i # sv_answered s" by (auto simp: finish_handler_def split: if_splits)
  then show ?thesis using assms(2) by (auto simp: list_all_iff remove_nth_def dest: in_set_takeD in_set_dropD)
qed (use assms(2) in \<open>auto simp: server_steps split: if_splits accepting.splits closing.splits\<close>)

lemma arrives_answers: "arrives s s' \<Longrightarrow> sv_writing s' = sv_writing s \<and> sv_answered s' = sv_answered s \<and> sv_backend s' = sv_backend s"
  by (erule arrivesE) (auto simp: server_steps split: if_splits closing.splits)

lemma reachable_answers: "server_reachable bk s \<Longrightarrow> list_all (answers_of bk) (sv_writing s @ sv_answered s)"
proof (induction rule: server_reachable.induct)
  case (sr_start host b s)
  then show ?case by (auto simp: server_Start_def split: option.splits)
next
  case (sr_arrives s s')
  then show ?case using arrives_answers [of s s'] by simp
next
  case (sr_advances s s')
  then show ?case using advances_answers by blast
qed

text \<open>Once Close has returned, nothing runs.\<close>

lemma returned_empty:
  assumes "server_inv s" and "sv_once s = Returned"
  shows "sv_accept s = Stopped \<and> sv_reading s = [] \<and> sv_writing s = []"
  using assms by (auto simp: server_inv_def counted_def phases_def split: if_splits)

lemma returned_still:
  assumes "server_inv s" and "sv_once s = Returned" and "advances bk s s'"
  shows "sv_backend s' = sv_backend s \<and> sv_answered s' = sv_answered s"
  using assms(3) returned_empty [OF assms(1,2)]
  by cases (auto simp: server_steps assms(2) split: if_splits)

text \<open>C31. In every reachable state of the control server, however accepting, reading, dispatching, answering and closing
  interleave: the wait group counts exactly the goroutines that run; every accepted connection is handed over,
  read, written or answered, and only one of these; every answer is the response of the backend to the text of its
  connection; and once Close has returned, every accepted connection was answered, no goroutine runs, and no later
  step touches the backend.\<close>

theorem server_answers:
  assumes "server_reachable bk s"
  shows "sv_wg s = (if sv_accept s = Stopped then 0 else 1) + length (sv_reading s) + length (sv_writing s) \<and>
    mset (sv_accepted s) =
      pending s + mset (sv_reading s) + image_mset fst (mset (sv_writing s)) + image_mset fst (mset (sv_answered s)) \<and>
    list_all (answers_of bk) (sv_answered s) \<and>
    (sv_once s = Returned \<longrightarrow> mset (sv_accepted s) = image_mset fst (mset (sv_answered s)) \<and> sv_wg s = 0 \<and> \<not> sv_listening s \<and>
      (\<forall>s'. arrives s s' \<or> advances bk s s' \<longrightarrow> sv_backend s' = sv_backend s \<and> sv_answered s' = sv_answered s))"
proof (intro conjI impI allI)
  note i = server_reachable_inv [OF assms]
  show "sv_wg s = (if sv_accept s = Stopped then 0 else 1) + length (sv_reading s) + length (sv_writing s)"
    and acc: "mset (sv_accepted s) =
      pending s + mset (sv_reading s) + image_mset fst (mset (sv_writing s)) + image_mset fst (mset (sv_answered s))"
    using i by (simp_all add: server_inv_def counted_def accounted_def)
  show "list_all (answers_of bk) (sv_answered s)" using reachable_answers [OF assms] by simp
  assume r: "sv_once s = Returned"
  show "mset (sv_accepted s) = image_mset fst (mset (sv_answered s))" "sv_wg s = 0" "\<not> sv_listening s"
    using acc returned_empty [OF i r] i r by (simp_all add: pending_def server_inv_def phases_def)
  fix s' assume "arrives s s' \<or> advances bk s s'"
  then show "sv_backend s' = sv_backend s" "sv_answered s' = sv_answered s"
    using arrives_answers [of s s'] returned_still [OF i r] by blast+
qed

section \<open>Close returns\<close>

definition closing_work :: "closing \<Rightarrow> nat" where
  "closing_work c = (case c of Signalled \<Rightarrow> 2 | Waiting _ \<Rightarrow> 1 | _ \<Rightarrow> 0)"

definition work :: "('b, 'd) server \<Rightarrow> nat" where
  "work s = (case sv_accept s of Accepted _ \<Rightarrow> 4 | Accepting \<Rightarrow> 1 | Stopped \<Rightarrow> 0) + 2 * length (sv_reading s) + length (sv_writing s) +
     closing_work (sv_once s) + sv_blocked s"

lemma advances_work:
  assumes "advances bk s s'" and "sv_done s"
  shows "work s' < work s \<and> sv_done s'"
  using assms(1)
proof cases
  case (ad_handle i)
  then obtain r b where h: "i < length (sv_reading s)"
    "s' = s\<lparr>sv_backend := b, sv_reading := remove_nth i (sv_reading s), sv_writing := (sv_reading s ! i, r) # sv_writing s\<rparr>"
    by (rule handle_request_some)
  then show ?thesis using length_remove_nth [OF h(1)] assms(2) by (simp add: work_def)
next
  case (ad_finish i)
  then have h: "i < length (sv_writing s)"
    "s' = s\<lparr>sv_writing := remove_nth i (sv_writing s), sv_answered := sv_writing s ! i # sv_answered s, sv_wg := sv_wg s - 1\<rparr>"
    by (auto simp: finish_handler_def split: if_splits)
  then show ?thesis using length_remove_nth [OF h(1)] assms(2) by (simp add: work_def)
qed (use assms(2) in \<open>auto simp: server_steps work_def closing_work_def split: if_splits accepting.splits closing.splits\<close>)

lemma advances_bounded: "(advances bk ^^ n) s s' \<Longrightarrow> sv_done s \<Longrightarrow> n + work s' \<le> work s \<and> sv_done s'"
proof (induction n arbitrary: s')
  case (Suc n)
  obtain t where t: "(advances bk ^^ n) s t" "advances bk t s'" using Suc.prems(1) by auto
  show ?case using Suc.IH [OF t(1) Suc.prems(2)] advances_work [OF t(2)] by linarith
qed simp

lemma control_handle_total: "\<exists>r b'. control_handle bk delivered b = Some (r, b')"
proof (cases "decode_struct request_setters zero_request (take request_limit delivered)")
  case (Inr rq)
  then show ?thesis using dispatch_total [of bk rq b] by (auto simp: control_handle_def)
qed (simp add: control_handle_def)

lemma not_stuck:
  assumes "server_inv s" and "sv_done s" and "sv_once s \<noteq> Returned \<or> sv_blocked s \<noteq> 0"
  shows "\<exists>s'. advances bk s s'"
proof -
  consider (reading) x xs where "sv_reading s = x # xs" | (writing) y ys where "sv_writing s = y # ys"
    | (neither) "sv_reading s = []" "sv_writing s = []" by (cases "sv_reading s"; cases "sv_writing s") auto
  then show ?thesis
  proof cases
    case (reading x xs)
    obtain r b where "control_handle bk x (sv_backend s) = Some (r, b)" using control_handle_total [of bk x "sv_backend s"] by blast
    then have "\<exists>s'. handle_request bk 0 s = Some s'" using reading by (simp add: handle_request_def)
    then show ?thesis using ad_handle by blast
  next
    case (writing y ys)
    then have "\<exists>s'. finish_handler 0 s = Some s'" by (simp add: finish_handler_def)
    then show ?thesis using ad_finish by blast
  next
    case neither
    have once: "sv_once s \<noteq> Unclosed" using assms(1,2) by (simp add: server_inv_def phases_def)
    show ?thesis
    proof (cases "sv_once s")
      case (Waiting err)
      show ?thesis
      proof (cases "sv_accept s")
        case Accepting
        moreover have "\<not> sv_listening s" using assms(1) Waiting by (simp add: server_inv_def phases_def)
        moreover have "\<exists>s'. accept_error s = Some s'" using Accepting by (simp add: accept_error_def)
        ultimately show ?thesis using ad_stop by blast
      next
        case (Accepted x)
        then have "\<exists>s'. hand_over s = Some s'" by (simp add: hand_over_def)
        then show ?thesis using ad_hand_over by blast
      next
        case Stopped
        then have "sv_wg s = 0" using assms(1) neither by (simp add: server_inv_def counted_def)
        then have "\<exists>s'. close_return s = Some s'" using Waiting by (simp add: close_return_def)
        then show ?thesis using ad_return by blast
      qed
    next
      case Signalled
      then have "\<exists>s'. close_listener None s = Some s'" by (simp add: close_listener_def)
      then show ?thesis using ad_listener by blast
    next
      case Returned
      then have "\<exists>s'. close_unblock s = Some s'" using assms(3) by (simp add: close_unblock_def)
      then show ?thesis using ad_unblock by blast
    qed (use once in simp)
  qed
qed

lemma advances_inv_steps: "(advances bk)\<^sup>*\<^sup>* s s' \<Longrightarrow> server_inv s \<Longrightarrow> server_inv s'"
  by (induction rule: rtranclp_induct) (auto intro: advances_inv)

lemma drained:
  assumes "server_reachable bk s" and "sv_done s" and "(advances bk)\<^sup>*\<^sup>* s t" and "\<nexists>u. advances bk t u"
  shows "sv_once t = Returned \<and> sv_blocked t = 0 \<and> sv_wg t = 0 \<and> mset (sv_accepted t) = image_mset fst (mset (sv_answered t))"
proof -
  have i: "server_inv t" by (rule advances_inv_steps [OF assms(3) server_reachable_inv [OF assms(1)]])
  obtain n where "(advances bk ^^ n) s t" using assms(3) rtranclp_imp_relpowp by metis
  then have "sv_done t" using advances_bounded assms(2) by blast
  then have c: "sv_once t = Returned" "sv_blocked t = 0" using not_stuck [OF i] assms(4) by blast+
  then show ?thesis using returned_empty [OF i c(1)] i by (simp add: server_inv_def accounted_def phases_def pending_def)
qed

lemma runs_end: "sv_done s \<Longrightarrow> \<exists>t. (advances bk)\<^sup>*\<^sup>* s t \<and> (\<nexists>u. advances bk t u)"
proof (induction "work s" arbitrary: s rule: less_induct)
  case less
  show ?case
  proof (cases "\<exists>t. advances bk s t")
    case True
    then obtain t where t: "advances bk s t" by blast
    obtain u where u: "(advances bk)\<^sup>*\<^sup>* t u" "\<nexists>v. advances bk u v"
      using less.hyps advances_work [OF t less.prems] by blast
    have "(advances bk)\<^sup>*\<^sup>* s u" using t u(1) by (rule converse_rtranclp_into_rtranclp)
    then show ?thesis using u(2) by blast
  qed blast
qed

text \<open>C30. Close returns: from the moment it is called, in whatever reachable state, the goroutines of the server run
  at most \<open>work s\<close> further steps, in any order, and when none can run, Close has returned to every caller, nothing
  is left running, and every connection that was accepted has been answered.\<close>

theorem Close_returns:
  assumes "server_reachable bk s" and "sv_done s"
  shows "(\<forall>n s'. (advances bk ^^ n) s s' \<longrightarrow> n \<le> work s) \<and>
    (\<exists>t. (advances bk)\<^sup>*\<^sup>* s t \<and> (\<nexists>u. advances bk t u)) \<and>
    (\<forall>t. (advances bk)\<^sup>*\<^sup>* s t \<and> (\<nexists>u. advances bk t u) \<longrightarrow>
      sv_once t = Returned \<and> sv_blocked t = 0 \<and> sv_wg t = 0 \<and> mset (sv_accepted t) = image_mset fst (mset (sv_answered t)))"
  using advances_bounded [of _ bk s, OF _ assms(2)] runs_end [OF assms(2), of bk] drained [OF assms] by (metis add_leD1)


section \<open>A connection that is open when Close is called\<close>

definition quiet_host :: socket_host where
  "quiet_host = \<lparr>sh_Mkdir = None, sh_Lstat = Inl (Sentinel ErrNotExist), sh_Remove = None, sh_Listen = None, sh_Chmod = None\<rparr>"

definition busy_server :: "(bool, unit) server" where
  "busy_server = \<lparr>sv_backend = False, sv_listening = True, sv_done = False, sv_wg = 2, sv_accept = Accepting, sv_reading = [''{}''],
     sv_writing = [], sv_once = Unclosed, sv_blocked = 0, sv_results = [], sv_accepted = [''{}''], sv_answered = []\<rparr>"

lemma busy_reachable: "server_reachable bk busy_server"
proof -
  obtain s0 where s0: "server_Start quiet_host (Some False) = Inr s0" "s0 = busy_server\<lparr>sv_wg := 1, sv_reading := [], sv_accepted := []\<rparr>"
    by (simp add: server_Start_def control_listen_def quiet_host_def busy_server_def Let_def)
  have "accept_connection ''{}'' s0 = Some (s0\<lparr>sv_accept := Accepted ''{}'', sv_accepted := [''{}'']\<rparr>)"
    by (simp add: s0(2) accept_connection_def busy_server_def)
  then have "server_reachable bk (s0\<lparr>sv_accept := Accepted ''{}'', sv_accepted := [''{}'']\<rparr>)"
    using sr_arrives [OF sr_start [OF s0(1)] ar_connection] by blast
  moreover have "hand_over (s0\<lparr>sv_accept := Accepted ''{}'', sv_accepted := [''{}'']\<rparr>) = Some busy_server"
    by (simp add: s0(2) hand_over_def busy_server_def)
  ultimately show ?thesis using sr_advances ad_hand_over by blast
qed

theorem server_answers_witness:
  "server_reachable demo_backend busy_server \<and> sv_wg busy_server = 2 \<and>
     mset (sv_accepted busy_server) = pending busy_server + mset (sv_reading busy_server) +
       image_mset fst (mset (sv_writing busy_server)) + image_mset fst (mset (sv_answered busy_server))"
  using server_answers [OF busy_reachable [of demo_backend]] busy_reachable [of demo_backend] by (simp add: busy_server_def)

theorem Close_returns_witness:
  "\<exists>t. (advances demo_backend)\<^sup>*\<^sup>* (call_Close busy_server) t \<and> sv_once t = Returned \<and> sv_wg t = 0 \<and>
     mset (sv_accepted t) = image_mset fst (mset (sv_answered t))"
proof -
  have r: "server_reachable demo_backend (call_Close busy_server)" by (rule sr_arrives [OF busy_reachable ar_close])
  have d: "sv_done (call_Close busy_server)" by (simp add: call_Close_def busy_server_def)
  from Close_returns [OF r d] show ?thesis by blast
qed

end
