(* ===== verification/Daemon.thy ===== *)
theory Daemon
  imports App Control
begin

text \<open>
  The daemon (internal/cli/daemon.go and the serve command of internal/cli/cli.go): the service over the
  application runtime, the configuration store, and the pairing servers it has opened, behind the
  control endpoint.  The runtime reads its configuration from the store, so the state of the loader is
  the disk.  The parts are not taken for granted here: every operation is the composition of the
  models of the other theories.
\<close>

section \<open>The service over the application runtime\<close>

type_synonym 's live = "(disk, 's) app \<times> disk \<times> 's"

definition app_ops :: "(nat \<Rightarrow> env) \<Rightarrow> (string list \<Rightarrow> string list) \<Rightarrow> 's live runtime_ops" where
  "app_ops envs order = \<lparr>
     rt_Start = (\<lambda>(a, ls) opts. case app_Start envs opts a ls of (r, a, ls) \<Rightarrow> (r, (a, ls))),
     rt_Reload = (\<lambda>(a, ls). case app_Reload envs order a ls of (e, a, ls) \<Rightarrow> (e, (a, ls))),
     rt_Stop = (\<lambda>(a, ls). case app_Stop envs a of (e, a) \<Rightarrow> (e, (a, ls))),
     rt_Sources = (\<lambda>(a, ls). app_Sources a)\<rparr>"

definition store_loader :: "fs_oracle \<Rightarrow> string \<Rightarrow> disk loader" where
  "store_loader orc path = Load orc path"

record 's daemon =
  dm_service :: "'s live service"
  dm_pairing :: "pairing list"

definition live_app :: "'s daemon \<Rightarrow> (disk, 's) app" where
  "live_app d = fst (svc_runtime (dm_service d))"

definition with_app :: "(disk, 's) app \<Rightarrow> 's daemon \<Rightarrow> 's daemon" where
  "with_app a d = d\<lparr>dm_service := (dm_service d)\<lparr>svc_runtime := (a, snd (svc_runtime (dm_service d)))\<rparr>\<rparr>"

section \<open>Operations\<close>

definition daemon_Status :: "(nat \<Rightarrow> env) \<Rightarrow> 's daemon \<Rightarrow> status" where
  "daemon_Status envs d = Status (app_ops envs id) (dm_service d)"

definition daemon_Reload ::
  "(nat \<Rightarrow> env) \<Rightarrow> (string list \<Rightarrow> string list) \<Rightarrow> 's daemon \<Rightarrow> go_error option \<times> 's daemon" where
  "daemon_Reload envs order d = (case Reload (app_ops envs order) (dm_service d) of
     (e, service) \<Rightarrow> (e, d\<lparr>dm_service := service\<rparr>))"

definition daemon_RotateToken :: "(nat \<Rightarrow> env) \<Rightarrow> 's daemon \<Rightarrow> go_error option \<times> 's daemon" where
  "daemon_RotateToken envs d = (case app_RotateToken envs (live_app d) of (e, a) \<Rightarrow> (e, with_app a d))"

definition daemon_Configuration :: "fs_oracle \<Rightarrow> string \<Rightarrow> 's daemon \<Rightarrow> document res \<times> 's daemon" where
  "daemon_Configuration orc path d = (case svc_runtime (dm_service d) of (a, l, s) \<Rightarrow>
     (case Load orc path l of (r, l) \<Rightarrow> (r, d\<lparr>dm_service := (dm_service d)\<lparr>svc_runtime := (a, l, s)\<rparr>\<rparr>)))"

definition daemon_Diagnostics :: "(nat \<Rightarrow> env) \<Rightarrow> 's daemon \<Rightarrow> app_diagnostics res \<times> 's daemon" where
  "daemon_Diagnostics envs d = (case app_Diagnostics envs (live_app d) of (r, a) \<Rightarrow> (r, with_app a d))"

definition daemon_Pair ::
  "(nat \<Rightarrow> env) \<Rightarrow> pairing_host \<Rightarrow> string list \<Rightarrow> int \<Rightarrow> 's daemon \<Rightarrow> challenge res \<times> 's daemon" where
  "daemon_Pair envs host origins ttl d =
     (let status = daemon_Status envs d in
      if st_State status \<noteq> StateReady \<and> st_State status \<noteq> StateDegraded
      then (Inl (Plain ''service is not ready''), d)
      else case pairing_Start host \<lparr>po_Origins = origins, po_TTL = ttl, po_Endpoint = st_Endpoint status,
          po_Token = app_Token (live_app d)\<rparr> of
        Inl e \<Rightarrow> (Inl e, d)
      | Inr (server, challenge) \<Rightarrow> (Inr challenge, d\<lparr>dm_pairing := dm_pairing d @ [server]\<rparr>))"

definition closePairings :: "'s daemon \<Rightarrow> 's daemon" where
  "closePairings d = d\<lparr>dm_pairing := []\<rparr>"

definition daemon_backend ::
  "(nat \<Rightarrow> env) \<Rightarrow> (string list \<Rightarrow> string list) \<Rightarrow> pairing_host \<Rightarrow> fs_oracle \<Rightarrow> string \<Rightarrow> ('s daemon, app_diagnostics) backend" where
  "daemon_backend envs order host orc path = \<lparr>
     bk_Status = daemon_Status envs,
     bk_Reload = daemon_Reload envs order,
     bk_pairing = Some \<lparr>pb_Pair = daemon_Pair envs host, pb_RotateToken = daemon_RotateToken envs\<rparr>,
     bk_management = Some \<lparr>mb_Configuration = daemon_Configuration orc path, mb_Diagnostics = daemon_Diagnostics envs\<rparr>\<rparr>"

section \<open>Serve\<close>

text \<open>The service starts on the extension directory alone, and stops again when the control endpoint cannot be
  opened.  The value is the daemon that serves, or the error with the service that is left.\<close>

definition serve_options :: "string \<Rightarrow> options" where
  "serve_options extensions = zero_options\<lparr>op_ExtensionDir := extensions\<rparr>"

definition serve_start ::
  "(nat \<Rightarrow> env) \<Rightarrow> fs_oracle \<Rightarrow> string \<Rightarrow> 's credential_ops \<Rightarrow> string \<Rightarrow> int \<Rightarrow> go_error option \<Rightarrow> disk \<times> 's \<Rightarrow>
   (go_error \<times> 's live service option) + 's daemon" where
  "serve_start envs orc path store extensions now listen ls =
     (case app_New envs (store_loader orc path) store of Inl e \<Rightarrow> Inl (e, None)
      | Inr a \<Rightarrow> (case Start (app_ops envs id) now (serve_options extensions) (New (a, ls)) of
          (Some e, service) \<Rightarrow> Inl (e, Some service)
        | (None, service) \<Rightarrow> (case listen of
            Some e \<Rightarrow> Inl (e, Some (snd (Stop (app_ops envs id) service)))
          | None \<Rightarrow> Inr \<lparr>dm_service = service, dm_pairing = []\<rparr>)))"

definition serve_stop :: "(nat \<Rightarrow> env) \<Rightarrow> 's daemon \<Rightarrow> go_error option \<times> 's daemon" where
  "serve_stop envs d = (case Stop (app_ops envs id) (dm_service (closePairings d)) of
     (e, service) \<Rightarrow> (e, (closePairings d)\<lparr>dm_service := service\<rparr>))"

text \<open>While it serves: control connections, and whatever happens to its pairing servers.\<close>

inductive daemon_step :: "(nat \<Rightarrow> env) \<Rightarrow> fs_oracle \<Rightarrow> string \<Rightarrow> 's daemon \<Rightarrow> 's daemon \<Rightarrow> bool"
  for envs orc path where
  ds_control: "\<forall>xs. mset (order xs) = mset xs \<Longrightarrow>
     control_handle (daemon_backend envs order host orc path) input d = Some (r, d') \<Longrightarrow> daemon_step envs orc path d d'"
| ds_pairing: "run_pairing [ev] (dm_pairing d ! i) = (rss, p) \<Longrightarrow>
     daemon_step envs orc path d (d\<lparr>dm_pairing := (dm_pairing d)[i := p]\<rparr>)"

inductive daemon_reachable :: "(nat \<Rightarrow> env) \<Rightarrow> fs_oracle \<Rightarrow> string \<Rightarrow> 's daemon \<Rightarrow> bool"
  for envs orc path where
  dr_serve: "serve_start envs orc path store extensions now listen ls = Inr d \<Longrightarrow> daemon_reachable envs orc path d"
| dr_step: "daemon_reachable envs orc path d \<Longrightarrow> daemon_step envs orc path d d' \<Longrightarrow> daemon_reachable envs orc path d'"

inductive_cases daemon_stepE: "daemon_step envs orc path d d'"

section \<open>The invariant of a serving daemon\<close>

definition settled :: "status \<Rightarrow> bool" where
  "settled st \<longleftrightarrow> st_State st \<in> {StateReady, StateDegraded}"

text \<open>The service has settled, and the endpoint it reports is the address that the runtime's options name.\<close>

definition daemon_inv :: "(nat \<Rightarrow> env) \<Rightarrow> 's daemon \<Rightarrow> bool" where
  "daemon_inv envs d \<longleftrightarrow> app_inv envs (live_app d) \<and> named (live_app d) \<and> settled (svc_status (dm_service d)) \<and>
     st_Endpoint (svc_status (dm_service d)) =
       address_of (ap_options (live_app d)) (op_ListenPort (ap_options (live_app d)))"

lemma live_with_app [simp]: "live_app (with_app a d) = a" "svc_status (dm_service (with_app a d)) = svc_status (dm_service d)"
  by (simp_all add: live_app_def with_app_def)

lemma Status_endpoint [simp]: "st_Endpoint (Status rt s) = st_Endpoint (svc_status s)"
  by (simp add: Status_def Let_def)

lemma Status_settled: "settled (Status rt s) \<longleftrightarrow> settled (svc_status s)"
  by (auto simp: Status_def Let_def settled_def)

lemma w_Rotate_outcome:
  assumes "w_RotateToken env w = (e, w')"
  shows "if e = None then en_db (fst w) \<and>
      control (fst w') = (True, en_endpoint (fst w), hex_encode (text_reply (env (snd w) (RandRead 32)))) else fst w' = fst w"
  using assms by (cases w) (auto simp: w_RotateToken_def engine_RotateToken_def call_or_def Let_def control_def ignore_def
      split: if_splits option.splits prod.splits)

lemma hex_encode_ne: "s \<noteq> '''' \<Longrightarrow> hex_encode s \<noteq> ''''"
  using length_hex_encode [of s] by auto

lemma Rotate_named:
  assumes "app_RotateToken envs a = (e, a')" and "named a" and "\<forall>k. ports_and_tokens (envs k)"
  shows "named a' \<and> address_of (ap_options a') (op_ListenPort (ap_options a')) =
    address_of (ap_options a) (op_ListenPort (ap_options a))"
proof -
  obtain er w' where r: "w_RotateToken (envs (ap_index a)) (ap_world a) = (er, w')" by (metis prod.exhaust)
  note o = w_Rotate_outcome [OF r]
  show ?thesis
  proof (cases er)
    case (Some x)
    then have "a' = a\<lparr>ap_world := w'\<rparr>" "fst w' = fst (ap_world a)"
      using assms(1) r o by (auto simp: app_RotateToken_def)
    then show ?thesis using assms(2) by (simp add: named_def pinned_def pinned_to_def)
  next
    case None
    let ?t = "hex_encode (text_reply (envs (ap_index a) (snd (ap_world a)) (RandRead 32)))"
    have a': "a' = a\<lparr>ap_world := w', ap_options := (ap_options a)\<lparr>op_Token := engine_Token (fst w')\<rparr>\<rparr>"
      using assms(1) r None by (simp add: app_RotateToken_def)
    have db: "en_db (fst (ap_world a))" and c: "control (fst w') = (True, en_endpoint (fst (ap_world a)), ?t)"
      using o None by simp_all
    have t: "engine_Token (fst w') = ?t" using c by (simp add: control_def engine_Token_def)
    have ne: "?t \<noteq> ''''" using assms(3) by (intro hex_encode_ne) (simp add: ports_and_tokens_def)
    have "control (fst (ap_world a)) = (True, address_of (ap_options a) (op_ListenPort (ap_options a)), op_Token (ap_options a))"
      "op_ListenPort (ap_options a) \<noteq> 0"
      using assms(2) db by (simp_all add: named_def pinned_def pinned_to_def)
    then show ?thesis using c ne t
      by (simp add: a' named_def pinned_def pinned_to_def control_def address_of_def listen_host_def)
  qed
qed

lemma Diagnostics_named:
  assumes "app_Diagnostics envs a = (r, a')" and "app_inv envs a" and "named a"
  shows "named a' \<and> ap_options a' = ap_options a"
proof -
  obtain en h where w: "ap_world a = (en, h)" by fastforce
  let ?env = "envs (ap_index a)"
  have i: "engine_inv ?env (en, h)" "own_manager ?env (ap_manager a)" using assms(2) w by (simp_all add: app_inv_def)
  obtain gr h1 where d: "engine_Diagnostics ?env en h = (gr, h1)" by fastforce
  have i1: "engine_inv ?env (en, h1)" using engine_step_inv [OF step_Diagnostics [OF d] i(1)] .
  obtain sd w2 where md: "manager_Diagnostics (ap_manager a) (en, h1) = (sd, w2)" by (metis prod.exhaust)
  have "engine_at ?env (control en) w2"
    using engine_world.keeps_Diagnostics [OF i1 [unfolded engine_at_iff], of "ap_manager a"] i(2) md
    by (auto simp: own_manager_def)
  then have "control (fst (ap_world a')) = control (fst (ap_world a)) \<and> ap_options a' = ap_options a"
    using assms(1) w d md by (cases gr) (auto simp: app_Diagnostics_def engine_at_def)
  then show ?thesis using assms(3) by (auto simp: named_def pinned_def pinned_to_def control_def)
qed

text \<open>What dispatch does to the backend is one of its operations, or nothing.\<close>

lemma dispatch_keeps:
  assumes d: "dispatch bk rq b = Some (r, b')" and "P b"
    and reload: "\<And>e b2. bk_Reload bk b = (e, b2) \<Longrightarrow> P b2"
    and pair: "\<And>p origins ttl c b2. bk_pairing bk = Some p \<Longrightarrow> pb_Pair p origins ttl b = (c, b2) \<Longrightarrow> P b2"
    and rotate: "\<And>p e b2. bk_pairing bk = Some p \<Longrightarrow> pb_RotateToken p b = (e, b2) \<Longrightarrow> P b2"
    and configuration: "\<And>m c b2. bk_management bk = Some m \<Longrightarrow> mb_Configuration m b = (c, b2) \<Longrightarrow> P b2"
    and diagnostics: "\<And>m g b2. bk_management bk = Some m \<Longrightarrow> mb_Diagnostics m b = (g, b2) \<Longrightarrow> P b2"
  shows "P b'"
proof (cases "cr_Version rq \<noteq> control_version \<or> cr_Operation rq \<notin> set operations")
  case True
  then show ?thesis using dispatch_refused [OF True, of bk b] d assms(2) by auto
next
  case False
  then have v: "cr_Version rq = control_version" and op: "cr_Operation rq \<in> set operations" by simp_all
  consider (none) "cr_Operation rq \<in> {''status'', ''version''}" | (reload) "cr_Operation rq = ''reload''"
    | (pair) "cr_Operation rq = ''pair''" | (rotate) "cr_Operation rq = ''rotate_token''"
    | (configuration) "cr_Operation rq = ''configuration''" | (diagnostics) "cr_Operation rq = ''diagnostics''"
    using op by (auto simp: operations_def)
  then show ?thesis
  proof cases
    case none
    then show ?thesis using d assms(2) v by (auto simp: dispatch_def with_status_def)
  next
    case reload
    then show ?thesis using d v assms(3) assms(2)
      by (auto simp: dispatch_def with_status_def split: prod.splits option.splits)
  next
    case pair
    then show ?thesis using d v assms(2,4) by (auto simp: dispatch_def split: prod.splits option.splits sum.splits)
  next
    case rotate
    then show ?thesis using d v assms(2,5) by (auto simp: dispatch_def with_status_def split: prod.splits option.splits)
  next
    case configuration
    then show ?thesis using d v assms(2,6) by (auto simp: dispatch_def split: prod.splits option.splits sum.splits)
  next
    case diagnostics
    then show ?thesis using d v assms(2,7) by (auto simp: dispatch_def split: prod.splits option.splits sum.splits)
  qed
qed

text \<open>A reload of a settled service settles again and keeps the endpoint.\<close>

lemma daemon_Reload_inv:
  assumes "daemon_Reload envs order d = (e, d')" and "daemon_inv envs d" and "\<forall>xs. mset (order xs) = mset xs"
  shows "daemon_inv envs d'"
proof -
  obtain a l s where rt: "svc_runtime (dm_service d) = (a, l, s)" by (metis prod_cases3)
  let ?st = "svc_status (dm_service d)"
  have i: "app_inv envs a" "named a" "settled ?st"
    "st_Endpoint ?st = address_of (ap_options a) (op_ListenPort (ap_options a))"
    using assms(2) rt by (simp_all add: daemon_inv_def live_app_def)
  obtain er a' ls' where r: "app_Reload envs order a (l, s) = (er, a', ls')" by (metis prod_cases3)
  have k: "app_inv envs a'" "named a'" using app_Reload_inv [OF r i(1) assms(3)] Reload_named [OF r i(1) assms(3) i(2)] by simp_all
  have o: "address_of (ap_options a') (op_ListenPort (ap_options a')) = address_of (ap_options a) (op_ListenPort (ap_options a))"
    using Reload_options [OF r] by auto
  obtain er' st' where f: "reload_finish (st_State ?st) er (rt_Sources (app_ops envs order) (a', ls'))
      (?st\<lparr>st_State := StateReloading\<rparr>) = (er', st')" by fastforce
  have st': "settled st'" "st_Endpoint st' = st_Endpoint ?st"
    using f i(3) by (auto simp: reload_finish_def settled_def Let_def split: option.splits if_splits)
  have "reload_begin ?st = Inr (st_State ?st, ?st\<lparr>st_State := StateReloading\<rparr>)"
    using i(3) by (auto simp: reload_begin_def settled_def Let_def)
  moreover have "rt_Reload (app_ops envs order) (a, l, s) = (er, (a', ls'))" by (simp add: app_ops_def r)
  ultimately have "d' = d\<lparr>dm_service := (dm_service d)\<lparr>svc_runtime := (a', ls'), svc_status := st'\<rparr>\<rparr>"
    using assms(1) rt f by (simp add: daemon_Reload_def Reload_def Let_def)
  then show ?thesis using k o st' i(4) by (simp add: daemon_inv_def live_app_def)
qed

lemma with_app_inv:
  assumes "daemon_inv envs d" and "app_inv envs a" and "named a"
    and "address_of (ap_options a) (op_ListenPort (ap_options a)) =
      address_of (ap_options (live_app d)) (op_ListenPort (ap_options (live_app d)))"
  shows "daemon_inv envs (with_app a d)"
  using assms by (simp add: daemon_inv_def)

lemma daemon_Rotate_inv:
  assumes "daemon_RotateToken envs d = (e, d')" and "daemon_inv envs d" and "\<forall>k. ports_and_tokens (envs k)"
  shows "daemon_inv envs d'"
proof -
  obtain er a where r: "app_RotateToken envs (live_app d) = (er, a)" by (metis prod.exhaust)
  have i: "app_inv envs (live_app d)" "named (live_app d)" using assms(2) by (simp_all add: daemon_inv_def)
  have "daemon_inv envs (with_app a d)"
    using with_app_inv [OF assms(2) app_step_inv [OF as_RotateToken [OF r] i(1)]] Rotate_named [OF r i(2) assms(3)] by simp
  then show ?thesis using assms(1) r by (simp add: daemon_RotateToken_def)
qed

lemma daemon_Diagnostics_inv:
  assumes "daemon_Diagnostics envs d = (g, d')" and "daemon_inv envs d"
  shows "daemon_inv envs d'"
proof -
  obtain gr a where r: "app_Diagnostics envs (live_app d) = (gr, a)" by (metis prod.exhaust)
  have i: "app_inv envs (live_app d)" "named (live_app d)" using assms(2) by (simp_all add: daemon_inv_def)
  have "daemon_inv envs (with_app a d)"
    using with_app_inv [OF assms(2) app_step_inv [OF as_Diagnostics [OF r] i(1)]] Diagnostics_named [OF r i] by simp
  then show ?thesis using assms(1) r by (simp add: daemon_Diagnostics_def)
qed

lemma daemon_Configuration_inv:
  "daemon_Configuration orc path d = (c, d') \<Longrightarrow> daemon_inv envs d \<Longrightarrow> daemon_inv envs d'"
  by (auto simp: daemon_Configuration_def daemon_inv_def live_app_def split: prod.splits)

lemma pairing_list_inv [simp]: "daemon_inv envs (d\<lparr>dm_pairing := ps\<rparr>) = daemon_inv envs d"
  by (simp add: daemon_inv_def live_app_def)

lemma daemon_Pair_inv: "daemon_Pair envs host origins ttl d = (c, d') \<Longrightarrow> daemon_inv envs d \<Longrightarrow> daemon_inv envs d'"
  by (auto simp: daemon_Pair_def Let_def split: if_splits sum.splits)

lemma daemon_step_inv:
  assumes "daemon_step envs orc path d d'" and "daemon_inv envs d" and "\<forall>k. ports_and_tokens (envs k)"
  shows "daemon_inv envs d'"
  using assms(1)
proof (rule daemon_stepE)
  fix order host input r
  assume perm: "\<forall>xs. mset (order xs) = mset xs"
    and c: "control_handle (daemon_backend envs order host orc path) input d = Some (r, d')"
  show ?thesis
  proof (cases "decode_struct request_setters zero_request (take request_limit input)")
    case (Inl e)
    then show ?thesis using c assms(2) by (simp add: control_handle_def)
  next
    case (Inr rq)
    then have "dispatch (daemon_backend envs order host orc path) rq d = Some (r, d')"
      using c by (simp add: control_handle_def)
    then show ?thesis
      by (rule dispatch_keeps [where P = "daemon_inv envs"])
        (auto simp: daemon_backend_def assms(2) intro: daemon_Reload_inv [OF _ assms(2) perm] daemon_Pair_inv [OF _ assms(2)]
          daemon_Rotate_inv [OF _ assms(2,3)] daemon_Configuration_inv [OF _ assms(2)] daemon_Diagnostics_inv [OF _ assms(2)])
  qed
qed (simp add: assms(2))

lemma serve_start_live:
  assumes "serve_start envs orc path store extensions now listen ls = Inr d" and "\<forall>k. ports_and_tokens (envs k)"
  shows "daemon_inv envs d \<and> pinned (live_app d)"
proof -
  obtain a where a: "app_New envs (store_loader orc path) store = Inr a"
    using assms(1) by (auto simp: serve_start_def split: sum.splits)
  obtain l s where ls: "ls = (l, s)" by fastforce
  let ?opts = "serve_options extensions"
  obtain r a' ls' where st: "app_Start envs ?opts a (l, s) = (r, a', ls')" by (metis prod_cases3)
  have start: "rt_Start (app_ops envs id) (a, ls) ?opts = (r, (a', ls'))" by (simp add: app_ops_def st ls)
  obtain er service where sv: "Start (app_ops envs id) now ?opts (New (a, ls)) = (er, service)" by (metis prod.exhaust)
  have ok: "er = None" "d = \<lparr>dm_service = service, dm_pairing = []\<rparr>"
    using assms(1) a sv by (cases er; cases listen; simp add: serve_start_def)+
  then obtain endpoint where r: "r = Inr endpoint"
    using sv start by (cases r) (auto simp: Start_def start_begin_def New_def stopped_status_def start_finish_def Let_def)
  have srv: "svc_runtime service = (a', ls')" "settled (svc_status service)" "st_Endpoint (svc_status service) = endpoint"
    using sv start r ok(1)
    by (auto simp: Start_def start_begin_def New_def stopped_status_def start_finish_def Let_def settled_def split: if_splits)
  have lh: "listen_host ?opts = ''127.0.0.1''" "op_ListenPort ?opts = 0"
    by (simp_all add: serve_options_def zero_options_def listen_host_def or_default_def)
  have i: "app_inv envs a" by (rule app_New_inv [OF a])
  have pins: "pinned a' \<and> endpoint = en_endpoint (fst (ap_world a'))"
    by (rule Start_pins [OF st [unfolded r] i]) (simp_all add: assms(2) lh plain_host_def)
  then have "named a'" "endpoint = address_of (ap_options a') (op_ListenPort (ap_options a'))"
    using pinned_named by (auto simp: pinned_def pinned_to_def control_def)
  moreover have "app_inv envs a'" using app_Start_inv [OF st i] .
  ultimately show ?thesis using ok(2) srv pins by (simp add: daemon_inv_def live_app_def)
qed

lemmas serve_start_inv = serve_start_live [THEN conjunct1]
lemmas serve_start_pinned = serve_start_live [THEN conjunct2]

lemma daemon_reachable_inv:
  "daemon_reachable envs orc path d \<Longrightarrow> \<forall>k. ports_and_tokens (envs k) \<Longrightarrow> daemon_inv envs d"
  by (induction rule: daemon_reachable.induct) (auto intro: serve_start_inv daemon_step_inv)

text \<open>C32. What a pairing gives away is alive.  In whatever state a serving daemon is, after any control
  requests, reloads that replaced or lost the engine, rotations and pairings, a pairing that the daemon opens
  belongs to a running engine: its response names the endpoint of that engine and its token, and that engine
  serves this endpoint with this token or nothing.  So no pairing is opened on an engine that is gone.\<close>

theorem pairing_names_live_engine:
  assumes "daemon_reachable envs orc path d" and "\<forall>k. ports_and_tokens (envs k)"
    and "daemon_Pair envs host origins ttl d = (Inr c, d')"
  shows "\<exists>p. dm_pairing d' = dm_pairing d @ [p] \<and> dm_service d' = dm_service d \<and> ch_Nonce c = pa_nonce p \<and>
    (let a = live_app d; en = fst (ap_world a) in
       en_db en \<and> pa_response p = \<lparr>pr_Endpoint = en_endpoint en, pr_Identity = CurrentIdentity, pr_Token = app_Token a\<rparr> \<and>
       w_serving (world (envs (ap_index a)) (snd (ap_world a))) \<in> {None, Some [AText (en_endpoint en), AText (app_Token a)]})"
proof -
  have inv: "daemon_inv envs d" by (rule daemon_reachable_inv [OF assms(1,2)])
  let ?a = "live_app d"
  let ?opts = "\<lparr>po_Origins = origins, po_TTL = ttl, po_Endpoint = st_Endpoint (daemon_Status envs d), po_Token = app_Token ?a\<rparr>"
  obtain p where p: "pairing_Start host ?opts = Inr (p, c)" "d' = d\<lparr>dm_pairing := dm_pairing d @ [p]\<rparr>"
    using assms(3) by (auto simp: daemon_Pair_def Let_def split: if_splits sum.splits)
  note st = started [OF p(1)]
  obtain en h where w: "ap_world ?a = (en, h)" by fastforce
  have ei: "engine_inv (envs (ap_index ?a)) (en, h)" using inv w by (simp add: daemon_inv_def app_inv_def)
  have "app_Token ?a \<noteq> ''''" using p(1) by (auto simp: pairing_Start_def split: if_splits)
  then have db: "en_db en" using ei w by (auto simp: engine_inv_def app_Token_def engine_Token_def Let_def split: if_splits)
  then have "pinned ?a" using inv w by (simp add: daemon_inv_def named_def)
  then have "en_endpoint en = st_Endpoint (daemon_Status envs d)"
    using inv w by (simp add: pinned_def pinned_to_def control_def daemon_inv_def daemon_Status_def)
  moreover have "w_serving (world (envs (ap_index ?a)) h) \<in> {None, Some [AText (en_endpoint en), AText (app_Token ?a)]}"
    using ei db w by (auto simp: engine_inv_def app_Token_def engine_Token_def Let_def)
  ultimately show ?thesis using st p(2) w db by (intro exI [of _ p]) simp
qed

text \<open>A rotation leaves the open pairing servers with the token that they were started with.\<close>

lemma rotation_keeps_pairings: "daemon_RotateToken envs d = (e, d') \<Longrightarrow> dm_pairing d' = dm_pairing d"
  by (auto simp: daemon_RotateToken_def with_app_def split: prod.splits)

lemma Load_missing:
  "dk_files dk path = None \<Longrightarrow> \<exists>dk'. Load calm_oracle path dk = (Inr empty_document, dk') \<and> dk_files dk' path = None"
  by (simp add: Load_def loadFile_def fs_ReadFile_def empty_document_def calm_oracle_def)

lemma demo_serves:
  "\<exists>d. serve_start demo_envs calm_oracle demo_path memory_ops ''/ext'' 0 None (demo_disk, empty_store) = Inr d"
proof -
  let ?opts = "serve_options ''/ext''"
  have opts: "?opts\<lparr>op_AllowedPaths := mergePaths [mergePaths [op_AllowedPaths ?opts], filePaths empty_document]\<rparr> = ?opts"
    by (simp add: serve_options_def zero_options_def mergePaths_def filePaths_def empty_document_def sources_of_def)
  have lh: "listen_host ?opts = listen_host demo_options"
    by (simp add: serve_options_def zero_options_def demo_options_def listen_host_def or_default_def)
  obtain uri w where st: "w_Start demo_env ?opts (engine_New, []) = (Inr uri, w)"
    using demo_start [of ?opts] demo_loopback lh by (auto simp: serve_options_def zero_options_def)
  obtain d1 where ld: "Load calm_oracle demo_path demo_disk = (Inr empty_document, d1)" and no: "dk_files d1 demo_path = None"
    using Load_missing [of demo_disk] by (auto simp: demo_disk_def)
  obtain d2 where ld2: "Load calm_oracle demo_path d1 = (Inr empty_document, d2)" using Load_missing [OF no] by blast
  let ?a = "\<lparr>ap_created = 1, ap_index = 0, ap_world = (engine_New, []),
     ap_manager = \<lparr>mg_loader = store_loader calm_oracle demo_path, mg_secrets = memory_ops,
       mg_factories = engine_factories demo_env, mg_active = []\<rparr>,
     ap_failures = [], ap_loader = store_loader calm_oracle demo_path, ap_secrets = memory_ops, ap_options = zero_options,
     ap_basePaths = [], ap_document = \<lparr>doc_Version = 0, doc_Sources = None\<rparr>, ap_dropped = []\<rparr>"
  have a: "app_New demo_envs (store_loader calm_oracle demo_path) memory_ops = Inr ?a"
    by (simp add: app_New_def newManager_ok demo_envs_def)
  have b: "\<exists>m' ls'. Bootstrap (ap_manager ?a) (d1, empty_store, w) = (Inr [], m', ls')"
    by (cases empty_store) (auto simp: Bootstrap_def store_loader_def ld2 empty_document_def sources_of_def)
  have "\<exists>a' ls'. app_Start demo_envs ?opts ?a (demo_disk, empty_store) = (Inr uri, a', ls')"
    using st b opts by (auto simp: app_Start_def store_loader_def ld demo_envs_def Let_def split: prod.splits)
  then obtain a' ls' where "app_Start demo_envs ?opts ?a (demo_disk, empty_store) = (Inr uri, a', ls')" by blast
  then have "fst (Start (app_ops demo_envs id) 0 ?opts (New (?a, demo_disk, empty_store))) = None"
    by (simp add: Start_def start_begin_def New_def stopped_status_def start_finish_def app_ops_def Let_def)
  then obtain service where "Start (app_ops demo_envs id) 0 ?opts (New (?a, demo_disk, empty_store)) = (None, service)"
    by (metis prod.collapse)
  then show ?thesis by (simp add: serve_start_def a)
qed

theorem pairing_names_live_engine_witness:
  "\<exists>(d :: (memory \<times> heap \<times> nat set) daemon) c d' p.
     serve_start demo_envs calm_oracle demo_path memory_ops ''/ext'' 0 None (demo_disk, empty_store) = Inr d \<and>
     daemon_Pair demo_envs demo_host [''https://app.pondpilot.io''] 0 d = (Inr c, d') \<and> dm_pairing d' = dm_pairing d @ [p] \<and>
     en_db (fst (ap_world (live_app d))) \<and> pr_Token (pa_response p) = app_Token (live_app d)"
proof -
  obtain d :: "(memory \<times> heap \<times> nat set) daemon" where s:
    "serve_start demo_envs calm_oracle demo_path memory_ops ''/ext'' 0 None (demo_disk, empty_store) = Inr d" using demo_serves by blast
  have r: "daemon_reachable demo_envs calm_oracle demo_path d" by (rule dr_serve [OF s])
  have ports: "\<forall>k. ports_and_tokens (demo_envs k)" using demo_ports by (simp add: demo_envs_def)
  have inv: "daemon_inv demo_envs d" by (rule serve_start_inv [OF s ports])
  have live: "pinned (live_app d)" by (rule serve_start_pinned [OF s ports])
  then have t: "app_Token (live_app d) \<noteq> ''''" by (simp add: pinned_def pinned_to_def control_def app_Token_def engine_Token_def)
  have "st_Endpoint (daemon_Status demo_envs d) \<noteq> ''''"
    using inv by (simp add: daemon_inv_def daemon_Status_def address_of_def)
  moreover have "settled (daemon_Status demo_envs d)" using inv by (simp add: daemon_Status_def Status_settled daemon_inv_def)
  ultimately obtain c d' where p: "daemon_Pair demo_envs demo_host [''https://app.pondpilot.io''] 0 d = (Inr c, d')"
    using t by (auto simp: daemon_Pair_def settled_def Let_def pairing_Start_def randomNonce_def demo_host_def)
  from pairing_names_live_engine [OF r ports p] s p show ?thesis
    by (intro exI [of _ d] exI [of _ c] exI [of _ d']) (auto simp: Let_def)
qed

end
