(* ===== verification/ControlJson.thy ===== *)
theory ControlJson
  imports Daemon ConfigRound Clock
begin

text \<open>
  The JSON of the control responses (internal/control/control.go), and of what they carry: the status of service.go, the
  pairing challenge, the document of the configuration, the diagnostics of the engine and of the sources, the versions.
  The members that need no check are trees, whose compact text the encoder writes; the client's decoder is
  the lenient one of package json, which ignores unknown members.
\<close>

section \<open>The encoder\<close>

definition int_tree :: "int \<Rightarrow> tree" where
  "int_tree i = Lit (itoa i) (JNum (itoa i))"

definition strings_tree :: "string list \<Rightarrow> tree" where
  "strings_tree xs = array_tree (map string_tree xs)"

definition omitempty_tree :: "string \<Rightarrow> string \<Rightarrow> (string \<times> tree) list" where
  "omitempty_tree name v = (if v = '''' then [] else [(name, string_tree v)])"

definition string_map_tree :: "(string \<times> string) list \<Rightarrow> tree" where
  "string_map_tree m = object_tree (map (\<lambda>key. (key, string_tree (the (map_of m key)))) (sorted_keys m))"

fun any_tree :: "json \<Rightarrow> tree" where
  "any_tree JNull = Lit ''null'' JNull"
| "any_tree (JBool b) = bool_tree b"
| "any_tree (JNum t) = Lit t (JNum t)"
| "any_tree (JStr s) = string_tree s"
| "any_tree (JArr vs) = array_tree (map any_tree vs)"
| "any_tree (JObj ms) = object_tree (map (\<lambda>m. (fst m, any_tree (snd m))) ms)"

definition any_map_tree :: "any_map \<Rightarrow> tree" where
  "any_map_tree ms = object_tree (map (\<lambda>(k, v). (k, any_tree v)) ms)"

definition time_tree :: "string \<Rightarrow> tree" where
  "time_tree stamp = Lit (CHR 0x22 # stamp @ [CHR 0x22]) (JStr stamp)"

definition year_error :: go_error where
  "year_error = Plain ''Time.MarshalJSON: year outside of range [0,9999]''"

definition source_status_tree :: "source_status \<Rightarrow> tree" where
  "source_status_tree s = object_tree
     ([(''id'', string_tree (ss_ID s)), (''name'', string_tree (ss_Name s)), (''type'', string_tree (ss_Type s)),
       (''health'', string_tree (ss_Health s))] @ omitempty_tree ''error_code'' (ss_ErrorCode s))"

text \<open>A struct is never empty, so the zero time is written.  A service that has not started has neither a time nor a slice
  of sources, and a nil slice is null.\<close>

definition started_at :: "status \<Rightarrow> int" where
  "started_at st = (case st_StartedAt st of None \<Rightarrow> zero_time | Some t \<Rightarrow> t)"

definition status_members :: "string \<Rightarrow> status \<Rightarrow> (string \<times> tree) list" where
  "status_members stamp st = [(''state'', string_tree (state_text (st_State st)))] @ omitempty_tree ''endpoint'' (st_Endpoint st) @
     [(''started_at'', time_tree stamp),
      (''sources'', if st_StartedAt st = None \<and> st_Sources st = [] then Lit ''null'' JNull
        else array_tree (map source_status_tree (st_Sources st)))] @
     omitempty_tree ''last_error'' (st_LastError st) @ [(''capabilities'', strings_tree (st_Capabilities st))]"

definition status_json :: "status \<Rightarrow> string res" where
  "status_json st = (case RFC3339 (started_at st) of None \<Rightarrow> Inl year_error
     | Some stamp \<Rightarrow> Inr (flat (object_tree (status_members stamp st))))"

definition challenge_members :: "string \<Rightarrow> challenge \<Rightarrow> (string \<times> tree) list" where
  "challenge_members stamp c =
     [(''url'', string_tree (ch_URL c)), (''nonce'', string_tree (ch_Nonce c)), (''expires_at'', time_tree stamp)]"

definition challenge_json :: "challenge \<Rightarrow> string res" where
  "challenge_json c = (case RFC3339 (ch_ExpiresAt c) of None \<Rightarrow> Inl year_error
     | Some stamp \<Rightarrow> Inr (flat (object_tree (challenge_members stamp c))))"

definition configuration_json :: "document \<Rightarrow> string res" where
  "configuration_json d = map_sum id (document_text d) (encode_sources (sources_of d))"

definition source_diagnostic_tree :: "source_diagnostic \<Rightarrow> tree" where
  "source_diagnostic_tree g = object_tree [(''id'', string_tree (sg_ID g)), (''health'', string_tree (sg_Health g)),
     (''read_only'', bool_tree (sg_ReadOnly g)), (''warnings'', strings_tree (sg_Warnings g))]"

text \<open>The keys of a map are written in their order.\<close>

definition diagnostics_members :: "app_diagnostics \<Rightarrow> (string \<times> tree) list" where
  "diagnostics_members g =
     [(''capabilities'', strings_tree (ad_capabilities g)), (''duckdb_version'', string_tree (dg_duckdb_version (ad_engine g))),
      (''endpoint'', string_tree (dg_endpoint (ad_engine g))), (''extension_versions'', string_map_tree (ad_extension_versions g)),
      (''product_version'', string_tree (ad_product_version g)), (''protocol_version'', int_tree (ad_protocol_version g)),
      (''settings'', string_map_tree (dg_settings (ad_engine g))), (''source_count'', int_tree (int (dg_source_count (ad_engine g)))),
      (''source_diagnostics'', array_tree (map source_diagnostic_tree (ad_source_diagnostics g))),
      (''sources'', array_tree (map source_status_tree (ad_sources g)))]"

definition member_if :: "string \<Rightarrow> ('a \<Rightarrow> string res) \<Rightarrow> 'a option \<Rightarrow> (string \<times> string) list res" where
  "member_if name enc v = (case v of None \<Rightarrow> Inr [] | Some x \<Rightarrow> map_sum id (\<lambda>t. [(name, t)]) (enc x))"

definition response_json :: "app_diagnostics control_response \<Rightarrow> string res" where
  "response_json r =
     (case (member_if ''status'' status_json (cs_Status r), member_if ''pairing'' challenge_json (cs_Pairing r),
         member_if ''configuration'' configuration_json (cs_Configuration r),
         member_if ''diagnostics'' (\<lambda>g. Inr (flat (object_tree (diagnostics_members g)))) (cs_Diagnostics r),
         member_if ''version_info'' (\<lambda>m. Inr (flat (any_map_tree m))) (cs_VersionInfo r)) of
       (Inl e, _, _, _, _) \<Rightarrow> Inl e | (_, Inl e, _, _, _) \<Rightarrow> Inl e | (_, _, Inl e, _, _) \<Rightarrow> Inl e
     | (_, _, _, Inl e, _) \<Rightarrow> Inl e | (_, _, _, _, Inl e) \<Rightarrow> Inl e
     | (Inr status, Inr pairing, Inr configuration, Inr diagnostics, Inr versions) \<Rightarrow>
         Inr (json_object ([(''version'', itoa (cs_Version r)), (''ok'', if cs_OK r then ''true'' else ''false'')] @ status @
           (if cs_ErrorCode r = '''' then [] else [(''error_code'', encode_string (cs_ErrorCode r))]) @
           (if cs_Message r = '''' then [] else [(''message'', encode_string (cs_Message r))]) @
           pairing @ configuration @ diagnostics @ versions)))"

section \<open>The decoder of the client\<close>

text \<open>A pointer to a struct: null clears it, an object goes into the struct that is there or into a new one.\<close>

definition set_pointer :: "('a \<Rightarrow> string \<Rightarrow> 'a res) \<Rightarrow> 'a \<Rightarrow> ('b \<Rightarrow> 'a option) \<Rightarrow> ('a option \<Rightarrow> 'b \<Rightarrow> 'b) \<Rightarrow>
    string \<Rightarrow> json \<Rightarrow> 'b \<Rightarrow> 'b res" where
  "set_pointer dec zero get upd raw v x = (case v of JNull \<Rightarrow> Inr (upd None x)
     | _ \<Rightarrow> map_sum id (\<lambda>y. upd (Some y) x) (dec (case get x of None \<Rightarrow> zero | Some y \<Rightarrow> y) raw))"

definition set_any_map :: "('b \<Rightarrow> any_map option) \<Rightarrow> (any_map option \<Rightarrow> 'b \<Rightarrow> 'b) \<Rightarrow> string \<Rightarrow> json \<Rightarrow> 'b \<Rightarrow> 'b res" where
  "set_any_map get upd raw v x = (case v of JNull \<Rightarrow> Inr (upd None x)
     | JObj m \<Rightarrow> Inr (upd (Some (fold (\<lambda>(k, y). AList.update k y) m (case get x of None \<Rightarrow> [] | Some old \<Rightarrow> old))) x)
     | _ \<Rightarrow> Inl decode_error)"

text \<open>A time is read from the raw text between the quotes.\<close>

definition set_time :: "(string \<Rightarrow> int option) \<Rightarrow> (int \<Rightarrow> 'b \<Rightarrow> 'b) \<Rightarrow> string \<Rightarrow> json \<Rightarrow> 'b \<Rightarrow> 'b res" where
  "set_time slow upd raw v x = (case v of JNull \<Rightarrow> Inr x
     | JStr _ \<Rightarrow> (let body = butlast (tl raw) in
         case (case parse_RFC3339 body of None \<Rightarrow> slow body | Some t \<Rightarrow> Some t) of
           None \<Rightarrow> Inl (Plain ''parsing time'') | Some t \<Rightarrow> Inr (upd t x))
     | _ \<Rightarrow> Inl decode_error)"

text \<open>The elements of a slice of structs are decoded afresh.\<close>

definition set_structs :: "(string \<Rightarrow> 'a res) \<Rightarrow> ('a list option \<Rightarrow> 'b \<Rightarrow> 'b) \<Rightarrow> string \<Rightarrow> json \<Rightarrow> 'b \<Rightarrow> 'b res" where
  "set_structs dec upd raw v x = (case v of
     JArr _ \<Rightarrow> (case raw_elements raw of None \<Rightarrow> Inl decode_error
       | Some xs \<Rightarrow> map_sum id (\<lambda>ys. upd (Some ys) x) (decode_elements dec xs))
   | JNull \<Rightarrow> Inr (upd None x) | _ \<Rightarrow> Inl decode_error)"

text \<open>The states are those of this version; another text is an error here.\<close>

definition service_states :: "service_state list" where
  "service_states = [StateStopped, StateStarting, StateReady, StateDegraded, StateReloading, StateStopping, StateFailed]"

definition set_state :: "string \<Rightarrow> json \<Rightarrow> status \<Rightarrow> status res" where
  "set_state raw v st = (case v of
     JStr s \<Rightarrow> (case List.find (\<lambda>state. state_text state = s) service_states of
         None \<Rightarrow> Inl decode_error | Some state \<Rightarrow> Inr (st\<lparr>st_State := state\<rparr>))
   | _ \<Rightarrow> Inl decode_error)"

definition zero_source_status :: source_status where
  "zero_source_status = \<lparr>ss_ID = '''', ss_Name = '''', ss_Type = '''', ss_Health = '''', ss_ErrorCode = ''''\<rparr>"

definition source_status_setters :: "(string \<times> (string \<Rightarrow> json \<Rightarrow> source_status \<Rightarrow> source_status res)) list" where
  "source_status_setters =
    [(''id'', set_string (\<lambda>x. ss_ID_update (\<lambda>_. x))), (''name'', set_string (\<lambda>x. ss_Name_update (\<lambda>_. x))),
     (''type'', set_string (\<lambda>x. ss_Type_update (\<lambda>_. x))), (''health'', set_string (\<lambda>x. ss_Health_update (\<lambda>_. x))),
     (''error_code'', set_string (\<lambda>x. ss_ErrorCode_update (\<lambda>_. x)))]"

definition zero_status :: status where
  "zero_status = \<lparr>st_State = StateStopped, st_Endpoint = '''', st_StartedAt = None, st_Sources = [], st_LastError = '''',
     st_Capabilities = []\<rparr>"

definition status_setters :: "(string \<Rightarrow> int option) \<Rightarrow> (string \<times> (string \<Rightarrow> json \<Rightarrow> status \<Rightarrow> status res)) list" where
  "status_setters slow =
    [(''state'', set_state), (''endpoint'', set_string (\<lambda>x. st_Endpoint_update (\<lambda>_. x))),
     (''started_at'', set_time slow (\<lambda>t. st_StartedAt_update (\<lambda>_. if t = zero_time then None else Some t))),
     (''sources'', set_structs (decode_lenient source_status_setters zero_source_status)
        (\<lambda>xs. st_Sources_update (\<lambda>_. case xs of None \<Rightarrow> [] | Some ss \<Rightarrow> ss))),
     (''last_error'', set_string (\<lambda>x. st_LastError_update (\<lambda>_. x))),
     (''capabilities'', set_strings st_Capabilities (\<lambda>x. st_Capabilities_update (\<lambda>_. x)))]"

definition zero_challenge :: challenge where
  "zero_challenge = \<lparr>ch_URL = '''', ch_Nonce = '''', ch_ExpiresAt = zero_time\<rparr>"

definition challenge_setters :: "(string \<Rightarrow> int option) \<Rightarrow> (string \<times> (string \<Rightarrow> json \<Rightarrow> challenge \<Rightarrow> challenge res)) list" where
  "challenge_setters slow =
    [(''url'', set_string (\<lambda>x. ch_URL_update (\<lambda>_. x))), (''nonce'', set_string (\<lambda>x. ch_Nonce_update (\<lambda>_. x))),
     (''expires_at'', set_time slow (\<lambda>t. ch_ExpiresAt_update (\<lambda>_. t)))]"

definition zero_document :: document where
  "zero_document = \<lparr>doc_Version = 0, doc_Sources = None\<rparr>"

definition document_setters :: "(string \<times> (string \<Rightarrow> json \<Rightarrow> document \<Rightarrow> document res)) list" where
  "document_setters =
    [(''version'', set_int (\<lambda>x. doc_Version_update (\<lambda>_. x))),
     (''sources'', set_structs (decode_lenient source_setters zero_source) (\<lambda>xs. doc_Sources_update (\<lambda>_. xs)))]"

definition zero_control_response :: "any_map control_response" where
  "zero_control_response = \<lparr>cs_Version = 0, cs_OK = False, cs_Status = None, cs_ErrorCode = '''', cs_Message = '''',
     cs_Pairing = None, cs_Configuration = None, cs_Diagnostics = None, cs_VersionInfo = None\<rparr>"

definition control_response_setters ::
  "(string \<Rightarrow> int option) \<Rightarrow> (string \<times> (string \<Rightarrow> json \<Rightarrow> any_map control_response \<Rightarrow> any_map control_response res)) list" where
  "control_response_setters slow =
    [(''version'', set_int (\<lambda>x. cs_Version_update (\<lambda>_. x))), (''ok'', set_bool (\<lambda>x. cs_OK_update (\<lambda>_. x))),
     (''status'', set_pointer (decode_lenient (status_setters slow)) zero_status cs_Status (\<lambda>x. cs_Status_update (\<lambda>_. x))),
     (''error_code'', set_string (\<lambda>x. cs_ErrorCode_update (\<lambda>_. x))),
     (''message'', set_string (\<lambda>x. cs_Message_update (\<lambda>_. x))),
     (''pairing'', set_pointer (decode_lenient (challenge_setters slow)) zero_challenge cs_Pairing (\<lambda>x. cs_Pairing_update (\<lambda>_. x))),
     (''configuration'', set_pointer (decode_lenient document_setters) zero_document cs_Configuration
        (\<lambda>x. cs_Configuration_update (\<lambda>_. x))),
     (''diagnostics'', set_any_map cs_Diagnostics (\<lambda>x. cs_Diagnostics_update (\<lambda>_. x))),
     (''version_info'', set_any_map cs_VersionInfo (\<lambda>x. cs_VersionInfo_update (\<lambda>_. x)))]"

text \<open>\<open>json.Decoder.Decode\<close>: the first value of what arrives.\<close>

definition decode_control_response :: "(string \<Rightarrow> int option) \<Rightarrow> string \<Rightarrow> any_map control_response res" where
  "decode_control_response slow s = (case raw_value s of None \<Rightarrow> Inl decode_error
     | Some (t, _, _) \<Rightarrow> decode_lenient (control_response_setters slow) zero_control_response t)"

section \<open>The trees of what is written\<close>

lemma lit_int: "lit_ok (itoa i) (JNum (itoa i))"
proof (rule lit_bare)
  have "list_all number_char (decimal n)" for n
    using decimal_digits [of n] by (auto simp: list_all_iff number_char_def)
  then show "list_all bare (itoa i)" using number_bare by (auto simp: itoa_def list_all_iff number_char_def)
  show "itoa i \<noteq> []" using decimal_digits by (simp add: itoa_def)
  show "parse_scalar (itoa i @ r) = Some (JNum (itoa i), r)" if "delimited r" for r
  proof -
    have "parse_value (Suc (2 * length (itoa i @ r) + 1)) 0 (itoa i @ r) = Some (JNum (itoa i), r)"
      by (rule json_textD [OF json_text_int order_refl that]) simp
    moreover obtain c cs where c: "itoa i = c # cs" "c \<noteq> CHR ''[''" "c \<noteq> CHR ''{''"
      using \<open>itoa i \<noteq> []\<close> \<open>list_all bare (itoa i)\<close> by (cases "itoa i") (auto simp: bare_def)
    moreover have "skip_ws (itoa i @ r) = itoa i @ r" by (rule skip_ws_text [OF json_text_int])
    ultimately have "parse_scalar (skip_ws (itoa i @ r)) = Some (JNum (itoa i), r)"
      by (intro parse_value_scalar [of _ _ _ _ _ c "cs @ r"]) simp_all
    then show ?thesis unfolding \<open>skip_ws (itoa i @ r) = itoa i @ r\<close> .
  qed
qed

lemma int_tree_facts [simp]: "sound (int_tree i)" "nesting (int_tree i) = 0" "meaning (int_tree i) = JNum (itoa i)"
  "layout nl sp d (int_tree i) = itoa i"
  by (simp_all add: int_tree_def lit_int)

lemma stamp_encoded: "list_all stamp_char s \<Longrightarrow> encode_chars (length s) s = s"
proof (induction s)
  case (Cons c s)
  then have "stamp_char c" by simp
  then have b: "byte c < 128" "32 \<le> byte c" "c \<noteq> CHR 0x22" "c \<noteq> CHR 0x5C" "c \<noteq> CHR ''<''" "c \<noteq> CHR ''>''" "c \<noteq> CHR ''&''"
    by (simp_all add: stamp_char_def is_digit_byte_def) (auto simp: byte_def)
  then have "escape_ascii c = [c]" by (simp add: escape_ascii_def)
  then show ?case using Cons b(1) by (simp add: encode_chars.simps(3))
qed simp

lemma time_tree_string: "RFC3339 t = Some stamp \<Longrightarrow> time_tree stamp = string_tree stamp"
  using stamp_encoded [OF RFC3339_chars] by (simp add: time_tree_def string_tree_def encode_string_def)

lemma stamp_utf8: "RFC3339 t = Some stamp \<Longrightarrow> utf8 stamp"
  by (rule ascii_utf8) (drule RFC3339_chars, auto simp: list_all_iff ascii_def stamp_char_def is_digit_byte_def byte_def)

lemma field_values_append:
  "distinct (map fst ms) \<Longrightarrow> fst ` set ms \<inter> fst ` set acc = {} \<Longrightarrow>
   (case ms of [] \<Rightarrow> True | m # rest \<Rightarrow> field_values (fields_of m rest) acc = acc @ map (\<lambda>(k, y). (k, meaning y)) ms)"
proof (induction ms arbitrary: acc)
  case (Cons m ms)
  obtain k y where m: "m = (k, y)" by (cases m)
  have k: "AList.update k (meaning y) acc = acc @ [(k, meaning y)]"
  proof -
    have "k \<notin> fst ` set acc" using Cons.prems(2) m by auto
    then show ?thesis by (induction acc) auto
  qed
  show ?case
  proof (cases ms)
    case Nil
    then show ?thesis using m k by simp
  next
    case (Cons n rest)
    have "distinct (map fst ms)" "fst ` set ms \<inter> fst ` set (acc @ [(k, meaning y)]) = {}"
      using Cons.prems m by auto
    from Cons.IH [OF this] show ?thesis using m k Cons by simp
  qed
qed simp

lemma meaning_object: "distinct (map fst ms) \<Longrightarrow> meaning (object_tree ms) = JObj (map (\<lambda>(k, y). (k, meaning y)) ms)"
  using field_values_append [of ms "[]"] by (cases ms) (simp_all add: object_tree.simps)

lemma meaning_elements: "meaning (array_tree ys) = JArr (map meaning ys)"
proof -
  have "elem_values (elems_of y zs) = map meaning (y # zs)" for y zs
    by (induction y zs rule: elems_of.induct) simp_all
  then show ?thesis by (cases ys) (simp_all add: array_tree.simps)
qed

lemma strings_tree_facts [simp]: "list_all utf8 xs \<Longrightarrow> sound (strings_tree xs)" "meaning (strings_tree xs) = JArr (map JStr xs)"
  by (auto simp: strings_tree_def list_all_iff meaning_elements intro!: array_tree_sound)

lemma string_elements_map: "string_elements (map JStr xs) old = Inr xs"
  by (induction xs arbitrary: old) simp_all

lemma fill_append: "fill setters (a @ b) x = (case fill setters a x of Inl e \<Rightarrow> Inl e | Inr y \<Rightarrow> fill setters b y)"
  by (induction setters a x rule: fill.induct) (auto split: option.splits sum.splits)

section \<open>A status and a challenge, written and read\<close>

definition plain_source_status :: "source_status \<Rightarrow> bool" where
  "plain_source_status s \<longleftrightarrow> utf8 (ss_ID s) \<and> utf8 (ss_Name s) \<and> utf8 (ss_Type s) \<and> utf8 (ss_Health s) \<and> utf8 (ss_ErrorCode s)"

definition plain_status :: "status \<Rightarrow> bool" where
  "plain_status st \<longleftrightarrow> utf8 (st_Endpoint st) \<and> utf8 (st_LastError st) \<and> list_all plain_source_status (st_Sources st) \<and>
     list_all utf8 (st_Capabilities st) \<and> st_StartedAt st \<noteq> Some zero_time"

definition plain_challenge :: "challenge \<Rightarrow> bool" where
  "plain_challenge c \<longleftrightarrow> utf8 (ch_URL c) \<and> utf8 (ch_Nonce c)"

lemma names_utf8 [simp]:
  "utf8 ''id''" "utf8 ''name''" "utf8 ''type''" "utf8 ''health''" "utf8 ''error_code''" "utf8 ''state''" "utf8 ''endpoint''"
  "utf8 ''started_at''" "utf8 ''sources''" "utf8 ''last_error''" "utf8 ''capabilities''" "utf8 ''url''" "utf8 ''nonce''"
  "utf8 ''expires_at''" "utf8 ''read_only''" "utf8 ''warnings''" "utf8 ''duckdb_version''" "utf8 ''extension_versions''"
  "utf8 ''product_version''" "utf8 ''protocol_version''" "utf8 ''settings''" "utf8 ''source_count''"
  "utf8 ''source_diagnostics''" "utf8 ''version''" "utf8 ''ok''" "utf8 ''status''" "utf8 ''message''" "utf8 ''pairing''"
  "utf8 ''configuration''" "utf8 ''diagnostics''" "utf8 ''version_info''" "utf8 ''product''" "utf8 ''null''"
  by (rule ascii_utf8; simp add: ascii_def byte_def)+

lemma state_text_utf8 [simp]: "utf8 (state_text s)"
  by (rule ascii_utf8; cases s; simp add: ascii_def byte_def)

lemma state_found: "List.find (\<lambda>state. state_text state = state_text s) service_states = Some s"
  by (cases s) (simp_all add: service_states_def)

definition source_status_members :: "source_status \<Rightarrow> (string \<times> tree) list" where
  "source_status_members s = [(''id'', string_tree (ss_ID s)), (''name'', string_tree (ss_Name s)), (''type'', string_tree (ss_Type s)),
     (''health'', string_tree (ss_Health s))] @ omitempty_tree ''error_code'' (ss_ErrorCode s)"

lemma source_status_tree: "source_status_tree s = object_tree (source_status_members s)"
  by (simp add: source_status_tree_def source_status_members_def)

lemma source_status_sound: "plain_source_status s \<Longrightarrow> \<forall>(k, y) \<in> set (source_status_members s). utf8 k \<and> sound y"
  by (simp add: source_status_members_def omitempty_tree_def plain_source_status_def)

lemma source_status_read:
  assumes "plain_source_status s" and "nesting (source_status_tree s) \<le> max_nesting"
  shows "decode_lenient source_status_setters zero_source_status (flat (source_status_tree s)) = Inr s"
proof -
  have f: "\<forall>(k, y) \<in> set (source_status_members s). field_of (map fst source_status_setters) k \<noteq> None"
    by (simp add: source_status_members_def source_status_setters_def omitempty_tree_def field_of_def)
  have ne: "source_status_members s \<noteq> []" by (simp add: source_status_members_def)
  show ?thesis
    unfolding source_status_tree
    using tight.decode_lenient_tree [OF source_status_sound [OF assms(1)] ne assms(2) [unfolded source_status_tree] f, of zero_source_status 0]
    by (cases s) (simp add: source_status_members_def source_status_setters_def omitempty_tree_def field_of_def set_string_def
        zero_source_status_def)
qed

lemma source_statuses_read:
  assumes "list_all plain_source_status ss" and "\<forall>y \<in> set (map source_status_tree ss). nesting y \<le> max_nesting"
  shows "decode_elements (decode_lenient source_status_setters zero_source_status)
    (map (\<lambda>y. (flat y, meaning y)) (map source_status_tree ss)) = Inr ss"
  using assms by (induction ss) (simp_all add: source_status_read)

text \<open>What a setter of a slice of structs makes of the text of an array.\<close>

lemma set_structs_array:
  assumes "\<forall>y \<in> set ys. sound y" and "nesting (array_tree ys) \<le> max_nesting"
    and "decode_elements dec (map (\<lambda>y. (flat y, meaning y)) ys) = Inr xs"
  shows "set_structs dec upd (flat (array_tree ys)) (meaning (array_tree ys)) x = Inr (upd (Some xs) x)"
  using tight.raw_elements_tree [OF assms(1,2) delimited_char(4), of 0] assms(3)
  by (simp add: set_structs_def meaning_elements)

lemma set_stamp:
  assumes "RFC3339 t = Some stamp"
  shows "set_time slow upd (flat (time_tree stamp)) (meaning (time_tree stamp)) x = Inr (upd t x)"
  by (simp add: set_time_def time_tree_def RFC3339_roundtrip [OF assms] butlast_append)

lemma elements_nesting: "nesting (array_tree ys) \<le> n \<Longrightarrow> y \<in> set ys \<Longrightarrow> nesting y \<le> n"
proof (cases n)
  case (Suc k)
  then show "nesting (array_tree ys) \<le> n \<Longrightarrow> y \<in> set ys \<Longrightarrow> nesting y \<le> n"
    using nesting_array [of ys k] by fastforce
qed (cases ys; simp add: array_tree.simps)

lemma members_nesting: "nesting (object_tree ms) \<le> n \<Longrightarrow> (k, y) \<in> set ms \<Longrightarrow> nesting y \<le> n"
proof (cases n)
  case (Suc j)
  then show "nesting (object_tree ms) \<le> n \<Longrightarrow> (k, y) \<in> set ms \<Longrightarrow> nesting y \<le> n"
    using nesting_object [of ms j] by fastforce
qed (cases ms; simp add: object_tree.simps)

lemma source_statuses_sound: "list_all plain_source_status ss \<Longrightarrow> \<forall>y \<in> set (map source_status_tree ss). sound y"
  by (induction ss) (simp_all add: source_status_tree object_tree_sound [OF source_status_sound])

lemma status_members_sound:
  assumes "plain_status st" and "RFC3339 (started_at st) = Some stamp"
  shows "\<forall>(k, y) \<in> set (status_members stamp st). utf8 k \<and> sound y"
proof -
  have "sound (array_tree (map source_status_tree (st_Sources st)))"
    by (rule array_tree_sound [OF source_statuses_sound]) (use assms(1) in \<open>simp add: plain_status_def\<close>)
  then show ?thesis using assms(1) stamp_utf8 [OF assms(2)] lit_words(3)
    by (simp add: status_members_def omitempty_tree_def plain_status_def time_tree_string [OF assms(2)])
qed

lemma status_read:
  assumes "plain_status st" and "RFC3339 (started_at st) = Some stamp"
    and "nesting (object_tree (status_members stamp st)) \<le> max_nesting"
  shows "decode_lenient (status_setters slow) zero_status (flat (object_tree (status_members stamp st))) = Inr st"
proof -
  let ?ms = "status_members stamp st" and ?ss = "map source_status_tree (st_Sources st)"
  have ne: "?ms \<noteq> []" by (simp add: status_members_def)
  have f: "\<forall>(k, y) \<in> set ?ms. field_of (map fst (status_setters slow)) k \<noteq> None"
    by (simp add: status_members_def status_setters_def omitempty_tree_def field_of_def)
  have time: "set_time slow upd (flat (time_tree stamp)) (meaning (time_tree stamp)) x = Inr (upd (started_at st) x)"
    for upd and x :: status by (rule set_stamp [OF assms(2)])
  have started: "(if started_at st = zero_time then None else Some (started_at st)) = st_StartedAt st"
    using assms(1) by (auto simp: started_at_def plain_status_def split: option.splits)
  have sources: "set_structs (decode_lenient source_status_setters zero_source_status) upd (flat (array_tree ?ss))
      (meaning (array_tree ?ss)) x = Inr (upd (Some (st_Sources st)) x)"
    if "\<not> (st_StartedAt st = None \<and> st_Sources st = [])" for upd and x :: status
  proof (rule set_structs_array)
    have p: "list_all plain_source_status (st_Sources st)" using assms(1) by (simp add: plain_status_def)
    show "\<forall>y \<in> set ?ss. sound y" by (rule source_statuses_sound [OF p])
    show n: "nesting (array_tree ?ss) \<le> max_nesting"
      by (rule members_nesting [OF assms(3), of "''sources''"]) (use that in \<open>simp add: status_members_def; blast\<close>)
    show "decode_elements (decode_lenient source_status_setters zero_source_status) (map (\<lambda>y. (flat y, meaning y)) ?ss) =
        Inr (st_Sources st)"
      by (rule source_statuses_read [OF p]) (intro ballI elements_nesting [OF n])
  qed
  have lists: "set_strings get upd raw (meaning (strings_tree xs)) x = Inr (upd xs x)" for get upd raw xs and x :: status
    by (simp add: set_strings_def string_elements_map)
  have dec: "decode_lenient (status_setters slow) zero_status (flat (object_tree ?ms)) =
      fill (status_setters slow) (map (\<lambda>(k, y). (k, flat y, meaning y)) ?ms) zero_status"
    using tight.decode_lenient_tree [OF status_members_sound [OF assms(1,2)] ne assms(3) f, of zero_status 0] by simp
  show ?thesis
  proof (cases "st_StartedAt st = None \<and> st_Sources st = []")
    case True
    then have z: "started_at st = zero_time" by (simp add: started_at_def)
    show ?thesis unfolding dec using time [unfolded z] lists True
      by (cases st) (simp add: status_members_def status_setters_def omitempty_tree_def field_of_def set_string_def set_state_def
        state_found set_structs_def zero_status_def)
  next
    case False
    obtain t where t: "started_at st = t" by blast
    have ms: "?ms = [(''state'', string_tree (state_text (st_State st)))] @ omitempty_tree ''endpoint'' (st_Endpoint st) @
        [(''started_at'', time_tree stamp), (''sources'', array_tree ?ss)] @
        omitempty_tree ''last_error'' (st_LastError st) @ [(''capabilities'', strings_tree (st_Capabilities st))]"
      by (simp only: status_members_def if_not_P [OF False])
    note set_time = time [unfolded t] and set_sources = sources [OF False]
    show ?thesis unfolding dec unfolding ms using set_time started [unfolded t] lists set_sources
      by (cases st) (simp add: status_setters_def omitempty_tree_def field_of_def set_string_def set_state_def
        state_found zero_status_def)
  qed
qed

lemma challenge_members_sound:
  assumes "plain_challenge c" and "RFC3339 (ch_ExpiresAt c) = Some stamp"
  shows "\<forall>(k, y) \<in> set (challenge_members stamp c). utf8 k \<and> sound y"
  using assms stamp_utf8 [OF assms(2)]
  by (simp add: challenge_members_def plain_challenge_def time_tree_string [OF assms(2)])

lemma challenge_read:
  assumes "plain_challenge c" and "RFC3339 (ch_ExpiresAt c) = Some stamp"
    and "nesting (object_tree (challenge_members stamp c)) \<le> max_nesting"
  shows "decode_lenient (challenge_setters slow) zero_challenge (flat (object_tree (challenge_members stamp c))) = Inr c"
proof -
  let ?ms = "challenge_members stamp c"
  have ne: "?ms \<noteq> []" by (simp add: challenge_members_def)
  have f: "\<forall>(k, y) \<in> set ?ms. field_of (map fst (challenge_setters slow)) k \<noteq> None"
    by (simp add: challenge_members_def challenge_setters_def field_of_def)
  have "decode_lenient (challenge_setters slow) zero_challenge (flat (object_tree ?ms)) =
      fill (challenge_setters slow) (map (\<lambda>(k, y). (k, flat y, meaning y)) ?ms) zero_challenge"
    using tight.decode_lenient_tree [OF challenge_members_sound [OF assms(1,2)] ne assms(3) f, of zero_challenge 0] by simp
  then show ?thesis
    by (cases c) (simp add: challenge_members_def challenge_setters_def field_of_def set_string_def zero_challenge_def
        set_stamp [OF assms(2)])
qed

section \<open>The configuration and the diagnostics\<close>

lemma configuration_text:
  assumes "configuration_json d = Inr t"
  shows "\<exists>ys. list_all2 options_tree (sources_of d) ys \<and> t = flat (object_tree (document_members d ys))"
proof -
  obtain xs where xs: "encode_sources (sources_of d) = Inr xs" "t = document_text d xs"
    using assms by (cases "encode_sources (sources_of d)") (auto simp: configuration_json_def)
  obtain ys where "list_all2 options_tree (sources_of d) ys" "xs = map flat (source_trees (sources_of d) ys)"
    using encode_sources_tree [OF xs(1)] by (auto simp: source_trees_def)
  then show ?thesis using xs(2) document_text_tree by blast
qed

lemma configuration_sources_read:
  assumes "list_all2 options_tree cs ys" and "list_all plain_source cs" and "\<forall>t \<in> set (source_trees cs ys). nesting t \<le> max_nesting"
  shows "decode_elements (decode_lenient source_setters zero_source) (map (\<lambda>t. (flat t, meaning t)) (source_trees cs ys)) =
    Inr (map2 (laid_source (\<lambda>_. []) [] 0) cs ys)"
  using assms
proof (induction cs ys rule: list_all2_induct)
  case (Cons c cs y ys)
  have p: "plain_source c" "options_tree c y" using Cons by simp_all
  have n: "nesting (object_tree (source_members c y)) \<le> max_nesting" using Cons.prems(2) by (simp add: source_trees_def)
  have ne: "source_members c y \<noteq> []" by (simp add: source_members_def)
  have f: "\<forall>(k, t) \<in> set (source_members c y). field_of (map fst source_setters) k \<noteq> None"
    by (simp add: source_members_def source_setters_def field_of_def)
  have "decode_lenient source_setters zero_source (flat (object_tree (source_members c y))) =
      fill source_setters (map (\<lambda>(k, t). (k, flat t, meaning t)) (source_members c y)) zero_source"
    using tight.decode_lenient_tree [OF source_members_sound(1) [OF p] ne n f, of zero_source 0] by simp
  also have "\<dots> = decode_struct source_setters zero_source (flat (object_tree (source_members c y)))"
    using tight.decode_struct_tree [OF source_members_sound(1) [OF p] ne n delimited_char(4), of source_setters zero_source 0] by simp
  also have "\<dots> = Inr (laid_source (\<lambda>_. []) [] 0 c y)" by (rule tight.decode_source [OF p n])
  finally show ?case using Cons by (simp add: source_trees_def)
qed (simp add: source_trees_def)

lemma configuration_read:
  assumes "doc_Version d = CurrentVersion" and "list_all plain_source (sources_of d)" and "list_all2 options_tree (sources_of d) ys"
    and "nesting (object_tree (document_members d ys)) \<le> max_nesting"
  shows "decode_lenient document_setters zero_document (flat (object_tree (document_members d ys))) =
    Inr (laid_document (\<lambda>_. []) [] 0 d ys)"
proof -
  let ?ms = "document_members d ys"
  have ne: "?ms \<noteq> []" by (simp add: document_members_def)
  have f: "\<forall>(k, t) \<in> set ?ms. field_of (map fst document_setters) k \<noteq> None"
    by (simp add: document_members_def document_setters_def field_of_def)
  have dec: "decode_lenient document_setters zero_document (flat (object_tree ?ms)) =
      fill document_setters (map (\<lambda>(k, t). (k, flat t, meaning t)) ?ms) zero_document"
    using tight.decode_lenient_tree [OF document_members_sound [OF assms(1-3)] ne assms(4) f, of zero_document 0] by simp
  have one: "itoa CurrentVersion = ''1''" "int_literal ''1'' = Some 1" by code_simp+
  show ?thesis
  proof (cases "doc_Sources d")
    case None
    then show ?thesis unfolding dec
      by (cases d) (use assms(1) one in \<open>simp add: document_members_def document_setters_def field_of_def set_int_def set_structs_def
        laid_document_def zero_document_def CurrentVersion_def\<close>)
  next
    case (Some cs)
    then have cs: "sources_of d = cs" by (simp add: sources_of_def)
    let ?ts = "source_trees cs ys"
    have n: "nesting (array_tree ?ts) \<le> max_nesting"
      by (rule members_nesting [OF assms(4), of "''sources''"]) (simp add: document_members_def Some cs)
    have "set_structs (decode_lenient source_setters zero_source) upd (flat (array_tree ?ts)) (meaning (array_tree ?ts)) x =
        Inr (upd (Some (map2 (laid_source (\<lambda>_. []) [] 0) cs ys)) x)" for upd and x :: document
    proof (rule set_structs_array [OF source_trees_sound n])
      show "list_all2 options_tree cs ys" "list_all plain_source cs" using assms(2,3) cs by simp_all
      then show "decode_elements (decode_lenient source_setters zero_source) (map (\<lambda>t. (flat t, meaning t)) ?ts) =
          Inr (map2 (laid_source (\<lambda>_. []) [] 0) cs ys)"
        by (rule configuration_sources_read) (intro ballI elements_nesting [OF n])
    qed
    then show ?thesis unfolding dec
      by (cases d) (use assms(1) one Some cs in \<open>simp add: document_members_def document_setters_def field_of_def set_int_def
        laid_document_def zero_document_def CurrentVersion_def\<close>)
  qed
qed

text \<open>What the client has of the diagnostics.\<close>

definition diagnostics_any :: "app_diagnostics \<Rightarrow> any_map" where
  "diagnostics_any g = map (\<lambda>(k, y). (k, meaning y)) (diagnostics_members g)"

definition plain_diagnostics :: "app_diagnostics \<Rightarrow> bool" where
  "plain_diagnostics g \<longleftrightarrow> list_all utf8 (ad_capabilities g) \<and> utf8 (dg_duckdb_version (ad_engine g)) \<and>
     utf8 (dg_endpoint (ad_engine g)) \<and> utf8 (ad_product_version g) \<and>
     list_all (\<lambda>(k, x). utf8 k \<and> utf8 x) (ad_extension_versions g @ dg_settings (ad_engine g)) \<and>
     list_all (\<lambda>s. utf8 (sg_ID s) \<and> utf8 (sg_Health s) \<and> list_all utf8 (sg_Warnings s)) (ad_source_diagnostics g) \<and>
     list_all plain_source_status (ad_sources g)"

lemma string_map_sound:
  assumes "list_all (\<lambda>(k, x). utf8 k \<and> utf8 x) m"
  shows "sound (string_map_tree m)"
  unfolding string_map_tree_def
proof (rule object_tree_sound, safe)
  fix k y assume "(k, y) \<in> set (map (\<lambda>key. (key, string_tree (the (map_of m key)))) (sorted_keys m))"
  then have k: "k \<in> dom (map_of m)" "y = string_tree (the (map_of m k))" by (auto simp: sorted_keys_def set_keys)
  then obtain x where "map_of m k = Some x" by blast
  moreover from this have "(k, x) \<in> set m" by (rule map_of_SomeD)
  ultimately show "utf8 k" "sound y" using assms k(2) by (auto simp: list_all_iff)
qed

lemma source_diagnostic_sound:
  "utf8 (sg_ID s) \<Longrightarrow> utf8 (sg_Health s) \<Longrightarrow> list_all utf8 (sg_Warnings s) \<Longrightarrow> sound (source_diagnostic_tree s)"
  unfolding source_diagnostic_tree_def by (rule object_tree_sound) simp

lemma diagnostics_sound:
  assumes "plain_diagnostics g"
  shows "\<forall>(k, y) \<in> set (diagnostics_members g). utf8 k \<and> sound y"
proof -
  have "sound (array_tree (map source_diagnostic_tree (ad_source_diagnostics g)))"
    by (rule array_tree_sound) (use assms source_diagnostic_sound in \<open>auto simp: plain_diagnostics_def list_all_iff\<close>)
  moreover have "sound (array_tree (map source_status_tree (ad_sources g)))"
    by (rule array_tree_sound [OF source_statuses_sound]) (use assms in \<open>simp add: plain_diagnostics_def\<close>)
  moreover have "sound (string_map_tree (ad_extension_versions g))" "sound (string_map_tree (dg_settings (ad_engine g)))"
    by (rule string_map_sound; use assms in \<open>simp add: plain_diagnostics_def\<close>)+
  ultimately show ?thesis using assms by (simp add: diagnostics_members_def plain_diagnostics_def)
qed

lemma diagnostics_meaning: "meaning (object_tree (diagnostics_members g)) = JObj (diagnostics_any g)"
  unfolding diagnostics_any_def by (rule meaning_object) (simp add: diagnostics_members_def)

lemma fold_update: "distinct (map fst m) \<Longrightarrow> fst ` set m \<inter> fst ` set acc = {} \<Longrightarrow>
    fold (\<lambda>(k, y). AList.update k y) m acc = acc @ m"
proof (induction m arbitrary: acc)
  case (Cons e m)
  obtain k y where e: "e = (k, y)" by (cases e)
  have "AList.update k y acc = acc @ [(k, y)]" using Cons.prems(2) e by (induction acc) auto
  moreover have "fold (\<lambda>(k, y). AList.update k y) m (acc @ [(k, y)]) = (acc @ [(k, y)]) @ m"
    by (rule Cons.IH) (use Cons.prems e in auto)
  ultimately show ?case using e by simp
qed simp

lemma set_any_map_new: "distinct (map fst m) \<Longrightarrow> get x = None \<Longrightarrow> set_any_map get upd raw (JObj m) x = Inr (upd (Some m) x)"
  using fold_update [of m "[]"] by (simp add: set_any_map_def)

lemma versions_any: "sound (any_map_tree current_version)" "meaning (any_map_tree current_version) = JObj current_version"
proof -
  let ?ms = "map (\<lambda>(k, v). (k, any_tree v)) current_version"
  have "ascii Product" "ascii Version" "list_all ascii Capabilities" by code_simp+
  then have u: "utf8 Product" "utf8 Version" "list_all utf8 Capabilities" by (simp_all add: ascii_utf8 list_all_iff)
  then show "sound (any_map_tree current_version)" unfolding any_map_tree_def
    by (intro object_tree_sound) (auto simp: current_version_def list_all_iff lit_int intro!: array_tree_sound)
  have "distinct (map fst ?ms)" by (simp add: current_version_def)
  then show "meaning (any_map_tree current_version) = JObj current_version"
    unfolding any_map_tree_def by (simp add: meaning_object current_version_def meaning_elements comp_def)
qed

section \<open>A response, written and read\<close>

definition optional :: "string \<Rightarrow> tree option \<Rightarrow> (string \<times> tree) list" where
  "optional name y = (case y of None \<Rightarrow> [] | Some t \<Rightarrow> [(name, t)])"

definition status_at :: "status option \<Rightarrow> tree option \<Rightarrow> bool" where
  "status_at v y \<longleftrightarrow> (case v of None \<Rightarrow> y = None
     | Some st \<Rightarrow> \<exists>stamp. RFC3339 (started_at st) = Some stamp \<and> y = Some (object_tree (status_members stamp st)))"

definition challenge_at :: "challenge option \<Rightarrow> tree option \<Rightarrow> bool" where
  "challenge_at v y \<longleftrightarrow> (case v of None \<Rightarrow> y = None
     | Some c \<Rightarrow> \<exists>stamp. RFC3339 (ch_ExpiresAt c) = Some stamp \<and> y = Some (object_tree (challenge_members stamp c)))"

definition configuration_at :: "document option \<Rightarrow> tree list \<Rightarrow> tree option \<Rightarrow> bool" where
  "configuration_at v ys y \<longleftrightarrow> (case v of None \<Rightarrow> y = None
     | Some d \<Rightarrow> list_all2 options_tree (sources_of d) ys \<and> y = Some (object_tree (document_members d ys)))"

definition response_members :: "app_diagnostics control_response \<Rightarrow> tree option \<Rightarrow> tree option \<Rightarrow> tree option \<Rightarrow> (string \<times> tree) list" where
  "response_members r status pairing configuration =
     [(''version'', int_tree (cs_Version r)), (''ok'', bool_tree (cs_OK r))] @ optional ''status'' status @
     omitempty_tree ''error_code'' (cs_ErrorCode r) @ omitempty_tree ''message'' (cs_Message r) @
     optional ''pairing'' pairing @ optional ''configuration'' configuration @
     optional ''diagnostics'' (map_option (\<lambda>g. object_tree (diagnostics_members g)) (cs_Diagnostics r)) @
     optional ''version_info'' (map_option any_map_tree (cs_VersionInfo r))"

lemma member_texts_optional:
  "member_if ''status'' status_json v = Inr m \<Longrightarrow> \<exists>y. status_at v y \<and> m = map (\<lambda>(k, t). (k, flat t)) (optional ''status'' y)"
  "member_if ''pairing'' challenge_json c = Inr m \<Longrightarrow> \<exists>y. challenge_at c y \<and> m = map (\<lambda>(k, t). (k, flat t)) (optional ''pairing'' y)"
  "member_if ''configuration'' configuration_json d = Inr m \<Longrightarrow>
     \<exists>ys y. configuration_at d ys y \<and> m = map (\<lambda>(k, t). (k, flat t)) (optional ''configuration'' y)"
proof -
  show "\<exists>y. status_at v y \<and> m = map (\<lambda>(k, t). (k, flat t)) (optional ''status'' y)" if "member_if ''status'' status_json v = Inr m"
    using that by (cases v) (auto simp: member_if_def status_at_def optional_def status_json_def split: option.splits)
  show "\<exists>y. challenge_at c y \<and> m = map (\<lambda>(k, t). (k, flat t)) (optional ''pairing'' y)" if "member_if ''pairing'' challenge_json c = Inr m"
    using that by (cases c) (auto simp: member_if_def challenge_at_def optional_def challenge_json_def split: option.splits)
  show "\<exists>ys y. configuration_at d ys y \<and> m = map (\<lambda>(k, t). (k, flat t)) (optional ''configuration'' y)"
    if a: "member_if ''configuration'' configuration_json d = Inr m"
  proof (cases d)
    case None
    then show ?thesis using a by (intro exI [of _ "[]"] exI [of _ None]) (simp add: member_if_def configuration_at_def optional_def)
  next
    case (Some x)
    then obtain t where t: "configuration_json x = Inr t" "m = [(''configuration'', t)]"
      using a by (cases "configuration_json x") (auto simp: member_if_def)
    obtain ys where "list_all2 options_tree (sources_of x) ys" "t = flat (object_tree (document_members x ys))"
      using configuration_text [OF t(1)] by blast
    then show ?thesis using Some t(2)
      by (intro exI [of _ ys] exI [of _ "Some (object_tree (document_members x ys))"]) (simp add: configuration_at_def optional_def)
  qed
qed

lemma response_text:
  assumes "response_json r = Inr text"
  shows "\<exists>sy py ys cy. status_at (cs_Status r) sy \<and> challenge_at (cs_Pairing r) py \<and> configuration_at (cs_Configuration r) ys cy \<and>
    text = flat (object_tree (response_members r sy py cy))"
proof -
  obtain m1 m2 m3 where m: "member_if ''status'' status_json (cs_Status r) = Inr m1"
    "member_if ''pairing'' challenge_json (cs_Pairing r) = Inr m2"
    "member_if ''configuration'' configuration_json (cs_Configuration r) = Inr m3"
    using assms by (auto simp: response_json_def split: sum.splits)
  obtain sy where sy: "status_at (cs_Status r) sy" "m1 = map (\<lambda>(k, t). (k, flat t)) (optional ''status'' sy)"
    using member_texts_optional(1) [OF m(1)] by blast
  obtain py where py: "challenge_at (cs_Pairing r) py" "m2 = map (\<lambda>(k, t). (k, flat t)) (optional ''pairing'' py)"
    using member_texts_optional(2) [OF m(2)] by blast
  obtain ys cy where cy: "configuration_at (cs_Configuration r) ys cy" "m3 = map (\<lambda>(k, t). (k, flat t)) (optional ''configuration'' cy)"
    using member_texts_optional(3) [OF m(3)] by blast
  have d: "member_if ''diagnostics'' (\<lambda>g. Inr (flat (object_tree (diagnostics_members g)))) (cs_Diagnostics r) =
      Inr (map (\<lambda>(k, t). (k, flat t)) (optional ''diagnostics'' (map_option (\<lambda>g. object_tree (diagnostics_members g)) (cs_Diagnostics r))))"
    by (simp add: member_if_def optional_def split: option.split)
  have v: "member_if ''version_info'' (\<lambda>m. Inr (flat (any_map_tree m))) (cs_VersionInfo r) =
      Inr (map (\<lambda>(k, t). (k, flat t)) (optional ''version_info'' (map_option any_map_tree (cs_VersionInfo r))))"
    by (simp add: member_if_def optional_def split: option.split)
  have e: "(if s = '''' then [] else [(k, encode_string s)]) = map (\<lambda>(k, t). (k, flat t)) (omitempty_tree k s)" for k s
    by (simp add: omitempty_tree_def)
  have "json_object (map (\<lambda>(k, t). (k, flat t)) ms) = flat (object_tree ms)" for ms
  proof -
    have "map (\<lambda>(k, t). json_field k t) (map (\<lambda>(k, t). (k, flat t)) ms) = map (\<lambda>(k, y). json_field k (flat y)) ms"
      by (induction ms) auto
    then show ?thesis by (simp only: json_object_def object_tree_flat)
  qed
  moreover have "text = json_object (map (\<lambda>(k, t). (k, flat t)) (response_members r sy py cy))"
    using assms unfolding response_json_def m d v sy(2) py(2) cy(2) e by (simp add: response_members_def)
  ultimately show ?thesis using sy(1) py(1) cy(1) by auto
qed

text \<open>A response of texts in UTF-8, as the server of this version makes it.\<close>

definition plain_response :: "app_diagnostics control_response \<Rightarrow> bool" where
  "plain_response r \<longleftrightarrow> go_int (cs_Version r) \<and> utf8 (cs_ErrorCode r) \<and> utf8 (cs_Message r) \<and>
     pred_option plain_status (cs_Status r) \<and> pred_option plain_challenge (cs_Pairing r) \<and>
     pred_option (\<lambda>d. doc_Version d = CurrentVersion \<and> list_all plain_source (sources_of d)) (cs_Configuration r) \<and>
     pred_option plain_diagnostics (cs_Diagnostics r) \<and> pred_option (\<lambda>m. m = current_version) (cs_VersionInfo r)"

lemma response_sound:
  assumes "plain_response r" and "status_at (cs_Status r) sy" and "challenge_at (cs_Pairing r) py"
    and "configuration_at (cs_Configuration r) ys cy"
  shows "\<forall>(k, y) \<in> set (response_members r sy py cy). utf8 k \<and> sound y"
proof -
  have "\<forall>y. sy = Some y \<longrightarrow> sound y"
    using assms(1,2) object_tree_sound [OF status_members_sound]
    by (auto simp: plain_response_def status_at_def split: option.splits)
  moreover have "\<forall>y. py = Some y \<longrightarrow> sound y"
    using assms(1,3) object_tree_sound [OF challenge_members_sound]
    by (auto simp: plain_response_def challenge_at_def split: option.splits)
  moreover have "\<forall>y. cy = Some y \<longrightarrow> sound y"
    using assms(1,4) object_tree_sound [OF document_members_sound]
    by (auto simp: plain_response_def configuration_at_def split: option.splits)
  moreover have "\<forall>g. cs_Diagnostics r = Some g \<longrightarrow> sound (object_tree (diagnostics_members g))"
    using assms(1) object_tree_sound [OF diagnostics_sound] by (auto simp: plain_response_def)
  moreover have "\<forall>m. cs_VersionInfo r = Some m \<longrightarrow> sound (any_map_tree m)"
    using assms(1) versions_any(1) by (auto simp: plain_response_def)
  ultimately show ?thesis using assms(1)
    by (auto simp: response_members_def optional_def omitempty_tree_def plain_response_def split: option.splits)
qed

text \<open>What the client gets: the same response, with the diagnostics as JSON values and the options of the sources as
  compact texts of the same values.\<close>

definition same_response :: "app_diagnostics control_response \<Rightarrow> any_map control_response \<Rightarrow> bool" where
  "same_response r r' \<longleftrightarrow> cs_Version r' = cs_Version r \<and> cs_OK r' = cs_OK r \<and> cs_Status r' = cs_Status r \<and>
     cs_ErrorCode r' = cs_ErrorCode r \<and> cs_Message r' = cs_Message r \<and> cs_Pairing r' = cs_Pairing r \<and>
     rel_option same_document (cs_Configuration r) (cs_Configuration r') \<and>
     cs_Diagnostics r' = map_option diagnostics_any (cs_Diagnostics r) \<and> cs_VersionInfo r' = cs_VersionInfo r"

abbreviation read_items :: "(string \<times> tree) list \<Rightarrow> (string \<times> string \<times> json) list" where
  "read_items ms \<equiv> map (\<lambda>(k, y). (k, flat y, meaning y)) ms"

lemma fill_item:
  assumes "field_of (map fst setters) name = Some name" and "map_of setters name = Some assign"
    and "\<And>y. v = Some y \<Longrightarrow> assign (flat y) (meaning y) x = Inr x'" and "v = None \<Longrightarrow> x' = x"
  shows "fill setters (read_items (optional name v @ rest)) x = fill setters (read_items rest) x'"
  using assms by (cases v) (simp_all add: optional_def)

lemma fill_omitted:
  assumes "field_of (map fst setters) name = Some name" and "map_of setters name = Some (set_string upd)" and "v = '''' \<Longrightarrow> upd v x = x"
  shows "fill setters (read_items (omitempty_tree name v @ rest)) x = fill setters (read_items rest) (upd v x)"
  using assms by (simp add: omitempty_tree_def set_string_def)

lemma response_field:
  "name \<in> {''version'', ''ok'', ''status'', ''error_code'', ''message'', ''pairing'', ''configuration'', ''diagnostics'', ''version_info''} \<Longrightarrow>
     field_of (map fst (control_response_setters slow)) name = Some name"
  by (elim insertE emptyE) (simp_all add: control_response_setters_def field_of_def)

lemma set_pointer_new:
  "get x = None \<Longrightarrow> v \<noteq> JNull \<Longrightarrow> dec zero raw = Inr y \<Longrightarrow> set_pointer dec zero get upd raw v x = Inr (upd (Some y) x)"
  by (cases v) (simp_all add: set_pointer_def)

lemma meaning_members: "meaning (object_tree ms) \<noteq> JNull"
  by (cases ms) (simp_all add: object_tree.simps)

lemma fill_response:
  assumes "plain_response r" and "status_at (cs_Status r) sy" and "challenge_at (cs_Pairing r) py"
    and "configuration_at (cs_Configuration r) ys cy" and "nesting (object_tree (response_members r sy py cy)) \<le> max_nesting"
  shows "fill (control_response_setters slow) (read_items (response_members r sy py cy)) zero_control_response =
    Inr \<lparr>cs_Version = cs_Version r, cs_OK = cs_OK r, cs_Status = cs_Status r, cs_ErrorCode = cs_ErrorCode r,
      cs_Message = cs_Message r, cs_Pairing = cs_Pairing r,
      cs_Configuration = map_option (\<lambda>d. laid_document (\<lambda>_. []) [] 0 d ys) (cs_Configuration r),
      cs_Diagnostics = map_option diagnostics_any (cs_Diagnostics r), cs_VersionInfo = cs_VersionInfo r\<rparr>"
proof -
  note p = assms(1) [unfolded plain_response_def] and n = members_nesting [OF assms(5)]
  let ?s = "control_response_setters slow" and ?dy = "map_option (\<lambda>g. object_tree (diagnostics_members g)) (cs_Diagnostics r)"
    and ?vy = "map_option any_map_tree (cs_VersionInfo r)"
  let ?r0 = "zero_control_response\<lparr>cs_Version := cs_Version r, cs_OK := cs_OK r\<rparr>"
  let ?r1 = "?r0\<lparr>cs_Status := cs_Status r\<rparr>"
  let ?r2 = "?r1\<lparr>cs_ErrorCode := cs_ErrorCode r, cs_Message := cs_Message r\<rparr>"
  let ?r3 = "?r2\<lparr>cs_Pairing := cs_Pairing r\<rparr>"
  let ?r4 = "?r3\<lparr>cs_Configuration := map_option (\<lambda>d. laid_document (\<lambda>_. []) [] 0 d ys) (cs_Configuration r)\<rparr>"
  let ?r5 = "?r4\<lparr>cs_Diagnostics := map_option diagnostics_any (cs_Diagnostics r)\<rparr>"
  have "fill ?s (read_items (response_members r sy py cy)) zero_control_response =
      fill ?s (read_items (optional ''status'' sy @ omitempty_tree ''error_code'' (cs_ErrorCode r) @
        omitempty_tree ''message'' (cs_Message r) @ optional ''pairing'' py @ optional ''configuration'' cy @
        optional ''diagnostics'' ?dy @ optional ''version_info'' ?vy)) ?r0"
    using p by (simp add: response_members_def response_field control_response_setters_def field_of_def set_int_def set_bool_def int_literal_itoa)
  also have "\<dots> = fill ?s (read_items (omitempty_tree ''error_code'' (cs_ErrorCode r) @
        omitempty_tree ''message'' (cs_Message r) @ optional ''pairing'' py @ optional ''configuration'' cy @
        optional ''diagnostics'' ?dy @ optional ''version_info'' ?vy)) ?r1"
  proof (rule fill_item)
    show "map_of ?s ''status'' = Some (set_pointer (decode_lenient (status_setters slow)) zero_status cs_Status (\<lambda>x. cs_Status_update (\<lambda>_. x)))"
      by (simp add: control_response_setters_def)
    show "?r1 = ?r0" if "sy = None" using that assms(2) by (auto simp: status_at_def zero_control_response_def split: option.splits)
    fix y assume y: "sy = Some y"
    then obtain st stamp where st: "cs_Status r = Some st" "RFC3339 (started_at st) = Some stamp" "y = object_tree (status_members stamp st)"
      using assms(2) by (auto simp: status_at_def split: option.splits)
    have n1: "nesting y \<le> max_nesting" by (rule n [of "''status''"]) (simp add: response_members_def optional_def y)
    have "decode_lenient (status_setters slow) zero_status (flat y) = Inr st"
      unfolding st(3) by (rule status_read [OF _ st(2) n1 [unfolded st(3)]]) (use p st(1) in simp)
    then show "set_pointer (decode_lenient (status_setters slow)) zero_status cs_Status (\<lambda>x. cs_Status_update (\<lambda>_. x)) (flat y) (meaning y) ?r0 = Inr ?r1"
      unfolding st(1) by (rule set_pointer_new [rotated 2]) (simp_all add: zero_control_response_def st(3) meaning_members)
  qed (rule response_field, simp)
  also have "\<dots> = fill ?s (read_items (optional ''pairing'' py @ optional ''configuration'' cy @
        optional ''diagnostics'' ?dy @ optional ''version_info'' ?vy)) ?r2"
    by (subst fill_omitted, rule response_field, simp, simp add: control_response_setters_def, simp add: zero_control_response_def)
      (subst fill_omitted, rule response_field, simp, simp add: control_response_setters_def, simp_all add: zero_control_response_def)
  also have "\<dots> = fill ?s (read_items (optional ''configuration'' cy @ optional ''diagnostics'' ?dy @ optional ''version_info'' ?vy)) ?r3"
  proof (rule fill_item)
    show "map_of ?s ''pairing'' = Some (set_pointer (decode_lenient (challenge_setters slow)) zero_challenge cs_Pairing (\<lambda>x. cs_Pairing_update (\<lambda>_. x)))"
      by (simp add: control_response_setters_def)
    show "?r3 = ?r2" if "py = None" using that assms(3) by (auto simp: challenge_at_def zero_control_response_def split: option.splits)
    fix y assume y: "py = Some y"
    then obtain c stamp where c: "cs_Pairing r = Some c" "RFC3339 (ch_ExpiresAt c) = Some stamp" "y = object_tree (challenge_members stamp c)"
      using assms(3) by (auto simp: challenge_at_def split: option.splits)
    have n1: "nesting y \<le> max_nesting" by (rule n [of "''pairing''"]) (simp add: response_members_def optional_def y)
    have "decode_lenient (challenge_setters slow) zero_challenge (flat y) = Inr c"
      unfolding c(3) by (rule challenge_read [OF _ c(2) n1 [unfolded c(3)]]) (use p c(1) in simp)
    then show "set_pointer (decode_lenient (challenge_setters slow)) zero_challenge cs_Pairing (\<lambda>x. cs_Pairing_update (\<lambda>_. x)) (flat y) (meaning y) ?r2 = Inr ?r3"
      unfolding c(1) by (rule set_pointer_new [rotated 2]) (simp_all add: zero_control_response_def c(3) meaning_members)
  qed (rule response_field, simp)
  also have "\<dots> = fill ?s (read_items (optional ''diagnostics'' ?dy @ optional ''version_info'' ?vy)) ?r4"
  proof (rule fill_item)
    show "map_of ?s ''configuration'' =
        Some (set_pointer (decode_lenient document_setters) zero_document cs_Configuration (\<lambda>x. cs_Configuration_update (\<lambda>_. x)))"
      by (simp add: control_response_setters_def)
    show "?r4 = ?r3" if "cy = None" using that assms(4) by (auto simp: configuration_at_def zero_control_response_def split: option.splits)
    fix y assume y: "cy = Some y"
    then obtain d where d: "cs_Configuration r = Some d" "list_all2 options_tree (sources_of d) ys" "y = object_tree (document_members d ys)"
      using assms(4) by (auto simp: configuration_at_def split: option.splits)
    have n1: "nesting y \<le> max_nesting" by (rule n [of "''configuration''"]) (simp add: response_members_def optional_def y)
    have "decode_lenient document_setters zero_document (flat y) = Inr (laid_document (\<lambda>_. []) [] 0 d ys)"
      unfolding d(3) by (rule configuration_read [OF _ _ d(2) n1 [unfolded d(3)]]) (use p d(1) in simp_all)
    then show "set_pointer (decode_lenient document_setters) zero_document cs_Configuration (\<lambda>x. cs_Configuration_update (\<lambda>_. x)) (flat y) (meaning y) ?r3 = Inr ?r4"
      unfolding d(1) option.map by (rule set_pointer_new [rotated 2]) (simp_all add: zero_control_response_def d(3) meaning_members)
  qed (rule response_field, simp)
  also have "\<dots> = fill ?s (read_items (optional ''version_info'' ?vy @ [])) ?r5"
    unfolding append_Nil2
  proof (rule fill_item)
    show "map_of ?s ''diagnostics'' = Some (set_any_map cs_Diagnostics (\<lambda>x. cs_Diagnostics_update (\<lambda>_. x)))"
      by (simp add: control_response_setters_def)
    show "?r5 = ?r4" if "?dy = None" using that by (simp add: zero_control_response_def)
    fix y assume y: "?dy = Some y"
    then obtain g where g: "cs_Diagnostics r = Some g" "y = object_tree (diagnostics_members g)" by auto
    have "distinct (map fst (diagnostics_any g))" by (simp add: diagnostics_any_def diagnostics_members_def)
    then show "set_any_map cs_Diagnostics (\<lambda>x. cs_Diagnostics_update (\<lambda>_. x)) (flat y) (meaning y) ?r4 = Inr ?r5"
      unfolding g option.map diagnostics_meaning by (rule set_any_map_new) (simp add: zero_control_response_def)
  qed (rule response_field, simp)
  also have "\<dots> = fill ?s (read_items []) (?r5\<lparr>cs_VersionInfo := cs_VersionInfo r\<rparr>)"
  proof (rule fill_item)
    show "map_of ?s ''version_info'' = Some (set_any_map cs_VersionInfo (\<lambda>x. cs_VersionInfo_update (\<lambda>_. x)))"
      by (simp add: control_response_setters_def)
    show "?r5\<lparr>cs_VersionInfo := cs_VersionInfo r\<rparr> = ?r5" if "?vy = None" using that by (simp add: zero_control_response_def)
    fix y assume y: "?vy = Some y"
    then have v: "cs_VersionInfo r = Some current_version" "y = any_map_tree current_version" using p by auto
    have "distinct (map fst current_version)" by (simp add: current_version_def)
    then show "set_any_map cs_VersionInfo (\<lambda>x. cs_VersionInfo_update (\<lambda>_. x)) (flat y) (meaning y) ?r5 = Inr (?r5\<lparr>cs_VersionInfo := cs_VersionInfo r\<rparr>)"
      unfolding v versions_any(2) by (rule set_any_map_new) (simp add: zero_control_response_def)
  qed (rule response_field, simp)
  finally show ?thesis by (simp add: zero_control_response_def)
qed

end
