(* ===== verification/Doctor.thy ===== *)
theory Doctor
  imports App Control
begin

text \<open>
  The diagnostics command (internal/doctor/doctor.go): offline checks of the configuration, of the
  bundle of extensions against its checksums and versions, and of the credentials, and live checks
  of a running daemon.  The files that it reads are answered by \<open>hostf\<close>: the bytes of a file with the error that
  ends the reading, if any.  The details of a check are left out where only the report prints them.
\<close>

section \<open>Reports\<close>

datatype level = LevelOK | LevelWarning | LevelError

datatype detail = Detail_text string | Detail_number int | Detail_texts "string list"
  | Detail_versions "(string \<times> string) list" | Detail_json json

record check =
  ck_Name :: string
  ck_Level :: level
  ck_Message :: string
  ck_Details :: "(string \<times> detail) list"

record report =
  rp_OK :: bool
  rp_Checks :: "check list"

definition check_of :: "string \<Rightarrow> level \<Rightarrow> string \<Rightarrow> (string \<times> detail) list \<Rightarrow> check" where
  "check_of name level message details =
     \<lparr>ck_Name = name, ck_Level = level, ck_Message = message, ck_Details = details\<rparr>"

text \<open>The model has one decoding error, and takes it for a syntax error, which \<open>sanitize\<close> names by a fixed text.\<close>

fun as_syntax :: "go_error \<Rightarrow> bool" where
  "as_syntax (QError _ _ None) = False"
| "as_syntax (QError _ _ (Some e)) = as_syntax e"
| "as_syntax (Sentinel _) = False"
| "as_syntax (Plain m) \<longleftrightarrow> Plain m = decode_error"
| "as_syntax (Wrap _ e) = as_syntax e"
| "as_syntax (Joined es) = list_ex as_syntax es"

definition doctor_sanitize :: "go_error \<Rightarrow> string" where
  "doctor_sanitize e = (if as_syntax e then ''invalid JSON'' else error_text e)"

section \<open>Reading lines\<close>

record file_bytes =
  fb_Bytes :: string
  fb_Error :: "go_error option"

type_synonym file_host = "string \<Rightarrow> file_bytes res"

definition scan_limit :: nat where "scan_limit = 65536"

definition drop_cr :: "string \<Rightarrow> string" where
  "drop_cr s = (if s \<noteq> [] \<and> last s = CHR 0x0D then butlast s else s)"

text \<open>\<open>bufio.Scanner\<close> over at most \<open>scan_limit\<close> bytes: its lines without their ends, and the error it stops
  with.  The buffer is as large as the limit, so a first line that fills it is too long.\<close>

definition scan_lines :: "file_bytes \<Rightarrow> string list \<times> go_error option" where
  "scan_lines f =
     (let t = take scan_limit (fb_Bytes f); lines = split_on (CHR 0x0A) t;
          err = (if scan_limit \<le> length (fb_Bytes f) then None else fb_Error f)
      in if length t = scan_limit \<and> CHR 0x0A \<notin> set t then ([], Some (Plain ''bufio.Scanner: token too long''))
         else (map drop_cr (if last lines = [] then butlast lines else lines), err))"

fun take_field :: "string \<Rightarrow> string \<times> string" where
  "take_field [] = ([], [])"
| "take_field (c # cs) = (if leading_rune space_runes (c # cs) \<noteq> None then ([], c # cs)
     else case take_field cs of (w, r) \<Rightarrow> (c # w, r))"

lemma take_field_length: "take_field s = (w, r) \<Longrightarrow> length w + length r = length s"
  by (induction s arbitrary: w r) (auto split: if_splits prod.splits)

lemma trim_runes_length: "length (trim_runes runes s) \<le> length s"
proof (induction runes s rule: trim_runes.induct)
  case (1 runes s)
  show ?case
  proof (cases "trim_runes_step runes s")
    case None
    then show ?thesis by (simp add: trim_runes.simps [of runes s])
  next
    case (Some r)
    then show ?thesis using 1 [OF Some] trim_runes_step_length [OF Some] by (simp add: trim_runes.simps [of runes s])
  qed
qed

lemma take_field_shorter: "(w, r) = take_field (trim_left s) \<Longrightarrow> w \<noteq> [] \<Longrightarrow> length r < length s"
proof -
  assume x: "(w, r) = take_field (trim_left s)" and w: "w \<noteq> []"
  have "length w + length r = length (trim_left s)" using take_field_length [OF x [symmetric]] .
  moreover have "length (trim_left s) \<le> length s" by (simp add: trim_left_def trim_runes_length)
  moreover have "0 < length w" using w by simp
  ultimately show ?thesis by linarith
qed

text \<open>\<open>strings.Fields\<close>.\<close>

function go_fields :: "string \<Rightarrow> string list" where
  "go_fields s = (case take_field (trim_left s) of (w, r) \<Rightarrow> if w = [] then [] else w # go_fields r)"
  by pat_completeness auto
termination
  by (relation "measure length") (auto dest: take_field_shorter)

declare go_fields.simps [simp del]

section \<open>The bundle of extensions\<close>

record checksum_entry =
  ce_name :: string
  ce_hash :: string

definition hex_decodes :: "string \<Rightarrow> bool" where
  "hex_decodes s \<longleftrightarrow> even (length s) \<and> list_all (\<lambda>c. hex_value c \<noteq> None) s"

definition read_entry :: "string \<Rightarrow> checksum_entry res" where
  "read_entry line = (case go_fields line of
     [digest, file] \<Rightarrow>
       if length digest \<noteq> 64 then Inl (Plain ''invalid checksum entry'')
       else if \<not> hex_decodes digest then Inl (Plain ''invalid checksum digest'')
       else let name = trim_prefix ''*'' file in
         if filepath_Base name \<noteq> name then Inl (Plain ''checksum entry must use a base filename'')
         else Inr \<lparr>ce_name = name, ce_hash = digest\<rparr>
   | _ \<Rightarrow> Inl (Plain ''invalid checksum entry''))"

fun read_entries :: "string list \<Rightarrow> checksum_entry list res" where
  "read_entries [] = Inr []"
| "read_entries (line # lines) = (case read_entry line of Inl e \<Rightarrow> Inl e
   | Inr x \<Rightarrow> (case read_entries lines of Inl e \<Rightarrow> Inl e | Inr xs \<Rightarrow> Inr (x # xs)))"

definition readChecksums :: "file_host \<Rightarrow> string \<Rightarrow> checksum_entry list res" where
  "readChecksums hostf path = (case hostf path of Inl e \<Rightarrow> Inl e
   | Inr f \<Rightarrow> (case scan_lines f of (lines, err) \<Rightarrow>
       (case read_entries lines of Inl e \<Rightarrow> Inl e
        | Inr entries \<Rightarrow> (case err of Some e \<Rightarrow> Inl e | None \<Rightarrow> Inr entries))))"

definition fileSHA256 :: "file_host \<Rightarrow> string \<Rightarrow> string res" where
  "fileSHA256 hostf path = (case hostf path of Inl e \<Rightarrow> Inl e
   | Inr f \<Rightarrow> (case fb_Error f of Some e \<Rightarrow> Inl e | None \<Rightarrow> Inr (hex_encode (Sum256 (fb_Bytes f)))))"

definition expected_versions :: "(string \<times> string) list" where
  "expected_versions = ExtensionVersions @ [(''duckdb'', DuckDBVersion)]"

fun check_versions :: "string list \<Rightarrow> string list \<Rightarrow> string list res" where
  "check_versions [] seen = Inr seen"
| "check_versions (line # lines) seen = (case go_fields line of
     [name, version] \<Rightarrow>
       if map_of expected_versions name = Some version \<and> version \<noteq> '''' \<and> name \<notin> set seen
       then check_versions lines (name # seen)
       else Inl (Plain ''invalid extension version entry'')
   | _ \<Rightarrow> Inl (Plain ''invalid extension version entry''))"

definition checkExtensionVersions :: "file_host \<Rightarrow> string \<Rightarrow> go_error option" where
  "checkExtensionVersions hostf path = (case hostf path of Inl e \<Rightarrow> Some e
   | Inr f \<Rightarrow> (case scan_lines f of (lines, err) \<Rightarrow>
       (case check_versions lines [] of Inl e \<Rightarrow> Some e
        | Inr seen \<Rightarrow> (case err of Some e \<Rightarrow> Some e
            | None \<Rightarrow> if length seen \<noteq> length expected_versions
                then Some (Plain ''extension version manifest is incomplete'') else None))))"

definition required_files :: "string list" where
  "required_files = [''extensions.versions'', ''httpfs.duckdb_extension'', ''mysql_scanner.duckdb_extension'',
     ''odbc_scanner.duckdb_extension'', ''postgres_scanner.duckdb_extension'', ''quack.duckdb_extension'',
     ''sqlite_scanner.duckdb_extension'']"

definition extensions_failed :: "string \<Rightarrow> (string \<times> detail) list \<Rightarrow> check" where
  "extensions_failed = check_of ''extensions'' LevelError"

text \<open>The entries in order, against the files beside the manifest; the value is what was seen, or the failing check.\<close>

fun verify_entries :: "file_host \<Rightarrow> string \<Rightarrow> checksum_entry list \<Rightarrow> string list \<Rightarrow> check + string list" where
  "verify_entries hostf directory [] seen = Inr seen"
| "verify_entries hostf directory (x # xs) seen =
     (if ce_name x \<notin> set required_files
      then Inl (extensions_failed ''extension checksum manifest contains an unexpected path'' [(''file'', Detail_text (ce_name x))])
      else if fileSHA256 hostf (filepath_Join [directory, ce_name x]) \<noteq> Inr (ce_hash x)
      then Inl (extensions_failed ''extension bundle checksum verification failed'' [(''file'', Detail_text (ce_name x))])
      else verify_entries hostf directory xs (ce_name x # seen))"

text \<open>The required names are visited in the order of a map, \<open>order\<close>.\<close>

definition checkExtensions :: "file_host \<Rightarrow> (string list \<Rightarrow> string list) \<Rightarrow> string \<Rightarrow> check" where
  "checkExtensions hostf order directory =
     (if directory = '''' then check_of ''extensions'' LevelWarning
        ''extension directory was not supplied; pass --extensions to verify the installed bundle'' []
      else case readChecksums hostf (filepath_Join [directory, ''extensions.sha256'']) of
        Inl e \<Rightarrow> extensions_failed ''extension checksum manifest is unavailable'' [(''error'', Detail_text (doctor_sanitize e))]
      | Inr entries \<Rightarrow> (case verify_entries hostf directory entries [] of Inl failed \<Rightarrow> failed
        | Inr seen \<Rightarrow> (case List.find (\<lambda>name. name \<notin> set seen) (order required_files) of
            Some name \<Rightarrow> extensions_failed ''extension checksum manifest is incomplete'' [(''file'', Detail_text name)]
          | None \<Rightarrow> (case checkExtensionVersions hostf (filepath_Join [directory, ''extensions.versions'']) of
              Some e \<Rightarrow> extensions_failed ''extension bundle version pair is unsupported''
                [(''error'', Detail_text (doctor_sanitize e))]
            | None \<Rightarrow> check_of ''extensions'' LevelOK ''all bundled extensions match their recorded checksums''
                [(''directory'', Detail_text directory)]))))"

section \<open>The checks\<close>

record ('s, 'd) doctor_host =
  dh_oracle :: fs_oracle
  dh_stat :: "string \<Rightarrow> nat res"
  dh_windows :: bool
  dh_file :: file_host
  dh_order :: "string list \<Rightarrow> string list"
  dh_system :: "'s credential_ops res"
  dh_environment :: "'s credential_ops"
  dh_call :: "string \<Rightarrow> control_request \<Rightarrow> 'd \<Rightarrow> (string \<times> json) list control_response res \<times> 'd"
  dh_socket :: "string \<Rightarrow> bool"

record 's doctor_options =
  do_ConfigPath :: string
  do_ControlAddress :: string
  do_ExtensionDir :: string
  do_CredentialProvider :: string
  do_CredentialStore :: "'s credential_ops option"

text \<open>\<open>%04o\<close> of permission bits.\<close>

definition octal4 :: "nat \<Rightarrow> string" where
  "octal4 p = concat (map (\<lambda>d. itoa (int (p div d mod 8))) [512, 64, 8, 1])"

definition empty_document :: document where
  "empty_document = \<lparr>doc_Version = 0, doc_Sources = None\<rparr>"

definition checkConfiguration ::
  "('s, 'd) doctor_host \<Rightarrow> string \<Rightarrow> disk \<Rightarrow> (check list \<times> document \<times> bool) \<times> disk" where
  "checkConfiguration host path dk = (case Load (dh_oracle host) path dk of
     (Inl e, dk) \<Rightarrow> (([check_of ''configuration'' LevelError ''configuration could not be loaded''
        [(''error'', Detail_text (doctor_sanitize e))]], empty_document, False), dk)
   | (Inr document, dk) \<Rightarrow>
       (let details = [(''version'', Detail_number (doc_Version document)),
              (''sources'', Detail_number (int (length (sources_of document)))), (''path'', Detail_text path)]
        in (case dh_stat host path of
          Inl e \<Rightarrow>
            if is_sentinel ErrNotExist e
            then ([check_of ''configuration'' LevelOK ''configuration is valid (no file has been created yet)'' details],
              document, True)
            else ([check_of ''configuration'' LevelError ''configuration permissions could not be inspected''
              [(''error'', Detail_text (doctor_sanitize e))]], document, False)
        | Inr perm \<Rightarrow>
            if \<not> dh_windows host \<and> perm mod 64 \<noteq> 0
            then ([check_of ''configuration'' LevelError ''configuration must not be accessible by group or other users''
              (details @ [(''permissions'', Detail_text (octal4 perm))])], document, False)
            else ([check_of ''configuration'' LevelOK ''configuration is valid and access-restricted'' details],
              document, True)), dk))"

definition checkVersion :: check where
  "checkVersion = check_of ''version_pair'' LevelOK ''compiled protocol and DuckDB version pair is supported''
     [(''product_version'', Detail_text Version), (''protocol_version'', Detail_number ProtocolVersion),
      (''duckdb_version'', Detail_text DuckDBVersion), (''extensions'', Detail_versions ExtensionVersions)]"

definition needs_credential :: "config_source \<Rightarrow> bool" where
  "needs_credential c \<longleftrightarrow> cf_Enabled c \<and> cf_CredentialRef c \<noteq> ''''"

fun missing_credentials :: "'s credential_ops \<Rightarrow> config_source list \<Rightarrow> 's \<Rightarrow> string list \<times> 's" where
  "missing_credentials ops [] s = ([], s)"
| "missing_credentials ops (c # cs) s =
     (if cf_CredentialRef c = '''' then missing_credentials ops cs s
      else if \<not> cf_Enabled c then missing_credentials ops cs s
      else case cs_Get ops (cf_CredentialRef c) s of (r, s) \<Rightarrow> (case missing_credentials ops cs s of
        (missing, s) \<Rightarrow> (case r of
            Inl _ \<Rightarrow> (cf_ID c # missing, s)
          | Inr credential \<Rightarrow> if credential = '''' then (cf_ID c # missing, s) else (missing, s))))"

definition credential_provider :: "'s doctor_options \<Rightarrow> string" where
  "credential_provider opts = (if do_CredentialProvider opts = '''' then ''system'' else do_CredentialProvider opts)"

definition select_store :: "('s, 'd) doctor_host \<Rightarrow> 's doctor_options \<Rightarrow> 's credential_ops res" where
  "select_store host opts = (case do_CredentialStore opts of Some ops \<Rightarrow> Inr ops
   | None \<Rightarrow>
       if credential_provider opts = ''system'' then dh_system host
       else if credential_provider opts = ''environment'' then Inr (dh_environment host)
       else Inl (Plain ''credential provider must be system or environment''))"

definition checkCredentials :: "('s, 'd) doctor_host \<Rightarrow> 's doctor_options \<Rightarrow> document \<Rightarrow> 's \<Rightarrow> check \<times> 's" where
  "checkCredentials host opts document s =
     (let provider = (''provider'', Detail_text (credential_provider opts)) in
      if \<not> list_ex needs_credential (sources_of document)
      then (check_of ''credential_store'' LevelOK ''no enabled source requires stored credentials'' [], s)
      else case select_store host opts of
        Inl e \<Rightarrow> (check_of ''credential_store'' LevelError ''credential store is unavailable''
          [provider, (''error'', Detail_text (doctor_sanitize e))], s)
      | Inr ops \<Rightarrow> (case missing_credentials ops (sources_of document) s of (missing, s) \<Rightarrow>
          (if missing \<noteq> []
           then check_of ''credential_store'' LevelError ''credentials are unavailable for enabled sources''
             [provider, (''source_ids'', Detail_texts missing)]
           else check_of ''credential_store'' LevelOK ''credential store is accessible for every enabled source''
             [provider], s)))"

definition loopbackEndpoint :: "string \<Rightarrow> bool" where
  "loopbackEndpoint endpoint = (case SplitHostPort (trim_prefix ''quack:'' endpoint) of
     Inl _ \<Rightarrow> False
   | Inr (host, _) \<Rightarrow> (case ParseIP host of None \<Rightarrow> False | Some ip \<Rightarrow> IsLoopback ip))"

definition malformed :: "(string \<times> detail) list \<Rightarrow> check" where
  "malformed = check_of ''source_diagnostics'' LevelError ''live source diagnostics are malformed''"

fun warning_check :: "string \<Rightarrow> json \<Rightarrow> check" where
  "warning_check i (JStr message) =
     (if message = '''' then malformed [(''source_id'', Detail_text i)]
      else check_of ''source_posture'' LevelWarning message [(''source_id'', Detail_text i)])"
| "warning_check i _ = malformed [(''source_id'', Detail_text i)]"

definition diagnostic_checks :: "json \<Rightarrow> check list" where
  "diagnostic_checks entry = (case entry of
     JObj diagnostic \<Rightarrow>
       (let id = str_of (map_of diagnostic ''id''); health = str_of (map_of diagnostic ''health'');
            source = [(''source_id'', Detail_text id)]
        in if id = '''' \<or> health = '''' then [malformed []]
        else (if health \<noteq> ''ready'' then [check_of ''source_health'' LevelError ''source connectivity check failed'' source]
            else []) @
          (case map_of diagnostic ''warnings'' of
             Some (JArr warnings) \<Rightarrow> map (warning_check id) warnings
           | _ \<Rightarrow> [malformed source]))
   | _ \<Rightarrow> [malformed []])"

definition sourceDiagnosticChecks :: "json option \<Rightarrow> check list" where
  "sourceDiagnosticChecks v = (case v of
     Some (JArr entries) \<Rightarrow> concat (map diagnostic_checks entries)
   | _ \<Rightarrow> [malformed []])"

definition control_request_of :: "string \<Rightarrow> control_request" where
  "control_request_of operation = zero_request\<lparr>cr_Version := control_version, cr_Operation := operation\<rparr>"

definition checkDaemon :: "('s, 'd) doctor_host \<Rightarrow> string \<Rightarrow> 'd \<Rightarrow> check list \<times> 'd" where
  "checkDaemon host address d =
     (if address = ''''
      then ([check_of ''daemon'' LevelWarning ''control address is unavailable; live checks were skipped'' []], d)
      else case dh_call host address (control_request_of ''status'') d of
        (Inl _, d) \<Rightarrow> ([check_of ''daemon'' LevelWarning
          (if dh_socket host address then ''a stale control socket may be present''
           else ''QuackRidge is not running; live source and limit checks were skipped'')
          [(''address'', Detail_text address)]], d)
      | (Inr answer, d) \<Rightarrow>
          (if \<not> cs_OK answer \<or> cs_Status answer = None
           then ([check_of ''daemon'' LevelError ''daemon returned an invalid status response'' []], d)
           else
             (let endpoint = st_Endpoint (the (cs_Status answer));
                  loopback = (if \<not> loopbackEndpoint endpoint
                    then check_of ''loopback'' LevelError ''data-plane endpoint is not loopback-only'' []
                    else check_of ''loopback'' LevelOK ''data-plane endpoint is loopback-only''
                      [(''endpoint'', Detail_text endpoint)])
              in case dh_call host address (control_request_of ''diagnostics'') d of
                (Inl _, d) \<Rightarrow> ([loopback, check_of ''daemon'' LevelError ''live diagnostics are unavailable'' []], d)
              | (Inr diagnosed, d) \<Rightarrow>
                  (if \<not> cs_OK diagnosed
                   then ([loopback, check_of ''daemon'' LevelError ''live diagnostics are unavailable'' []], d)
                   else
                     (let diagnostics = (case cs_Diagnostics diagnosed of None \<Rightarrow> [] | Some m \<Rightarrow> m)
                      in (loopback # sourceDiagnosticChecks (map_of diagnostics ''source_diagnostics'') @
                        [check_of ''daemon'' LevelOK
                          ''live daemon, source health, and locked resource limits are available''
                          (map (\<lambda>(name, v). (name, Detail_json v)) diagnostics)], d))))))"

definition doctor_Run ::
  "('s, 'd) doctor_host \<Rightarrow> 's doctor_options \<Rightarrow> disk \<times> 's \<times> 'd \<Rightarrow> report \<times> disk \<times> 's \<times> 'd" where
  "doctor_Run host opts w = (case w of (dk, s, d) \<Rightarrow>
     (case checkConfiguration host (do_ConfigPath opts) dk of ((configured, document, configOK), dk) \<Rightarrow>
     (case (if configOK then case checkCredentials host opts document s of (x, s) \<Rightarrow> ([x], s) else ([], s)) of
        (credentials, s) \<Rightarrow>
     (case checkDaemon host (do_ControlAddress opts) d of (live, d) \<Rightarrow>
       (let checks = configured @ [checkVersion, checkExtensions (dh_file host) (dh_order host) (do_ExtensionDir opts)] @
              credentials @ live
        in (\<lparr>rp_OK = \<not> list_ex (\<lambda>x. ck_Level x = LevelError) checks, rp_Checks = checks\<rparr>, dk, s, d))))))"

section \<open>What the checks establish\<close>

lemma expected_versions_ok: "distinct (map fst expected_versions) \<and> (\<forall>(name, version) \<in> set expected_versions. version \<noteq> '''')"
  by code_simp

definition version_line :: "string \<Rightarrow> string list" where
  "version_line name = [name, the (map_of expected_versions name)]"

lemma two_fields: "(case xs of [a, b] \<Rightarrow> f a b | _ \<Rightarrow> Inl e) = Inr y \<longleftrightarrow> (\<exists>a b. xs = [a, b] \<and> f a b = Inr y)"
  by (auto split: list.split)

lemma check_versions_iff:
  "check_versions lines seen = Inr seen' \<longleftrightarrow> (\<exists>names. seen' = rev names @ seen \<and> distinct names \<and>
     set names \<inter> set seen = {} \<and> set names \<subseteq> fst ` set expected_versions \<and> map go_fields lines = map version_line names)"
proof (induction lines arbitrary: seen)
  case Nil
  then show ?case by auto
next
  case (Cons line lines)
  have one: "map_of expected_versions n = Some v \<and> v \<noteq> '''' \<longleftrightarrow> n \<in> fst ` set expected_versions \<and> [n, v] = version_line n"
    for n v
    using expected_versions_ok map_of_SomeD [of expected_versions n v] map_of_eq_Some_iff [of expected_versions n]
    by (force simp: version_line_def image_iff)
  show ?case (is "?l \<longleftrightarrow> ?r")
  proof
    assume ?l
    then obtain n v where g: "go_fields line = [n, v]" "map_of expected_versions n = Some v \<and> v \<noteq> ''''"
      "n \<notin> set seen" "check_versions lines (n # seen) = Inr seen'"
      by (auto simp: two_fields split: if_splits)
    then have f: "go_fields line = [n, v]" "n \<in> fst ` set expected_versions" "[n, v] = version_line n"
      "n \<notin> set seen" "check_versions lines (n # seen) = Inr seen'" unfolding one by simp_all
    from f(5) obtain names where "seen' = rev names @ n # seen" "distinct names" "set names \<inter> set (n # seen) = {}"
      "set names \<subseteq> fst ` set expected_versions" "map go_fields lines = map version_line names" unfolding Cons.IH by blast
    with f show ?r by (intro exI [of _ "n # names"]) auto
  next
    assume ?r
    then obtain names where n: "seen' = rev names @ seen" "distinct names" "set names \<inter> set seen = {}"
      "set names \<subseteq> fst ` set expected_versions" "map go_fields (line # lines) = map version_line names" by blast
    then obtain m ms where ms: "names = m # ms" by (cases names) auto
    have "check_versions lines (m # seen) = Inr seen'" unfolding Cons.IH
      using n ms by (intro exI [of _ ms]) auto
    then show ?l using n ms one [of m "the (map_of expected_versions m)"] by (simp add: version_line_def)
  qed
qed

definition version_lines :: "string list list" where
  "version_lines = map (\<lambda>(name, version). [name, version]) expected_versions"

lemma version_lines_eq: "version_lines = map version_line (map fst expected_versions)"
  using expected_versions_ok
  by (auto simp: version_lines_def version_line_def map_of_eq_Some_iff intro!: map_cong)

text \<open>The version manifest is accepted exactly when its lines are the expected pairs, each once, in any order.\<close>

lemma checkExtensionVersions_iff:
  "checkExtensionVersions hostf path = None \<longleftrightarrow> (\<exists>f lines. hostf path = Inr f \<and> scan_lines f = (lines, None) \<and>
     mset (map go_fields lines) = mset version_lines)"
proof -
  have i: "(\<exists>seen. check_versions lines [] = Inr seen \<and> length seen = length expected_versions) \<longleftrightarrow>
      mset (map go_fields lines) = mset version_lines" (is "?l \<longleftrightarrow> ?r") for lines
  proof
    assume ?l
    then obtain names where n: "distinct names" "set names \<subseteq> fst ` set expected_versions"
      "map go_fields lines = map version_line names" "length names = length expected_versions"
      unfolding check_versions_iff by auto
    have "card (set names) = card (set (map fst expected_versions))"
      using n(1,4) expected_versions_ok distinct_card [of "map fst expected_versions"] by (simp add: distinct_card)
    then have "set names = set (map fst expected_versions)" using n(2) by (intro card_subset_eq) auto
    then have "mset names = mset (map fst expected_versions)"
      using set_eq_iff_mset_eq_distinct [OF n(1), of "map fst expected_versions"] expected_versions_ok by blast
    then have "mset (map version_line names) = mset (map version_line (map fst expected_versions))"
      unfolding mset_map by simp
    then show ?r using n(3) by (simp add: version_lines_eq del: mset_map map_map)
  next
    assume r: ?r
    let ?names = "map (\<lambda>line. hd (go_fields line)) lines"
    have "mset (map hd (map go_fields lines)) = mset (map hd version_lines)" using arg_cong [OF r, of "image_mset hd"] unfolding mset_map .
    then have m: "mset ?names = mset (map fst expected_versions)"
      by (simp add: version_lines_eq version_line_def comp_def)
    have d: "distinct ?names" using m expected_versions_ok by (metis mset_eq_imp_distinct_iff)
    have s: "set ?names = fst ` set expected_versions" using mset_eq_setD [OF m] by simp
    have "go_fields line = version_line (hd (go_fields line))" if "line \<in> set lines" for line
    proof -
      have "go_fields line \<in> set version_lines" using mset_eq_setD [OF r] that by auto
      then show ?thesis by (auto simp: version_lines_eq version_line_def)
    qed
    then have "map go_fields lines = map version_line ?names" by simp
    then have "check_versions lines [] = Inr (rev ?names)" unfolding check_versions_iff using d s
      by (intro exI [of _ ?names]) auto
    moreover have "length ?names = length expected_versions" using mset_eq_length [OF m] by simp
    ultimately show ?l by auto
  qed
  have "checkExtensionVersions hostf path = None \<longleftrightarrow> (\<exists>f lines. hostf path = Inr f \<and> scan_lines f = (lines, None) \<and>
      (\<exists>seen. check_versions lines [] = Inr seen \<and> length seen = length expected_versions))"
    by (auto simp: checkExtensionVersions_def split: sum.split prod.split option.split if_splits)
  then show ?thesis unfolding i .
qed

lemma verify_entries_iff:
  "verify_entries hostf directory xs seen = Inr seen' \<longleftrightarrow> seen' = rev (map ce_name xs) @ seen \<and>
     (\<forall>x\<in>set xs. ce_name x \<in> set required_files \<and> fileSHA256 hostf (filepath_Join [directory, ce_name x]) = Inr (ce_hash x))"
  by (induction xs arbitrary: seen) auto

lemma verify_entries_failed: "verify_entries hostf directory xs seen = Inl x \<Longrightarrow> ck_Level x = LevelError"
  by (induction xs arbitrary: seen) (auto simp: extensions_failed_def check_of_def split: if_splits)

text \<open>Every file that the bundle needs is listed, every file listed is one of them and has the digest listed for it, and
  the version manifest names the expected versions exactly.\<close>

definition bundle_verified :: "file_host \<Rightarrow> string \<Rightarrow> bool" where
  "bundle_verified hostf directory \<longleftrightarrow>
     (\<exists>entries. readChecksums hostf (filepath_Join [directory, ''extensions.sha256'']) = Inr entries \<and>
        ce_name ` set entries = set required_files \<and>
        (\<forall>x\<in>set entries. fileSHA256 hostf (filepath_Join [directory, ce_name x]) = Inr (ce_hash x))) \<and>
     (\<exists>f lines. hostf (filepath_Join [directory, ''extensions.versions'']) = Inr f \<and> scan_lines f = (lines, None) \<and>
        mset (map go_fields lines) = mset version_lines)"

lemma check_of_level [simp]: "ck_Level (check_of name level message details) = level"
  "ck_Level (extensions_failed message details) = LevelError" "ck_Level (malformed details) = LevelError"
  by (simp_all add: check_of_def extensions_failed_def malformed_def)

lemma checkExtensions_iff:
  assumes "\<forall>xs. mset (order xs) = mset xs"
  shows "ck_Level (checkExtensions hostf order directory) \<noteq> LevelError \<longleftrightarrow> directory = '''' \<or> bundle_verified hostf directory"
proof (cases "directory = ''''")
  case True
  then show ?thesis by (simp add: checkExtensions_def)
next
  case False
  have o: "set (order required_files) = set required_files" using assms mset_eq_setD by metis
  show ?thesis
  proof (cases "readChecksums hostf (filepath_Join [directory, ''extensions.sha256''])")
    case (Inl e)
    then show ?thesis using False by (simp add: checkExtensions_def bundle_verified_def)
  next
    case (Inr entries)
    show ?thesis
    proof (cases "verify_entries hostf directory entries []")
      case (Inl x)
      then have "\<not> (\<forall>x\<in>set entries. ce_name x \<in> set required_files \<and>
          fileSHA256 hostf (filepath_Join [directory, ce_name x]) = Inr (ce_hash x))"
        using verify_entries_iff [of hostf directory entries "[]" "rev (map ce_name entries)"] by auto
      then have "\<not> bundle_verified hostf directory" using Inr by (auto simp: bundle_verified_def)
      then show ?thesis using False Inr Inl verify_entries_failed [OF Inl] by (simp add: checkExtensions_def)
    next
      case v: (Inr seen)
      note i = v [unfolded verify_entries_iff]
      let ?missing = "List.find (\<lambda>name. name \<notin> set seen) (order required_files)"
      have "?missing = None \<longleftrightarrow> set required_files \<subseteq> set seen"
        using o by (auto simp: find_None_iff)
      also have "\<dots> \<longleftrightarrow> ce_name ` set entries = set required_files" using i by auto
      finally have m: "?missing = None \<longleftrightarrow> ce_name ` set entries = set required_files" .
      show ?thesis
      proof (cases ?missing)
        case None
        then show ?thesis using False Inr v m i
          checkExtensionVersions_iff [of hostf "filepath_Join [directory, ''extensions.versions'']"]
          by (cases "checkExtensionVersions hostf (filepath_Join [directory, ''extensions.versions''])")
            (simp_all add: checkExtensions_def bundle_verified_def)
      next
        case (Some name)
        then show ?thesis using False Inr v m by (simp add: checkExtensions_def bundle_verified_def)
      qed
    qed
  qed
qed

text \<open>The configuration loads, and its file is absent or private.\<close>

definition config_private :: "('s, 'd) doctor_host \<Rightarrow> string \<Rightarrow> disk \<Rightarrow> document \<Rightarrow> bool" where
  "config_private host path dk document \<longleftrightarrow> fst (Load (dh_oracle host) path dk) = Inr document \<and>
     (case dh_stat host path of Inl e \<Rightarrow> is_sentinel ErrNotExist e | Inr perm \<Rightarrow> dh_windows host \<or> perm mod 64 = 0)"

lemma checkConfiguration_iff:
  assumes "checkConfiguration host path dk = ((checks, document, ok), dk')"
  shows "ok \<longleftrightarrow> config_private host path dk document"
    and "list_ex (\<lambda>x. ck_Level x = LevelError) checks \<longleftrightarrow> \<not> ok"
    and "config_private host path dk document' \<Longrightarrow> ok \<and> document' = document"
  using assms by (auto simp: checkConfiguration_def config_private_def Let_def split: sum.splits prod.splits if_splits)

text \<open>The state in which the credential of a source is read, after those before it.\<close>

definition read_before :: "'s credential_ops \<Rightarrow> config_source list \<Rightarrow> 's \<Rightarrow> 's" where
  "read_before ops cs s = foldl (\<lambda>s c. snd (cs_Get ops (cf_CredentialRef c) s)) s (filter needs_credential cs)"

definition credentials_readable :: "'s credential_ops \<Rightarrow> config_source list \<Rightarrow> 's \<Rightarrow> bool" where
  "credentials_readable ops cs s \<longleftrightarrow> (\<forall>before c after. cs = before @ c # after \<longrightarrow> needs_credential c \<longrightarrow>
     (\<exists>credential. credential \<noteq> '''' \<and> fst (cs_Get ops (cf_CredentialRef c) (read_before ops before s)) = Inr credential))"

lemma credentials_readable_Cons:
  "credentials_readable ops (c # cs) s \<longleftrightarrow>
     (needs_credential c \<longrightarrow> (\<exists>v. v \<noteq> '''' \<and> fst (cs_Get ops (cf_CredentialRef c) s) = Inr v)) \<and>
     credentials_readable ops cs (if needs_credential c then snd (cs_Get ops (cf_CredentialRef c) s) else s)"
  (is "?l \<longleftrightarrow> ?a \<and> ?b")
proof
  assume l: ?l
  have "?a" using l unfolding credentials_readable_def read_before_def by (elim allE [of _ "[]"]) simp
  moreover have "?b" unfolding credentials_readable_def
  proof (intro allI impI)
    fix before d after
    assume "cs = before @ d # after" "needs_credential d"
    then show "\<exists>v. v \<noteq> '''' \<and> fst (cs_Get ops (cf_CredentialRef d) (read_before ops before
        (if needs_credential c then snd (cs_Get ops (cf_CredentialRef c) s) else s))) = Inr v"
      using l [unfolded credentials_readable_def read_before_def, rule_format, of "c # before" d after]
      by (simp add: read_before_def split: if_splits)
  qed
  ultimately show "?a \<and> ?b" ..
next
  assume r: "?a \<and> ?b"
  show ?l unfolding credentials_readable_def
  proof (intro allI impI)
    fix before d after
    assume e: "c # cs = before @ d # after" "needs_credential d"
    show "\<exists>v. v \<noteq> '''' \<and> fst (cs_Get ops (cf_CredentialRef d) (read_before ops before s)) = Inr v"
    proof (cases before)
      case Nil
      then show ?thesis using r e by (simp add: read_before_def)
    next
      case (Cons b bs)
      then have "cs = bs @ d # after" "b = c" using e by simp_all
      with r e(2) Cons show ?thesis by (force simp: credentials_readable_def read_before_def split: if_splits)
    qed
  qed
qed

lemma missing_credentials_iff: "fst (missing_credentials ops cs s) = [] \<longleftrightarrow> credentials_readable ops cs s"
proof (induction cs arbitrary: s)
  case Nil
  then show ?case by (simp add: credentials_readable_def)
next
  case (Cons c cs)
  show ?case
  proof (cases "needs_credential c")
    case False
    then show ?thesis using Cons.IH [of s] by (auto simp: credentials_readable_Cons needs_credential_def)
  next
    case True
    obtain r s1 where g: "cs_Get ops (cf_CredentialRef c) s = (r, s1)" by fastforce
    obtain missing s2 where m: "missing_credentials ops cs s1 = (missing, s2)" by fastforce
    then show ?thesis using True g Cons.IH [of s1]
      by (cases r) (auto simp: credentials_readable_Cons needs_credential_def)
  qed
qed

text \<open>No enabled source needs a credential, or a store is there and reads every one that is needed.\<close>

definition credentials_available :: "('s, 'd) doctor_host \<Rightarrow> 's doctor_options \<Rightarrow> document \<Rightarrow> 's \<Rightarrow> bool" where
  "credentials_available host opts document s \<longleftrightarrow> (\<forall>c\<in>set (sources_of document). \<not> needs_credential c) \<or>
     (\<exists>ops. select_store host opts = Inr ops \<and> credentials_readable ops (sources_of document) s)"

lemma checkCredentials_iff:
  "ck_Level (fst (checkCredentials host opts document s)) \<noteq> LevelError \<longleftrightarrow> credentials_available host opts document s"
proof (cases "list_ex needs_credential (sources_of document)")
  case False
  then show ?thesis by (simp add: checkCredentials_def credentials_available_def list_ex_iff)
next
  case True
  then have t: "\<not> (\<forall>c\<in>set (sources_of document). \<not> needs_credential c)" by (simp add: list_ex_iff)
  show ?thesis
  proof (cases "select_store host opts")
    case (Inl e)
    then show ?thesis using True t by (simp add: checkCredentials_def credentials_available_def Let_def)
  next
    case (Inr ops)
    obtain missing s2 where m: "missing_credentials ops (sources_of document) s = (missing, s2)" by fastforce
    then show ?thesis using True t Inr missing_credentials_iff [of ops "sources_of document" s]
      by (simp add: checkCredentials_def credentials_available_def Let_def)
  qed
qed

text \<open>For a store that keeps its contract, the stored credentials are then those of the enabled sources.\<close>

context credential_store
begin

lemma read_before_keeps: "inv s \<Longrightarrow> inv (read_before ops cs s) \<and> view (read_before ops cs s) = view s"
proof (induction cs arbitrary: s)
  case (Cons c cs)
  obtain r s1 where g: "cs_Get ops (cf_CredentialRef c) s = (r, s1)" by fastforce
  show ?case using get [OF Cons.prems g] Cons.IH [of s1] Cons.IH [OF Cons.prems] g by (simp add: read_before_def)
qed (simp add: read_before_def)

lemma readable_stored:
  assumes "inv s" and "credentials_readable ops cs s" and "c \<in> set cs" and "needs_credential c"
  shows "\<exists>v. v \<noteq> '''' \<and> view s (cf_CredentialRef c) = Some v"
proof -
  obtain before after where cs: "cs = before @ c # after" using assms(3) by (meson split_list)
  from assms(2,4) cs obtain v where v: "v \<noteq> ''''"
    "fst (cs_Get ops (cf_CredentialRef c) (read_before ops before s)) = Inr v"
    unfolding credentials_readable_def by blast
  note k = read_before_keeps [OF assms(1), of before]
  show ?thesis using get [of "read_before ops before s" "cf_CredentialRef c"] k v
    by (metis prod.collapse)
qed

end

section \<open>Live checks\<close>

text \<open>A source reports an id, that it is ready, and warnings that are texts.\<close>

definition ready_diagnostic :: "json \<Rightarrow> bool" where
  "ready_diagnostic entry \<longleftrightarrow> (\<exists>diagnostic i warnings. entry = JObj diagnostic \<and>
     map_of diagnostic ''id'' = Some (JStr i) \<and> i \<noteq> '''' \<and> map_of diagnostic ''health'' = Some (JStr ''ready'') \<and>
     map_of diagnostic ''warnings'' = Some (JArr warnings) \<and>
     (\<forall>w\<in>set warnings. \<exists>message. w = JStr message \<and> message \<noteq> ''''))"

lemma warning_check_iff: "ck_Level (warning_check i w) = LevelError \<longleftrightarrow> \<not> (\<exists>message. w = JStr message \<and> message \<noteq> '''')"
  by (cases w) auto

lemma str_of_iff: "x \<noteq> '''' \<Longrightarrow> str_of v = x \<longleftrightarrow> v = Some (JStr x)"
  by (cases v; cases "the v") (auto simp: str_of_def)

lemma diagnostic_checks_iff:
  "list_ex (\<lambda>x. ck_Level x = LevelError) (diagnostic_checks entry) \<longleftrightarrow> \<not> ready_diagnostic entry"
proof (cases entry)
  case (JObj m)
  let ?id = "str_of (map_of m ''id'')" and ?health = "str_of (map_of m ''health'')"
  show ?thesis
  proof (cases "?id = '''' \<or> ?health \<noteq> ''ready''")
    case True
    then have "\<not> ready_diagnostic entry" using JObj str_of_iff [of "''ready''" "map_of m ''health''"]
      by (auto simp: ready_diagnostic_def str_of_def)
    then show ?thesis using True JObj by (auto simp: diagnostic_checks_def Let_def)
  next
    case False
    then have i: "map_of m ''id'' = Some (JStr ?id)" "?id \<noteq> ''''" and h: "map_of m ''health'' = Some (JStr ''ready'')"
      using str_of_iff [of ?id "map_of m ''id''"] str_of_iff [of "''ready''" "map_of m ''health''"] by auto
    show ?thesis
    proof (cases "\<exists>ws. map_of m ''warnings'' = Some (JArr ws)")
      case True
      then obtain ws where w: "map_of m ''warnings'' = Some (JArr ws)" by blast
      have "diagnostic_checks entry = map (warning_check ?id) ws"
        using False h w JObj by (simp add: diagnostic_checks_def Let_def)
      moreover have "ready_diagnostic entry \<longleftrightarrow> (\<forall>w\<in>set ws. \<exists>message. w = JStr message \<and> message \<noteq> '''')"
        using i h w JObj by (auto simp: ready_diagnostic_def)
      ultimately show ?thesis by (simp add: list_ex_iff warning_check_iff)
    next
      case n: False
      then have "\<not> ready_diagnostic entry" using JObj by (auto simp: ready_diagnostic_def)
      moreover have "diagnostic_checks entry = [malformed [(''source_id'', Detail_text ?id)]]"
        using False h n JObj by (auto simp: diagnostic_checks_def Let_def split: option.split json.split)
      ultimately show ?thesis by simp
    qed
  qed
qed (simp_all add: diagnostic_checks_def ready_diagnostic_def)

text \<open>The daemon cannot be reached, or it serves on a loopback address and every source it reports is ready.\<close>

definition daemon_healthy :: "('s, 'd) doctor_host \<Rightarrow> string \<Rightarrow> 'd \<Rightarrow> bool" where
  "daemon_healthy host address d \<longleftrightarrow> address = '''' \<or>
     (case dh_call host address (control_request_of ''status'') d of
       (Inl _, _) \<Rightarrow> True
     | (Inr answer, d) \<Rightarrow> cs_OK answer \<and> (\<exists>st. cs_Status answer = Some st \<and> loopbackEndpoint (st_Endpoint st)) \<and>
         (\<exists>diagnosed m entries. fst (dh_call host address (control_request_of ''diagnostics'') d) = Inr diagnosed \<and>
            cs_OK diagnosed \<and> cs_Diagnostics diagnosed = Some m \<and>
            map_of m ''source_diagnostics'' = Some (JArr entries) \<and> (\<forall>entry\<in>set entries. ready_diagnostic entry)))"

lemma sourceDiagnosticChecks_iff:
  "list_ex (\<lambda>x. ck_Level x = LevelError) (sourceDiagnosticChecks v) \<longleftrightarrow>
     \<not> (\<exists>entries. v = Some (JArr entries) \<and> (\<forall>entry\<in>set entries. ready_diagnostic entry))"
proof (cases "\<exists>entries. v = Some (JArr entries)")
  case True
  then obtain entries where "v = Some (JArr entries)" by blast
  then show ?thesis
    using diagnostic_checks_iff by (auto simp: sourceDiagnosticChecks_def list_ex_iff)
next
  case False
  then have "sourceDiagnosticChecks v = [malformed []]"
    by (auto simp: sourceDiagnosticChecks_def split: option.split json.split)
  then show ?thesis using False by auto
qed

lemma checkDaemon_iff:
  "list_ex (\<lambda>x. ck_Level x = LevelError) (fst (checkDaemon host address d)) \<longleftrightarrow> \<not> daemon_healthy host address d"
proof (cases "address = ''''")
  case True
  then show ?thesis by (simp add: checkDaemon_def daemon_healthy_def)
next
  case False
  obtain r d1 where s: "dh_call host address (control_request_of ''status'') d = (r, d1)" by fastforce
  obtain q d2 where g: "dh_call host address (control_request_of ''diagnostics'') d1 = (q, d2)" by fastforce
  show ?thesis
  proof (cases r)
    case (Inl e)
    then show ?thesis using False s by (simp add: checkDaemon_def daemon_healthy_def)
  next
    case (Inr answer)
    show ?thesis
    proof (cases "cs_OK answer \<and> cs_Status answer \<noteq> None")
      case True
      then obtain st where st: "cs_OK answer" "cs_Status answer = Some st" by blast
      show ?thesis
      proof (cases "\<exists>diagnosed. q = Inr diagnosed \<and> cs_OK diagnosed")
        case True
        then obtain diagnosed where q: "q = Inr diagnosed" "cs_OK diagnosed" by blast
        let ?m = "case cs_Diagnostics diagnosed of None \<Rightarrow> [] | Some m \<Rightarrow> m"
        have "list_ex (\<lambda>x. ck_Level x = LevelError) (fst (checkDaemon host address d)) \<longleftrightarrow>
            \<not> loopbackEndpoint (st_Endpoint st) \<or>
            list_ex (\<lambda>x. ck_Level x = LevelError) (sourceDiagnosticChecks (map_of ?m ''source_diagnostics''))"
          using False s Inr st g q by (simp add: checkDaemon_def Let_def)
        then show ?thesis using False s Inr st g q
          by (cases "cs_Diagnostics diagnosed") (simp_all add: sourceDiagnosticChecks_iff daemon_healthy_def)
      next
        case n: False
        then show ?thesis using False s Inr st g
          by (cases q) (auto simp: checkDaemon_def Let_def daemon_healthy_def)
      qed
    next
      case n: False
      then show ?thesis using False s Inr by (auto simp: checkDaemon_def daemon_healthy_def)
    qed
  qed
qed

text \<open>C33. The report of the diagnostics is a success exactly when the configuration loads and its file is absent or
  accessible by its owner only, the bundle of extensions was not named or is complete, its digests are the SHA-256 of
  its files and its versions are the compiled ones, every enabled source that needs a credential has a nonempty one in
  the store chosen, and the daemon is not reachable or serves on a loopback address with every source ready.\<close>

theorem doctor_exact:
  assumes "\<forall>xs. mset (dh_order host xs) = mset xs"
  shows "rp_OK (fst (doctor_Run host opts (dk, s, d))) \<longleftrightarrow>
    (\<exists>document. config_private host (do_ConfigPath opts) dk document \<and> credentials_available host opts document s) \<and>
    (do_ExtensionDir opts = '''' \<or> bundle_verified (dh_file host) (do_ExtensionDir opts)) \<and>
    daemon_healthy host (do_ControlAddress opts) d"
proof -
  obtain configured document ok dk1 where c: "checkConfiguration host (do_ConfigPath opts) dk = ((configured, document, ok), dk1)"
    by (metis prod.exhaust)
  obtain x s1 where k: "checkCredentials host opts document s = (x, s1)" by fastforce
  obtain live d1 where l: "checkDaemon host (do_ControlAddress opts) d = (live, d1)" by fastforce
  let ?e = "\<lambda>xs. list_ex (\<lambda>x. ck_Level x = LevelError) xs"
  have "rp_OK (fst (doctor_Run host opts (dk, s, d))) \<longleftrightarrow> \<not> ?e configured \<and>
      ck_Level (checkExtensions (dh_file host) (dh_order host) (do_ExtensionDir opts)) \<noteq> LevelError \<and>
      (ok \<longrightarrow> ck_Level x \<noteq> LevelError) \<and> \<not> ?e live"
    using c k l by (cases ok) (auto simp: doctor_Run_def Let_def checkVersion_def)
  moreover have "?e configured \<longleftrightarrow> \<not> ok" and "ok \<longleftrightarrow> config_private host (do_ConfigPath opts) dk document"
    and "\<And>document'. config_private host (do_ConfigPath opts) dk document' \<Longrightarrow> document' = document"
    using checkConfiguration_iff [OF c] by blast+
  moreover have "ck_Level x \<noteq> LevelError \<longleftrightarrow> credentials_available host opts document s"
    using checkCredentials_iff [of host opts document s] k by simp
  moreover have "?e live \<longleftrightarrow> \<not> daemon_healthy host (do_ControlAddress opts) d"
    using checkDaemon_iff [of host "do_ControlAddress opts" d] l by simp
  ultimately show ?thesis using checkExtensions_iff [OF assms, of "dh_file host" "do_ExtensionDir opts"] by metis
qed

definition quiet_oracle :: fs_oracle where
  "quiet_oracle = \<lparr>or_fault = (\<lambda>_. None), or_temp = (\<lambda>_. ''0'')\<rparr>"

definition demo_diagnosed :: "bool \<Rightarrow> (string \<times> json) list" where
  "demo_diagnosed ready = [(''source_diagnostics'', JArr [JObj [(''id'', JStr ''warehouse''),
     (''health'', JStr (if ready then ''ready'' else ''unavailable'')), (''warnings'', JArr [JStr ''role can write''])]])]"

definition demo_call :: "string \<Rightarrow> control_request \<Rightarrow> bool \<Rightarrow> (string \<times> json) list control_response res \<times> bool" where
  "demo_call address rq ready =
     (Inr (if cr_Operation rq = ''status''
       then success\<lparr>cs_Status := Some (stopped_status\<lparr>st_Endpoint := ''quack:127.0.0.1:9494''\<rparr>)\<rparr>
       else success\<lparr>cs_Diagnostics := Some (demo_diagnosed ready)\<rparr>), ready)"

definition demo_doctor_host :: "(environment, bool) doctor_host" where
  "demo_doctor_host = \<lparr>dh_oracle = quiet_oracle, dh_stat = (\<lambda>_. Inl (Sentinel ErrNotExist)), dh_windows = False,
     dh_file = (\<lambda>_. Inl (Sentinel ErrNotExist)), dh_order = rev, dh_system = Inl (Plain ''no secret service''),
     dh_environment = environment_ops '''', dh_call = demo_call, dh_socket = (\<lambda>_. True)\<rparr>"

definition demo_doctor_options :: "environment doctor_options" where
  "demo_doctor_options = \<lparr>do_ConfigPath = ''/home/me/quackridge.json'', do_ControlAddress = ''/run/quackridge.sock'',
     do_ExtensionDir = '''', do_CredentialProvider = '''', do_CredentialStore = None\<rparr>"

lemma demo_endpoint: "loopbackEndpoint ''quack:127.0.0.1:9494''"
proof -
  have "SplitHostPort (trim_prefix ''quack:'' ''quack:127.0.0.1:9494'') = Inr (''127.0.0.1'', ''9494'')"
    by code_simp
  moreover have "ParseIP ''127.0.0.1'' = Some [0, 0, 0, 0, 0, 0xFFFF, 32512, 1]"
    by (simp add: ParseIP_def parse_v4_def v4_octet_def decimal_value_def is_digit_byte_def byte_def)
  ultimately show ?thesis by (simp add: loopbackEndpoint_def IsLoopback_def)
qed

lemma demo_config:
  "config_private demo_doctor_host (do_ConfigPath demo_doctor_options) \<lparr>dk_files = Map.empty, dk_log = []\<rparr>
     \<lparr>doc_Version = CurrentVersion, doc_Sources = Some []\<rparr>"
  by (simp add: config_private_def demo_doctor_host_def Load_def loadFile_def fs_ReadFile_def)

theorem doctor_exact_witness:
  "rp_OK (fst (doctor_Run demo_doctor_host demo_doctor_options (\<lparr>dk_files = Map.empty, dk_log = []\<rparr>, Map.empty, True))) \<and>
   \<not> rp_OK (fst (doctor_Run demo_doctor_host demo_doctor_options (\<lparr>dk_files = Map.empty, dk_log = []\<rparr>, Map.empty, False)))"
proof -
  have o: "\<forall>xs. mset (dh_order demo_doctor_host xs) = mset xs" by (simp add: demo_doctor_host_def)
  have "credentials_available demo_doctor_host demo_doctor_options \<lparr>doc_Version = CurrentVersion, doc_Sources = Some []\<rparr> Map.empty"
    by (simp add: credentials_available_def sources_of_def)
  moreover have "daemon_healthy demo_doctor_host (do_ControlAddress demo_doctor_options) True"
    and "\<not> daemon_healthy demo_doctor_host (do_ControlAddress demo_doctor_options) False"
    using demo_endpoint
    by (simp_all add: daemon_healthy_def demo_doctor_host_def demo_doctor_options_def demo_call_def control_request_of_def
        success_def demo_diagnosed_def ready_diagnostic_def)
  moreover have "do_ExtensionDir demo_doctor_options = ''''" by (simp add: demo_doctor_options_def)
  ultimately show ?thesis using demo_config
      doctor_exact [OF o, of demo_doctor_options "\<lparr>dk_files = Map.empty, dk_log = []\<rparr>" Map.empty True]
      doctor_exact [OF o, of demo_doctor_options "\<lparr>dk_files = Map.empty, dk_log = []\<rparr>" Map.empty False]
    by blast
qed

end
