(* ===== verification/ControlCall.thy ===== *)
theory ControlCall
  imports ControlJson Doctor
begin

text \<open>
  The client of the management protocol (\<open>Call\<close> of internal/control/control.go) and what it gets from the server: the
  response that was dispatched, through both sides' JSON.  The diagnostics of internal/doctor are the client that
  judges it.  A dial and the exchange of bytes over a connection are a \<open>transport\<close>.
\<close>

section \<open>Call\<close>

record 's transport =
  tp_Dial :: "string \<Rightarrow> 's \<Rightarrow> go_error option"
  tp_Exchange :: "string \<Rightarrow> string \<Rightarrow> 's \<Rightarrow> string res \<times> 's"

definition call_limit :: nat where "call_limit = 2 ^ 20"

definition control_Call ::
  "(string \<Rightarrow> int option) \<Rightarrow> 's transport \<Rightarrow> string \<Rightarrow> control_request \<Rightarrow> 's \<Rightarrow> any_map control_response res \<times> 's" where
  "control_Call slow tp address rq s = (case tp_Dial tp address s of Some e \<Rightarrow> (Inl e, s)
     | None \<Rightarrow> (case tp_Exchange tp address (encode_request rq @ [CHR 0x0A]) s of
         (Inl e, s) \<Rightarrow> (Inl e, s)
       | (Inr arrived, s) \<Rightarrow> (decode_control_response slow (take call_limit arrived), s)))"

text \<open>The server's end: it writes the response, or nothing when the response cannot be encoded.\<close>

definition server_writes :: "('b, app_diagnostics) backend \<Rightarrow> string \<Rightarrow> 'b \<Rightarrow> string \<times> 'b" where
  "server_writes bk request b = (case control_handle bk request b of None \<Rightarrow> ('''', b)
     | Some (r, b) \<Rightarrow> (case response_json r of Inl _ \<Rightarrow> ('''', b) | Inr t \<Rightarrow> (t @ [CHR 0x0A], b)))"

definition connected :: "('b, app_diagnostics) backend \<Rightarrow> 'b transport" where
  "connected bk = \<lparr>tp_Dial = (\<lambda>_ _. None), tp_Exchange = (\<lambda>_ request b. map_prod Inr id (server_writes bk request b))\<rparr>"

section \<open>The client reads what the server dispatched\<close>

text \<open>A response that the client can read: it is encoded, within the limit, and nests no deeper than the decoder goes.\<close>

definition fits :: "app_diagnostics control_response \<Rightarrow> bool" where
  "fits r \<longleftrightarrow> (case response_json r of Inl _ \<Rightarrow> False | Inr text \<Rightarrow> length text \<le> call_limit \<and> json_unmarshal text \<noteq> None)"

lemma unmarshal_nesting: "sound y \<Longrightarrow> json_unmarshal (flat y) \<noteq> None \<longleftrightarrow> nesting y \<le> max_nesting"
  using tight.layout_decodes [OF _ delimited_char(4), of y 0]
  by (cases "nesting y \<le> max_nesting") (auto simp: json_unmarshal_def skip_ws_def)

lemma response_read:
  assumes "plain_response r" and "response_json r = Inr out" and "length out \<le> call_limit" and "json_unmarshal out \<noteq> None"
  shows "\<exists>r'. decode_control_response slow (take call_limit (out @ [CHR 0x0A])) = Inr r' \<and> same_response r r'"
proof -
  obtain sy py ys cy where at: "status_at (cs_Status r) sy" "challenge_at (cs_Pairing r) py" "configuration_at (cs_Configuration r) ys cy"
    and flat: "out = flat (object_tree (response_members r sy py cy))" using response_text [OF assms(2)] by blast
  let ?ms = "response_members r sy py cy"
  note s = response_sound [OF assms(1) at]
  note tree = object_tree_sound [OF s]
  have n: "nesting (object_tree ?ms) \<le> max_nesting" using assms(4) unmarshal_nesting [OF tree] flat by simp
  have ne: "?ms \<noteq> []" by (simp add: response_members_def)
  obtain rest where rest: "take call_limit (out @ [CHR 0x0A]) = out @ rest" "rest = [] \<or> rest = [CHR 0x0A]"
    using assms(3) by (cases "length out = call_limit") auto
  have d: "delimited rest" using rest(2) by (auto simp: delimited_def json_ws_def byte_def)
  have raw: "raw_value (out @ rest) = Some (out, meaning (object_tree ?ms), rest)"
    unfolding flat by (rule raw_value_text [OF tight.layout_text [OF tree order_refl] n d])
  have f: "\<forall>(k, y) \<in> set ?ms. field_of (map fst (control_response_setters slow)) k \<noteq> None"
    by (auto simp: response_members_def optional_def omitempty_tree_def response_field split: option.splits)
  have "decode_lenient (control_response_setters slow) zero_control_response out = fill (control_response_setters slow) (read_items ?ms) zero_control_response"
    unfolding flat using tight.decode_lenient_tree [OF s ne n f, of zero_control_response 0] by simp
  then have dec: "decode_control_response slow (out @ rest) = fill (control_response_setters slow) (read_items ?ms) zero_control_response"
    using raw by (simp add: decode_control_response_def)
  have same: "same_document d (laid_document (\<lambda>_. []) [] 0 d ys)" if c: "cs_Configuration r = Some d" for d
  proof (rule tight.laid_document_same)
    show "list_all2 options_tree (sources_of d) ys" using at(3) c by (simp add: configuration_at_def)
    have "cy = Some (object_tree (document_members d ys))" using at(3) c by (simp add: configuration_at_def)
    then show "nesting (object_tree (document_members d ys)) \<le> max_nesting"
      by (intro members_nesting [OF n, of "''configuration''"]) (simp add: response_members_def optional_def)
  qed
  show ?thesis unfolding rest(1) dec fill_response [OF assms(1) at n]
    using same by (auto simp: same_response_def option.rel_sel)
qed

lemma server_writes_dispatched:
  assumes "plain_request rq" and "length (encode_request rq) < request_limit" and "dispatch bk rq b = Some (r, b')"
  shows "server_writes bk (encode_request rq @ [CHR 0x0A]) b =
    (case response_json r of Inl _ \<Rightarrow> '''' | Inr t \<Rightarrow> t @ [CHR 0x0A], b')"
  using handle_encoded [OF assms(1,2), of bk b] assms(3) by (simp add: server_writes_def split: sum.split)

lemma Call_dispatched:
  assumes "plain_request rq" and "length (encode_request rq) < request_limit" and "dispatch bk rq b = Some (r, b')"
    and "plain_response r" and "fits r"
  shows "\<exists>r'. control_Call slow (connected bk) address rq b = (Inr r', b') \<and> same_response r r'"
proof -
  obtain out where t: "response_json r = Inr out" "length out \<le> call_limit" "json_unmarshal out \<noteq> None"
    using assms(5) by (auto simp: fits_def split: sum.splits)
  from response_read [OF assms(4) t] server_writes_dispatched [OF assms(1-3)] show ?thesis
    using t(1) by (simp add: control_Call_def connected_def)
qed

text \<open>A response that cannot be encoded is an error of the call, and the request has been served.\<close>

lemma Call_unencodable:
  assumes "plain_request rq" and "length (encode_request rq) < request_limit" and "dispatch bk rq b = Some (r, b')"
    and "response_json r = Inl e"
  shows "\<exists>e'. control_Call slow (connected bk) address rq b = (Inl e', b')"
  using server_writes_dispatched [OF assms(1-3)] assms(4)
  by (simp add: control_Call_def connected_def decode_control_response_def raw_value_def json_decode_def parse_value_step skip_ws_def)

section \<open>The diagnostics of a daemon\<close>

text \<open>What the doctor makes of a source diagnostic that came over the wire.\<close>

definition ready_source :: "source_diagnostic \<Rightarrow> bool" where
  "ready_source s \<longleftrightarrow> sg_ID s \<noteq> '''' \<and> sg_Health s = ''ready'' \<and> '''' \<notin> set (sg_Warnings s)"

lemma ready_source_diagnostic: "ready_diagnostic (meaning (source_diagnostic_tree s)) \<longleftrightarrow> ready_source s"
proof -
  have "meaning (source_diagnostic_tree s) = JObj [(''id'', JStr (sg_ID s)), (''health'', JStr (sg_Health s)),
      (''read_only'', JBool (sg_ReadOnly s)), (''warnings'', JArr (map JStr (sg_Warnings s)))]"
    unfolding source_diagnostic_tree_def by (subst meaning_object) simp_all
  then show ?thesis by (auto simp: ready_diagnostic_def ready_source_def)
qed

lemma diagnostics_entries:
  "map_of (diagnostics_any g) ''source_diagnostics'' =
     Some (JArr (map (\<lambda>s. meaning (source_diagnostic_tree s)) (ad_source_diagnostics g)))"
  by (simp add: diagnostics_any_def diagnostics_members_def meaning_elements comp_def)

lemma asked_plain: "plain_request (control_request_of ''status'')" "plain_request (control_request_of ''diagnostics'')"
  "length (encode_request (control_request_of ''status'')) < request_limit"
  "length (encode_request (control_request_of ''diagnostics'')) < request_limit"
proof -
  show "plain_request (control_request_of ''status'')" "plain_request (control_request_of ''diagnostics'')"
    by (simp_all add: plain_request_def control_request_of_def zero_request_def control_version_def go_int_def byte_def)
  have "length (encode_request (control_request_of ''status'')) < 100" "length (encode_request (control_request_of ''diagnostics'')) < 100"
    by code_simp+
  then show "length (encode_request (control_request_of ''status'')) < request_limit"
    "length (encode_request (control_request_of ''diagnostics'')) < request_limit" by (simp_all add: request_limit_def)
qed

lemma doctor_live:
  assumes "dh_call host = control_Call slow (connected bk)" and "address \<noteq> ''''"
    and "bk_management bk = Some m" and "mb_Diagnostics m b = (Inr g, b')"
    and "plain_status (bk_Status bk b)" and "plain_diagnostics g"
    and "fits (success\<lparr>cs_Status := Some (bk_Status bk b)\<rparr>)" and "fits (success\<lparr>cs_Diagnostics := Some g\<rparr>)"
  shows "daemon_healthy host address b \<longleftrightarrow>
    loopbackEndpoint (st_Endpoint (bk_Status bk b)) \<and> (\<forall>s \<in> set (ad_source_diagnostics g). ready_source s)"
proof -
  let ?st = "success\<lparr>cs_Status := Some (bk_Status bk b)\<rparr>" and ?dg = "success\<lparr>cs_Diagnostics := Some g\<rparr>"
  have d: "dispatch bk (control_request_of ''status'') b = Some (?st, b)"
    "dispatch bk (control_request_of ''diagnostics'') b = Some (?dg, b')"
    using assms(3,4) by (simp_all add: dispatch_def control_request_of_def with_status_def)
  have "go_int control_version" by code_simp
  then have p: "plain_response ?st" "plain_response ?dg"
    using assms(5,6) by (simp_all add: plain_response_def success_def ascii_utf8)
  obtain r1 where r1: "control_Call slow (connected bk) address (control_request_of ''status'') b = (Inr r1, b)" "same_response ?st r1"
    using Call_dispatched [OF asked_plain(1,3) d(1) p(1) assms(7)] by blast
  obtain r2 where r2: "control_Call slow (connected bk) address (control_request_of ''diagnostics'') b = (Inr r2, b')" "same_response ?dg r2"
    using Call_dispatched [OF asked_plain(2,4) d(2) p(2) assms(8)] by blast
  show ?thesis
    using assms(2) r1 r2 diagnostics_entries [of g] ready_source_diagnostic
    by (auto simp: daemon_healthy_def assms(1) same_response_def success_def)
qed

section \<open>The depth of what is written\<close>

lemma array_depth: "(\<forall>y \<in> set ys. nesting y \<le> n) \<Longrightarrow> nesting (array_tree ys) \<le> Suc n"
  by (cases "ys = []") (simp_all add: nesting_array)

lemma object_depth: "(\<forall>(k, y) \<in> set ms. nesting y \<le> n) \<Longrightarrow> nesting (object_tree ms) \<le> Suc n"
  by (cases "ms = []") (simp_all add: nesting_object)

lemma time_depth [simp]: "nesting (time_tree stamp) = 0"
  by (simp add: time_tree_def)

lemma source_status_depth: "nesting (source_status_tree s) \<le> 1"
  unfolding source_status_tree One_nat_def
  by (rule object_depth) (simp add: source_status_members_def omitempty_tree_def)

lemma strings_depth: "nesting (strings_tree xs) \<le> 1"
  unfolding strings_tree_def One_nat_def by (rule array_depth) simp

lemma string_map_depth: "nesting (string_map_tree m) \<le> 1"
  unfolding string_map_tree_def One_nat_def by (rule object_depth) auto

lemma status_depth: "nesting (object_tree (status_members stamp st)) \<le> 3"
proof -
  have "nesting (array_tree (map source_status_tree (st_Sources st))) \<le> 2"
    using array_depth [of "map source_status_tree (st_Sources st)" 1] source_status_depth by (simp add: numeral_2_eq_2)
  then have "\<forall>(k, y) \<in> set (status_members stamp st). nesting y \<le> 2"
    using strings_depth [of "st_Capabilities st"] by (simp add: status_members_def omitempty_tree_def)
  from object_depth [OF this] show ?thesis by simp
qed

lemma diagnostics_depth: "nesting (object_tree (diagnostics_members g)) \<le> 4"
proof -
  have "nesting (array_tree (map source_status_tree (ad_sources g))) \<le> 2"
    using array_depth [of "map source_status_tree (ad_sources g)" 1] source_status_depth by (simp add: numeral_2_eq_2)
  moreover have "nesting (source_diagnostic_tree s) \<le> 2" for s
    using object_depth [of "[(''id'', string_tree (sg_ID s)), (''health'', string_tree (sg_Health s)),
      (''read_only'', bool_tree (sg_ReadOnly s)), (''warnings'', strings_tree (sg_Warnings s))]" 1] strings_depth
    by (simp add: source_diagnostic_tree_def numeral_2_eq_2)
  then have "nesting (array_tree (map source_diagnostic_tree (ad_source_diagnostics g))) \<le> 3"
    using array_depth [of "map source_diagnostic_tree (ad_source_diagnostics g)" 2] by simp
  ultimately have "\<forall>(k, y) \<in> set (diagnostics_members g). nesting y \<le> 3"
    using strings_depth [of "ad_capabilities g"] string_map_depth [of "ad_extension_versions g"] string_map_depth [of "dg_settings (ad_engine g)"]
    by (simp add: diagnostics_members_def)
  from object_depth [OF this] show ?thesis by simp
qed

lemma fits_members:
  assumes "response_json r = Inr (flat (object_tree ms))" and "\<forall>(k, y) \<in> set ms. utf8 k \<and> sound y"
    and "\<forall>(k, y) \<in> set ms. nesting y \<le> 4" and "length (flat (object_tree ms)) \<le> call_limit"
  shows "fits r"
  using assms(1,4) unmarshal_nesting [OF object_tree_sound [OF assms(2)]] object_depth [OF assms(3)]
  by (simp add: fits_def max_nesting_def)

section \<open>An example\<close>

definition demo_live_status :: status where
  "demo_live_status = stopped_status\<lparr>st_State := StateReady, st_Endpoint := ''quack:127.0.0.1:9494''\<rparr>"

definition demo_live_diagnostics :: app_diagnostics where
  "demo_live_diagnostics = \<lparr>ad_engine = \<lparr>dg_duckdb_version = ''v1'', dg_endpoint = ''quack:127.0.0.1:9494'', dg_source_count = 1,
     dg_settings = []\<rparr>, ad_sources = [], ad_source_diagnostics = [\<lparr>sg_ID = ''warehouse'', sg_Health = ''ready'', sg_ReadOnly = True,
     sg_Warnings = [''role can write'']\<rparr>], ad_product_version = ''1'', ad_protocol_version = 2, ad_capabilities = [],
     ad_extension_versions = []\<rparr>"

definition demo_live_backend :: "(unit, app_diagnostics) backend" where
  "demo_live_backend = \<lparr>bk_Status = (\<lambda>_. demo_live_status), bk_Reload = (\<lambda>b. (None, b)), bk_pairing = None,
     bk_management = Some \<lparr>mb_Configuration = (\<lambda>b. (Inr empty_document, b)), mb_Diagnostics = (\<lambda>b. (Inr demo_live_diagnostics, b))\<rparr>\<rparr>"

lemma demo_live_plain: "plain_status demo_live_status" "plain_diagnostics demo_live_diagnostics"
proof -
  have "list_all ascii Capabilities" by code_simp
  then show "plain_status demo_live_status"
    by (auto simp: plain_status_def demo_live_status_def stopped_status_def ascii_utf8 list_all_iff byte_def)
  show "plain_diagnostics demo_live_diagnostics"
    by (simp add: plain_diagnostics_def demo_live_diagnostics_def ascii_utf8 byte_def)
qed

lemma demo_live_fits: "fits (success\<lparr>cs_Status := Some demo_live_status\<rparr>)" "fits (success\<lparr>cs_Diagnostics := Some demo_live_diagnostics\<rparr>)"
proof -
  let ?stamp = "''0001-01-01T00:00:00Z''"
  have z: "RFC3339 (started_at demo_live_status) = Some ?stamp"
    using RFC3339_zero by (simp add: started_at_def demo_live_status_def stopped_status_def)
  let ?y = "object_tree (status_members ?stamp demo_live_status)"
  let ?r = "success\<lparr>cs_Status := Some demo_live_status\<rparr> :: app_diagnostics control_response"
  have at: "status_at (Some demo_live_status) (Some ?y)" using z by (simp add: status_at_def)
  have j: "response_json ?r = Inr (flat (object_tree (response_members ?r (Some ?y) None None)))"
    using z by (simp add: response_json_def member_if_def status_json_def success_def response_members_def optional_def omitempty_tree_def
        json_object_def object_tree_flat)
  have "go_int control_version" by (simp add: go_int_def control_version_def)
  then have p: "plain_response ?r" using demo_live_plain by (simp add: plain_response_def success_def ascii_utf8)
  have s: "\<forall>(k, y) \<in> set (response_members ?r (Some ?y) None None). utf8 k \<and> sound y"
    by (rule response_sound [OF p, of _ _ "[]"]) (use at in \<open>simp_all add: success_def challenge_at_def configuration_at_def\<close>)
  have "length (flat (object_tree (response_members ?r (Some ?y) None None))) < 1000" by code_simp
  then show "fits ?r"
    by (intro fits_members [OF j s]) (use status_depth [of ?stamp demo_live_status] in
      \<open>simp_all add: response_members_def success_def optional_def omitempty_tree_def call_limit_def\<close>)
  let ?g = "success\<lparr>cs_Diagnostics := Some demo_live_diagnostics\<rparr> :: app_diagnostics control_response"
  have j2: "response_json ?g = Inr (flat (object_tree (response_members ?g None None None)))"
    by (simp add: response_json_def member_if_def success_def response_members_def optional_def omitempty_tree_def
        json_object_def object_tree_flat)
  have p2: "plain_response ?g"
    using demo_live_plain \<open>go_int control_version\<close> by (simp add: plain_response_def success_def ascii_utf8)
  have s2: "\<forall>(k, y) \<in> set (response_members ?g None None None). utf8 k \<and> sound y"
    by (rule response_sound [OF p2, of _ _ "[]"]) (simp_all add: success_def status_at_def challenge_at_def configuration_at_def)
  have "length (flat (object_tree (response_members ?g None None None))) < 1000" by code_simp
  then show "fits ?g"
    by (intro fits_members [OF j2 s2]) (use diagnostics_depth [of demo_live_diagnostics] in
      \<open>simp_all add: response_members_def success_def optional_def omitempty_tree_def call_limit_def\<close>)
qed

section \<open>The protocol from end to end\<close>

text \<open>C29. What the client of the management protocol gets is what the server dispatched.  A request that Call encodes always
  gets a response, with the payload of its operation; when it is a response of texts in UTF-8 that the encoder can write,
  within the client's limit of one mebibyte and the decoder's depth, Call returns it: the same status to the nanosecond, the same
  challenge, code and message, the same document up to the layout of its options, the same values of the diagnostics.  When it
  cannot be encoded, Call is an error, although the request has been served.\<close>

theorem Call_reads_response:
  assumes "plain_request rq" and "length (encode_request rq) < request_limit"
  shows "\<exists>r b'. dispatch bk rq b = Some (r, b') \<and> well_formed (cr_Operation rq) r \<and>
    (plain_response r \<and> fits r \<longrightarrow> (\<exists>r'. control_Call slow (connected bk) address rq b = (Inr r', b') \<and> same_response r r')) \<and>
    (\<forall>e. response_json r = Inl e \<longrightarrow> (\<exists>e'. control_Call slow (connected bk) address rq b = (Inl e', b')))"
proof -
  obtain r b' where d: "dispatch bk rq b = Some (r, b')" "well_formed (cr_Operation rq) r" using dispatch_total [of bk rq b] by blast
  show ?thesis
    using d Call_dispatched [OF assms d(1), of slow address] Call_unencodable [OF assms d(1), of _ slow address] by blast
qed

theorem Call_reads_response_witness:
  "\<exists>r'. control_Call (\<lambda>_. None) (connected demo_live_backend) ''/run/quackridge.sock'' (control_request_of ''status'') () = (Inr r', ()) \<and>
    cs_OK r' \<and> cs_Status r' = Some demo_live_status"
proof -
  let ?r = "success\<lparr>cs_Status := Some demo_live_status\<rparr> :: app_diagnostics control_response"
  have "dispatch demo_live_backend (control_request_of ''status'') () = Some (?r, ())"
    by (simp add: dispatch_def control_request_of_def with_status_def demo_live_backend_def)
  moreover have "go_int control_version" by (simp add: go_int_def control_version_def)
  then have "plain_response ?r" using demo_live_plain by (simp add: plain_response_def success_def ascii_utf8)
  ultimately obtain r' where "control_Call (\<lambda>_. None) (connected demo_live_backend) ''/run/quackridge.sock'' (control_request_of ''status'') () = (Inr r', ())"
    "same_response ?r r'"
    using Call_reads_response [OF asked_plain(1,3), of demo_live_backend "()" "\<lambda>_. None" "''/run/quackridge.sock''"] demo_live_fits(1) by auto
  then show ?thesis by (simp add: same_response_def success_def)
qed

text \<open>C34. The live checks of the diagnostics judge the daemon, not the wire: against a server over any backend that can be asked for
  diagnostics, through both sides' JSON, they report no error exactly when the endpoint of the status is a loopback address
  and every source the backend reports has an id, is ready and carries no empty warning.\<close>

theorem doctor_judges_daemon:
  assumes "dh_call host = control_Call slow (connected bk)" and "address \<noteq> ''''"
    and "bk_management bk = Some m" and "mb_Diagnostics m b = (Inr g, b')"
    and "plain_status (bk_Status bk b)" and "plain_diagnostics g"
    and "fits (success\<lparr>cs_Status := Some (bk_Status bk b)\<rparr>)" and "fits (success\<lparr>cs_Diagnostics := Some g\<rparr>)"
  shows "(\<forall>x \<in> set (fst (checkDaemon host address b)). ck_Level x \<noteq> LevelError) \<longleftrightarrow>
    loopbackEndpoint (st_Endpoint (bk_Status bk b)) \<and> (\<forall>s \<in> set (ad_source_diagnostics g). ready_source s)"
  using checkDaemon_iff [of host address b] doctor_live [OF assms] by (auto simp: list_ex_iff)

theorem doctor_judges_daemon_witness:
  "\<exists>host :: (environment, unit) doctor_host. dh_call host = control_Call (\<lambda>_. None) (connected demo_live_backend) \<and>
    list_all (\<lambda>x. ck_Level x \<noteq> LevelError) (fst (checkDaemon host ''/run/quackridge.sock'' ()))"
proof -
  let ?host = "\<lparr>dh_oracle = quiet_oracle, dh_stat = (\<lambda>_. Inl (Sentinel ErrNotExist)), dh_windows = False,
     dh_file = (\<lambda>_. Inl (Sentinel ErrNotExist)), dh_order = rev, dh_system = Inl (Plain ''no secret service''),
     dh_environment = environment_ops '''', dh_call = control_Call (\<lambda>_. None) (connected demo_live_backend), dh_socket = (\<lambda>_. True)\<rparr>"
  have "bk_Status demo_live_backend () = demo_live_status" by (simp add: demo_live_backend_def)
  moreover have "bk_management demo_live_backend = Some \<lparr>mb_Configuration = (\<lambda>b. (Inr empty_document, b)),
      mb_Diagnostics = (\<lambda>b. (Inr demo_live_diagnostics, b))\<rparr>" by (simp add: demo_live_backend_def)
  ultimately have "(\<forall>x \<in> set (fst (checkDaemon ?host ''/run/quackridge.sock'' ())). ck_Level x \<noteq> LevelError) \<longleftrightarrow>
      loopbackEndpoint (st_Endpoint demo_live_status) \<and> (\<forall>s \<in> set (ad_source_diagnostics demo_live_diagnostics). ready_source s)"
    using doctor_judges_daemon [of ?host "\<lambda>_. None" demo_live_backend "''/run/quackridge.sock''" _ "()" demo_live_diagnostics "()"]
      demo_live_plain demo_live_fits by simp
  moreover have "loopbackEndpoint (st_Endpoint demo_live_status)" using demo_endpoint by (simp add: demo_live_status_def)
  moreover have "\<forall>s \<in> set (ad_source_diagnostics demo_live_diagnostics). ready_source s"
    by (simp add: demo_live_diagnostics_def ready_source_def)
  ultimately show ?thesis by (intro exI [of _ ?host]) (simp add: list_all_iff)
qed

end
