(* ===== verification/Cli.thy ===== *)
theory Cli
  imports Daemon Doctor
begin

text \<open>
  The command line (internal/cli/cli.go, cmd/quackridge): the flags as package flag reads them, the commands over the
  disk, the credential store and the daemon, and the exit status.  A command gives its error, what it prints, and the
  world it leaves.  Of what the process prints on standard error only the error is kept, not what package flag and
  prompts print.
\<close>

section \<open>Flags\<close>

text \<open>A flag of a set: whether it needs no value, and how a value is stored.\<close>

record 'v flag_def =
  fl_bool :: bool
  fl_set :: "string \<Rightarrow> 'v \<Rightarrow> 'v res"

definition cut_byte :: "char \<Rightarrow> string \<Rightarrow> (string \<times> string) option" where
  "cut_byte c s = (if c \<in> set s then Some (takeWhile (\<lambda>x. x \<noteq> c) s, tl (dropWhile (\<lambda>x. x \<noteq> c) s)) else None)"

definition flag_invalid :: "string \<Rightarrow> string \<Rightarrow> go_error \<Rightarrow> go_error" where
  "flag_invalid name v e = Wrap (''invalid value '' @ quoted v @ '' for flag -'' @ name) e"

definition flag_step ::
  "(string \<times> 'v flag_def) list \<Rightarrow> string list \<Rightarrow> 'v \<Rightarrow> (go_error + bool \<times> 'v) \<times> string list" where
  "flag_step defs args x = (case args of [] \<Rightarrow> (Inr (False, x), [])
   | s # rest \<Rightarrow>
     if length s < 2 \<or> hd s \<noteq> CHR ''-'' then (Inr (False, x), args)
     else if s = ''--'' then (Inr (False, x), rest)
     else
       let name = (if s ! 1 = CHR ''-'' then drop 2 s else drop 1 s) in
       if name = [] \<or> hd name = CHR ''-'' \<or> hd name = CHR ''='' then (Inl (Plain (''bad flag syntax: '' @ s)), args)
       else let (name, v) = (case cut_byte CHR ''='' name of None \<Rightarrow> (name, None) | Some (n, v) \<Rightarrow> (n, Some v)) in
       case map_of defs name of
         None \<Rightarrow> (Inl (if name = ''help'' \<or> name = ''h'' then Plain ''flag: help requested''
           else Plain (''flag provided but not defined: -'' @ name)), rest)
       | Some d \<Rightarrow>
         let store = (\<lambda>v rest. (case fl_set d v x of Inl e \<Rightarrow> (Inl (flag_invalid name v e), rest)
               | Inr y \<Rightarrow> (Inr (True, y), rest))) in
         if fl_bool d then store (case v of Some v \<Rightarrow> v | None \<Rightarrow> ''true'') rest
         else (case (v, rest) of
             (Some v, _) \<Rightarrow> store v rest
           | (None, v # rest') \<Rightarrow> store v rest'
           | (None, []) \<Rightarrow> (Inl (Plain (''flag needs an argument: -'' @ name)), rest)))"

lemma flag_step_shorter: "flag_step defs args x = (Inr (True, y), args') \<Longrightarrow> length args' < length args"
  by (auto simp: flag_step_def Let_def split: list.splits if_splits option.splits prod.splits sum.splits)

text \<open>\<open>FlagSet.Parse\<close> with the error returned: the value and the arguments that are left.\<close>

function parse_flags :: "(string \<times> 'v flag_def) list \<Rightarrow> string list \<Rightarrow> 'v \<Rightarrow> ('v \<times> string list) res" where
  "parse_flags defs args x = (case flag_step defs args x of
     (Inl e, _) \<Rightarrow> Inl e
   | (Inr (seen, y), args') \<Rightarrow> if seen then parse_flags defs args' y else Inr (y, args'))"
  by pat_completeness auto
termination
  by (relation "measure (\<lambda>(defs, args, x). length args)") (auto dest: flag_step_shorter [OF sym] flag_step_shorter)

declare parse_flags.simps [simp del]

definition text_flag :: "(string \<Rightarrow> 'v \<Rightarrow> 'v) \<Rightarrow> 'v flag_def" where
  "text_flag upd = \<lparr>fl_bool = False, fl_set = (\<lambda>v x. Inr (upd v x))\<rparr>"

text \<open>\<open>strconv.ParseBool\<close>.\<close>

definition ParseBool :: "string \<Rightarrow> bool option" where
  "ParseBool s = (if s \<in> {''1'', ''t'', ''T'', ''true'', ''TRUE'', ''True''} then Some True
     else if s \<in> {''0'', ''f'', ''F'', ''false'', ''FALSE'', ''False''} then Some False else None)"

definition bool_flag :: "(bool \<Rightarrow> 'v \<Rightarrow> 'v) \<Rightarrow> 'v flag_def" where
  "bool_flag upd = \<lparr>fl_bool = True, fl_set = (\<lambda>v x. case ParseBool v of None \<Rightarrow> Inl (Plain ''parse error'')
     | Some b \<Rightarrow> Inr (upd b x))\<rparr>"

text \<open>\<open>strconv.ParseInt\<close> with the base given by the prefix, of 64 bits.\<close>

definition digit_value :: "char \<Rightarrow> nat option" where
  "digit_value c =
     (if is_digit_byte c then Some (byte c - 48)
      else if is_lower_byte c then Some (byte c - 87)
      else if is_upper_byte c then Some (byte c - 55) else None)"

definition number_base :: "string \<Rightarrow> nat \<times> string" where
  "number_base s = (case s of
     z # p # q # r \<Rightarrow>
       if z \<noteq> CHR ''0'' then (10, s)
       else if p = CHR ''b'' \<or> p = CHR ''B'' then (2, q # r) else if p = CHR ''o'' \<or> p = CHR ''O'' then (8, q # r)
       else if p = CHR ''x'' \<or> p = CHR ''X'' then (16, q # r) else (8, p # q # r)
   | z # r \<Rightarrow> if z = CHR ''0'' then (8, r) else (10, s)
   | [] \<Rightarrow> (10, s))"

text \<open>An underscore stands between two digits, or after the prefix.\<close>

fun underscores_between :: "bool \<Rightarrow> char \<Rightarrow> string \<Rightarrow> bool" where
  "underscores_between hex saw [] \<longleftrightarrow> saw \<noteq> CHR ''_''"
| "underscores_between hex saw (c # cs) \<longleftrightarrow>
     (if is_digit_byte c \<or> hex \<and> hex_value c \<noteq> None then underscores_between hex CHR ''0'' cs
      else if c = CHR ''_'' then saw = CHR ''0'' \<and> underscores_between hex CHR ''_'' cs
      else saw \<noteq> CHR ''_'' \<and> underscores_between hex CHR ''!'' cs)"

definition underscoreOK :: "string \<Rightarrow> bool" where
  "underscoreOK s = (case s of
     z # p # r \<Rightarrow>
       if z = CHR ''0'' \<and> List.member ''bBoOxX'' p then underscores_between (p = CHR ''x'' \<or> p = CHR ''X'') CHR ''0'' r
       else underscores_between False CHR ''^'' s
   | _ \<Rightarrow> underscores_between False CHR ''^'' s)"

definition unsigned_value :: "string \<Rightarrow> nat option" where
  "unsigned_value s = (case number_base s of (base, body) \<Rightarrow>
     let ds = map digit_value (filter (\<lambda>c. c \<noteq> CHR ''_'') body) in
     if s = [] \<or> list_ex (\<lambda>d. case d of None \<Rightarrow> True | Some n \<Rightarrow> base \<le> n) ds \<or>
        CHR ''_'' \<in> set s \<and> \<not> underscoreOK s then None
     else Some (foldl (\<lambda>n d. n * base + the d) 0 ds))"

definition ParseInt0 :: "string \<Rightarrow> int option" where
  "ParseInt0 s = (let neg = has_prefix ''-'' s; t = (if neg \<or> has_prefix ''+'' s then tl s else s)
     in case unsigned_value t of None \<Rightarrow> None
     | Some n \<Rightarrow> if neg then (if n \<le> 2 ^ 63 then Some (- int n) else None)
         else if n < 2 ^ 63 then Some (int n) else None)"

definition int_flag :: "(int \<Rightarrow> 'v \<Rightarrow> 'v) \<Rightarrow> 'v flag_def" where
  "int_flag upd = \<lparr>fl_bool = False, fl_set = (\<lambda>v x. case ParseInt0 v of None \<Rightarrow> Inl (Plain ''parse error'')
     | Some i \<Rightarrow> Inr (upd i x))\<rparr>"

section \<open>The flags of a source\<close>

record source_flags =
  sf_sourceType :: string
  sf_configPath :: string
  sf_id :: string
  sf_name :: string
  sf_alias :: string
  sf_host :: string
  sf_database :: string
  sf_user :: string
  sf_sslMode :: string
  sf_rootCertRef :: string
  sf_path :: string
  sf_dsn :: string
  sf_driver :: string
  sf_databaseType :: string
  sf_properties :: "(string \<times> string) list"
  sf_port :: int
  sf_passwordStdin :: bool
  sf_jsonOutput :: bool

text \<open>\<open>stringMapFlag.Set\<close>.\<close>

definition property_flag :: "((string \<times> string) list \<Rightarrow> 'v \<Rightarrow> 'v) \<Rightarrow> ('v \<Rightarrow> (string \<times> string) list) \<Rightarrow> 'v flag_def" where
  "property_flag upd sel = \<lparr>fl_bool = False, fl_set = (\<lambda>raw x. case cut_byte CHR ''='' raw of
       None \<Rightarrow> Inl (Plain ''property must use key=value'')
     | Some (key, v) \<Rightarrow> if key = '''' then Inl (Plain ''property must use key=value'')
         else Inr (upd (AList.update key v (sel x)) x))\<rparr>"

definition source_flag_set :: "(string \<times> source_flags flag_def) list" where
  "source_flag_set =
    [(''config'', text_flag (\<lambda>v. sf_configPath_update (\<lambda>_. v))), (''id'', text_flag (\<lambda>v. sf_id_update (\<lambda>_. v))),
     (''name'', text_flag (\<lambda>v. sf_name_update (\<lambda>_. v))), (''alias'', text_flag (\<lambda>v. sf_alias_update (\<lambda>_. v))),
     (''host'', text_flag (\<lambda>v. sf_host_update (\<lambda>_. v))), (''port'', int_flag (\<lambda>v. sf_port_update (\<lambda>_. v))),
     (''database'', text_flag (\<lambda>v. sf_database_update (\<lambda>_. v))), (''user'', text_flag (\<lambda>v. sf_user_update (\<lambda>_. v))),
     (''ssl-mode'', text_flag (\<lambda>v. sf_sslMode_update (\<lambda>_. v))),
     (''root-certificate-ref'', text_flag (\<lambda>v. sf_rootCertRef_update (\<lambda>_. v))),
     (''path'', text_flag (\<lambda>v. sf_path_update (\<lambda>_. v))), (''dsn'', text_flag (\<lambda>v. sf_dsn_update (\<lambda>_. v))),
     (''driver'', text_flag (\<lambda>v. sf_driver_update (\<lambda>_. v))),
     (''database-type'', text_flag (\<lambda>v. sf_databaseType_update (\<lambda>_. v))),
     (''property'', property_flag (\<lambda>m. sf_properties_update (\<lambda>_. m)) sf_properties),
     (''password-stdin'', bool_flag (\<lambda>b. sf_passwordStdin_update (\<lambda>_. b))),
     (''json'', bool_flag (\<lambda>b. sf_jsonOutput_update (\<lambda>_. b)))]"

definition source_types :: "string list" where
  "source_types = [''postgres'', ''mysql'', ''sqlite'', ''duckdb'', ''odbc'']"

definition default_flags :: "string \<Rightarrow> string \<Rightarrow> source_flags" where
  "default_flags sourceType path = \<lparr>sf_sourceType = sourceType, sf_configPath = path, sf_id = '''', sf_name = '''',
     sf_alias = '''', sf_host = '''', sf_database = '''', sf_user = '''',
     sf_sslMode = (if sourceType = ''mysql'' then ''preferred'' else ''require''), sf_rootCertRef = '''', sf_path = '''',
     sf_dsn = '''', sf_driver = '''', sf_databaseType = '''', sf_properties = [],
     sf_port = (if sourceType = ''mysql'' then 3306 else 5432), sf_passwordStdin = False, sf_jsonOutput = False\<rparr>"

definition parseSourceFlags :: "string res \<Rightarrow> string list \<Rightarrow> source_flags res" where
  "parseSourceFlags defaultPath args = (case args of
     [] \<Rightarrow> Inl (Plain ''source type must be postgres, mysql, sqlite, duckdb, or odbc'')
   | sourceType # args \<Rightarrow>
     if \<not> List.member source_types sourceType
     then Inl (Plain ''source type must be postgres, mysql, sqlite, duckdb, or odbc'')
     else case defaultPath of Inl e \<Rightarrow> Inl e
     | Inr path \<Rightarrow> (case parse_flags source_flag_set args (default_flags sourceType path) of
         Inl e \<Rightarrow> Inl e
       | Inr (values, rest) \<Rightarrow> if rest \<noteq> [] then Inl (Plain ''unexpected source arguments'') else Inr values))"

section \<open>The machine and the world\<close>

text \<open>Standard input: what reading it gives, and what the terminal answers to a prompt when it is one.\<close>

record stdin =
  in_Bytes :: file_bytes
  in_Terminal :: "string res option"

type_synonym 'w command = "'w \<Rightarrow> (go_error option \<times> string) \<times> 'w"

type_synonym ('s, 'd) cli_world = "disk \<times> 's \<times> 'd"

text \<open>The doctor's host holds what the commands share.  The validators dial and look at files through \<open>ch_env\<close>.
  Times and structs with times are printed by \<open>ch_time\<close>, \<open>ch_status_json\<close> and \<open>ch_challenge_json\<close>; \<open>ch_ttl\<close> is the duration
  flag in whole seconds.  The serve command is composed in theory Daemon.\<close>

record ('s, 'd) cli_host =
  ch_doctor :: "('s, 'd) doctor_host"
  ch_configPath :: "string res"
  ch_controlAddress :: "string res"
  ch_extensionDir :: string
  ch_stdin :: stdin
  ch_env :: env
  ch_dialed :: eworld
  ch_exchange :: "string \<Rightarrow> http_request \<Rightarrow> 'd \<Rightarrow> http_response res \<times> 'd"
  ch_ttl :: "string \<Rightarrow> int option"
  ch_time :: "int \<Rightarrow> string"
  ch_status_json :: "status \<Rightarrow> string"
  ch_challenge_json :: "challenge \<Rightarrow> string"
  ch_report_json :: "report \<Rightarrow> string"
  ch_serve :: "string list \<Rightarrow> ('s, 'd) cli_world command"

definition line :: "string \<Rightarrow> string" where "line s = s @ [CHR 0x0A]"

definition tab :: string where "tab = [CHR 0x09]"

text \<open>A path that cannot be found is dropped where the code drops the error.\<close>

definition or_empty :: "string res \<Rightarrow> string" where
  "or_empty r = (case r of Inl _ \<Rightarrow> '''' | Inr v \<Rightarrow> v)"

section \<open>version\<close>

definition cli_version :: "string list \<Rightarrow> go_error option \<times> string" where
  "cli_version args = (case parse_flags [(''json'', bool_flag (\<lambda>b _. b))] args False of
     Inl e \<Rightarrow> (Some e, '''')
   | Inr (jsonOutput, _) \<Rightarrow> (None,
       if jsonOutput then line (json_object [(''capabilities'', json_strings Capabilities),
         (''duckdb_version'', encode_string DuckDBVersion), (''product'', encode_string Product),
         (''product_version'', encode_string Version), (''protocol_version'', itoa ProtocolVersion)])
       else line (''QuackRidge '' @ Version @ '' (DuckDB '' @ DuckDBVersion @ '', protocol '' @ itoa ProtocolVersion @ '')'')))"

section \<open>source add and test\<close>

definition password_limit :: nat where "password_limit = 16384"

definition trim_line_end :: "string \<Rightarrow> string" where
  "trim_line_end s = rev (dropWhile (\<lambda>c. c = CHR 0x0D \<or> c = CHR 0x0A) (rev s))"

definition readPassword :: "stdin \<Rightarrow> bool \<Rightarrow> string res" where
  "readPassword input fromStdin =
     (if fromStdin then
        (let bytes = fb_Bytes (in_Bytes input); v = trim_line_end (take password_limit bytes) in
         if (length bytes < password_limit \<and> fb_Error (in_Bytes input) \<noteq> None) \<or> v = ''''
         then Inl (Plain ''password is required on standard input'') else Inr v)
      else case in_Terminal input of
        None \<Rightarrow> Inl (Plain ''use --password-stdin when standard input is not a terminal'')
      | Some (Inl _) \<Rightarrow> Inl (Plain ''read database password'')
      | Some (Inr v) \<Rightarrow> if v = '''' then Inl (Plain ''read database password'') else Inr v)"

definition needs_password :: "source_flags \<Rightarrow> bool" where
  "needs_password v \<longleftrightarrow> sf_sourceType v = ''postgres'' \<or> sf_sourceType v = ''mysql'' \<or>
     (sf_sourceType v = ''odbc'' \<and> (sf_user v \<noteq> '''' \<or> sf_passwordStdin v))"

definition omitempty :: "string \<Rightarrow> string \<Rightarrow> (string \<times> string) list" where
  "omitempty name v = (if v = '''' then [] else [(name, encode_string v)])"

definition json_string_map :: "(string \<times> string) list \<Rightarrow> string" where
  "json_string_map m = json_object (map (\<lambda>key. (key, encode_string (the (map_of m key)))) (sorted_keys m))"

definition postgres_json :: "postgres_config \<Rightarrow> string" where
  "postgres_json c = json_object ([(''host'', encode_string (pg_Host c)), (''port'', itoa (pg_Port c)),
     (''database'', encode_string (pg_Database c)), (''user'', encode_string (pg_User c)),
     (''ssl_mode'', encode_string (pg_SSLMode c))] @ omitempty ''root_certificate_ref'' (pg_RootCertRef c) @
     (if pg_Options c = [] then [] else [(''options'', json_string_map (pg_Options c))]))"

definition mysql_json :: "mysql_config \<Rightarrow> string" where
  "mysql_json c = json_object [(''host'', encode_string (my_Host c)), (''port'', itoa (my_Port c)),
     (''database'', encode_string (my_Database c)), (''user'', encode_string (my_User c)),
     (''ssl_mode'', encode_string (my_SSLMode c))]"

definition file_json :: "string \<Rightarrow> string" where
  "file_json path = json_object [(''path'', encode_string path)]"

definition odbc_json :: "odbc_config \<Rightarrow> string" where
  "odbc_json c = json_object (omitempty ''dsn'' (oc_DSN c) @ omitempty ''driver'' (oc_Driver c) @
     (if oc_Properties c = [] then [] else [(''properties'', json_string_map (oc_Properties c))]) @
     [(''database_type'', encode_string (oc_DatabaseType c))])"

definition odbc_credential_json :: "odbc_credential \<Rightarrow> string" where
  "odbc_credential_json c = json_object (omitempty ''username'' (ocr_Username c) @ omitempty ''password'' (ocr_Password c))"

text \<open>The configurations that the flags describe.\<close>

definition postgres_of :: "source_flags \<Rightarrow> postgres_config" where
  "postgres_of v = \<lparr>pg_Host = sf_host v, pg_Port = sf_port v, pg_Database = sf_database v, pg_User = sf_user v,
     pg_SSLMode = sf_sslMode v, pg_RootCertRef = sf_rootCertRef v, pg_Options = []\<rparr>"

definition mysql_of :: "source_flags \<Rightarrow> mysql_config" where
  "mysql_of v = \<lparr>my_Host = sf_host v, my_Port = sf_port v, my_Database = sf_database v, my_User = sf_user v,
     my_SSLMode = sf_sslMode v\<rparr>"

definition source_database_type :: "source_flags \<Rightarrow> string" where
  "source_database_type v = (let t = sf_sourceType v in
     if t = ''postgres'' then ''postgres'' else if t = ''mysql'' then sf_databaseType v
     else if t = ''sqlite'' \<or> t = ''duckdb'' then t
     else if sf_databaseType v = '''' then ''odbc'' else sf_databaseType v)"

definition odbc_of :: "source_flags \<Rightarrow> odbc_config" where
  "odbc_of v = \<lparr>oc_DSN = sf_dsn v, oc_Driver = sf_driver v, oc_Properties = sf_properties v,
     oc_DatabaseType = source_database_type v\<rparr>"

definition source_options :: "source_flags \<Rightarrow> string" where
  "source_options v = (let t = sf_sourceType v in
     if t = ''postgres'' then postgres_json (postgres_of v) else if t = ''mysql'' then mysql_json (mysql_of v)
     else if t = ''sqlite'' \<or> t = ''duckdb'' then file_json (sf_path v) else odbc_json (odbc_of v))"

text \<open>The password, or for ODBC the user and the password; empty when none was read.\<close>

definition source_credential :: "source_flags \<Rightarrow> string \<Rightarrow> string" where
  "source_credential v password =
     (if sf_sourceType v = ''odbc'' \<and> password \<noteq> ''''
      then odbc_credential_json \<lparr>ocr_Username = sf_user v, ocr_Password = password\<rparr> else password)"

definition configured_source :: "source_flags \<Rightarrow> string \<Rightarrow> config_source" where
  "configured_source v credential = \<lparr>cf_ID = sf_id v, cf_Name = sf_name v, cf_Alias = sf_alias v,
     cf_Type = sf_sourceType v, cf_DatabaseType = source_database_type v, cf_Enabled = True,
     cf_CredentialRef = (if credential \<noteq> '''' then ''quackridge/source/'' @ sf_id v else ''''),
     cf_Options = source_options v\<rparr>"

text \<open>The validators: the adapters without an engine, on the decoded options.\<close>

definition postgresValidator :: "env \<Rightarrow> eworld \<Rightarrow> validator" where
  "postgresValidator env w c credential = (case decode_struct postgres_setters zero_postgres (cf_Options c) of
     Inl e \<Rightarrow> Some e
   | Inr options \<Rightarrow> fst (postgres_Validate env options \<lparr>pc_Password = credential, pc_RootCertificatePath = ''''\<rparr>
       (definition_of c) w))"

definition mysqlValidator :: "env \<Rightarrow> eworld \<Rightarrow> validator" where
  "mysqlValidator env w c credential = (case decode_lenient mysql_setters zero_mysql (cf_Options c) of
     Inl e \<Rightarrow> Some e | Inr options \<Rightarrow> fst (mysql_Validate env options (definition_of c) w))"

definition fileValidator :: "env \<Rightarrow> eworld \<Rightarrow> string \<Rightarrow> validator" where
  "fileValidator env w connector c credential = (case decode_lenient [(''path'', set_string (\<lambda>x _. x))] '''' (cf_Options c) of
     Inl e \<Rightarrow> Some e | Inr path \<Rightarrow> fst (filedb_Validate env connector path (definition_of c) w))"

definition odbcValidator :: "eworld \<Rightarrow> validator" where
  "odbcValidator w c credential = (case decode_lenient odbc_setters zero_odbc (cf_Options c) of
     Inl e \<Rightarrow> Some e
   | Inr options \<Rightarrow> (case DecodeCredential credential of Inl e \<Rightarrow> Some e
       | Inr decoded \<Rightarrow> fst (odbc_Validate options (definition_of c) w)))"

definition source_validator :: "env \<Rightarrow> eworld \<Rightarrow> string \<Rightarrow> validator" where
  "source_validator env w t =
     (if t = ''postgres'' then postgresValidator env w else if t = ''mysql'' then mysqlValidator env w
      else if t = ''sqlite'' \<or> t = ''duckdb'' then fileValidator env w t else odbcValidator w)"

definition added_text :: "source_flags \<Rightarrow> bool \<Rightarrow> string" where
  "added_text v persist = line
     (if sf_jsonOutput v then json_object [(''ok'', ''true''), (''persisted'', if persist then ''true'' else ''false''),
        (''source_id'', encode_string (sf_id v))]
      else ''source '' @ sf_id v @ '' '' @ (if persist then ''added'' else ''validated''))"

definition sourceAdd :: "('s, 'd) cli_host \<Rightarrow> string list \<Rightarrow> bool \<Rightarrow> ('s, 'd) cli_world command" where
  "sourceAdd host args persist w = (case w of (dk, s, d) \<Rightarrow>
     case parseSourceFlags (ch_configPath host) args of Inl e \<Rightarrow> ((Some e, ''''), w)
   | Inr v \<Rightarrow>
     case (if needs_password v then readPassword (ch_stdin host) (sf_passwordStdin v) else Inr '''') of
       Inl e \<Rightarrow> ((Some e, ''''), w)
     | Inr password \<Rightarrow>
       let credential = source_credential v password; configured = configured_source v credential;
           orc = dh_oracle (ch_doctor host); path = sf_configPath v;
           validator = Some (source_validator (ch_env host) (ch_dialed host) (sf_sourceType v)) in
       if persist then
         (case (if cf_CredentialRef configured = '''' then Inr None else map_sum id Some (dh_system (ch_doctor host))) of
            Inl e \<Rightarrow> ((Some e, ''''), w)
          | Inr store \<Rightarrow> (case config_Add orc path store validator configured credential (dk, s) of
              (Some e, dk, s) \<Rightarrow> ((Some e, ''''), (dk, s, d))
            | (None, dk, s) \<Rightarrow> ((None, added_text v persist), (dk, s, d))))
       else (case config_Test orc path validator configured credential dk of
              (Some e, dk) \<Rightarrow> ((Some e, ''''), (dk, s, d))
            | (None, dk) \<Rightarrow> ((None, added_text v persist), (dk, s, d))))"

section \<open>source list and remove\<close>

record path_flags =
  pf_path :: string
  pf_json :: bool

definition path_flag_set :: "string \<Rightarrow> (string \<times> path_flags flag_def) list" where
  "path_flag_set name = [(name, text_flag (\<lambda>v. pf_path_update (\<lambda>_. v))), (''json'', bool_flag (\<lambda>b. pf_json_update (\<lambda>_. b)))]"

definition source_line :: "config_source \<Rightarrow> string" where
  "source_line c = line (join tab [cf_ID c, cf_Type c, cf_Alias c, if cf_Enabled c then ''true'' else ''false''])"

definition sourceList :: "('s, 'd) cli_host \<Rightarrow> string list \<Rightarrow> ('s, 'd) cli_world command" where
  "sourceList host args w = (case w of (dk, s, d) \<Rightarrow>
     case parse_flags (path_flag_set ''config'') args \<lparr>pf_path = or_empty (ch_configPath host), pf_json = False\<rparr> of
       Inl e \<Rightarrow> ((Some e, ''''), w)
     | Inr (v, _) \<Rightarrow> (case Load (dh_oracle (ch_doctor host)) (pf_path v) dk of
         (Inl e, dk) \<Rightarrow> ((Some e, ''''), (dk, s, d))
       | (Inr document, dk) \<Rightarrow>
           ((if pf_json v then (case doc_Sources document of None \<Rightarrow> (None, line ''null'')
               | Some cs \<Rightarrow> (case encode_sources cs of Inl e \<Rightarrow> (Some e, '''')
                   | Inr ts \<Rightarrow> (None, line (json_array ts))))
             else (None, concat (map source_line (sources_of document)))), (dk, s, d))))"

text \<open>The system store is opened when a source of the id given has a credential.\<close>

definition sourceRemove :: "('s, 'd) cli_host \<Rightarrow> string list \<Rightarrow> ('s, 'd) cli_world command" where
  "sourceRemove host args w = (case w of (dk, s, d) \<Rightarrow>
     case parse_flags (path_flag_set ''config'') args \<lparr>pf_path = or_empty (ch_configPath host), pf_json = False\<rparr> of
       Inl e \<Rightarrow> ((Some e, ''''), w)
     | Inr (v, rest) \<Rightarrow> (case rest of
         [i] \<Rightarrow> (case Load (dh_oracle (ch_doctor host)) (pf_path v) dk of
             (Inl e, dk) \<Rightarrow> ((Some e, ''''), (dk, s, d))
           | (Inr document, dk) \<Rightarrow>
               (case (if list_ex (\<lambda>c. cf_ID c = i \<and> cf_CredentialRef c \<noteq> '''') (sources_of document)
                      then map_sum id Some (dh_system (ch_doctor host)) else Inr None) of
                  Inl e \<Rightarrow> ((Some e, ''''), (dk, s, d))
                | Inr store \<Rightarrow> (case config_Remove (dh_oracle (ch_doctor host)) (pf_path v) store i (dk, s) of
                    (Some e, dk, s) \<Rightarrow> ((Some e, ''''), (dk, s, d))
                  | (None, dk, s) \<Rightarrow> ((None, line (if pf_json v
                      then json_object [(''ok'', ''true''), (''source_id'', encode_string i)]
                      else ''source '' @ i @ '' removed'')), (dk, s, d)))))
       | _ \<Rightarrow> ((Some (Plain ''usage: quackridge source remove <source-id>''), ''''), w)))"

definition source_usage :: go_error where
  "source_usage = Plain ''usage: quackridge source <add|list|test|remove>''"

definition cli_source :: "('s, 'd) cli_host \<Rightarrow> string list \<Rightarrow> ('s, 'd) cli_world command" where
  "cli_source host args w = (case args of
     [] \<Rightarrow> ((Some source_usage, ''''), w)
   | sub # args \<Rightarrow>
       if sub = ''add'' then sourceAdd host args True w else if sub = ''test'' then sourceAdd host args False w
       else if sub = ''list'' then sourceList host args w else if sub = ''remove'' then sourceRemove host args w
       else ((Some source_usage, ''''), w))"

section \<open>pair\<close>

record pair_flags =
  pp_control :: string
  pp_json :: bool
  pp_manual :: bool
  pp_ttl :: int
  pp_origins :: "string list"

definition origin_flag :: "pair_flags flag_def" where
  "origin_flag = \<lparr>fl_bool = False, fl_set = (\<lambda>v x. Inr (x\<lparr>pp_origins := pp_origins x @ [v]\<rparr>))\<rparr>"

definition pair_flag_set :: "(string \<Rightarrow> int option) \<Rightarrow> (string \<times> pair_flags flag_def) list" where
  "pair_flag_set ttl = [(''control'', text_flag (\<lambda>v. pp_control_update (\<lambda>_. v))),
     (''json'', bool_flag (\<lambda>b. pp_json_update (\<lambda>_. b))), (''manual'', bool_flag (\<lambda>b. pp_manual_update (\<lambda>_. b))),
     (''ttl'', \<lparr>fl_bool = False, fl_set = (\<lambda>v x. case ttl v of None \<Rightarrow> Inl (Plain ''parse error'')
        | Some n \<Rightarrow> Inr (x\<lparr>pp_ttl := n\<rparr>))\<rparr>), (''origin'', origin_flag)]"

text \<open>The error of a refused request; its text is the code and message of the response.\<close>

definition refused :: "'a control_response \<Rightarrow> go_error" where
  "refused r = Plain (if cs_Message r = '''' then cs_ErrorCode r else cs_ErrorCode r @ '': '' @ cs_Message r)"

definition cli_pair :: "('s, 'd) cli_host \<Rightarrow> string list \<Rightarrow> ('s, 'd) cli_world command" where
  "cli_pair host args w = (case w of (dk, s, d) \<Rightarrow>
     case parse_flags (pair_flag_set (ch_ttl host)) args
       \<lparr>pp_control = or_empty (ch_controlAddress host), pp_json = False, pp_manual = False, pp_ttl = 120,
        pp_origins = [''https://app.pondpilot.io'']\<rparr> of
       Inl e \<Rightarrow> ((Some e, ''''), w)
     | Inr (v, _) \<Rightarrow>
       (case dh_call (ch_doctor host) (pp_control v)
           ((control_request_of ''pair'')\<lparr>cr_Origins := pp_origins v, cr_TTLSeconds := pp_ttl v\<rparr>) d of
          (Inl e, d) \<Rightarrow> ((Some e, ''''), (dk, s, d))
        | (Inr answer, d) \<Rightarrow>
            if \<not> cs_OK answer \<or> cs_Pairing answer = None then ((Some (refused answer), ''''), (dk, s, d))
            else let c = the (cs_Pairing answer) in
              if pp_manual v then
                (case consumePairing (ch_exchange host) c (hd (pp_origins v)) d of
                   (Inl e, d) \<Rightarrow> ((Some e, ''''), (dk, s, d))
                 | (Inr answered, d) \<Rightarrow> ((None, line (if pp_json v then encode_response answered
                     else ''Quack URI: '' @ pr_Endpoint answered @ [CHR 0x0A] @ ''Token: '' @ pr_Token answered)), (dk, s, d)))
              else ((None, line (if pp_json v then ch_challenge_json host c
                  else ''Pairing URL: '' @ ch_URL c @ [CHR 0x0A] @ ''Nonce: '' @ ch_Nonce c @ [CHR 0x0A] @
                    ''Expires: '' @ ch_time host (ch_ExpiresAt c))), (dk, s, d))))"

section \<open>status and doctor\<close>

text \<open>A response that is a success without a status panics unless JSON is asked for: \<open>None\<close>.\<close>

definition status_text :: "('s, 'd) cli_host \<Rightarrow> bool \<Rightarrow> status option \<Rightarrow> string option" where
  "status_text host json_output st = (case st of
     None \<Rightarrow> if json_output then Some (line ''null'') else None
   | Some st \<Rightarrow> Some (line (if json_output then ch_status_json host st
       else state_text (st_State st) @ tab @ st_Endpoint st)))"

definition cli_status ::
  "('s, 'd) cli_host \<Rightarrow> string list \<Rightarrow> ('s, 'd) cli_world \<Rightarrow> ((go_error option \<times> string) \<times> ('s, 'd) cli_world) option" where
  "cli_status host args w = (case w of (dk, s, d) \<Rightarrow>
     case parse_flags (path_flag_set ''control'') args \<lparr>pf_path = or_empty (ch_controlAddress host), pf_json = False\<rparr> of
       Inl e \<Rightarrow> Some ((Some e, ''''), w)
     | Inr (v, _) \<Rightarrow> (case dh_call (ch_doctor host) (pf_path v) (control_request_of ''status'') d of
         (Inl e, d) \<Rightarrow> Some ((Some e, ''''), (dk, s, d))
       | (Inr answer, d) \<Rightarrow>
           if \<not> cs_OK answer then Some ((Some (refused answer), ''''), (dk, s, d))
           else map_option (\<lambda>out. ((None, out), (dk, s, d))) (status_text host (pf_json v) (cs_Status answer))))"

record doctor_flags =
  df_config :: string
  df_control :: string
  df_extensions :: string
  df_provider :: string
  df_json :: bool

definition doctor_flag_set :: "(string \<times> doctor_flags flag_def) list" where
  "doctor_flag_set = [(''config'', text_flag (\<lambda>v. df_config_update (\<lambda>_. v))),
     (''control'', text_flag (\<lambda>v. df_control_update (\<lambda>_. v))),
     (''extensions'', text_flag (\<lambda>v. df_extensions_update (\<lambda>_. v))),
     (''credential-provider'', text_flag (\<lambda>v. df_provider_update (\<lambda>_. v))),
     (''json'', bool_flag (\<lambda>b. df_json_update (\<lambda>_. b)))]"

fun level_text :: "level \<Rightarrow> string" where
  "level_text LevelOK = ''ok''" | "level_text LevelWarning = ''warning''" | "level_text LevelError = ''error''"

definition check_line :: "check \<Rightarrow> string" where
  "check_line c = line (join tab [level_text (ck_Level c), ck_Name c, ck_Message c])"

definition cli_doctor :: "('s, 'd) cli_host \<Rightarrow> string list \<Rightarrow> ('s, 'd) cli_world command" where
  "cli_doctor host args w =
     (case parse_flags doctor_flag_set args \<lparr>df_config = or_empty (ch_configPath host),
         df_control = or_empty (ch_controlAddress host), df_extensions = ch_extensionDir host,
         df_provider = ''system'', df_json = False\<rparr> of
        Inl e \<Rightarrow> ((Some e, ''''), w)
      | Inr (v, _) \<Rightarrow> (case doctor_Run (ch_doctor host) \<lparr>do_ConfigPath = df_config v, do_ControlAddress = df_control v,
            do_ExtensionDir = df_extensions v, do_CredentialProvider = df_provider v, do_CredentialStore = None\<rparr> w of
          (rep, w) \<Rightarrow> ((if rp_OK rep then None else Some (Plain ''one or more diagnostic checks failed''),
             if df_json v then line (ch_report_json host rep) else concat (map check_line (rp_Checks rep))), w)))"

section \<open>Run\<close>

definition usage_text :: string where
  "usage_text = ''usage: quackridge <source|serve|status|doctor|pair|version>''"

record outcome =
  oc_Exit :: nat
  oc_Stdout :: string
  oc_Stderr :: string

definition finished :: "(go_error option \<times> string) \<times> 'w \<Rightarrow> outcome \<times> 'w" where
  "finished r = (case r of ((err, out), w) \<Rightarrow> (case err of
     None \<Rightarrow> (\<lparr>oc_Exit = 0, oc_Stdout = out, oc_Stderr = ''''\<rparr>, w)
   | Some e \<Rightarrow> (\<lparr>oc_Exit = 1, oc_Stdout = out, oc_Stderr = line (error_text e)\<rparr>, w)))"

text \<open>A panic of the process is \<open>None\<close>.\<close>

definition cli_Run :: "('s, 'd) cli_host \<Rightarrow> string list \<Rightarrow> ('s, 'd) cli_world \<Rightarrow> (outcome \<times> ('s, 'd) cli_world) option" where
  "cli_Run host args w =
     (let usage = Some (\<lparr>oc_Exit = 2, oc_Stdout = '''', oc_Stderr = line usage_text\<rparr>, w) in
      case args of [] \<Rightarrow> usage
      | command # args \<Rightarrow>
          if command = ''version'' then Some (finished (cli_version args, w))
          else if command = ''source'' then Some (finished (cli_source host args w))
          else if command = ''serve'' then Some (finished (ch_serve host args w))
          else if command = ''status'' then map_option finished (cli_status host args w)
          else if command = ''doctor'' then Some (finished (cli_doctor host args w))
          else if command = ''pair'' then Some (finished (cli_pair host args w))
          else usage)"

end
