(* ===== verification/CliSource.thy ===== *)
theory CliSource
  imports Cli ConfigRound
begin

text \<open>
  What the commands on sources guarantee: the password given to \<open>source add\<close> reaches the credential store and the
  validator only, and shows in no file, output or error; and a source that the command accepts is one that the daemon can
  prepare, with the definition and the adapter that the flags describe, written out here flag by flag.
\<close>

section \<open>A source that is added\<close>

lemma readPassword_nonempty: "readPassword input b = Inr v \<Longrightarrow> v \<noteq> ''''"
  by (auto simp: readPassword_def Let_def split: if_splits option.splits sum.splits)

text \<open>Reading a password does not depend on its text otherwise.\<close>

lemma source_credential_empty: "source_credential v password = '''' \<longleftrightarrow> password = ''''"
  by (auto simp: source_credential_def odbc_credential_json_def json_object_def)

lemma configured_source_hides:
  assumes "password = '''' \<longleftrightarrow> password' = ''''"
  shows "configured_source v (source_credential v password) = configured_source v (source_credential v password')"
  using assms by (simp add: configured_source_def source_credential_empty)

lemma config_Add_disk:
  assumes "config_Add orc path store validator c credential (dk, s) = (None, dk1, s1)"
    and "config_Add orc path store validator c credential' (dk, s') = (None, dk2, s2)"
  shows "dk1 = dk2"
  using assms by (auto simp: config_Add_def Let_def split: option.splits prod.splits sum.splits if_splits)

lemma config_Test_disk:
  "config_Test orc path (Some validate) c credential dk = (e, dk1) \<Longrightarrow> dk1 = snd (Load orc path dk)"
  by (auto simp: config_Test_def split: option.splits prod.splits sum.splits)

definition password_of :: "stdin \<Rightarrow> source_flags \<Rightarrow> string res" where
  "password_of input v = (if needs_password v then readPassword input (sf_passwordStdin v) else Inr '''')"

lemma password_empty: "password_of input v = Inr password \<Longrightarrow> password = '''' \<longleftrightarrow> \<not> needs_password v"
  using readPassword_nonempty by (auto simp: password_of_def split: if_splits)

text \<open>A command that succeeds went through the service of the store, for the source that its flags describe.\<close>

definition store_selected :: "('s, 'd) cli_host \<Rightarrow> string \<Rightarrow> 's credential_ops option \<Rightarrow> bool" where
  "store_selected host password store \<longleftrightarrow>
     (if password = '''' then store = None else \<exists>ops. dh_system (ch_doctor host) = Inr ops \<and> store = Some ops)"

definition add_run ::
  "('s, 'd) cli_host \<Rightarrow> bool \<Rightarrow> source_flags \<Rightarrow> string \<Rightarrow> disk \<times> 's \<Rightarrow> disk \<times> 's \<Rightarrow> bool" where
  "add_run host persist v password = (\<lambda>(dk, s) (dk1, s1).
     let credential = source_credential v password; c = configured_source v credential;
         orc = dh_oracle (ch_doctor host); validate = Some (source_validator (ch_env host) (ch_dialed host) (sf_sourceType v))
     in if persist then (\<exists>store. store_selected host password store \<and>
            config_Add orc (sf_configPath v) store validate c credential (dk, s) = (None, dk1, s1))
        else s1 = s \<and> config_Test orc (sf_configPath v) validate c credential dk = (None, dk1))"

lemma sourceAdd_done:
  assumes "sourceAdd host args persist (dk, s, d) = ((None, out), w)"
  shows "\<exists>v password dk1 s1. parseSourceFlags (ch_configPath host) args = Inr v \<and> password_of (ch_stdin host) v = Inr password \<and>
    out = added_text v persist \<and> w = (dk1, s1, d) \<and> add_run host persist v password (dk, s) (dk1, s1)"
proof -
  obtain v where v: "parseSourceFlags (ch_configPath host) args = Inr v"
    using assms by (cases "parseSourceFlags (ch_configPath host) args") (auto simp: sourceAdd_def)
  obtain password where p: "password_of (ch_stdin host) v = Inr password"
    using assms v by (cases "password_of (ch_stdin host) v") (auto simp: sourceAdd_def password_of_def split: if_splits)
  let ?credential = "source_credential v password"
  have ref: "cf_CredentialRef (configured_source v ?credential) = '''' \<longleftrightarrow> password = ''''"
    by (simp add: configured_source_def source_credential_empty)
  note unfolded = assms [unfolded sourceAdd_def, simplified v, simplified, folded password_of_def, unfolded p, simplified Let_def, simplified]
  show ?thesis
  proof (cases persist)
    case True
    let ?add = "\<lambda>store. config_Add (dh_oracle (ch_doctor host)) (sf_configPath v) store
        (Some (source_validator (ch_env host) (ch_dialed host) (sf_sourceType v))) (configured_source v ?credential) ?credential (dk, s)"
    obtain store where "(if password = '''' then Inr None else map_sum id Some (dh_system (ch_doctor host))) = Inr store"
      and r: "out = added_text v persist" "\<exists>dk1 s1. w = (dk1, s1, d) \<and> ?add store = (None, dk1, s1)"
      using unfolded True ref by (auto split: sum.splits prod.splits option.splits)
    then have "store_selected host password store"
      by (cases "dh_system (ch_doctor host)") (auto simp: store_selected_def split: if_splits)
    then show ?thesis using v p r True unfolding add_run_def by (auto simp: Let_def)
  next
    case False
    then show ?thesis using unfolded v p
      by (auto simp: add_run_def split: prod.splits option.splits)
  qed
qed

lemma add_run_stdin [simp]: "add_run (host\<lparr>ch_stdin := input\<rparr>) = add_run host"
  by (simp add: add_run_def store_selected_def fun_eq_iff)

lemma add_run_disk:
  assumes "add_run host persist v password (dk, s) (dk1, s1)" and "add_run host persist v password' (dk, s') (dk2, s2)"
    and "password = '''' \<longleftrightarrow> password' = ''''"
  shows "dk1 = dk2"
proof -
  note c = configured_source_hides [OF assms(3), of v]
  show ?thesis
  proof (cases persist)
    case True
    obtain store where s1: "store_selected host password store"
      "config_Add (dh_oracle (ch_doctor host)) (sf_configPath v) store
        (Some (source_validator (ch_env host) (ch_dialed host) (sf_sourceType v)))
        (configured_source v (source_credential v password)) (source_credential v password) (dk, s) = (None, dk1, s1)"
      using assms(1) True by (auto simp: add_run_def Let_def)
    obtain store' where s2: "store_selected host password' store'"
      "config_Add (dh_oracle (ch_doctor host)) (sf_configPath v) store'
        (Some (source_validator (ch_env host) (ch_dialed host) (sf_sourceType v)))
        (configured_source v (source_credential v password')) (source_credential v password') (dk, s') = (None, dk2, s2)"
      using assms(2) True by (auto simp: add_run_def Let_def)
    have "store = store'" using s1(1) s2(1) assms(3) by (auto simp: store_selected_def split: if_splits)
    then show ?thesis using config_Add_disk [OF s1(2)] s2(2) c by simp
  next
    case False
    have "dk1 = snd (Load (dh_oracle (ch_doctor host)) (sf_configPath v) dk)"
      by (rule config_Test_disk [of _ _ "source_validator (ch_env host) (ch_dialed host) (sf_sourceType v)"
          "configured_source v (source_credential v password)" "source_credential v password" _ None])
        (use assms(1) False in \<open>simp add: add_run_def Let_def\<close>)
    moreover have "dk2 = snd (Load (dh_oracle (ch_doctor host)) (sf_configPath v) dk)"
      by (rule config_Test_disk [of _ _ "source_validator (ch_env host) (ch_dialed host) (sf_sourceType v)"
          "configured_source v (source_credential v password')" "source_credential v password'" _ None])
        (use assms(2) False in \<open>simp add: add_run_def Let_def\<close>)
    ultimately show ?thesis by simp
  qed
qed

section \<open>What is stored is read back\<close>

text \<open>The flags of a source whose texts are ASCII.\<close>

definition plain_flags :: "source_flags \<Rightarrow> bool" where
  "plain_flags v \<longleftrightarrow> ascii (sf_host v) \<and> ascii (sf_database v) \<and> ascii (sf_user v) \<and> ascii (sf_sslMode v) \<and>
     ascii (sf_rootCertRef v) \<and> ascii (sf_path v) \<and> ascii (sf_dsn v) \<and> ascii (sf_driver v) \<and> ascii (sf_databaseType v) \<and>
     wf_map (sf_properties v) \<and> (\<forall>(key, x) \<in> set (sf_properties v). ascii key \<and> ascii x) \<and> go_int (sf_port v)"

lemma decode_lenient_object:
  assumes "members_text k ms" and "Suc k \<le> max_nesting" and "list_all (\<lambda>(name, _). field_of (map fst setters) name \<noteq> None) ms"
  shows "decode_lenient setters zero (json_object (member_texts ms)) = fill setters ms zero"
proof -
  note raw = raw_value_text [OF json_text_object [OF assms(1)] assms(2) delimited_char(4)]
  have "json_unmarshal (json_object (member_texts ms)) = Some (JObj (member_values ms))"
    using raw by (auto simp: raw_value_def json_unmarshal_def skip_ws_def Let_def split: option.splits)
  moreover have "filter (\<lambda>(k, _). field_of (map fst setters) k \<noteq> None) ms = ms"
    using assms(3) by (simp add: list_all_iff filter_id_conv)
  ultimately show ?thesis using raw_members_object [OF assms(1,2) delimited_char(4)] by (simp add: decode_lenient_def)
qed

lemma decode_strict_object:
  assumes "members_text k ms" and "Suc k \<le> max_nesting"
  shows "decode_struct setters zero (json_object (member_texts ms)) = fill setters ms zero"
  using decode_struct_object [OF assms delimited_char(4)] by simp

definition text_member :: "string \<Rightarrow> string \<Rightarrow> string \<times> string \<times> json" where
  "text_member name v = (name, encode_string v, JStr v)"

definition text_if_set :: "string \<Rightarrow> string \<Rightarrow> members" where
  "text_if_set name v = (if v = '''' then [] else [text_member name v])"

lemma omitempty_texts: "omitempty name v = member_texts (text_if_set name v)"
  by (simp add: omitempty_def text_if_set_def text_member_def member_texts_def)

definition postgres_members :: "postgres_config \<Rightarrow> members" where
  "postgres_members c = [text_member ''host'' (pg_Host c), (''port'', itoa (pg_Port c), JNum (itoa (pg_Port c))),
     text_member ''database'' (pg_Database c), text_member ''user'' (pg_User c),
     text_member ''ssl_mode'' (pg_SSLMode c)] @ text_if_set ''root_certificate_ref'' (pg_RootCertRef c)"

definition mysql_members :: "mysql_config \<Rightarrow> members" where
  "mysql_members c = [text_member ''host'' (my_Host c), (''port'', itoa (my_Port c), JNum (itoa (my_Port c))),
     text_member ''database'' (my_Database c), text_member ''user'' (my_User c), text_member ''ssl_mode'' (my_SSLMode c)]"

definition sorted_map :: "(string \<times> string) list \<Rightarrow> (string \<times> string) list" where
  "sorted_map m = map (\<lambda>key. (key, the (map_of m key))) (sorted_keys m)"

definition map_members :: "(string \<times> string) list \<Rightarrow> members" where
  "map_members m = map (\<lambda>(key, v). text_member key v) (sorted_map m)"

definition odbc_members :: "odbc_config \<Rightarrow> members" where
  "odbc_members c = text_if_set ''dsn'' (oc_DSN c) @ text_if_set ''driver'' (oc_Driver c) @
     (if oc_Properties c = [] then []
      else [(''properties'', json_string_map (oc_Properties c), JObj (member_values (map_members (oc_Properties c))))]) @
     [text_member ''database_type'' (oc_DatabaseType c)]"

lemma member_texts_append [simp]: "member_texts (xs @ ys) = member_texts xs @ member_texts ys"
  by (simp add: member_texts_def)

lemma member_texts_simps [simp]: "member_texts [] = []" "member_texts ((name, t, v) # ms) = (name, t) # member_texts ms"
  "member_texts (text_member name x # ms) = (name, encode_string x) # member_texts ms"
  by (simp_all add: member_texts_def text_member_def)

lemma json_string_map_texts: "json_string_map m = json_object (member_texts (map_members m))"
  by (simp add: json_string_map_def map_members_def sorted_map_def member_texts_def text_member_def comp_def)

lemma config_texts:
  "pg_Options p = [] \<Longrightarrow> postgres_json p = json_object (member_texts (postgres_members p))"
  "mysql_json y = json_object (member_texts (mysql_members y))"
  "odbc_json c = json_object (member_texts (odbc_members c))"
  by (simp_all add: postgres_json_def postgres_members_def mysql_json_def mysql_members_def odbc_json_def odbc_members_def
      omitempty_texts)

lemma set_sorted_map: "wf_map m \<Longrightarrow> set (sorted_map m) = set m"
  by (auto simp: sorted_map_def image_iff wf_map_mem)

lemma distinct_sorted_map: "wf_map m \<Longrightarrow> distinct (map fst (sorted_map m))"
  by (simp add: sorted_map_def comp_def distinct_sorted_keys)

lemma map_members_text:
  assumes "wf_map m" and "\<forall>(key, x) \<in> set m. ascii key \<and> ascii x"
  shows "members_text 0 (map_members m)"
proof -
  have "distinct (map fst (map_members m))"
    using distinct_sorted_map [OF assms(1)] by (simp add: map_members_def comp_def case_prod_beta text_member_def)
  then show ?thesis using assms(2) set_sorted_map [OF assms(1)]
    by (auto simp: members_text_def map_members_def text_member_def json_text_string)
qed

lemma string_members_map:
  "distinct (map fst m) \<Longrightarrow> fst ` set acc \<inter> fst ` set m = {} \<Longrightarrow>
   string_members (map (\<lambda>(k, v). (k, JStr v)) m) acc = Inr (acc @ m)"
  by (induction m arbitrary: acc) (auto simp: update_new)

lemma map_member_values: "member_values (map_members m) = map (\<lambda>(k, v). (k, JStr v)) (sorted_map m)"
  by (simp add: member_values_def map_members_def text_member_def comp_def case_prod_beta)

lemma members_text_mono: "members_text k ms \<Longrightarrow> k \<le> j \<Longrightarrow> members_text j ms"
  by (auto simp: members_text_def intro: json_text_mono)

lemma members_text_Cons:
  "members_text k ((name, t, v) # ms) \<longleftrightarrow> name \<notin> fst ` set ms \<and> ascii name \<and> json_text k t v \<and> members_text k ms"
  by (auto simp: members_text_def)

lemma ascii_text: "ascii v \<Longrightarrow> json_text k (encode_string v) (JStr v)"
  by (rule json_text_mono [OF json_text_string]) simp_all

lemma number_text: "json_text k (itoa i) (JNum (itoa i))"
  by (rule json_text_mono [OF json_text_int]) simp

lemma postgres_members_text:
  assumes "ascii (pg_Host c)" "ascii (pg_Database c)" "ascii (pg_User c)" "ascii (pg_SSLMode c)" "ascii (pg_RootCertRef c)"
  shows "members_text 0 (postgres_members c)"
  using assms by (simp add: members_text_def postgres_members_def text_member_def text_if_set_def ascii_text number_text byte_def)

lemma mysql_members_text:
  assumes "ascii (my_Host c)" "ascii (my_Database c)" "ascii (my_User c)" "ascii (my_SSLMode c)"
  shows "members_text 0 (mysql_members c)"
  using assms by (simp add: members_text_def mysql_members_def text_member_def ascii_text number_text byte_def)

lemma odbc_members_text:
  assumes "ascii (oc_DSN c)" "ascii (oc_Driver c)" "ascii (oc_DatabaseType c)"
    and "wf_map (oc_Properties c)" "\<forall>(key, x) \<in> set (oc_Properties c). ascii key \<and> ascii x"
  shows "members_text (Suc 0) (odbc_members c)"
proof -
  have "json_text (Suc 0) (json_string_map (oc_Properties c)) (JObj (member_values (map_members (oc_Properties c))))"
    unfolding json_string_map_texts by (rule json_text_object [OF map_members_text [OF assms(4,5)]])
  then show ?thesis using assms(1-3)
    by (simp add: members_text_def odbc_members_def text_member_def text_if_set_def ascii_text byte_def)
qed

text \<open>The decoders, strict and lenient, give the configuration back; properties in the order of their names.\<close>

lemma fill_postgres:
  "pg_Options c = [] \<Longrightarrow> go_int (pg_Port c) \<Longrightarrow> fill postgres_setters (postgres_members c) zero_postgres = Inr c"
  by (cases c) (simp add: postgres_members_def postgres_setters_def zero_postgres_def field_of_def set_string_def set_int_def
      int_literal_itoa text_member_def text_if_set_def)

lemma fill_mysql: "go_int (my_Port c) \<Longrightarrow> fill mysql_setters (mysql_members c) zero_mysql = Inr c"
  by (cases c) (simp add: mysql_members_def mysql_setters_def zero_mysql_def field_of_def set_string_def set_int_def
      int_literal_itoa text_member_def)

lemma fill_odbc:
  assumes "wf_map (oc_Properties c)"
  shows "fill odbc_setters (odbc_members c) zero_odbc = Inr (c\<lparr>oc_Properties := sorted_map (oc_Properties c)\<rparr>)"
proof -
  have "string_members (map (\<lambda>(k, v). (k, JStr v)) (sorted_map (oc_Properties c))) [] = Inr (sorted_map (oc_Properties c))"
    using string_members_map [OF distinct_sorted_map [OF assms], of "[]"] by simp
  moreover have "sorted_map [] = []" by (simp add: sorted_map_def sorted_keys_def keys_def)
  ultimately show ?thesis
    by (cases c) (simp add: odbc_members_def odbc_setters_def zero_odbc_def field_of_def set_string_def set_string_map_def
        text_member_def text_if_set_def map_member_values)
qed

lemma DecodeCredential_json:
  assumes "ascii (ocr_Username c)" and "ascii (ocr_Password c)" and "ocr_Password c \<noteq> ''''"
  shows "DecodeCredential (odbc_credential_json c) = Inr c"
proof -
  let ?ms = "text_if_set ''username'' (ocr_Username c) @ text_if_set ''password'' (ocr_Password c)"
  let ?setters = "[(''username'', set_string (\<lambda>x. ocr_Username_update (\<lambda>_. x))),
    (''password'', set_string (\<lambda>x. ocr_Password_update (\<lambda>_. x)))]"
  have t: "odbc_credential_json c = json_object (member_texts ?ms)"
    by (simp add: odbc_credential_json_def omitempty_texts)
  have "members_text 0 ?ms" using assms
    by (simp add: members_text_def text_if_set_def text_member_def ascii_text byte_def)
  from decode_lenient_object [OF this, of ?setters no_credential]
  have "decode_lenient ?setters no_credential (odbc_credential_json c) = fill ?setters ?ms no_credential"
    by (simp add: t max_nesting_def text_if_set_def text_member_def field_of_def)
  also have "\<dots> = Inr c"
    by (cases c) (simp add: text_if_set_def text_member_def field_of_def set_string_def no_credential_def)
  finally show ?thesis by (simp add: DecodeCredential_def odbc_credential_json_def json_object_def)
qed

section \<open>What is accepted can be prepared\<close>

text \<open>The database type, the source and the adapter that the flags describe, written out flag by flag; the properties of
  ODBC are in the order of their names.\<close>

definition described_type :: "source_flags \<Rightarrow> string" where
  "described_type v =
     (if sf_sourceType v = ''mysql'' \<or> sf_sourceType v = ''odbc'' \<and> sf_databaseType v \<noteq> '''' then sf_databaseType v
      else sf_sourceType v)"

definition described_source :: "source_flags \<Rightarrow> source_def" where
  "described_source v = \<lparr>sd_ID = sf_id v, sd_Name = sf_name v, sd_Alias = sf_alias v, sd_ConnectorType = sf_sourceType v,
     sd_DatabaseType = described_type v, sd_Enabled = True\<rparr>"

definition adapter_of :: "env \<Rightarrow> source_flags \<Rightarrow> string \<Rightarrow> eworld adapter" where
  "adapter_of env v password = (let t = sf_sourceType v in
     if t = ''postgres''
     then postgres_adapter env \<lparr>pg_Host = sf_host v, pg_Port = sf_port v, pg_Database = sf_database v, pg_User = sf_user v,
         pg_SSLMode = sf_sslMode v, pg_RootCertRef = sf_rootCertRef v, pg_Options = []\<rparr>
       \<lparr>pc_Password = password, pc_RootCertificatePath = ''''\<rparr>
     else if t = ''mysql''
     then mysql_adapter env \<lparr>my_Host = sf_host v, my_Port = sf_port v, my_Database = sf_database v, my_User = sf_user v,
         my_SSLMode = sf_sslMode v\<rparr> password
     else if t = ''sqlite'' \<or> t = ''duckdb'' then filedb_adapter env t (sf_path v)
     else odbc_adapter env \<lparr>oc_DSN = sf_dsn v, oc_Driver = sf_driver v, oc_Properties = sorted_map (sf_properties v),
         oc_DatabaseType = described_type v\<rparr>
       (if password = '''' then no_credential else \<lparr>ocr_Username = sf_user v, ocr_Password = password\<rparr>))"

lemma described_database_type: "sf_sourceType v \<in> set source_types \<Longrightarrow> source_database_type v = described_type v"
  by (auto simp: source_database_type_def described_type_def source_types_def)

lemma described_definition:
  "sf_sourceType v \<in> set source_types \<Longrightarrow> definition_of (configured_source v credential) = described_source v"
  by (simp add: definition_of_def configured_source_def described_source_def described_database_type)

lemma prepared:
  assumes "map_of (mg_factories m) (cf_Type c) = Some f" and "get_credential m c s = (Inr credential, s')"
    and "fa_Build f c credential = Inr ad" and "fst (ad_Validate ad (definition_of c) w) = None"
  shows "\<exists>w'. prepareOne m c (s, w) = (Inr \<lparr>ms_definition = definition_of c, ms_adapter = ad,
    ms_fingerprint = fingerprint c credential\<rparr>, s', w')"
proof -
  obtain w' where "ad_Validate ad (definition_of c) w = (None, w')" using assms(4) by (metis prod.collapse)
  then show ?thesis using assms(1-3) by (simp add: prepareOne_def)
qed

text \<open>The validator of the command and the factory of the daemon decode the options alike.\<close>

lemma options_decoded:
  assumes "plain_flags v"
  shows "sf_sourceType v = ''postgres'' \<Longrightarrow> decode_struct postgres_setters zero_postgres (source_options v) = Inr (postgres_of v)"
    and "sf_sourceType v = ''mysql'' \<Longrightarrow> decode_struct mysql_setters zero_mysql (source_options v) = Inr (mysql_of v) \<and>
      decode_lenient mysql_setters zero_mysql (source_options v) = Inr (mysql_of v)"
    and "sf_sourceType v \<in> {''sqlite'', ''duckdb''} \<Longrightarrow>
      decode_struct [(''path'', set_string (\<lambda>x _. x))] '''' (source_options v) = Inr (sf_path v) \<and>
      decode_lenient [(''path'', set_string (\<lambda>x _. x))] '''' (source_options v) = Inr (sf_path v)"
    and "sf_sourceType v = ''odbc'' \<Longrightarrow>
      decode_struct odbc_setters zero_odbc (source_options v) = Inr ((odbc_of v)\<lparr>oc_Properties := sorted_map (sf_properties v)\<rparr>) \<and>
      decode_lenient odbc_setters zero_odbc (source_options v) = Inr ((odbc_of v)\<lparr>oc_Properties := sorted_map (sf_properties v)\<rparr>)"
proof -
  note p = assms [unfolded plain_flags_def]
  assume t: "sf_sourceType v = ''postgres''"
  have m: "members_text 0 (postgres_members (postgres_of v))"
    by (rule postgres_members_text) (use p in \<open>simp_all add: postgres_of_def\<close>)
  have "source_options v = json_object (member_texts (postgres_members (postgres_of v)))"
    using t config_texts(1) [of "postgres_of v"] by (simp add: source_options_def postgres_of_def)
  then show "decode_struct postgres_setters zero_postgres (source_options v) = Inr (postgres_of v)"
    using decode_strict_object [OF m, of postgres_setters zero_postgres] fill_postgres [of "postgres_of v"] p
    by (simp add: postgres_of_def max_nesting_def)
next
  note p = assms [unfolded plain_flags_def]
  assume t: "sf_sourceType v = ''mysql''"
  have m: "members_text 0 (mysql_members (mysql_of v))"
    by (rule mysql_members_text) (use p in \<open>simp_all add: mysql_of_def\<close>)
  have "source_options v = json_object (member_texts (mysql_members (mysql_of v)))"
    using t config_texts(2) [of "mysql_of v"] by (simp add: source_options_def)
  moreover have "fill mysql_setters (mysql_members (mysql_of v)) zero_mysql = Inr (mysql_of v)"
    using fill_mysql [of "mysql_of v"] p by (simp add: mysql_of_def)
  moreover have "list_all (\<lambda>(name, _). field_of (map fst mysql_setters) name \<noteq> None) (mysql_members (mysql_of v))"
    by (simp add: mysql_members_def mysql_setters_def field_of_def text_member_def)
  ultimately show "decode_struct mysql_setters zero_mysql (source_options v) = Inr (mysql_of v) \<and>
      decode_lenient mysql_setters zero_mysql (source_options v) = Inr (mysql_of v)"
    using decode_strict_object [OF m, of mysql_setters zero_mysql] decode_lenient_object [OF m, of mysql_setters zero_mysql]
    by (simp add: max_nesting_def)
next
  note p = assms [unfolded plain_flags_def]
  assume t: "sf_sourceType v \<in> {''sqlite'', ''duckdb''}"
  let ?ms = "[text_member ''path'' (sf_path v)]"
  have m: "members_text 0 ?ms" using p by (simp add: members_text_def text_member_def ascii_text byte_def)
  have "source_options v = json_object (member_texts ?ms)"
    using t by (auto simp: source_options_def file_json_def)
  then show "decode_struct [(''path'', set_string (\<lambda>x _. x))] '''' (source_options v) = Inr (sf_path v) \<and>
      decode_lenient [(''path'', set_string (\<lambda>x _. x))] '''' (source_options v) = Inr (sf_path v)"
    using decode_strict_object [OF m, of "[(''path'', set_string (\<lambda>x _. x))]" "''''"]
      decode_lenient_object [OF m, of "[(''path'', set_string (\<lambda>x _. x))]" "''''"]
    by (simp add: max_nesting_def text_member_def field_of_def set_string_def)
next
  note p = assms [unfolded plain_flags_def]
  assume t: "sf_sourceType v = ''odbc''"
  have m: "members_text (Suc 0) (odbc_members (odbc_of v))"
    by (rule odbc_members_text)
      (use p t in \<open>auto simp: odbc_of_def source_database_type_def byte_def\<close>)
  have "source_options v = json_object (member_texts (odbc_members (odbc_of v)))"
    using t config_texts(3) [of "odbc_of v"] by (simp add: source_options_def)
  moreover have "fill odbc_setters (odbc_members (odbc_of v)) zero_odbc =
      Inr ((odbc_of v)\<lparr>oc_Properties := sorted_map (sf_properties v)\<rparr>)"
    using fill_odbc [of "odbc_of v"] p by (simp add: odbc_of_def)
  moreover have "list_all (\<lambda>(name, _). field_of (map fst odbc_setters) name \<noteq> None) (odbc_members (odbc_of v))"
    by (simp add: odbc_members_def odbc_setters_def field_of_def text_member_def text_if_set_def)
  ultimately show "decode_struct odbc_setters zero_odbc (source_options v) = Inr ((odbc_of v)\<lparr>oc_Properties := sorted_map (sf_properties v)\<rparr>) \<and>
      decode_lenient odbc_setters zero_odbc (source_options v) = Inr ((odbc_of v)\<lparr>oc_Properties := sorted_map (sf_properties v)\<rparr>)"
    using decode_strict_object [OF m, of odbc_setters zero_odbc] decode_lenient_object [OF m, of odbc_setters zero_odbc]
    by (simp add: max_nesting_def)
qed

text \<open>The options as the members that the encoder wrote, for every type of source.\<close>

lemma source_options_members:
  assumes "plain_flags v"
  shows "\<exists>ms. members_text (Suc 0) ms \<and> source_options v = json_object (member_texts ms)"
proof -
  note p = assms [unfolded plain_flags_def]
  let ?t = "sf_sourceType v"
  have "members_text 0 (postgres_members (postgres_of v))" "members_text 0 (mysql_members (mysql_of v))"
    "members_text 0 [text_member ''path'' (sf_path v)]"
    by (rule postgres_members_text mysql_members_text; use p in \<open>simp add: postgres_of_def mysql_of_def\<close>)+
      (use p in \<open>simp add: members_text_def text_member_def ascii_text byte_def\<close>)
  note m = this [THEN members_text_mono, OF le0 [of "Suc 0"]]
  have o: "members_text (Suc 0) (odbc_members (odbc_of v))"
    by (rule odbc_members_text) (use p in \<open>auto simp: odbc_of_def source_database_type_def byte_def Let_def\<close>)
  have t: "postgres_json (postgres_of v) = json_object (member_texts (postgres_members (postgres_of v)))"
    "mysql_json (mysql_of v) = json_object (member_texts (mysql_members (mysql_of v)))"
    "file_json (sf_path v) = json_object (member_texts [text_member ''path'' (sf_path v)])"
    "odbc_json (odbc_of v) = json_object (member_texts (odbc_members (odbc_of v)))"
    by (simp_all add: config_texts file_json_def postgres_of_def)
  show ?thesis unfolding source_options_def Let_def t using m o by (auto split: if_splits)
qed

lemma options_text:
  assumes "plain_flags v"
  shows "\<exists>k w. json_text k (source_options v) w \<and> k + 3 \<le> max_nesting"
proof -
  obtain ms where "members_text (Suc 0) ms" "source_options v = json_object (member_texts ms)"
    using source_options_members [OF assms] by blast
  then have "json_text (Suc (Suc 0)) (source_options v) (JObj (member_values ms))" using json_text_object by simp
  then show ?thesis by (intro exI [of _ "Suc (Suc 0)"] exI [of _ "JObj (member_values ms)"]) (simp add: max_nesting_def)
qed

lemma configured_fields [simp]:
  "cf_Type (configured_source v credential) = sf_sourceType v" "cf_Options (configured_source v credential) = source_options v"
  "cf_Enabled (configured_source v credential)" "cf_ID (configured_source v credential) = sf_id v"
  by (simp_all add: configured_source_def)

lemma source_credential_decodes:
  assumes "plain_flags v" and "ascii password" and "sf_sourceType v = ''odbc''"
  shows "DecodeCredential (source_credential v password) =
    Inr (if password = '''' then no_credential else \<lparr>ocr_Username = sf_user v, ocr_Password = password\<rparr>)"
proof (cases "password = []")
  case True
  then show ?thesis using assms by (simp add: source_credential_def DecodeCredential_def)
next
  case False
  then show ?thesis using assms DecodeCredential_json [of "\<lparr>ocr_Username = sf_user v, ocr_Password = password\<rparr>"]
    by (simp add: source_credential_def plain_flags_def)
qed

lemma factory_accepts:
  assumes "plain_flags v" and "ascii password" and "sf_sourceType v \<in> set source_types"
    and "needs_password v \<longleftrightarrow> password \<noteq> ''''"
    and accepted: "source_validator env w (sf_sourceType v) c (source_credential v password) = None"
    and c: "c = configured_source v (source_credential v password)"
  shows "\<exists>f. map_of (engine_factories env) (sf_sourceType v) = Some f \<and>
    fa_Build f c (source_credential v password) = Inr (adapter_of env v password) \<and>
    fst (ad_Validate (adapter_of env v password) (definition_of c) w) = None"
proof -
  note decoded = options_decoded [OF assms(1)]
  consider (postgres) "sf_sourceType v = ''postgres''" | (mysql) "sf_sourceType v = ''mysql''"
    | (path) "sf_sourceType v \<in> {''sqlite'', ''duckdb''}" | (odbc) "sf_sourceType v = ''odbc''"
    using assms(3) by (auto simp: source_types_def)
  then show ?thesis
  proof cases
    case postgres
    then have cred: "source_credential v password = password" "password \<noteq> ''''"
      using assms(4) by (simp_all add: source_credential_def needs_password_def)
    show ?thesis using accepted c postgres decoded(1) cred
      by (simp add: engine_factories_def PostgresFactory_def adapter_of_def source_validator_def postgresValidator_def
          postgres_adapter_def postgres_of_def)
  next
    case mysql
    then have cred: "source_credential v password = password" by (simp add: source_credential_def)
    show ?thesis using accepted c mysql decoded(2) cred
      by (simp add: engine_factories_def MySQLFactory_def adapter_of_def source_validator_def mysqlValidator_def mysql_adapter_def mysql_of_def)
  next
    case path
    then have cred: "source_credential v password = password" by (auto simp: source_credential_def)
    show ?thesis using accepted c path decoded(3) cred
      by (auto simp: engine_factories_def FileFactory_def adapter_of_def source_validator_def fileValidator_def filedb_adapter_def Let_def)
  next
    case odbc
    note d = source_credential_decodes [OF assms(1,2) odbc]
    show ?thesis using accepted c odbc decoded(4) d
      by (simp add: engine_factories_def ODBCFactory_def adapter_of_def source_validator_def odbcValidator_def odbc_adapter_def odbc_of_def
          described_database_type [OF assms(3)])
  qed
qed

section \<open>The password is seen by the validator and the credential store only\<close>

text \<open>The type of a source that the flags describe is one of the five.\<close>

lemma source_setters_type: "map_of source_flag_set name = Some d \<Longrightarrow> fl_set d v x = Inr y \<Longrightarrow> sf_sourceType y = sf_sourceType x"
  by (drule map_of_SomeD)
    (auto simp: source_flag_set_def text_flag_def int_flag_def bool_flag_def property_flag_def split: option.splits prod.splits if_splits)

lemma flag_step_stored:
  "flag_step defs args x = (Inr (seen, y), rest) \<Longrightarrow> y = x \<or> (\<exists>name d v. map_of defs name = Some d \<and> fl_set d v x = Inr y)"
  by (auto simp: flag_step_def Let_def split: list.splits if_splits option.splits prod.splits sum.splits)

lemma parse_flags_type: "parse_flags source_flag_set args x = Inr (y, rest) \<Longrightarrow> sf_sourceType y = sf_sourceType x"
proof (induction "source_flag_set :: (string \<times> source_flags flag_def) list" args x rule: parse_flags.induct)
  case (1 args x)
  obtain seen z args' where step: "flag_step source_flag_set args x = (Inr (seen, z), args')"
    using "1.prems" by (cases "flag_step source_flag_set args x" rule: prod.exhaust; cases "fst (flag_step source_flag_set args x)")
      (auto simp: parse_flags.simps [of _ args])
  have z: "sf_sourceType z = sf_sourceType x" using flag_step_stored [OF step] source_setters_type by metis
  show ?case
  proof (cases seen)
    case True
    then have "parse_flags source_flag_set args' z = Inr (y, rest)" using "1.prems" step by (simp add: parse_flags.simps [of _ args])
    then show ?thesis using "1.hyps" step True z by fastforce
  next
    case False
    then show ?thesis using "1.prems" step z by (simp add: parse_flags.simps [of _ args])
  qed
qed

lemma parsed_type: "parseSourceFlags defaultPath args = Inr v \<Longrightarrow> sf_sourceType v \<in> set source_types"
  by (auto simp: parseSourceFlags_def default_flags_def List.member_iff dest!: parse_flags_type split: list.splits sum.splits if_splits prod.splits)

text \<open>What the command does depends on the password only through its being empty: the validator of an adapter looks no
  further, nor does a store whose answer to Put does not depend on the text of the credential.\<close>

definition answers_alike :: "'s credential_ops \<Rightarrow> 's \<Rightarrow> 's \<Rightarrow> bool" where
  "answers_alike ops s s' \<longleftrightarrow>
     (\<forall>ref x x'. x \<noteq> '''' \<and> x' \<noteq> '''' \<longrightarrow> fst (cs_Put ops ref x s) = fst (cs_Put ops ref x' s'))"

lemma system_answers_alike:
  assumes "secret_tool_laws tool stored unlocked (\<lambda>_. True)" and "unlocked s" and "unlocked s'"
  shows "answers_alike (system_ops tool) s s'"
  using system_Put_unlocked(2) [OF assms(1,2) TrueI] system_Put_unlocked(2) [OF assms(1,3) TrueI]
  by (simp add: answers_alike_def system_ops_def)

lemma postgresValidator_hides:
  assumes "password = '''' \<longleftrightarrow> password' = ''''"
  shows "postgresValidator env w c password = postgresValidator env w c password'"
proof (cases "decode_struct postgres_setters zero_postgres (cf_Options c)")
  case (Inr options)
  show ?thesis unfolding postgresValidator_def Inr sum.case postgres_Validate_def postgres_credential.select_convs assms ..
qed (simp add: postgresValidator_def)

lemma validator_hides:
  assumes "password = '''' \<longleftrightarrow> password' = ''''" and "sf_sourceType v \<in> set source_types"
    and "sf_sourceType v = ''odbc'' \<Longrightarrow> ascii (sf_user v) \<and> ascii password \<and> ascii password'"
  shows "source_validator env w (sf_sourceType v) c (source_credential v password) =
    source_validator env w (sf_sourceType v) c (source_credential v password')"
proof (cases "sf_sourceType v = ''odbc''")
  case True
  have "\<exists>x. DecodeCredential (source_credential v p) = Inr x" if "ascii p" for p
    using DecodeCredential_json [of "\<lparr>ocr_Username = sf_user v, ocr_Password = p\<rparr>"] that assms(3) [OF True] True
    by (cases "p = ''''") (auto simp: source_credential_def DecodeCredential_def)
  then obtain x x' where "DecodeCredential (source_credential v password) = Inr x"
    "DecodeCredential (source_credential v password') = Inr x'" using assms(3) [OF True] by blast
  then show ?thesis using True by (simp add: source_validator_def odbcValidator_def split: sum.split)
next
  case False
  then have "source_credential v p = p" for p by (simp add: source_credential_def)
  moreover from False assms(2) consider "sf_sourceType v = ''postgres''" | "sf_sourceType v = ''mysql''"
    | "sf_sourceType v \<in> {''sqlite'', ''duckdb''}" by (auto simp: source_types_def)
  ultimately show ?thesis
    by cases (auto simp: source_validator_def postgresValidator_hides [OF assms(1)] mysqlValidator_def fileValidator_def)
qed

lemma config_Add_alike:
  assumes "validate c x = validate c x'"
    and "cf_CredentialRef c \<noteq> '''' \<Longrightarrow> fst (cs_Put (the store) (cf_CredentialRef c) x s) = fst (cs_Put (the store) (cf_CredentialRef c) x' s')"
    and "config_Add orc path store (Some validate) c x (dk, s) = (e, dk1, s1)"
    and "config_Add orc path store (Some validate) c x' (dk, s') = (e', dk2, s2)"
  shows "e = e' \<and> dk1 = dk2"
proof -
  obtain p q p' q' where p: "put_credential store (cf_CredentialRef c) x s = (p, q)"
    "put_credential store (cf_CredentialRef c) x' s' = (p', q')" by (metis prod.exhaust)
  then have "p = p'" using assms(2) by (auto simp: put_credential_def prod_eq_iff split: if_splits)
  then show ?thesis using assms(1,3,4) p
    by (auto simp: config_Add_def Let_def split: option.splits sum.splits prod.splits if_splits)
qed

lemma config_Test_alike:
  "validate c x = validate c x' \<Longrightarrow>
   config_Test orc path (Some validate) c x dk = config_Test orc path (Some validate) c x' dk"
  by (simp add: config_Test_def split: prod.split sum.split option.split)

text \<open>The command as a function of what it read.\<close>

lemma sourceAdd_read:
  assumes "parseSourceFlags (ch_configPath host) args = Inr v" and "password_of (ch_stdin host) v = Inr password"
  shows "sourceAdd host args persist (dk, s, d) =
    (let credential = source_credential v password; c = configured_source v credential;
         orc = dh_oracle (ch_doctor host); path = sf_configPath v;
         validator = Some (source_validator (ch_env host) (ch_dialed host) (sf_sourceType v)) in
     if persist then
       (case (if cf_CredentialRef c = '''' then Inr None else map_sum id Some (dh_system (ch_doctor host))) of
          Inl e \<Rightarrow> ((Some e, ''''), (dk, s, d))
        | Inr store \<Rightarrow> (case config_Add orc path store validator c credential (dk, s) of
            (Some e, dk, s) \<Rightarrow> ((Some e, ''''), (dk, s, d))
          | (None, dk, s) \<Rightarrow> ((None, added_text v persist), (dk, s, d))))
     else (case config_Test orc path validator c credential dk of
            (Some e, dk) \<Rightarrow> ((Some e, ''''), (dk, s, d))
          | (None, dk) \<Rightarrow> ((None, added_text v persist), (dk, s, d))))"
  using assms(2) unfolding password_of_def by (simp add: sourceAdd_def assms(1))

lemma sourceAdd_alike:
  assumes v: "parseSourceFlags (ch_configPath host) args = Inr v"
    and p: "password_of (ch_stdin host) v = Inr password" "password_of input v = Inr password'"
    and plain: "sf_sourceType v = ''odbc'' \<Longrightarrow> ascii (sf_user v) \<and> ascii password \<and> ascii password'"
    and store: "\<And>ops. dh_system (ch_doctor host) = Inr ops \<Longrightarrow> answers_alike ops s s'"
    and run: "sourceAdd host args persist (dk, s, d) = ((e, out), (dk1, s1, d1))"
    and run': "sourceAdd (host\<lparr>ch_stdin := input\<rparr>) args persist (dk, s', d') = ((e', out'), (dk2, s2, d2))"
  shows "e = e' \<and> out = out' \<and> dk1 = dk2"
proof -
  let ?x = "source_credential v password" and ?x' = "source_credential v password'"
  let ?c = "configured_source v ?x" and ?orc = "dh_oracle (ch_doctor host)" and ?path = "sf_configPath v"
  let ?validate = "source_validator (ch_env host) (ch_dialed host) (sf_sourceType v)"
  have empty: "password = '''' \<longleftrightarrow> password' = ''''" using password_empty [OF p(1)] password_empty [OF p(2)] by simp
  have c: "configured_source v ?x' = ?c" using configured_source_hides [OF empty, of v] by simp
  have valid: "?validate ?c ?x = ?validate ?c ?x'" by (rule validator_hides [OF empty parsed_type [OF v] plain])
  have v': "parseSourceFlags (ch_configPath (host\<lparr>ch_stdin := input\<rparr>)) args = Inr v"
    "password_of (ch_stdin (host\<lparr>ch_stdin := input\<rparr>)) v = Inr password'" using v p(2) by simp_all
  have same: "ch_doctor (host\<lparr>ch_stdin := input\<rparr>) = ch_doctor host" "ch_env (host\<lparr>ch_stdin := input\<rparr>) = ch_env host"
    "ch_dialed (host\<lparr>ch_stdin := input\<rparr>) = ch_dialed host" by simp_all
  note r = run [unfolded sourceAdd_read [OF v p(1)] Let_def] and r' = run' [unfolded sourceAdd_read [OF v'] Let_def c same]
  show ?thesis
  proof (cases persist)
    case False
    then show ?thesis using r r' config_Test_alike [of ?validate ?c ?x ?x' ?orc ?path dk, OF valid]
      by (auto split: prod.splits option.splits)
  next
    case True
    show ?thesis
    proof (cases "if cf_CredentialRef ?c = '''' then Inr None else map_sum id Some (dh_system (ch_doctor host))")
      case (Inl x)
      then show ?thesis using r r' True by simp
    next
      case (Inr store)
      obtain a b k a' b' k' where add: "config_Add ?orc ?path store (Some ?validate) ?c ?x (dk, s) = (a, b, k)"
        "config_Add ?orc ?path store (Some ?validate) ?c ?x' (dk, s') = (a', b', k')" by (metis prod.exhaust)
      have "fst (cs_Put (the store) (cf_CredentialRef ?c) ?x s) = fst (cs_Put (the store) (cf_CredentialRef ?c) ?x' s')"
        if ref: "cf_CredentialRef ?c \<noteq> ''''"
      proof -
        obtain ops where o1: "dh_system (ch_doctor host) = Inr ops" "store = Some ops"
          using Inr ref by (cases "dh_system (ch_doctor host)") auto
        have "?x \<noteq> []" "?x' \<noteq> []"
          using ref empty by (auto simp: configured_source_def source_credential_empty split: if_splits)
        then have "fst (cs_Put ops (cf_CredentialRef ?c) ?x s) = fst (cs_Put ops (cf_CredentialRef ?c) ?x' s')"
          using assms(5) [OF o1(1)] unfolding answers_alike_def by blast
        then show ?thesis using o1(2) by simp
      qed
      from config_Add_alike [OF valid this add] have same: "a = a' \<and> b = b'" by blast
      show ?thesis using r r' True Inr add same by (cases a) auto
    qed
  qed
qed

text \<open>A password that cannot be read is reported by a fixed message.\<close>

lemma readPassword_errors:
  "readPassword input b = Inl e \<Longrightarrow> e \<in> {Plain ''password is required on standard input'',
     Plain ''use --password-stdin when standard input is not a terminal'', Plain ''read database password''}"
  by (auto simp: readPassword_def Let_def split: if_splits option.splits sum.splits)

lemma sourceAdd_unread:
  assumes "parseSourceFlags (ch_configPath host) args = Inr v" and "password_of (ch_stdin host) v = Inl x"
  shows "sourceAdd host args persist w = ((Some x, ''''), w)"
  using assms by (cases w) (simp add: sourceAdd_def password_of_def split: if_splits)

text \<open>Two runs that succeed leave the same files, in the same sequence of states of the disk, and print the same.\<close>

lemma sourceAdd_succeed_alike:
  assumes "sourceAdd host args persist (dk, s, d) = ((None, out), (dk1, s1, d1))"
    and "sourceAdd (host\<lparr>ch_stdin := input\<rparr>) args persist (dk, s', d') = ((None, out'), (dk2, s2, d2))"
  shows "out = out' \<and> dk1 = dk2"
proof -
  obtain v password where v: "parseSourceFlags (ch_configPath host) args = Inr v" "password_of (ch_stdin host) v = Inr password"
    "out = added_text v persist" and r: "add_run host persist v password (dk, s) (dk1, s1)"
    using sourceAdd_done [OF assms(1)] by auto
  obtain v' password' where v': "parseSourceFlags (ch_configPath host) args = Inr v'" "password_of input v' = Inr password'"
    "out' = added_text v' persist" and r': "add_run (host\<lparr>ch_stdin := input\<rparr>) persist v' password' (dk, s') (dk2, s2)"
    using sourceAdd_done [OF assms(2)] by auto
  have same: "v' = v" using v v' by simp
  have "password = '''' \<longleftrightarrow> password' = ''''" using password_empty [OF v(2)] password_empty [OF v'(2)] same by simp
  then show ?thesis using add_run_disk [OF r, of password' s' dk2 s2] r' v(3) v'(3) same by simp
qed

text \<open>C35. The password given to source add or source test never reaches the configuration file, the output or the error.
  Two runs with any two passwords end alike, whether they succeed or fail: with the same error, the same output and
  the same sequence of states of the disk - as long as the credential store answers their calls of Put alike, which
  the stores of this program do with fixed messages, and, for ODBC, whose credential is JSON, as long as user
  and passwords are ASCII.  Two runs that both succeed leave the same files and output whatever the store answers and
  whatever the texts are.  A run that cannot read a password fails with one of three fixed messages and
  touches nothing.\<close>

theorem source_hides_password:
  assumes "sourceAdd host args persist (dk, s, d) = ((e, out), (dk1, s1, d1))"
    and "sourceAdd (host\<lparr>ch_stdin := input\<rparr>) args persist (dk, s', d') = ((e', out'), (dk2, s2, d2))"
    and "parseSourceFlags (ch_configPath host) args = Inr v"
  shows "(\<forall>password password'. password_of (ch_stdin host) v = Inr password \<and> password_of input v = Inr password' \<and>
      (sf_sourceType v = ''odbc'' \<longrightarrow> ascii (sf_user v) \<and> ascii password \<and> ascii password') \<and>
      (\<forall>ops. dh_system (ch_doctor host) = Inr ops \<longrightarrow> answers_alike ops s s') \<longrightarrow>
        e = e' \<and> out = out' \<and> dk1 = dk2) \<and>
    (e = None \<and> e' = None \<longrightarrow> out = out' \<and> dk1 = dk2) \<and>
    (\<forall>x. password_of (ch_stdin host) v = Inl x \<longrightarrow> e = Some x \<and> out = '''' \<and> dk1 = dk \<and>
      x \<in> {Plain ''password is required on standard input'',
        Plain ''use --password-stdin when standard input is not a terminal'', Plain ''read database password''})"
proof (intro conjI allI impI)
  fix x assume x: "password_of (ch_stdin host) v = Inl x"
  from sourceAdd_unread [OF assms(3) x, of persist "(dk, s, d)"] assms(1)
  show "e = Some x" "out = ''''" "dk1 = dk" by simp_all
  show "x \<in> {Plain ''password is required on standard input'',
      Plain ''use --password-stdin when standard input is not a terminal'', Plain ''read database password''}"
    using x by (intro readPassword_errors) (simp add: password_of_def split: if_splits)
next
  fix password password'
  assume "password_of (ch_stdin host) v = Inr password \<and> password_of input v = Inr password' \<and>
      (sf_sourceType v = ''odbc'' \<longrightarrow> ascii (sf_user v) \<and> ascii password \<and> ascii password') \<and>
      (\<forall>ops. dh_system (ch_doctor host) = Inr ops \<longrightarrow> answers_alike ops s s')"
  then have "e = e' \<and> out = out' \<and> dk1 = dk2"
    using sourceAdd_alike [OF assms(3) _ _ _ _ assms(1,2), of password password'] by blast
  then show "e = e'" "out = out'" "dk1 = dk2" by simp_all
next
  assume "e = None \<and> e' = None"
  then have "out = out' \<and> dk1 = dk2"
    using sourceAdd_succeed_alike [of host args persist dk s d out dk1 s1 d1 input s' d' out' dk2 s2 d2] assms(1,2) by simp
  then show "out = out'" "dk1 = dk2" by simp_all
qed

section \<open>An example\<close>

definition demo_args :: "string list" where
  "demo_args = [''odbc'', ''--id'', ''sales'', ''--name=Sales'', ''-alias'', ''sales'', ''--dsn'', ''Sales'', ''--user'', ''me'',
     ''--property'', ''Database=main'', ''--password-stdin'']"

definition demo_flags :: source_flags where
  "demo_flags = (default_flags ''odbc'' ''/home/me/config.json'')\<lparr>sf_id := ''sales'', sf_name := ''Sales'', sf_alias := ''sales'',
     sf_dsn := ''Sales'', sf_user := ''me'', sf_properties := [(''Database'', ''main'')], sf_passwordStdin := True\<rparr>"

lemma demo_parse: "parseSourceFlags (Inr ''/home/me/config.json'') demo_args = Inr demo_flags"
  by code_simp

definition demo_file_input :: "string \<Rightarrow> stdin" where
  "demo_file_input text = \<lparr>in_Bytes = \<lparr>fb_Bytes = text, fb_Error = None\<rparr>, in_Terminal = None\<rparr>"

definition map_store :: "(string \<rightharpoonup> string) credential_ops" where
  "map_store = \<lparr>cs_Get = (\<lambda>r s. (case s r of None \<Rightarrow> Inl (Sentinel ErrNotFound) | Some v \<Rightarrow> Inr v, s)),
     cs_Put = (\<lambda>r v s. if r = '''' \<or> v = '''' then (Some (Plain ''secret reference and value are required''), s) else (None, s(r \<mapsto> v))), cs_Delete = (\<lambda>r s. (None, s(r := None)))\<rparr>"

definition demo_cli_doctor :: "(string \<rightharpoonup> string, bool) doctor_host" where
  "demo_cli_doctor = \<lparr>dh_oracle = quiet_oracle, dh_stat = (\<lambda>_. Inl (Sentinel ErrNotExist)), dh_windows = False,
     dh_file = (\<lambda>_. Inl (Sentinel ErrNotExist)), dh_order = id, dh_system = Inr map_store,
     dh_environment = map_store, dh_call = demo_call, dh_socket = (\<lambda>_. True)\<rparr>"

definition demo_cli :: "string \<Rightarrow> (string \<rightharpoonup> string, bool) cli_host" where
  "demo_cli password = \<lparr>ch_doctor = demo_cli_doctor, ch_configPath = Inr ''/home/me/config.json'',
     ch_controlAddress = Inr ''/run/quackridge.sock'', ch_extensionDir = '''', ch_stdin = demo_file_input password,
     ch_env = read_only_env, ch_dialed = (running_engine, []), ch_exchange = (\<lambda>_ _ d. (Inl (Plain ''refused''), d)),
     ch_ttl = (\<lambda>_. None), ch_time = itoa, ch_status_json = (\<lambda>_. ''''), ch_challenge_json = (\<lambda>_. ''''),
     ch_report_json = (\<lambda>_. ''''), ch_serve = (\<lambda>_ w. ((None, ''''), w))\<rparr>"

definition empty_disk :: disk where
  "empty_disk = \<lparr>dk_files = Map.empty, dk_log = []\<rparr>"

lemma demo_password: "xs = ''secret'' \<or> xs = ''other'' \<Longrightarrow>
    readPassword (demo_file_input (xs @ [CHR 0x0A])) True = Inr xs"
proof -
  assume xs: "xs = ''secret'' \<or> xs = ''other''"
  then have l: "length (xs @ [CHR 0x0A]) < password_limit" by (auto simp: password_limit_def)
  then have "take password_limit (xs @ [CHR 0x0A]) = xs @ [CHR 0x0A]" by (intro take_all) simp
  moreover have "trim_line_end (xs @ [CHR 0x0A]) = xs" using xs by (auto simp: trim_line_end_def)
  ultimately show ?thesis using l xs unfolding readPassword_def demo_file_input_def by (auto simp: Let_def)
qed

lemma demo_credential: "source_credential demo_flags ''secret'' \<noteq> ''''" "source_credential demo_flags ''other'' \<noteq> ''''"
  by (simp_all add: source_credential_empty)

lemma demo_flags_plain: "plain_flags demo_flags"
  by code_simp

lemma demo_added_document:
  assumes "credential \<noteq> ''''"
  shows "Validate (with_source \<lparr>doc_Version = CurrentVersion, doc_Sources = Some []\<rparr> (configured_source demo_flags credential)) = None"
    and "\<exists>text. encode_document (with_source \<lparr>doc_Version = CurrentVersion, doc_Sources = Some []\<rparr> (configured_source demo_flags credential)) = Inr text"
proof -
  have c: "configured_source demo_flags credential = configured_source demo_flags ''x''"
    using assms by (simp add: configured_source_def)
  show "Validate (with_source \<lparr>doc_Version = CurrentVersion, doc_Sources = Some []\<rparr> (configured_source demo_flags credential)) = None"
    unfolding c by code_simp
  let ?c = "configured_source demo_flags credential"
  have src: "sources_of (with_source \<lparr>doc_Version = CurrentVersion, doc_Sources = Some []\<rparr> ?c) = [?c]"
    by (simp add: with_source_def Clone_def sources_of_def)
  have plain: "plain_source ?c" unfolding plain_source_def c
    by (simp add: configured_source_def demo_flags_def default_flags_def source_database_type_def ascii_utf8 byte_def)
  show "\<exists>text. encode_document (with_source \<lparr>doc_Version = CurrentVersion, doc_Sources = Some []\<rparr> ?c) = Inr text"
  proof (rule encode_document_ok)
    show "\<forall>c \<in> set (sources_of (with_source \<lparr>doc_Version = CurrentVersion, doc_Sources = Some []\<rparr> ?c)).
        \<exists>k v. json_text k (cf_Options c) v \<and> k + 3 \<le> max_nesting"
      using options_text [OF demo_flags_plain] unfolding src by simp
  qed (use src plain in \<open>simp_all add: with_source_def Clone_def\<close>)
qed

lemma no_leading_rune: "\<forall>w \<in> set runes. w \<noteq> [] \<and> hd w \<noteq> hd s \<Longrightarrow> trim_runes runes s = s"
proof -
  assume a: "\<forall>w \<in> set runes. w \<noteq> [] \<and> hd w \<noteq> hd s"
  have "\<not> has_prefix w s" if "w \<in> set runes" for w
    using a that by (cases w) (auto simp: has_prefix_iff)
  then have "leading_rune runes s = None" by (simp add: leading_rune_def find_None_iff)
  then show ?thesis by (simp add: trim_runes.simps [of runes s] trim_runes_step_def)
qed

lemma trim_space_word:
  assumes "\<forall>w \<in> set space_runes. w \<noteq> [] \<and> hd w \<noteq> hd s \<and> last w \<noteq> last s" and "s \<noteq> []"
  shows "trim_space s = s"
proof -
  have "trim_left s = s" unfolding trim_left_def by (rule no_leading_rune) (use assms in blast)
  moreover have "trim_runes (map rev space_runes) (rev s) = rev s"
    by (rule no_leading_rune) (use assms in \<open>auto simp: hd_rev\<close>)
  ultimately show ?thesis by (simp add: trim_space_def trim_right_def)
qed

lemma demo_trims: "trim_space ''Sales'' = ''Sales''" "trim_space ''Database'' = ''Database''"
  by (rule trim_space_word; simp add: space_runes_def char_of_eq_iff)+

lemma demo_odbc_ok: "odbc_check ((odbc_of demo_flags)\<lparr>oc_Properties := sorted_map (sf_properties demo_flags)\<rparr>)
    (definition_of (configured_source demo_flags credential)) = None"
proof -
  have "check_definition (definition_of (configured_source demo_flags credential)) = None"
    unfolding definition_of_def configured_source_def by code_simp
  moreover have "validDSN ''Sales''" by (simp add: validDSN_def demo_trims contains_any_def)
  moreover have "validPropertyKey ''Database''" unfolding validPropertyKey_def demo_trims by code_simp
  moreover have "\<not> secret_property ''Database''" unfolding secret_property_def demo_trims by code_simp
  moreover have "sorted_map (sf_properties demo_flags) = [(''Database'', ''main'')]" by code_simp
  ultimately show ?thesis
    by (simp add: odbc_check_def odbc_of_def demo_flags_def default_flags_def source_database_type_def odbc_databaseType_def
        odbc_database_types_def)
qed

lemma demo_type: "sf_sourceType demo_flags = ''odbc''" "needs_password demo_flags" "sf_passwordStdin demo_flags"
  "sf_configPath demo_flags = ''/home/me/config.json''"
  by code_simp+

lemma demo_validates:
  assumes "ascii password"
  shows "source_validator env w (sf_sourceType demo_flags) (configured_source demo_flags (source_credential demo_flags password))
    (source_credential demo_flags password) = None"
  using options_decoded(4) [OF demo_flags_plain demo_type(1)] source_credential_decodes [OF demo_flags_plain assms demo_type(1)]
  by (simp add: source_validator_def demo_type(1) odbcValidator_def odbc_Validate_def demo_odbc_ok)

lemma quiet_calls [simp]: "fs_other quiet_oracle dk = (None, \<lparr>dk_files = dk_files dk, dk_log = dk_files dk # dk_log dk\<rparr>)"
  by (simp add: fs_other_def sys_call_def quiet_oracle_def)

lemma quiet_calm: "or_fault quiet_oracle = (\<lambda>_. None)"
  by (simp add: quiet_oracle_def)

lemma demo_first_load: "\<exists>dk. Load quiet_oracle path empty_disk = (Inr \<lparr>doc_Version = CurrentVersion, doc_Sources = Some []\<rparr>, dk) \<and>
    dk_files dk = Map.empty"
  by (simp add: Load_def loadFile_def fs_ReadFile_def empty_disk_def)

lemma demo_add:
  assumes "xs = ''secret'' \<or> xs = ''other''"
  shows "\<exists>dk1. sourceAdd (demo_cli (xs @ [CHR 0x0A])) demo_args True (empty_disk, s, d) =
    ((None, added_text demo_flags True), (dk1, s(''quackridge/source/sales'' \<mapsto> source_credential demo_flags xs), d))"
proof -
  let ?c = "configured_source demo_flags (source_credential demo_flags xs)"
  have ne: "source_credential demo_flags xs \<noteq> ''''" using assms demo_credential by auto
  then have ref: "cf_CredentialRef ?c = ''quackridge/source/sales''"
    by (simp add: configured_source_def demo_flags_def default_flags_def)
  have a: "ascii xs" using assms by (auto simp: byte_def)
  obtain dk where load: "Load quiet_oracle ''/home/me/config.json'' empty_disk =
      (Inr \<lparr>doc_Version = CurrentVersion, doc_Sources = Some []\<rparr>, dk)" "dk_files dk = Map.empty" using demo_first_load by blast
  obtain out where "encode_document (with_source \<lparr>doc_Version = CurrentVersion, doc_Sources = Some []\<rparr> ?c) = Inr out"
    using demo_added_document(2) [OF ne] by blast
  from calm_Save [OF quiet_calm demo_added_document(1) [OF ne] this load(2)] obtain dk1
    where save: "Save quiet_oracle ''/home/me/config.json'' (with_source \<lparr>doc_Version = CurrentVersion, doc_Sources = Some []\<rparr> ?c) dk = (None, dk1)"
    by auto
  have add: "config_Add quiet_oracle ''/home/me/config.json'' (Some map_store)
      (Some (source_validator read_only_env (running_engine, []) (sf_sourceType demo_flags))) ?c
      (source_credential demo_flags xs) (empty_disk, s) = (None, dk1, s(''quackridge/source/sales'' \<mapsto> source_credential demo_flags xs))"
    by (simp add: config_Add_def load demo_added_document(1) [OF ne] demo_validates [OF a] put_credential_def ref ne map_store_def save)
  show ?thesis
    using add ref demo_password [OF assms]
    by (simp add: sourceAdd_def demo_cli_def demo_parse demo_type demo_cli_doctor_def)
qed

text \<open>A store that refuses every credential, as a locked Secret Service does.\<close>

definition locked_store :: "(string \<rightharpoonup> string) credential_ops" where
  "locked_store = map_store\<lparr>cs_Put := (\<lambda>_ _ s. (Some (Plain ''store credential in Secret Service''), s))\<rparr>"

definition locked_cli :: "string \<Rightarrow> (string \<rightharpoonup> string, bool) cli_host" where
  "locked_cli password = (demo_cli password)\<lparr>ch_doctor := demo_cli_doctor\<lparr>dh_system := Inr locked_store\<rparr>\<rparr>"

lemma locked_add:
  "\<exists>dk1. sourceAdd (locked_cli (''secret'' @ [CHR 0x0A])) demo_args True (empty_disk, Map.empty, True) =
    ((Some (Wrap ''store source credential'' (Plain ''store credential in Secret Service'')), ''''), (dk1, Map.empty, True))"
proof -
  let ?c = "configured_source demo_flags (source_credential demo_flags ''secret'')"
  note ne = demo_credential(1)
  then have ref: "cf_CredentialRef ?c = ''quackridge/source/sales''"
    by (simp add: configured_source_def demo_flags_def default_flags_def)
  obtain dk where load: "Load quiet_oracle ''/home/me/config.json'' empty_disk =
      (Inr \<lparr>doc_Version = CurrentVersion, doc_Sources = Some []\<rparr>, dk)" using demo_first_load by blast
  have a: "ascii ''secret''" by (simp add: ascii_def byte_def)
  have "config_Add quiet_oracle ''/home/me/config.json'' (Some locked_store)
      (Some (source_validator read_only_env (running_engine, []) (sf_sourceType demo_flags))) ?c
      (source_credential demo_flags ''secret'') (empty_disk, Map.empty) =
      (Some (Wrap ''store source credential'' (Plain ''store credential in Secret Service'')), dk, Map.empty)"
    by (simp add: config_Add_def load demo_added_document(1) [OF ne] demo_validates [OF a] put_credential_def ref locked_store_def)
  then show ?thesis using ref demo_password [of "''secret''"]
    by (simp add: sourceAdd_def locked_cli_def demo_cli_def demo_parse demo_type demo_cli_doctor_def)
qed

text \<open>Two passwords that are stored, and two that the store refuses.\<close>

theorem source_hides_password_witness:
  "\<exists>dk1 out dk2 s2 d2. sourceAdd (demo_cli (''secret'' @ [CHR 0x0A])) demo_args True (empty_disk, Map.empty, True) =
      ((None, out), (dk1, [''quackridge/source/sales'' \<mapsto> source_credential demo_flags ''secret''], True)) \<and>
    sourceAdd (demo_cli (''other'' @ [CHR 0x0A])) demo_args True (empty_disk, Map.empty, False) =
      ((None, out), (dk1, [''quackridge/source/sales'' \<mapsto> source_credential demo_flags ''other''], False)) \<and>
    sourceAdd (locked_cli (''secret'' @ [CHR 0x0A])) demo_args True (empty_disk, Map.empty, True) =
      ((Some (Wrap ''store source credential'' (Plain ''store credential in Secret Service'')), ''''), (dk2, Map.empty, True)) \<and>
    sourceAdd (locked_cli (''other'' @ [CHR 0x0A])) demo_args True (empty_disk, Map.empty, True) =
      ((Some (Wrap ''store source credential'' (Plain ''store credential in Secret Service'')), ''''), (dk2, s2, d2))"
proof -
  have host: "demo_cli (''other'' @ [CHR 0x0A]) =
      (demo_cli (''secret'' @ [CHR 0x0A]))\<lparr>ch_stdin := demo_file_input (''other'' @ [CHR 0x0A])\<rparr>"
    "locked_cli (''other'' @ [CHR 0x0A]) =
      (locked_cli (''secret'' @ [CHR 0x0A]))\<lparr>ch_stdin := demo_file_input (''other'' @ [CHR 0x0A])\<rparr>"
    by (simp_all add: demo_cli_def locked_cli_def)
  have v: "parseSourceFlags (ch_configPath (demo_cli (''secret'' @ [CHR 0x0A]))) demo_args = Inr demo_flags"
    "parseSourceFlags (ch_configPath (locked_cli (''secret'' @ [CHR 0x0A]))) demo_args = Inr demo_flags"
    using demo_parse by (simp_all add: demo_cli_def locked_cli_def)
  obtain dk1 where one: "sourceAdd (demo_cli (''secret'' @ [CHR 0x0A])) demo_args True (empty_disk, Map.empty, True) =
      ((None, added_text demo_flags True), (dk1, [''quackridge/source/sales'' \<mapsto> source_credential demo_flags ''secret''], True))"
    using demo_add [of "''secret''" Map.empty True] by auto
  obtain dk1' where two: "sourceAdd (demo_cli (''other'' @ [CHR 0x0A])) demo_args True (empty_disk, Map.empty, False) =
      ((None, added_text demo_flags True), (dk1', [''quackridge/source/sales'' \<mapsto> source_credential demo_flags ''other''], False))"
    using demo_add [of "''other''" Map.empty False] by auto
  have same: "dk1 = dk1'" using source_hides_password [OF one two [unfolded host(1)] v(1)] by simp
  obtain dk2 where three: "sourceAdd (locked_cli (''secret'' @ [CHR 0x0A])) demo_args True (empty_disk, Map.empty, True) =
      ((Some (Wrap ''store source credential'' (Plain ''store credential in Secret Service'')), ''''), (dk2, Map.empty, True))"
    using locked_add by blast
  obtain e out dk3 s3 d3 where four: "sourceAdd (locked_cli (''other'' @ [CHR 0x0A])) demo_args True (empty_disk, Map.empty, True) =
      ((e, out), (dk3, s3, d3))" by (metis prod.exhaust)
  have read: "password_of (ch_stdin (locked_cli (''secret'' @ [CHR 0x0A]))) demo_flags = Inr ''secret''"
    "password_of (demo_file_input (''other'' @ [CHR 0x0A])) demo_flags = Inr ''other''"
    using demo_type demo_password [of "''secret''"] demo_password [of "''other''"]
    by (simp_all add: password_of_def locked_cli_def demo_cli_def)
  have "ascii (sf_user demo_flags)" "ascii ''secret''" "ascii ''other''"
    by (simp_all add: demo_flags_def default_flags_def ascii_def byte_def)
  moreover have "answers_alike locked_store Map.empty Map.empty" by (simp add: answers_alike_def locked_store_def)
  moreover have "dh_system (ch_doctor (locked_cli (''secret'' @ [CHR 0x0A]))) = Inr locked_store"
    by (simp add: locked_cli_def)
  ultimately have "e = Some (Wrap ''store source credential'' (Plain ''store credential in Secret Service'')) \<and> out = '''' \<and> dk3 = dk2"
    using source_hides_password [OF three four [unfolded host(2)] v(2), THEN conjunct1, rule_format, of "''secret''" "''other''"] read
    by auto
  then show ?thesis using one two [folded same] three four by blast
qed

definition demo_cli_manager :: "(unit, string \<rightharpoonup> string, eworld) manager" where
  "demo_cli_manager = \<lparr>mg_loader = (\<lambda>l. (Inr empty_document, l)), mg_secrets = map_store,
     mg_factories = engine_factories read_only_env, mg_active = []\<rparr>"

end
