(* ===== verification/Served.thy ===== *)
theory Served
  imports CliSource
begin

text \<open>
  A source from the command line to the running engine: what source add writes to the configuration file is what the daemon
  reads from it and attaches.  The store indents the options, so the decoders are shown not to depend on the layout.
\<close>

section \<open>Texts that compaction keeps\<close>

definition compacted :: "string \<Rightarrow> bool" where
  "compacted s \<longleftrightarrow> (\<forall>r. compact False False (s @ r) = s @ compact False False r)"

lemma compacted_append: "compacted a \<Longrightarrow> compacted b \<Longrightarrow> compacted (a @ b)"
  by (simp add: compacted_def)

lemma compacted_mark: "c \<in> set ''[]{},:'' \<Longrightarrow> compacted [c]"
  unfolding compacted_def using compact_punctuation by simp

lemma compacted_Nil: "compacted []"
  by (simp add: compacted_def)

lemma compacted_bare: "list_all bare t \<Longrightarrow> compacted t"
  unfolding compacted_def using compact_bare by blast

lemma compacted_join: "list_all compacted ts \<Longrightarrow> compacted (join '','' ts)"
proof (induction ts)
  case (Cons t ts)
  then show ?case using compacted_append [OF _ compacted_append [OF compacted_mark [of "CHR '',''"]], of t "join '','' ts"]
    by (cases ts) (simp_all add: join_Cons)
qed (simp add: compacted_Nil)

lemma compact_escape_ascii:
  assumes "byte c < 128"
  shows "compact True False (escape_ascii c @ r) = escape_ascii c @ compact True False r"
proof -
  have esc: "compact True False (CHR 0x5C # x # r) = CHR 0x5C # x # compact True False r" if "x \<in> {CHR 0x22, CHR 0x5C, CHR ''b'', CHR ''f'', CHR ''n'', CHR ''r'', CHR ''t'', CHR ''u''}" for x r
    using that by (intro compact_escape) (auto simp: html_def byte_def)
  have hex: "compact True False (''00'' @ hex_byte n @ r) = ''00'' @ hex_byte n @ compact True False r" if "n < 256" for n
  proof -
    have "\<forall>x \<in> set (''00'' @ hex_byte n). hex_value x \<noteq> None"
      using hex_value_digit [of "n div 16"] hex_value_digit [of "n mod 16"] that by (auto simp: hex_byte_def hex_value_def is_digit_byte_def byte_def less_mult_imp_div_less)
    from compact_hex [OF this, of r] show ?thesis by simp
  qed
  have low: "compact True False (c # r) = c # compact True False r" if "c \<noteq> CHR 0x22" "c \<noteq> CHR 0x5C" "\<not> html c"
    by (rule compact_low [OF assms that(3,1,2)])
  have "byte c < 256" using assms by simp
  note h = hex [OF this]
  show ?thesis
    using esc h low by (auto simp: escape_ascii_def backslash_def html_def simp del: compact.simps)
qed

lemma compact_encode_chars: "ascii s \<Longrightarrow> compact True False (encode_chars (length s) s @ r) = encode_chars (length s) s @ compact True False r"
proof (induction s)
  case (Cons c s)
  then have "byte c < 128" "ascii s" by (simp_all add: ascii_def)
  then show ?case using Cons.IH compact_escape_ascii [of c "encode_chars (length s) s @ r"] by (simp del: compact.simps)
qed simp

lemma compacted_string: "ascii s \<Longrightarrow> compacted (encode_string s)"
  unfolding compacted_def
proof
  fix r assume a: "ascii s"
  have "\<not> separator (CHR 0x22 # x)" for x by (rule not_separator) (simp add: byte_def)
  then have "compact False False (CHR 0x22 # x) = CHR 0x22 # compact True False x" for x
    by (simp add: separator_def html_def json_ws_def byte_def)
  then show "compact False False (encode_string s @ r) = encode_string s @ compact False False r"
    using compact_encode_chars [OF a, of "CHR 0x22 # r"] compact_quote [of r] by (simp add: encode_string_def del: compact.simps)
qed

lemma compacted_int: "compacted (itoa i)"
proof (rule compacted_bare)
  have "list_all number_char (decimal n)" for n
    using decimal_digits [of n] by (auto simp: list_all_iff number_char_def)
  then show "list_all bare (itoa i)" using number_bare by (auto simp: itoa_def list_all_iff number_char_def)
qed

lemma compacted_object:
  assumes "\<forall>(k, t) \<in> set ms. ascii k \<and> compacted t"
  shows "compacted (json_object ms)"
proof -
  have "list_all compacted (map (\<lambda>(k, t). json_field k t) ms)"
    using assms by (auto simp: list_all_iff json_field_def intro!: compacted_append [OF compacted_string compacted_append [OF compacted_mark, of "CHR '':''", simplified]])
  from compacted_append [OF compacted_append [OF compacted_mark [of "CHR ''{''"] compacted_join [OF this]] compacted_mark [of "CHR ''}''"]]
  show ?thesis by (simp add: json_object_def)
qed


section \<open>Decoding does not depend on the layout\<close>

text \<open>A setter that looks at the value only.\<close>

definition by_value :: "(string \<times> (string \<Rightarrow> json \<Rightarrow> 'a \<Rightarrow> 'a res)) list \<Rightarrow> bool" where
  "by_value setters \<longleftrightarrow> (\<forall>(f, assign) \<in> set setters. \<forall>raw raw' v x. assign raw v x = assign raw' v x)"

definition unlaid :: "(string \<times> string \<times> json) list \<Rightarrow> (string \<times> json) list" where
  "unlaid ms = map (\<lambda>(k, _, v). (k, v)) ms"

lemma fill_by_value: "by_value setters \<Longrightarrow> unlaid ms = unlaid ms' \<Longrightarrow> fill setters ms x = fill setters ms' x"
proof (induction setters ms x arbitrary: ms' rule: fill.induct)
  case (2 setters key raw v rest x)
  obtain raw' rest' where m: "ms' = (key, raw', v) # rest'" "unlaid rest = unlaid rest'"
    using "2.prems"(2) by (cases ms') (auto simp: unlaid_def)
  show ?case
  proof (cases "field_of (map fst setters) key")
    case (Some f)
    show ?thesis
    proof (cases "map_of setters f")
      case a: (Some assign)
      then have "(f, assign) \<in> set setters" by (rule map_of_SomeD)
      then have "assign raw' v x = assign raw v x" using "2.prems"(1) unfolding by_value_def by fastforce
      then show ?thesis using Some a m "2.IH" [OF Some a _ "2.prems"(1) m(2)] by (simp split: sum.split)
    qed (simp add: m Some)
  qed (simp add: m)
qed (auto simp: unlaid_def)

lemma field_items_unlaid: "unlaid (field_items nl sp d ms) = unlaid (field_items nl' sp' d' ms)"
  by (induction ms rule: fields.induct [of "\<lambda>_. True" "\<lambda>_. True"]) (simp_all add: unlaid_def)

lemma laid_value:
  assumes "sound y" and "nesting y \<le> max_nesting"
  shows "raw_value (pretty d y) = Some (pretty d y, meaning y, [])" and "raw_value (flat y) = Some (flat y, meaning y, [])"
proof -
  show "raw_value (pretty d y) = Some (pretty d y, meaning y, [])" "raw_value (flat y) = Some (flat y, meaning y, [])"
    using raw_value_text [OF wide.layout_text [OF assms(1) order_refl] assms(2) delimited_char(4), of d]
      raw_value_text [OF tight.layout_text [OF assms(1) order_refl] assms(2) delimited_char(4), of 0] by simp_all
qed

lemma laid_members:
  assumes "sound y" and "nesting y \<le> max_nesting" and "meaning y = JObj m"
  shows "\<exists>ms. raw_members (pretty d y) = Some ms \<and> (\<exists>ms'. raw_members (flat y) = Some ms' \<and> unlaid ms = unlaid ms')"
proof (cases y)
  case (Obj ms)
  then have s: "sound_fields ms" "Suc (nesting_fields ms) \<le> max_nesting" using assms(1,2) by simp_all
  show ?thesis
    using wide.raw_members_layout(2) [OF s delimited_char(4), of d] tight.raw_members_layout(2) [OF s delimited_char(4), of 0]
      field_items_unlaid [of newline "'' ''" "Suc d" ms "\<lambda>_. []" "[]" "Suc 0"] Obj by simp
next
  case (Lit t v)
  then have "\<forall>r. delimited r \<longrightarrow> parse_scalar (t @ r) = Some (JObj m, r)" using assms(1,3) by (simp add: lit_ok_def)
  then have "parse_scalar (t @ []) = Some (JObj m, [])" using delimited_char(4) by blast
  then show ?thesis by (auto simp: parse_scalar_def split: if_splits option.splits prod.splits list.splits)
next
  case NoMembers
  then have "raw_members ''{}'' = Some []" using laid_value(2) [OF assms(1,2)] by (simp add: raw_members_def skip_ws_def json_ws_def byte_def)
  then show ?thesis using NoMembers by simp
qed (use assms(3) in simp_all)


lemma decode_laid:
  assumes "sound y" and "nesting y \<le> max_nesting" and "by_value setters"
  shows "decode_struct setters zero (pretty d y) = decode_struct setters zero (flat y)"
proof -
  note l = laid_value [OF assms(1,2)]
  show ?thesis
  proof (cases "meaning y")
    case (JObj m)
    obtain ms ms' where r: "raw_members (pretty d y) = Some ms" "raw_members (flat y) = Some ms'" "unlaid ms = unlaid ms'"
      using laid_members [OF assms(1,2) JObj] by blast
    show ?thesis using l(1) [of d] l(2) JObj r(1,2) fill_by_value [OF assms(3) r(3)] by (simp add: decode_struct_def)
  qed (use l(1) [of d] l(2) in \<open>simp_all add: decode_struct_def\<close>)
qed

lemma setters_by_value:
  "by_value postgres_setters" "by_value mysql_setters" "by_value odbc_setters" "by_value [(''path'', set_string (\<lambda>x _. x))]"
  by (simp_all add: by_value_def postgres_setters_def mysql_setters_def odbc_setters_def set_string_def set_int_def set_string_map_def)

text \<open>The options that the command line encodes are a compact text.\<close>

lemma compacted_options:
  assumes "plain_flags v" and "sf_sourceType v \<in> set source_types"
  shows "compacted (source_options v)"
proof -
  note p = assms(1) [unfolded plain_flags_def]
  have names: "ascii x" if "x \<in> {''host'', ''port'', ''database'', ''user'', ''ssl_mode'', ''root_certificate_ref'', ''path'', ''dsn'', ''driver'', ''properties'', ''database_type'', ''odbc'', ''postgres''}" for x
    using that by (elim insertE emptyE) (simp_all add: ascii_def byte_def)
  have omit: "\<forall>(k, t) \<in> set (omitempty name x). ascii k \<and> compacted t" if "ascii name" "ascii x" for name x
    using that compacted_string by (simp add: omitempty_def)
  have props: "compacted (json_string_map (sf_properties v))"
    unfolding json_string_map_def
  proof (rule compacted_object, safe)
    fix k t assume "(k, t) \<in> set (map (\<lambda>key. (key, encode_string (the (map_of (sf_properties v) key)))) (sorted_keys (sf_properties v)))"
    then have k: "k \<in> dom (map_of (sf_properties v))" "t = encode_string (the (map_of (sf_properties v) k))"
      by (auto simp: sorted_keys_def set_keys)
    then obtain x where x: "map_of (sf_properties v) k = Some x" by blast
    then have "(k, x) \<in> set (sf_properties v)" by (rule map_of_SomeD)
    then show "ascii k" "compacted t" using p k(2) x compacted_string by auto
  qed
  have t: "sf_sourceType v = ''postgres'' \<or> sf_sourceType v = ''mysql'' \<or> sf_sourceType v = ''sqlite'' \<or>
      sf_sourceType v = ''duckdb'' \<or> sf_sourceType v = ''odbc''" using assms(2) by (auto simp: source_types_def)
  have "compacted (postgres_json (postgres_of v))"
    unfolding postgres_json_def postgres_of_def
    by (rule compacted_object) (use p names omit [of "''root_certificate_ref''" "sf_rootCertRef v"] in \<open>simp add: compacted_string compacted_int ball_Un byte_def\<close>)
  moreover have "compacted (mysql_json (mysql_of v))"
    unfolding mysql_json_def mysql_of_def
    by (rule compacted_object) (use p names in \<open>simp add: compacted_string compacted_int byte_def\<close>)
  moreover have "compacted (file_json (sf_path v))"
    unfolding file_json_def by (rule compacted_object) (use p names in \<open>simp add: compacted_string byte_def\<close>)
  moreover have "compacted (odbc_json (odbc_of v))" if "sf_sourceType v = ''odbc''"
  proof -
    have "ascii (source_database_type v)" using that p by (simp add: source_database_type_def Let_def byte_def)
    then show ?thesis
      unfolding odbc_json_def odbc_of_def
      by (intro compacted_object) (use p names props omit [of "''dsn''" "sf_dsn v"] omit [of "''driver''" "sf_driver v"] in
        \<open>auto simp: compacted_string ball_Un byte_def\<close>)
  qed
  ultimately show ?thesis using t by (auto simp: source_options_def Let_def)
qed


section \<open>Added and served\<close>

text \<open>What the texts of the options decode to.\<close>

definition reads_alike :: "string \<Rightarrow> string \<Rightarrow> bool" where
  "reads_alike a b \<longleftrightarrow>
     decode_struct postgres_setters zero_postgres a = decode_struct postgres_setters zero_postgres b \<and>
     decode_struct mysql_setters zero_mysql a = decode_struct mysql_setters zero_mysql b \<and>
     decode_struct odbc_setters zero_odbc a = decode_struct odbc_setters zero_odbc b \<and>
     decode_struct [(''path'', set_string (\<lambda>x _. x))] [] a = decode_struct [(''path'', set_string (\<lambda>x _. x))] [] b"

lemma laid_alike: "sound y \<Longrightarrow> nesting y \<le> max_nesting \<Longrightarrow> reads_alike (pretty d y) (flat y)"
  by (simp add: reads_alike_def decode_laid setters_by_value)

lemma factory_alike:
  assumes "map_of (engine_factories env) (cf_Type c) = Some f" and "reads_alike t (cf_Options c)"
  shows "fa_Build f (c\<lparr>cf_Options := t\<rparr>) credential = fa_Build f c credential"
  using assms by (auto simp: engine_factories_def reads_alike_def PostgresFactory_def MySQLFactory_def FileFactory_def ODBCFactory_def
      split: if_splits)


lemma reread_fields [simp]:
  "cf_Type (reread d c y) = cf_Type c" "cf_ID (reread d c y) = cf_ID c" "cf_CredentialRef (reread d c y) = cf_CredentialRef c"
  "definition_of (reread d c y) = definition_of c" "cf_Enabled (reread d c y) = cf_Enabled c"
  by (simp_all add: laid_source_def definition_of_def)

lemma get_credential_reread: "get_credential m (reread d c y) = get_credential m c"
  by (simp add: get_credential_def fun_eq_iff)

text \<open>The parts of a successful addition.\<close>

lemma config_Add_done:
  assumes "config_Add orc path store (Some validate) c credential (dk, s) = (None, dk1, s1)"
  shows "\<exists>d0 dk0. Load orc path dk = (Inr d0, dk0) \<and> Validate (with_source d0 c) = None \<and> validate c credential = None \<and>
    put_credential store (cf_CredentialRef c) credential s = (None, s1) \<and> Save orc path (with_source d0 c) dk0 = (None, dk1)"
  using assms by (auto simp: config_Add_def Let_def split: sum.splits prod.splits option.splits if_splits)

lemma with_source_sources: "doc_Sources (with_source d c) = Some (sources_of d @ [c])" "sources_of (with_source d c) = sources_of d @ [c]"
  by (simp_all add: with_source_def sources_of_def)

lemma alias_utf8: "aliasPattern s \<Longrightarrow> utf8 s"
proof (rule ascii_utf8)
  assume a: "aliasPattern s"
  have "alias_char c \<Longrightarrow> byte c < 128" "is_lower_byte c \<Longrightarrow> byte c < 128" for c
    by (auto simp: alias_char_def is_lower_byte_def is_digit_byte_def byte_def)
  then show "ascii s" using a by (auto simp: aliasPattern_def ascii_def list_all_iff split: list.splits)
qed

lemma stored_credential:
  assumes "exact_store ops ok view storable" and "ok s" and "storable credential" and "ref \<noteq> ''''"
    and "put_credential (Some ops) ref credential s = (None, s1)"
  shows "fst (cs_Get ops ref s1) = Inr credential"
proof -
  have "cs_Put ops ref credential s = (None, s1)" using assms(4,5) by (simp add: put_credential_def)
  then have "ok s1 \<and> view s1 = (view s)(ref \<mapsto> credential)"
    using credential_store.put_ok [OF exact_store.axioms(1) [OF assms(1)] assms(2,3)] by blast
  then show ?thesis using exact_store.get_hit [OF assms(1), of s1 ref credential] by simp
qed

lemma configured_plain:
  assumes "plain_flags v" and "utf8 (sf_id v)" and "utf8 (sf_name v)" and "sf_sourceType v \<in> set source_types" and "aliasPattern (sf_alias v)"
  shows "plain_source (configured_source v credential)"
proof -
  have t: "ascii (sf_sourceType v)" using assms(4) by (auto simp: source_types_def ascii_def byte_def)
  then have "ascii (source_database_type v)" using assms(1) by (auto simp: source_database_type_def plain_flags_def Let_def byte_def)
  moreover have "utf8 ''quackridge/source/''" by (simp add: ascii_utf8 ascii_def byte_def)
  then have "utf8 (''quackridge/source/'' @ sf_id v)" by (rule utf8_append [OF _ assms(2)])
  moreover have "utf8 ''''" by (simp add: ascii_utf8)
  ultimately show ?thesis using assms(2,3) alias_utf8 [OF assms(5)] ascii_utf8 t by (simp add: plain_source_def configured_source_def)
qed

text \<open>C36. What the command line adds, the daemon serves: after source add succeeded, a daemon that can read the configuration
  file loads a document with the source, and its manager prepares it with exactly the definition and the adapter that the
  flags describe, option by option, and the credential that was given - whatever failed on the disk on the way, as long as
  the flags for the connection and the password are ASCII, the id, the name and the sources already configured are
  UTF-8, the store keeps what it is given, and the network and files answer as they answered the command.\<close>

theorem added_source_is_served:
  assumes "sourceAdd host args True (dk, s, d) = ((None, out), (dk1, s1, d1))"
    and "parseSourceFlags (ch_configPath host) args = Inr v" and "password_of (ch_stdin host) v = Inr password"
    and "plain_flags v" and "utf8 (sf_id v)" and "utf8 (sf_name v)" and "ascii password" and "plain_path (sf_configPath v)"
    and "\<forall>d0 dk0. Load (dh_oracle (ch_doctor host)) (sf_configPath v) dk = (Inr d0, dk0) \<longrightarrow> list_all plain_source (sources_of d0)"
    and "or_fault orc (length (dk_log dk1)) = None"
    and "dh_system (ch_doctor host) = Inr (mg_secrets m)" and "mg_factories m = engine_factories (ch_env host)"
    and "exact_store (mg_secrets m) ok view storable" and "ok s" and "storable (source_credential v password)"
  shows "\<exists>d' dk2 c s2 w. Load orc (sf_configPath v) dk1 = (Inr d', dk2) \<and> c \<in> set (sources_of d') \<and>
    cf_ID c = sf_id v \<and> cf_Enabled c \<and>
    prepareOne m c (s1, ch_dialed host) =
      (Inr \<lparr>ms_definition = described_source v,
        ms_adapter = adapter_of (ch_env host) v password, ms_fingerprint = fingerprint c (source_credential v password)\<rparr>, s2, w)"
proof -
  let ?credential = "source_credential v password"
  let ?c = "configured_source v ?credential" and ?orc = "dh_oracle (ch_doctor host)" and ?path = "sf_configPath v"
  let ?validate = "source_validator (ch_env host) (ch_dialed host) (sf_sourceType v)"
  obtain store where store: "store_selected host password store"
    "config_Add ?orc ?path store (Some ?validate) ?c ?credential (dk, s) = (None, dk1, s1)"
    using sourceAdd_done [OF assms(1)] assms(2,3) by (auto simp: add_run_def Let_def)
  obtain d0 dk0 where add: "Load ?orc ?path dk = (Inr d0, dk0)" "Validate (with_source d0 ?c) = None" "?validate ?c ?credential = None"
    "put_credential store (cf_CredentialRef ?c) ?credential s = (None, s1)" "Save ?orc ?path (with_source d0 ?c) dk0 = (None, dk1)"
    using config_Add_done [OF store(2)] by blast
  have type: "sf_sourceType v \<in> set source_types" by (rule parsed_type [OF assms(2)])
  have "source_ok ?c" using add(2) by (simp add: Validate_ok with_source_sources)
  then have "aliasPattern (sf_alias v)" by (simp add: source_ok_def configured_source_def)
  note plain = configured_plain [OF assms(4-6) type this, of ?credential]
  have all: "list_all plain_source (sources_of (with_source d0 ?c))"
    using assms(9) add(1) plain by (auto simp: with_source_sources)
  obtain ys dk2 where load: "list_all2 options_tree (sources_of d0 @ [?c]) ys"
    "nesting (object_tree (document_members (with_source d0 ?c) ys)) \<le> max_nesting"
    "Load orc ?path dk1 = (Inr (Clone (reread_document (with_source d0 ?c) ys)), dk2)"
    using Save_Load_exact [OF assms(8) all add(5) assms(10)] by (auto simp: with_source_sources)
  obtain zs y where ys: "ys = zs @ [y]" "list_all2 options_tree (sources_of d0) zs" "options_tree ?c y"
    using load(1) by (auto simp: list_all2_append1 list_all2_Cons1)
  have len: "length (sources_of d0) = length zs" using ys(2) by (rule list_all2_lengthD)
  let ?r = "reread 2 ?c y"
  have mem: "?r \<in> set (sources_of (Clone (reread_document (with_source d0 ?c) ys)))"
    using len by (simp add: Clone_def laid_document_def sources_of_def with_source_sources ys(1))
  have "(?c, y) \<in> set (zip (sources_of d0 @ [?c]) ys)" using len by (simp add: ys(1))
  then have n: "nesting y \<le> max_nesting" using options_nesting [OF with_source_sources(1) load(2)] by blast
  have "flat y = source_options v" using ys(3) compacted_options [OF assms(4) type]
    unfolding options_tree_def compacted_def by (metis append_Nil2 compact.simps(1) configured_fields(2))
  then have alike: "reads_alike (cf_Options ?r) (cf_Options ?c)"
    using laid_alike [OF _ n, of 3] ys(3) by (simp add: laid_source_def options_tree_def)
  have needs: "needs_password v \<longleftrightarrow> password \<noteq> ''''" using password_empty [OF assms(3)] by blast
  obtain f where f: "map_of (engine_factories (ch_env host)) (sf_sourceType v) = Some f"
    "fa_Build f ?c ?credential = Inr (adapter_of (ch_env host) v password)"
    "fst (ad_Validate (adapter_of (ch_env host) v password) (definition_of ?c) (ch_dialed host)) = None"
    using factory_accepts [OF assms(4,7) type needs add(3) refl] by blast
  have build: "fa_Build f ?r ?credential = Inr (adapter_of (ch_env host) v password)"
    using factory_alike [OF _ alike, of _ f ?credential] f(1,2) by (simp add: laid_source_def)
  have "\<exists>s2. get_credential m ?r s1 = (Inr ?credential, s2)"
  proof (cases "cf_CredentialRef ?c = ''''")
    case True
    then have "?credential = []" by (simp add: configured_source_def split: if_splits)
    then show ?thesis using True by (simp add: get_credential_def)
  next
    case False
    then have "password \<noteq> ''''" by (auto simp: configured_source_def source_credential_empty split: if_splits)
    then have "store = Some (mg_secrets m)" using store(1) assms(11) by (simp add: store_selected_def)
    then have "fst (cs_Get (mg_secrets m) (cf_CredentialRef ?c) s1) = Inr ?credential"
      using stored_credential [OF assms(13-15) False] add(4) by simp
    then show ?thesis using False by (simp add: get_credential_def) (metis prod.collapse)
  qed
  then obtain s2 where cred: "get_credential m ?r s1 = (Inr ?credential, s2)" by blast
  obtain w where "prepareOne m ?r (s1, ch_dialed host) =
      (Inr \<lparr>ms_definition = definition_of ?r, ms_adapter = adapter_of (ch_env host) v password,
        ms_fingerprint = fingerprint ?r ?credential\<rparr>, s2, w)"
    using prepared [OF _ cred build, of "ch_dialed host"] f(1,3) assms(12) by auto
  then show ?thesis using load(3) mem described_definition [OF type, of ?credential] by (intro exI [of _ "Clone (reread_document (with_source d0 ?c) ys)"] exI [of _ dk2] exI [of _ ?r]) auto
qed

section \<open>An example\<close>

lemma map_store_exact: "exact_store map_store (\<lambda>_. True) (\<lambda>s. s) (\<lambda>_. True)"
  by unfold_locales (auto simp: map_store_def split: option.splits if_splits)

lemma home_plain: "plain_path ''/home/me/config.json''"
proof -
  have dir: "filepath_Dir ''/home/me/config.json'' = ''/home/me''" "filepath_Dir (backup_path ''/home/me/config.json'') = ''/home/me''"
    by code_simp+
  have "''/home/me/config.json'' \<noteq> temp_path ''/home/me'' x" "backup_path ''/home/me/config.json'' \<noteq> temp_path ''/home/me'' x" for x
    by (simp_all add: temp_path_def has_suffix_def backup_path_def)
  then show ?thesis by (simp add: plain_path_def temporary_path_def dir)
qed

theorem added_source_is_served_witness:
  "\<exists>dk1 d' dk2 c s2 w.
    sourceAdd (demo_cli (''secret'' @ [CHR 0x0A])) demo_args True (empty_disk, Map.empty, True) =
      ((None, added_text demo_flags True), (dk1, [''quackridge/source/sales'' \<mapsto> source_credential demo_flags ''secret''], True)) \<and>
    Load quiet_oracle ''/home/me/config.json'' dk1 = (Inr d', dk2) \<and> c \<in> set (sources_of d') \<and> cf_ID c = ''sales'' \<and> cf_Enabled c \<and>
    prepareOne demo_cli_manager c ([''quackridge/source/sales'' \<mapsto> source_credential demo_flags ''secret''], (running_engine, [])) =
      (Inr \<lparr>ms_definition = described_source demo_flags,
        ms_adapter = adapter_of read_only_env demo_flags ''secret'', ms_fingerprint = fingerprint c (source_credential demo_flags ''secret'')\<rparr>,
       s2, w)"
proof -
  let ?host = "demo_cli (''secret'' @ [CHR 0x0A])"
  obtain dk1 where add: "sourceAdd ?host demo_args True (empty_disk, Map.empty, True) =
      ((None, added_text demo_flags True), (dk1, [''quackridge/source/sales'' \<mapsto> source_credential demo_flags ''secret''], True))"
    using demo_add [of "''secret''" Map.empty True] by blast
  have host: "parseSourceFlags (ch_configPath ?host) demo_args = Inr demo_flags" "password_of (ch_stdin ?host) demo_flags = Inr ''secret''"
    "dh_oracle (ch_doctor ?host) = quiet_oracle" "dh_system (ch_doctor ?host) = Inr (mg_secrets demo_cli_manager)"
    "mg_factories demo_cli_manager = engine_factories (ch_env ?host)" "mg_secrets demo_cli_manager = map_store"
    "ch_dialed ?host = (running_engine, [])" "ch_env ?host = read_only_env"
    using demo_parse demo_type demo_password [of "''secret''"]
    by (simp_all add: demo_cli_def demo_cli_doctor_def demo_cli_manager_def password_of_def)
  have texts: "ascii ''secret''" "utf8 (sf_id demo_flags)" "utf8 (sf_name demo_flags)" "plain_path (sf_configPath demo_flags)"
    using home_plain by (simp_all add: demo_flags_def default_flags_def ascii_utf8 ascii_def byte_def)
  have first: "list_all plain_source (sources_of d0)" if "Load quiet_oracle (sf_configPath demo_flags) empty_disk = (Inr d0, dk0)" for d0 dk0
    using demo_first_load [of "sf_configPath demo_flags"] that by (auto simp: sources_of_def)
  have calm: "or_fault quiet_oracle n = None" for n by (simp add: quiet_calm)
  show ?thesis
    using added_source_is_served [OF add host(1,2) demo_flags_plain texts(2,3,1,4) _ calm host(4,5)
        map_store_exact [folded host(6)]] first add unfolding host demo_type(4) by (simp add: demo_flags_def)
qed

end
