(* ===== verification/Serve.thy ===== *)
theory Serve
  imports Cli Daemon
begin

text \<open>
  The serve command up to its readiness (internal/cli/cli.go), and the release smoke test (cmd/releasesmoke/main.go), which
  starts it as a child process and asks it for its status and diagnostics.  The two stores that serve chooses from are given
  over one state; what the daemon does until it is told to stop is theory Daemon.
\<close>

section \<open>serve\<close>

record serve_flags =
  vf_config :: string
  vf_extensions :: string
  vf_control :: string
  vf_provider :: string
  vf_json :: bool

definition serve_flag_set :: "(string \<times> serve_flags flag_def) list" where
  "serve_flag_set =
    [(''config'', text_flag (\<lambda>v. vf_config_update (\<lambda>_. v))), (''extensions'', text_flag (\<lambda>v. vf_extensions_update (\<lambda>_. v))),
     (''control'', text_flag (\<lambda>v. vf_control_update (\<lambda>_. v))), (''credential-provider'', text_flag (\<lambda>v. vf_provider_update (\<lambda>_. v))),
     (''json'', bool_flag (\<lambda>b. vf_json_update (\<lambda>_. b)))]"

definition default_serve_flags :: "('s, 'd) cli_host \<Rightarrow> serve_flags" where
  "default_serve_flags host = \<lparr>vf_config = or_empty (ch_configPath host), vf_extensions = ch_extensionDir host,
     vf_control = or_empty (ch_controlAddress host), vf_provider = ''system'', vf_json = False\<rparr>"

definition ready_text :: "('s, 'd) cli_host \<Rightarrow> bool \<Rightarrow> status \<Rightarrow> string" where
  "ready_text host jsonOutput st = line (if jsonOutput then ch_status_json host st
     else ''QuackRidge '' @ state_text (st_State st) @ '' at '' @ st_Endpoint st)"

definition serve_store :: "('s, 'd) cli_host \<Rightarrow> 's credential_ops \<Rightarrow> string \<Rightarrow> 's credential_ops res" where
  "serve_store host lazy provider = (if provider = ''system'' then Inr lazy
     else if provider = ''environment'' then Inr (dh_environment (ch_doctor host))
     else Inl (Plain ''credential provider must be system or environment''))"

text \<open>The error with the service that is left, or the daemon; and what is printed.\<close>

definition cli_serve :: "('s, 'd) cli_host \<Rightarrow> (nat \<Rightarrow> env) \<Rightarrow> 's credential_ops \<Rightarrow> int \<Rightarrow> (string \<Rightarrow> go_error option) \<Rightarrow>
    string list \<Rightarrow> disk \<times> 's \<Rightarrow> ((go_error \<times> 's live service option) + 's daemon) \<times> string" where
  "cli_serve host envs lazy now listen args ls =
     (case parse_flags serve_flag_set args (default_serve_flags host) of
        Inl e \<Rightarrow> (Inl (e, None), [])
      | Inr (v, _) \<Rightarrow> (case serve_store host lazy (vf_provider v) of
          Inl e \<Rightarrow> (Inl (e, None), [])
        | Inr store \<Rightarrow> (case serve_start envs (dh_oracle (ch_doctor host)) (vf_config v) store (vf_extensions v) now
              (listen (vf_control v)) ls of
            Inl failure \<Rightarrow> (Inl failure, [])
          | Inr d \<Rightarrow> (Inr d, ready_text host (vf_json v) (daemon_Status envs d)))))"

section \<open>The smoke test\<close>

text \<open>The child process: a process that ended is kept until it is waited for, and it exited by itself or was killed.\<close>

datatype child = No_child | Running | Ended bool | Reaped bool

record smoke =
  sk_directory :: bool
  sk_child :: child
  sk_kills :: nat

text \<open>What the machine answers: \<open>mh_line\<close> is the first line of the child's output, empty when there is none, or \<open>None\<close> when
  none came in thirty seconds; a kill that fails finds that the child exited, or leaves it.\<close>

record smoke_host =
  mh_windows :: bool
  mh_pid :: string
  mh_MkdirTemp :: "string res"
  mh_pipes :: "go_error option"
  mh_Start :: "string list \<Rightarrow> go_error option"
  mh_line :: "string option"
  mh_stderr :: string
  mh_call :: "string \<Rightarrow> control_request \<Rightarrow> (string \<times> json) list control_response res"
  mh_Kill :: "nat \<Rightarrow> go_error option"
  mh_exited :: "nat \<Rightarrow> bool"

definition smoke_kill :: "smoke_host \<Rightarrow> smoke \<Rightarrow> go_error option \<times> smoke" where
  "smoke_kill host s = (case sk_child s of
     Running \<Rightarrow> (let err = mh_Kill host (sk_kills s) in (err, s\<lparr>sk_kills := Suc (sk_kills s),
       sk_child := (if err = None then Ended False else if mh_exited host (sk_kills s) then Ended True else Running)\<rparr>))
   | _ \<Rightarrow> (Some (Plain ''os: process already finished''), s))"

text \<open>Waiting for a child that neither exits nor was killed does not return: \<open>None\<close>.\<close>

definition smoke_wait :: "smoke \<Rightarrow> smoke option" where
  "smoke_wait s = (case sk_child s of
     Running \<Rightarrow> None | Ended exited \<Rightarrow> Some (s\<lparr>sk_child := Reaped exited\<rparr>) | _ \<Rightarrow> Some s)"

text \<open>What is deferred: the child is killed and waited for unless it exited and was waited for, and the directory is removed.\<close>

definition smoke_cleanup :: "smoke_host \<Rightarrow> go_error option \<Rightarrow> smoke \<Rightarrow> (go_error option \<times> smoke) option" where
  "smoke_cleanup host err s =
     (let remove = (\<lambda>s. (err, s\<lparr>sk_directory := False\<rparr>)) in
      if sk_child s = No_child \<or> sk_child s = Reaped True then Some (remove s)
      else map_option remove (smoke_wait (snd (smoke_kill host s))))"

definition smoke_flags :: "string \<Rightarrow> string \<Rightarrow> string \<Rightarrow> string list" where
  "smoke_flags config extensions address =
     [''--config'', config, ''--extensions'', extensions, ''--control'', address, ''--credential-provider'', ''environment'', ''--json'']"

definition control_socket :: "smoke_host \<Rightarrow> string \<Rightarrow> string" where
  "control_socket host tempdir = (if mh_windows host
     then [CHR 0x5C, CHR 0x5C, CHR ''.'', CHR 0x5C] @ ''pipe'' @ [CHR 0x5C] @ ''quackridge-release-smoke-'' @ mh_pid host
     else filepath_Join [tempdir, ''control.sock''])"

text \<open>The checks of the control plane.\<close>

definition smoke_status :: "smoke_host \<Rightarrow> string \<Rightarrow> bool" where
  "smoke_status host address = (case mh_call host address (control_request_of ''status'') of
     Inl _ \<Rightarrow> False
   | Inr r \<Rightarrow> cs_OK r \<and> (case cs_Status r of None \<Rightarrow> False | Some st \<Rightarrow> st_Endpoint st \<noteq> []))"

definition smoke_diagnostics :: "smoke_host \<Rightarrow> string \<Rightarrow> bool" where
  "smoke_diagnostics host address = (case mh_call host address (control_request_of ''diagnostics'') of
     Inl _ \<Rightarrow> False
   | Inr r \<Rightarrow> cs_OK r \<and> (case cs_Diagnostics r of None \<Rightarrow> False
       | Some m \<Rightarrow> map_of m ''settings'' \<noteq> None \<and> map_of m ''settings'' \<noteq> Some JNull))"

definition quoted_endpoint :: string where
  "quoted_endpoint = [CHR 0x22] @ ''endpoint'' @ [CHR 0x22]"

definition smoke_checks :: "smoke_host \<Rightarrow> string \<Rightarrow> smoke \<Rightarrow> (go_error option \<times> smoke) option" where
  "smoke_checks host address s = (case mh_line host of
     None \<Rightarrow> Some (Some (Plain ''timed out waiting for release readiness''), s)
   | Some row \<Rightarrow>
     if \<not> contains quoted_endpoint row
     then (case smoke_wait (snd (smoke_kill host s)) of None \<Rightarrow> None
       | Some s \<Rightarrow> Some (Some (Plain (''release did not become ready: '' @ mh_stderr host)), s))
     else if \<not> smoke_status host address then Some (Some (Plain ''release control status check failed''), s)
     else if \<not> smoke_diagnostics host address then Some (Some (Plain ''release diagnostics check failed''), s)
     else (case smoke_kill host s of
         (Some e, s) \<Rightarrow> Some (Some e, s)
       | (None, s) \<Rightarrow> map_option (\<lambda>s. (None, s)) (smoke_wait s)))"

definition smoke_session :: "smoke_host \<Rightarrow> string \<Rightarrow> string \<Rightarrow> string \<Rightarrow> smoke \<Rightarrow> (go_error option \<times> smoke) option" where
  "smoke_session host binary extensions tempdir s =
     (let address = control_socket host tempdir;
          command = binary # ''serve'' # smoke_flags (filepath_Join [tempdir, ''config.json'']) extensions address in
      case mh_pipes host of Some e \<Rightarrow> smoke_cleanup host (Some e) s
      | None \<Rightarrow> (case mh_Start host command of Some e \<Rightarrow> smoke_cleanup host (Some e) s
        | None \<Rightarrow> (case smoke_checks host address (s\<lparr>sk_child := Running\<rparr>) of None \<Rightarrow> None
          | Some (err, s) \<Rightarrow> smoke_cleanup host err s)))"

definition smoke_run :: "smoke_host \<Rightarrow> string list \<Rightarrow> (go_error option \<times> smoke) option" where
  "smoke_run host args =
     (let idle = \<lparr>sk_directory = False, sk_child = No_child, sk_kills = 0\<rparr> in
      case parse_flags [(''binary'', text_flag (\<lambda>x (_, e). (x, e))), (''extensions'', text_flag (\<lambda>x (b, _). (b, x)))] args ([], []) of
        Inl e \<Rightarrow> Some (Some e, idle)
      | Inr ((binary, extensions), _) \<Rightarrow>
          if binary = [] \<or> extensions = [] then Some (Some (Plain ''binary and extensions are required''), idle)
          else (case mh_MkdirTemp host of Inl e \<Rightarrow> Some (Some e, idle)
            | Inr tempdir \<Rightarrow> smoke_session host binary extensions tempdir (idle\<lparr>sk_directory := True\<rparr>)))"

section \<open>Nothing is left behind\<close>

text \<open>The command line of the child is one that serve accepts, whatever the paths are.\<close>

lemma smoke_flags_accepted:
  "parse_flags serve_flag_set (smoke_flags config extensions address) v =
     Inr (\<lparr>vf_config = config, vf_extensions = extensions, vf_control = address, vf_provider = ''environment'', vf_json = True\<rparr>, [])"
  unfolding smoke_flags_def serve_flag_set_def
  by (cases v) (simp add: parse_flags.simps flag_step_def cut_byte_def text_flag_def bool_flag_def ParseBool_def)

text \<open>A kill that fails has found that the child exited.\<close>

definition kills_end :: "smoke_host \<Rightarrow> bool" where
  "kills_end host \<longleftrightarrow> (\<forall>n. mh_Kill host n \<noteq> None \<longrightarrow> mh_exited host n)"

definition settled_child :: "smoke \<Rightarrow> bool" where
  "settled_child s \<longleftrightarrow> sk_child s = No_child \<or> (\<exists>exited. sk_child s = Reaped exited)"

lemma killed: "kills_end host \<Longrightarrow> sk_child (snd (smoke_kill host s)) \<noteq> Running"
  by (auto simp: smoke_kill_def kills_end_def Let_def split: child.splits)

lemma waited: "sk_child s \<noteq> Running \<Longrightarrow> \<exists>s'. smoke_wait s = Some s' \<and> settled_child s'"
  by (cases "sk_child s") (auto simp: smoke_wait_def settled_child_def)

lemma cleaned:
  assumes "kills_end host"
  shows "\<exists>s'. smoke_cleanup host err s = Some (err, s') \<and> \<not> sk_directory s' \<and> settled_child s'"
proof -
  obtain t where "smoke_wait (snd (smoke_kill host s)) = Some t" "settled_child t" using waited [OF killed [OF assms]] by blast
  then show ?thesis by (auto simp: smoke_cleanup_def Let_def settled_child_def)
qed

lemma checked:
  assumes "kills_end host"
  shows "\<exists>err s'. smoke_checks host address s = Some (err, s') \<and>
    (err = None \<longrightarrow> (\<exists>row. mh_line host = Some row \<and> contains quoted_endpoint row) \<and> smoke_status host address \<and> smoke_diagnostics host address)"
proof -
  obtain t where t: "smoke_wait (snd (smoke_kill host s)) = Some t" using waited [OF killed [OF assms]] by blast
  obtain e u where k: "smoke_kill host s = (e, u)" by fastforce
  show ?thesis using t k by (auto simp: smoke_checks_def split: option.splits)
qed


text \<open>On a machine where a kill that fails has found that the child exited, the smoke test returns, whatever it was
  answered: the directory it made is removed, the child it started was waited for, and it succeeds only when the
  child reported an endpoint, its control plane a status with an endpoint and diagnostics with settings.\<close>

lemma smoke_leaves_nothing:
  assumes "kills_end host"
  shows "\<exists>err s. smoke_run host args = Some (err, s) \<and> \<not> sk_directory s \<and> settled_child s \<and>
    (err = None \<longrightarrow> (\<exists>tempdir row. mh_MkdirTemp host = Inr tempdir \<and> mh_line host = Some row \<and> contains quoted_endpoint row \<and>
       smoke_status host (control_socket host tempdir) \<and> smoke_diagnostics host (control_socket host tempdir)))"
proof -
  let ?idle = "\<lparr>sk_directory = False, sk_child = No_child, sk_kills = 0\<rparr>"
  have idle: "\<not> sk_directory ?idle \<and> settled_child ?idle" by (simp add: settled_child_def)
  have session: "\<exists>err s'. smoke_session host binary extensions tempdir s = Some (err, s') \<and> \<not> sk_directory s' \<and> settled_child s' \<and>
      (err = None \<longrightarrow> (\<exists>row. mh_line host = Some row \<and> contains quoted_endpoint row) \<and>
         smoke_status host (control_socket host tempdir) \<and> smoke_diagnostics host (control_socket host tempdir))"
    for binary extensions tempdir s
  proof -
    let ?address = "control_socket host tempdir"
    obtain err t where c: "smoke_checks host ?address (s\<lparr>sk_child := Running\<rparr>) = Some (err, t)"
      "err = None \<longrightarrow> (\<exists>row. mh_line host = Some row \<and> contains quoted_endpoint row) \<and> smoke_status host ?address \<and> smoke_diagnostics host ?address"
      using checked [OF assms] by blast
    have failed: ?thesis if "smoke_session host binary extensions tempdir s = smoke_cleanup host (Some e) s" for e
      using cleaned [OF assms, of "Some e" s] that by auto
    show ?thesis
    proof (cases "mh_pipes host")
      case None
      note pipes = None
      show ?thesis
      proof (cases "mh_Start host (binary # ''serve'' # smoke_flags (filepath_Join [tempdir, ''config.json'']) extensions ?address)")
        case None
        obtain s1 where "smoke_cleanup host err t = Some (err, s1)" "\<not> sk_directory s1" "settled_child s1" using cleaned [OF assms] by blast
        then show ?thesis using c None pipes by (simp add: smoke_session_def Let_def)
      qed (rule failed, simp add: smoke_session_def Let_def pipes)
    qed (rule failed, simp add: smoke_session_def Let_def)
  qed
  show ?thesis
  proof (cases "parse_flags [(''binary'', text_flag (\<lambda>x (_, e). (x, e))), (''extensions'', text_flag (\<lambda>x (b, _). (b, x)))] args ([], [])")
    case (Inl e)
    then show ?thesis using idle by (simp add: smoke_run_def Let_def)
  next
    case (Inr p)
    obtain binary extensions rest where p: "p = ((binary, extensions), rest)" by (metis prod.exhaust)
    show ?thesis
    proof (cases "binary = [] \<or> extensions = []")
      case True
      then show ?thesis using idle Inr p by (simp add: smoke_run_def Let_def)
    next
      case False
      note run = Inr [unfolded p] False
      show ?thesis
      proof (cases "mh_MkdirTemp host")
        case (Inl e)
        then show ?thesis using idle run by (simp add: smoke_run_def Let_def)
      next
        case (Inr tempdir)
        then show ?thesis using session [of binary extensions tempdir "?idle\<lparr>sk_directory := True\<rparr>"] run
          by (auto simp: smoke_run_def Let_def)
      qed
    qed
  qed
qed

end
