(* ===== verification/Release.thy ===== *)
theory Release
  imports Cli
begin

text \<open>
  The release manifest (protocol/v2/release.go): its fields and their validation.  Of package net/url the scheme and the
  host of a parsed URL are modelled, and every error; whether the text in the brackets of a host is an IPv6
  literal is asked of \<open>literal\<close>.
\<close>

section \<open>URLs\<close>

definition is_letter_byte :: "char \<Rightarrow> bool" where
  "is_letter_byte c \<longleftrightarrow> is_lower_byte c \<or> is_upper_byte c"

text \<open>\<open>getScheme\<close>: \<open>None\<close> is an error; no scheme is the empty one.  The flag says whether the position is the first.\<close>

fun scheme_end :: "bool \<Rightarrow> string \<Rightarrow> nat option" where
  "scheme_end first [] = None"
| "scheme_end first (c # cs) =
     (if is_letter_byte c \<or> (is_digit_byte c \<or> List.member ''+-.'' c) \<and> \<not> first then map_option Suc (scheme_end False cs)
      else if c = CHR '':'' then Some 0 else None)"

definition getScheme :: "string \<Rightarrow> (string \<times> string) option" where
  "getScheme raw = (if has_prefix '':'' raw then None
     else Some (case scheme_end True raw of None \<Rightarrow> ([], raw) | Some n \<Rightarrow> (take n raw, drop (Suc n) raw)))"

text \<open>Whether \<open>unescape\<close> accepts a text: every percent sign starts an escape that the second argument allows, and every
  other byte is allowed by the first.\<close>

fun unescapes :: "(char \<Rightarrow> bool) \<Rightarrow> (nat \<Rightarrow> bool) \<Rightarrow> string \<Rightarrow> bool" where
  "unescapes byte_ok esc_ok [] = True"
| "unescapes byte_ok esc_ok (c # cs) =
     (if c = CHR ''%''
      then (case cs of a # b # rest \<Rightarrow> (case (hex_value a, hex_value b) of
              (Some x, Some y) \<Rightarrow> esc_ok (16 * x + y) \<and> unescapes byte_ok esc_ok rest
            | _ \<Rightarrow> False)
          | _ \<Rightarrow> False)
      else byte_ok c \<and> unescapes byte_ok esc_ok cs)"

definition plain_unescapes :: "string \<Rightarrow> bool" where
  "plain_unescapes = unescapes (\<lambda>_. True) (\<lambda>_. True)"

definition is_alnum_byte :: "char \<Rightarrow> bool" where
  "is_alnum_byte c \<longleftrightarrow> is_letter_byte c \<or> is_digit_byte c"

text \<open>In a host, escapes stand for bytes outside ASCII or for a percent sign.\<close>

definition host_byte :: "char \<Rightarrow> bool" where
  "host_byte c \<longleftrightarrow> 128 \<le> byte c \<or> is_alnum_byte c \<or> List.member ''!$&()*+,;=:[]<>-_.~'' c \<or> byte c = 39 \<or> byte c = 34"

definition host_unescapes :: "string \<Rightarrow> bool" where
  "host_unescapes = unescapes host_byte (\<lambda>n. 128 \<le> n \<or> n = 37)"

text \<open>\<open>parseHost\<close>: a bracketed host is an IP literal; another has at most one colon, before a port.\<close>

definition host_ok :: "(string \<Rightarrow> bool) \<Rightarrow> string \<Rightarrow> bool" where
  "host_ok literal host =
     (if CHR ''['' \<in> set host then literal host
      else (case cut_byte CHR '':'' host of None \<Rightarrow> True | Some (_, port) \<Rightarrow> list_all is_digit_byte port) \<and>
        host_unescapes host)"

definition userinfo_byte :: "char \<Rightarrow> bool" where
  "userinfo_byte c \<longleftrightarrow> is_alnum_byte c \<or> List.member ''-._:~!$&()*+,;=%@'' c \<or> byte c = 39"

text \<open>\<open>parseAuthority\<close>: the host after the last at sign.\<close>

definition parseAuthority :: "(string \<Rightarrow> bool) \<Rightarrow> string \<Rightarrow> string option" where
  "parseAuthority literal authority =
     (let host = rev (takeWhile (\<lambda>c. c \<noteq> CHR ''@'') (rev authority));
          userinfo = take (length authority - length host - 1) authority
      in if \<not> host_ok literal host then None
         else if host = authority then Some host
         else if list_all userinfo_byte userinfo \<and> plain_unescapes userinfo then Some host else None)"

record parsed_url =
  url_Scheme :: string
  url_Host :: string

definition before :: "char \<Rightarrow> string \<Rightarrow> string" where
  "before c s = takeWhile (\<lambda>x. x \<noteq> c) s"

definition onward :: "char \<Rightarrow> string \<Rightarrow> string" where
  "onward c s = dropWhile (\<lambda>x. x \<noteq> c) s"

definition url_of :: "string \<Rightarrow> string \<Rightarrow> parsed_url" where
  "url_of scheme host = \<lparr>url_Scheme = scheme, url_Host = host\<rparr>"

text \<open>After the scheme and without the query and the fragment.  An error is \<open>None\<close>.  The host is the escaped one, which
  is empty exactly when the unescaped one is.\<close>

definition parse_rest :: "(string \<Rightarrow> bool) \<Rightarrow> string \<Rightarrow> string \<Rightarrow> parsed_url option" where
  "parse_rest literal scheme rest =
     (if \<not> has_prefix ''/'' rest \<and> scheme \<noteq> '''' then Some (url_of scheme '''')
      else if \<not> has_prefix ''/'' rest \<and> CHR '':'' \<in> set (before CHR ''/'' rest) then None
      else if has_prefix ''//'' rest \<and> (scheme \<noteq> '''' \<or> \<not> has_prefix ''///'' rest)
      then (case parseAuthority literal (before CHR ''/'' (drop 2 rest)) of None \<Rightarrow> None
          | Some host \<Rightarrow> if plain_unescapes (onward CHR ''/'' (drop 2 rest)) then Some (url_of scheme host) else None)
      else if plain_unescapes rest then Some (url_of scheme '''') else None)"

definition control_byte :: "char \<Rightarrow> bool" where
  "control_byte c \<longleftrightarrow> byte c < 32 \<or> byte c = 127"

definition url_Parse :: "(string \<Rightarrow> bool) \<Rightarrow> string \<Rightarrow> parsed_url option" where
  "url_Parse literal raw =
     (let u = before CHR ''#'' raw; fragment = onward CHR ''#'' raw;
          parsed = (if list_ex control_byte u then None
            else if u = ''*'' then Some (url_of '''' '''')
            else case getScheme u of None \<Rightarrow> None
              | Some (scheme, rest) \<Rightarrow> parse_rest literal (to_lower scheme) (before CHR ''?'' rest))
      in if plain_unescapes fragment then parsed else None)"

section \<open>The manifest\<close>

text \<open>\<open>releaseVersionPattern\<close>: three numbers, and an optional suffix after a dash or a plus sign.\<close>

definition suffix_byte :: "char \<Rightarrow> bool" where
  "suffix_byte c \<longleftrightarrow> is_alnum_byte c \<or> c = CHR ''.'' \<or> c = CHR ''-''"

definition version_suffix :: "string \<Rightarrow> bool" where
  "version_suffix s = (case s of [] \<Rightarrow> True | c # cs \<Rightarrow> (c = CHR ''-'' \<or> c = CHR ''+'') \<and> cs \<noteq> [] \<and> list_all suffix_byte cs)"

definition releaseVersionPattern :: "string \<Rightarrow> bool" where
  "releaseVersionPattern s = (case digits s of
     Some (_, c # r1) \<Rightarrow> c = CHR ''.'' \<and> (case digits r1 of
         Some (_, c # r2) \<Rightarrow> c = CHR ''.'' \<and> (case digits r2 of Some (_, r3) \<Rightarrow> version_suffix r3 | None \<Rightarrow> False)
       | _ \<Rightarrow> False)
   | _ \<Rightarrow> False)"

record release_asset =
  ra_OS :: string
  ra_Arch :: string
  ra_URL :: string
  ra_SHA256 :: string
  ra_Signature :: string
  ra_MinimumOS :: string

record release_manifest =
  rm_Version :: string
  rm_Channel :: string
  rm_Minimum :: int
  rm_Maximum :: int
  rm_Assets :: "release_asset list"

definition asset_target :: "release_asset \<Rightarrow> string" where
  "asset_target a = ra_OS a @ ''/'' @ ra_Arch a"

definition supported_targets :: "string list" where
  "supported_targets = [''darwin/amd64'', ''darwin/arm64'', ''linux/amd64'', ''windows/amd64'']"

definition required_targets :: "string list" where
  "required_targets = [''darwin/amd64'', ''darwin/arm64'', ''linux/amd64'']"

definition https_url :: "(string \<Rightarrow> bool) \<Rightarrow> string \<Rightarrow> bool" where
  "https_url literal raw = (case url_Parse literal raw of None \<Rightarrow> False
     | Some u \<Rightarrow> url_Scheme u = ''https'' \<and> url_Host u \<noteq> '''')"

definition target_error :: "release_asset \<Rightarrow> string \<Rightarrow> go_error" where
  "target_error a what = Plain (''release target '' @ quoted (asset_target a) @ '' '' @ what)"

fun check_assets :: "(string \<Rightarrow> bool) \<Rightarrow> release_asset list \<Rightarrow> string list \<Rightarrow> string list res" where
  "check_assets literal [] seen = Inr seen"
| "check_assets literal (a # as) seen =
     (if asset_target a \<notin> set supported_targets then Inl (target_error a ''is unsupported'')
      else if asset_target a \<in> set seen then Inl (target_error a ''is duplicated'')
      else if \<not> https_url literal (ra_URL a) then Inl (target_error a ''URL is invalid'')
      else if length (ra_SHA256 a) \<noteq> 64 then Inl (target_error a ''checksum is invalid'')
      else if \<not> hex_decodes (ra_SHA256 a) then Inl (target_error a ''checksum is invalid'')
      else if \<not> https_url literal (ra_Signature a) then Inl (target_error a ''signature URL is invalid'')
      else if ra_MinimumOS a = '''' then Inl (target_error a ''minimum OS is missing'')
      else check_assets literal as (asset_target a # seen))"

definition ValidateReleaseManifest :: "(string \<Rightarrow> bool) \<Rightarrow> release_manifest \<Rightarrow> go_error option" where
  "ValidateReleaseManifest literal m =
     (if \<not> releaseVersionPattern (rm_Version m) then Some (Plain ''release version is invalid'')
      else if rm_Channel m \<noteq> ''prerelease'' \<and> rm_Channel m \<noteq> ''stable'' then Some (Plain ''release channel is invalid'')
      else if rm_Minimum m \<noteq> 2 \<or> rm_Maximum m \<noteq> 2 then Some (Plain ''release protocol range is invalid'')
      else case check_assets literal (rm_Assets m) [] of Inl e \<Rightarrow> Some e
        | Inr seen \<Rightarrow> if \<not> set required_targets \<subseteq> set seen
            then Some (Plain ''release manifest does not contain every required target'') else None)"

section \<open>What a valid manifest is\<close>

definition release_version :: "string \<Rightarrow> bool" where
  "release_version s \<longleftrightarrow> (\<exists>a b c t. s = a @ ''.'' @ b @ ''.'' @ c @ t \<and>
     (\<forall>d \<in> {a, b, c}. d \<noteq> [] \<and> list_all is_digit_byte d) \<and>
     (t = [] \<or> (\<exists>x u. t = x # u \<and> x \<in> {CHR ''-'', CHR ''+''} \<and> u \<noteq> [] \<and> list_all suffix_byte u)))"

lemma digits_append: "d \<noteq> [] \<Longrightarrow> list_all is_digit_byte d \<Longrightarrow> r = [] \<or> \<not> is_digit_byte (hd r) \<Longrightarrow> digits (d @ r) = Some (d, r)"
proof -
  assume a: "d \<noteq> []" "list_all is_digit_byte d" "r = [] \<or> \<not> is_digit_byte (hd r)"
  then have "takeWhile is_digit_byte r = []" "dropWhile is_digit_byte r = r" by (cases r; simp)+
  then show ?thesis using a by (simp add: digits_def list_all_iff)
qed

lemma digits_split: "digits s = Some (d, r) \<Longrightarrow> s = d @ r \<and> d \<noteq> [] \<and> list_all is_digit_byte d"
  by (auto simp: digits_def list_all_iff dest: set_takeWhileD split: if_splits)

lemma version_punctuation: "\<not> is_digit_byte CHR ''.''" "\<not> is_digit_byte CHR ''-''" "\<not> is_digit_byte CHR ''+''"
  by (simp_all add: is_digit_byte_def byte_def)

lemma releaseVersionPattern_exact: "releaseVersionPattern s \<longleftrightarrow> release_version s"
proof
  assume "releaseVersionPattern s"
  note v = this [unfolded releaseVersionPattern_def]
  obtain a q where q: "digits s = Some (a, q)" using v by (cases "digits s") auto
  obtain r1 where r1: "q = CHR ''.'' # r1" using v q by (cases q) simp_all
  obtain b q' where q': "digits r1 = Some (b, q')" using v q r1 by (cases "digits r1") auto
  obtain r2 where r2: "q' = CHR ''.'' # r2" using v q r1 q' by (cases q') simp_all
  obtain c t where t: "digits r2 = Some (c, t)" using v q r1 q' r2 by (cases "digits r2") auto
  have d: "digits s = Some (a, CHR ''.'' # r1)" "digits r1 = Some (b, CHR ''.'' # r2)" "digits r2 = Some (c, t)"
    "version_suffix t" using v q r1 q' r2 t by simp_all
  have "s = a @ ''.'' @ b @ ''.'' @ c @ t" using digits_split [OF d(1)] digits_split [OF d(2)] digits_split [OF d(3)] by simp
  moreover have "\<forall>x \<in> {a, b, c}. x \<noteq> [] \<and> list_all is_digit_byte x"
    using digits_split [OF d(1)] digits_split [OF d(2)] digits_split [OF d(3)] by simp
  moreover have "t = [] \<or> (\<exists>x u. t = x # u \<and> x \<in> {CHR ''-'', CHR ''+''} \<and> u \<noteq> [] \<and> list_all suffix_byte u)"
    using d(4) by (cases t) (auto simp: version_suffix_def)
  ultimately show "release_version s" unfolding release_version_def by blast
next
  assume "release_version s"
  then obtain a b c t where s: "s = a @ ''.'' @ b @ ''.'' @ c @ t" "a \<noteq> []" "list_all is_digit_byte a" "b \<noteq> []"
    "list_all is_digit_byte b" "c \<noteq> []" "list_all is_digit_byte c"
    "t = [] \<or> (\<exists>x u. t = x # u \<and> x \<in> {CHR ''-'', CHR ''+''} \<and> u \<noteq> [] \<and> list_all suffix_byte u)"
    unfolding release_version_def by blast
  have "t = [] \<or> \<not> is_digit_byte (hd t)" using s(8) version_punctuation by auto
  then have t: "digits (c @ t) = Some (c, t)" by (rule digits_append [OF s(6,7)])
  have dot: "x = [] \<or> \<not> is_digit_byte (hd x)" if "x = CHR ''.'' # y" for x y using that version_punctuation(1) by simp
  have "digits s = Some (a, CHR ''.'' # b @ CHR ''.'' # c @ t)" "digits (b @ CHR ''.'' # c @ t) = Some (b, CHR ''.'' # c @ t)"
    using digits_append [OF s(2,3) dot [OF refl]] digits_append [OF s(4,5) dot [OF refl]] s(1) by simp_all
  note d = this t
  show "releaseVersionPattern s" using d s(8) by (auto simp: releaseVersionPattern_def version_suffix_def)
qed

definition asset_ok :: "(string \<Rightarrow> bool) \<Rightarrow> release_asset \<Rightarrow> bool" where
  "asset_ok literal a \<longleftrightarrow> asset_target a \<in> set supported_targets \<and> https_url literal (ra_URL a) \<and>
     length (ra_SHA256 a) = 64 \<and> list_all (\<lambda>c. hex_value c \<noteq> None) (ra_SHA256 a) \<and>
     https_url literal (ra_Signature a) \<and> ra_MinimumOS a \<noteq> ''''"

lemma check_assets_ok:
  "check_assets literal as seen = Inr seen' \<longleftrightarrow>
     list_all (asset_ok literal) as \<and> distinct (map asset_target as) \<and> set (map asset_target as) \<inter> set seen = {} \<and>
     seen' = rev (map asset_target as) @ seen"
  by (induction as arbitrary: seen) (auto simp: asset_ok_def hex_decodes_def)

text \<open>C40. A release manifest is valid exactly when its version is three numbers with an optional suffix, its channel is one
  of the two, its protocol range is version 2, and its assets are for pairwise distinct supported targets, all
  required ones among them, each with https URLs of a host for the archive and its signature, a SHA-256 digest in
  hexadecimal and a minimum system.\<close>

theorem ValidateReleaseManifest_exact:
  "ValidateReleaseManifest literal m = None \<longleftrightarrow>
     release_version (rm_Version m) \<and> rm_Channel m \<in> {''prerelease'', ''stable''} \<and> rm_Minimum m = 2 \<and> rm_Maximum m = 2 \<and>
     list_all (asset_ok literal) (rm_Assets m) \<and> distinct (map asset_target (rm_Assets m)) \<and>
     set required_targets \<subseteq> asset_target ` set (rm_Assets m)"
proof (cases "check_assets literal (rm_Assets m) []")
  case (Inl e)
  then have "\<not> (list_all (asset_ok literal) (rm_Assets m) \<and> distinct (map asset_target (rm_Assets m)))"
    using check_assets_ok [of literal "rm_Assets m" "[]"] by auto
  then show ?thesis using Inl by (auto simp: ValidateReleaseManifest_def)
next
  case (Inr seen)
  then show ?thesis using check_assets_ok [of literal "rm_Assets m" "[]" seen]
    by (auto simp: ValidateReleaseManifest_def releaseVersionPattern_exact)
qed

end
