(* ===== verification/ReleaseTools.thy ===== *)
theory ReleaseTools
  imports Release JsonTree
begin

text \<open>
  The build-time tools (cmd/releasepack, cmd/releasemanifest, cmd/packagemanifests), over the disk of the configuration
  store: a directory is there when it is written to, and every file of the disk is regular.  The formats of tar,
  gzip and zip are parameters, an archive being a function of its time and its entries.
\<close>

section \<open>Files\<close>

text \<open>\<open>os.Stat\<close> and whether the file is regular.\<close>

definition fs_regular :: "fs_oracle \<Rightarrow> string \<Rightarrow> disk \<Rightarrow> bool \<times> disk" where
  "fs_regular orc path dk = (case fs_other orc dk of (err, dk') \<Rightarrow> (err = None \<and> dk_files dk path \<noteq> None, dk'))"

text \<open>Opening a file, reading it to its end or to an error, and closing it.\<close>

definition fs_read :: "fs_oracle \<Rightarrow> string \<Rightarrow> disk \<Rightarrow> file_bytes res \<times> disk" where
  "fs_read orc path dk = (case dk_files dk path of
     None \<Rightarrow> (Inl (Sentinel ErrNotExist), snd (fs_other orc dk))
   | Some (bytes, _) \<Rightarrow> (case fs_other orc dk of
       (Some e, dk) \<Rightarrow> (Inl (Plain (error_text e)), dk)
     | (None, dk) \<Rightarrow>
         (Inr (case or_fault orc (length (dk_log dk)) of
            None \<Rightarrow> \<lparr>fb_Bytes = bytes, fb_Error = None\<rparr>
          | Some (Fault e n) \<Rightarrow> \<lparr>fb_Bytes = take n bytes, fb_Error = Some e\<rparr>),
          snd (fs_other orc (snd (fs_other orc dk))))))"

text \<open>\<open>os.WriteFile\<close>: the file is emptied, written and closed.\<close>

definition fs_WriteFile :: "fs_oracle \<Rightarrow> string \<Rightarrow> string \<Rightarrow> disk \<Rightarrow> go_error option \<times> disk" where
  "fs_WriteFile orc path bytes dk = (case sys_call orc (\<lambda>fs. fs(path \<mapsto> ([], False))) (\<lambda>_. id) dk of
     (Some e, dk) \<Rightarrow> (Some e, dk)
   | (None, dk) \<Rightarrow> (case fs_Write orc path bytes dk of (err, dk) \<Rightarrow>
       (case fs_other orc dk of (err', dk) \<Rightarrow> (if err \<noteq> None then err else err', dk))))"

section \<open>Checksums\<close>

text \<open>\<open>bufio.Scanner\<close> with its own limit on a line.\<close>

datatype token = End | Too_long | Line string string

definition scan_token :: "string \<Rightarrow> token" where
  "scan_token s = (if s = [] then End
     else if CHR 0x0A \<in> set (take scan_limit s)
     then Line (drop_cr (takeWhile (\<lambda>c. c \<noteq> CHR 0x0A) s)) (tl (dropWhile (\<lambda>c. c \<noteq> CHR 0x0A) s))
     else if scan_limit \<le> length s then Too_long else Line (drop_cr s) [])"

definition checksum_of :: "file_bytes \<Rightarrow> string \<Rightarrow> string res" where
  "checksum_of f expectedName = (case scan_token (fb_Bytes f) of
     Line row rest \<Rightarrow> (case go_fields row of
         [digest, name] \<Rightarrow>
           if trim_prefix ''*'' name \<noteq> expectedName then Inl (Plain ''checksum file does not match its release asset'')
           else (case scan_token rest of
               Line _ _ \<Rightarrow> Inl (Plain ''checksum file contains multiple entries'')
             | Too_long \<Rightarrow> Inl (Plain ''bufio.Scanner: token too long'')
             | End \<Rightarrow> (case fb_Error f of Some e \<Rightarrow> Inl e | None \<Rightarrow> Inr digest))
       | _ \<Rightarrow> Inl (Plain ''checksum file does not match its release asset''))
   | _ \<Rightarrow> Inl (Plain ''checksum file is empty''))"

definition readChecksum :: "fs_oracle \<Rightarrow> string \<Rightarrow> string \<Rightarrow> disk \<Rightarrow> string res \<times> disk" where
  "readChecksum orc path expectedName dk = (case fs_read orc path dk of
     (Inl e, dk) \<Rightarrow> (Inl e, dk) | (Inr f, dk) \<Rightarrow> (checksum_of f expectedName, dk))"

text \<open>\<open>fileSHA256\<close> of releasemanifest and \<open>fileDigest\<close> of releasepack.\<close>

definition fileDigest :: "fs_oracle \<Rightarrow> string \<Rightarrow> disk \<Rightarrow> string res \<times> disk" where
  "fileDigest orc path dk = (case fs_read orc path dk of
     (Inl e, dk) \<Rightarrow> (Inl e, dk)
   | (Inr f, dk) \<Rightarrow> (case fb_Error f of Some e \<Rightarrow> Inl e | None \<Rightarrow> Inr (hex_encode (Sum256 (fb_Bytes f))), dk))"

section \<open>The manifest as JSON\<close>

definition asset_members :: "release_asset \<Rightarrow> (string \<times> string) list" where
  "asset_members a = [(''os'', encode_string (ra_OS a)), (''arch'', encode_string (ra_Arch a)),
     (''url'', encode_string (ra_URL a)), (''sha256'', encode_string (ra_SHA256 a)),
     (''signature'', encode_string (ra_Signature a)), (''minimum_os'', encode_string (ra_MinimumOS a))]"

text \<open>The assets of the tool are appended one by one, and there are some.\<close>

definition manifest_json :: "release_manifest \<Rightarrow> string" where
  "manifest_json m = indent_json (json_object
     [(''version'', encode_string (rm_Version m)), (''channel'', encode_string (rm_Channel m)),
      (''protocol'', json_object [(''minimum'', itoa (rm_Minimum m)), (''maximum'', itoa (rm_Maximum m))]),
      (''assets'', json_array (map (\<lambda>a. json_object (asset_members a)) (rm_Assets m)))])"

definition asset_setters :: "(string \<times> (string \<Rightarrow> json \<Rightarrow> release_asset \<Rightarrow> release_asset res)) list" where
  "asset_setters =
    [(''os'', set_string (\<lambda>x. ra_OS_update (\<lambda>_. x))), (''arch'', set_string (\<lambda>x. ra_Arch_update (\<lambda>_. x))),
     (''url'', set_string (\<lambda>x. ra_URL_update (\<lambda>_. x))), (''sha256'', set_string (\<lambda>x. ra_SHA256_update (\<lambda>_. x))),
     (''signature'', set_string (\<lambda>x. ra_Signature_update (\<lambda>_. x))),
     (''minimum_os'', set_string (\<lambda>x. ra_MinimumOS_update (\<lambda>_. x)))]"

definition zero_asset :: release_asset where
  "zero_asset = \<lparr>ra_OS = '''', ra_Arch = '''', ra_URL = '''', ra_SHA256 = '''', ra_Signature = '''', ra_MinimumOS = ''''\<rparr>"

definition protocol_setters :: "(string \<times> (string \<Rightarrow> json \<Rightarrow> release_manifest \<Rightarrow> release_manifest res)) list" where
  "protocol_setters = [(''minimum'', set_int (\<lambda>x. rm_Minimum_update (\<lambda>_. x))), (''maximum'', set_int (\<lambda>x. rm_Maximum_update (\<lambda>_. x)))]"

text \<open>A nested struct is filled where it is; the elements of a repeated member are decoded afresh.\<close>

definition set_protocol :: "string \<Rightarrow> json \<Rightarrow> release_manifest \<Rightarrow> release_manifest res" where
  "set_protocol raw v m = decode_struct protocol_setters m raw"

definition set_assets :: "string \<Rightarrow> json \<Rightarrow> release_manifest \<Rightarrow> release_manifest res" where
  "set_assets raw v m = (case v of
     JArr _ \<Rightarrow> (case raw_elements raw of None \<Rightarrow> Inl decode_error
       | Some xs \<Rightarrow> (case decode_elements (decode_struct asset_setters zero_asset) xs of
           Inl e \<Rightarrow> Inl e | Inr as \<Rightarrow> Inr (m\<lparr>rm_Assets := as\<rparr>)))
   | JNull \<Rightarrow> Inr (m\<lparr>rm_Assets := []\<rparr>)
   | _ \<Rightarrow> Inl decode_error)"

definition zero_manifest :: release_manifest where
  "zero_manifest = \<lparr>rm_Version = '''', rm_Channel = '''', rm_Minimum = 0, rm_Maximum = 0, rm_Assets = []\<rparr>"

definition decode_manifest :: "string \<Rightarrow> release_manifest res" where
  "decode_manifest = decode_struct
    [(''version'', set_string (\<lambda>x. rm_Version_update (\<lambda>_. x))), (''channel'', set_string (\<lambda>x. rm_Channel_update (\<lambda>_. x))),
     (''protocol'', set_protocol), (''assets'', set_assets)] zero_manifest"

section \<open>releasemanifest\<close>

record manifest_flags =
  mf_version :: string
  mf_channel :: string
  mf_repository :: string
  mf_directory :: string
  mf_verify :: bool

definition manifest_flag_set :: "(string \<times> manifest_flags flag_def) list" where
  "manifest_flag_set =
    [(''version'', text_flag (\<lambda>v. mf_version_update (\<lambda>_. v))), (''channel'', text_flag (\<lambda>v. mf_channel_update (\<lambda>_. v))),
     (''repository'', text_flag (\<lambda>v. mf_repository_update (\<lambda>_. v))), (''directory'', text_flag (\<lambda>v. mf_directory_update (\<lambda>_. v))),
     (''verify'', bool_flag (\<lambda>b. mf_verify_update (\<lambda>_. b)))]"

definition default_manifest_flags :: manifest_flags where
  "default_manifest_flags = \<lparr>mf_version = '''', mf_channel = ''prerelease'', mf_repository = ''pondpilot/quackridge'',
     mf_directory = ''dist'', mf_verify = False\<rparr>"

definition release_targets :: "(string \<times> string \<times> string) list" where
  "release_targets = [(''darwin'', ''amd64'', ''macOS 13''), (''darwin'', ''arm64'', ''macOS 13''), (''linux'', ''amd64'', ''glibc 2.35'')]"

definition archive_root :: "string \<Rightarrow> string \<Rightarrow> string \<Rightarrow> string" where
  "archive_root version os arch = ''quackridge_'' @ version @ ''_'' @ os @ ''_'' @ arch"

definition archive_name :: "string \<Rightarrow> string \<Rightarrow> string \<Rightarrow> string" where
  "archive_name version os arch = archive_root version os arch @ ''.tar.gz''"

definition base_url :: "manifest_flags \<Rightarrow> string" where
  "base_url v = ''https://github.com/'' @ mf_repository v @ ''/releases/download/v'' @ mf_version v @ ''/''"

definition built_asset :: "manifest_flags \<Rightarrow> string \<times> string \<times> string \<Rightarrow> string \<Rightarrow> release_asset" where
  "built_asset v = (\<lambda>(os, arch, minimum) digest.
     let name = archive_name (mf_version v) os arch in
     \<lparr>ra_OS = os, ra_Arch = arch, ra_URL = base_url v @ name, ra_SHA256 = digest,
      ra_Signature = base_url v @ name @ ''.sigstore.json'', ra_MinimumOS = minimum\<rparr>)"

fun build_assets :: "fs_oracle \<Rightarrow> manifest_flags \<Rightarrow> (string \<times> string \<times> string) list \<Rightarrow> disk \<Rightarrow> release_asset list res \<times> disk" where
  "build_assets orc v [] dk = (Inr [], dk)"
| "build_assets orc v ((os, arch, minimum) # targets) dk =
     (let name = archive_name (mf_version v) os arch in
      case readChecksum orc (filepath_Join [mf_directory v, name @ ''.sha256'']) name dk of
        (Inl e, dk) \<Rightarrow> (Inl e, dk)
      | (Inr digest, dk) \<Rightarrow> (case fs_regular orc (filepath_Join [mf_directory v, name @ ''.sigstore.json'']) dk of
          (False, dk) \<Rightarrow> (Inl (Plain (''signature bundle for '' @ name @ '' is unavailable'')), dk)
        | (True, dk) \<Rightarrow> (case build_assets orc v targets dk of
            (Inl e, dk) \<Rightarrow> (Inl e, dk)
          | (Inr as, dk) \<Rightarrow> (Inr (built_asset v (os, arch, minimum) digest # as), dk))))"

definition built_manifest :: "manifest_flags \<Rightarrow> release_asset list \<Rightarrow> release_manifest" where
  "built_manifest v as = \<lparr>rm_Version = mf_version v, rm_Channel = mf_channel v, rm_Minimum = 2, rm_Maximum = 2, rm_Assets = as\<rparr>"

definition manifest_path :: "string \<Rightarrow> string" where
  "manifest_path directory = filepath_Join [directory, ''release-manifest.json'']"

definition buildManifest :: "(string \<Rightarrow> bool) \<Rightarrow> fs_oracle \<Rightarrow> manifest_flags \<Rightarrow> disk \<Rightarrow> go_error option \<times> disk" where
  "buildManifest literal orc v dk = (case build_assets orc v release_targets dk of
     (Inl e, dk) \<Rightarrow> (Some e, dk)
   | (Inr as, dk) \<Rightarrow> (case ValidateReleaseManifest literal (built_manifest v as) of
       Some e \<Rightarrow> (Some e, dk)
     | None \<Rightarrow> fs_WriteFile orc (manifest_path (mf_directory v)) (manifest_json (built_manifest v as) @ [CHR 0x0A]) dk))"

text \<open>One asset of a manifest against the files of the directory.\<close>

definition verify_asset :: "fs_oracle \<Rightarrow> string \<Rightarrow> release_asset \<Rightarrow> disk \<Rightarrow> go_error option \<times> disk" where
  "verify_asset orc directory a dk =
     (let name = filepath_Base (ra_URL a); failed = (\<lambda>what. Some (Plain (''release asset '' @ name @ '' '' @ what))) in
      case fs_regular orc (filepath_Join [directory, name]) dk of (False, dk) \<Rightarrow> (failed ''is unavailable'', dk) | (True, dk) \<Rightarrow>
      case readChecksum orc (filepath_Join [directory, name @ ''.sha256'']) name dk of (digest, dk) \<Rightarrow>
      if digest \<noteq> Inr (ra_SHA256 a) then (failed ''checksum does not match the manifest'', dk)
      else case fileDigest orc (filepath_Join [directory, name]) dk of (actual, dk) \<Rightarrow>
      if actual \<noteq> Inr (ra_SHA256 a) then (failed ''content does not match its checksum'', dk)
      else case fs_regular orc (filepath_Join [directory, filepath_Base (ra_Signature a)]) dk of
        (False, dk) \<Rightarrow> (failed ''signature bundle is unavailable'', dk) | (True, dk) \<Rightarrow> (None, dk))"

fun verify_assets :: "fs_oracle \<Rightarrow> string \<Rightarrow> release_asset list \<Rightarrow> disk \<Rightarrow> go_error option \<times> disk" where
  "verify_assets orc directory [] dk = (None, dk)"
| "verify_assets orc directory (a # as) dk = (case verify_asset orc directory a dk of
     (Some e, dk) \<Rightarrow> (Some e, dk) | (None, dk) \<Rightarrow> verify_assets orc directory as dk)"

text \<open>Reading and validating the manifest, as releasemanifest and packagemanifests do.\<close>

definition read_manifest :: "(string \<Rightarrow> bool) \<Rightarrow> fs_oracle \<Rightarrow> string \<Rightarrow> disk \<Rightarrow> release_manifest res \<times> disk" where
  "read_manifest literal orc path dk = (case fs_ReadFile orc path dk of
     (Inl e, dk) \<Rightarrow> (Inl e, dk)
   | (Inr data, dk) \<Rightarrow> (case decode_manifest data of Inl e \<Rightarrow> (Inl e, dk)
     | Inr m \<Rightarrow> (case ValidateReleaseManifest literal m of Some e \<Rightarrow> (Inl e, dk) | None \<Rightarrow> (Inr m, dk))))"

definition verifyManifest :: "(string \<Rightarrow> bool) \<Rightarrow> fs_oracle \<Rightarrow> string \<Rightarrow> disk \<Rightarrow> go_error option \<times> disk" where
  "verifyManifest literal orc directory dk = (case read_manifest literal orc (manifest_path directory) dk of
     (Inl e, dk) \<Rightarrow> (Some e, dk) | (Inr m, dk) \<Rightarrow> verify_assets orc directory (rm_Assets m) dk)"

definition releasemanifest_run :: "(string \<Rightarrow> bool) \<Rightarrow> fs_oracle \<Rightarrow> string list \<Rightarrow> disk \<Rightarrow> go_error option \<times> disk" where
  "releasemanifest_run literal orc args dk = (case parse_flags manifest_flag_set args default_manifest_flags of
     Inl e \<Rightarrow> (Some e, dk)
   | Inr (v, _) \<Rightarrow> if mf_verify v then verifyManifest literal orc (mf_directory v) dk else buildManifest literal orc v dk)"


section \<open>packagemanifests\<close>

record package_flags =
  kf_manifest :: string
  kf_output :: string

definition package_flag_set :: "(string \<times> package_flags flag_def) list" where
  "package_flag_set = [(''manifest'', text_flag (\<lambda>v. kf_manifest_update (\<lambda>_. v))), (''output'', text_flag (\<lambda>v. kf_output_update (\<lambda>_. v)))]"

definition ruby_text :: "string \<Rightarrow> string" where
  "ruby_text s = [CHR 0x22] @ s @ [CHR 0x22]"

text \<open>\<open>homebrewTemplate\<close> with its fields filled in; package text/template escapes nothing.\<close>

definition homebrew :: "string \<Rightarrow> release_asset \<Rightarrow> release_asset \<Rightarrow> string" where
  "homebrew version amd arm = concat (map (\<lambda>row. row @ [CHR 0x0A])
    [''cask '' @ ruby_text ''quackridge'' @ '' do'',
     ''  version '' @ ruby_text version,
     [],
     ''  on_arm do'',
     ''    sha256 '' @ ruby_text (ra_SHA256 arm),
     ''    url '' @ ruby_text (ra_URL arm),
     ''  end'',
     [],
     ''  on_intel do'',
     ''    sha256 '' @ ruby_text (ra_SHA256 amd),
     ''    url '' @ ruby_text (ra_URL amd),
     ''  end'',
     [],
     ''  name '' @ ruby_text ''QuackRidge'',
     ''  desc '' @ ruby_text ''Experimental local read-only PostgreSQL bridge for PondPilot'',
     ''  homepage '' @ ruby_text ''https://github.com/pondpilot/quackridge'',
     [],
     ''  binary '' @ ruby_text (''quackridge_#{version}_darwin_#{Hardware::CPU.arm? ? '' @ ruby_text ''arm64'' @ '' : '' @
        ruby_text ''amd64'' @ ''}/quackridge''),
     [],
     ''  caveats '' @ ruby_text ''QuackRidge is experimental and requires an explicitly read-only PostgreSQL role.'',
     ''end''])"

definition asset_for :: "string \<Rightarrow> release_asset list \<Rightarrow> release_asset" where
  "asset_for target as = (case filter (\<lambda>a. asset_target a = target) as of [] \<Rightarrow> zero_asset | xs \<Rightarrow> last xs)"

definition packagemanifests_run :: "(string \<Rightarrow> bool) \<Rightarrow> fs_oracle \<Rightarrow> string list \<Rightarrow> disk \<Rightarrow> go_error option \<times> disk" where
  "packagemanifests_run literal orc args dk =
     (case parse_flags package_flag_set args \<lparr>kf_manifest = ''dist/release-manifest.json'', kf_output = ''dist''\<rparr> of
     Inl e \<Rightarrow> (Some e, dk)
   | Inr (v, _) \<Rightarrow> (case read_manifest literal orc (kf_manifest v) dk of (Inl e, dk) \<Rightarrow> (Some e, dk) | (Inr m, dk) \<Rightarrow>
     (case fs_other orc dk of (Some e, dk) \<Rightarrow> (Some e, dk) | (None, dk) \<Rightarrow>
       fs_WriteFile orc (filepath_Join [kf_output v, ''quackridge.rb''])
         (homebrew (rm_Version m) (asset_for ''darwin/amd64'' (rm_Assets m)) (asset_for ''darwin/arm64'' (rm_Assets m))) dk)))"

section \<open>releasepack\<close>

record pack_entry =
  pe_name :: string
  pe_path :: string
  pe_mode :: nat

text \<open>An archive format: an error of a header, and the bytes for a time and entries of name, mode and contents, of
  an archive that is finished and of one that is left after an error.\<close>

record archive_format =
  af_header :: "string \<Rightarrow> string \<Rightarrow> go_error option"
  af_whole :: "int \<Rightarrow> (string \<times> nat \<times> string) list \<Rightarrow> string"
  af_left :: "int \<Rightarrow> (string \<times> nat \<times> string) list \<Rightarrow> string"

record formats =
  fm_tar :: archive_format
  fm_zip :: archive_format

record pack_flags =
  pf_version :: string
  pf_os :: string
  pf_arch :: string
  pf_binary :: string
  pf_extensions :: string
  pf_sbom :: string
  pf_output :: string

definition pack_flag_set :: "(string \<times> pack_flags flag_def) list" where
  "pack_flag_set =
    [(''version'', text_flag (\<lambda>v. pf_version_update (\<lambda>_. v))), (''os'', text_flag (\<lambda>v. pf_os_update (\<lambda>_. v))),
     (''arch'', text_flag (\<lambda>v. pf_arch_update (\<lambda>_. v))), (''binary'', text_flag (\<lambda>v. pf_binary_update (\<lambda>_. v))),
     (''extensions'', text_flag (\<lambda>v. pf_extensions_update (\<lambda>_. v))), (''sbom'', text_flag (\<lambda>v. pf_sbom_update (\<lambda>_. v))),
     (''output'', text_flag (\<lambda>v. pf_output_update (\<lambda>_. v)))]"

definition validTarget :: "string \<Rightarrow> string \<Rightarrow> bool" where
  "validTarget osName arch \<longleftrightarrow>
     osName = ''darwin'' \<and> (arch = ''amd64'' \<or> arch = ''arm64'') \<or> osName = ''linux'' \<and> arch = ''amd64'' \<or>
     osName = ''windows'' \<and> arch = ''amd64''"

text \<open>\<open>strconv.ParseInt\<close> in base 10.\<close>

definition ParseInt10 :: "string \<Rightarrow> int option" where
  "ParseInt10 s = (let neg = has_prefix ''-'' s; t = (if neg \<or> has_prefix ''+'' s then tl s else s); n = decimal_value t
     in if t = [] \<or> \<not> list_all is_digit_byte t then None
        else if neg then (if n \<le> 2 ^ 63 then Some (- int n) else None) else if n < 2 ^ 63 then Some (int n) else None)"

definition timestamp :: "string \<Rightarrow> int res" where
  "timestamp epoch = (if epoch = '''' then Inr 0
     else case ParseInt10 epoch of None \<Rightarrow> Inl (Plain ''SOURCE_DATE_EPOCH must be a non-negative Unix timestamp'')
     | Some seconds \<Rightarrow> if seconds < 0 then Inl (Plain ''SOURCE_DATE_EPOCH must be a non-negative Unix timestamp'') else Inr seconds)"

definition bundled_files :: "string list" where
  "bundled_files = [''extensions.sha256'', ''extensions.upstream'', ''extensions.versions'', ''httpfs.duckdb_extension'',
     ''mysql_scanner.duckdb_extension'', ''odbc_scanner.duckdb_extension'', ''postgres_scanner.duckdb_extension'',
     ''quack.duckdb_extension'', ''sqlite_scanner.duckdb_extension'']"

definition pack_file :: "string \<Rightarrow> string \<Rightarrow> nat \<Rightarrow> pack_entry" where
  "pack_file name path mode = \<lparr>pe_name = name, pe_path = path, pe_mode = mode\<rparr>"

definition pack_root :: "pack_flags \<Rightarrow> string" where
  "pack_root v = archive_root (pf_version v) (pf_os v) (pf_arch v)"

definition pack_entries :: "pack_flags \<Rightarrow> pack_entry list" where
  "pack_entries v =
     (let binaryName = (if pf_os v = ''windows'' then ''quackridge.exe'' else ''quackridge'') in
      [pack_file (pack_root v @ ''/'' @ binaryName) (pf_binary v) 493,
       pack_file (pack_root v @ ''/LICENSE'') ''LICENSE'' 420,
       pack_file (pack_root v @ ''/README.md'') ''README.md'' 420,
       pack_file (pack_root v @ ''/SECURITY.md'') ''SECURITY.md'' 420,
       pack_file (pack_root v @ ''/THIRD_PARTY_NOTICES.md'') ''THIRD_PARTY_NOTICES.md'' 420,
       pack_file (pack_root v @ ''/licenses/DuckDB-LICENSE'') ''third_party/duckdb/LICENSE'' 420,
       pack_file (pack_root v @ ''/licenses/ODBC-Scanner-LICENSE'') ''third_party/odbc-scanner/LICENSE'' 420,
       pack_file (pack_root v @ ''/licenses/Quack-LICENSE'') ''third_party/quack/LICENSE'' 420,
       pack_file (pack_root v @ ''/sbom.spdx.json'') (pf_sbom v) 420] @
      map (\<lambda>name. pack_file (pack_root v @ ''/extensions/'' @ name) (filepath_Join [pf_extensions v, name]) 420) bundled_files)"

fun check_inputs :: "fs_oracle \<Rightarrow> pack_entry list \<Rightarrow> disk \<Rightarrow> go_error option \<times> disk" where
  "check_inputs orc [] dk = (None, dk)"
| "check_inputs orc (x # xs) dk = (case fs_regular orc (pe_path x) dk of
     (False, dk) \<Rightarrow> (Some (Plain (''required release input '' @ quoted (pe_path x) @ '' is unavailable'')), dk)
   | (True, dk) \<Rightarrow> check_inputs orc xs dk)"

text \<open>The contents of the entries that were written, and the error that stopped the writing, if any.\<close>

fun read_inputs :: "fs_oracle \<Rightarrow> archive_format \<Rightarrow> pack_entry list \<Rightarrow> disk \<Rightarrow>
    ((string \<times> nat \<times> string) list \<times> go_error option) \<times> disk" where
  "read_inputs orc fmt [] dk = (([], None), dk)"
| "read_inputs orc fmt (x # xs) dk = (case fs_ReadFile orc (pe_path x) dk of
     (Inl e, dk) \<Rightarrow> (([], Some e), dk)
   | (Inr data, dk) \<Rightarrow> (case af_header fmt (pe_name x) data of
       Some e \<Rightarrow> (([], Some e), dk)
     | None \<Rightarrow> (case read_inputs orc fmt xs dk of ((entries, err), dk) \<Rightarrow> (((pe_name x, pe_mode x, data) # entries, err), dk))))"

text \<open>\<open>writeTarGZ\<close> and \<open>writeZIP\<close>: the file is created, the bytes reach it by a write that may fail, and it is closed; the
  errors are joined.\<close>

definition join_errors :: "go_error option \<Rightarrow> go_error option \<Rightarrow> go_error option" where
  "join_errors a b = (case (a, b) of (None, b) \<Rightarrow> map_option (\<lambda>e. Joined [e]) b | (Some e, None) \<Rightarrow> Some (Joined [e])
     | (Some e, Some f) \<Rightarrow> Some (Joined [e, f]))"

definition write_archive ::
  "fs_oracle \<Rightarrow> archive_format \<Rightarrow> string \<Rightarrow> pack_entry list \<Rightarrow> int \<Rightarrow> disk \<Rightarrow> go_error option \<times> disk" where
  "write_archive orc fmt path files ts dk = (case sys_call orc (\<lambda>fs. fs(path \<mapsto> ([], False))) (\<lambda>_. id) dk of
     (Some e, dk) \<Rightarrow> (Some e, dk)
   | (None, dk) \<Rightarrow> (case read_inputs orc fmt files dk of ((entries, err), dk) \<Rightarrow>
       (case fs_Write orc path (if err = None then af_whole fmt ts entries else af_left fmt ts entries) dk of (err2, dk) \<Rightarrow>
         (case fs_other orc dk of (err3, dk) \<Rightarrow> (join_errors (if err \<noteq> None then err else err2) err3, dk)))))"

definition windows_name :: "string \<Rightarrow> string" where
  "windows_name name = replace_all CHR 0x5C ''/'' name"

definition zip_entry :: "pack_entry \<Rightarrow> pack_entry" where
  "zip_entry x = x\<lparr>pe_name := windows_name (pe_name x)\<rparr>"

definition sort_entries :: "pack_entry list \<Rightarrow> pack_entry list" where
  "sort_entries = sort_key pe_name"

definition archive_path :: "pack_flags \<Rightarrow> string" where
  "archive_path v = filepath_Join [pf_output v, pack_root v @ (if pf_os v = ''windows'' then ''.zip'' else ''.tar.gz'')]"

definition checksum_text :: "string \<Rightarrow> string \<Rightarrow> string" where
  "checksum_text digest path = digest @ ''  '' @ filepath_Base path @ [CHR 0x0A]"

definition pack :: "formats \<Rightarrow> fs_oracle \<Rightarrow> pack_flags \<Rightarrow> int \<Rightarrow> disk \<Rightarrow> (go_error option \<times> string) \<times> disk" where
  "pack fm orc v ts dk =
     (let path = archive_path v; files = sort_entries (pack_entries v) in
      case check_inputs orc (pack_entries v) dk of (Some e, dk) \<Rightarrow> ((Some e, ''''), dk) | (None, dk) \<Rightarrow>
      case fs_other orc dk of (Some e, dk) \<Rightarrow> ((Some e, ''''), dk) | (None, dk) \<Rightarrow>
      case (if pf_os v = ''windows'' then write_archive orc (fm_zip fm) path (map zip_entry files) ts dk
            else write_archive orc (fm_tar fm) path files ts dk) of
        (Some e, dk) \<Rightarrow> ((Some e, ''''), dk)
      | (None, dk) \<Rightarrow>
      case fileDigest orc path dk of (Inl e, dk) \<Rightarrow> ((Some e, ''''), dk) | (Inr digest, dk) \<Rightarrow>
      case fs_WriteFile orc (path @ ''.sha256'') (checksum_text digest path) dk of
        (Some e, dk) \<Rightarrow> ((Some e, ''''), dk) | (None, dk) \<Rightarrow> ((None, path @ [CHR 0x0A]), dk))"

definition releasepack_run :: "formats \<Rightarrow> fs_oracle \<Rightarrow> string \<Rightarrow> string list \<Rightarrow> disk \<Rightarrow> (go_error option \<times> string) \<times> disk" where
  "releasepack_run fm orc epoch args dk =
     (case parse_flags pack_flag_set args \<lparr>pf_version = '''', pf_os = '''', pf_arch = '''', pf_binary = '''',
        pf_extensions = '''', pf_sbom = '''', pf_output = ''dist''\<rparr> of
     Inl e \<Rightarrow> ((Some e, ''''), dk)
   | Inr (v, _) \<Rightarrow>
     if pf_version v = '''' \<or> pf_binary v = '''' \<or> pf_extensions v = '''' \<or> pf_sbom v = ''''
     then ((Some (Plain ''version, binary, extensions, and sbom are required''), ''''), dk)
     else if \<not> validTarget (pf_os v) (pf_arch v)
     then ((Some (Plain (''unsupported release target '' @ pf_os v @ ''/'' @ pf_arch v)), ''''), dk)
     else case timestamp epoch of Inl e \<Rightarrow> ((Some e, ''''), dk) | Inr ts \<Rightarrow> pack fm orc v ts dk)"

end
