(* ===== verification/ReleaseRound.thy ===== *)
theory ReleaseRound
  imports ReleaseTools CliSource
begin

text \<open>
  The release tools together: the checksum that releasepack writes is the one that releasemanifest reads, the manifest
  that releasemanifest writes is one that it verifies, and what it verifies is what the digests say.
\<close>

section \<open>Paths\<close>

definition plain_name :: "string \<Rightarrow> bool" where
  "plain_name n \<longleftrightarrow> n \<noteq> '''' \<and> CHR ''/'' \<notin> set n \<and> n \<noteq> ''.'' \<and> n \<noteq> ''..''"

definition ends_directory :: "string \<Rightarrow> bool" where
  "ends_directory p \<longleftrightarrow> p = [] \<or> last p = CHR ''/''"

lemma split_on_last: "split_on sep (a @ sep # b) = split_on sep a @ split_on sep b"
  by (induction a) (auto split: list.splits)

lemma filepath_Base_name:
  assumes "plain_name n" and "ends_directory p"
  shows "filepath_Base (p @ n) = n"
proof -
  obtain c cs where c: "rev n = c # cs" using assms(1) by (cases "rev n") (auto simp: plain_name_def)
  have ns: "\<forall>x \<in> set (rev n). x \<noteq> CHR ''/''" using assms(1) by (auto simp: plain_name_def)
  then have "c \<noteq> CHR ''/''" using c by simp
  then have d: "dropWhile (\<lambda>c. c = CHR ''/'') (rev (p @ n)) = rev (p @ n)" using c by simp
  have "takeWhile (\<lambda>c. c \<noteq> CHR ''/'') (rev p) = []" using assms(2) by (cases p rule: rev_cases) (auto simp: ends_directory_def)
  then have "takeWhile (\<lambda>c. c \<noteq> CHR ''/'') (rev n @ rev p) = rev n" using ns by (subst takeWhile_append2) simp_all
  then show ?thesis using assms(1) d by (simp add: filepath_Base_def plain_name_def)
qed

lemma filepath_Clean_name:
  assumes "plain_name n"
  shows "\<exists>p. filepath_Clean (d @ CHR ''/'' # n) = p @ n \<and> ends_directory p"
    and "filepath_Clean n = n"
proof -
  have n: "split_on CHR ''/'' n = [n]" "path_step r n acc = acc @ [n]" for r acc
    using assms by (simp_all add: plain_name_def split_on_single path_step_def)
  let ?r = "has_prefix ''/'' (d @ CHR ''/'' # n)"
  obtain acc where acc: "fold (path_step ?r) (split_on CHR ''/'' d) [] = acc" by blast
  then have body: "fold (path_step ?r) (split_on CHR ''/'' (d @ CHR ''/'' # n)) [] = acc @ [n]"
    by (simp add: split_on_last n)
  have "\<exists>q. join ''/'' (acc @ [n]) = q @ n \<and> ends_directory q"
  proof (induction acc)
    case (Cons a acc)
    then obtain q where q: "join ''/'' (acc @ [n]) = q @ n" "ends_directory q" by blast
    then have "ends_directory (a @ ''/'' @ q)" by (auto simp: ends_directory_def)
    then show ?case using q(1) by (intro exI [of _ "a @ ''/'' @ q"]) (simp add: join_Cons)
  qed (simp add: ends_directory_def)
  then obtain q where q: "join ''/'' (acc @ [n]) = q @ n" "ends_directory q" by blast
  then have "ends_directory (''/'' @ q)" "q @ n \<noteq> []" using assms by (auto simp: ends_directory_def plain_name_def)
  then show "\<exists>p. filepath_Clean (d @ CHR ''/'' # n) = p @ n \<and> ends_directory p"
    using q body unfolding filepath_Clean_def Let_def
    by (cases ?r) (auto intro: exI [of _ "''/'' @ q"] exI [of _ q])
  have "has_prefix ''/'' n = False" using assms by (cases n) (auto simp: plain_name_def has_prefix_iff)
  then show "filepath_Clean n = n" using assms by (simp add: filepath_Clean_def n plain_name_def)
qed

lemma Join_name:
  assumes "plain_name n"
  shows "\<exists>p. filepath_Join [d, n] = p @ n \<and> ends_directory p"
proof (cases "d = []")
  case True
  then show ?thesis using filepath_Clean_name(2) [OF assms] assms
    by (auto simp: filepath_Join_def plain_name_def ends_directory_def)
next
  case False
  then show ?thesis using filepath_Clean_name(1) [OF assms, of d] assms by (simp add: filepath_Join_def plain_name_def)
qed

lemma Base_Join: "plain_name n \<Longrightarrow> filepath_Base (filepath_Join [d, n]) = n"
  using Join_name [of n d] filepath_Base_name by force

lemma Join_eq: "plain_name m \<Longrightarrow> plain_name n \<Longrightarrow> filepath_Join [d, m] = filepath_Join [d, n] \<longleftrightarrow> m = n"
  using Base_Join [of m d] Base_Join [of n d] by metis

section \<open>The lines of a checksum file\<close>

definition word_byte :: "char \<Rightarrow> bool" where
  "word_byte c \<longleftrightarrow> 33 \<le> byte c \<and> byte c < 127"

lemma space_heads: "\<forall>w \<in> set space_runes. w \<noteq> [] \<and> (byte (hd w) < 33 \<or> 127 \<le> byte (hd w))"
  by (simp add: space_runes_def byte_def)

lemma word_no_space: "word_byte c \<Longrightarrow> leading_rune space_runes (c # s) = None"
proof -
  assume c: "word_byte c"
  have "\<not> has_prefix w (c # s)" if "w \<in> set space_runes" for w
    using space_heads that c by (cases w) (auto simp: word_byte_def has_prefix_iff)
  then show ?thesis by (simp add: leading_rune_def find_None_iff)
qed

lemma trim_word: "list_all word_byte w \<Longrightarrow> w \<noteq> [] \<Longrightarrow> trim_left (w @ s) = w @ s"
  by (cases w) (simp_all add: trim_left_def trim_runes.simps [of space_runes] trim_runes_step_def word_no_space)

lemma space_first: "leading_rune space_runes (CHR '' '' # s) = Some '' ''"
  by (simp add: leading_rune_def space_runes_def char_of_eq_iff)

lemma trim_space_first: "trim_left (CHR '' '' # s) = trim_left s"
  by (simp add: trim_left_def trim_runes.simps [of space_runes "CHR '' '' # s"] trim_runes_step_def space_first)

lemma take_word: "list_all word_byte w \<Longrightarrow> r = [] \<or> hd r = CHR '' '' \<Longrightarrow> take_field (w @ r) = (w, r)"
proof (induction w)
  case Nil
  then show ?case by (cases r) (simp_all add: space_first)
qed (simp add: word_no_space)

lemma two_words:
  assumes "list_all word_byte a" and "a \<noteq> []" and "list_all word_byte b" and "b \<noteq> []"
  shows "go_fields (a @ ''  '' @ b) = [a, b]"
proof -
  have "trim_runes_step space_runes [] = None" using trim_runes_step_length [of space_runes "[]"] by (cases "trim_runes_step space_runes []") auto
  then have "take_field (trim_left []) = ([], [])" by (simp add: trim_left_def trim_runes.simps [of space_runes "[]"])
  then have e: "go_fields [] = []" by (simp add: go_fields.simps [of "[]"])
  have "trim_left (''  '' @ b) = b" using trim_word [OF assms(3,4), of "[]"] by (simp add: trim_space_first)
  then have b: "go_fields (''  '' @ b) = [b]"
    using take_word [OF assms(3), of "[]"] assms(4) e by (subst go_fields.simps) simp
  show ?thesis
    using trim_word [OF assms(1,2), of "''  '' @ b"] take_word [OF assms(1), of "''  '' @ b"] assms(2) b
    by (subst go_fields.simps) simp
qed

text \<open>The checksum file that releasepack writes is read back as the digest, when its line fits the scanner.\<close>

lemma hex_words: "list_all word_byte (hex_encode s)"
proof -
  have "word_byte (hex_digit n)" if "n < 16" for n
    using that by (auto simp: word_byte_def hex_digit_def byte_def)
  moreover have "byte c < 16 * 16" for c by (simp add: byte_def)
  then have "byte c div 16 < 16" for c by (rule less_mult_imp_div_less)
  ultimately show ?thesis by (induction s) (simp_all add: hex_encode_def)
qed

lemma checksum_read:
  assumes "list_all word_byte name" and "name \<noteq> []" and "hd name \<noteq> CHR ''*''" and "length name + 67 \<le> scan_limit"
    and "filepath_Base path = name"
  shows "checksum_of \<lparr>fb_Bytes = checksum_text (hex_encode (Sum256 bytes)) path, fb_Error = None\<rparr> name =
    Inr (hex_encode (Sum256 bytes))"
proof -
  let ?d = "hex_encode (Sum256 bytes)"
  let ?row = "?d @ ''  '' @ name"
  have w: "list_all word_byte ?d" "?d \<noteq> []" using hex_words length_hex_encode [of "Sum256 bytes"] by auto
  have "word_byte (last name)" using assms(1,2) last_in_set [of name] by (simp add: list_all_iff)
  have no: "\<not> word_byte CHR 0x0D" "\<not> word_byte CHR 0x0A" by (simp_all add: word_byte_def byte_def)
  then have "last name \<noteq> CHR 0x0D" using \<open>word_byte (last name)\<close> by metis
  then have nl: "CHR 0x0A \<notin> set ?row" "last ?row \<noteq> CHR 0x0D"
    using no w(1) assms(1,2) by (auto simp: list_all_iff)
  have "takeWhile (\<lambda>c. c \<noteq> CHR 0x0A) (?row @ [CHR 0x0A]) = ?row" "dropWhile (\<lambda>c. c \<noteq> CHR 0x0A) (?row @ [CHR 0x0A]) = [CHR 0x0A]"
    using nl(1) by (auto simp: takeWhile_append dropWhile_append)
  moreover have "take scan_limit (?row @ [CHR 0x0A]) = ?row @ [CHR 0x0A]"
    using assms(4) by (intro take_all) (simp add: length_hex_encode)
  ultimately have "scan_token (?row @ [CHR 0x0A]) = Line ?row []"
    using nl(2) by (simp add: scan_token_def drop_cr_def)
  moreover have "go_fields ?row = [?d, name]" by (rule two_words [OF w assms(1,2)])
  moreover have "trim_prefix ''*'' name = name" using assms(2,3) by (cases name) (simp_all add: trim_prefix_def)
  ultimately show ?thesis using assms(5) by (simp add: checksum_of_def checksum_text_def scan_token_def)
qed


section \<open>The manifest is read back\<close>

definition plain_asset :: "release_asset \<Rightarrow> bool" where
  "plain_asset a \<longleftrightarrow> list_all utf8 [ra_OS a, ra_Arch a, ra_URL a, ra_SHA256 a, ra_Signature a, ra_MinimumOS a]"

definition asset_fields :: "release_asset \<Rightarrow> (string \<times> tree) list" where
  "asset_fields a = [(''os'', string_tree (ra_OS a)), (''arch'', string_tree (ra_Arch a)), (''url'', string_tree (ra_URL a)),
     (''sha256'', string_tree (ra_SHA256 a)), (''signature'', string_tree (ra_Signature a)),
     (''minimum_os'', string_tree (ra_MinimumOS a))]"

definition manifest_fields :: "release_manifest \<Rightarrow> (string \<times> tree) list" where
  "manifest_fields m = [(''version'', string_tree (rm_Version m)), (''channel'', string_tree (rm_Channel m)),
     (''protocol'', object_tree [(''minimum'', Lit (itoa (rm_Minimum m)) (JNum (itoa (rm_Minimum m)))),
        (''maximum'', Lit (itoa (rm_Maximum m)) (JNum (itoa (rm_Maximum m))))]),
     (''assets'', array_tree (map (\<lambda>a. object_tree (asset_fields a)) (rm_Assets m)))]"

lemma field_names_utf8: "utf8 ''os''" "utf8 ''arch''" "utf8 ''url''" "utf8 ''sha256''" "utf8 ''signature''" "utf8 ''minimum_os''"
  "utf8 ''version''" "utf8 ''channel''" "utf8 ''protocol''" "utf8 ''assets''" "utf8 ''minimum''" "utf8 ''maximum''"
  by (simp_all add: ascii_utf8 ascii_def byte_def)

lemma asset_fields_sound: "plain_asset a \<Longrightarrow> \<forall>(k, t) \<in> set (asset_fields a). utf8 k \<and> sound t"
  by (simp add: asset_fields_def plain_asset_def field_names_utf8)

lemma asset_nesting: "nesting (object_tree (asset_fields a)) \<le> 1"
  using nesting_object [of "asset_fields a" 0] by (simp add: asset_fields_def)

lemma decode_asset:
  assumes "plain_asset a"
  shows "decode_struct asset_setters zero_asset (pretty d (object_tree (asset_fields a))) = Inr a"
proof -
  have ne: "asset_fields a \<noteq> []" by (simp add: asset_fields_def)
  have n: "nesting (object_tree (asset_fields a)) \<le> max_nesting" using asset_nesting [of a] by (simp add: max_nesting_def)
  have "decode_struct asset_setters zero_asset (pretty d (object_tree (asset_fields a)) @ []) =
      fill asset_setters (map (\<lambda>(k, t). (k, pretty (Suc d) t, meaning t)) (asset_fields a)) zero_asset"
    by (rule wide.decode_struct_tree [OF asset_fields_sound [OF assms] ne n delimited_char(4)])
  then show ?thesis by (cases a) (simp add: asset_fields_def asset_setters_def field_of_def set_string_def zero_asset_def)
qed

lemma decode_assets:
  "list_all plain_asset as \<Longrightarrow> decode_elements (decode_struct asset_setters zero_asset)
     (map (\<lambda>a. (pretty d (object_tree (asset_fields a)), meaning (object_tree (asset_fields a)))) as) = Inr as"
  by (induction as) (simp_all add: decode_asset)

lemma two_literals: "itoa 2 = ''2''" "int_literal ''2'' = Some 2"
  by code_simp+

lemma decode_protocol:
  assumes "rm_Minimum m = 2" and "rm_Maximum m = 2"
  shows "set_protocol (pretty d (object_tree [(''minimum'', Lit (itoa (rm_Minimum m)) (JNum (itoa (rm_Minimum m)))),
      (''maximum'', Lit (itoa (rm_Maximum m)) (JNum (itoa (rm_Maximum m))))])) v m' = Inr (m'\<lparr>rm_Minimum := 2, rm_Maximum := 2\<rparr>)"
proof -
  let ?ms = "[(''minimum'', Lit ''2'' (JNum ''2'')), (''maximum'', Lit ''2'' (JNum ''2''))]"
  have s: "\<forall>(k, t) \<in> set ?ms. utf8 k \<and> sound t" using small_numbers(2) field_names_utf8 by simp
  have n: "nesting (object_tree ?ms) \<le> max_nesting" using nesting_object [of ?ms "max_nesting - 1"] by (simp add: max_nesting_def)
  have "decode_struct protocol_setters m' (pretty d (object_tree ?ms) @ []) =
      fill protocol_setters (map (\<lambda>(k, t). (k, pretty (Suc d) t, meaning t)) ?ms) m'"
    by (rule wide.decode_struct_tree [OF s _ n delimited_char(4)]) simp
  then show ?thesis using two_literals
    by (simp add: set_protocol_def assms protocol_setters_def field_of_def set_int_def)
qed

lemma manifest_fields_sound:
  assumes "utf8 (rm_Version m)" and "utf8 (rm_Channel m)" and "list_all plain_asset (rm_Assets m)"
    and "rm_Minimum m = 2" and "rm_Maximum m = 2"
  shows "\<forall>(k, t) \<in> set (manifest_fields m). utf8 k \<and> sound t"
proof -
  have a: "\<forall>t \<in> set (map (\<lambda>a. object_tree (asset_fields a)) (rm_Assets m)). sound t"
    using assms(3) object_tree_sound [OF asset_fields_sound] by (auto simp: list_all_iff)
  have "sound (object_tree [(''minimum'', Lit ''2'' (JNum ''2'')), (''maximum'', Lit ''2'' (JNum ''2''))])"
    by (rule object_tree_sound) (use small_numbers(2) field_names_utf8 in simp)
  then show ?thesis using assms array_tree_sound [OF a] field_names_utf8 two_literals by (simp add: manifest_fields_def)
qed

lemma manifest_nesting: "nesting (object_tree (manifest_fields m)) \<le> max_nesting"
proof -
  let ?ts = "map (\<lambda>a. object_tree (asset_fields a)) (rm_Assets m)"
  have "nesting t \<le> 1" if "t \<in> set ?ts" for t using that asset_nesting by auto
  then have "nesting (array_tree ?ts) \<le> 2" using nesting_array [of ?ts 1] by (cases "?ts = []") (auto simp: numeral_2_eq_2)
  moreover have "nesting (object_tree [(''minimum'', Lit x (JNum x)), (''maximum'', Lit y (JNum y))]) \<le> max_nesting - 1" for x y
    using nesting_object [of "[(''minimum'', Lit x (JNum x)), (''maximum'', Lit y (JNum y))]" "max_nesting - 2"]
    by (simp add: max_nesting_def)
  ultimately show ?thesis using nesting_object [of "manifest_fields m" "max_nesting - 1"]
    by (simp add: manifest_fields_def max_nesting_def)
qed

lemma manifest_json_tree:
  assumes "\<forall>(k, t) \<in> set (manifest_fields m). utf8 k \<and> sound t"
  shows "manifest_json m = pretty 0 (object_tree (manifest_fields m))"
proof -
  have "json_object (asset_members a) = flat (object_tree (asset_fields a))" for a
    by (simp add: json_object_def asset_members_def asset_fields_def object_tree_flat)
  then have "manifest_json m = indent_json (flat (object_tree (manifest_fields m)))"
    by (simp add: manifest_json_def manifest_fields_def json_object_def object_tree_flat json_array_def array_tree_flat comp_def)
  then show ?thesis using indent_flat(1) [OF object_tree_sound [OF assms], of 0 "[]"] by (simp add: indent_json_def)
qed

lemma manifest_roundtrip:
  assumes "utf8 (rm_Version m)" and "utf8 (rm_Channel m)" and "list_all plain_asset (rm_Assets m)"
    and "rm_Minimum m = 2" and "rm_Maximum m = 2"
  shows "decode_manifest (manifest_json m @ [CHR 0x0A]) = Inr m"
proof -
  let ?ms = "manifest_fields m" and ?ts = "map (\<lambda>a. object_tree (asset_fields a)) (rm_Assets m)"
  have s: "\<forall>(k, t) \<in> set ?ms. utf8 k \<and> sound t" by (rule manifest_fields_sound [OF assms])
  have nl: "delimited [CHR 0x0A]" by (simp add: delimited_def json_ws_def byte_def)
  have ne: "?ms \<noteq> []" by (simp add: manifest_fields_def)
  have dec: "decode_struct setters zero (manifest_json m @ [CHR 0x0A]) =
      fill setters (map (\<lambda>(k, t). (k, pretty (Suc 0) t, meaning t)) ?ms) zero" for setters and zero :: release_manifest
    unfolding manifest_json_tree [OF s] by (rule wide.decode_struct_tree [OF s ne manifest_nesting nl])
  have t: "\<forall>t \<in> set ?ts. sound t" using assms(3) object_tree_sound [OF asset_fields_sound] by (auto simp: list_all_iff)
  have n: "nesting (array_tree ?ts) \<le> max_nesting"
    using manifest_nesting [of m] nesting_object [OF ne, of "max_nesting - 1"] by (auto simp: manifest_fields_def max_nesting_def)
  have raw: "raw_elements (pretty (Suc 0) (array_tree ?ts)) = Some (map (\<lambda>t. (pretty 2 t, meaning t)) ?ts)"
    using wide.raw_elements_tree [OF t n delimited_char(4), of "Suc 0"] by (simp add: numeral_2_eq_2)
  have els: "decode_elements (decode_struct asset_setters zero_asset) (map (\<lambda>t. (pretty 2 t, meaning t)) ?ts) = Inr (rm_Assets m)"
    using decode_assets [OF assms(3), of 2] by (simp add: comp_def)
  obtain vs where "meaning (array_tree ?ts) = JArr vs" using meaning_array by blast
  then have as: "set_assets (pretty (Suc 0) (array_tree ?ts)) (meaning (array_tree ?ts)) m' = Inr (m'\<lparr>rm_Assets := rm_Assets m\<rparr>)" for m'
    using raw els by (simp add: set_assets_def)
  show ?thesis unfolding decode_manifest_def dec
    using as decode_protocol [OF assms(4,5)] assms(4,5)
    by (cases m) (simp add: manifest_fields_def field_of_def set_string_def zero_manifest_def)
qed


section \<open>What the reads see\<close>

text \<open>A read that succeeds, whatever the disk does, has seen the whole file; on a calm disk every file is read.\<close>

definition file_at :: "files \<Rightarrow> string \<Rightarrow> string \<Rightarrow> bool" where
  "file_at fs path bytes \<longleftrightarrow> (\<exists>synced. fs path = Some (bytes, synced))"

lemma file_at_Some: "fs path = Some (bytes, synced) \<Longrightarrow> file_at fs path bytes"
  unfolding file_at_def by blast

definition whole :: "string \<Rightarrow> file_bytes" where
  "whole bytes = \<lparr>fb_Bytes = bytes, fb_Error = None\<rparr>"

lemma fs_other_same: "fs_other orc dk = (err, dk') \<Longrightarrow> dk_files dk' = dk_files dk"
  by (metis fs_other_files snd_conv)

lemma fs_regular_result:
  "fs_regular orc path dk = (ok, dk') \<Longrightarrow> dk_files dk' = dk_files dk \<and> (ok \<longrightarrow> dk_files dk path \<noteq> None)"
  by (auto simp: fs_regular_def fs_other_same split: prod.splits)

lemma fs_regular_calm:
  "or_fault orc = (\<lambda>_. None) \<Longrightarrow> dk_files dk path \<noteq> None \<Longrightarrow>
   \<exists>dk'. fs_regular orc path dk = (True, dk') \<and> dk_files dk' = dk_files dk"
  by (simp add: fs_regular_def fs_other_def calm_call)

lemma fs_read_result:
  assumes "fs_read orc path dk = (Inr f, dk')" and "fb_Error f = None"
  shows "file_at (dk_files dk) path (fb_Bytes f)"
  using assms by (auto simp: fs_read_def file_at_def split: option.splits prod.splits fault.splits)

lemma fs_read_files: "dk_files (snd (fs_read orc path dk)) = dk_files dk"
proof (cases "dk_files dk path")
  case (Some p)
  obtain err d1 where o: "fs_other orc dk = (err, d1)" by (cases "fs_other orc dk")
  then have "dk_files d1 = dk_files dk" using fs_other_files [of orc dk] by simp
  then show ?thesis using Some o by (cases p; cases err) (simp_all add: fs_read_def)
qed (simp add: fs_read_def)

lemma fs_read_calm:
  assumes "or_fault orc = (\<lambda>_. None)" and "file_at (dk_files dk) path bytes"
  shows "\<exists>dk'. fs_read orc path dk = (Inr (whole bytes), dk') \<and> dk_files dk' = dk_files dk"
proof -
  have "\<exists>dk'. fs_read orc path dk = (Inr (whole bytes), dk')"
    using assms by (auto simp: fs_read_def file_at_def whole_def fs_other_def calm_call)
  then show ?thesis using fs_read_files [of orc path dk] by auto
qed

lemma checksum_whole: "checksum_of f name = Inr d \<Longrightarrow> fb_Error f = None"
  by (auto simp: checksum_of_def split: token.splits list.splits if_splits option.splits)

lemma checksum_bytes: "fb_Error f = None \<Longrightarrow> checksum_of f name = checksum_of (whole (fb_Bytes f)) name"
  by (cases f) (simp add: whole_def)

lemma readChecksum_result:
  assumes "readChecksum orc path name dk = (Inr d, dk')"
  shows "\<exists>bytes. file_at (dk_files dk) path bytes \<and> checksum_of (whole bytes) name = Inr d"
proof -
  obtain f where f: "fs_read orc path dk = (Inr f, dk')" "checksum_of f name = Inr d"
    using assms by (auto simp: readChecksum_def split: sum.splits prod.splits)
  note n = checksum_whole [OF f(2)]
  show ?thesis using fs_read_result [OF f(1) n] checksum_bytes [OF n] f(2) by auto
qed

lemma readChecksum_files: "dk_files (snd (readChecksum orc path name dk)) = dk_files dk"
  using fs_read_files [of orc path dk] by (auto simp: readChecksum_def split: sum.splits prod.splits)

lemma fileDigest_result:
  assumes "fileDigest orc path dk = (Inr d, dk')"
  shows "\<exists>bytes. file_at (dk_files dk) path bytes \<and> hex_encode (Sum256 bytes) = d"
proof -
  obtain f where f: "fs_read orc path dk = (Inr f, dk')" "fb_Error f = None" "hex_encode (Sum256 (fb_Bytes f)) = d"
    using assms by (auto simp: fileDigest_def split: sum.splits prod.splits option.splits)
  show ?thesis using fs_read_result [OF f(1,2)] f(3) by blast
qed

lemma fileDigest_files: "dk_files (snd (fileDigest orc path dk)) = dk_files dk"
  using fs_read_files [of orc path dk] by (auto simp: fileDigest_def split: sum.splits prod.splits)

lemma readChecksum_calm:
  assumes "or_fault orc = (\<lambda>_. None)" and "file_at (dk_files dk) path bytes" and "checksum_of (whole bytes) name = Inr d"
  shows "\<exists>dk'. readChecksum orc path name dk = (Inr d, dk') \<and> dk_files dk' = dk_files dk"
  using fs_read_calm [OF assms(1,2)] assms(3) by (auto simp: readChecksum_def)

lemma fileDigest_calm:
  assumes "or_fault orc = (\<lambda>_. None)" and "file_at (dk_files dk) path bytes"
  shows "\<exists>dk'. fileDigest orc path dk = (Inr (hex_encode (Sum256 bytes)), dk') \<and> dk_files dk' = dk_files dk"
  using fs_read_calm [OF assms] by (auto simp: fileDigest_def whole_def)

section \<open>What verification means\<close>

definition verified :: "files \<Rightarrow> string \<Rightarrow> release_asset \<Rightarrow> bool" where
  "verified fs directory a \<longleftrightarrow> (let name = filepath_Base (ra_URL a) in
     (\<exists>bytes. file_at fs (filepath_Join [directory, name]) bytes \<and> hex_encode (Sum256 bytes) = ra_SHA256 a) \<and>
     (\<exists>bytes. file_at fs (filepath_Join [directory, name @ ''.sha256'']) bytes \<and> checksum_of (whole bytes) name = Inr (ra_SHA256 a)) \<and>
     fs (filepath_Join [directory, filepath_Base (ra_Signature a)]) \<noteq> None)"

lemma verify_asset_ok:
  assumes "verify_asset orc directory a dk = (err, dk')"
  shows "dk_files dk' = dk_files dk" and "err = None \<Longrightarrow> verified (dk_files dk) directory a"
proof -
  let ?name = "filepath_Base (ra_URL a)"
  obtain ok1 d1 where s1: "fs_regular orc (filepath_Join [directory, ?name]) dk = (ok1, d1)" by fastforce
  obtain r2 d2 where s2: "readChecksum orc (filepath_Join [directory, ?name @ ''.sha256'']) ?name d1 = (r2, d2)" by fastforce
  obtain r3 d3 where s3: "fileDigest orc (filepath_Join [directory, ?name]) d2 = (r3, d3)" by fastforce
  obtain ok4 d4 where s4: "fs_regular orc (filepath_Join [directory, filepath_Base (ra_Signature a)]) d3 = (ok4, d4)" by fastforce
  have f: "dk_files d1 = dk_files dk" "dk_files d2 = dk_files dk" "dk_files d3 = dk_files dk" "dk_files d4 = dk_files dk"
    using fs_regular_result [OF s1] readChecksum_files [of orc _ ?name d1] s2 fileDigest_files [of orc _ d2] s3
      fs_regular_result [OF s4] by (metis snd_conv)+
  have r: "(err, dk') = (if \<not> ok1 then (err, d1) else if r2 \<noteq> Inr (ra_SHA256 a) then (err, d2)
      else if r3 \<noteq> Inr (ra_SHA256 a) then (err, d3) else (err, d4)) \<and>
    (err = None \<longleftrightarrow> ok1 \<and> r2 = Inr (ra_SHA256 a) \<and> r3 = Inr (ra_SHA256 a) \<and> ok4)"
    using assms unfolding verify_asset_def Let_def s1 by (cases ok1; cases ok4) (auto simp: s2 s3 s4 split: if_splits)
  then show "dk_files dk' = dk_files dk" using f by (auto split: if_splits)
  assume "err = None"
  then have ok: "ok1" "r2 = Inr (ra_SHA256 a)" "r3 = Inr (ra_SHA256 a)" "ok4" using r by simp_all
  show "verified (dk_files dk) directory a"
    using readChecksum_result [OF s2 [unfolded ok(2)]] fileDigest_result [OF s3 [unfolded ok(3)]] fs_regular_result [OF s4] ok(4) f
    unfolding verified_def Let_def by auto
qed

lemma verify_assets_ok:
  "verify_assets orc directory as dk = (None, dk') \<Longrightarrow> \<forall>a \<in> set as. verified (dk_files dk) directory a"
proof (induction as arbitrary: dk)
  case (Cons a as)
  obtain d1 where s: "verify_asset orc directory a dk = (None, d1)" "verify_assets orc directory as d1 = (None, dk')"
    using Cons.prems by (auto split: option.splits prod.splits)
  show ?case using Cons.IH [OF s(2)] verify_asset_ok [OF s(1)] by simp
qed simp

text \<open>C37. What releasemanifest verifies is true of the directory, whatever the disk does while it reads: the manifest of the
  directory is a valid one, and for every asset the archive with the name of its URL is there and has exactly the
  SHA-256 digest of the manifest, its checksum file names it with that digest and no other file, and its signature
  bundle is there.\<close>

theorem verifyManifest_sound:
  assumes "verifyManifest literal orc directory dk = (None, dk')"
  shows "\<exists>data m. file_at (dk_files dk) (manifest_path directory) data \<and> decode_manifest data = Inr m \<and>
    ValidateReleaseManifest literal m = None \<and> (\<forall>a \<in> set (rm_Assets m). verified (dk_files dk) directory a)"
proof -
  obtain m d1 where m: "read_manifest literal orc (manifest_path directory) dk = (Inr m, d1)"
    "verify_assets orc directory (rm_Assets m) d1 = (None, dk')"
    using assms by (auto simp: verifyManifest_def split: sum.splits prod.splits)
  obtain data where d: "fs_ReadFile orc (manifest_path directory) dk = (Inr data, d1)" "decode_manifest data = Inr m"
    "ValidateReleaseManifest literal m = None"
    using m(1) by (auto simp: read_manifest_def split: sum.splits prod.splits option.splits)
  have "file_at (dk_files dk) (manifest_path directory) data" "dk_files d1 = dk_files dk"
    using d(1) by (auto simp: fs_ReadFile_def file_at_def fs_other_same split: option.splits prod.splits)
  then show ?thesis using d(2,3) verify_assets_ok [OF m(2)] by auto
qed


section \<open>Names of a release\<close>

text \<open>A byte of a name: printable, and no slash.\<close>

definition name_byte :: "char \<Rightarrow> bool" where
  "name_byte c \<longleftrightarrow> word_byte c \<and> c \<noteq> CHR ''/''"

lemma version_bytes: "release_version s \<Longrightarrow> list_all name_byte s"
proof -
  have d: "is_digit_byte c \<Longrightarrow> name_byte c" and l: "is_letter_byte c \<Longrightarrow> name_byte c" for c
    by (auto simp: is_digit_byte_def is_letter_byte_def is_lower_byte_def is_upper_byte_def name_byte_def word_byte_def byte_def)
  have p: "name_byte CHR ''.''" "name_byte CHR ''-''" "name_byte CHR ''+''" by (simp_all add: name_byte_def word_byte_def byte_def)
  have u: "suffix_byte c \<Longrightarrow> name_byte c" for c using d l p by (auto simp: suffix_byte_def is_alnum_byte_def)
  assume "release_version s"
  then obtain a b c t where s: "s = a @ ''.'' @ b @ ''.'' @ c @ t" "list_all is_digit_byte a" "list_all is_digit_byte b"
    "list_all is_digit_byte c" "t = [] \<or> (\<exists>x u. t = x # u \<and> x \<in> {CHR ''-'', CHR ''+''} \<and> u \<noteq> [] \<and> list_all suffix_byte u)"
    unfolding release_version_def by blast
  have "list_all name_byte t" using s(5) p u by (auto simp: list_all_iff)
  then show ?thesis using s(1-4) d p(1) by (auto simp: list_all_iff)
qed

lemma archive_names:
  assumes "release_version version" and "(os, arch, minimum) \<in> set release_targets"
  shows "list_all name_byte (archive_name version os arch)" and "\<exists>r. archive_name version os arch = CHR ''q'' # r"
proof -
  have w: "list_all name_byte x"
    if "x \<in> {''quackridge_'', ''_'', ''.tar.gz'', ''darwin'', ''linux'', ''amd64'', ''arm64''}" for x
    using that by (elim insertE emptyE; simp add: name_byte_def word_byte_def byte_def)
  have "os \<in> {''darwin'', ''linux''}" "arch \<in> {''amd64'', ''arm64''}" using assms(2) by (auto simp: release_targets_def)
  then have "list_all name_byte os" "list_all name_byte arch" using w by blast+
  then show "list_all name_byte (archive_name version os arch)" using version_bytes [OF assms(1)] w [of "''quackridge_''"] w [of "''_''"] w [of "''.tar.gz''"]
    by (simp add: archive_name_def archive_root_def)
qed (simp add: archive_name_def archive_root_def)

lemma plain_archive_names:
  assumes "release_version version" and "(os, arch, minimum) \<in> set release_targets"
    and "suffix \<in> {'''', ''.sha256'', ''.sigstore.json''}"
  shows "plain_name (archive_name version os arch @ suffix)"
proof -
  obtain r where r: "archive_name version os arch = CHR ''q'' # r" using archive_names(2) [OF assms(1,2)] by blast
  have "list_all name_byte r" using archive_names(1) [OF assms(1,2)] r by simp
  then have "CHR ''/'' \<notin> set r" by (auto simp: list_all_iff name_byte_def)
  moreover have "CHR ''/'' \<notin> set suffix" using assms(3) by (elim insertE emptyE) simp_all
  ultimately show ?thesis unfolding r by (simp add: plain_name_def)
qed

lemma word_utf8: "list_all word_byte s \<Longrightarrow> utf8 s"
  by (rule ascii_utf8) (auto simp: ascii_def word_byte_def list_all_iff)

lemma name_words: "list_all name_byte s \<Longrightarrow> list_all word_byte s"
  by (auto simp: name_byte_def list_all_iff)

section \<open>A release that is built is one that verifies\<close>

text \<open>The archive of a target with the checksum file that releasepack writes beside it.\<close>

definition archived :: "files \<Rightarrow> manifest_flags \<Rightarrow> string \<times> string \<times> string \<Rightarrow> bool" where
  "archived fs v = (\<lambda>(os, arch, minimum).
     let path = filepath_Join [mf_directory v, archive_name (mf_version v) os arch] in
     \<exists>bytes. file_at fs path bytes \<and> file_at fs (filepath_Join [mf_directory v, archive_name (mf_version v) os arch @ ''.sha256''])
       (checksum_text (hex_encode (Sum256 bytes)) path))"

text \<open>The asset of a target, from the files of the directory.\<close>

definition asset_from :: "files \<Rightarrow> manifest_flags \<Rightarrow> string \<times> string \<times> string \<Rightarrow> release_asset \<Rightarrow> bool" where
  "asset_from fs v = (\<lambda>(os, arch, minimum) a. let name = archive_name (mf_version v) os arch in
     \<exists>digest bytes. a = built_asset v (os, arch, minimum) digest \<and>
       file_at fs (filepath_Join [mf_directory v, name @ ''.sha256'']) bytes \<and> checksum_of (whole bytes) name = Inr digest \<and>
       fs (filepath_Join [mf_directory v, name @ ''.sigstore.json'']) \<noteq> None)"

lemma build_assets_result:
  "build_assets orc v targets dk = (Inr as, dk') \<Longrightarrow>
   dk_files dk' = dk_files dk \<and> list_all2 (asset_from (dk_files dk) v) targets as"
proof (induction targets arbitrary: dk as dk')
  case (Cons t targets)
  obtain os arch minimum where t: "t = (os, arch, minimum)" by (metis prod_cases3)
  let ?name = "archive_name (mf_version v) os arch"
  obtain r1 d1 where s1: "readChecksum orc (filepath_Join [mf_directory v, ?name @ ''.sha256'']) ?name dk = (r1, d1)" by fastforce
  then obtain digest where r1: "r1 = Inr digest" using Cons.prems by (cases r1) (auto simp: t Let_def)
  obtain ok d2 where s2: "fs_regular orc (filepath_Join [mf_directory v, ?name @ ''.sigstore.json'']) d1 = (ok, d2)" by fastforce
  then have ok: "ok" using Cons.prems s1 r1 by (cases ok) (auto simp: t Let_def)
  obtain r3 d3 where s3: "build_assets orc v targets d2 = (r3, d3)" by fastforce
  then obtain as' where r3: "r3 = Inr as'" "as = built_asset v (os, arch, minimum) digest # as'" "dk' = d3"
    using Cons.prems s1 r1 s2 ok by (cases r3) (auto simp: t Let_def)
  have f: "dk_files d1 = dk_files dk" "dk_files d2 = dk_files dk"
    using readChecksum_files [of orc _ ?name dk] s1 fs_regular_result [OF s2] by (metis snd_conv)+
  have "asset_from (dk_files dk) v t (built_asset v (os, arch, minimum) digest)"
    using readChecksum_result [OF s1 [unfolded r1]] fs_regular_result [OF s2] ok f by (auto simp: asset_from_def t Let_def)
  then show ?case using Cons.IH [OF s3 [unfolded r3(1)]] f r3 by simp
qed simp

lemma fs_WriteFile_done: "fs_WriteFile orc path bytes dk = (None, dk') \<Longrightarrow> dk_files dk' = (dk_files dk)(path \<mapsto> (bytes, False))"
  by (auto simp: fs_WriteFile_def fs_Write_def fs_other_def sys_call_def split: option.splits fault.splits if_splits prod.splits)

lemma scan_too_long: "CHR 0x0A \<notin> set r \<Longrightarrow> scan_limit \<le> length r \<Longrightarrow> scan_token (r @ [CHR 0x0A]) = Too_long"
  using set_take_subset [of scan_limit r] by (auto simp: scan_token_def)

lemma checksum_text_value:
  assumes "list_all word_byte name" and "name \<noteq> []" and "hd name \<noteq> CHR ''*''" and "filepath_Base path = name"
    and "checksum_of (whole (checksum_text (hex_encode (Sum256 bytes)) path)) name = Inr d"
  shows "d = hex_encode (Sum256 bytes)"
proof (cases "length name + 67 \<le> scan_limit")
  case True
  then show ?thesis using checksum_read [OF assms(1-3) True assms(4), of bytes] assms(5) by (simp add: whole_def)
next
  case False
  let ?row = "hex_encode (Sum256 bytes) @ ''  '' @ name"
  have "CHR 0x0A \<notin> set ?row"
    using hex_words [of "Sum256 bytes"] assms(1) by (auto simp: list_all_iff word_byte_def byte_def)
  moreover have "scan_limit \<le> length ?row" using False by (simp add: length_hex_encode)
  ultimately have "scan_token (?row @ [CHR 0x0A]) = Too_long" by (rule scan_too_long)
  then show ?thesis using assms(4,5) by (simp add: checksum_of_def checksum_text_def whole_def)
qed


lemma verify_asset_calm:
  assumes "or_fault orc = (\<lambda>_. None)" and "verified (dk_files dk) directory a"
  shows "\<exists>dk'. verify_asset orc directory a dk = (None, dk') \<and> dk_files dk' = dk_files dk"
proof -
  let ?name = "filepath_Base (ra_URL a)"
  obtain bytes sums where v: "file_at (dk_files dk) (filepath_Join [directory, ?name]) bytes"
    "hex_encode (Sum256 bytes) = ra_SHA256 a" "file_at (dk_files dk) (filepath_Join [directory, ?name @ ''.sha256'']) sums"
    "checksum_of (whole sums) ?name = Inr (ra_SHA256 a)"
    "dk_files dk (filepath_Join [directory, filepath_Base (ra_Signature a)]) \<noteq> None"
    using assms(2) unfolding verified_def Let_def by blast
  have "dk_files dk (filepath_Join [directory, ?name]) \<noteq> None" using v(1) by (auto simp: file_at_def)
  then obtain d1 where s1: "fs_regular orc (filepath_Join [directory, ?name]) dk = (True, d1)" "dk_files d1 = dk_files dk"
    using fs_regular_calm [OF assms(1)] by blast
  obtain d2 where s2: "readChecksum orc (filepath_Join [directory, ?name @ ''.sha256'']) ?name d1 = (Inr (ra_SHA256 a), d2)"
    "dk_files d2 = dk_files dk" using readChecksum_calm [OF assms(1) _ v(4)] v(3) s1(2) by metis
  obtain d3 where s3: "fileDigest orc (filepath_Join [directory, ?name]) d2 = (Inr (ra_SHA256 a), d3)" "dk_files d3 = dk_files dk"
    using fileDigest_calm [OF assms(1)] v(1,2) s2(2) by metis
  obtain d4 where s4: "fs_regular orc (filepath_Join [directory, filepath_Base (ra_Signature a)]) d3 = (True, d4)"
    "dk_files d4 = dk_files dk" using fs_regular_calm [OF assms(1)] v(5) s3(2) by metis
  then show ?thesis by (simp add: verify_asset_def Let_def s1(1) s2(1) s3(1))
qed

lemma verify_assets_calm:
  "or_fault orc = (\<lambda>_. None) \<Longrightarrow> \<forall>a \<in> set as. verified (dk_files dk) directory a \<Longrightarrow>
   \<exists>dk'. verify_assets orc directory as dk = (None, dk')"
proof (induction as arbitrary: dk)
  case (Cons a as)
  have "verified (dk_files dk) directory a" using Cons.prems(2) by simp
  then obtain d1 where d1: "verify_asset orc directory a dk = (None, d1)" "dk_files d1 = dk_files dk"
    using verify_asset_calm [OF Cons.prems(1)] by blast
  then show ?case using Cons.IH [OF Cons.prems(1), of d1] Cons.prems(2) by simp
qed simp

text \<open>An asset that was built, once the manifest is written beside its files.\<close>

lemma list_all2_source: "list_all2 P xs ys \<Longrightarrow> y \<in> set ys \<Longrightarrow> \<exists>x \<in> set xs. P x y"
  by (induction rule: list_all2_induct) auto

lemma base_url_ends: "ends_directory (base_url v)"
  by (simp add: base_url_def ends_directory_def)

lemma built_names:
  assumes "release_version (mf_version v)" and "(os, arch, minimum) \<in> set release_targets"
  shows "filepath_Base (ra_URL (built_asset v (os, arch, minimum) d)) = archive_name (mf_version v) os arch"
    and "filepath_Base (ra_Signature (built_asset v (os, arch, minimum) d)) = archive_name (mf_version v) os arch @ ''.sigstore.json''"
  using filepath_Base_name [OF plain_archive_names [OF assms, of "''''"] base_url_ends]
    filepath_Base_name [OF plain_archive_names [OF assms, of "''.sigstore.json''"] base_url_ends]
  by (simp_all add: built_asset_def Let_def)

lemma built_verified:
  assumes "asset_from fs v t a" and "archived fs v t" and "t \<in> set release_targets" and "release_version (mf_version v)"
  shows "verified (fs(manifest_path (mf_directory v) \<mapsto> x)) (mf_directory v) a"
    and "\<exists>bytes. a = built_asset v t (hex_encode (Sum256 bytes))"
proof -
  obtain os arch minimum where t: "t = (os, arch, minimum)" by (metis prod_cases3)
  let ?name = "archive_name (mf_version v) os arch" and ?join = "\<lambda>n. filepath_Join [mf_directory v, n]"
  have tgt: "(os, arch, minimum) \<in> set release_targets" using assms(3) t by simp
  obtain digest sums where a: "a = built_asset v (os, arch, minimum) digest" "file_at fs (?join (?name @ ''.sha256'')) sums"
    "checksum_of (whole sums) ?name = Inr digest" "fs (?join (?name @ ''.sigstore.json'')) \<noteq> None"
    using assms(1) unfolding asset_from_def t by (auto simp: Let_def)
  obtain bytes where b: "file_at fs (?join ?name) bytes"
    "file_at fs (?join (?name @ ''.sha256'')) (checksum_text (hex_encode (Sum256 bytes)) (?join ?name))"
    using assms(2) unfolding archived_def t by (auto simp: Let_def)
  have plain: "plain_name (?name @ s)" if "s \<in> {'''', ''.sha256'', ''.sigstore.json''}" for s
    by (rule plain_archive_names [OF assms(4) tgt that])
  have "sums = checksum_text (hex_encode (Sum256 bytes)) (?join ?name)" using a(2) b(2) by (auto simp: file_at_def)
  moreover have "list_all word_byte ?name" by (rule name_words [OF archive_names(1) [OF assms(4) tgt]])
  moreover have "?name \<noteq> []" "hd ?name \<noteq> CHR ''*''" using archive_names(2) [OF assms(4) tgt] by auto
  moreover have base: "filepath_Base (?join ?name) = ?name" using Base_Join [of ?name] plain [of "''''"] by simp
  ultimately have d: "digest = hex_encode (Sum256 bytes)" using checksum_text_value a(3) by blast
  then show "\<exists>bytes. a = built_asset v t (hex_encode (Sum256 bytes))" using a(1) t by blast
  have "plain_name ''release-manifest.json''" by (simp add: plain_name_def)
  moreover have "?name @ s \<noteq> ''release-manifest.json''" for s using archive_names(2) [OF assms(4) tgt] by auto
  ultimately have other: "?join (?name @ s) \<noteq> manifest_path (mf_directory v)" if "s \<in> {'''', ''.sha256'', ''.sigstore.json''}" for s
    using Join_eq [OF plain [OF that]] unfolding manifest_path_def by blast
  have "?join ?name \<noteq> manifest_path (mf_directory v)" using other [of "''''"] by simp
  then show "verified (fs(manifest_path (mf_directory v) \<mapsto> x)) (mf_directory v) a"
    using a b(1) d other [of "''.sha256''"] other [of "''.sigstore.json''"] built_names [OF assms(4) tgt]
    by (auto simp: verified_def file_at_def built_asset_def Let_def)
qed

lemma built_plain:
  assumes "release_version (mf_version v)" and "utf8 (mf_repository v)" and "(os, arch, minimum) \<in> set release_targets"
  shows "plain_asset (built_asset v (os, arch, minimum) (hex_encode s))"
proof -
  have w: "utf8 ''https://github.com/''" "utf8 ''/releases/download/v''" "utf8 ''/''" "utf8 ''.sigstore.json''"
    by (simp_all add: ascii_utf8 ascii_def byte_def)
  have "utf8 os" "utf8 arch" "utf8 minimum"
    using assms(3) by (auto simp: release_targets_def byte_def intro!: ascii_utf8)
  moreover have ver: "utf8 (mf_version v)" by (rule word_utf8 [OF name_words [OF version_bytes [OF assms(1)]]])
  then have "utf8 (base_url v)" unfolding base_url_def by (intro utf8_append w assms(2))
  moreover have "utf8 (archive_name (mf_version v) os arch)" by (rule word_utf8 [OF name_words [OF archive_names(1) [OF assms(1,3)]]])
  moreover have "utf8 (hex_encode s)" by (rule word_utf8 [OF hex_words])
  ultimately show ?thesis using w(4) by (simp add: plain_asset_def built_asset_def Let_def utf8_append)
qed


lemma built_verifies:
  assumes "buildManifest literal orc v dk = (None, dk1)" and "utf8 (mf_repository v)"
    and "\<forall>t \<in> set release_targets. archived (dk_files dk) v t" and "or_fault orc' = (\<lambda>_. None)"
  shows "\<exists>dk2. verifyManifest literal orc' (mf_directory v) dk1 = (None, dk2)"
proof -
  obtain as d where as: "build_assets orc v release_targets dk = (Inr as, d)"
    "ValidateReleaseManifest literal (built_manifest v as) = None"
    "fs_WriteFile orc (manifest_path (mf_directory v)) (manifest_json (built_manifest v as) @ [CHR 0x0A]) d = (None, dk1)"
    using assms(1) by (auto simp: buildManifest_def split: sum.splits prod.splits option.splits)
  note r = build_assets_result [OF as(1)]
  have ver: "release_version (mf_version v)"
    using as(2) releaseVersionPattern_exact by (simp add: ValidateReleaseManifest_def built_manifest_def split: if_splits)
  have chan: "mf_channel v \<in> {''prerelease'', ''stable''}"
    using as(2) by (auto simp: ValidateReleaseManifest_def built_manifest_def split: if_splits)
  let ?m = "built_manifest v as" and ?data = "manifest_json (built_manifest v as) @ [CHR 0x0A]"
  have files: "dk_files dk1 = (dk_files dk)(manifest_path (mf_directory v) \<mapsto> (?data, False))"
    using fs_WriteFile_done [OF as(3)] r by simp
  have each: "verified (dk_files dk1) (mf_directory v) a \<and> plain_asset a" if a: "a \<in> set as" for a
  proof -
    obtain t where t: "t \<in> set release_targets" "asset_from (dk_files dk) v t a"
      using list_all2_source [OF conjunct2 [OF r] a] by blast
    note b = built_verified [OF t(2) bspec [OF assms(3) t(1)] t(1) ver]
    obtain bytes where "a = built_asset v t (hex_encode (Sum256 bytes))" using b(2) by blast
    moreover obtain os arch minimum where "t = (os, arch, minimum)" by (metis prod_cases3)
    ultimately show ?thesis using b(1) built_plain [OF ver assms(2)] t(1) files by metis
  qed
  have "utf8 (mf_version v)" by (rule word_utf8 [OF name_words [OF version_bytes [OF ver]]])
  moreover have "utf8 (mf_channel v)" using chan by (elim insertE emptyE) (simp_all add: ascii_utf8 ascii_def byte_def)
  moreover have "list_all plain_asset as" using each by (simp add: list_all_iff)
  ultimately have dec: "decode_manifest ?data = Inr ?m" by (intro manifest_roundtrip) (simp_all add: built_manifest_def)
  obtain d1 where d1: "fs_ReadFile orc' (manifest_path (mf_directory v)) dk1 = (Inr ?data, d1)" "dk_files d1 = dk_files dk1"
    using files by (simp add: fs_ReadFile_def fs_other_def calm_call [OF assms(4)])
  have "read_manifest literal orc' (manifest_path (mf_directory v)) dk1 = (Inr ?m, d1)"
    using d1(1) dec as(2) by (simp add: read_manifest_def)
  moreover have "\<exists>dk2. verify_assets orc' (mf_directory v) (rm_Assets ?m) d1 = (None, dk2)"
    by (rule verify_assets_calm [OF assms(4)]) (use each d1(2) in \<open>simp add: built_manifest_def\<close>)
  ultimately show ?thesis by (auto simp: verifyManifest_def)
qed

text \<open>C38. What releasemanifest builds, releasemanifest verifies: when it succeeds, whatever the disk did meanwhile, in a directory
  that holds for every target an archive with the checksum file that releasepack writes, then the manifest it leaves is
  valid, and verifying the directory reads back that manifest and finds every archive, checksum and signature in order.\<close>

theorem built_release_verifies:
  assumes "buildManifest literal orc v dk = (None, dk1)" and "utf8 (mf_repository v)"
    and "\<forall>t \<in> set release_targets. archived (dk_files dk) v t" and "or_fault orc' = (\<lambda>_. None)"
  shows "\<exists>dk2. verifyManifest literal orc' (mf_directory v) dk1 = (None, dk2)"
  by (rule built_verifies [OF assms])

section \<open>A release on a disk that never fails\<close>

lemma build_assets_calm:
  assumes "or_fault orc = (\<lambda>_. None)"
  shows "list_all2 (asset_from (dk_files dk) v) targets as \<Longrightarrow>
    \<exists>dk'. build_assets orc v targets dk = (Inr as, dk') \<and> dk_files dk' = dk_files dk"
proof (induction targets arbitrary: as dk)
  case (Cons t targets)
  obtain os arch minimum where t: "t = (os, arch, minimum)" by (metis prod_cases3)
  obtain a as' where as: "as = a # as'" "asset_from (dk_files dk) v t a" "list_all2 (asset_from (dk_files dk) v) targets as'"
    using Cons.prems by (cases as) auto
  let ?name = "archive_name (mf_version v) os arch"
  obtain digest bytes where a: "a = built_asset v (os, arch, minimum) digest"
    "file_at (dk_files dk) (filepath_Join [mf_directory v, ?name @ ''.sha256'']) bytes" "checksum_of (whole bytes) ?name = Inr digest"
    "dk_files dk (filepath_Join [mf_directory v, ?name @ ''.sigstore.json'']) \<noteq> None"
    using as(2) unfolding asset_from_def t by (auto simp: Let_def)
  obtain d1 where d1: "readChecksum orc (filepath_Join [mf_directory v, ?name @ ''.sha256'']) ?name dk = (Inr digest, d1)"
    "dk_files d1 = dk_files dk" using readChecksum_calm [OF assms a(2,3)] by blast
  obtain d2 where d2: "fs_regular orc (filepath_Join [mf_directory v, ?name @ ''.sigstore.json'']) d1 = (True, d2)"
    "dk_files d2 = dk_files dk" using fs_regular_calm [OF assms] a(4) d1(2) by metis
  obtain d3 where "build_assets orc v targets d2 = (Inr as', d3)" "dk_files d3 = dk_files dk"
    using Cons.IH [of d2 as'] as(3) d2(2) by metis
  then show ?case using d1(1) d2(1) as(1) a(1) by (simp add: t Let_def)
qed simp

lemma fs_WriteFile_calm:
  "or_fault orc = (\<lambda>_. None) \<Longrightarrow>
   \<exists>dk'. fs_WriteFile orc path bytes dk = (None, dk') \<and> dk_files dk' = (dk_files dk)(path \<mapsto> (bytes, False))"
  by (simp add: fs_WriteFile_def fs_Write_def fs_other_def calm_call)

lemma buildManifest_calm:
  assumes "or_fault orc = (\<lambda>_. None)" and "list_all2 (asset_from (dk_files dk) v) release_targets as"
    and "ValidateReleaseManifest literal (built_manifest v as) = None"
  shows "\<exists>dk'. buildManifest literal orc v dk = (None, dk')"
proof -
  obtain d where d: "build_assets orc v release_targets dk = (Inr as, d)" using build_assets_calm [OF assms(1,2)] by blast
  obtain d' where "fs_WriteFile orc (manifest_path (mf_directory v)) (manifest_json (built_manifest v as) @ [CHR 0x0A]) d = (None, d')"
    using fs_WriteFile_calm [OF assms(1)] by blast
  then show ?thesis using d assms(3) by (simp add: buildManifest_def)
qed

lemma hex_digest: "hex_decodes (hex_encode s)"
proof -
  have "hex_value (hex_digit (byte c div 16)) \<noteq> None" "hex_value (hex_digit (byte c mod 16)) \<noteq> None" for c
    using hex_value_digit [of "byte c div 16"] hex_value_digit [of "byte c mod 16"] by (simp_all add: byte_def less_mult_imp_div_less)
  then have "list_all (\<lambda>c. hex_value c \<noteq> None) (hex_encode s)" by (induction s) (simp_all add: hex_encode_def)
  then show ?thesis by (simp add: hex_decodes_def length_hex_encode)
qed

text \<open>A directory with empty archives, each beside its checksum; every other file is there too.\<close>

definition sample_flags :: manifest_flags where
  "sample_flags = \<lparr>mf_version = ''1.2.3'', mf_channel = ''stable'', mf_repository = ''pondpilot/quackridge'',
     mf_directory = ''dist'', mf_verify = False\<rparr>"

definition sample_files :: files where
  "sample_files path =
     (if take 7 (rev path) = rev ''.sha256''
      then Some (checksum_text (hex_encode (Sum256 [])) (take (length path - 7) path), False) else Some ([], False))"

definition sample_disk :: disk where
  "sample_disk = \<lparr>dk_files = sample_files, dk_log = []\<rparr>"

definition sample_assets :: "release_asset list" where
  "sample_assets = map (\<lambda>t. built_asset sample_flags t (hex_encode (Sum256 []))) release_targets"

lemma sample_version: "release_version ''1.2.3''"
proof -
  have "releaseVersionPattern ''1.2.3''" by code_simp
  then show ?thesis using releaseVersionPattern_exact by blast
qed

lemma sample_paths:
  "filepath_Join [''dist'', archive_name ''1.2.3'' os arch] = ''dist/'' @ archive_name ''1.2.3'' os arch"
  "filepath_Join [''dist'', archive_name ''1.2.3'' os arch @ ''.sha256''] = ''dist/'' @ archive_name ''1.2.3'' os arch @ ''.sha256''"
  if "(os, arch) \<in> {(''darwin'', ''amd64''), (''darwin'', ''arm64''), (''linux'', ''amd64'')}"
  using that by (elim insertE emptyE; simp only: prod.inject; elim conjE; hypsubst; code_simp)+

lemma sample_sums:
  "file_at sample_files path []" if "take 7 (rev path) \<noteq> rev ''.sha256''"
  using that by (intro file_at_Some [of _ _ _ False]) (simp add: sample_files_def)

lemma sample_checksum:
  "file_at sample_files (path @ ''.sha256'') (checksum_text (hex_encode (Sum256 [])) path)"
  by (intro file_at_Some [of _ _ _ False]) (simp add: sample_files_def)

lemma sample_archived:
  assumes "(os, arch, minimum) \<in> set release_targets"
  shows "archived sample_files sample_flags (os, arch, minimum)"
    and "asset_from sample_files sample_flags (os, arch, minimum) (built_asset sample_flags (os, arch, minimum) (hex_encode (Sum256 [])))"
proof -
  let ?name = "archive_name ''1.2.3'' os arch" and ?path = "filepath_Join [''dist'', archive_name ''1.2.3'' os arch]"
  have oa: "(os, arch) \<in> {(''darwin'', ''amd64''), (''darwin'', ''arm64''), (''linux'', ''amd64'')}"
    using assms by (auto simp: release_targets_def)
  have p: "filepath_Join [''dist'', ?name @ ''.sha256''] = ?path @ ''.sha256''" using sample_paths [OF oa] by simp
  have "take 7 (rev ?path) \<noteq> rev ''.sha256''" unfolding sample_paths(1) [OF oa] by (simp add: archive_name_def)
  then show "archived sample_files sample_flags (os, arch, minimum)"
    using sample_sums [of ?path] sample_checksum [of ?path] p
    unfolding archived_def prod.case Let_def sample_flags_def manifest_flags.simps by (intro exI [of _ "[]"]) simp
  have "length ?name + 67 \<le> scan_limit" using oa by (auto simp: archive_name_def archive_root_def scan_limit_def)
  then have "checksum_of (whole (checksum_text (hex_encode (Sum256 [])) ?path)) ?name = Inr (hex_encode (Sum256 []))"
    unfolding whole_def using archive_names(2) [OF sample_version assms]
    by (intro checksum_read) (auto simp: name_words [OF archive_names(1) [OF sample_version assms]]
        Base_Join [OF plain_archive_names [OF sample_version assms, of "''''", simplified]])
  moreover have "sample_files x \<noteq> None" for x unfolding sample_files_def by (simp del: not_None_eq)
  ultimately show "asset_from sample_files sample_flags (os, arch, minimum) (built_asset sample_flags (os, arch, minimum) (hex_encode (Sum256 [])))"
    using sample_checksum [of ?path] p by (auto simp: asset_from_def sample_flags_def Let_def)
qed

lemma sample_urls:
  "https_url (\<lambda>_. False) (base_url sample_flags @ archive_name ''1.2.3'' os arch)"
  "https_url (\<lambda>_. False) (base_url sample_flags @ archive_name ''1.2.3'' os arch @ ''.sigstore.json'')"
  if "(os, arch) \<in> {(''darwin'', ''amd64''), (''darwin'', ''arm64''), (''linux'', ''amd64'')}"
  using that by (elim insertE emptyE; simp only: prod.inject; elim conjE; hypsubst; code_simp)+

lemma sample_valid: "ValidateReleaseManifest (\<lambda>_. False) (built_manifest sample_flags sample_assets) = None"
proof -
  have v: "releaseVersionPattern (mf_version sample_flags)" using sample_version releaseVersionPattern_exact by (simp add: sample_flags_def)
  have w: "mf_version sample_flags = ''1.2.3''" "mf_channel sample_flags = ''stable''" by (simp_all add: sample_flags_def)
  have "check_assets (\<lambda>_. False) sample_assets [] = Inr [''linux/amd64'', ''darwin/arm64'', ''darwin/amd64'']"
    using sample_urls w by (simp add: sample_assets_def release_targets_def built_asset_def Let_def asset_target_def supported_targets_def
        length_hex_encode hex_digest)
  then show ?thesis using v w by (simp add: ValidateReleaseManifest_def built_manifest_def required_targets_def)
qed

lemma sample_built: "\<exists>dk'. buildManifest (\<lambda>_. False) calm_oracle sample_flags sample_disk = (None, dk')"
proof (rule buildManifest_calm)
  show "list_all2 (asset_from (dk_files sample_disk) sample_flags) release_targets sample_assets"
    using sample_archived(2) by (simp add: sample_disk_def sample_assets_def release_targets_def)
qed (simp_all add: calm_oracle_def sample_valid)


lemma sample_archives: "\<forall>t \<in> set release_targets. archived (dk_files sample_disk) sample_flags t"
proof
  fix t assume t: "t \<in> set release_targets"
  obtain os arch minimum where "t = (os, arch, minimum)" by (metis prod_cases3)
  then show "archived (dk_files sample_disk) sample_flags t" using sample_archived(1) t by (simp add: sample_disk_def)
qed

lemma sample_utf8: "utf8 (mf_repository sample_flags)"
  by (simp add: sample_flags_def ascii_utf8 ascii_def byte_def)

theorem built_release_verifies_witness:
  "\<exists>dk1 dk2. buildManifest (\<lambda>_. False) calm_oracle sample_flags sample_disk = (None, dk1) \<and>
     verifyManifest (\<lambda>_. False) calm_oracle (mf_directory sample_flags) dk1 = (None, dk2)"
proof -
  obtain dk1 where dk1: "buildManifest (\<lambda>_. False) calm_oracle sample_flags sample_disk = (None, dk1)" using sample_built by blast
  have calm: "or_fault calm_oracle = (\<lambda>_. None)" by (simp add: calm_oracle_def)
  show ?thesis using dk1 built_release_verifies [OF dk1 sample_utf8 sample_archives calm] by blast
qed

theorem verifyManifest_sound_witness:
  "\<exists>(dk :: disk) data m. file_at (dk_files dk) (manifest_path ''dist'') data \<and> decode_manifest data = Inr m \<and>
     ValidateReleaseManifest (\<lambda>_. False) m = None \<and> list_all (verified (dk_files dk) ''dist'') (rm_Assets m)"
proof -
  obtain dk1 where dk1: "buildManifest (\<lambda>_. False) calm_oracle sample_flags sample_disk = (None, dk1)" using sample_built by blast
  have calm: "or_fault calm_oracle = (\<lambda>_. None)" by (simp add: calm_oracle_def)
  have "mf_directory sample_flags = ''dist''" by (simp add: sample_flags_def)
  then obtain dk2 where dk2: "verifyManifest (\<lambda>_. False) calm_oracle ''dist'' dk1 = (None, dk2)"
    using built_verifies [OF dk1 sample_utf8 sample_archives calm] by auto
  obtain data m where m: "file_at (dk_files dk1) (manifest_path ''dist'') data" "decode_manifest data = Inr m"
    "ValidateReleaseManifest (\<lambda>_. False) m = None" "\<forall>a \<in> set (rm_Assets m). verified (dk_files dk1) ''dist'' a"
    using verifyManifest_sound [OF dk2] by blast
  then have "list_all (verified (dk_files dk1) ''dist'') (rm_Assets m)" by (simp add: list_all_iff)
  then show ?thesis using m(1-3) by (intro exI [of _ dk1] exI [of _ data] exI [of _ m]) simp
qed

end
