(* ===== verification/ReleasePack.thy ===== *)
theory ReleasePack
  imports ReleaseRound
begin

text \<open>
  What releasepack leaves behind when it succeeds, and that it is the same for the same inputs.
\<close>

section \<open>What releasepack writes\<close>

text \<open>An entry of an archive with the contents of its file.\<close>

definition packed_entry :: "files \<Rightarrow> pack_entry \<Rightarrow> string \<times> nat \<times> string \<Rightarrow> bool" where
  "packed_entry fs x e \<longleftrightarrow> (\<exists>data. e = (pe_name x, pe_mode x, data) \<and> file_at fs (pe_path x) data)"

lemma fs_ReadFile_result:
  "fs_ReadFile orc path dk = (r, dk') \<Longrightarrow> dk_files dk' = dk_files dk \<and> (\<forall>data. r = Inr data \<longrightarrow> file_at (dk_files dk) path data)"
  by (auto simp: fs_ReadFile_def file_at_def fs_other_same split: option.splits prod.splits)

lemma read_inputs_result:
  "read_inputs orc fmt xs dk = ((entries, err), dk') \<Longrightarrow>
   dk_files dk' = dk_files dk \<and> (err = None \<longrightarrow> list_all2 (packed_entry (dk_files dk)) xs entries)"
proof (induction xs arbitrary: dk entries err dk')
  case (Cons x xs)
  obtain r d1 where s: "fs_ReadFile orc (pe_path x) dk = (r, d1)" by fastforce
  note f = fs_ReadFile_result [OF s]
  show ?case
  proof (cases r)
    case (Inl e)
    then show ?thesis using Cons.prems s f by auto
  next
    case (Inr data)
    show ?thesis
    proof (cases "af_header fmt (pe_name x) data")
      case None
      obtain es err' d2 where r2: "read_inputs orc fmt xs d1 = ((es, err'), d2)" by (metis prod.exhaust)
      then show ?thesis using Cons.prems Cons.IH [OF r2] s f Inr None by (auto simp: packed_entry_def)
    next
      case (Some e)
      then have "err = Some e" "dk' = d1" using Cons.prems s Inr by simp_all
      then show ?thesis using f Inr by simp
    qed
  qed
qed simp

lemma fs_Write_done: "fs_Write orc path bytes dk = (None, dk') \<Longrightarrow> dk_files dk' = (dk_files dk)(path \<mapsto> (bytes, False))"
  by (auto simp: fs_Write_def sys_call_def split: option.splits fault.splits)

lemma join_errors_None: "join_errors a b = None \<longleftrightarrow> a = None \<and> b = None"
  by (cases a; cases b) (simp_all add: join_errors_def)

lemma write_archive_done:
  assumes "write_archive orc fmt path files ts dk = (None, dk')"
  shows "\<exists>entries. list_all2 (packed_entry ((dk_files dk)(path \<mapsto> ([], False)))) files entries \<and>
    dk_files dk' = (dk_files dk)(path \<mapsto> (af_whole fmt ts entries, False))"
proof -
  obtain d1 where d1: "sys_call orc (\<lambda>fs. fs(path \<mapsto> ([], False))) (\<lambda>_. id) dk = (None, d1)"
    using assms by (auto simp: write_archive_def split: prod.splits option.splits)
  then have f1: "dk_files d1 = (dk_files dk)(path \<mapsto> ([], False))"
    by (auto simp: sys_call_def split: option.splits fault.splits)
  obtain entries err d2 where d2: "read_inputs orc fmt files d1 = ((entries, err), d2)" by (metis prod.exhaust)
  obtain err2 d3 where d3: "fs_Write orc path (if err = None then af_whole fmt ts entries else af_left fmt ts entries) d2 = (err2, d3)"
    by fastforce
  obtain err3 d4 where d4: "fs_other orc d3 = (err3, d4)" by fastforce
  have r: "err = None" "err2 = None" "dk' = d4"
    using assms d1 d2 d3 d4 by (auto simp: write_archive_def join_errors_None split: if_splits)
  have "list_all2 (packed_entry (dk_files d1)) files entries" "dk_files d2 = dk_files d1"
    using read_inputs_result [OF d2] r(1) by auto
  moreover have "dk_files d3 = (dk_files d2)(path \<mapsto> (af_whole fmt ts entries, False))"
    using d3 r(1,2) fs_Write_done by simp
  ultimately show ?thesis using f1 fs_other_same [OF d4] r(3) by (intro exI [of _ entries]) simp
qed

definition archive_entries :: "pack_flags \<Rightarrow> pack_entry list" where
  "archive_entries v = (if pf_os v = ''windows'' then map zip_entry (sort_entries (pack_entries v)) else sort_entries (pack_entries v))"

definition archive_format_of :: "formats \<Rightarrow> pack_flags \<Rightarrow> archive_format" where
  "archive_format_of fm v = (if pf_os v = ''windows'' then fm_zip fm else fm_tar fm)"

lemma check_inputs_files: "check_inputs orc xs dk = (err, dk') \<Longrightarrow> dk_files dk' = dk_files dk"
proof (induction xs arbitrary: dk)
  case (Cons x xs)
  obtain ok d1 where s: "fs_regular orc (pe_path x) dk = (ok, d1)" by fastforce
  then show ?case using Cons fs_regular_result [OF s] by (cases ok) auto
qed simp

lemma pack_result:
  assumes "pack fm orc v ts dk = ((None, out), dk')"
  shows "\<exists>entries. let bytes = af_whole (archive_format_of fm v) ts entries; path = archive_path v in
    list_all2 (packed_entry ((dk_files dk)(path \<mapsto> ([], False)))) (archive_entries v) entries \<and>
    file_at (dk_files dk') path bytes \<and>
    file_at (dk_files dk') (path @ ''.sha256'') (checksum_text (hex_encode (Sum256 bytes)) path)"
proof -
  let ?path = "archive_path v"
  obtain e1 d1 where s1: "check_inputs orc (pack_entries v) dk = (e1, d1)" by fastforce
  then have e1: "e1 = None" using assms by (cases e1) (auto simp: pack_def Let_def)
  obtain e2 d2 where s2: "fs_other orc d1 = (e2, d2)" by fastforce
  then have e2: "e2 = None" using assms s1 e1 by (cases e2) (auto simp: pack_def Let_def)
  obtain e3 d3 where s3: "write_archive orc (archive_format_of fm v) ?path (archive_entries v) ts d2 = (e3, d3)" by fastforce
  have w: "(if pf_os v = ''windows'' then write_archive orc (fm_zip fm) ?path (map zip_entry (sort_entries (pack_entries v))) ts d2
      else write_archive orc (fm_tar fm) ?path (sort_entries (pack_entries v)) ts d2) = (e3, d3)"
    using s3 by (simp add: archive_format_of_def archive_entries_def split: if_splits)
  then have e3: "e3 = None" using assms s1 e1 s2 e2 by (cases e3) (auto simp: pack_def Let_def)
  obtain r d4 where s4: "fileDigest orc ?path d3 = (r, d4)" by fastforce
  then obtain digest where r: "r = Inr digest" using assms s1 e1 s2 e2 w e3 by (cases r) (auto simp: pack_def Let_def)
  obtain e5 d5 where s5: "fs_WriteFile orc (?path @ ''.sha256'') (checksum_text digest ?path) d4 = (e5, d5)" by fastforce
  then have e5: "e5 = None" "d5 = dk'" using assms s1 e1 s2 e2 w e3 s4 r by (cases e5; auto simp: pack_def Let_def)+
  obtain entries where en: "list_all2 (packed_entry ((dk_files d2)(?path \<mapsto> ([], False)))) (archive_entries v) entries"
    "dk_files d3 = (dk_files d2)(?path \<mapsto> (af_whole (archive_format_of fm v) ts entries, False))"
    using write_archive_done s3 e3 by blast
  obtain bytes where b: "file_at (dk_files d3) ?path bytes" "hex_encode (Sum256 bytes) = digest"
    using fileDigest_result s4 r by blast
  then have "bytes = af_whole (archive_format_of fm v) ts entries" using en(2) by (simp add: file_at_def)
  moreover have "dk_files d2 = dk_files dk" using check_inputs_files [OF s1] fs_other_same [OF s2] by simp
  moreover have "dk_files d4 = dk_files d3" using fileDigest_files [of orc ?path d3] s4 by simp
  moreover have "dk_files dk' = (dk_files d4)(?path @ ''.sha256'' \<mapsto> (checksum_text digest ?path, False))"
    using fs_WriteFile_done s5 e5 by simp
  ultimately show ?thesis using en b by (intro exI [of _ entries]) (simp add: Let_def file_at_def)
qed

text \<open>The names of the entries depend on the release only, and are distinct, so their order is one.\<close>

lemma insort_pairs:
  assumes "pe_name x = pe_name y" "R x y" "list_all2 (\<lambda>a b. pe_name a = pe_name b \<and> R a b) xs ys"
  shows "list_all2 (\<lambda>a b. pe_name a = pe_name b \<and> R a b) (insort_key pe_name x xs) (insort_key pe_name y ys)"
  using assms(3) by (induction rule: list_all2_induct) (use assms(1,2) in auto)

lemma sort_pairs:
  "list_all2 (\<lambda>a b. pe_name a = pe_name b \<and> R a b) xs ys \<Longrightarrow>
   list_all2 (\<lambda>a b. pe_name a = pe_name b \<and> R a b) (sort_entries xs) (sort_entries ys)"
  unfolding sort_entries_def by (induction xs ys rule: list_all2_induct) (simp_all add: insort_pairs)

definition same_input :: "files \<Rightarrow> files \<Rightarrow> pack_entry \<Rightarrow> pack_entry \<Rightarrow> bool" where
  "same_input fs fs' x y \<longleftrightarrow> pe_mode x = pe_mode y \<and>
     (\<forall>a b. file_at fs (pe_path x) a \<longrightarrow> file_at fs' (pe_path y) b \<longrightarrow> a = b)"

lemma packed_same:
  assumes "list_all2 (\<lambda>x y. pe_name x = pe_name y \<and> same_input fs fs' x y) xs ys"
    and "list_all2 (packed_entry fs) xs es" and "list_all2 (packed_entry fs') ys es'"
  shows "es = es'"
  using assms
proof (induction xs ys arbitrary: es es' rule: list_all2_induct)
  case (Cons x xs y ys)
  obtain e r where e: "es = e # r" "packed_entry fs x e" "list_all2 (packed_entry fs) xs r" using Cons.prems(1) by (cases es) auto
  obtain e' r' where e': "es' = e' # r'" "packed_entry fs' y e'" "list_all2 (packed_entry fs') ys r'" using Cons.prems(2) by (cases es') auto
  have "e = e'" using e(2) e'(2) Cons.hyps(1) by (auto simp: packed_entry_def same_input_def)
  then show ?case using Cons.IH [OF e(3) e'(3)] e(1) e'(1) by simp
qed simp

lemma archive_pairs:
  assumes "list_all2 (\<lambda>x y. pe_name x = pe_name y \<and> same_input fs fs' x y) (pack_entries v) (pack_entries v')"
    and "pf_os v = pf_os v'"
  shows "list_all2 (\<lambda>x y. pe_name x = pe_name y \<and> same_input fs fs' x y) (archive_entries v) (archive_entries v')"
proof -
  have "list_all2 (\<lambda>x y. pe_name x = pe_name y \<and> same_input fs fs' x y) (map zip_entry xs) (map zip_entry ys)"
    if "list_all2 (\<lambda>x y. pe_name x = pe_name y \<and> same_input fs fs' x y) xs ys" for xs ys
    using that by (induction rule: list_all2_induct) (simp_all add: zip_entry_def same_input_def)
  then show ?thesis using sort_pairs [OF assms(1)] assms(2) by (simp add: archive_entries_def)
qed

lemma pack_names:
  assumes "pf_version v = pf_version v'" and "pf_os v = pf_os v'" and "pf_arch v = pf_arch v'"
  shows "map pe_name (pack_entries v) = map pe_name (pack_entries v')" and "map pe_mode (pack_entries v) = map pe_mode (pack_entries v')"
  using assms by (simp_all add: pack_entries_def pack_root_def pack_file_def comp_def)

text \<open>The contents that a run reads, by the name of their entry.\<close>

definition inputs_agree :: "pack_flags \<Rightarrow> disk \<Rightarrow> pack_flags \<Rightarrow> disk \<Rightarrow> bool" where
  "inputs_agree v dk v' dk' \<longleftrightarrow>
     (\<forall>(x, y) \<in> set (zip (pack_entries v) (pack_entries v')). \<forall>a b.
        file_at ((dk_files dk)(archive_path v \<mapsto> ([], False))) (pe_path x) a \<longrightarrow>
        file_at ((dk_files dk')(archive_path v' \<mapsto> ([], False))) (pe_path y) b \<longrightarrow> a = b)"

text \<open>C39. Archives are reproducible: two runs of releasepack for the same version, target and time that succeed, on
  machines whose disks and paths may differ and may fail differently, leave archives with the same bytes when the files that
  they pack have the same contents, and each leaves beside its archive the checksum of these bytes.\<close>

theorem pack_reproducible:
  assumes "pf_version v = pf_version v'" and "pf_os v = pf_os v'" and "pf_arch v = pf_arch v'"
    and "inputs_agree v dk v' dk'"
    and "pack fm orc v ts dk = ((None, out), dk1)" and "pack fm orc' v' ts dk' = ((None, out'), dk1')"
  shows "\<exists>bytes. file_at (dk_files dk1) (archive_path v) bytes \<and> file_at (dk_files dk1') (archive_path v') bytes \<and>
    file_at (dk_files dk1) (archive_path v @ ''.sha256'') (checksum_text (hex_encode (Sum256 bytes)) (archive_path v)) \<and>
    file_at (dk_files dk1') (archive_path v' @ ''.sha256'') (checksum_text (hex_encode (Sum256 bytes)) (archive_path v'))"
proof -
  let ?fs = "(dk_files dk)(archive_path v \<mapsto> ([], False))" and ?fs' = "(dk_files dk')(archive_path v' \<mapsto> ([], False))"
  obtain es where es: "list_all2 (packed_entry ?fs) (archive_entries v) es"
    "file_at (dk_files dk1) (archive_path v) (af_whole (archive_format_of fm v) ts es)"
    "file_at (dk_files dk1) (archive_path v @ ''.sha256'')
      (checksum_text (hex_encode (Sum256 (af_whole (archive_format_of fm v) ts es))) (archive_path v))"
    using pack_result [OF assms(5)] by (auto simp: Let_def)
  obtain es' where es': "list_all2 (packed_entry ?fs') (archive_entries v') es'"
    "file_at (dk_files dk1') (archive_path v') (af_whole (archive_format_of fm v') ts es')"
    "file_at (dk_files dk1') (archive_path v' @ ''.sha256'')
      (checksum_text (hex_encode (Sum256 (af_whole (archive_format_of fm v') ts es'))) (archive_path v'))"
    using pack_result [OF assms(6)] by (auto simp: Let_def)
  note names = pack_names [OF assms(1-3)]
  have len: "length (pack_entries v) = length (pack_entries v')" using arg_cong [OF names(1), of length] by simp
  have "pe_name (pack_entries v ! i) = pe_name (pack_entries v' ! i) \<and> same_input ?fs ?fs' (pack_entries v ! i) (pack_entries v' ! i)"
    if i: "i < length (pack_entries v)" for i
  proof -
    have "pe_name (pack_entries v ! i) = pe_name (pack_entries v' ! i)" "pe_mode (pack_entries v ! i) = pe_mode (pack_entries v' ! i)"
      using names i len by (metis nth_map)+
    moreover have "(pack_entries v ! i, pack_entries v' ! i) \<in> set (zip (pack_entries v) (pack_entries v'))"
      using i len by (auto simp: set_zip)
    ultimately show ?thesis using assms(4) unfolding inputs_agree_def same_input_def by blast
  qed
  then have "list_all2 (\<lambda>x y. pe_name x = pe_name y \<and> same_input ?fs ?fs' x y) (pack_entries v) (pack_entries v')"
    using len by (simp add: list_all2_conv_all_nth)
  from packed_same [OF archive_pairs [OF this assms(2)] es(1) es'(1)] have "es = es'" .
  moreover have "archive_format_of fm v = archive_format_of fm v'" using assms(2) by (simp add: archive_format_of_def)
  ultimately show ?thesis using es(2,3) es'(2,3) by auto
qed


section \<open>Two runs that succeed\<close>

text \<open>A format that writes names and contents, and a disk where every file is there and empty.\<close>

definition plain_format :: archive_format where
  "plain_format = \<lparr>af_header = (\<lambda>_ _. None), af_whole = (\<lambda>_ es. concat (map (\<lambda>(name, _, data). name @ data) es)),
     af_left = (\<lambda>_ _. [])\<rparr>"

definition plain_formats :: formats where
  "plain_formats = \<lparr>fm_tar = plain_format, fm_zip = plain_format\<rparr>"

definition blank_disk :: "files list \<Rightarrow> disk" where
  "blank_disk log = \<lparr>dk_files = (\<lambda>_. Some ([], False)), dk_log = log\<rparr>"

definition pack_sample :: "string \<Rightarrow> pack_flags" where
  "pack_sample directory = \<lparr>pf_version = ''1.2.3'', pf_os = ''linux'', pf_arch = ''amd64'', pf_binary = ''build/quackridge'',
     pf_extensions = ''build/extensions'', pf_sbom = ''build/sbom.json'', pf_output = directory\<rparr>"

lemma check_inputs_calm:
  "or_fault orc = (\<lambda>_. None) \<Longrightarrow> \<forall>x \<in> set xs. dk_files dk (pe_path x) \<noteq> None \<Longrightarrow> \<exists>dk'. check_inputs orc xs dk = (None, dk')"
proof (induction xs arbitrary: dk)
  case (Cons x xs)
  obtain d1 where d1: "fs_regular orc (pe_path x) dk = (True, d1)" "dk_files d1 = dk_files dk"
    using fs_regular_calm [OF Cons.prems(1)] Cons.prems(2) by (metis list.set_intros(1))
  then show ?case using Cons.IH [OF Cons.prems(1), of d1] Cons.prems(2) by simp
qed simp

lemma fs_ReadFile_calm:
  assumes "or_fault orc = (\<lambda>_. None)" and "file_at (dk_files dk) path bytes"
  shows "\<exists>dk'. fs_ReadFile orc path dk = (Inr bytes, dk') \<and> dk_files dk' = dk_files dk"
  using assms by (auto simp: file_at_def fs_ReadFile_def fs_other_def calm_call)

lemma read_inputs_calm:
  "or_fault orc = (\<lambda>_. None) \<Longrightarrow> af_header fmt = (\<lambda>_ _. None) \<Longrightarrow> \<forall>p. \<exists>bytes. file_at (dk_files dk) p bytes \<Longrightarrow>
   \<exists>es dk'. read_inputs orc fmt xs dk = ((es, None), dk')"
proof (induction xs arbitrary: dk)
  case (Cons x xs)
  obtain bytes where "file_at (dk_files dk) (pe_path x) bytes" using Cons.prems(3) by blast
  then obtain d1 where d1: "fs_ReadFile orc (pe_path x) dk = (Inr bytes, d1)" "dk_files d1 = dk_files dk"
    using fs_ReadFile_calm [OF Cons.prems(1)] by blast
  obtain es dk' where "read_inputs orc fmt xs d1 = ((es, None), dk')"
    using Cons.IH [OF Cons.prems(1,2), of d1] Cons.prems(3) d1(2) by auto
  then show ?case using d1(1) Cons.prems(2) by simp
qed simp

lemma write_archive_calm:
  assumes "or_fault orc = (\<lambda>_. None)" and "af_header fmt = (\<lambda>_ _. None)" and "\<forall>p. \<exists>bytes. file_at (dk_files dk) p bytes"
  shows "\<exists>dk'. write_archive orc fmt path xs ts dk = (None, dk')"
proof -
  obtain d1 where d1: "sys_call orc (\<lambda>fs. fs(path \<mapsto> ([], False))) (\<lambda>_. id) dk = (None, d1)" "dk_files d1 = (dk_files dk)(path \<mapsto> ([], False))"
    by (simp add: calm_call [OF assms(1)])
  have "\<forall>p. \<exists>bytes. file_at (dk_files d1) p bytes" using assms(3) unfolding d1(2) by (auto simp: file_at_def)
  then obtain es d2 where d2: "read_inputs orc fmt xs d1 = ((es, None), d2)" using read_inputs_calm [OF assms(1,2)] by blast
  show ?thesis using d1(1) d2 by (simp add: write_archive_def fs_Write_def fs_other_def calm_call [OF assms(1)] join_errors_def)
qed

lemma pack_calm:
  assumes "or_fault orc = (\<lambda>_. None)" and "af_header (archive_format_of fm v) = (\<lambda>_ _. None)"
    and "\<forall>p. \<exists>bytes. file_at (dk_files dk) p bytes"
  shows "\<exists>dk'. pack fm orc v ts dk = ((None, archive_path v @ [CHR 0x0A]), dk')"
proof -
  have "\<forall>x \<in> set (pack_entries v). dk_files dk (pe_path x) \<noteq> None" using assms(3) unfolding file_at_def by (metis option.distinct(1))
  then obtain d1 where d1: "check_inputs orc (pack_entries v) dk = (None, d1)" using check_inputs_calm [OF assms(1)] by blast
  obtain d2 where d2: "fs_other orc d1 = (None, d2)" by (simp add: fs_other_def calm_call [OF assms(1)])
  have f2: "dk_files d2 = dk_files dk" using check_inputs_files [OF d1] fs_other_same [OF d2] by simp
  obtain d3 where d3: "write_archive orc (archive_format_of fm v) (archive_path v) (archive_entries v) ts d2 = (None, d3)"
    using write_archive_calm [OF assms(1,2)] assms(3) f2 by metis
  have w: "(if pf_os v = ''windows'' then write_archive orc (fm_zip fm) (archive_path v) (map zip_entry (sort_entries (pack_entries v))) ts d2
      else write_archive orc (fm_tar fm) (archive_path v) (sort_entries (pack_entries v)) ts d2) = (None, d3)"
    using d3 by (simp add: archive_format_of_def archive_entries_def split: if_splits)
  obtain es where "dk_files d3 = (dk_files d2)(archive_path v \<mapsto> (af_whole (archive_format_of fm v) ts es, False))"
    using write_archive_done [OF d3] by blast
  then obtain bytes where "file_at (dk_files d3) (archive_path v) bytes" using file_at_Some by (metis fun_upd_same)
  then obtain d4 where d4: "fileDigest orc (archive_path v) d3 = (Inr (hex_encode (Sum256 bytes)), d4)"
    using fileDigest_calm [OF assms(1)] by blast
  obtain d5 where "fs_WriteFile orc (archive_path v @ ''.sha256'') (checksum_text (hex_encode (Sum256 bytes)) (archive_path v)) d4 = (None, d5)"
    using fs_WriteFile_calm [OF assms(1)] by blast
  then show ?thesis using d1 d2 w d4 by (simp add: pack_def Let_def)
qed

theorem pack_reproducible_witness:
  "\<exists>dk1 dk2 bytes. pack plain_formats calm_oracle (pack_sample ''dist'') 0 (blank_disk []) = ((None, archive_path (pack_sample ''dist'') @ [CHR 0x0A]), dk1) \<and>
     pack plain_formats calm_oracle (pack_sample ''out'') 0 (blank_disk [Map.empty]) = ((None, archive_path (pack_sample ''out'') @ [CHR 0x0A]), dk2) \<and>
     file_at (dk_files dk1) (archive_path (pack_sample ''dist'')) bytes \<and> file_at (dk_files dk2) (archive_path (pack_sample ''out'')) bytes"
proof -
  have calm: "or_fault calm_oracle = (\<lambda>_. None)" by (simp add: calm_oracle_def)
  have header: "af_header (archive_format_of plain_formats v) = (\<lambda>_ _. None)" for v
    by (simp add: archive_format_of_def plain_formats_def plain_format_def)
  have blank: "\<forall>p. \<exists>bytes. file_at (dk_files (blank_disk log)) p bytes" for log by (auto simp: blank_disk_def file_at_def)
  have same: "pf_version (pack_sample a) = pf_version (pack_sample b)" "pf_os (pack_sample a) = pf_os (pack_sample b)"
    "pf_arch (pack_sample a) = pf_arch (pack_sample b)" for a b by (simp_all add: pack_sample_def)
  have empty: "(\<lambda>_. Some ([], False))(q \<mapsto> ([], False)) = (\<lambda>_. Some ([], False))" for q :: string by auto
  have agree: "inputs_agree (pack_sample ''dist'') (blank_disk []) (pack_sample ''out'') (blank_disk [Map.empty])"
    unfolding inputs_agree_def by (auto simp: blank_disk_def empty file_at_def)
  obtain dk1 where dk1: "pack plain_formats calm_oracle (pack_sample ''dist'') 0 (blank_disk []) =
      ((None, archive_path (pack_sample ''dist'') @ [CHR 0x0A]), dk1)" using pack_calm [OF calm header blank] by blast
  obtain dk2 where dk2: "pack plain_formats calm_oracle (pack_sample ''out'') 0 (blank_disk [Map.empty]) =
      ((None, archive_path (pack_sample ''out'') @ [CHR 0x0A]), dk2)" using pack_calm [OF calm header blank] by blast
  show ?thesis using dk1 dk2 pack_reproducible [OF same agree dk1 dk2] by blast
qed

end
