(* ===== verification/Platform.thy ===== *)
theory Platform
  imports ReleaseRound
begin

text \<open>
  What differs between the systems: the default paths (config.go, transport_unix.go, transport_windows.go), the
  replacement of a file on Windows (replace_windows.go), and the named pipe of the control endpoint.  The user's
  configuration directory, the current user and the pipe are the system's.
\<close>

section \<open>Default paths\<close>

definition DefaultPath :: "string res \<Rightarrow> string res" where
  "DefaultPath config_dir = map_sum id (\<lambda>root. filepath_Join [root, ''QuackRidge'', ''config.json'']) config_dir"

definition DefaultAddress :: "string res \<Rightarrow> string res" where
  "DefaultAddress config_dir = map_sum id (\<lambda>root. filepath_Join [root, ''QuackRidge'', ''control.sock'']) config_dir"

definition DefaultAddress_windows :: "string res" where
  "DefaultAddress_windows = Inr ([CHR 0x5C, CHR 0x5C, CHR ''.'', CHR 0x5C] @ ''pipe'' @ [CHR 0x5C] @ ''QuackRidge-control'')"

lemma default_base:
  assumes "plain_name n"
  shows "filepath_Base (filepath_Join [root, ''QuackRidge'', n]) = n"
proof (cases "root = []")
  case True
  have "plain_name ''QuackRidge''" by (simp add: plain_name_def)
  then show ?thesis using True Base_Join [OF assms, of "''QuackRidge''"] by (simp add: filepath_Join_def)
next
  case False
  have "filepath_Join [root, ''QuackRidge'', n] = filepath_Clean ((root @ ''/QuackRidge'') @ CHR ''/'' # n)"
    using False assms by (simp add: filepath_Join_def plain_name_def)
  then show ?thesis using filepath_Clean_name(1) [OF assms, of "root @ ''/QuackRidge''"] filepath_Base_name [OF assms] by metis
qed

text \<open>The configuration file and the socket are two files of the same names everywhere, and never the same one.\<close>

lemma defaults_apart:
  assumes "DefaultPath config_dir = Inr path" and "DefaultAddress config_dir = Inr address"
  shows "filepath_Base path = ''config.json''" and "filepath_Base address = ''control.sock''" and "path \<noteq> address"
proof -
  have n: "plain_name ''config.json''" "plain_name ''control.sock''" by (simp_all add: plain_name_def)
  obtain root where "path = filepath_Join [root, ''QuackRidge'', ''config.json'']" "address = filepath_Join [root, ''QuackRidge'', ''control.sock'']"
    using assms by (cases config_dir) (auto simp: DefaultPath_def DefaultAddress_def)
  then show b: "filepath_Base path = ''config.json''" "filepath_Base address = ''control.sock''"
    using default_base [OF n(1)] default_base [OF n(2)] by simp_all
  then show "path \<noteq> address" by auto
qed

section \<open>Windows\<close>

text \<open>A path with a NUL has no UTF-16 pointer; \<open>MoveFileEx\<close> with these flags replaces the destination and writes it through.\<close>

definition replaceFile_windows :: "fs_oracle \<Rightarrow> string \<Rightarrow> string \<Rightarrow> disk \<Rightarrow> go_error option \<times> disk" where
  "replaceFile_windows orc source destination dk =
     (if CHR 0x00 \<in> set source \<or> CHR 0x00 \<in> set destination then (Some (Plain ''invalid argument''), dk)
      else fs_Rename orc source destination dk)"

lemma replaceFile_windows_same:
  "CHR 0x00 \<notin> set source \<union> set destination \<Longrightarrow> replaceFile_windows orc source destination = replaceFile orc source destination"
  by (simp add: replaceFile_windows_def replaceFile_def fun_eq_iff)

text \<open>The pipe grants all access to the current user and, being protected, nothing to anyone else; the user's SID stands in the
  descriptor.  \<open>pipe\<close> is the listener of the pipe library.\<close>

definition pipe_descriptor :: "string \<Rightarrow> string" where
  "pipe_descriptor uid = ''D:P(A;;GA;;;'' @ uid @ '')''"

definition pipe_listen :: "string res \<Rightarrow> (string \<Rightarrow> string \<Rightarrow> go_error option) \<Rightarrow> string \<Rightarrow> go_error option" where
  "pipe_listen current pipe address = (case current of Inl e \<Rightarrow> Some e | Inr uid \<Rightarrow> pipe address (pipe_descriptor uid))"

lemma pipe_descriptor_inj: "pipe_descriptor a = pipe_descriptor b \<Longrightarrow> a = b"
  by (simp add: pipe_descriptor_def)

end
