(* ===== verification/Spec2Isabelle.thy ===== *)
theory Spec2Isabelle
  imports Prelude Errors Protocol Lifecycle Policy PolicyHandle Source Clock SqlText Engine EngineSafety Secrets Keychains Config Adapters Sha256 Reconcile WorldSafety App JsonRound JsonLayout JsonTree ConfigRound Identity Pairing Control ControlServer Daemon ControlJson Doctor ControlCall Cli CliSource Served Serve Release ReleaseTools ReleaseRound ReleasePack Platform
begin

text \<open>
  QuackRidge lets a browser application query databases that a user has configured, read-only, through an
  embedded DuckDB that listens on the loopback interface.  This development models the daemon and its
  command line and proves what makes them safe and correct.

  \<^bold>\<open>The program.\<close>  A configuration file names sources.  The daemon (\<open>serve\<close>, internal/cli) starts a service
  (service.go) over the application runtime (internal/app), which builds an engine (internal/engine: one DuckDB
  process database, locked down before it serves on an address with a token), a reconciler (internal/reconcile), which
  attaches the enabled sources through adapters (internal/source/...), and keeps both across reloads.  Queries are
  judged by a policy (internal/policy).  A management protocol on a local socket (internal/control) asks for the
  status, a reload, a token rotation, or a pairing (internal/pairing), by which a browser tab gets the endpoint and
  the token once.  Credentials are in a store outside the configuration (internal/secrets).  The diagnostics
  (internal/doctor) check all of this from outside.  Tools of the build (src/cmd) pack a release, write and verify its
  manifest, and try it out.

  \<^bold>\<open>The theories\<close>, in the order of their imports; each models the files named in its own introduction.

  \<^item> Prelude: strings of bytes, association lists as Go maps, the collections of simplification rules.
  \<^item> Errors: errors as values, errors.As/Is, ClassifyError (src/errors.go).
  \<^item> Protocol, Identity: version constants, the identity and its validation (src/version.go,
    src/protocol/v2/identity.go), its JSON and the strict decoder.
  \<^item> Lifecycle: the service facade (src/service.go), both as sequential operations and as the critical sections of
    concurrent calls, a step relation.
  \<^item> Clock: the text of a time in JSON (RFC 3339 with the dates of the proleptic Gregorian calendar) and its reader, of
    package time, shown to be inverse.
  \<^item> Json, Jsonenc, JsonRound, JsonLayout, JsonTree, Gostd, Sha256: what the program uses of encoding/json, strings, strconv, net, path/filepath
    and crypto/sha256.  Json decodes to values with the library's limits and rejections; Jsonenc holds structs, raw texts and
    the encoder; JsonRound the round trip of the two for compact texts; JsonLayout what indenting and compacting do to a text; JsonTree
    trees of values with their texts, in any spacing (locale \<open>spacing\<close>), and how they decode.
  \<^item> Policy, PolicyHandle: the decision on a query over an abstract parser (src/internal/policy/policy.go), and what its
    installation opens and closes.
  \<^item> Source: definitions, aliases, adapter registry, metadata rows, reconnect backoff (src/internal/source).
  \<^item> SqlText, Engine, EngineSafety: SQL texts and the engine (src/internal/engine/engine.go).  The state is the record
    \<open>engine\<close>; everything outside is an environment \<open>env\<close> that answers each call given the calls before it, and the
    history of calls \<open>hist\<close> is part of the state.
  \<^item> Secrets, Keychains: the stores of src/internal/secrets; Memory over an explicit heap of buffers; the stores of macOS and
    Windows over the functions of their services, in which references share items.
  \<^item> Config: documents, validation, the store and the service of src/internal/config over a \<open>disk\<close> whose system calls an
    \<open>fs_oracle\<close> can fail, with the log of every state a crash can leave.  ConfigRound: what Save writes, Load reads.
  \<^item> Adapters: the four adapters as records of methods over the engine and its history.
  \<^item> Reconcile, WorldSafety: the manager of src/internal/reconcile over any adapters that keep their contract, its
    factories and fingerprints; WorldSafety carries the engine's invariant through every operation of the manager.
  \<^item> App: the application runtime (src/internal/app/runtime.go) over numbered engines, each with an environment of its own.
  \<^item> Pairing, Control, Daemon: src/internal/pairing/pairing.go, the protocol of src/internal/control, and their composition in
    src/internal/cli/daemon.go and the serve command: the daemon's operations are the models of the other theories.
    ControlServer: the server of the protocol as goroutines, a step relation for what arrives and one for what they do.
    ControlJson: the JSON of the responses as the server writes and the client reads it, with the times of Clock.
  \<^item> Doctor: src/internal/doctor/doctor.go.  ControlCall: the client of the protocol over the server, and the doctor as such a client.
  \<^item> Cli, CliSource: the commands of src/internal/cli/cli.go with their flags, over the disk, the credential store and a
    control call; what source add guarantees.  Served: a source on its way from the flags through the configuration file to
    the running manager, over the theories of all parts that it passes.  Serve: the serve command until it is ready, and
    src/cmd/releasesmoke, which starts it.
  \<^item> Release, ReleaseTools, ReleaseRound, ReleasePack: the release manifest (src/protocol/v2/release.go) with what net/url
    accepts, and src/cmd/releasemanifest, packagemanifests and releasepack over the disk of the configuration store.
  \<^item> Platform: the default paths, and what is different on Windows (file replacement, the named pipe).

  \<^bold>\<open>Interfaces.\<close>  The locales state what a client relies on, and each is interpreted on the models: \<open>credential_store\<close> and
  \<open>exact_store\<close> (Memory, Environment, the lazily opened store and the Secret Service store while its collection is
  unlocked; Config and Doctor are its clients), \<open>named_store\<close>
  (Environment, Keychain, Credential Manager), \<open>source_adapters\<close> (the engine's four adapters), \<open>kept_world\<close> (the engine's
  invariant under the adapters), \<open>spacing\<close> (indented and compact JSON).

  \<^bold>\<open>What is shown.\<close>  Each property stands under its number in the theory of its component.  The main ones: the engine
  serves only on loopback and only after policy, hardening and lock, only its own endpoint and token in every reachable
  state, and holds everything or nothing (EngineSafety); of all engines of a runtime at most the current one holds
  anything, a reload does not move a paired client and serves the document (App); a reload reconciles or rolls back, and a
  start tolerates sources that fail (Reconcile); a save is atomic in every state a crash can leave, what it writes is what a load reads, and adding
  a source keeps the credentials of the others over any store (Config, ConfigRound); the policy admits exactly the inspected statements (Policy); SQL texts and ODBC connection strings read
  back as intended (SqlText, Adapters); stores refine maps and leave no copies, and the
  Secret Service store returns what it was given whenever it can be asked (Secrets); the service's lifecycle holds
  under every interleaving (Lifecycle); the token is given once, to a client that reads it back (Pairing), and always names
  a running engine of the daemon (Daemon); every control request is answered by the payload asked for or
  by a fixed public failure (Control), the client reads the answer as it was given
  and the diagnostics judge the daemon through it (ControlCall), and the server
  answers what it accepted before Close returns, which it does in a bounded number of steps (ControlServer); the diagnostics succeed exactly
  when all is in order (Doctor); a password given to the command line shows in neither the configuration file, the output nor the
  errors (CliSource), and a
  source it adds is loaded from the file and prepared by the daemon as its flags describe (Served); a release that is packed and described verifies, a release that
  verifies is what its manifest says, and packing is reproducible (Release...).

  \<^bold>\<open>Bounds and fuel.\<close>  The JSON parser runs with fuel \<open>2 * length + 2\<close>, shown to be enough (Json); other recursions
  terminate by the length of their input.  Integers of Go are \<open>int\<close>, wrapped at 64 bits where a computation can leave the
  range (durations, time to live, backoff), and words in SHA-256.  Strings are lists of bytes; UTF-8 is decoded where the
  code decodes it.

  \<^bold>\<open>Not modelled.\<close>  DuckDB, its parser and extensions, databases behind the adapters, Secret Service, Keychain,
  Credential Manager and sockets are environments that answer calls; what is relied on is a named hypothesis with a witness.
  So are the formats of archives and, in URLs, IP literals in brackets.  Deadlines and contexts are left out, except where
  the code turns them into an error of a call.  Left out as well: logging and net/http's routing.  What time.Parse accepts
  beyond RFC 3339 is a parameter of the reader of times, and a status whose state is none of this version's is an error of the
  client's decoder, where the code keeps its text.  A number in a map of any values keeps its literal, where the code has a
  float64.  A repeated member for an array of structs is decoded afresh, where the library reuses the elements it
  has.  Where strings are compared after JSON they are UTF-8 in the round-trip lemmas, since the encoder replaces invalid
  bytes.  An archive is written in one final write, and the settings of its headers belong to the parameter for its
  format; the diagnostics take every error of the decoder as one of syntax.  The output of the release smoke test's
  child and what its control endpoint answers are the machine's.
\<close>

end
